(* ===== verification/Pinba_Prelude.thy ===== *)
theory Pinba_Prelude
  imports Main "HOL-Library.Word"
begin

text \<open>
  Shared vocabulary of the development: the fixed-width integer types of the engine, the
  limits of \<^verbatim>\<open>src/pinba_limits.h\<close>, and the generic facts on lists, association lists and
  words that the component theories use.
\<close>

section \<open>Types and limits\<close>

type_synonym u16 = "16 word"
type_synonym u32 = "32 word"
type_synonym u64 = "64 word"

named_theorems pinba_inv \<open>preservation of the well-formedness invariants\<close>
named_theorems pinba_frame \<open>fields an operation leaves unchanged\<close>

definition PINBA_HOSTNAME_SIZE :: nat where [simp]: "PINBA_HOSTNAME_SIZE = 65"
definition PINBA_SERVER_NAME_SIZE :: nat where [simp]: "PINBA_SERVER_NAME_SIZE = 65"
definition PINBA_SCRIPT_NAME_SIZE :: nat where [simp]: "PINBA_SCRIPT_NAME_SIZE = 129"
definition PINBA_STATUS_SIZE :: nat where [simp]: "PINBA_STATUS_SIZE = 33"
definition PINBA_SCHEMA_SIZE :: nat where [simp]: "PINBA_SCHEMA_SIZE = 17"
definition PINBA_TAG_NAME_SIZE :: nat where [simp]: "PINBA_TAG_NAME_SIZE = 65"
definition PINBA_TAG_VALUE_SIZE :: nat where [simp]: "PINBA_TAG_VALUE_SIZE = 65"
definition PINBA_TIMER_POOL_GROW_SIZE :: nat where [simp]: "PINBA_TIMER_POOL_GROW_SIZE = 2621440"

abbreviation NUL :: char where "NUL \<equiv> CHR 0x00"

section \<open>Lists\<close>

lemma takeWhile_append_stop:
  "\<forall>x \<in> set xs. P x \<Longrightarrow> \<not> P y \<Longrightarrow> takeWhile P (xs @ y # ys) = xs"
  by (induction xs) auto

lemma filter_snoc: "filter P (xs @ [x]) = (if P x then filter P xs @ [x] else filter P xs)"
  by simp

lemma hd_append_single: "hd (xs @ [x]) = (if xs = [] then x else hd xs)"
  by (cases xs) auto

lemma separator_inj:
  assumes "a @ c # b = a' @ c # b'" and "c \<notin> set a" and "c \<notin> set a'"
  shows "a = a' \<and> b = b'"
  using assms
proof (induction a arbitrary: a')
  case Nil
  then show ?case by (cases a') auto
next
  case (Cons x xs)
  then show ?case by (cases a') auto
qed

section \<open>Association lists\<close>

text \<open>
  Update of an association list in place (an existing key keeps its position) and deletion
  of a key; the shape of the hash tables of the engine.
\<close>

fun alist_put :: "'k \<Rightarrow> 'v \<Rightarrow> ('k \<times> 'v) list \<Rightarrow> ('k \<times> 'v) list" where
  "alist_put k v [] = [(k, v)]"
| "alist_put k v ((k', v') # ps) =
     (if k = k' then (k, v) # ps else (k', v') # alist_put k v ps)"

fun alist_del :: "'k \<Rightarrow> ('k \<times> 'v) list \<Rightarrow> ('k \<times> 'v) list" where
  "alist_del k [] = []"
| "alist_del k ((k', v') # ps) = (if k = k' then ps else (k', v') # alist_del k ps)"

lemma map_of_alist_put [simp]: "map_of (alist_put k v ps) = (map_of ps)(k \<mapsto> v)"
  by (induction ps) auto

lemma keys_alist_put: "fst ` set (alist_put k v ps) = insert k (fst ` set ps)"
  by (induction k v ps rule: alist_put.induct) (simp_all add: insert_commute)

lemma distinct_alist_put [simp]:
  "distinct (map fst ps) \<Longrightarrow> distinct (map fst (alist_put k v ps))"
proof (induction ps)
  case (Cons p ps)
  then show ?case using keys_alist_put [of k v ps] by (cases p) auto
qed simp

lemma length_alist_put:
  "length (alist_put k v ps) = (if k \<in> fst ` set ps then length ps else Suc (length ps))"
  by (induction k v ps rule: alist_put.induct) simp_all

lemma keys_alist_del_subset: "fst ` set (alist_del k ps) \<subseteq> fst ` set ps"
  by (induction k ps rule: alist_del.induct) (auto simp: subset_iff)

lemma distinct_alist_del [simp]:
  "distinct (map fst ps) \<Longrightarrow> distinct (map fst (alist_del k ps))"
proof (induction ps)
  case (Cons p ps)
  then show ?case using keys_alist_del_subset [of k ps] by (cases p) auto
qed simp

lemma map_of_alist_del [simp]:
  "distinct (map fst ps) \<Longrightarrow> map_of (alist_del k ps) = (map_of ps)(k := None)"
proof (induction ps)
  case (Cons p ps)
  then show ?case
    by (cases p) (auto simp: fun_eq_iff map_of_eq_None_iff)
qed auto

lemma length_alist_del:
  "length (alist_del k ps) = (if k \<in> fst ` set ps then length ps - 1 else length ps)"
proof (induction ps)
  case (Cons p ps)
  then show ?case by (cases p; cases ps) auto
qed simp

lemma card_keys_alist: "distinct (map fst ps) \<Longrightarrow> card (dom (map_of ps)) = length ps"
  by (metis distinct_card dom_map_of_conv_image_fst length_map list.set_map)

section \<open>Words\<close>

lemma unat_add_1_less:
  fixes i hs :: "'a::len word"
  assumes "i < hs"
  shows "unat (i + 1) = unat i + 1"
proof -
  have "unat i + 1 < 2 ^ LENGTH('a)"
    using assms unsigned_less [of hs] by (simp add: word_less_nat_alt less_trans_Suc)
  then show ?thesis by (simp add: unat_word_ariths)
qed

lemma unat_pred: "0 < hs \<Longrightarrow> unat (hs - 1) = unat hs - 1" for hs :: "'a::len word"
  by (simp add: unat_sub word_less_nat_alt word_le_nat_alt)

lemma ucast_ucast_small: "unat w < 2 ^ 32 \<Longrightarrow> (ucast (ucast w :: u32) :: u64) = w" for w :: u64
  by (rule unsigned_word_eqI [where ?'a = nat]) (simp add: unsigned_ucast_eq unsigned_take_bit_eq take_bit_nat_eq_self)

lemma of_nat_word64_eq_iff:
  "m < 2 ^ 64 \<Longrightarrow> n < 2 ^ 64 \<Longrightarrow> (of_nat m :: u64) = of_nat n \<longleftrightarrow> m = n"
  by (simp add: of_nat_eq_iff word_of_nat_eq_iff take_bit_nat_eq_self)

lemma of_nat_word64_eq_0_iff: "n < 2 ^ 64 \<Longrightarrow> (of_nat n :: u64) = 0 \<longleftrightarrow> n = 0"
  using of_nat_word64_eq_iff [of n 0] by simp

lemma of_nat_word64_eq_1_iff: "n < 2 ^ 64 \<Longrightarrow> (of_nat n :: u64) = 1 \<longleftrightarrow> n = 1"
  using of_nat_word64_eq_iff [of n 1] by simp

lemma of_nat_word64_less_iff:
  "m < 2 ^ 64 \<Longrightarrow> n < 2 ^ 64 \<Longrightarrow> (of_nat m :: u64) < of_nat n \<longleftrightarrow> m < n"
  by (simp add: word_less_nat_alt unat_of_nat)

lemma unat_of_nat_word64: "n < 2 ^ 64 \<Longrightarrow> unat (of_nat n :: u64) = n"
  by (simp add: unat_of_nat)

lemma unat_less_64: "unat (w :: u64) < 2 ^ 64"
proof -
  have "unat w < 2 ^ LENGTH(64)" by (rule unsigned_less)
  then show ?thesis by simp
qed

lemma uint_of_nat_word64: "n < 2 ^ 64 \<Longrightarrow> uint (of_nat n :: u64) = int n"
  by (simp add: unsigned_of_nat take_bit_nat_eq_self)

end
