(* ===== verification/Pinba_Maps.thy ===== *)
theory Pinba_Maps
  imports Pinba_Prelude
begin

text \<open>
  The two hash tables of the engine: \<^verbatim>\<open>pinba_map\<close> (\<^verbatim>\<open>src/pinba_map.cc\<close>, keyed by C strings)
  and \<^verbatim>\<open>pinba_lmap\<close> (\<^verbatim>\<open>src/pinba_lmap.cc\<close>, keyed by 64-bit integers). A table is the list of
  its entries in iteration order and \<open>None\<close> is the null pointer every entry point accepts.
  Where a new entry goes in the order of a \<^verbatim>\<open>std::unordered_map\<close> is unspecified; the model
  appends it, and no statement below depends on the position. The argument \<open>ok\<close> of an
  insertion says whether its allocations succeed. The locale \<open>keyed_table\<close> is the contract
  both tables offer to the rest of the engine.
\<close>

section \<open>pinba_map: tables keyed by strings\<close>

type_synonym 'v pinba_map = "(string \<times> 'v) list option"

definition map_data_add :: "bool \<Rightarrow> (string \<times> 'v) list \<Rightarrow> string \<Rightarrow> 'v \<Rightarrow> (string \<times> 'v) list \<times> int" where
  "map_data_add ok ps index v =
     (case map_of ps index of
        Some _ \<Rightarrow> (alist_put index v ps, 0)
      | None \<Rightarrow> if ok then (alist_put index v ps, 0) else (ps, - 1))"

definition map_data_delete :: "(string \<times> 'v) list \<Rightarrow> string \<Rightarrow> (string \<times> 'v) list \<times> int" where
  "map_data_delete ps index =
     (case map_of ps index of Some _ \<Rightarrow> (alist_del index ps, 0) | None \<Rightarrow> (ps, 0))"

text \<open>\<^verbatim>\<open>snprintf(index_to_fill, buf_size, "%s", key)\<close>.\<close>

definition fill_index :: "nat \<Rightarrow> string \<Rightarrow> string" where
  "fill_index buf_size key = take (buf_size - 1) key"

definition map_data_first :: "(string \<times> 'v) list \<Rightarrow> nat \<Rightarrow> (string \<times> 'v) option" where
  "map_data_first ps buf_size =
     (case ps of [] \<Rightarrow> None | (k, v) # _ \<Rightarrow> Some (fill_index buf_size k, v))"

fun after_key :: "'k \<Rightarrow> ('k \<times> 'v) list \<Rightarrow> ('k \<times> 'v) list" where
  "after_key k [] = []"
| "after_key k ((k', v) # ps) = (if k = k' then ps else after_key k ps)"

definition map_data_next :: "(string \<times> 'v) list \<Rightarrow> string \<Rightarrow> nat \<Rightarrow> (string \<times> 'v) option" where
  "map_data_next ps index buf_size =
     (case map_of ps index of
        None \<Rightarrow> None
      | Some _ \<Rightarrow> map_data_first (after_key index ps) buf_size)"

definition pinba_map_create :: "'v pinba_map" where
  "pinba_map_create = Some []"

definition pinba_map_first :: "'v pinba_map \<Rightarrow> nat \<Rightarrow> (string \<times> 'v) option" where
  "pinba_map_first m buf_size =
     (case m of None \<Rightarrow> None | Some ps \<Rightarrow> map_data_first ps buf_size)"

definition pinba_map_next :: "'v pinba_map \<Rightarrow> string \<Rightarrow> nat \<Rightarrow> (string \<times> 'v) option" where
  "pinba_map_next m index buf_size =
     (case m of None \<Rightarrow> None | Some ps \<Rightarrow> map_data_next ps index buf_size)"

definition pinba_map_get :: "'v pinba_map \<Rightarrow> string \<Rightarrow> 'v option" where
  "pinba_map_get m index = (case m of None \<Rightarrow> None | Some ps \<Rightarrow> map_of ps index)"

text \<open>
  \<^verbatim>\<open>pinba_map_add\<close> ignores the result of \<^verbatim>\<open>data_add\<close>; its callers are in paths whose
  allocations the engine does not check, so the model has it succeed.
\<close>

definition pinba_map_add :: "'v pinba_map \<Rightarrow> string \<Rightarrow> 'v \<Rightarrow> 'v pinba_map" where
  "pinba_map_add m index v =
     Some (fst (map_data_add True (case m of None \<Rightarrow> [] | Some ps \<Rightarrow> ps) index v))"

definition pinba_map_delete :: "'v pinba_map \<Rightarrow> string \<Rightarrow> 'v pinba_map \<times> int" where
  "pinba_map_delete m index =
     (case m of
        None \<Rightarrow> (None, - 1)
      | Some ps \<Rightarrow>
          let ps' = fst (map_data_delete ps index)
          in (Some ps', if ps' = [] then - 1 else 0))"

definition pinba_map_count :: "'v pinba_map \<Rightarrow> nat" where
  "pinba_map_count m = (case m of None \<Rightarrow> 0 | Some ps \<Rightarrow> length ps)"

definition pinba_map_delete_if :: "'v pinba_map \<Rightarrow> ('v \<Rightarrow> bool) \<Rightarrow> 'v pinba_map \<times> nat" where
  "pinba_map_delete_if m predicate =
     (case m of
        None \<Rightarrow> (None, 0)
      | Some ps \<Rightarrow> (Some (filter (\<lambda>(k, v). \<not> predicate v) ps),
                    length (filter (\<lambda>(k, v). predicate v) ps)))"

definition pinba_map_try_add :: "bool \<Rightarrow> 'v pinba_map \<Rightarrow> string \<Rightarrow> 'v \<Rightarrow> 'v pinba_map \<times> bool" where
  "pinba_map_try_add ok m index v =
     (case m of
        Some ps \<Rightarrow> (case map_data_add ok ps index v of (ps', r) \<Rightarrow> (Some ps', r = 0))
      | None \<Rightarrow> (case map_data_add ok [] index v of
                   (ps', r) \<Rightarrow> if r \<noteq> 0 then (None, False) else (Some ps', True)))"

section \<open>pinba_lmap: tables keyed by integers\<close>

type_synonym 'v pinba_lmap = "(u64 \<times> 'v) list option"

definition pinba_lmap_create :: "'v pinba_lmap" where
  "pinba_lmap_create = Some []"

definition lmap_data_first :: "(u64 \<times> 'v) list \<Rightarrow> (u64 \<times> 'v) option" where
  "lmap_data_first ps = (case ps of [] \<Rightarrow> None | p # _ \<Rightarrow> Some p)"

definition pinba_lmap_first :: "'v pinba_lmap \<Rightarrow> (u64 \<times> 'v) option" where
  "pinba_lmap_first m = (case m of None \<Rightarrow> None | Some ps \<Rightarrow> lmap_data_first ps)"

definition pinba_lmap_next :: "'v pinba_lmap \<Rightarrow> u64 \<Rightarrow> (u64 \<times> 'v) option" where
  "pinba_lmap_next m index =
     (case m of
        None \<Rightarrow> None
      | Some ps \<Rightarrow> (case map_of ps index of
                      None \<Rightarrow> None
                    | Some _ \<Rightarrow> lmap_data_first (after_key index ps)))"

definition pinba_lmap_get :: "'v pinba_lmap \<Rightarrow> u64 \<Rightarrow> 'v option" where
  "pinba_lmap_get m index = (case m of None \<Rightarrow> None | Some ps \<Rightarrow> map_of ps index)"

definition pinba_lmap_add :: "'v pinba_lmap \<Rightarrow> u64 \<Rightarrow> 'v \<Rightarrow> 'v pinba_lmap" where
  "pinba_lmap_add m index v = Some (alist_put index v (case m of None \<Rightarrow> [] | Some ps \<Rightarrow> ps))"

definition pinba_lmap_delete :: "'v pinba_lmap \<Rightarrow> u64 \<Rightarrow> 'v pinba_lmap \<times> int" where
  "pinba_lmap_delete m index =
     (case m of
        None \<Rightarrow> (None, - 1)
      | Some ps \<Rightarrow>
          let ps' = (case map_of ps index of Some _ \<Rightarrow> alist_del index ps | None \<Rightarrow> ps)
          in (Some ps', if ps' = [] then - 1 else 0))"

definition pinba_lmap_count :: "'v pinba_lmap \<Rightarrow> nat" where
  "pinba_lmap_count m = (case m of None \<Rightarrow> 0 | Some ps \<Rightarrow> length ps)"

definition pinba_lmap_try_add :: "bool \<Rightarrow> 'v pinba_lmap \<Rightarrow> u64 \<Rightarrow> 'v \<Rightarrow> 'v pinba_lmap \<times> bool" where
  "pinba_lmap_try_add ok m index v =
     (let ps = (case m of None \<Rightarrow> [] | Some ps \<Rightarrow> ps)
      in if ok \<or> map_of ps index \<noteq> None then (Some (alist_put index v ps), True)
         else (m, False))"

section \<open>The contract of a table\<close>

text \<open>
  What the clients of a table rely on: a lookup after an insertion or a deletion, the
  invariant every operation keeps, and the entry count.
\<close>

locale keyed_table =
  fixes tget :: "'m \<Rightarrow> 'k \<Rightarrow> 'v option"
    and tadd :: "'m \<Rightarrow> 'k \<Rightarrow> 'v \<Rightarrow> 'm"
    and tdel :: "'m \<Rightarrow> 'k \<Rightarrow> 'm"
    and tcount :: "'m \<Rightarrow> nat"
    and tinv :: "'m \<Rightarrow> bool"
    and tnull :: 'm
  assumes get_null: "tget tnull = Map.empty"
    and inv_null: "tinv tnull"
    and get_add: "tinv m \<Longrightarrow> tget (tadd m k v) = (tget m)(k \<mapsto> v)"
    and get_del: "tinv m \<Longrightarrow> tget (tdel m k) = (tget m)(k := None)"
    and inv_add: "tinv m \<Longrightarrow> tinv (tadd m k v)"
    and inv_del: "tinv m \<Longrightarrow> tinv (tdel m k)"
    and finite_dom: "tinv m \<Longrightarrow> finite (dom (tget m))"
    and count_card: "tinv m \<Longrightarrow> tcount m = card (dom (tget m))"
begin

lemma count_null: "tcount tnull = 0"
  using count_card [OF inv_null] get_null by simp

lemma count_add_new: "tinv m \<Longrightarrow> tget m k = None \<Longrightarrow> tcount (tadd m k v) = Suc (tcount m)"
  by (simp add: count_card inv_add get_add finite_dom domIff)

lemma count_add_old: "tinv m \<Longrightarrow> tget m k = Some w \<Longrightarrow> tcount (tadd m k v) = tcount m"
  by (simp add: count_card inv_add get_add insert_absorb domI)

lemma count_del_old: "tinv m \<Longrightarrow> tget m k = Some w \<Longrightarrow> Suc (tcount (tdel m k)) = tcount m"
  by (metis card_Suc_Diff1 count_card domI dom_fun_upd finite_dom get_del inv_del)

lemma count_del_absent: "tinv m \<Longrightarrow> tget m k = None \<Longrightarrow> tcount (tdel m k) = tcount m"
  by (simp add: count_card inv_del get_del fun_upd_idem)

lemma count_0_iff: "tinv m \<Longrightarrow> tcount m = 0 \<longleftrightarrow> tget m = Map.empty"
  by (simp add: count_card finite_dom card_0_eq dom_eq_empty_conv)

lemma add_del_roundtrip:
  "tinv m \<Longrightarrow> tget m k = None \<Longrightarrow> tget (tdel (tadd m k v) k) = tget m"
  by (auto simp: get_add get_del inv_add fun_eq_iff)

end

definition map_wf :: "('k \<times> 'v) list option \<Rightarrow> bool" where
  "map_wf m \<longleftrightarrow> (case m of None \<Rightarrow> True | Some ps \<Rightarrow> distinct (map fst ps))"

lemma map_wf_None [simp]: "map_wf None"
  by (simp add: map_wf_def)

lemma map_data_add_ok [simp]: "fst (map_data_add True ps k v) = alist_put k v ps"
  by (simp add: map_data_add_def split: option.splits)

lemma alist_del_absent [simp]: "map_of ps k = None \<Longrightarrow> alist_del k ps = ps"
  by (induction ps) (auto split: if_splits)

lemma map_data_delete_eq [simp]: "fst (map_data_delete ps k) = alist_del k ps"
  by (simp add: map_data_delete_def split: option.splits)

interpretation smap: keyed_table pinba_map_get pinba_map_add "\<lambda>m k. fst (pinba_map_delete m k)"
    pinba_map_count map_wf None
proof (unfold_locales, goal_cases)
  case (3 m k v) then show ?case
    by (cases m) (auto simp: pinba_map_get_def pinba_map_add_def map_wf_def fun_eq_iff)
next
  case (4 m k) then show ?case
    by (cases m) (auto simp: pinba_map_get_def pinba_map_delete_def map_wf_def Let_def fun_eq_iff)
next
  case (5 m k v) then show ?case
    by (cases m) (auto simp: pinba_map_add_def map_wf_def)
next
  case (6 m k) then show ?case
    by (cases m) (auto simp: pinba_map_delete_def map_wf_def Let_def)
next
  case (7 m) then show ?case
    by (cases m) (simp_all add: pinba_map_get_def [abs_def] finite_dom_map_of)
next
  case (8 m) then show ?case
    by (cases m) (simp_all add: pinba_map_get_def [abs_def] pinba_map_count_def map_wf_def
        card_keys_alist)
qed (auto simp: pinba_map_get_def map_wf_def)

interpretation lmap: keyed_table pinba_lmap_get pinba_lmap_add "\<lambda>m k. fst (pinba_lmap_delete m k)"
    pinba_lmap_count map_wf None
proof (unfold_locales, goal_cases)
  case (3 m k v) then show ?case
    by (cases m) (auto simp: pinba_lmap_get_def pinba_lmap_add_def map_wf_def fun_eq_iff)
next
  case (4 m k) then show ?case
    by (cases m) (auto simp: pinba_lmap_get_def pinba_lmap_delete_def map_wf_def Let_def fun_eq_iff
        split: option.splits)
next
  case (5 m k v) then show ?case
    by (cases m) (auto simp: pinba_lmap_add_def map_wf_def)
next
  case (6 m k) then show ?case
    by (cases m) (auto simp: pinba_lmap_delete_def map_wf_def Let_def split: option.splits)
next
  case (7 m) then show ?case
    by (cases m) (simp_all add: pinba_lmap_get_def [abs_def] finite_dom_map_of)
next
  case (8 m) then show ?case
    by (cases m) (simp_all add: pinba_lmap_get_def [abs_def] pinba_lmap_count_def map_wf_def
        card_keys_alist)
qed (auto simp: pinba_lmap_get_def map_wf_def)

lemmas smap_simps = smap.get_null smap.get_add smap.get_del smap.inv_add smap.inv_del
lemmas lmap_simps = lmap.get_null lmap.get_add lmap.get_del lmap.inv_add lmap.inv_del

end
