(* ===== verification/Timeval.thy ===== *)
theory Timeval
  imports Pinba_Prelude
begin

text \<open>
  The seconds/microseconds pairs of the engine (\<^verbatim>\<open>struct timeval\<close>) and the macros
  \<^verbatim>\<open>pinba_timeradd\<close>, \<^verbatim>\<open>pinba_timersub\<close> and \<^verbatim>\<open>pinba_timercmp\<close> of \<^verbatim>\<open>src/pinba.h\<close>. Both fields are
  signed 64-bit integers in the source; the sums the engine keeps stay far inside that
  range, so they are modelled as \<open>int\<close>. A pair is normalised when its microseconds lie
  in \<open>[0, 1000000)\<close>. On normalised pairs the macros are the group of integers, read
  through the total number of microseconds.
\<close>

section \<open>The macros\<close>

record pinba_timeval =
  tv_sec :: int
  tv_usec :: int

definition null_timeval :: pinba_timeval where
  "null_timeval = \<lparr>tv_sec = 0, tv_usec = 0\<rparr>"

definition pinba_timeradd :: "pinba_timeval \<Rightarrow> pinba_timeval \<Rightarrow> pinba_timeval" where
  "pinba_timeradd a b =
     (let s = tv_sec a + tv_sec b; u = tv_usec a + tv_usec b
      in if u \<ge> 1000000 then \<lparr>tv_sec = s + 1, tv_usec = u - 1000000\<rparr>
         else \<lparr>tv_sec = s, tv_usec = u\<rparr>)"

definition pinba_timersub :: "pinba_timeval \<Rightarrow> pinba_timeval \<Rightarrow> pinba_timeval" where
  "pinba_timersub a b =
     (let s = tv_sec a - tv_sec b; u = tv_usec a - tv_usec b
      in if u < 0 then \<lparr>tv_sec = s - 1, tv_usec = u + 1000000\<rparr>
         else \<lparr>tv_sec = s, tv_usec = u\<rparr>)"

text \<open>
  \<^verbatim>\<open>pinba_timercmp(a, b, CMP)\<close> compares the seconds, and the microseconds when the seconds
  are equal; the engine uses it with \<open><\<close>, \<open>>\<close> and \<open>==\<close>.
\<close>

definition pinba_timercmp :: "(int \<Rightarrow> int \<Rightarrow> bool) \<Rightarrow> pinba_timeval \<Rightarrow> pinba_timeval \<Rightarrow> bool" where
  "pinba_timercmp cmp a b =
     (if tv_sec a = tv_sec b then cmp (tv_usec a) (tv_usec b) else cmp (tv_sec a) (tv_sec b))"

section \<open>Normalised pairs and their microseconds\<close>

definition timeval_ok :: "pinba_timeval \<Rightarrow> bool" where
  "timeval_ok t \<longleftrightarrow> 0 \<le> tv_usec t \<and> tv_usec t < 1000000"

definition usecs :: "pinba_timeval \<Rightarrow> int" where
  "usecs t = tv_sec t * 1000000 + tv_usec t"

definition of_usecs :: "int \<Rightarrow> pinba_timeval" where
  "of_usecs u = \<lparr>tv_sec = u div 1000000, tv_usec = u mod 1000000\<rparr>"

lemma timeval_ok_null [simp]: "timeval_ok null_timeval"
  by (simp add: timeval_ok_def null_timeval_def)

lemma usecs_null [simp]: "usecs null_timeval = 0"
  by (simp add: usecs_def null_timeval_def)

lemma timeval_ok_of_usecs [simp]: "timeval_ok (of_usecs u)"
  by (simp add: timeval_ok_def of_usecs_def)

lemma usecs_of_usecs [simp]: "usecs (of_usecs u) = u"
  by (simp add: usecs_def of_usecs_def)

lemma of_usecs_usecs [simp]: "timeval_ok t \<Longrightarrow> of_usecs (usecs t) = t"
  by (simp add: of_usecs_def usecs_def timeval_ok_def)

lemma of_usecs_0: "of_usecs 0 = null_timeval"
  by (simp add: of_usecs_def null_timeval_def)

lemma usecs_timeradd [simp]: "usecs (pinba_timeradd a b) = usecs a + usecs b"
  by (simp add: usecs_def pinba_timeradd_def Let_def algebra_simps)

lemma usecs_timersub [simp]: "usecs (pinba_timersub a b) = usecs a - usecs b"
  by (simp add: usecs_def pinba_timersub_def Let_def algebra_simps)

lemma timeval_ok_timeradd [simp, pinba_inv]:
  "timeval_ok a \<Longrightarrow> timeval_ok b \<Longrightarrow> timeval_ok (pinba_timeradd a b)"
  by (auto simp: timeval_ok_def pinba_timeradd_def Let_def)

lemma timeval_ok_timersub [simp, pinba_inv]:
  "timeval_ok a \<Longrightarrow> timeval_ok b \<Longrightarrow> timeval_ok (pinba_timersub a b)"
  by (auto simp: timeval_ok_def pinba_timersub_def Let_def)

lemma timeval_eq_iff:
  "timeval_ok a \<Longrightarrow> timeval_ok b \<Longrightarrow> a = b \<longleftrightarrow> usecs a = usecs b"
  by (metis of_usecs_usecs)

lemma timeradd_of_usecs:
  "timeval_ok b \<Longrightarrow> pinba_timeradd (of_usecs u) b = of_usecs (u + usecs b)"
  by (simp add: timeval_eq_iff)

lemma timersub_of_usecs:
  "timeval_ok b \<Longrightarrow> pinba_timersub (of_usecs u) b = of_usecs (u - usecs b)"
  by (simp add: timeval_eq_iff)

lemma timersub_timeradd:
  "timeval_ok a \<Longrightarrow> timeval_ok b \<Longrightarrow> pinba_timersub (pinba_timeradd a b) b = a"
  by (simp add: timeval_eq_iff)

text \<open>The comparison macro is the order of the total microseconds.\<close>

lemma timercmp_less:
  "timeval_ok a \<Longrightarrow> timeval_ok b \<Longrightarrow> pinba_timercmp (<) a b \<longleftrightarrow> usecs a < usecs b"
  by (auto simp: pinba_timercmp_def timeval_ok_def usecs_def)

lemma timercmp_greater:
  "timeval_ok a \<Longrightarrow> timeval_ok b \<Longrightarrow> pinba_timercmp (>) a b \<longleftrightarrow> usecs b < usecs a"
  by (auto simp: pinba_timercmp_def timeval_ok_def usecs_def)

lemma timercmp_eq:
  "timeval_ok a \<Longrightarrow> timeval_ok b \<Longrightarrow> pinba_timercmp (=) a b \<longleftrightarrow> usecs a = usecs b"
  by (auto simp: pinba_timercmp_def timeval_ok_def usecs_def)

end
