(* ===== verification/Ieee_Float.thy ===== *)
theory Ieee_Float
  imports Pinba_Prelude "HOL-Library.Log_Nat"
begin

text \<open>
  The IEEE-754 arithmetic behind the engine's \<^verbatim>\<open>float\<close> and \<^verbatim>\<open>double\<close> fields: a value is a
  rational number, an infinity or NaN, and every operation rounds its exact result to
  nearest, ties to even, at the precision of its type, with gradual underflow and overflow
  to infinity. The sign of a zero is not represented: no code of the engine observes it.
  The theory gives the one fact the engine's exact results rest on: a number on the grid of
  the type (\<open>m * 2^q\<close> with a mantissa that fits) is its own rounding.
\<close>

section \<open>Values and rounding\<close>

datatype fp = FNum rat | FInf bool | FNaN

text \<open>The exponent of a positive rational: \<open>2 powi (flog2 x) \<le> x < 2 powi (flog2 x + 1)\<close>.\<close>

definition flog2 :: "rat \<Rightarrow> int" where
  "flog2 x =
     (let (a, b) = quotient_of x; e = bitlen a - bitlen b
      in if 2 powi e \<le> x then e else e - 1)"

definition round_even :: "rat \<Rightarrow> int" where
  "round_even y =
     (let f = \<lfloor>y\<rfloor>; d = y - of_int f
      in if d < 1 / 2 then f else if d > 1 / 2 then f + 1 else if even f then f else f + 1)"

definition fround :: "int \<Rightarrow> int \<Rightarrow> int \<Rightarrow> rat \<Rightarrow> fp" where
  "fround p emin emax x =
     (if x = 0 then FNum 0
      else
        let q = max (flog2 \<bar>x\<bar>) emin - (p - 1);
            y = of_int (round_even (x / 2 powi q)) * 2 powi q
        in if 2 powi (emax + 1) \<le> \<bar>y\<bar> then FInf (x < 0) else FNum y)"

abbreviation round32 :: "rat \<Rightarrow> fp" where "round32 \<equiv> fround 24 (- 126) 127"
abbreviation round64 :: "rat \<Rightarrow> fp" where "round64 \<equiv> fround 53 (- 1022) 1023"

section \<open>Operations\<close>

fun fneg :: "fp \<Rightarrow> fp" where
  "fneg (FNum x) = FNum (- x)"
| "fneg (FInf s) = FInf (\<not> s)"
| "fneg FNaN = FNaN"

fun fadd :: "(rat \<Rightarrow> fp) \<Rightarrow> fp \<Rightarrow> fp \<Rightarrow> fp" where
  "fadd rnd (FNum x) (FNum y) = rnd (x + y)"
| "fadd rnd (FInf s) (FInf t) = (if s = t then FInf s else FNaN)"
| "fadd rnd (FInf s) (FNum y) = FInf s"
| "fadd rnd (FNum x) (FInf t) = FInf t"
| "fadd rnd FNaN _ = FNaN"
| "fadd rnd _ FNaN = FNaN"

definition fsub :: "(rat \<Rightarrow> fp) \<Rightarrow> fp \<Rightarrow> fp \<Rightarrow> fp" where
  "fsub rnd a b = fadd rnd a (fneg b)"

fun fmul :: "(rat \<Rightarrow> fp) \<Rightarrow> fp \<Rightarrow> fp \<Rightarrow> fp" where
  "fmul rnd (FNum x) (FNum y) = rnd (x * y)"
| "fmul rnd (FInf s) (FInf t) = FInf (s \<noteq> t)"
| "fmul rnd (FInf s) (FNum y) = (if y = 0 then FNaN else FInf (s \<noteq> (y < 0)))"
| "fmul rnd (FNum x) (FInf t) = (if x = 0 then FNaN else FInf ((x < 0) \<noteq> t))"
| "fmul rnd FNaN _ = FNaN"
| "fmul rnd _ FNaN = FNaN"

fun fdiv :: "(rat \<Rightarrow> fp) \<Rightarrow> fp \<Rightarrow> fp \<Rightarrow> fp" where
  "fdiv rnd (FNum x) (FNum y) =
     (if y = 0 then (if x = 0 then FNaN else FInf (x < 0)) else rnd (x / y))"
| "fdiv rnd (FInf s) (FInf t) = FNaN"
| "fdiv rnd (FInf s) (FNum y) = FInf (s \<noteq> (y < 0))"
| "fdiv rnd (FNum x) (FInf t) = FNum 0"
| "fdiv rnd FNaN _ = FNaN"
| "fdiv rnd _ FNaN = FNaN"

fun fless :: "fp \<Rightarrow> fp \<Rightarrow> bool" where
  "fless (FNum x) (FNum y) = (x < y)"
| "fless (FInf s) (FInf t) = (s \<and> \<not> t)"
| "fless (FInf s) (FNum y) = s"
| "fless (FNum x) (FInf t) = (\<not> t)"
| "fless _ _ = False"

fun fle :: "fp \<Rightarrow> fp \<Rightarrow> bool" where
  "fle (FNum x) (FNum y) = (x \<le> y)"
| "fle (FInf s) (FInf t) = (s \<or> \<not> t)"
| "fle (FInf s) (FNum y) = s"
| "fle (FNum x) (FInf t) = (\<not> t)"
| "fle _ _ = False"

fun fis_finite :: "fp \<Rightarrow> bool" where
  "fis_finite (FNum _) = True"
| "fis_finite _ = False"

text \<open>
  Conversions: an integer to a floating type, a double to a float, and the truncation
  towards zero of a conversion to an integer type (undefined in the source outside the
  range of the target, where the model returns 0 for a value that is not finite).
\<close>

definition f32_of_int :: "int \<Rightarrow> fp" where "f32_of_int i = round32 (of_int i)"
definition f64_of_int :: "int \<Rightarrow> fp" where "f64_of_int i = round64 (of_int i)"

fun fto_f32 :: "fp \<Rightarrow> fp" where
  "fto_f32 (FNum x) = round32 x"
| "fto_f32 v = v"

definition rat_trunc :: "rat \<Rightarrow> int" where
  "rat_trunc x = (if 0 \<le> x then \<lfloor>x\<rfloor> else \<lceil>x\<rceil>)"

fun ftrunc :: "fp \<Rightarrow> int" where
  "ftrunc (FNum x) = rat_trunc x"
| "ftrunc _ = 0"

section \<open>Rounding is exact on the grid\<close>

text \<open>\<open>on_grid p qmin x\<close>: the number is \<open>m * 2^q\<close> with \<open>\<bar>m\<bar> < 2^p\<close> and \<open>q \<ge> qmin\<close>.\<close>

definition on_grid :: "nat \<Rightarrow> int \<Rightarrow> rat \<Rightarrow> bool" where
  "on_grid p qmin x \<longleftrightarrow> (\<exists>m q. x = of_int m * 2 powi q \<and> \<bar>m\<bar> < 2 ^ p \<and> qmin \<le> q)"

lemma powi2_nat: "0 \<le> k \<Longrightarrow> (2::rat) powi k = of_int (2 ^ nat k)"
  by (simp add: power_int_def)

lemma bitlen_powi:
  assumes "0 < n"
  shows "(2::rat) powi (bitlen n - 1) \<le> of_int n" and "of_int n < (2::rat) powi (bitlen n)"
proof -
  have "0 < bitlen n" using assms bitlen_nonneg [of n] by (metis bitlen_eq_zero_iff not_less order_le_less)
  then show "(2::rat) powi (bitlen n - 1) \<le> of_int n" and "of_int n < (2::rat) powi (bitlen n)"
    using bitlen_bounds [OF assms] by (simp_all only: powi2_nat of_int_le_iff of_int_less_iff)
qed

lemma flog2_bounds:
  assumes "0 < x"
  shows "2 powi (flog2 x) \<le> x" and "x < 2 powi (flog2 x + 1)"
proof -
  obtain a b where ab: "quotient_of x = (a, b)" by (cases "quotient_of x")
  have b: "0 < b" using quotient_of_denom_pos [OF ab] .
  have x: "x = of_int a / of_int b" using quotient_of_div [OF ab] .
  have a: "0 < a" using assms b by (simp add: x zero_less_divide_iff)
  define la lb where "la = bitlen a" and "lb = bitlen b"
  note A = bitlen_powi [OF a, folded la_def] and B = bitlen_powi [OF b, folded lb_def]
  have low: "2 powi (la - lb - 1) \<le> x"
  proof -
    have "(2::rat) powi (la - lb - 1) = 2 powi (la - 1) / 2 powi lb"
      by (simp flip: power_int_diff add: algebra_simps)
    also have "\<dots> \<le> of_int a / of_int b"
      using A(1) B(2) a b by (intro frac_le) auto
    finally show ?thesis by (simp add: x)
  qed
  have high: "x < 2 powi (la - lb + 1)"
  proof -
    have "of_int a / of_int b < (2::rat) powi la / 2 powi (lb - 1)"
      using A(2) B(1) a b by (intro frac_less) auto
    also have "\<dots> = 2 powi (la - lb + 1)"
      by (simp flip: power_int_diff add: algebra_simps)
    finally show ?thesis by (simp add: x)
  qed
  have e: "flog2 x = (if 2 powi (la - lb) \<le> x then la - lb else la - lb - 1)"
    by (simp add: flog2_def ab la_def lb_def Let_def)
  show "2 powi (flog2 x) \<le> x" using low by (simp add: e)
  show "x < 2 powi (flog2 x + 1)" using high by (simp add: e)
qed

lemma round_even_of_int [simp]: "round_even (of_int n) = n"
  by (simp add: round_even_def Let_def)

lemma fround_grid:
  assumes grid: "on_grid (nat p) (emin - (p - 1)) x" and p: "0 < p"
    and small: "\<bar>x\<bar> < 2 powi (emax + 1)"
  shows "fround p emin emax x = FNum x"
proof (cases "x = 0")
  case True
  then show ?thesis by (simp add: fround_def)
next
  case False
  obtain m q where x: "x = of_int m * 2 powi q" and m: "\<bar>m\<bar> < 2 ^ nat p"
    and q: "emin - (p - 1) \<le> q"
    using grid by (auto simp: on_grid_def)
  define k where "k = max (flog2 \<bar>x\<bar>) emin - (p - 1)"
  have "k \<le> q"
  proof (rule ccontr)
    assume "\<not> k \<le> q"
    then have k: "q + p \<le> flog2 \<bar>x\<bar>" using q by (simp add: k_def max_def split: if_splits)
    have "(2::rat) powi (q + p) \<le> 2 powi (flog2 \<bar>x\<bar>)"
      using k by (intro power_int_increasing) auto
    also have "\<dots> \<le> \<bar>x\<bar>" using False by (intro flog2_bounds) simp
    also have "\<bar>x\<bar> = of_int \<bar>m\<bar> * 2 powi q" by (simp add: x abs_mult)
    also have "\<dots> < 2 ^ nat p * 2 powi q"
      using m by (intro mult_strict_right_mono)
        (simp_all flip: of_int_less_iff [where 'a = rat])
    also have "\<dots> = 2 powi (q + p)"
    proof -
      have "(2::rat) powi p = 2 ^ nat p" using p by (simp add: power_int_def)
      then show ?thesis by (simp add: power_int_add mult.commute)
    qed
    finally show False by simp
  qed
  then obtain d where d: "q = k + int d" using zle_iff_zadd by blast
  have "x / 2 powi k = of_int (m * 2 ^ d)"
    by (simp add: x d power_int_add)
  then have r: "round_even (x / 2 powi k) = m * 2 ^ d" by (metis round_even_of_int)
  have "of_int (round_even (x / 2 powi k)) * 2 powi k = x"
    unfolding r by (simp add: x d power_int_add)
  then show ?thesis
    using False small by (simp add: fround_def Let_def k_def [symmetric])
qed

lemma on_grid_of_int: "\<bar>m\<bar> < 2 ^ p \<Longrightarrow> qmin \<le> 0 \<Longrightarrow> on_grid p qmin (of_int m)"
  unfolding on_grid_def by (rule exI [of _ m], rule exI [of _ 0]) simp

lemma round64_of_int [simp]: "\<bar>i\<bar> < 2 ^ 53 \<Longrightarrow> round64 (of_int i) = FNum (of_int i)"
proof -
  assume i: "\<bar>i\<bar> < 2 ^ 53"
  have "of_int \<bar>i\<bar> < (2::rat) ^ 53"
    using i by (metis of_int_less_iff of_int_numeral of_int_power)
  also have "(2::rat) ^ 53 \<le> 2 ^ 1024" by (intro power_increasing) auto
  finally have s: "\<bar>of_int i\<bar> < (2::rat) powi (1023 + 1)" by (simp add: power_int_def)
  show ?thesis by (rule fround_grid) (use i s in \<open>auto intro: on_grid_of_int\<close>)
qed

end
