(* ===== verification/Time_Conversion.thy ===== *)
theory Time_Conversion
  imports Timeval Ieee_Float
begin

text \<open>
  The conversions between floating-point seconds and \<^verbatim>\<open>struct timeval\<close> of \<^verbatim>\<open>src/pinba.h\<close>, and
  the sanitation of the times a packet carries.
\<close>

section \<open>Conversions\<close>

definition INT_MAX :: int where "INT_MAX = 2147483647"

text \<open>\<^verbatim>\<open>timeval_to_float\<close>: both fields to \<^verbatim>\<open>float\<close>, then \<^verbatim>\<open>double\<close> arithmetic.\<close>

definition timeval_to_float :: "pinba_timeval \<Rightarrow> fp" where
  "timeval_to_float tv =
     fadd round64 (f32_of_int (tv_sec tv)) (fdiv round64 (f32_of_int (tv_usec tv)) (FNum 1000000))"

text \<open>\<^verbatim>\<open>modf\<close> splits a finite double exactly; the engine calls it on sanitised values only.\<close>

definition float_to_timeval :: "fp \<Rightarrow> pinba_timeval" where
  "float_to_timeval f =
     (case f of
        FNum x \<Rightarrow>
          let integral = rat_trunc x; fraction = x - of_int integral
          in \<lparr>tv_sec = integral, tv_usec = ftrunc (fmul round64 (FNum fraction) (FNum 1000000))\<rparr>
      | _ \<Rightarrow> null_timeval)"

definition pinba_is_valid_time_seconds :: "fp \<Rightarrow> bool" where
  "pinba_is_valid_time_seconds f \<longleftrightarrow>
     fis_finite f \<and> fle (FNum 0) f \<and> fle f (f64_of_int INT_MAX)"

definition pinba_sanitize_time_seconds :: "fp \<Rightarrow> fp" where
  "pinba_sanitize_time_seconds f = (if pinba_is_valid_time_seconds f then f else FNum 0)"

definition pinba_normalize_request_count :: "u32 \<Rightarrow> u32" where
  "pinba_normalize_request_count value = (if value = 0 then 1 else value)"

definition pinba_should_track_histogram_sample :: "fp \<Rightarrow> bool" where
  "pinba_should_track_histogram_sample f = pinba_is_valid_time_seconds f"

section \<open>A packet time becomes an exact, normalised timeval\<close>

text \<open>A finite \<^verbatim>\<open>float\<close>: a number of the binary32 grid.\<close>

definition is_f32 :: "fp \<Rightarrow> bool" where
  "is_f32 f \<longleftrightarrow> (case f of FNum x \<Rightarrow> on_grid 24 (- 149) x | _ \<Rightarrow> True)"

lemma f64_INT_MAX [simp]: "f64_of_int INT_MAX = FNum 2147483647"
  unfolding f64_of_int_def INT_MAX_def using round64_of_int [of 2147483647] by simp

lemma valid_time_iff:
  "pinba_is_valid_time_seconds f \<longleftrightarrow> (\<exists>x. f = FNum x \<and> 0 \<le> x \<and> x \<le> 2147483647)"
  by (cases f) (auto simp: pinba_is_valid_time_seconds_def)

lemma sanitize_valid [simp]: "pinba_is_valid_time_seconds (pinba_sanitize_time_seconds f)"
  by (auto simp: pinba_sanitize_time_seconds_def valid_time_iff)

lemma sanitize_f32: "is_f32 f \<Longrightarrow> is_f32 (pinba_sanitize_time_seconds f)"
  unfolding pinba_sanitize_time_seconds_def is_f32_def
  using on_grid_of_int [of 0 24 "- 149"] by simp

lemma on_grid_frac:
  assumes g: "on_grid p qmin x" and x: "0 \<le> x" and p: "0 < p"
  shows "on_grid p qmin (x - of_int \<lfloor>x\<rfloor>)"
proof -
  obtain m q where xm: "x = of_int m * 2 powi q" and m: "\<bar>m\<bar> < 2 ^ p" and q: "qmin \<le> q"
    using g by (auto simp: on_grid_def)
  show ?thesis
  proof (cases "0 \<le> q")
    case True
    then have "x = of_int (m * 2 ^ nat q)" by (simp add: xm power_int_def)
    then have "x - of_int \<lfloor>x\<rfloor> = of_int 0 * 2 powi q" by simp
    then show ?thesis unfolding on_grid_def using q p by (metis abs_zero zero_less_numeral zero_less_power)
  next
    case False
    define n where "n = nat (- q)"
    have P: "(2::rat) powi q = 1 / 2 ^ n"
      using False by (simp add: n_def power_int_def power_one_over inverse_eq_divide)
    have xd: "x = of_int m / of_int (2 ^ n)" by (simp add: xm P)
    have "\<lfloor>x\<rfloor> = m div 2 ^ n" unfolding xd by (rule floor_divide_of_int_eq)
    then have "x - of_int \<lfloor>x\<rfloor> = of_int (m mod 2 ^ n) * 2 powi q"
      unfolding P xd by (simp add: minus_div_mult_eq_mod [symmetric] field_simps)
    moreover have "\<not> (2::rat) ^ n \<le> 0" by (simp add: not_le)
    then have "0 \<le> m" using x by (simp add: xd zero_le_divide_iff)
    then have "\<bar>m mod 2 ^ n\<bar> < 2 ^ p"
      using m by (metis abs_of_nonneg mod_pos_geq order_le_less_trans pos_mod_sign zero_less_numeral
          zero_less_power zmod_le_nonneg_dividend)
    ultimately show ?thesis unfolding on_grid_def using q by blast
  qed
qed

lemma on_grid_mult_int:
  assumes "on_grid p qmin x" and "\<bar>k\<bar> \<le> 2 ^ r"
  shows "on_grid (p + r) qmin (x * of_int k)"
proof -
  obtain m q where "x = of_int m * 2 powi q" and m: "\<bar>m\<bar> < 2 ^ p" and "qmin \<le> q"
    using assms(1) by (auto simp: on_grid_def)
  moreover have "\<bar>m * k\<bar> < 2 ^ (p + r)"
  proof (cases "k = 0")
    case False
    then have "\<bar>m\<bar> * \<bar>k\<bar> < 2 ^ p * \<bar>k\<bar>" using m by simp
    also have "\<dots> \<le> 2 ^ p * 2 ^ r" using assms(2) by simp
    finally show ?thesis by (simp add: abs_mult power_add)
  qed simp
  ultimately show ?thesis unfolding on_grid_def by (metis mult.assoc mult.commute of_int_mult)
qed

lemma on_grid_weaken:
  "on_grid p qmin x \<Longrightarrow> p \<le> p' \<Longrightarrow> qmin' \<le> qmin \<Longrightarrow> on_grid p' qmin' x"
proof -
  assume "on_grid p qmin x" and p: "p \<le> p'" and q: "qmin' \<le> qmin"
  then obtain m e where "x = of_int m * 2 powi e" "\<bar>m\<bar> < 2 ^ p" "qmin \<le> e"
    by (auto simp: on_grid_def)
  moreover have "(2::int) ^ p \<le> 2 ^ p'" using p by (rule power_increasing) simp
  ultimately have "x = of_int m * 2 powi e \<and> \<bar>m\<bar> < 2 ^ p' \<and> qmin' \<le> e"
    using q by (meson order_less_le_trans order_trans)
  then show ?thesis unfolding on_grid_def by blast
qed

lemma powi2_numeral: "(2::rat) powi (1023 + 1) = 2 ^ 1024"
  by (simp only: power_int_def) simp

lemma float_to_timeval_exact:
  assumes f32: "is_f32 (FNum x)" and x: "0 \<le> x"
  shows "float_to_timeval (FNum x) = of_usecs \<lfloor>x * 1000000\<rfloor>"
proof -
  define s fr where "s = \<lfloor>x\<rfloor>" and "fr = x - of_int s"
  have fr: "0 \<le> fr" "fr < 1" by (simp_all add: s_def fr_def) linarith+
  have gf: "on_grid 24 (- 149) fr"
    using on_grid_frac [of 24 "- 149" x] f32 x by (simp add: is_f32_def s_def fr_def)
  have "on_grid (24 + 20) (- 149) (fr * of_int 1000000)"
    by (rule on_grid_mult_int [OF gf]) simp
  then have g: "on_grid (nat 53) (- 1022 - (53 - 1)) (fr * 1000000)"
    unfolding of_int_numeral by (rule on_grid_weaken) simp_all
  have "\<bar>fr * 1000000\<bar> < 2 ^ 20" using fr by simp
  also have "(2::rat) ^ 20 \<le> 2 powi (1023 + 1)"
    unfolding powi2_numeral by (rule power_increasing) simp_all
  finally have "round64 (fr * 1000000) = FNum (fr * 1000000)" using g by (intro fround_grid) auto
  moreover have "rat_trunc x = s" "rat_trunc (fr * 1000000) = \<lfloor>fr * 1000000\<rfloor>"
    using x fr by (simp_all add: rat_trunc_def s_def)
  ultimately have "float_to_timeval (FNum x) = \<lparr>tv_sec = s, tv_usec = \<lfloor>fr * 1000000\<rfloor>\<rparr>"
    by (simp only: float_to_timeval_def fp.case Let_def fr_def [symmetric] fmul.simps ftrunc.simps)
  moreover have "\<lfloor>x * 1000000\<rfloor> = s * 1000000 + \<lfloor>fr * 1000000\<rfloor>"
  proof -
    have "x * 1000000 = of_int (s * 1000000) + fr * 1000000" by (simp add: fr_def algebra_simps)
    then show ?thesis by (metis floor_add_int add.commute)
  qed
  moreover have "0 \<le> \<lfloor>fr * 1000000\<rfloor>" "\<lfloor>fr * 1000000\<rfloor> < 1000000"
    using fr by (simp_all add: floor_less_iff)
  ultimately show ?thesis by (simp add: of_usecs_def)
qed

end
