(* ===== verification/Histogram.thy ===== *)
theory Histogram
  imports Pinba_Maps Time_Conversion
begin

text \<open>
  The response-time histogram each report row keeps: the slot a sample falls into and the
  update \<^verbatim>\<open>pinba_update_histogram\<close> of \<^verbatim>\<open>src/pinba.h\<close>, and the percentile read
  \<^verbatim>\<open>pinba_histogram_value\<close> of \<^verbatim>\<open>src/ha_pinba.cc\<close>. A histogram is a \<^verbatim>\<open>pinba_lmap\<close> from slot
  numbers to counts, in which an absent slot counts 0 (the null pointer a lookup returns is
  the count 0).
\<close>

section \<open>Slots and updates\<close>

type_synonym histogram = "u64 pinba_lmap"

definition hist_get :: "histogram \<Rightarrow> u64 \<Rightarrow> u64" where
  "hist_get hg slot = (case pinba_lmap_get hg slot of None \<Rightarrow> 0 | Some v \<Rightarrow> v)"

text \<open>
  \<open>hs\<close> is \<^verbatim>\<open>D->settings.histogram_size\<close>; \<open>max_time\<close> and \<open>segment\<close> are the fields
  \<^verbatim>\<open>histogram_max_time\<close> and \<^verbatim>\<open>histogram_segment\<close> of the report. \<open>None\<close>: the sample is
  not tracked. The slot number is an \<^verbatim>\<open>unsigned int\<close>.
\<close>

definition histogram_slot :: "u64 \<Rightarrow> int \<Rightarrow> fp \<Rightarrow> pinba_timeval \<Rightarrow> int \<Rightarrow> u64 option" where
  "histogram_slot hs max_time segment time add =
     (let t = timeval_to_float time;
          time_value =
            (if add > 1 then fdiv round64 t (f64_of_int add)
             else if add < - 1 then fdiv round64 t (f64_of_int (- add))
             else t)
      in if \<not> pinba_should_track_histogram_sample time_value then None
         else
           let slot_num =
                 (if fle (f64_of_int max_time) time_value then ucast (hs - 1) :: u32
                  else
                    let s = word_of_int (ftrunc (fdiv round64 time_value segment)) :: u32
                    in if (ucast s :: u64) > hs - 1 then ucast (hs - 1) else s)
           in Some (ucast slot_num))"

definition pinba_update_histogram ::
  "u64 \<Rightarrow> int \<Rightarrow> fp \<Rightarrow> histogram \<Rightarrow> pinba_timeval \<Rightarrow> int \<Rightarrow> histogram" where
  "pinba_update_histogram hs max_time segment hg time add =
     (case histogram_slot hs max_time segment time add of
        None \<Rightarrow> hg
      | Some slot \<Rightarrow>
          let value = hist_get hg slot + word_of_int add
          in if value = 0 then fst (pinba_lmap_delete hg slot)
             else pinba_lmap_add hg slot value)"

section \<open>Percentiles\<close>

text \<open>
  The scan of \<^verbatim>\<open>pinba_histogram_value\<close>: from slot \<open>i\<close> with \<open>num\<close> samples passed, the first
  slot whose cumulative count reaches the rank, with that count and the slot's own count;
  \<open>Inl num\<close> when the slots are exhausted.
\<close>

function histogram_scan :: "u64 \<Rightarrow> histogram \<Rightarrow> u64 \<Rightarrow> u64 \<Rightarrow> u64 \<Rightarrow> u64 + u64 \<times> u64 \<times> u64" where
  "histogram_scan hs hg rank i num =
     (if i < hs then
        let value = hist_get hg i; num' = num + value
        in if num' \<ge> rank then Inr (i, num', value)
           else histogram_scan hs hg rank (i + 1) num'
      else Inl num)"
  by pat_completeness auto
termination
proof (relation "measure (\<lambda>(hs, hg, rank, i, num). unat hs - unat i)", goal_cases)
  case (2 hs hg rank i num v n)
  then have "unat i < unat hs" by (simp add: word_less_nat_alt)
  moreover have "unat (i + 1) = unat i + 1"
    using 2(1) by (rule unat_add_1_less)
  ultimately show ?case by simp
qed simp

declare histogram_scan.simps [simp del]

definition pinba_histogram_value :: "u64 \<Rightarrow> fp \<Rightarrow> histogram \<Rightarrow> u64 \<Rightarrow> fp" where
  "pinba_histogram_value hs segment hg percent_value =
     (let rank = (if percent_value = 0 then 1 else percent_value)
      in case histogram_scan hs hg rank 0 0 of
           Inr (i, num, value) \<Rightarrow>
             let rem = fsub round32 (FNum 1)
                         (fdiv round32
                            (fsub round32 (f32_of_int (uint num)) (f32_of_int (uint rank)))
                            (f32_of_int (uint value)))
             in fmul round32 segment (fadd round32 (f32_of_int (uint i)) rem)
         | Inl num \<Rightarrow>
             if num = 0 then FNum 0
             else fmul round32 segment (f32_of_int (uint hs)))"

section \<open>What an update does to the counts\<close>

definition hist_wf :: "histogram \<Rightarrow> bool" where
  "hist_wf hg \<longleftrightarrow> map_wf hg \<and> (\<forall>s. pinba_lmap_get hg s \<noteq> Some 0)"

definition hist_add :: "(u64 \<Rightarrow> u64) \<Rightarrow> u64 option \<Rightarrow> u64 \<Rightarrow> u64 \<Rightarrow> u64" where
  "hist_add h slot n = (case slot of None \<Rightarrow> h | Some s \<Rightarrow> h(s := h s + n))"

lemma hist_wf_null [simp]: "hist_wf None"
  by (simp add: hist_wf_def lmap.get_null)

lemma hist_wf_create [simp]: "hist_wf pinba_lmap_create"
  by (simp add: hist_wf_def pinba_lmap_create_def map_wf_def pinba_lmap_get_def)

lemma hist_get_null [simp]: "hist_get None = (\<lambda>_. 0)"
  by (simp add: hist_get_def lmap.get_null fun_eq_iff)

lemma hist_get_create [simp]: "hist_get pinba_lmap_create = (\<lambda>_. 0)"
  by (simp add: hist_get_def pinba_lmap_create_def pinba_lmap_get_def fun_eq_iff)

lemma hist_wf_update [simp, pinba_inv]:
  "hist_wf hg \<Longrightarrow> hist_wf (pinba_update_histogram hs mt seg hg time add)"
  by (auto simp: pinba_update_histogram_def hist_wf_def lmap_simps Let_def split: option.splits)

lemma hist_get_update:
  "hist_wf hg \<Longrightarrow>
   hist_get (pinba_update_histogram hs mt seg hg time add) =
     hist_add (hist_get hg) (histogram_slot hs mt seg time add) (word_of_int add)"
  by (auto simp: pinba_update_histogram_def hist_wf_def hist_add_def hist_get_def lmap_simps
      fun_eq_iff Let_def split: option.splits)

text \<open>A sample is removed from the slot it was added to.\<close>

lemma histogram_slot_uminus:
  "histogram_slot hs mt seg time (- c) = histogram_slot hs mt seg time c"
proof -
  consider "c > 1" | "c < - 1" | "c = 0" | "c = 1" | "c = - 1" by linarith
  then show ?thesis by cases (simp_all add: histogram_slot_def)
qed

lemma hist_add_cancel: "hist_add (hist_add h s n) s (- n) = h"
  by (auto simp: hist_add_def fun_eq_iff split: option.splits)

lemma hist_add_commute: "hist_add (hist_add h s n) t k = hist_add (hist_add h t k) s n"
  by (auto simp: hist_add_def fun_eq_iff algebra_simps split: option.splits)

text \<open>Every tracked sample lands inside the histogram.\<close>

lemma histogram_slot_bound:
  assumes "histogram_slot hs mt seg time add = Some s" and "0 < hs" and "hs \<le> 2 ^ 32"
  shows "s < hs"
proof -
  have "unat (hs - 1) < 2 ^ 32"
    using assms(2,3) by (simp add: unat_pred word_le_nat_alt word_less_nat_alt) 
  then have top: "(ucast (ucast (hs - 1) :: u32) :: u64) = hs - 1"
    by (rule ucast_ucast_small)
  have "hs - 1 < hs" using assms(2) by (simp add: word_less_nat_alt unat_pred)
  then show ?thesis
    using assms(1) top by (auto simp: histogram_slot_def Let_def not_less split: if_splits)
qed

section \<open>The percentile scan finds the slot of the rank\<close>

text \<open>The number of samples in the first \<open>n\<close> slots, and what the scan has to return.\<close>

definition hist_cum :: "histogram \<Rightarrow> nat \<Rightarrow> nat" where
  "hist_cum hg n = (\<Sum>j<n. unat (hist_get hg (of_nat j)))"

lemma hist_cum_0 [simp]: "hist_cum hg 0 = 0"
  by (simp add: hist_cum_def)

lemma hist_cum_Suc: "hist_cum hg (Suc n) = hist_cum hg n + unat (hist_get hg (of_nat n))"
  by (simp add: hist_cum_def)

lemma hist_cum_mono: "m \<le> n \<Longrightarrow> hist_cum hg m \<le> hist_cum hg n"
  unfolding hist_cum_def by (intro sum_mono2) auto

definition scan_ok :: "u64 \<Rightarrow> histogram \<Rightarrow> u64 \<Rightarrow> u64 + u64 \<times> u64 \<times> u64 \<Rightarrow> bool" where
  "scan_ok hs hg rank res \<longleftrightarrow>
     (case res of
        Inl num \<Rightarrow> unat num = hist_cum hg (unat hs) \<and> hist_cum hg (unat hs) < unat rank
      | Inr (i, num, v) \<Rightarrow>
          i < hs \<and> hist_cum hg (unat i) < unat rank \<and> unat rank \<le> hist_cum hg (Suc (unat i)) \<and>
          unat num = hist_cum hg (Suc (unat i)) \<and> v = hist_get hg i)"

lemma histogram_scan_correct:
  assumes "hist_cum hg (unat hs) < 2 ^ 64" and "unat num = hist_cum hg (unat i)" and "i \<le> hs"
    and "hist_cum hg (unat i) < unat rank"
  shows "scan_ok hs hg rank (histogram_scan hs hg rank i num)"
  using assms
proof (induction hs hg rank i num rule: histogram_scan.induct)
  case (1 hs hg rank i num)
  show ?case
  proof (cases "i < hs")
    case False
    then have "i = hs" using 1(4) by simp
    then show ?thesis using 1 by (simp add: histogram_scan.simps [of hs] scan_ok_def)
  next
    case True
    let ?n = "num + hist_get hg i"
    have u: "unat (i + 1) = Suc (unat i)" using unat_add_1_less [OF True] by simp
    have le: "hist_cum hg (Suc (unat i)) \<le> hist_cum hg (unat hs)"
      using True by (intro hist_cum_mono) (simp add: word_less_nat_alt)
    have n: "unat ?n = hist_cum hg (Suc (unat i))"
      using 1(2,3) le by (simp add: hist_cum_Suc unat_word_ariths)
    show ?thesis
    proof (cases "rank \<le> ?n")
      case True
      then have "histogram_scan hs hg rank i num = Inr (i, ?n, hist_get hg i)"
        using \<open>i < hs\<close> by (simp add: histogram_scan.simps Let_def)
      then show ?thesis using True \<open>i < hs\<close> n 1(5) by (simp add: scan_ok_def word_le_nat_alt)
    next
      case False
      then have "histogram_scan hs hg rank i num = histogram_scan hs hg rank (i + 1) ?n"
        using \<open>i < hs\<close> by (simp add: histogram_scan.simps [of hs hg rank i] Let_def)
      moreover have "i + 1 \<le> hs" using \<open>i < hs\<close> u by (simp add: word_le_nat_alt word_less_nat_alt)
      moreover have "hist_cum hg (Suc (unat i)) < unat rank"
        using False n by (simp add: word_le_nat_alt not_le)
      ultimately show ?thesis
        using 1(1) [OF \<open>i < hs\<close> refl refl False 1(2)] n u by simp
    qed
  qed
qed

end
