(* ===== verification/C_Buffers.thy ===== *)
theory C_Buffers
  imports Pinba_Prelude
begin

text \<open>
  Fixed-size character buffers and the bounded copies of \<^verbatim>\<open>src/pinba.h\<close>
  (\<^verbatim>\<open>pinba_copy_truncated\<close>, \<^verbatim>\<open>pinba_append_truncated\<close> and the macros \<^verbatim>\<open>memcpy_static\<close> and
  \<^verbatim>\<open>memcat_static\<close> on top of them) and \<^verbatim>\<open>pinba_append_key_delimiter\<close> of \<^verbatim>\<open>src/data.cc\<close>.
  A buffer is the list of its bytes, so its length is \<^verbatim>\<open>sizeof(buf)\<close>; a string is the list
  of its characters up to the terminating NUL. \<open>None\<close> stands for a null pointer.
\<close>

section \<open>Bounded copies\<close>

text \<open>The bytes of a buffer up to the first NUL.\<close>

definition c_str :: "char list \<Rightarrow> string" where
  "c_str buf = takeWhile (\<lambda>c. c \<noteq> NUL) buf"

definition nul_free :: "string \<Rightarrow> bool" where
  "nul_free s \<longleftrightarrow> NUL \<notin> set s"

text \<open>\<^verbatim>\<open>memcpy(buf + pos, src, strlen(src))\<close> inside the buffer.\<close>

definition memcpy_at :: "char list \<Rightarrow> nat \<Rightarrow> char list \<Rightarrow> char list" where
  "memcpy_at buf pos src = take pos buf @ src @ drop (pos + length src) buf"

definition pinba_copy_truncated ::
  "char list option \<Rightarrow> string option \<Rightarrow> nat \<Rightarrow> char list option \<times> nat" where
  "pinba_copy_truncated buf str str_len =
     (case buf of
        None \<Rightarrow> (None, 0)
      | Some b \<Rightarrow>
          if length b = 0 then (Some b, 0)
          else
            let copy_len = min str_len (length b - 1);
                b' = (case str of
                        Some s \<Rightarrow> if copy_len > 0 then memcpy_at b 0 (take copy_len s) else b
                      | None \<Rightarrow> b)
            in (Some (b'[copy_len := NUL]), copy_len))"

definition pinba_append_truncated ::
  "char list option \<Rightarrow> nat \<Rightarrow> string option \<Rightarrow> nat \<Rightarrow> char list option \<times> nat" where
  "pinba_append_truncated buf ofs str str_len =
     (case buf of
        None \<Rightarrow> (None, ofs)
      | Some b \<Rightarrow>
          if length b = 0 \<or> ofs \<ge> length b then (Some b, ofs)
          else
            let available = length b - ofs
            in if available \<le> 1 then (Some (b[length b - 1 := NUL]), length b - 1)
               else
                 let copy_len = min str_len (available - 1);
                     b' = (case str of
                             Some s \<Rightarrow> if copy_len > 0 then memcpy_at b ofs (take copy_len s) else b
                           | None \<Rightarrow> b)
                 in (Some (b'[ofs + copy_len := NUL]), ofs + copy_len))"

text \<open>
  The macros: the buffer is an array, so never null, and the string is a field of a record
  or a dictionary word with its recorded length.
\<close>

definition memcpy_static :: "char list \<Rightarrow> string \<Rightarrow> char list \<times> nat" where
  "memcpy_static buf str =
     (case pinba_copy_truncated (Some buf) (Some str) (length str) of
        (b, n) \<Rightarrow> (the b, n))"

definition memcat_static :: "char list \<times> nat \<Rightarrow> string \<Rightarrow> char list \<times> nat" where
  "memcat_static bp str =
     (case pinba_append_truncated (Some (fst bp)) (snd bp) (Some str) (length str) of
        (b, n) \<Rightarrow> (the b, n))"

text \<open>\<^verbatim>\<open>buf[index_len] = c; index_len++\<close>, without a bounds check.\<close>

definition put_char :: "char \<Rightarrow> char list \<times> nat \<Rightarrow> char list \<times> nat" where
  "put_char c bp = ((fst bp)[snd bp := c], snd bp + 1)"

text \<open>\<^verbatim>\<open>(index_len < sizeof(index) - 1) ? index[index_len++] = c : 0\<close>.\<close>

definition put_char_guarded :: "char \<Rightarrow> char list \<times> nat \<Rightarrow> char list \<times> nat" where
  "put_char_guarded c bp = (if snd bp < length (fst bp) - 1 then put_char c bp else bp)"

definition pinba_append_key_delimiter :: "char list \<times> nat \<Rightarrow> char list \<times> nat" where
  "pinba_append_key_delimiter bp =
     (case bp of (buf, pos) \<Rightarrow>
        if pos + 1 \<ge> length buf
        then (if length buf > 0 then (buf[length buf - 1 := NUL], length buf - 1) else (buf, pos))
        else (buf[pos := CHR ''|'', pos + 1 := NUL], pos + 1))"

section \<open>A buffer that holds a string\<close>

text \<open>
  \<open>holds (buf, n) s\<close>: the first \<open>n\<close> bytes of the buffer are \<open>s\<close>. \<open>terminated\<close>
  adds the NUL after them, so that the buffer reads back as \<open>s\<close>.
\<close>

definition holds :: "char list \<times> nat \<Rightarrow> string \<Rightarrow> bool" where
  "holds bp s \<longleftrightarrow> snd bp = length s \<and> take (length s) (fst bp) = s \<and> length s < length (fst bp)"

definition terminated :: "char list \<times> nat \<Rightarrow> string \<Rightarrow> bool" where
  "terminated bp s \<longleftrightarrow> holds bp s \<and> fst bp ! length s = NUL"

lemma nul_free_append [simp]: "nul_free (a @ b) \<longleftrightarrow> nul_free a \<and> nul_free b"
  by (auto simp: nul_free_def)

lemma nul_free_take [simp]: "nul_free a \<Longrightarrow> nul_free (take n a)"
  by (meson in_set_takeD nul_free_def)

lemma length_memcpy_at [simp]:
  "pos + length s \<le> length b \<Longrightarrow> length (memcpy_at b pos s) = length b"
  by (simp add: memcpy_at_def)

lemma take_memcpy_at:
  "pos + length s \<le> length b \<Longrightarrow> take (pos + length s) (memcpy_at b pos s) = take pos b @ s"
  by (simp add: memcpy_at_def)

lemma c_str_terminated:
  assumes "terminated bp s" and "nul_free s"
  shows "c_str (fst bp) = s"
proof -
  obtain b n where bp: "bp = (b, n)" by (cases bp)
  have "take (length s) b = s" and "length s < length b" and "b ! length s = NUL"
    using assms by (auto simp: bp terminated_def holds_def)
  then have "b = s @ NUL # drop (Suc (length s)) b"
    by (metis append_take_drop_id Cons_nth_drop_Suc)
  moreover have "takeWhile (\<lambda>c. c \<noteq> NUL) (s @ NUL # drop (Suc (length s)) b) = s"
    using assms(2) by (intro takeWhile_append_stop) (auto simp: nul_free_def)
  ultimately show ?thesis unfolding c_str_def bp by (metis fst_conv)
qed

lemma terminatedI:
  "take n b = s \<Longrightarrow> n < length b \<Longrightarrow> terminated (b[n := NUL], n) s"
  by (auto simp: terminated_def holds_def)

lemma length_memcpy_static [simp]: "length (fst (memcpy_static b s)) = length b"
  by (simp add: memcpy_static_def pinba_copy_truncated_def Let_def)

lemma length_memcat_static [simp]: "length (fst (memcat_static bp s)) = length (fst bp)"
  by (simp add: memcat_static_def pinba_append_truncated_def Let_def)

lemma length_put_char [simp]: "length (fst (put_char c bp)) = length (fst bp)"
  by (simp add: put_char_def)

lemma length_append_key_delimiter [simp]:
  "length (fst (pinba_append_key_delimiter bp)) = length (fst bp)"
  by (simp add: pinba_append_key_delimiter_def split: prod.splits)

lemma memcpy_static_terminated:
  assumes "0 < length b"
  shows "terminated (memcpy_static b s) (take (length b - 1) s)"
proof -
  let ?n = "min (length s) (length b - 1)"
  have n: "?n < length b" using assms by linarith
  have t: "take ?n s = take (length b - 1) s" by (simp add: min_def)
  have e: "memcpy_static b s =
      ((if 0 < ?n then memcpy_at b 0 (take ?n s) else b)[?n := NUL], ?n)"
    using assms by (simp add: memcpy_static_def pinba_copy_truncated_def Let_def)
  have "terminated ((if 0 < ?n then memcpy_at b 0 (take ?n s) else b)[?n := NUL], ?n) (take ?n s)"
    using take_memcpy_at [of 0 "take ?n s" b] n by (intro terminatedI) auto
  then show ?thesis unfolding e t .
qed

lemma memcat_static_terminated:
  assumes "holds bp s"
  shows "terminated (memcat_static bp t) (s @ take (length (fst bp) - 1 - length s) t)"
proof -
  obtain b p where bp: "bp = (b, p)" by (cases bp)
  have p: "p = length s" and pb: "p < length b" and tk: "take p b = s"
    using assms by (auto simp: bp holds_def)
  let ?n = "min (length t) (length b - p - 1)"
  show ?thesis
  proof (cases "length b - p \<le> 1")
    case True
    then have "length b - 1 = p" and "b \<noteq> []" using pb by auto
    then show ?thesis
      using True p pb tk by (simp add: bp memcat_static_def pinba_append_truncated_def terminated_def
          holds_def Let_def)
  next
    case False
    have e: "memcat_static bp t =
        ((if 0 < ?n then memcpy_at b p (take ?n t) else b)[p + ?n := NUL], p + ?n)"
      using False pb by (simp add: bp memcat_static_def pinba_append_truncated_def Let_def)
    have tt: "take (length b - 1 - length s) t = take ?n t"
      using p by (simp add: min_def)
    have "terminated ((if 0 < ?n then memcpy_at b p (take ?n t) else b)[p + ?n := NUL], p + ?n)
        (s @ take ?n t)"
      using take_memcpy_at [of p "take ?n t" b] pb tk by (intro terminatedI) auto
    moreover have "length (fst bp) = length b" by (simp add: bp)
    ultimately show ?thesis unfolding e tt [symmetric] by simp
  qed
qed

lemma put_char_holds:
  "holds bp s \<Longrightarrow> Suc (length s) < length (fst bp) \<Longrightarrow> holds (put_char c bp) (s @ [c])"
  by (auto simp: holds_def put_char_def take_Suc_conv_app_nth)

lemma put_char_guarded_holds:
  "holds bp s \<Longrightarrow> Suc (length s) < length (fst bp) \<Longrightarrow> holds (put_char_guarded c bp) (s @ [c])"
  using put_char_holds [of bp s c] by (auto simp: put_char_guarded_def holds_def)

lemma append_key_delimiter_holds:
  "holds bp s \<Longrightarrow> Suc (length s) < length (fst bp) \<Longrightarrow>
   terminated (pinba_append_key_delimiter bp) (s @ ''|'')"
  by (auto simp: holds_def terminated_def pinba_append_key_delimiter_def take_Suc_conv_app_nth
      split: prod.splits)

lemma terminated_holds [simp]: "terminated bp s \<Longrightarrow> holds bp s"
  by (simp add: terminated_def)

end
