(* ===== verification/Records.thy ===== *)
theory Records
  imports Histogram C_Buffers
begin

text \<open>
  The data the engine keeps (\<^verbatim>\<open>src/pinba_types.h\<close>): dictionary words, timers, request
  records, report headers and report rows. A character array with its length field is the
  string it holds. Arrays with a count (\<^verbatim>\<open>tag_names\<close>, \<^verbatim>\<open>tag_values\<close> and \<^verbatim>\<open>tags_cnt\<close>) are lists.
  A pointer to a dictionary word is the word's address with the string it points to; words
  are compared by address.
\<close>

section \<open>Enumerations\<close>

datatype pinba_report_type =
    PINBA_TABLE_UNKNOWN | PINBA_TABLE_STATUS | PINBA_TABLE_ACTIVE_REPORTS
  | PINBA_TABLE_REQUEST | PINBA_TABLE_TIMER | PINBA_TABLE_TIMERTAG | PINBA_TABLE_TAG
  | PINBA_TABLE_HISTOGRAM_VIEW | PINBA_TABLE_REPORT_INFO
  | PINBA_TABLE_REPORT1 | PINBA_TABLE_REPORT2 | PINBA_TABLE_REPORT3 | PINBA_TABLE_REPORT4
  | PINBA_TABLE_REPORT5 | PINBA_TABLE_REPORT6 | PINBA_TABLE_REPORT7 | PINBA_TABLE_REPORT8
  | PINBA_TABLE_REPORT9 | PINBA_TABLE_REPORT10 | PINBA_TABLE_REPORT11 | PINBA_TABLE_REPORT12
  | PINBA_TABLE_REPORT13 | PINBA_TABLE_REPORT14 | PINBA_TABLE_REPORT15 | PINBA_TABLE_REPORT16
  | PINBA_TABLE_REPORT17 | PINBA_TABLE_REPORT18
  | PINBA_TABLE_TAG_INFO | PINBA_TABLE_TAG2_INFO | PINBA_TABLE_TAGN_INFO
  | PINBA_TABLE_TAG_REPORT | PINBA_TABLE_TAG2_REPORT | PINBA_TABLE_TAGN_REPORT
  | PINBA_TABLE_TAG_REPORT2 | PINBA_TABLE_TAG2_REPORT2 | PINBA_TABLE_TAGN_REPORT2
  | PINBA_TABLE_RTAG_INFO | PINBA_TABLE_RTAG2_INFO | PINBA_TABLE_RTAGN_INFO
  | PINBA_TABLE_RTAG_REPORT | PINBA_TABLE_RTAG2_REPORT | PINBA_TABLE_RTAGN_REPORT

datatype pinba_report_kind = PINBA_BASE_REPORT_KIND | PINBA_TAG_REPORT_KIND | PINBA_RTAG_REPORT_KIND

text \<open>\<^verbatim>\<open>pinba_report_flag\<close>: the flags are a bit set.\<close>

definition PINBA_REPORT_REGULAR :: u32 where [simp]: "PINBA_REPORT_REGULAR = 1"
definition PINBA_REPORT_CONDITIONAL :: u32 where [simp]: "PINBA_REPORT_CONDITIONAL = 2"
definition PINBA_REPORT_TAGGED :: u32 where [simp]: "PINBA_REPORT_TAGGED = 4"
definition PINBA_REPORT_INDEXED :: u32 where [simp]: "PINBA_REPORT_INDEXED = 8"

section \<open>Words, timers and requests\<close>

record pinba_word =
  word_addr :: nat
  word_str :: string

text \<open>Words are interned, so the code compares them by address.\<close>

definition same_word :: "pinba_word \<Rightarrow> pinba_word \<Rightarrow> bool" where
  "same_word a b \<longleftrightarrow> word_addr a = word_addr b"

record pinba_timer_record =
  timer_tags :: "(int \<times> pinba_word) list"
  timer_value :: pinba_timeval
  timer_ru_utime :: pinba_timeval
  timer_ru_stime :: pinba_timeval
  timer_request_id :: u64
  timer_hit_count :: int

record pinba_stats_record =
  script_name :: string
  server_name :: string
  hostname :: string
  schema :: string
  req_time :: pinba_timeval
  ru_utime :: pinba_timeval
  ru_stime :: pinba_timeval
  doc_size :: fp
  mem_peak_usage :: fp
  memory_footprint :: fp
  tags :: "(pinba_word \<times> pinba_word) list"
  req_count :: u32
  status :: u16
  rec_time :: pinba_timeval
  timers_start :: nat
  counter :: u64
  timers_cnt :: u16
  active :: bool
  dictionary_words :: "pinba_word list"

section \<open>Reports and their rows\<close>

record pinba_conditions =
  min_time :: fp
  max_time :: fp
  cond_tags :: "(pinba_word \<times> pinba_word) list"

record pinba_std_report =
  cond :: pinba_conditions
  flags :: u32
  rtype :: pinba_report_type
  histogram_max_time :: int
  histogram_segment :: fp
  std_histogram :: histogram
  report_kind :: pinba_report_kind
  std_index :: "string option"
  results_cnt :: u64
  time_interval :: int
  use_cnt :: u32
  start :: pinba_timeval
  request_pool_start_id :: u64
  std_ru_utime :: pinba_timeval
  std_ru_stime :: pinba_timeval
  packets_cnt :: u64

text \<open>
  The columns by which a row of a base report is labelled. Each \<^verbatim>\<open>struct pinba_reportN_data\<close>
  has some of them; the others keep the zeros of \<^verbatim>\<open>calloc\<close>.
\<close>

record report_labels =
  l_status :: int
  l_schema :: string
  l_hostname :: string
  l_server_name :: string
  l_script_name :: string

definition no_labels :: report_labels where
  "no_labels = \<lparr>l_status = 0, l_schema = [], l_hostname = [], l_server_name = [], l_script_name = []\<rparr>"

text \<open>The part all \<^verbatim>\<open>pinba_reportN_data\<close> and \<^verbatim>\<open>pinba_rtag*_data\<close> rows share.\<close>

record row_data =
  histogram_data :: histogram
  row_count :: u64
  req_time_total :: pinba_timeval
  ru_utime_total :: pinba_timeval
  ru_stime_total :: pinba_timeval
  kbytes_total :: fp
  memory_total :: fp

definition calloc_row :: row_data where
  "calloc_row = \<lparr>histogram_data = pinba_lmap_create, row_count = 0, req_time_total = null_timeval,
     ru_utime_total = null_timeval, ru_stime_total = null_timeval, kbytes_total = FNum 0,
     memory_total = FNum 0\<rparr>"

record pinba_report_data = row_data + labels :: report_labels

text \<open>The totals of a base or request-tag report.\<close>

record report_totals =
  t_time_total :: pinba_timeval
  t_kbytes_total :: fp
  t_memory_footprint :: fp
  t_ru_utime_total :: pinba_timeval
  t_ru_stime_total :: pinba_timeval

record pinba_report =
  std :: pinba_std_report
  results :: "pinba_report_data pinba_map"
  totals :: report_totals

section \<open>Well-formed requests\<close>

text \<open>The record is what \<^verbatim>\<open>request_to_record\<close> produces; see \<open>Request\<close>.\<close>

definition fits :: "nat \<Rightarrow> string \<Rightarrow> bool" where
  "fits n s \<longleftrightarrow> length s < n \<and> nul_free s"

text \<open>
  Sizes arrive as integers and are kept in units of 1/1024: \<open>kb_units f\<close> is the number of
  those units, at most \<open>2^32\<close>.
\<close>

definition kb_units :: "fp \<Rightarrow> int" where
  "kb_units f = (case f of FNum x \<Rightarrow> \<lfloor>x * 1024\<rfloor> | _ \<Rightarrow> 0)"

definition kb_ok :: "fp \<Rightarrow> bool" where
  "kb_ok f \<longleftrightarrow> f = FNum (of_int (kb_units f) / 1024) \<and> 0 \<le> kb_units f \<and> kb_units f \<le> 2 ^ 32"

definition record_ok :: "pinba_stats_record \<Rightarrow> bool" where
  "record_ok r \<longleftrightarrow>
     fits PINBA_SCRIPT_NAME_SIZE (script_name r) \<and> fits PINBA_SERVER_NAME_SIZE (server_name r) \<and>
     fits PINBA_HOSTNAME_SIZE (hostname r) \<and> fits PINBA_SCHEMA_SIZE (schema r) \<and>
     timeval_ok (req_time r) \<and> timeval_ok (ru_utime r) \<and> timeval_ok (ru_stime r) \<and>
     kb_ok (doc_size r) \<and> kb_ok (memory_footprint r)"

section \<open>Exact sums of sizes\<close>

definition kb_sum :: "int \<Rightarrow> fp" where
  "kb_sum n = FNum (of_int n / 1024)"

lemma kb_ok_eq: "kb_ok f \<Longrightarrow> f = kb_sum (kb_units f)"
  by (simp add: kb_ok_def kb_sum_def)

lemma round64_kb: "\<bar>n\<bar> < 2 ^ 53 \<Longrightarrow> round64 (of_int n / 1024) = kb_sum n"
proof -
  assume n: "\<bar>n\<bar> < 2 ^ 53"
  have e: "(of_int n / 1024 :: rat) = of_int n * 2 powi (- 10)"
    by (simp add: power_int_minus field_simps)
  then have "on_grid (nat 53) (- 1022 - (53 - 1)) (of_int n / 1024)"
    unfolding on_grid_def using n by (intro exI [of _ n] exI [of _ "- 10"]) simp
  moreover have "\<bar>of_int n / 1024 :: rat\<bar> < 2 ^ 53"
  proof -
    have "\<bar>of_int n :: rat\<bar> < 2 ^ 53"
      using n by (metis of_int_abs of_int_less_iff of_int_numeral of_int_power)
    moreover have "\<bar>of_int n / 1024 :: rat\<bar> \<le> \<bar>of_int n\<bar>" by (simp add: field_simps)
    ultimately show ?thesis by linarith
  qed
  moreover have "(2::rat) ^ 53 \<le> 2 powi (1023 + 1)"
    unfolding powi2_numeral by (rule power_increasing) simp_all
  ultimately show ?thesis unfolding kb_sum_def by (intro fround_grid) auto
qed

lemma fadd_kb: "\<bar>a + b\<bar> < 2 ^ 53 \<Longrightarrow> fadd round64 (kb_sum a) (kb_sum b) = kb_sum (a + b)"
  using round64_kb [of "a + b"] by (simp add: kb_sum_def add_divide_distrib)

lemma fsub_kb: "\<bar>a - b\<bar> < 2 ^ 53 \<Longrightarrow> fsub round64 (kb_sum a) (kb_sum b) = kb_sum (a - b)"
  using round64_kb [of "a - b"] by (simp add: kb_sum_def fsub_def diff_divide_distrib)

end
