(* ===== verification/Window.thy ===== *)
theory Window
  imports Records
begin

text \<open>
  The contract of a report. A report is updated incrementally, one request at a time, when a
  request enters and when it leaves the history; it promises that at any moment its rows are
  the aggregates of the requests inside the window.

  \<open>row_table\<close> is the interface between a report and the table of its rows: a keyed table and
  the two row updates with the abstraction \<open>agg d ws\<close> ("the row holds the aggregates of
  \<open>ws\<close>"). Its lemmas give the table-level statement for one request. \<open>window_report\<close> is the
  interface between a report and the request pool: from the two single-request laws it gives
  the statement for every first-in first-out history.
\<close>

section \<open>Tables of rows\<close>

definition row_fits ::
  "('v \<Rightarrow> 'r list \<Rightarrow> bool) \<Rightarrow> ('v \<Rightarrow> 'r \<Rightarrow> bool) \<Rightarrow> ('r \<Rightarrow> bool) \<Rightarrow> 'v option \<Rightarrow> 'r list \<Rightarrow> bool" where
  "row_fits agg labelled P row fs \<longleftrightarrow>
     (case row of
        None \<Rightarrow> fs = []
      | Some d \<Rightarrow> fs \<noteq> [] \<and> agg d fs \<and> (\<exists>r. P r \<and> labelled d r))"

definition rows_model ::
  "('m \<Rightarrow> 'k \<Rightarrow> 'v option) \<Rightarrow> ('v \<Rightarrow> 'r list \<Rightarrow> bool) \<Rightarrow> ('v \<Rightarrow> 'r \<Rightarrow> bool) \<Rightarrow> ('r \<Rightarrow> 'k option) \<Rightarrow>
   'm \<Rightarrow> 'r list \<Rightarrow> bool" where
  "rows_model tget agg labelled key m ws \<longleftrightarrow>
     (\<forall>k. row_fits agg labelled (\<lambda>r. key r = Some k) (tget m k) (filter (\<lambda>r. key r = Some k) ws))"

locale row_table = keyed_table tget tadd tdel tcount tinv tnull
  for tget :: "'m \<Rightarrow> 'k \<Rightarrow> 'v option" and tadd tdel tcount tinv tnull +
  fixes upd :: "'v \<Rightarrow> 'r \<Rightarrow> 'v"
    and sub :: "'v \<Rightarrow> 'r \<Rightarrow> 'v"
    and fresh :: "'r \<Rightarrow> 'v"
    and agg :: "'v \<Rightarrow> 'r list \<Rightarrow> bool"
    and only :: "'v \<Rightarrow> bool"
    and labelled :: "'v \<Rightarrow> 'r \<Rightarrow> bool"
    and ok :: "'r list \<Rightarrow> bool"
  assumes agg_fresh: "agg (fresh r) []"
    and agg_upd: "agg d ws \<Longrightarrow> ok (ws @ [r]) \<Longrightarrow> agg (upd d r) (ws @ [r])"
    and agg_sub: "agg d (r # ws) \<Longrightarrow> ok (r # ws) \<Longrightarrow> ws \<noteq> [] \<Longrightarrow> agg (sub d r) ws"
    and only_iff: "agg d (r # ws) \<Longrightarrow> ok (r # ws) \<Longrightarrow> only d \<longleftrightarrow> ws = []"
    and labelled_fresh: "labelled (fresh r) r"
    and labelled_upd: "labelled (upd d x) r = labelled d r"
    and labelled_sub: "labelled (sub d x) r = labelled d r"
    and ok_filter: "ok ws \<Longrightarrow> ok (filter P ws)"
begin

abbreviation model :: "('r \<Rightarrow> 'k option) \<Rightarrow> 'm \<Rightarrow> 'r list \<Rightarrow> bool" where
  "model \<equiv> rows_model tget agg labelled"

lemma model_null: "model key tnull []"
  by (simp add: rows_model_def row_fits_def get_null)

lemma model_add_other: "model key m ws \<Longrightarrow> key r = None \<Longrightarrow> model key m (ws @ [r])"
  by (simp add: rows_model_def)

lemma model_del_other: "model key m (r # ws) \<Longrightarrow> key r = None \<Longrightarrow> model key m ws"
  by (simp add: rows_model_def)

lemma row_fits_upd:
  assumes "row_fits agg labelled P row fs" and "ok (fs @ [r])" and "P r"
  shows "row_fits agg labelled P (Some (upd (case row of None \<Rightarrow> fresh r | Some d \<Rightarrow> d) r)) (fs @ [r])"
proof (cases row)
  case None
  then have "fs = []" using assms(1) by (simp add: row_fits_def)
  then show ?thesis
    using None assms(2,3) agg_upd [OF agg_fresh, of r r] labelled_fresh [of r]
    by (auto simp: row_fits_def labelled_upd)
next
  case (Some d)
  then show ?thesis using assms agg_upd [of d fs r] by (auto simp: row_fits_def labelled_upd)
qed

lemma model_add:
  assumes m: "model key m ws" and inv: "tinv m" and ok: "ok (ws @ [r])" and k: "key r = Some k"
  shows "model key (tadd m k (upd (case tget m k of None \<Rightarrow> fresh r | Some d \<Rightarrow> d) r)) (ws @ [r])"
  unfolding rows_model_def
proof
  fix k'
  have f: "row_fits agg labelled (\<lambda>r. key r = Some k') (tget m k') (filter (\<lambda>r. key r = Some k') ws)"
    using m by (simp add: rows_model_def)
  have okf: "ok (filter (\<lambda>r. key r = Some k) ws @ [r])"
    using ok_filter [OF ok, of "\<lambda>r. key r = Some k"] k by simp
  show "row_fits agg labelled (\<lambda>r. key r = Some k')
      (tget (tadd m k (upd (case tget m k of None \<Rightarrow> fresh r | Some d \<Rightarrow> d) r)) k')
      (filter (\<lambda>r. key r = Some k') (ws @ [r]))"
    using f inv k row_fits_upd [OF _ okf] by (cases "k' = k") (auto simp: get_add)
qed

lemma model_del:
  assumes m: "model key m (r # ws)" and inv: "tinv m" and ok: "ok (r # ws)" and k: "key r = Some k"
  obtains d where "tget m k = Some d"
    and "model key (if only d then tdel m k else tadd m k (sub d r)) ws"
proof -
  let ?f = "filter (\<lambda>r. key r = Some k) ws"
  have "row_fits agg labelled (\<lambda>r. key r = Some k) (tget m k) (r # ?f)"
    using m k by (auto simp: rows_model_def dest: spec [of _ k])
  then obtain d where d: "tget m k = Some d" "agg d (r # ?f)" "\<exists>r. key r = Some k \<and> labelled d r"
    by (auto simp: row_fits_def split: option.splits)
  have okf: "ok (r # ?f)" using ok_filter [OF ok, of "\<lambda>r. key r = Some k"] k by simp
  have only: "only d \<longleftrightarrow> ?f = []" using only_iff [OF d(2) okf] .
  let ?m' = "if only d then tdel m k else tadd m k (sub d r)"
  have here: "row_fits agg labelled (\<lambda>r. key r = Some k) (tget ?m' k) ?f"
    using only inv d(3) agg_sub [OF d(2) okf]
    by (auto simp: row_fits_def get_del get_add labelled_sub)
  have there: "row_fits agg labelled (\<lambda>r. key r = Some k') (tget ?m' k')
      (filter (\<lambda>r. key r = Some k') ws)" if "k' \<noteq> k" for k'
    using m that k inv by (auto simp: rows_model_def get_del get_add dest: spec [of _ k'])
  have "model key ?m' ws"
    unfolding rows_model_def
  proof
    fix k' show "row_fits agg labelled (\<lambda>r. key r = Some k') (tget ?m' k')
        (filter (\<lambda>r. key r = Some k') ws)"
      using here there [of k'] by (cases "k' = k") simp_all
  qed
  then show ?thesis using that d(1) by blast
qed

text \<open>One row per group that occurs in the window.\<close>

lemma model_count:
  assumes "model key m ws" and "tinv m"
  shows "tcount m = card {k. \<exists>r \<in> set ws. key r = Some k}"
proof -
  have "dom (tget m) = {k. \<exists>r \<in> set ws. key r = Some k}"
    using assms(1) by (force simp: rows_model_def row_fits_def dom_def filter_empty_conv split: option.splits)
  then show ?thesis using count_card [OF assms(2)] by simp
qed

end

section \<open>Histories\<close>

text \<open>
  The pool adds a request at one end of the window and removes the oldest one at the other.
\<close>

datatype 'r event = Enter 'r | Leave

fun window_step :: "('p \<Rightarrow> 'r \<Rightarrow> 'p) \<Rightarrow> ('p \<Rightarrow> 'r \<Rightarrow> 'p) \<Rightarrow> 'r event \<Rightarrow> 'p \<times> 'r list \<Rightarrow> 'p \<times> 'r list" where
  "window_step radd rdel (Enter r) (R, ws) = (radd R r, ws @ [r])"
| "window_step radd rdel Leave (R, []) = (R, [])"
| "window_step radd rdel Leave (R, r # ws) = (rdel R r, ws)"

definition window_run ::
  "('p \<Rightarrow> 'r \<Rightarrow> 'p) \<Rightarrow> ('p \<Rightarrow> 'r \<Rightarrow> 'p) \<Rightarrow> 'r event list \<Rightarrow> 'p \<times> 'r list \<Rightarrow> 'p \<times> 'r list" where
  "window_run radd rdel es s = fold (window_step radd rdel) es s"

text \<open>\<open>history_ok P ws es\<close>: every window of the history satisfies \<open>P\<close>.\<close>

fun history_ok :: "('r list \<Rightarrow> bool) \<Rightarrow> 'r list \<Rightarrow> 'r event list \<Rightarrow> bool" where
  "history_ok P ws [] = P ws"
| "history_ok P ws (Enter r # es) = (P ws \<and> history_ok P (ws @ [r]) es)"
| "history_ok P ws (Leave # es) = (P ws \<and> history_ok P (tl ws) es)"

lemma history_ok_now: "history_ok P ws es \<Longrightarrow> P ws"
  by (cases "(P, ws, es)" rule: history_ok.cases) auto

locale window_report =
  fixes radd rdel :: "'p \<Rightarrow> 'r \<Rightarrow> 'p"
    and models :: "'p \<Rightarrow> 'r list \<Rightarrow> bool"
    and okw :: "'p \<Rightarrow> 'r list \<Rightarrow> bool"
  assumes models_add: "models R ws \<Longrightarrow> okw R (ws @ [r]) \<Longrightarrow> models (radd R r) (ws @ [r])"
    and models_del: "models R (r # ws) \<Longrightarrow> okw R (r # ws) \<Longrightarrow> models (rdel R r) ws"
    and okw_add: "okw (radd R r) = okw R"
    and okw_del: "okw (rdel R r) = okw R"
begin

lemma window_history:
  assumes "models R ws" and "history_ok (okw R) ws es"
  shows "case window_run radd rdel es (R, ws) of (R', ws') \<Rightarrow> models R' ws'"
  using assms unfolding window_run_def
proof (induction es arbitrary: R ws)
  case (Cons e es)
  show ?case
  proof (cases e)
    case (Enter r)
    then have "models (radd R r) (ws @ [r])"
      using Cons.prems by (auto intro: models_add history_ok_now)
    then show ?thesis using Cons.IH [of "radd R r" "ws @ [r]"] Cons.prems by (simp add: Enter okw_add)
  next
    case Leave
    show ?thesis
    proof (cases ws)
      case Nil
      then show ?thesis using Cons.IH [of R "[]"] Cons.prems by (simp add: Leave)
    next
      case (Cons r ws')
      have "models (rdel R r) ws'" using Cons.prems by (auto intro: models_del simp: Leave Cons)
      then show ?thesis
        using Cons.IH [of "rdel R r" ws'] Cons.prems by (simp add: Leave Cons okw_del)
    qed
  qed
qed simp

end

text \<open>The largest window of a history, and the requests that enter.\<close>

fun window_size :: "nat \<Rightarrow> 'r event list \<Rightarrow> nat" where
  "window_size n [] = n"
| "window_size n (Enter r # es) = max n (window_size (Suc n) es)"
| "window_size n (Leave # es) = max n (window_size (n - 1) es)"

fun entered :: "'r event list \<Rightarrow> 'r list" where
  "entered [] = []"
| "entered (Enter r # es) = r # entered es"
| "entered (Leave # es) = entered es"

lemma history_okI:
  "list_all adm (ws @ entered es) \<Longrightarrow> window_size (length ws) es < bound \<Longrightarrow>
   history_ok (\<lambda>ws. list_all adm ws \<and> length ws < bound) ws es"
proof (induction es arbitrary: ws rule: entered.induct)
  case (2 r es)
  then show ?case using "2.IH" [of "ws @ [r]"] by simp
next
  case (3 es)
  have "list_all adm (tl ws @ entered es)" using "3.prems"(1) by (cases ws) auto
  then show ?case using 3 by simp
qed simp

end
