(* ===== verification/Report_Rows.thy ===== *)
theory Report_Rows
  imports Window
begin

text \<open>
  What every base and request-tag report does to a row and to its totals when a request enters
  and leaves (the common statements of \<^verbatim>\<open>src/pinba_update_report_tpl.h\<close> and of the
  \<^verbatim>\<open>pinba_update_rtag*\<close> functions of \<^verbatim>\<open>src/data.cc\<close>), the check that keeps requests older
  than the report out of a deletion, and the aggregates these updates maintain. \<open>hs\<close> is
  \<^verbatim>\<open>D->settings.histogram_size\<close>.
\<close>

section \<open>Updates of totals and rows\<close>

definition totals_add :: "report_totals \<Rightarrow> pinba_stats_record \<Rightarrow> report_totals" where
  "totals_add t record =
     \<lparr>t_time_total = pinba_timeradd (t_time_total t) (req_time record),
      t_kbytes_total = fadd round64 (t_kbytes_total t) (doc_size record),
      t_memory_footprint = fadd round64 (t_memory_footprint t) (memory_footprint record),
      t_ru_utime_total = pinba_timeradd (t_ru_utime_total t) (ru_utime record),
      t_ru_stime_total = pinba_timeradd (t_ru_stime_total t) (ru_stime record)\<rparr>"

definition totals_sub :: "report_totals \<Rightarrow> pinba_stats_record \<Rightarrow> report_totals" where
  "totals_sub t record =
     \<lparr>t_time_total = pinba_timersub (t_time_total t) (req_time record),
      t_kbytes_total = fsub round64 (t_kbytes_total t) (doc_size record),
      t_memory_footprint = fsub round64 (t_memory_footprint t) (memory_footprint record),
      t_ru_utime_total = pinba_timersub (t_ru_utime_total t) (ru_utime record),
      t_ru_stime_total = pinba_timersub (t_ru_stime_total t) (ru_stime record)\<rparr>"

definition PINBA_UPDATE_HISTOGRAM_ADD ::
  "u64 \<Rightarrow> pinba_std_report \<Rightarrow> histogram \<Rightarrow> pinba_timeval \<Rightarrow> histogram" where
  "PINBA_UPDATE_HISTOGRAM_ADD hs report hg time =
     pinba_update_histogram hs (histogram_max_time report) (histogram_segment report) hg time 1"

definition PINBA_UPDATE_HISTOGRAM_DEL ::
  "u64 \<Rightarrow> pinba_std_report \<Rightarrow> histogram \<Rightarrow> pinba_timeval \<Rightarrow> histogram" where
  "PINBA_UPDATE_HISTOGRAM_DEL hs report hg time =
     pinba_update_histogram hs (histogram_max_time report) (histogram_segment report) hg time (- 1)"

definition row_add ::
  "u64 \<Rightarrow> pinba_std_report \<Rightarrow> 'a row_data_scheme \<Rightarrow> pinba_stats_record \<Rightarrow> 'a row_data_scheme" where
  "row_add hs report data record =
     data\<lparr>row_count := row_count data + 1,
          req_time_total := pinba_timeradd (req_time_total data) (req_time record),
          ru_utime_total := pinba_timeradd (ru_utime_total data) (ru_utime record),
          ru_stime_total := pinba_timeradd (ru_stime_total data) (ru_stime record),
          kbytes_total := fadd round64 (kbytes_total data) (doc_size record),
          memory_total := fadd round64 (memory_total data) (memory_footprint record),
          histogram_data := PINBA_UPDATE_HISTOGRAM_ADD hs report (histogram_data data) (req_time record)\<rparr>"

definition row_sub ::
  "u64 \<Rightarrow> pinba_std_report \<Rightarrow> 'a row_data_scheme \<Rightarrow> pinba_stats_record \<Rightarrow> 'a row_data_scheme" where
  "row_sub hs report data record =
     data\<lparr>row_count := row_count data - 1,
          req_time_total := pinba_timersub (req_time_total data) (req_time record),
          ru_utime_total := pinba_timersub (ru_utime_total data) (ru_utime record),
          ru_stime_total := pinba_timersub (ru_stime_total data) (ru_stime record),
          kbytes_total := fsub round64 (kbytes_total data) (doc_size record),
          memory_total := fsub round64 (memory_total data) (memory_footprint record),
          histogram_data := PINBA_UPDATE_HISTOGRAM_DEL hs report (histogram_data data) (req_time record)\<rparr>"

text \<open>\<open>True\<close>: the deletion returns at once, the request is older than the report.\<close>

definition PINBA_REPORT_DELETE_CHECK :: "pinba_std_report \<Rightarrow> pinba_stats_record \<Rightarrow> bool" where
  "PINBA_REPORT_DELETE_CHECK report record \<longleftrightarrow>
     pinba_timercmp (>) (start report) (rec_time record) \<or>
     (pinba_timercmp (=) (start report) (rec_time record) \<and>
      request_pool_start_id report > counter record)"

section \<open>Aggregates\<close>

text \<open>A window stays below \<open>2^21\<close> requests, twice the default size of the request pool.\<close>

definition WINDOW_MAX :: nat where "WINDOW_MAX = 2 ^ 21"

definition window_ok :: "pinba_stats_record list \<Rightarrow> bool" where
  "window_ok ws \<longleftrightarrow> list_all record_ok ws \<and> length ws < WINDOW_MAX"

definition usec_sum :: "('r \<Rightarrow> pinba_timeval) \<Rightarrow> 'r list \<Rightarrow> pinba_timeval" where
  "usec_sum f ws = of_usecs (sum_list (map (\<lambda>r. usecs (f r)) ws))"

definition size_sum :: "('r \<Rightarrow> fp) \<Rightarrow> 'r list \<Rightarrow> fp" where
  "size_sum f ws = kb_sum (sum_list (map (\<lambda>r. kb_units (f r)) ws))"

definition hist_of :: "('r \<Rightarrow> u64 option) \<Rightarrow> 'r list \<Rightarrow> u64 \<Rightarrow> u64" where
  "hist_of slot ws = (\<lambda>s. of_nat (length (filter (\<lambda>r. slot r = Some s) ws)))"

definition req_slot :: "u64 \<Rightarrow> pinba_std_report \<Rightarrow> pinba_stats_record \<Rightarrow> u64 option" where
  "req_slot hs report r =
     histogram_slot hs (histogram_max_time report) (histogram_segment report) (req_time r) 1"

definition totals_agg :: "report_totals \<Rightarrow> pinba_stats_record list \<Rightarrow> bool" where
  "totals_agg t ws \<longleftrightarrow>
     t_time_total t = usec_sum req_time ws \<and> t_ru_utime_total t = usec_sum ru_utime ws \<and>
     t_ru_stime_total t = usec_sum ru_stime ws \<and> t_kbytes_total t = size_sum doc_size ws \<and>
     t_memory_footprint t = size_sum memory_footprint ws"

definition row_agg :: "u64 \<Rightarrow> pinba_std_report \<Rightarrow> 'a row_data_scheme \<Rightarrow> pinba_stats_record list \<Rightarrow> bool" where
  "row_agg hs report d ws \<longleftrightarrow>
     row_count d = of_nat (length ws) \<and>
     req_time_total d = usec_sum req_time ws \<and> ru_utime_total d = usec_sum ru_utime ws \<and>
     ru_stime_total d = usec_sum ru_stime ws \<and> kbytes_total d = size_sum doc_size ws \<and>
     memory_total d = size_sum memory_footprint ws \<and>
     hist_wf (histogram_data d) \<and> hist_get (histogram_data d) = hist_of (req_slot hs report) ws"

definition zero_totals :: report_totals where
  "zero_totals = \<lparr>t_time_total = null_timeval, t_kbytes_total = FNum 0, t_memory_footprint = FNum 0,
     t_ru_utime_total = null_timeval, t_ru_stime_total = null_timeval\<rparr>"

subsection \<open>Sums move with the window\<close>

lemma usec_sum_Nil [simp]: "usec_sum f [] = null_timeval"
  by (simp add: usec_sum_def of_usecs_0)

lemma usec_sum_add:
  "timeval_ok (f r) \<Longrightarrow> pinba_timeradd (usec_sum f ws) (f r) = usec_sum f (ws @ [r])"
  by (simp add: usec_sum_def timeradd_of_usecs)

lemma usec_sum_sub:
  "timeval_ok (f r) \<Longrightarrow> pinba_timersub (usec_sum f (r # ws)) (f r) = usec_sum f ws"
  by (simp add: usec_sum_def timersub_of_usecs)

lemma size_sum_Nil [simp]: "size_sum f [] = FNum 0"
  by (simp add: size_sum_def kb_sum_def)

lemma size_units_bound:
  "list_all (\<lambda>r. kb_ok (f r)) ws \<Longrightarrow>
   0 \<le> sum_list (map (\<lambda>r. kb_units (f r)) ws) \<and>
   sum_list (map (\<lambda>r. kb_units (f r)) ws) \<le> int (length ws) * 2 ^ 32"
  by (induction ws) (auto simp: kb_ok_def algebra_simps)

lemma size_units_exact:
  assumes "list_all (\<lambda>r. kb_ok (f r)) ws" and "length ws < WINDOW_MAX"
  shows "\<bar>sum_list (map (\<lambda>r. kb_units (f r)) ws)\<bar> < 2 ^ 53"
proof -
  have "int (length ws) * 2 ^ 32 < 2 ^ 21 * 2 ^ 32" using assms(2) by (simp add: WINDOW_MAX_def)
  then show ?thesis using size_units_bound [OF assms(1)] by simp
qed

lemma size_sum_add:
  assumes "list_all (\<lambda>r. kb_ok (f r)) (ws @ [r])" and "length (ws @ [r]) < WINDOW_MAX"
  shows "fadd round64 (size_sum f ws) (f r) = size_sum f (ws @ [r])"
proof -
  have r: "f r = kb_sum (kb_units (f r))" using assms(1) by (simp add: kb_ok_eq)
  have "fadd round64 (kb_sum (sum_list (map (\<lambda>r. kb_units (f r)) ws))) (kb_sum (kb_units (f r))) =
      kb_sum (sum_list (map (\<lambda>r. kb_units (f r)) (ws @ [r])))"
    using size_units_exact [OF assms] by (subst fadd_kb) simp_all
  then show ?thesis unfolding size_sum_def using r by simp
qed

lemma size_sum_sub:
  assumes "list_all (\<lambda>r. kb_ok (f r)) (r # ws)" and "length (r # ws) < WINDOW_MAX"
  shows "fsub round64 (size_sum f (r # ws)) (f r) = size_sum f ws"
proof -
  have r: "f r = kb_sum (kb_units (f r))" using assms(1) by (simp add: kb_ok_eq)
  have "\<bar>sum_list (map (\<lambda>r. kb_units (f r)) ws)\<bar> < 2 ^ 53"
    using assms by (intro size_units_exact) simp_all
  then have "fsub round64 (kb_sum (sum_list (map (\<lambda>r. kb_units (f r)) (r # ws)))) (kb_sum (kb_units (f r))) =
      kb_sum (sum_list (map (\<lambda>r. kb_units (f r)) ws))"
    by (subst fsub_kb) simp_all
  then show ?thesis unfolding size_sum_def using r by simp
qed

lemma hist_of_Nil [simp]: "hist_of slot [] = (\<lambda>_. 0)"
  by (simp add: hist_of_def)

lemma hist_of_add: "hist_add (hist_of slot ws) (slot r) 1 = hist_of slot (ws @ [r])"
  by (auto simp: hist_of_def hist_add_def fun_eq_iff split: option.splits)

lemma hist_of_sub: "hist_add (hist_of slot (r # ws)) (slot r) (- 1) = hist_of slot ws"
  by (auto simp: hist_of_def hist_add_def fun_eq_iff split: option.splits)

lemma window_okD:
  assumes "window_ok ws"
  shows "length ws < WINDOW_MAX" "list_all (\<lambda>r. kb_ok (doc_size r)) ws"
    "list_all (\<lambda>r. kb_ok (memory_footprint r)) ws" "\<And>r. r \<in> set ws \<Longrightarrow> record_ok r"
  using assms by (auto simp: window_ok_def list_all_iff record_ok_def)

lemma window_ok_filter: "window_ok ws \<Longrightarrow> window_ok (filter P ws)"
  by (auto simp: window_ok_def list_all_iff intro: le_less_trans [OF length_filter_le])

lemma record_ok_times:
  "record_ok r \<Longrightarrow> timeval_ok (req_time r)" "record_ok r \<Longrightarrow> timeval_ok (ru_utime r)"
  "record_ok r \<Longrightarrow> timeval_ok (ru_stime r)"
  by (simp_all add: record_ok_def)

lemmas sum_steps = usec_sum_add usec_sum_sub size_sum_add size_sum_sub record_ok_times

lemma totals_agg_zero [simp]: "totals_agg zero_totals []"
  by (simp add: totals_agg_def zero_totals_def)

lemma totals_agg_add:
  assumes "totals_agg t ws" and "window_ok (ws @ [r])"
  shows "totals_agg (totals_add t r) (ws @ [r])"
  using assms window_okD [OF assms(2)] by (simp add: totals_agg_def totals_add_def sum_steps)

lemma totals_agg_sub:
  assumes "totals_agg t (r # ws)" and "window_ok (r # ws)"
  shows "totals_agg (totals_sub t r) ws"
  using assms window_okD [OF assms(2)] by (simp add: totals_agg_def totals_sub_def sum_steps)

lemma row_agg_add:
  assumes "row_agg hs report d ws" and "window_ok (ws @ [r])"
  shows "row_agg hs report (row_add hs report d r) (ws @ [r])"
  using assms(1) window_okD [OF assms(2)] hist_of_add [of "req_slot hs report" ws r]
  by (simp add: row_agg_def row_add_def sum_steps PINBA_UPDATE_HISTOGRAM_ADD_def hist_get_update req_slot_def)

lemma row_agg_sub:
  assumes "row_agg hs report d (r # ws)" and "window_ok (r # ws)"
  shows "row_agg hs report (row_sub hs report d r) ws"
  using assms(1) window_okD [OF assms(2)] hist_of_sub [of "req_slot hs report" r ws]
    histogram_slot_uminus [where c = 1]
  by (simp add: row_agg_def row_sub_def sum_steps PINBA_UPDATE_HISTOGRAM_DEL_def hist_get_update req_slot_def)

lemma row_agg_only:
  "row_agg hs report d (r # ws) \<Longrightarrow> window_ok (r # ws) \<Longrightarrow> row_count d = 1 \<longleftrightarrow> ws = []"
  using of_nat_word64_eq_1_iff [of "length (r # ws)"]
  by (auto simp: row_agg_def window_ok_def WINDOW_MAX_def)

lemma row_agg_cnt [simp]: "row_agg hs (report\<lparr>results_cnt := n\<rparr>) = row_agg hs report"
  by (simp add: fun_eq_iff row_agg_def req_slot_def [abs_def])

lemma delete_check_cnt [simp]:
  "PINBA_REPORT_DELETE_CHECK (report\<lparr>results_cnt := n\<rparr>) = PINBA_REPORT_DELETE_CHECK report"
  by (simp add: fun_eq_iff PINBA_REPORT_DELETE_CHECK_def)

lemma count_pred: "Suc n = m \<Longrightarrow> (of_nat m :: u64) - 1 = of_nat n"
  by auto

end
