(* ===== verification/Percentile.thy ===== *)
theory Percentile
  imports Time_Conversion
begin

text \<open>
  The percentile columns of a report (\<^verbatim>\<open>src/pinba_percentile.h\<close>): the decimal grammar of a
  fractional percentile, the rank of a percentile among \<open>count\<close> samples, and the parser of
  the histogram's upper bound. Numerator, denominator and scale are 64-bit words, the
  product of the rank is a 128-bit word.
\<close>

section \<open>The operations\<close>

record pinba_percentile =
  pvalue :: fp
  numerator :: u64
  denominator :: u64

definition is_digit :: "char \<Rightarrow> bool" where
  "is_digit c \<longleftrightarrow> 48 \<le> (of_char c :: nat) \<and> (of_char c :: nat) \<le> 57"

definition digit_val :: "char \<Rightarrow> nat" where
  "digit_val c = (of_char c :: nat) - 48"

text \<open>The loop over the characters, with \<^verbatim>\<open>number\<close>, \<^verbatim>\<open>scale\<close>, \<^verbatim>\<open>decimals\<close> and \<^verbatim>\<open>dot\<close>.\<close>

fun fractional_loop :: "string \<Rightarrow> u64 \<Rightarrow> u64 \<Rightarrow> u32 \<Rightarrow> bool \<Rightarrow> (u64 \<times> u64) option" where
  "fractional_loop [] number scale decimals dot = Some (number, scale)"
| "fractional_loop (c # cs) number scale decimals dot =
     (if c = CHR ''.'' \<and> \<not> dot then fractional_loop cs number scale decimals True
      else
        let decimals' = (if is_digit c \<and> dot then decimals + 1 else decimals)
        in if \<not> is_digit c \<or> dot \<and> decimals' > 9 then None
           else
             let scale' = (if dot then scale * 10 else scale);
                 number' = number * 10 + of_nat (digit_val c)
             in if number' > 100 * scale' then None
                else fractional_loop cs number' scale' decimals' dot)"

definition pinba_parse_fractional_percentile :: "string \<Rightarrow> pinba_percentile option" where
  "pinba_parse_fractional_percentile text =
     (if text = [] \<or> \<not> is_digit (hd text) \<or> last text = CHR ''.'' then None
      else
        case fractional_loop text 0 1 0 False of
          None \<Rightarrow> None
        | Some (number, scale) \<Rightarrow>
            if number = 0 then None
            else Some \<lparr>pvalue = fdiv round64 (f64_of_int (uint number)) (f64_of_int (uint scale)),
                       numerator = number, denominator = 100 * scale\<rparr>)"

definition pinba_percentile_rank :: "u64 \<Rightarrow> pinba_percentile \<Rightarrow> u64" where
  "pinba_percentile_rank count percentile =
     (if count = 0 then 0
      else if denominator percentile \<noteq> 0 then
        let product = (ucast count :: 128 word) * ucast (numerator percentile)
        in ucast ((product + ucast (denominator percentile) - 1) div ucast (denominator percentile))
      else
        let rank = fmul round32 (f32_of_int (uint count))
                     (fdiv round32 (fto_f32 (pvalue percentile)) (FNum 100))
        in if fle (FNum (of_int (uint count))) rank then count
           else max 1 (word_of_int (ftrunc rank)))"

text \<open>
  \<^verbatim>\<open>std::from_chars\<close> of a double in the general format: an optional minus sign, then the
  longest decimal prefix with an optional exponent, correctly rounded, or one of the words
  \<^verbatim>\<open>inf\<close> and \<^verbatim>\<open>nan\<close> in any case. \<open>None\<close> is a result whose error code is set (no number, or
  a magnitude outside the double range).
\<close>

definition digits_val :: "string \<Rightarrow> nat" where
  "digits_val ds = foldl (\<lambda>n c. 10 * n + digit_val c) 0 ds"

definition exponent_of :: "string \<Rightarrow> int" where
  "exponent_of s =
     (case s of
        c # t \<Rightarrow>
          if c = CHR ''e'' \<or> c = CHR ''E'' then
            (case t of
               d # u \<Rightarrow>
                 if d = CHR ''-'' then - int (digits_val (takeWhile is_digit u))
                 else if d = CHR ''+'' then int (digits_val (takeWhile is_digit u))
                 else int (digits_val (takeWhile is_digit t))
             | [] \<Rightarrow> 0)
          else 0
      | [] \<Rightarrow> 0)"

definition lower_ascii :: "char \<Rightarrow> char" where
  "lower_ascii c = (if 65 \<le> (of_char c :: nat) \<and> (of_char c :: nat) \<le> 90
                    then char_of ((of_char c :: nat) + 32) else c)"

definition from_chars_double :: "string \<Rightarrow> fp option" where
  "from_chars_double s =
     (let neg = (s \<noteq> [] \<and> hd s = CHR ''-'');
          s1 = (if neg then tl s else s);
          ip = takeWhile is_digit s1;
          r1 = dropWhile is_digit s1;
          fs = (if r1 \<noteq> [] \<and> hd r1 = CHR ''.'' then takeWhile is_digit (tl r1) else []);
          r2 = (if r1 \<noteq> [] \<and> hd r1 = CHR ''.'' then dropWhile is_digit (tl r1) else r1);
          word = map lower_ascii (take 3 s1)
      in if ip = [] \<and> fs = [] then
           (if word = ''inf'' then Some (FInf neg) else if word = ''nan'' then Some FNaN else None)
         else
           let m = rat_of_nat (digits_val (ip @ fs)) * 10 powi (exponent_of r2 - int (length fs))
           in case round64 (if neg then - m else m) of
                FNum x \<Rightarrow> Some (FNum x)
              | _ \<Rightarrow> None)"

definition is_space :: "char \<Rightarrow> bool" where
  "is_space c \<longleftrightarrow> c = CHR '' '' \<or> (9 \<le> (of_char c :: nat) \<and> (of_char c :: nat) \<le> 13)"

definition pinba_parse_histogram_max :: "string \<Rightarrow> int option" where
  "pinba_parse_histogram_max text =
     (let t1 = dropWhile is_space text;
          t2 = (if t1 \<noteq> [] \<and> hd t1 = CHR ''+'' then tl t1 else t1)
      in if t2 = [] then None
         else case from_chars_double t2 of
                None \<Rightarrow> None
              | Some v \<Rightarrow>
                  if \<not> fis_finite v \<or> fless v (FNum 1) \<or> fless (f64_of_int INT_MAX) v then None
                  else Some (ftrunc v))"

section \<open>The grammar of a fractional percentile\<close>

definition digits_from :: "nat \<Rightarrow> string \<Rightarrow> nat" where
  "digits_from n ds = foldl (\<lambda>n c. 10 * n + digit_val c) n ds"

lemma digits_from_Nil [simp]: "digits_from n [] = n"
  and digits_from_Cons [simp]: "digits_from n (c # ds) = digits_from (10 * n + digit_val c) ds"
  and digits_from_append: "digits_from n (ds @ es) = digits_from (digits_from n ds) es"
  by (simp_all add: digits_from_def)

lemma digits_val_from: "digits_val = digits_from 0"
  by (simp add: fun_eq_iff digits_val_def digits_from_def)

lemma digits_from_ge: "n * 10 ^ length ds \<le> digits_from n ds"
proof (induction ds arbitrary: n)
  case (Cons c ds)
  have "n * 10 ^ length (c # ds) \<le> (10 * n + digit_val c) * 10 ^ length ds"
    by (simp add: algebra_simps)
  also have "\<dots> \<le> digits_from n (c # ds)" using Cons.IH by simp
  finally show ?case .
qed simp

lemma digits_from_ge1: "n \<le> digits_from n ds"
proof -
  have "n * 1 \<le> n * 10 ^ length ds" by (rule mult_le_mono2) simp
  then show ?thesis using digits_from_ge [of n ds] by (metis le_trans mult_1_right)
qed

lemma digit_val_le: "is_digit c \<Longrightarrow> digit_val c \<le> 9"
  by (auto simp: is_digit_def digit_val_def)

lemma dot_not_digit [simp]: "\<not> is_digit (CHR ''.'')"
  by (simp add: is_digit_def)

lemma pow10_le: "d \<le> 9 \<Longrightarrow> (10::nat) ^ d \<le> 1000000000"
  using power_increasing [of d 9 "10::nat"] by simp

text \<open>One digit of the loop, on numbers that fit.\<close>

lemma number_step:
  assumes "n \<le> 100000000000" and "is_digit c"
  shows "(of_nat n * 10 + of_nat (digit_val c) :: u64) = of_nat (10 * n + digit_val c)"
    and "s \<le> 1000000000 \<Longrightarrow> (100 * of_nat s < (of_nat (10 * n + digit_val c) :: u64)) \<longleftrightarrow>
         100 * s < 10 * n + digit_val c"
proof -
  show "(of_nat n * 10 + of_nat (digit_val c) :: u64) = of_nat (10 * n + digit_val c)" by simp
  assume s: "s \<le> 1000000000"
  have "100 * of_nat s = (of_nat (100 * s) :: u64)" by simp
  moreover have "10 * n + digit_val c < 2 ^ 64" using assms digit_val_le [OF assms(2)] by simp
  moreover have "100 * s < 2 ^ 64" using s by simp
  ultimately show "(100 * of_nat s < (of_nat (10 * n + digit_val c) :: u64)) \<longleftrightarrow>
         100 * s < 10 * n + digit_val c"
    using of_nat_word64_less_iff [of "100 * s" "10 * n + digit_val c"] by simp
qed

lemma fractional_loop_dot:
  assumes "d \<le> 9" and "n \<le> 100 * 10 ^ d"
  shows "fractional_loop cs (of_nat n) (of_nat (10 ^ d)) (of_nat d) True =
     (if list_all is_digit cs \<and> d + length cs \<le> 9 \<and>
         digits_from n cs \<le> 100 * 10 ^ (d + length cs)
      then Some (of_nat (digits_from n cs), of_nat (10 ^ (d + length cs))) else None)"
  using assms
proof (induction cs arbitrary: d n)
  case (Cons c cs)
  show ?case
  proof (cases "is_digit c \<and> d < 9")
    case False
    have "9 < (of_nat d + 1 :: u32) \<longleftrightarrow> \<not> d < 9"
      using Cons.prems(1) by (cases "d = 9") (auto simp: word_less_nat_alt unat_word_ariths unat_of_nat)
    then show ?thesis using False by (auto simp: Let_def)
  next
    case True
    let ?n = "10 * n + digit_val c"
    have n: "n \<le> 100000000000" using Cons.prems pow10_le [of d] by linarith
    have s: "(10::nat) ^ Suc d \<le> 1000000000" using True pow10_le [of "Suc d"] by simp
    have nine: "(9 < (1 + of_nat d :: u32)) = False"
      using True by (simp add: word_less_nat_alt unat_word_ariths unat_of_nat)
    have step: "fractional_loop (c # cs) (of_nat n) (of_nat (10 ^ d)) (of_nat d) True =
        (if 100 * 10 ^ Suc d < ?n then None
         else fractional_loop cs (of_nat ?n) (of_nat (10 ^ Suc d)) (of_nat (Suc d)) True)"
      using True number_step [OF n, of c] number_step(2) [OF n _ s, of c]
      by (simp add: Let_def nine mult.commute add.commute)
    show ?thesis
    proof (cases "100 * 10 ^ Suc d < ?n")
      case True
      have "100 * 10 ^ (Suc d + length cs) < ?n * 10 ^ length cs"
        using True by (simp add: power_add)
      also have "\<dots> \<le> digits_from n (c # cs)" using digits_from_ge by simp
      finally show ?thesis unfolding step using True by simp
    next
      case False
      then show ?thesis unfolding step using True Cons.IH [of "Suc d" ?n] by simp
    qed
  qed
qed simp

lemma fractional_loop_int:
  assumes "n \<le> 100"
  shows "fractional_loop cs (of_nat n) 1 0 False =
     (let ip = takeWhile is_digit cs; rest = dropWhile is_digit cs
      in if 100 < digits_from n ip then None
         else if rest = [] then Some (of_nat (digits_from n ip), 1)
         else if hd rest = CHR ''.'' then
           fractional_loop (tl rest) (of_nat (digits_from n ip)) 1 0 True
         else None)"
  using assms
proof (induction cs arbitrary: n)
  case (Cons c cs)
  show ?case
  proof (cases "is_digit c")
    case False
    then show ?thesis using Cons.prems by (auto simp: Let_def)
  next
    case True
    let ?n = "10 * n + digit_val c"
    have dot: "c \<noteq> CHR ''.''" using True by auto
    have n: "n \<le> 100000000000" using Cons.prems by simp
    have step: "fractional_loop (c # cs) (of_nat n) 1 0 False =
        (if 100 < ?n then None else fractional_loop cs (of_nat ?n) 1 0 False)"
      using True dot number_step [OF n, of c] number_step(2) [OF n, of c 1]
      by (simp add: Let_def mult.commute add.commute)
    show ?thesis
    proof (cases "100 < ?n")
      case True
      have "?n \<le> digits_from ?n (takeWhile is_digit cs)" by (rule digits_from_ge1)
      then have "100 < digits_from ?n (takeWhile is_digit cs)" using True by linarith
      then show ?thesis unfolding step using True \<open>is_digit c\<close> by simp
    next
      case False
      then show ?thesis unfolding step using True Cons.IH [of ?n] by (simp add: Let_def)
    qed
  qed
qed simp

definition fractional_form :: "string \<Rightarrow> string \<Rightarrow> string" where
  "fractional_form ip fs = (if fs = [] then ip else ip @ CHR ''.'' # fs)"

definition percentile_of :: "nat \<Rightarrow> nat \<Rightarrow> pinba_percentile" where
  "percentile_of number scale =
     \<lparr>pvalue = fdiv round64 (f64_of_int (int number)) (f64_of_int (int scale)),
      numerator = of_nat number, denominator = of_nat (100 * scale)\<rparr>"

definition fractional_text :: "string \<Rightarrow> string \<Rightarrow> string \<Rightarrow> bool" where
  "fractional_text text ip fs \<longleftrightarrow>
     text = fractional_form ip fs \<and> ip \<noteq> [] \<and> list_all is_digit ip \<and> list_all is_digit fs \<and>
     length fs \<le> 9 \<and> 0 < digits_val (ip @ fs) \<and> digits_val (ip @ fs) \<le> 100 * 10 ^ length fs"

lemma digits_prefix_le:
  assumes "digits_val (ip @ fs) \<le> 100 * 10 ^ length fs"
  shows "digits_val ip \<le> 100"
proof -
  have "digits_val ip * 10 ^ length fs \<le> digits_val (ip @ fs)"
    using digits_from_ge [of "digits_val ip" fs] by (simp add: digits_val_from digits_from_append)
  then have "digits_val ip * 10 ^ length fs \<le> 100 * 10 ^ length fs"
    using assms by (rule order_trans)
  then show ?thesis by (simp only: mult_le_cancel2) simp
qed

lemma takeWhile_digits:
  "list_all is_digit ip \<Longrightarrow> rest = [] \<or> \<not> is_digit (hd rest) \<Longrightarrow>
   takeWhile is_digit (ip @ rest) = ip \<and> dropWhile is_digit (ip @ rest) = rest"
  by (cases rest) (auto simp: list_all_iff takeWhile_append dropWhile_append)

lemma fractional_loop_form:
  assumes "list_all is_digit ip" and "list_all is_digit fs"
  shows "fractional_loop (fractional_form ip fs) 0 1 0 False =
     (if length fs \<le> 9 \<and> digits_val (ip @ fs) \<le> 100 * 10 ^ length fs
      then Some (of_nat (digits_val (ip @ fs)), of_nat (10 ^ length fs)) else None)"
proof (cases "fs = []")
  case True
  have tw: "takeWhile is_digit ip = ip" "dropWhile is_digit ip = []"
    using takeWhile_digits [OF assms(1), of "[]"] by simp_all
  show ?thesis
    using True fractional_loop_int [of 0 ip]
    by (simp add: tw Let_def fractional_form_def digits_val_from)
next
  case False
  have tw: "takeWhile is_digit (ip @ CHR ''.'' # fs) = ip"
    "dropWhile is_digit (ip @ CHR ''.'' # fs) = CHR ''.'' # fs"
    using takeWhile_digits [OF assms(1), of "CHR ''.'' # fs"] by simp_all
  have "fractional_loop (fractional_form ip fs) 0 1 0 False =
      (if 100 < digits_val ip then None
       else fractional_loop fs (of_nat (digits_val ip)) 1 0 True)"
    using fractional_loop_int [of 0 "ip @ CHR ''.'' # fs"] False
    by (simp add: tw fractional_form_def Let_def digits_val_from)
  moreover have "\<not> 100 < digits_val ip" if "digits_val (ip @ fs) \<le> 100 * 10 ^ length fs"
    using digits_prefix_le [OF that] by simp
  moreover have "fractional_loop fs (of_nat (digits_val ip)) 1 0 True =
     (if length fs \<le> 9 \<and> digits_val (ip @ fs) \<le> 100 * 10 ^ length fs
      then Some (of_nat (digits_val (ip @ fs)), of_nat (10 ^ length fs)) else None)"
    if "\<not> 100 < digits_val ip"
    using that fractional_loop_dot [of 0 "digits_val ip" fs] assms(2)
    by (simp add: digits_val_from digits_from_append)
  ultimately show ?thesis by auto
qed

lemma fractional_loop_shape:
  assumes "fractional_loop text 0 1 0 False = Some r" and "last text \<noteq> CHR ''.''"
    and "is_digit (hd text)" and "text \<noteq> []"
  obtains ip fs where "text = fractional_form ip fs" and "ip \<noteq> []"
    and "list_all is_digit ip" and "list_all is_digit fs"
proof -
  let ?ip = "takeWhile is_digit text" and ?rest = "dropWhile is_digit text"
  have t: "text = ?ip @ ?rest" by simp
  have ip: "?ip \<noteq> []" "list_all is_digit ?ip"
    using assms(3,4) by (cases "text", auto simp: list_all_iff dest: set_takeWhileD)
  have loop: "\<not> 100 < digits_from 0 ?ip"
    "?rest \<noteq> [] \<Longrightarrow> hd ?rest = CHR ''.'' \<and>
       fractional_loop (tl ?rest) (of_nat (digits_from 0 ?ip)) 1 0 True = Some r"
    using assms(1) fractional_loop_int [of 0 "text"] by (auto simp: Let_def split: if_splits)
  show ?thesis
  proof (cases "?rest = []")
    case True
    then have "text = fractional_form ?ip []" using t by (metis append_Nil2 fractional_form_def)
    then show ?thesis using ip by (rule that) simp
  next
    case False
    then have rest: "?rest = CHR ''.'' # tl ?rest" using loop(2) by (metis list.collapse)
    have "tl ?rest \<noteq> []" using assms(2) False rest t by (metis last_ConsL last_appendR)
    moreover have "list_all is_digit (tl ?rest)"
      using loop(2) [OF False] loop(1) fractional_loop_dot [of 0 "digits_from 0 ?ip" "tl ?rest"]
      by (simp split: if_splits)
    ultimately show ?thesis
      using that [of ?ip "tl ?rest"] ip rest t by (metis fractional_form_def)
  qed
qed

lemma if_Some_iff: "(if c then Some (a, b) else None) = Some (x, y) \<longleftrightarrow> c \<and> x = a \<and> y = b"
  by auto

lemma percentile_fits:
  fixes n :: nat
  assumes "length fs \<le> 9" and "n \<le> 100 * 10 ^ length fs"
  shows "n < 2 ^ 64" and "10 ^ length fs < (2 ^ 64 :: nat)"
  using assms pow10_le [of "length fs"] by simp_all

lemma fractional_text_ends:
  assumes "fractional_text s ip fs"
  shows "s \<noteq> [] \<and> is_digit (hd s) \<and> last s \<noteq> CHR ''.''"
proof -
  have all: "\<forall>x \<in> set (ip @ fs). is_digit x" and "is_digit (hd ip)" and ip: "ip \<noteq> []"
    using assms by (auto simp: fractional_text_def list_all_iff)
  moreover have "is_digit (last (ip @ fs))" using all ip last_in_set by blast
  ultimately show ?thesis using assms by (auto simp: fractional_text_def fractional_form_def)
qed

text \<open>
  C29: The percentile parser accepts exactly the decimal numbers in (0, 100] with at least one
  digit before the point and one to nine digits after it, if there is a point, and returns
  the number exactly: the digits as numerator over 100 * 10^decimals.
\<close>

theorem parse_fractional_percentile_iff:
  "pinba_parse_fractional_percentile s = Some p \<longleftrightarrow>
     (\<exists>ip fs. fractional_text s ip fs \<and>
        p = percentile_of (digits_val (ip @ fs)) (10 ^ length fs))"
proof
  assume l: "pinba_parse_fractional_percentile s = Some p"
  then obtain number scale where loop: "fractional_loop s 0 1 0 False = Some (number, scale)"
    and s: "s \<noteq> []" "is_digit (hd s)" "last s \<noteq> CHR ''.''" and number: "number \<noteq> 0"
    and p: "p = \<lparr>pvalue = fdiv round64 (f64_of_int (uint number)) (f64_of_int (uint scale)),
                 numerator = number, denominator = 100 * scale\<rparr>"
    by (auto simp: pinba_parse_fractional_percentile_def split: if_splits option.splits)
  obtain ip fs where f: "s = fractional_form ip fs" "ip \<noteq> []" "list_all is_digit ip"
    "list_all is_digit fs"
    using fractional_loop_shape [OF loop s(3,2,1)] .
  have "(if length fs \<le> 9 \<and> digits_val (ip @ fs) \<le> 100 * 10 ^ length fs
      then Some (of_nat (digits_val (ip @ fs)), of_nat (10 ^ length fs)) else None) =
      Some (number, scale)"
    using loop unfolding f(1) fractional_loop_form [OF f(3,4)] .
  then have d: "length fs \<le> 9" "digits_val (ip @ fs) \<le> 100 * 10 ^ length fs"
    and n: "number = of_nat (digits_val (ip @ fs))" and sc: "scale = of_nat (10 ^ length fs)"
    unfolding if_Some_iff by blast+
  have "uint number = int (digits_val (ip @ fs))" "uint scale = int (10 ^ length fs)"
    using percentile_fits [OF d] by (simp_all only: n sc uint_of_nat_word64)
  then have "p = percentile_of (digits_val (ip @ fs)) (10 ^ length fs)"
    by (simp add: p percentile_of_def n sc)
  moreover have "0 < digits_val (ip @ fs)" using number n by (cases "digits_val (ip @ fs)") auto
  ultimately show "\<exists>ip fs. fractional_text s ip fs \<and>
        p = percentile_of (digits_val (ip @ fs)) (10 ^ length fs)"
    using f d by (auto simp: fractional_text_def)
next
  assume "\<exists>ip fs. fractional_text s ip fs \<and>
        p = percentile_of (digits_val (ip @ fs)) (10 ^ length fs)"
  then obtain ip fs where f: "fractional_text s ip fs"
    and p: "p = percentile_of (digits_val (ip @ fs)) (10 ^ length fs)" by blast
  let ?n = "digits_val (ip @ fs)"
  have fits: "?n < 2 ^ 64" "10 ^ length fs < (2 ^ 64 :: nat)"
    using percentile_fits f by (auto simp: fractional_text_def)
  have loop: "fractional_loop s 0 1 0 False = Some (of_nat ?n, of_nat (10 ^ length fs))"
    using f fractional_loop_form [of ip fs] by (simp add: fractional_text_def)
  have s: "s \<noteq> []" "is_digit (hd s)" "last s \<noteq> CHR ''.''"
    using fractional_text_ends [OF f] by auto
  have u: "uint (of_nat ?n :: u64) = int ?n"
    "uint (of_nat (10 ^ length fs) :: u64) = int (10 ^ length fs)"
    using fits by (simp_all only: uint_of_nat_word64)
  have nz: "(of_nat ?n :: u64) \<noteq> 0"
    using f fits(1) by (simp add: of_nat_word64_eq_0_iff fractional_text_def)
  show "pinba_parse_fractional_percentile s = Some p"
    unfolding pinba_parse_fractional_percentile_def loop p percentile_of_def
    using s u nz by simp
qed

section \<open>The rank of a percentile\<close>

lemma ucast128: "unat (ucast (w :: u64) :: 128 word) = unat w"
proof -
  have "unat w < 2 ^ 128" using unat_less_64 [of w] by simp
  then show ?thesis by (simp add: unsigned_ucast_eq take_bit_nat_eq_self)
qed

lemma ucast_128_64: "unat (x :: 128 word) < 2 ^ 64 \<Longrightarrow> unat (ucast x :: u64) = unat x"
  by (simp add: unsigned_ucast_eq unsigned_take_bit_eq take_bit_nat_eq_self)

lemma unat_128_arith:
  fixes a b :: "128 word"
  shows "unat a * unat b < 2 ^ 128 \<Longrightarrow> unat (a * b) = unat a * unat b"
    and "unat a + unat b < 2 ^ 128 \<Longrightarrow> unat (a + b) = unat a + unat b"
  by (simp_all add: unat_word_ariths)

lemma ceil_div_nat:
  assumes "0 < b"
  shows "\<lceil>rat_of_nat a / rat_of_nat b\<rceil> = int ((a + b - 1) div b)"
proof (rule ceiling_unique)
  let ?q = "(a + b - 1) div b"
  have "?q * b \<le> a + b - 1" by (rule div_times_less_eq_dividend)
  moreover have "a + b - 1 < ?q * b + b" using dividend_less_div_times [OF assms, of "a + b - 1"] by simp
  ultimately have "?q * b < a + b" "a \<le> ?q * b" using assms by linarith+
  then have "rat_of_nat (?q * b) < rat_of_nat (a + b)" "rat_of_nat a \<le> rat_of_nat (?q * b)"
    by (simp_all only: of_nat_less_iff of_nat_le_iff)
  then show "of_int (int ?q) - 1 < rat_of_nat a / rat_of_nat b"
    and "rat_of_nat a / rat_of_nat b \<le> of_int (int ?q)"
    using assms by (simp_all add: field_simps)
qed

text \<open>
  C30: For a percentile of the decimal grammar the rank is the exact ceiling of
  count * number / (100 * scale), computed without overflow, and it is a rank: between 1 and
  the number of samples.
\<close>

theorem percentile_rank_exact:
  assumes "0 < n" and "n \<le> 100 * s" and "0 < s" and "s \<le> 10 ^ 9" and "count \<noteq> 0"
  shows "int (unat (pinba_percentile_rank count (percentile_of n s))) =
           \<lceil>rat_of_nat (unat count) * rat_of_nat n / rat_of_nat (100 * s)\<rceil> \<and>
         1 \<le> pinba_percentile_rank count (percentile_of n s) \<and>
         pinba_percentile_rank count (percentile_of n s) \<le> count"
proof -
  let ?c = "unat count" and ?d = "100 * s"
  let ?r = "(?c * n + ?d - 1) div ?d"
  have c: "0 < ?c" "?c < 2 ^ 64"
    using assms(5) unat_less_64 [of count] by (simp_all add: unat_gt_0)
  have nd: "n < 2 ^ 37" "?d < 2 ^ 37" "0 < ?d" using assms by simp_all
  have den: "unat (of_nat ?d :: u64) = ?d" "unat (of_nat n :: u64) = n"
    using nd unat_of_nat_word64 [of ?d] unat_of_nat_word64 [of n] by simp_all
  then have dn: "denominator (percentile_of n s) \<noteq> 0"
    using nd by (metis percentile_of_def pinba_percentile.select_convs(3) unat_0 less_irrefl)
  have prod: "?c * n < 2 ^ 64 * 2 ^ 37" using c nd by (intro mult_strict_mono) simp_all
  have le: "?r \<le> ?c"
  proof -
    have "?c * n \<le> ?c * ?d" using assms(2) by (rule mult_le_mono2)
    moreover have "(?c + 1) * ?d = ?c * ?d + ?d" by simp
    ultimately have "?c * n + ?d - 1 < (?c + 1) * ?d" using nd(3) by linarith
    then show ?thesis using nd by (metis Suc_eq_plus1 less_Suc_eq_le less_mult_imp_div_less)
  qed
  have ge: "1 \<le> ?r"
  proof -
    have "?d \<le> ?c * n + ?d - 1" using c assms(1) by (cases "?c * n") auto
    then show ?thesis using nd by (metis Suc_leI div_greater_zero_iff One_nat_def)
  qed
  let ?C = "ucast count :: 128 word" and ?N = "ucast (of_nat n :: u64) :: 128 word"
    and ?D = "ucast (of_nat ?d :: u64) :: 128 word"
  have u: "unat (?C * ?N) = ?c * n" "unat ?D = ?d"
    using prod unat_128_arith(1) [of ?C ?N] by (simp_all add: ucast128 den del: of_nat_mult)
  then have "unat (?C * ?N + ?D) = ?c * n + ?d"
    using prod nd unat_128_arith(2) [of "?C * ?N" ?D] by (simp del: of_nat_mult)
  then have "unat ((?C * ?N + ?D - 1) div ?D) = ?r"
    using nd u by (simp add: unat_div unat_pred unat_gt_0 [symmetric] word_less_nat_alt del: of_nat_mult)
  moreover have "?r < 2 ^ 64" using le c by simp
  ultimately have "unat (ucast ((?C * ?N + ?D - 1) div ?D) :: u64) = ?r"
    using ucast_128_64 [of "(?C * ?N + ?D - 1) div ?D"] by (simp only:)
  then have "unat (pinba_percentile_rank count (percentile_of n s)) = ?r"
    using dn assms(5) by (simp add: pinba_percentile_rank_def percentile_of_def Let_def del: of_nat_mult)
  then show ?thesis
    using ceil_div_nat [OF nd(3), of "?c * n"] le ge by (simp add: word_le_nat_alt)
qed

theorem percentile_rank_exact_witness:
  "int (unat (pinba_percentile_rank 1001 (percentile_of 9990 100))) =
     \<lceil>rat_of_nat (unat (1001 :: u64)) * rat_of_nat 9990 / rat_of_nat (100 * 100)\<rceil> \<and>
   1 \<le> pinba_percentile_rank 1001 (percentile_of 9990 100) \<and>
   pinba_percentile_rank 1001 (percentile_of 9990 100) \<le> 1001"
  by (rule percentile_rank_exact) simp_all

section \<open>The bound of the histogram\<close>

lemma digit_plain:
  "is_digit c \<Longrightarrow> \<not> is_space c \<and> c \<noteq> CHR ''+'' \<and> c \<noteq> CHR ''-''"
  by (auto simp: is_digit_def is_space_def)

lemma from_chars_digits:
  assumes "s \<noteq> []" and "list_all is_digit s" and "int (digits_val s) < 2 ^ 53"
  shows "from_chars_double s = Some (FNum (of_nat (digits_val s)))"
proof -
  have tw: "takeWhile is_digit s = s" "dropWhile is_digit s = []"
    using takeWhile_digits [OF assms(2), of "[]"] by simp_all
  have "hd s \<noteq> CHR ''-''" using assms by (cases s) (auto dest: digit_plain)
  moreover have "round64 (of_nat (digits_val s)) = FNum (of_nat (digits_val s))"
    using round64_of_int [of "int (digits_val s)"] assms(3) by simp
  ultimately show ?thesis
    using assms(1) by (simp add: from_chars_double_def tw Let_def exponent_of_def)
qed

text \<open>
  The upper bound a table comment gives its histogram is accepted only if it is a number
  of seconds between 1 and INT_MAX, and a plain decimal integer in that range is read
  exactly.
\<close>

theorem parse_histogram_max_range:
  "(\<forall>m. pinba_parse_histogram_max s = Some m \<longrightarrow> 1 \<le> m \<and> m \<le> INT_MAX) \<and>
   (s \<noteq> [] \<and> list_all is_digit s \<and> 1 \<le> int (digits_val s) \<and> int (digits_val s) \<le> INT_MAX \<longrightarrow>
    pinba_parse_histogram_max s = Some (int (digits_val s)))"
proof (intro conjI allI impI)
  fix m assume "pinba_parse_histogram_max s = Some m"
  then obtain v where v: "fis_finite v" "\<not> fless v (FNum 1)" "\<not> fless (FNum 2147483647) v"
    and m: "m = ftrunc v"
    by (auto simp: pinba_parse_histogram_max_def Let_def split: if_splits option.splits)
  then obtain x where x: "v = FNum x" "1 \<le> x" "x \<le> 2147483647" by (cases v) auto
  then have "m = \<lfloor>x\<rfloor>" using m by (simp add: rat_trunc_def)
  then show "1 \<le> m" "m \<le> INT_MAX"
    using x by (simp_all add: INT_MAX_def floor_le_iff)
next
  assume a: "s \<noteq> [] \<and> list_all is_digit s \<and> 1 \<le> int (digits_val s) \<and> int (digits_val s) \<le> INT_MAX"
  have "\<not> is_space (hd s)" "hd s \<noteq> CHR ''+''" using a by (cases s; auto dest: digit_plain)+
  moreover have "dropWhile is_space s = s" using calculation(1) by (cases s) auto
  moreover have "from_chars_double s = Some (FNum (of_nat (digits_val s)))"
    using a by (intro from_chars_digits) (auto simp: INT_MAX_def)
  moreover have "ftrunc (FNum (of_nat (digits_val s))) = int (digits_val s)"
    by (simp add: rat_trunc_def)
  moreover have "rat_of_nat (digits_val s) \<le> 2147483647"
    using a of_int_le_iff [of "int (digits_val s)" 2147483647, where ?'a = rat] by (simp add: INT_MAX_def)
  ultimately show "pinba_parse_histogram_max s = Some (int (digits_val s))"
    using a by (simp add: pinba_parse_histogram_max_def Let_def)
qed

theorem parse_histogram_max_range_witness:
  "pinba_parse_histogram_max ''10'' = Some 10"
  using parse_histogram_max_range [of "''10''"]
  by (simp add: is_digit_def digits_val_def digit_val_def INT_MAX_def)

end
