(* ===== verification/Report_Keys.thy ===== *)
theory Report_Keys
  imports Records Percentile
begin

text \<open>
  The row keys and row labels of the base reports 1 to 18 (\<^verbatim>\<open>src/pinba_update_report.h\<close>, the
  index and assignment parameters of its template). A key is assembled in a fixed-size
  buffer with the bounded copies of \<open>C_Buffers\<close>. The lemmas show that nothing is truncated
  for a well-formed request and which keys keep different groups apart.
\<close>

section \<open>Buffers\<close>

text \<open>\<^verbatim>\<open>char index[n] = {0}\<close>, and \<^verbatim>\<open>sprintf\<close> into it with the formatted text given.\<close>

definition zero_buf :: "nat \<Rightarrow> char list" where
  "zero_buf n = replicate n NUL"

definition sprintf_str :: "char list \<Rightarrow> string \<Rightarrow> char list \<times> nat" where
  "sprintf_str buf s = (memcpy_at buf 0 (s @ [NUL]), length s)"

text \<open>The decimal digits \<^verbatim>\<open>%u\<close> prints.\<close>

fun dec_string :: "nat \<Rightarrow> string" where
  "dec_string n =
     (if n < 10 then [char_of (48 + n)] else dec_string (n div 10) @ [char_of (48 + n mod 10)])"

declare dec_string.simps [simp del]

text \<open>\<^verbatim>\<open>memcpy_static(data->field, ...)\<close> into a field of a zeroed row.\<close>

definition static_copy :: "nat \<Rightarrow> string \<Rightarrow> string" where
  "static_copy n s = c_str (fst (memcpy_static (zero_buf n) s))"

section \<open>Keys and labels of reports 1 to 18\<close>

definition report1_index :: "pinba_stats_record \<Rightarrow> string" where
  "report1_index record = script_name record"

definition report1_labels :: "pinba_stats_record \<Rightarrow> report_labels" where
  "report1_labels record = no_labels"

definition report2_index :: "pinba_stats_record \<Rightarrow> string" where
  "report2_index record = server_name record"

definition report2_labels :: "pinba_stats_record \<Rightarrow> report_labels" where
  "report2_labels record = no_labels"

definition report3_index :: "pinba_stats_record \<Rightarrow> string" where
  "report3_index record = hostname record"

definition report3_labels :: "pinba_stats_record \<Rightarrow> report_labels" where
  "report3_labels record = no_labels"

definition report4_index :: "pinba_stats_record \<Rightarrow> string" where
  "report4_index record =
     (let bp = memcpy_static (zero_buf
            (PINBA_SERVER_NAME_SIZE + PINBA_SCRIPT_NAME_SIZE + 1)) (server_name record);
          bp = put_char_guarded (CHR ''/'') bp;
          bp = memcat_static bp (script_name record)
      in c_str (fst bp))"

definition report4_labels :: "pinba_stats_record \<Rightarrow> report_labels" where
  "report4_labels record = no_labels\<lparr>l_server_name := static_copy PINBA_SERVER_NAME_SIZE (server_name record),
     l_script_name := static_copy PINBA_SCRIPT_NAME_SIZE (script_name record)\<rparr>"

definition report5_index :: "pinba_stats_record \<Rightarrow> string" where
  "report5_index record =
     (let bp = memcpy_static (zero_buf
            (PINBA_HOSTNAME_SIZE + PINBA_SCRIPT_NAME_SIZE + 1)) (hostname record);
          bp = put_char_guarded (CHR ''/'') bp;
          bp = memcat_static bp (script_name record)
      in c_str (fst bp))"

definition report5_labels :: "pinba_stats_record \<Rightarrow> report_labels" where
  "report5_labels record = no_labels\<lparr>l_hostname := static_copy PINBA_HOSTNAME_SIZE (hostname record),
     l_script_name := static_copy PINBA_SCRIPT_NAME_SIZE (script_name record)\<rparr>"

definition report6_index :: "pinba_stats_record \<Rightarrow> string" where
  "report6_index record =
     (let bp = memcpy_static (zero_buf
            (PINBA_HOSTNAME_SIZE + PINBA_SERVER_NAME_SIZE + 1)) (hostname record);
          bp = put_char_guarded (CHR ''/'') bp;
          bp = memcat_static bp (server_name record)
      in c_str (fst bp))"

definition report6_labels :: "pinba_stats_record \<Rightarrow> report_labels" where
  "report6_labels record = no_labels\<lparr>l_hostname := static_copy PINBA_HOSTNAME_SIZE (hostname record),
     l_server_name := static_copy PINBA_SERVER_NAME_SIZE (server_name record)\<rparr>"

definition report7_index :: "pinba_stats_record \<Rightarrow> string" where
  "report7_index record =
     (let bp = memcpy_static (zero_buf
            (PINBA_HOSTNAME_SIZE + 1 + PINBA_SERVER_NAME_SIZE + 1 + PINBA_SCRIPT_NAME_SIZE)) (hostname record);
          bp = put_char_guarded (CHR '':'') bp;
          bp = memcat_static bp (server_name record);
          bp = put_char_guarded (CHR ''/'') bp;
          bp = memcat_static bp (script_name record)
      in c_str (fst bp))"

definition report7_labels :: "pinba_stats_record \<Rightarrow> report_labels" where
  "report7_labels record = no_labels\<lparr>l_hostname := static_copy PINBA_HOSTNAME_SIZE (hostname record),
     l_server_name := static_copy PINBA_SERVER_NAME_SIZE (server_name record),
     l_script_name := static_copy PINBA_SCRIPT_NAME_SIZE (script_name record)\<rparr>"

definition report8_index :: "pinba_stats_record \<Rightarrow> string" where
  "report8_index record =
     c_str (fst (sprintf_str (zero_buf PINBA_STATUS_SIZE) (dec_string (unat (status record)))))"

definition report8_labels :: "pinba_stats_record \<Rightarrow> report_labels" where
  "report8_labels record = no_labels\<lparr>l_status := uint (status record)\<rparr>"

definition report9_index :: "pinba_stats_record \<Rightarrow> string" where
  "report9_index record =
     (let bp = sprintf_str (zero_buf
            (PINBA_STATUS_SIZE + 1 + PINBA_SCRIPT_NAME_SIZE))
               (dec_string (unat (status record)) @ [CHR '':'']);
          bp = memcat_static bp (script_name record)
      in c_str (fst bp))"

definition report9_labels :: "pinba_stats_record \<Rightarrow> report_labels" where
  "report9_labels record = no_labels\<lparr>l_status := uint (status record),
     l_script_name := static_copy PINBA_SCRIPT_NAME_SIZE (script_name record)\<rparr>"

definition report10_index :: "pinba_stats_record \<Rightarrow> string" where
  "report10_index record =
     (let bp = sprintf_str (zero_buf
            (PINBA_STATUS_SIZE + 1 + PINBA_SERVER_NAME_SIZE))
               (dec_string (unat (status record)));
          bp = memcat_static bp (server_name record)
      in c_str (fst bp))"

definition report10_labels :: "pinba_stats_record \<Rightarrow> report_labels" where
  "report10_labels record = no_labels\<lparr>l_status := uint (status record),
     l_server_name := static_copy PINBA_SERVER_NAME_SIZE (server_name record)\<rparr>"

definition report11_index :: "pinba_stats_record \<Rightarrow> string" where
  "report11_index record =
     (let bp = sprintf_str (zero_buf
            (PINBA_HOSTNAME_SIZE + 1 + PINBA_STATUS_SIZE))
               (dec_string (unat (status record)));
          bp = memcat_static bp (hostname record)
      in c_str (fst bp))"

definition report11_labels :: "pinba_stats_record \<Rightarrow> report_labels" where
  "report11_labels record = no_labels\<lparr>l_status := uint (status record),
     l_hostname := static_copy PINBA_HOSTNAME_SIZE (hostname record)\<rparr>"

definition report12_index :: "pinba_stats_record \<Rightarrow> string" where
  "report12_index record =
     (let bp = sprintf_str (zero_buf
            (PINBA_STATUS_SIZE + 1 + PINBA_HOSTNAME_SIZE + 1 + PINBA_SCRIPT_NAME_SIZE))
               (dec_string (unat (status record)));
          bp = memcat_static bp (hostname record);
          bp = put_char_guarded (CHR ''/'') bp;
          bp = memcat_static bp (script_name record)
      in c_str (fst bp))"

definition report12_labels :: "pinba_stats_record \<Rightarrow> report_labels" where
  "report12_labels record = no_labels\<lparr>l_status := uint (status record),
     l_hostname := static_copy PINBA_HOSTNAME_SIZE (hostname record),
     l_script_name := static_copy PINBA_SCRIPT_NAME_SIZE (script_name record)\<rparr>"

definition report13_index :: "pinba_stats_record \<Rightarrow> string" where
  "report13_index record = schema record"

definition report13_labels :: "pinba_stats_record \<Rightarrow> report_labels" where
  "report13_labels record = no_labels"

definition report14_index :: "pinba_stats_record \<Rightarrow> string" where
  "report14_index record =
     (let bp = memcpy_static (zero_buf
            (PINBA_SCHEMA_SIZE + PINBA_SCRIPT_NAME_SIZE + 1)) (schema record);
          bp = put_char_guarded (CHR '':'') bp;
          bp = memcat_static bp (script_name record)
      in c_str (fst bp))"

definition report14_labels :: "pinba_stats_record \<Rightarrow> report_labels" where
  "report14_labels record = no_labels\<lparr>l_schema := static_copy PINBA_SCHEMA_SIZE (schema record),
     l_script_name := static_copy PINBA_SCRIPT_NAME_SIZE (script_name record)\<rparr>"

definition report15_index :: "pinba_stats_record \<Rightarrow> string" where
  "report15_index record =
     (let bp = memcpy_static (zero_buf
            (PINBA_SCHEMA_SIZE + PINBA_SERVER_NAME_SIZE + 1)) (schema record);
          bp = put_char_guarded (CHR '':'') bp;
          bp = memcat_static bp (server_name record)
      in c_str (fst bp))"

definition report15_labels :: "pinba_stats_record \<Rightarrow> report_labels" where
  "report15_labels record = no_labels\<lparr>l_schema := static_copy PINBA_SCHEMA_SIZE (schema record),
     l_server_name := static_copy PINBA_SERVER_NAME_SIZE (server_name record)\<rparr>"

definition report16_index :: "pinba_stats_record \<Rightarrow> string" where
  "report16_index record =
     (let bp = memcpy_static (zero_buf
            (PINBA_SCHEMA_SIZE + PINBA_HOSTNAME_SIZE + 1)) (schema record);
          bp = put_char_guarded (CHR '':'') bp;
          bp = memcat_static bp (hostname record)
      in c_str (fst bp))"

definition report16_labels :: "pinba_stats_record \<Rightarrow> report_labels" where
  "report16_labels record = no_labels\<lparr>l_schema := static_copy PINBA_SCHEMA_SIZE (schema record),
     l_hostname := static_copy PINBA_HOSTNAME_SIZE (hostname record)\<rparr>"

definition report17_index :: "pinba_stats_record \<Rightarrow> string" where
  "report17_index record =
     (let bp = memcpy_static (zero_buf
            (PINBA_SCHEMA_SIZE + 1 + PINBA_HOSTNAME_SIZE + 1 + PINBA_SCRIPT_NAME_SIZE)) (schema record);
          bp = put_char_guarded (CHR ''/'') bp;
          bp = memcat_static bp (hostname record);
          bp = put_char_guarded (CHR ''/'') bp;
          bp = memcat_static bp (script_name record)
      in c_str (fst bp))"

definition report17_labels :: "pinba_stats_record \<Rightarrow> report_labels" where
  "report17_labels record = no_labels\<lparr>l_schema := static_copy PINBA_SCHEMA_SIZE (schema record),
     l_hostname := static_copy PINBA_HOSTNAME_SIZE (hostname record),
     l_script_name := static_copy PINBA_SCRIPT_NAME_SIZE (script_name record)\<rparr>"

definition report18_index :: "pinba_stats_record \<Rightarrow> string" where
  "report18_index record =
     (let bp = sprintf_str (zero_buf
            (PINBA_SCHEMA_SIZE + 1 + PINBA_HOSTNAME_SIZE + 1 + PINBA_STATUS_SIZE))
               (dec_string (unat (status record)) @ [CHR '':'']);
          bp = memcat_static bp (schema record);
          bp = put_char_guarded (CHR ''/'') bp;
          bp = memcat_static bp (hostname record)
      in c_str (fst bp))"

definition report18_labels :: "pinba_stats_record \<Rightarrow> report_labels" where
  "report18_labels record = no_labels\<lparr>l_status := uint (status record),
     l_schema := static_copy PINBA_SCHEMA_SIZE (schema record),
     l_hostname := static_copy PINBA_HOSTNAME_SIZE (hostname record)\<rparr>"

section \<open>No key is truncated\<close>

lemma length_zero_buf [simp]: "length (zero_buf n) = n"
  by (simp add: zero_buf_def)

lemma length_put_char_guarded [simp]: "length (fst (put_char_guarded c bp)) = length (fst bp)"
  by (simp add: put_char_guarded_def)

lemma length_sprintf_str [simp]:
  "length s < length b \<Longrightarrow> length (fst (sprintf_str b s)) = length b"
  by (simp add: sprintf_str_def)

lemma memcpy_static_fits: "length s < length b \<Longrightarrow> terminated (memcpy_static b s) s"
  using memcpy_static_terminated [of b s] by fastforce

lemma memcat_static_fits:
  "holds bp s \<Longrightarrow> length s + length t < length (fst bp) \<Longrightarrow> terminated (memcat_static bp t) (s @ t)"
  using memcat_static_terminated [of bp s t] by simp

lemma sprintf_str_fits: "length s < length b \<Longrightarrow> terminated (sprintf_str b s) s"
  by (simp add: sprintf_str_def terminated_def holds_def memcpy_at_def nth_append)

lemma static_copy_fits [simp]: "fits n s \<Longrightarrow> static_copy n s = s"
  unfolding static_copy_def fits_def by (intro c_str_terminated memcpy_static_fits) simp_all

lemma dec_string_digits: "list_all is_digit (dec_string n)"
proof (induction n rule: dec_string.induct)
  case (1 n)
  have d: "k < 10 \<Longrightarrow> is_digit (char_of (48 + k :: nat))" for k
    by (simp add: is_digit_def of_char_of take_bit_nat_eq_self)
  show ?case using 1 by (subst dec_string.simps) (auto simp: d)
qed

lemma digit_not_nul: "is_digit c \<Longrightarrow> c \<noteq> NUL"
  by (auto simp: is_digit_def)

lemma nul_free_dec_string [simp]: "nul_free (dec_string n)"
  using dec_string_digits [of n] digit_not_nul by (auto simp: nul_free_def list_all_iff)

lemma dec_string_val: "digits_val (dec_string n) = n"
proof (induction n rule: dec_string.induct)
  case (1 n)
  have d: "k < 10 \<Longrightarrow> digit_val (char_of (48 + k :: nat)) = k" for k
    by (simp add: digit_val_def of_char_of take_bit_nat_eq_self)
  show ?case using 1 by (subst dec_string.simps) (auto simp: d digits_val_from digits_from_append)
qed

lemma dec_string_inj [simp]: "dec_string m = dec_string n \<longleftrightarrow> m = n"
  by (metis dec_string_val)

lemma length_dec_string: "n < 10 ^ Suc k \<Longrightarrow> length (dec_string n) \<le> Suc k"
proof (induction k arbitrary: n)
  case 0 then show ?case by (subst dec_string.simps) simp
next
  case (Suc k)
  then have "n div 10 < 10 ^ Suc k" by (simp add: less_mult_imp_div_less mult.commute)
  then show ?case using Suc.IH by (subst dec_string.simps) auto
qed

lemma length_status: "length (dec_string (unat (w :: u16))) \<le> 5"
proof -
  have "unat w < 2 ^ LENGTH(16)" by (rule unsigned_less)
  then show ?thesis using length_dec_string [of "unat w" 4] by simp
qed

lemma nul_free_Nil [simp]: "nul_free []"
  by (simp add: nul_free_def)

lemma nul_free_Cons [simp]: "nul_free (c # s) \<longleftrightarrow> c \<noteq> NUL \<and> nul_free s"
  by (auto simp: nul_free_def)

lemmas buffer_intros =
  c_str_terminated memcat_static_fits put_char_guarded_holds memcpy_static_fits sprintf_str_fits
  terminated_holds

lemmas record_fits = record_ok_def fits_def

lemma report4_key:
  "record_ok r \<Longrightarrow> report4_index r = (server_name r @ [CHR ''/'']) @ script_name r"
  unfolding report4_index_def Let_def
  by (intro buffer_intros) (auto simp: record_fits)

lemma report5_key:
  "record_ok r \<Longrightarrow> report5_index r = (hostname r @ [CHR ''/'']) @ script_name r"
  unfolding report5_index_def Let_def
  by (intro buffer_intros) (auto simp: record_fits)

lemma report6_key:
  "record_ok r \<Longrightarrow> report6_index r = (hostname r @ [CHR ''/'']) @ server_name r"
  unfolding report6_index_def Let_def
  by (intro buffer_intros) (auto simp: record_fits)

lemma report7_key:
  "record_ok r \<Longrightarrow> report7_index r = (((hostname r @ [CHR '':'']) @ server_name r) @ [CHR ''/'']) @ script_name r"
  unfolding report7_index_def Let_def
  by (intro buffer_intros) (auto simp: record_fits)

lemma report8_key:
  "record_ok r \<Longrightarrow> report8_index r = dec_string (unat (status r))"
  unfolding report8_index_def Let_def using length_status [of "status r"]
  by (intro buffer_intros) (auto simp: record_fits)

lemma report9_key:
  "record_ok r \<Longrightarrow> report9_index r = (dec_string (unat (status r)) @ [CHR '':'']) @ script_name r"
  unfolding report9_index_def Let_def using length_status [of "status r"]
  by (intro buffer_intros) (auto simp: record_fits)

lemma report10_key:
  "record_ok r \<Longrightarrow> report10_index r = dec_string (unat (status r)) @ server_name r"
  unfolding report10_index_def Let_def using length_status [of "status r"]
  by (intro buffer_intros) (auto simp: record_fits)

lemma report11_key:
  "record_ok r \<Longrightarrow> report11_index r = dec_string (unat (status r)) @ hostname r"
  unfolding report11_index_def Let_def using length_status [of "status r"]
  by (intro buffer_intros) (auto simp: record_fits)

lemma report12_key:
  "record_ok r \<Longrightarrow> report12_index r = ((dec_string (unat (status r)) @ hostname r) @ [CHR ''/'']) @ script_name r"
  unfolding report12_index_def Let_def using length_status [of "status r"]
  by (intro buffer_intros) (auto simp: record_fits)

lemma report14_key:
  "record_ok r \<Longrightarrow> report14_index r = (schema r @ [CHR '':'']) @ script_name r"
  unfolding report14_index_def Let_def
  by (intro buffer_intros) (auto simp: record_fits)

lemma report15_key:
  "record_ok r \<Longrightarrow> report15_index r = (schema r @ [CHR '':'']) @ server_name r"
  unfolding report15_index_def Let_def
  by (intro buffer_intros) (auto simp: record_fits)

lemma report16_key:
  "record_ok r \<Longrightarrow> report16_index r = (schema r @ [CHR '':'']) @ hostname r"
  unfolding report16_index_def Let_def
  by (intro buffer_intros) (auto simp: record_fits)

lemma report17_key:
  "record_ok r \<Longrightarrow> report17_index r = (((schema r @ [CHR ''/'']) @ hostname r) @ [CHR ''/'']) @ script_name r"
  unfolding report17_index_def Let_def
  by (intro buffer_intros) (auto simp: record_fits)

lemma report18_key:
  "record_ok r \<Longrightarrow> report18_index r = (((dec_string (unat (status r)) @ [CHR '':'']) @ schema r) @ [CHR ''/'']) @ hostname r"
  unfolding report18_index_def Let_def using length_status [of "status r"]
  by (intro buffer_intros) (auto simp: record_fits)

section \<open>Which keys keep groups apart\<close>

text \<open>
  Two requests fall into the same row exactly when their keys agree. The grouping columns are
  recovered from the key if the names before a separator do not contain it.
\<close>

definition lacks :: "char \<Rightarrow> string \<Rightarrow> bool" where
  "lacks c s \<longleftrightarrow> c \<notin> set s"

lemma lacks_dec_string [simp]: "\<not> is_digit c \<Longrightarrow> lacks c (dec_string n)"
  using dec_string_digits [of n] by (auto simp: lacks_def list_all_iff)

lemma not_digit_sep [simp]: "\<not> is_digit (CHR ''/'')" "\<not> is_digit (CHR '':'')"
  by (simp_all add: is_digit_def)

lemma join_inj:
  "lacks c a \<Longrightarrow> lacks c a' \<Longrightarrow> a @ c # b = a' @ c # b' \<longleftrightarrow> a = a' \<and> b = b'"
  using separator_inj [of a c b a' b'] by (auto simp: lacks_def)

lemma u16_inj [simp]: "unat (a :: u16) = unat b \<longleftrightarrow> a = b" "uint a = uint b \<longleftrightarrow> a = b"
  by (metis unsigned_word_eqI)+

text \<open>
  The \<^verbatim>\<open>add_func\<close> and \<^verbatim>\<open>delete_func\<close> of a report are those of its type, so its key and labels
  are those of its type. \<open>base_group\<close> gives the columns the comments of
  \<^verbatim>\<open>pinba_report_type\<close> say the report is grouped by.
\<close>

definition base_index :: "pinba_report_type \<Rightarrow> pinba_stats_record \<Rightarrow> string" where
  "base_index t record =
     (case t of
        PINBA_TABLE_REPORT1 \<Rightarrow> report1_index record
      | PINBA_TABLE_REPORT2 \<Rightarrow> report2_index record
      | PINBA_TABLE_REPORT3 \<Rightarrow> report3_index record
      | PINBA_TABLE_REPORT4 \<Rightarrow> report4_index record
      | PINBA_TABLE_REPORT5 \<Rightarrow> report5_index record
      | PINBA_TABLE_REPORT6 \<Rightarrow> report6_index record
      | PINBA_TABLE_REPORT7 \<Rightarrow> report7_index record
      | PINBA_TABLE_REPORT8 \<Rightarrow> report8_index record
      | PINBA_TABLE_REPORT9 \<Rightarrow> report9_index record
      | PINBA_TABLE_REPORT10 \<Rightarrow> report10_index record
      | PINBA_TABLE_REPORT11 \<Rightarrow> report11_index record
      | PINBA_TABLE_REPORT12 \<Rightarrow> report12_index record
      | PINBA_TABLE_REPORT13 \<Rightarrow> report13_index record
      | PINBA_TABLE_REPORT14 \<Rightarrow> report14_index record
      | PINBA_TABLE_REPORT15 \<Rightarrow> report15_index record
      | PINBA_TABLE_REPORT16 \<Rightarrow> report16_index record
      | PINBA_TABLE_REPORT17 \<Rightarrow> report17_index record
      | PINBA_TABLE_REPORT18 \<Rightarrow> report18_index record
      | _ \<Rightarrow> [])"

definition base_labels :: "pinba_report_type \<Rightarrow> pinba_stats_record \<Rightarrow> report_labels" where
  "base_labels t record =
     (case t of
        PINBA_TABLE_REPORT1 \<Rightarrow> report1_labels record
      | PINBA_TABLE_REPORT2 \<Rightarrow> report2_labels record
      | PINBA_TABLE_REPORT3 \<Rightarrow> report3_labels record
      | PINBA_TABLE_REPORT4 \<Rightarrow> report4_labels record
      | PINBA_TABLE_REPORT5 \<Rightarrow> report5_labels record
      | PINBA_TABLE_REPORT6 \<Rightarrow> report6_labels record
      | PINBA_TABLE_REPORT7 \<Rightarrow> report7_labels record
      | PINBA_TABLE_REPORT8 \<Rightarrow> report8_labels record
      | PINBA_TABLE_REPORT9 \<Rightarrow> report9_labels record
      | PINBA_TABLE_REPORT10 \<Rightarrow> report10_labels record
      | PINBA_TABLE_REPORT11 \<Rightarrow> report11_labels record
      | PINBA_TABLE_REPORT12 \<Rightarrow> report12_labels record
      | PINBA_TABLE_REPORT13 \<Rightarrow> report13_labels record
      | PINBA_TABLE_REPORT14 \<Rightarrow> report14_labels record
      | PINBA_TABLE_REPORT15 \<Rightarrow> report15_labels record
      | PINBA_TABLE_REPORT16 \<Rightarrow> report16_labels record
      | PINBA_TABLE_REPORT17 \<Rightarrow> report17_labels record
      | PINBA_TABLE_REPORT18 \<Rightarrow> report18_labels record
      | _ \<Rightarrow> no_labels)"

definition base_group :: "pinba_report_type \<Rightarrow> pinba_stats_record \<Rightarrow> report_labels" where
  "base_group t r =
     (case t of
        PINBA_TABLE_REPORT1 \<Rightarrow> no_labels\<lparr>l_script_name := script_name r\<rparr>
      | PINBA_TABLE_REPORT2 \<Rightarrow> no_labels\<lparr>l_server_name := server_name r\<rparr>
      | PINBA_TABLE_REPORT3 \<Rightarrow> no_labels\<lparr>l_hostname := hostname r\<rparr>
      | PINBA_TABLE_REPORT13 \<Rightarrow> no_labels\<lparr>l_schema := schema r\<rparr>
      | _ \<Rightarrow> base_labels t r)"

definition base_type :: "pinba_report_type \<Rightarrow> bool" where
  "base_type t \<longleftrightarrow> t \<in> {PINBA_TABLE_REPORT1,
     PINBA_TABLE_REPORT2,
     PINBA_TABLE_REPORT3,
     PINBA_TABLE_REPORT4,
     PINBA_TABLE_REPORT5,
     PINBA_TABLE_REPORT6,
     PINBA_TABLE_REPORT7,
     PINBA_TABLE_REPORT8,
     PINBA_TABLE_REPORT9,
     PINBA_TABLE_REPORT10,
     PINBA_TABLE_REPORT11,
     PINBA_TABLE_REPORT12,
     PINBA_TABLE_REPORT13,
     PINBA_TABLE_REPORT14,
     PINBA_TABLE_REPORT15,
     PINBA_TABLE_REPORT16,
     PINBA_TABLE_REPORT17,
     PINBA_TABLE_REPORT18}"

definition key_separated :: "pinba_report_type \<Rightarrow> pinba_stats_record \<Rightarrow> bool" where
  "key_separated t r \<longleftrightarrow>
     (case t of
        PINBA_TABLE_REPORT4 \<Rightarrow> lacks (CHR ''/'') (server_name r)
      | PINBA_TABLE_REPORT5 \<Rightarrow> lacks (CHR ''/'') (hostname r)
      | PINBA_TABLE_REPORT6 \<Rightarrow> lacks (CHR ''/'') (hostname r)
      | PINBA_TABLE_REPORT7 \<Rightarrow> lacks (CHR '':'') (hostname r) \<and> lacks (CHR ''/'') (server_name r)
      | PINBA_TABLE_REPORT10 \<Rightarrow> False
      | PINBA_TABLE_REPORT11 \<Rightarrow> False
      | PINBA_TABLE_REPORT12 \<Rightarrow> False
      | PINBA_TABLE_REPORT14 \<Rightarrow> lacks (CHR '':'') (schema r)
      | PINBA_TABLE_REPORT15 \<Rightarrow> lacks (CHR '':'') (schema r)
      | PINBA_TABLE_REPORT16 \<Rightarrow> lacks (CHR '':'') (schema r)
      | PINBA_TABLE_REPORT17 \<Rightarrow> lacks (CHR ''/'') (schema r) \<and> lacks (CHR ''/'') (hostname r)
      | PINBA_TABLE_REPORT18 \<Rightarrow> lacks (CHR ''/'') (schema r)
      | _ \<Rightarrow> True)"

lemmas report_key_simps = report4_key report5_key report6_key report7_key report8_key report9_key report10_key report11_key report12_key report14_key report15_key report16_key report17_key report18_key

lemmas report_index_simple = report1_index_def report2_index_def report3_index_def report13_index_def

lemmas report_labels_simps = report1_labels_def report2_labels_def report3_labels_def report4_labels_def report5_labels_def report6_labels_def report7_labels_def report8_labels_def report9_labels_def report10_labels_def report11_labels_def report12_labels_def report13_labels_def report14_labels_def report15_labels_def report16_labels_def report17_labels_def report18_labels_def

text \<open>On a well-formed request the labels of a row are the grouping columns, untruncated.\<close>

lemma record_ok_fits:
  assumes "record_ok r"
  shows "fits 129 (script_name r)" "fits 65 (server_name r)" "fits 65 (hostname r)" "fits 17 (schema r)"
  using assms by (simp_all add: record_ok_def)

text \<open>
  C14: Reports keep their groups apart. For every base report whose key has a separator after
  each name (all but 10, 11 and 12), two well-formed requests share a row exactly when they
  agree on the columns the report is grouped by, provided that no name before a separator of
  the key contains that separator.
\<close>

theorem base_index_separates:
  assumes "record_ok r" and "record_ok r'" and "base_type t"
    and "key_separated t r" and "key_separated t r'"
  shows "base_index t r = base_index t r' \<longleftrightarrow> base_group t r = base_group t r'"
  using assms(3-5) record_ok_fits [OF assms(1)] record_ok_fits [OF assms(2)]
  by (cases t) (auto simp: base_type_def base_index_def base_group_def base_labels_def
      key_separated_def report_key_simps report_labels_simps report_index_simple no_labels_def
      assms(1,2) join_inj)

text \<open>A request for the witnesses: a host, a virtual host, a script and a status.\<close>

definition sample_request :: "string \<Rightarrow> string \<Rightarrow> string \<Rightarrow> u16 \<Rightarrow> pinba_stats_record" where
  "sample_request host server script st =
     \<lparr>script_name = script, server_name = server, hostname = host, schema = ''http'',
      req_time = of_usecs 250000, ru_utime = of_usecs 1000, ru_stime = of_usecs 500,
      doc_size = FNum 2, mem_peak_usage = FNum 0, memory_footprint = FNum 4, tags = [],
      req_count = 1, status = st, rec_time = of_usecs 0, timers_start = 0, counter = 0,
      timers_cnt = 0, active = True, dictionary_words = []\<rparr>"

lemma sample_request_ok:
  "fits 65 host \<Longrightarrow> fits 65 server \<Longrightarrow> fits 129 script \<Longrightarrow> record_ok (sample_request host server script st)"
  by (simp add: record_ok_def sample_request_def kb_ok_def kb_units_def)
    (simp add: fits_def)

theorem base_index_separates_witness:
  "\<not> (base_index PINBA_TABLE_REPORT4 (sample_request ''h1'' ''shop.example'' ''/cart.php'' 200) =
      base_index PINBA_TABLE_REPORT4 (sample_request ''h1'' ''shop.example'' ''/pay.php'' 200))"
proof -
  let ?r = "sample_request ''h1'' ''shop.example'' ''/cart.php'' 200"
  let ?r' = "sample_request ''h1'' ''shop.example'' ''/pay.php'' 200"
  have ok: "record_ok ?r" "record_ok ?r'" by (simp_all add: sample_request_ok fits_def)
  have "base_index PINBA_TABLE_REPORT4 ?r = base_index PINBA_TABLE_REPORT4 ?r' \<longleftrightarrow>
      base_group PINBA_TABLE_REPORT4 ?r = base_group PINBA_TABLE_REPORT4 ?r'"
    by (rule base_index_separates [OF ok])
      (simp_all add: base_type_def key_separated_def lacks_def sample_request_def)
  moreover have "base_group PINBA_TABLE_REPORT4 ?r \<noteq> base_group PINBA_TABLE_REPORT4 ?r'"
    using record_ok_fits [OF ok(1)] record_ok_fits [OF ok(2)]
    by (simp add: base_group_def base_labels_def report4_labels_def) (simp add: sample_request_def no_labels_def)
  ultimately show ?thesis by simp
qed

text \<open>
  C15: The keys of reports 10, 11 and 12 print the status with nothing between it and the name
  that follows, so requests of different groups share a row: status 20 of the host "0a" is
  counted with status 200 of the host "a".
\<close>

theorem status_keys_collide:
  "\<exists>r r'. record_ok r \<and> record_ok r' \<and>
     list_all (\<lambda>t. base_group t r \<noteq> base_group t r' \<and> base_index t r = base_index t r')
       [PINBA_TABLE_REPORT10, PINBA_TABLE_REPORT11, PINBA_TABLE_REPORT12]"
proof (intro exI conjI)
  let ?r = "sample_request ''0a'' ''0a'' ''/i'' 20" and ?r' = "sample_request ''a'' ''a'' ''/i'' 200"
  show ok: "record_ok ?r" "record_ok ?r'" by (simp_all add: sample_request_ok fits_def)
  have d: "dec_string 20 = ''20''" "dec_string 200 = ''200''" by (code_simp, code_simp)
  let ?ts = "[PINBA_TABLE_REPORT10, PINBA_TABLE_REPORT11, PINBA_TABLE_REPORT12]"
  have "list_all (\<lambda>t. base_index t ?r = base_index t ?r') ?ts"
    using ok by (simp add: base_index_def report_key_simps) (simp add: sample_request_def d)
  moreover have "list_all (\<lambda>t. l_status (base_group t ?r) \<noteq> l_status (base_group t ?r')) ?ts"
    by (simp add: base_group_def base_labels_def report_labels_simps sample_request_def)
  ultimately show "list_all (\<lambda>t. base_group t ?r \<noteq> base_group t ?r' \<and>
      base_index t ?r = base_index t ?r') ?ts"
    by (auto simp: list_all_iff)
qed

end
