(* ===== verification/Samples.thy ===== *)
theory Samples
  imports Report_Rows Report_Keys
begin

text \<open>
  Concrete requests, report headers and histories, at which the theorems on reports are
  instantiated.
\<close>

text \<open>The header of a new report of type \<open>t\<close>.\<close>

definition sample_std :: "pinba_report_type \<Rightarrow> pinba_std_report" where
  "sample_std t =
     \<lparr>cond = \<lparr>min_time = FNum 0, max_time = FNum 0, cond_tags = []\<rparr>, flags = 1, rtype = t,
      histogram_max_time = 10, histogram_segment = FNum (1 / 64), std_histogram = pinba_lmap_create,
      report_kind = PINBA_BASE_REPORT_KIND, std_index = None, results_cnt = 0, time_interval = 1,
      use_cnt = 1, start = of_usecs 0, request_pool_start_id = 0, std_ru_utime = null_timeval,
      std_ru_stime = null_timeval, packets_cnt = 0\<rparr>"

text \<open>A request with tags: each tag is a pair of dictionary words.\<close>

definition sample_word :: "nat \<Rightarrow> string \<Rightarrow> pinba_word" where
  "sample_word a s = \<lparr>word_addr = a, word_str = s\<rparr>"

definition sample_tagged :: "string \<Rightarrow> (pinba_word \<times> pinba_word) list \<Rightarrow> pinba_stats_record" where
  "sample_tagged host tgs = (sample_request host ''shop'' ''/cart'' 200)\<lparr>tags := tgs\<rparr>"

definition sample_history :: "pinba_stats_record event list" where
  "sample_history =
     [Enter (sample_request ''h1'' ''shop'' ''/cart'' 200), Enter (sample_request ''h2'' ''shop'' ''/pay'' 500),
      Leave, Enter (sample_request ''h2'' ''shop'' ''/cart'' 200)]"

definition sample_tagged_history :: "pinba_stats_record event list" where
  "sample_tagged_history =
     [Enter (sample_tagged ''h1'' [(sample_word 3 ''app'', sample_word 11 ''web''), (sample_word 4 ''dc'', sample_word 21 ''eu'')]),
      Enter (sample_tagged ''h1'' [(sample_word 4 ''dc'', sample_word 22 ''us'')]),
      Leave,
      Enter (sample_tagged ''h2'' [(sample_word 4 ''dc'', sample_word 21 ''eu''), (sample_word 3 ''app'', sample_word 12 ''api'')])]"

lemma sample_not_older: "\<not> PINBA_REPORT_DELETE_CHECK (sample_std t) (sample_request h s p st)"
  by (simp add: PINBA_REPORT_DELETE_CHECK_def sample_std_def sample_request_def pinba_timercmp_def)

lemma sample_history_size: "window_size 0 sample_history < WINDOW_MAX"
  by (simp add: sample_history_def WINDOW_MAX_def)

lemma sample_word_sel [simp]: "word_addr (sample_word a s) = a" "word_str (sample_word a s) = s"
  by (simp_all add: sample_word_def)

lemma sample_tagged_ok: "fits 65 h \<Longrightarrow> record_ok (sample_tagged h tgs)"
  using sample_request_ok [of h "''shop''" "''/cart''" 200]
  by (simp add: sample_tagged_def record_ok_def fits_def)

lemma sample_tagged_not_older: "\<not> PINBA_REPORT_DELETE_CHECK (sample_std t) (sample_tagged h tgs)"
  using sample_not_older by (simp add: sample_tagged_def PINBA_REPORT_DELETE_CHECK_def)

lemma sample_tagged_size: "window_size 0 sample_tagged_history < WINDOW_MAX"
  by (simp add: sample_tagged_history_def WINDOW_MAX_def)

end
