(* ===== verification/Base_Reports.thy ===== *)
theory Base_Reports
  imports Samples
begin

text \<open>
  The base reports (\<^verbatim>\<open>src/pinba_update_report_tpl.h\<close> and its nineteen instances in
  \<^verbatim>\<open>src/pinba_update_report.h\<close>): the report "info", which keeps totals and one histogram, and
  the reports 1 to 18, which keep a row per key. A row is found by the pointer the map holds,
  so changing it is an update of the map at its key. The window theorem says that after any
  history of requests entering and leaving, the report holds the aggregates of the requests
  in the window, group by group.
\<close>

section \<open>The template\<close>

definition update_report_info_add :: "u64 \<Rightarrow> pinba_report \<Rightarrow> pinba_stats_record \<Rightarrow> pinba_report" where
  "update_report_info_add hs report record =
     report\<lparr>totals := totals_add (totals report) record,
            std := (std report)\<lparr>results_cnt := results_cnt (std report) + 1,
                     std_histogram := PINBA_UPDATE_HISTOGRAM_ADD hs (std report)
                       (std_histogram (std report)) (req_time record)\<rparr>\<rparr>"

definition update_report_info_delete :: "u64 \<Rightarrow> pinba_report \<Rightarrow> pinba_stats_record \<Rightarrow> pinba_report" where
  "update_report_info_delete hs report record =
     (if results_cnt (std report) = 0 then report
      else if PINBA_REPORT_DELETE_CHECK (std report) record then report
      else
        report\<lparr>totals := totals_sub (totals report) record,
               std := (std report)\<lparr>results_cnt := results_cnt (std report) - 1,
                        std_histogram := PINBA_UPDATE_HISTOGRAM_DEL hs (std report)
                          (std_histogram (std report)) (req_time record)\<rparr>\<rparr>)"

definition new_report_row :: "report_labels \<Rightarrow> pinba_report_data" where
  "new_report_row lab = row_data.extend calloc_row \<lparr>labels = lab\<rparr>"

definition update_report_add ::
  "u64 \<Rightarrow> string \<Rightarrow> report_labels \<Rightarrow> pinba_report \<Rightarrow> pinba_stats_record \<Rightarrow> pinba_report" where
  "update_report_add hs index lab report record =
     (let report = report\<lparr>totals := totals_add (totals report) record\<rparr>
      in case pinba_map_get (results report) index of
           None \<Rightarrow>
             report\<lparr>results := pinba_map_add (results report) index
                                (row_add hs (std report) (new_report_row lab) record),
                    std := (std report)\<lparr>results_cnt := results_cnt (std report) + 1\<rparr>\<rparr>
         | Some data \<Rightarrow>
             report\<lparr>results := pinba_map_add (results report) index
                                (row_add hs (std report) data record)\<rparr>)"

definition update_report_delete ::
  "u64 \<Rightarrow> string \<Rightarrow> pinba_report \<Rightarrow> pinba_stats_record \<Rightarrow> pinba_report" where
  "update_report_delete hs index report record =
     (if results_cnt (std report) = 0 then report
      else if PINBA_REPORT_DELETE_CHECK (std report) record then report
      else
        let report = report\<lparr>totals := totals_sub (totals report) record\<rparr>
        in case pinba_map_get (results report) index of
             None \<Rightarrow> report
           | Some data \<Rightarrow>
               if row_count data = 1
               then report\<lparr>results := fst (pinba_map_delete (results report) index),
                           std := (std report)\<lparr>results_cnt := results_cnt (std report) - 1\<rparr>\<rparr>
               else report\<lparr>results := pinba_map_add (results report) index
                                        (row_sub hs (std report) data record)\<rparr>)"

section \<open>The instances\<close>

definition pinba_update_report_info_add :: "u64 \<Rightarrow> pinba_report \<Rightarrow> pinba_stats_record \<Rightarrow> pinba_report" where
  "pinba_update_report_info_add hs report record = update_report_info_add hs report record"

definition pinba_update_report_info_delete :: "u64 \<Rightarrow> pinba_report \<Rightarrow> pinba_stats_record \<Rightarrow> pinba_report" where
  "pinba_update_report_info_delete hs report record = update_report_info_delete hs report record"

definition pinba_update_report1_add :: "u64 \<Rightarrow> pinba_report \<Rightarrow> pinba_stats_record \<Rightarrow> pinba_report" where
  "pinba_update_report1_add hs report record =
     update_report_add hs (report1_index record) (report1_labels record) report record"

definition pinba_update_report1_delete :: "u64 \<Rightarrow> pinba_report \<Rightarrow> pinba_stats_record \<Rightarrow> pinba_report" where
  "pinba_update_report1_delete hs report record =
     update_report_delete hs (report1_index record) report record"

definition pinba_update_report2_add :: "u64 \<Rightarrow> pinba_report \<Rightarrow> pinba_stats_record \<Rightarrow> pinba_report" where
  "pinba_update_report2_add hs report record =
     update_report_add hs (report2_index record) (report2_labels record) report record"

definition pinba_update_report2_delete :: "u64 \<Rightarrow> pinba_report \<Rightarrow> pinba_stats_record \<Rightarrow> pinba_report" where
  "pinba_update_report2_delete hs report record =
     update_report_delete hs (report2_index record) report record"

definition pinba_update_report3_add :: "u64 \<Rightarrow> pinba_report \<Rightarrow> pinba_stats_record \<Rightarrow> pinba_report" where
  "pinba_update_report3_add hs report record =
     update_report_add hs (report3_index record) (report3_labels record) report record"

definition pinba_update_report3_delete :: "u64 \<Rightarrow> pinba_report \<Rightarrow> pinba_stats_record \<Rightarrow> pinba_report" where
  "pinba_update_report3_delete hs report record =
     update_report_delete hs (report3_index record) report record"

definition pinba_update_report4_add :: "u64 \<Rightarrow> pinba_report \<Rightarrow> pinba_stats_record \<Rightarrow> pinba_report" where
  "pinba_update_report4_add hs report record =
     update_report_add hs (report4_index record) (report4_labels record) report record"

definition pinba_update_report4_delete :: "u64 \<Rightarrow> pinba_report \<Rightarrow> pinba_stats_record \<Rightarrow> pinba_report" where
  "pinba_update_report4_delete hs report record =
     update_report_delete hs (report4_index record) report record"

definition pinba_update_report5_add :: "u64 \<Rightarrow> pinba_report \<Rightarrow> pinba_stats_record \<Rightarrow> pinba_report" where
  "pinba_update_report5_add hs report record =
     update_report_add hs (report5_index record) (report5_labels record) report record"

definition pinba_update_report5_delete :: "u64 \<Rightarrow> pinba_report \<Rightarrow> pinba_stats_record \<Rightarrow> pinba_report" where
  "pinba_update_report5_delete hs report record =
     update_report_delete hs (report5_index record) report record"

definition pinba_update_report6_add :: "u64 \<Rightarrow> pinba_report \<Rightarrow> pinba_stats_record \<Rightarrow> pinba_report" where
  "pinba_update_report6_add hs report record =
     update_report_add hs (report6_index record) (report6_labels record) report record"

definition pinba_update_report6_delete :: "u64 \<Rightarrow> pinba_report \<Rightarrow> pinba_stats_record \<Rightarrow> pinba_report" where
  "pinba_update_report6_delete hs report record =
     update_report_delete hs (report6_index record) report record"

definition pinba_update_report7_add :: "u64 \<Rightarrow> pinba_report \<Rightarrow> pinba_stats_record \<Rightarrow> pinba_report" where
  "pinba_update_report7_add hs report record =
     update_report_add hs (report7_index record) (report7_labels record) report record"

definition pinba_update_report7_delete :: "u64 \<Rightarrow> pinba_report \<Rightarrow> pinba_stats_record \<Rightarrow> pinba_report" where
  "pinba_update_report7_delete hs report record =
     update_report_delete hs (report7_index record) report record"

definition pinba_update_report8_add :: "u64 \<Rightarrow> pinba_report \<Rightarrow> pinba_stats_record \<Rightarrow> pinba_report" where
  "pinba_update_report8_add hs report record =
     update_report_add hs (report8_index record) (report8_labels record) report record"

definition pinba_update_report8_delete :: "u64 \<Rightarrow> pinba_report \<Rightarrow> pinba_stats_record \<Rightarrow> pinba_report" where
  "pinba_update_report8_delete hs report record =
     update_report_delete hs (report8_index record) report record"

definition pinba_update_report9_add :: "u64 \<Rightarrow> pinba_report \<Rightarrow> pinba_stats_record \<Rightarrow> pinba_report" where
  "pinba_update_report9_add hs report record =
     update_report_add hs (report9_index record) (report9_labels record) report record"

definition pinba_update_report9_delete :: "u64 \<Rightarrow> pinba_report \<Rightarrow> pinba_stats_record \<Rightarrow> pinba_report" where
  "pinba_update_report9_delete hs report record =
     update_report_delete hs (report9_index record) report record"

definition pinba_update_report10_add :: "u64 \<Rightarrow> pinba_report \<Rightarrow> pinba_stats_record \<Rightarrow> pinba_report" where
  "pinba_update_report10_add hs report record =
     update_report_add hs (report10_index record) (report10_labels record) report record"

definition pinba_update_report10_delete :: "u64 \<Rightarrow> pinba_report \<Rightarrow> pinba_stats_record \<Rightarrow> pinba_report" where
  "pinba_update_report10_delete hs report record =
     update_report_delete hs (report10_index record) report record"

definition pinba_update_report11_add :: "u64 \<Rightarrow> pinba_report \<Rightarrow> pinba_stats_record \<Rightarrow> pinba_report" where
  "pinba_update_report11_add hs report record =
     update_report_add hs (report11_index record) (report11_labels record) report record"

definition pinba_update_report11_delete :: "u64 \<Rightarrow> pinba_report \<Rightarrow> pinba_stats_record \<Rightarrow> pinba_report" where
  "pinba_update_report11_delete hs report record =
     update_report_delete hs (report11_index record) report record"

definition pinba_update_report12_add :: "u64 \<Rightarrow> pinba_report \<Rightarrow> pinba_stats_record \<Rightarrow> pinba_report" where
  "pinba_update_report12_add hs report record =
     update_report_add hs (report12_index record) (report12_labels record) report record"

definition pinba_update_report12_delete :: "u64 \<Rightarrow> pinba_report \<Rightarrow> pinba_stats_record \<Rightarrow> pinba_report" where
  "pinba_update_report12_delete hs report record =
     update_report_delete hs (report12_index record) report record"

definition pinba_update_report13_add :: "u64 \<Rightarrow> pinba_report \<Rightarrow> pinba_stats_record \<Rightarrow> pinba_report" where
  "pinba_update_report13_add hs report record =
     update_report_add hs (report13_index record) (report13_labels record) report record"

definition pinba_update_report13_delete :: "u64 \<Rightarrow> pinba_report \<Rightarrow> pinba_stats_record \<Rightarrow> pinba_report" where
  "pinba_update_report13_delete hs report record =
     update_report_delete hs (report13_index record) report record"

definition pinba_update_report14_add :: "u64 \<Rightarrow> pinba_report \<Rightarrow> pinba_stats_record \<Rightarrow> pinba_report" where
  "pinba_update_report14_add hs report record =
     update_report_add hs (report14_index record) (report14_labels record) report record"

definition pinba_update_report14_delete :: "u64 \<Rightarrow> pinba_report \<Rightarrow> pinba_stats_record \<Rightarrow> pinba_report" where
  "pinba_update_report14_delete hs report record =
     update_report_delete hs (report14_index record) report record"

definition pinba_update_report15_add :: "u64 \<Rightarrow> pinba_report \<Rightarrow> pinba_stats_record \<Rightarrow> pinba_report" where
  "pinba_update_report15_add hs report record =
     update_report_add hs (report15_index record) (report15_labels record) report record"

definition pinba_update_report15_delete :: "u64 \<Rightarrow> pinba_report \<Rightarrow> pinba_stats_record \<Rightarrow> pinba_report" where
  "pinba_update_report15_delete hs report record =
     update_report_delete hs (report15_index record) report record"

definition pinba_update_report16_add :: "u64 \<Rightarrow> pinba_report \<Rightarrow> pinba_stats_record \<Rightarrow> pinba_report" where
  "pinba_update_report16_add hs report record =
     update_report_add hs (report16_index record) (report16_labels record) report record"

definition pinba_update_report16_delete :: "u64 \<Rightarrow> pinba_report \<Rightarrow> pinba_stats_record \<Rightarrow> pinba_report" where
  "pinba_update_report16_delete hs report record =
     update_report_delete hs (report16_index record) report record"

definition pinba_update_report17_add :: "u64 \<Rightarrow> pinba_report \<Rightarrow> pinba_stats_record \<Rightarrow> pinba_report" where
  "pinba_update_report17_add hs report record =
     update_report_add hs (report17_index record) (report17_labels record) report record"

definition pinba_update_report17_delete :: "u64 \<Rightarrow> pinba_report \<Rightarrow> pinba_stats_record \<Rightarrow> pinba_report" where
  "pinba_update_report17_delete hs report record =
     update_report_delete hs (report17_index record) report record"

definition pinba_update_report18_add :: "u64 \<Rightarrow> pinba_report \<Rightarrow> pinba_stats_record \<Rightarrow> pinba_report" where
  "pinba_update_report18_add hs report record =
     update_report_add hs (report18_index record) (report18_labels record) report record"

definition pinba_update_report18_delete :: "u64 \<Rightarrow> pinba_report \<Rightarrow> pinba_stats_record \<Rightarrow> pinba_report" where
  "pinba_update_report18_delete hs report record =
     update_report_delete hs (report18_index record) report record"

text \<open>\<^verbatim>\<open>report->add_func\<close> and \<^verbatim>\<open>report->delete_func\<close> of a base report.\<close>

definition base_add_func ::
  "pinba_report_type \<Rightarrow> u64 \<Rightarrow> pinba_report \<Rightarrow> pinba_stats_record \<Rightarrow> pinba_report" where
  "base_add_func t hs report record =
     (case t of
        PINBA_TABLE_REPORT_INFO \<Rightarrow> pinba_update_report_info_add hs report record
      | PINBA_TABLE_REPORT1 \<Rightarrow> pinba_update_report1_add hs report record
      | PINBA_TABLE_REPORT2 \<Rightarrow> pinba_update_report2_add hs report record
      | PINBA_TABLE_REPORT3 \<Rightarrow> pinba_update_report3_add hs report record
      | PINBA_TABLE_REPORT4 \<Rightarrow> pinba_update_report4_add hs report record
      | PINBA_TABLE_REPORT5 \<Rightarrow> pinba_update_report5_add hs report record
      | PINBA_TABLE_REPORT6 \<Rightarrow> pinba_update_report6_add hs report record
      | PINBA_TABLE_REPORT7 \<Rightarrow> pinba_update_report7_add hs report record
      | PINBA_TABLE_REPORT8 \<Rightarrow> pinba_update_report8_add hs report record
      | PINBA_TABLE_REPORT9 \<Rightarrow> pinba_update_report9_add hs report record
      | PINBA_TABLE_REPORT10 \<Rightarrow> pinba_update_report10_add hs report record
      | PINBA_TABLE_REPORT11 \<Rightarrow> pinba_update_report11_add hs report record
      | PINBA_TABLE_REPORT12 \<Rightarrow> pinba_update_report12_add hs report record
      | PINBA_TABLE_REPORT13 \<Rightarrow> pinba_update_report13_add hs report record
      | PINBA_TABLE_REPORT14 \<Rightarrow> pinba_update_report14_add hs report record
      | PINBA_TABLE_REPORT15 \<Rightarrow> pinba_update_report15_add hs report record
      | PINBA_TABLE_REPORT16 \<Rightarrow> pinba_update_report16_add hs report record
      | PINBA_TABLE_REPORT17 \<Rightarrow> pinba_update_report17_add hs report record
      | PINBA_TABLE_REPORT18 \<Rightarrow> pinba_update_report18_add hs report record
      | _ \<Rightarrow> report)"

definition base_delete_func ::
  "pinba_report_type \<Rightarrow> u64 \<Rightarrow> pinba_report \<Rightarrow> pinba_stats_record \<Rightarrow> pinba_report" where
  "base_delete_func t hs report record =
     (case t of
        PINBA_TABLE_REPORT_INFO \<Rightarrow> pinba_update_report_info_delete hs report record
      | PINBA_TABLE_REPORT1 \<Rightarrow> pinba_update_report1_delete hs report record
      | PINBA_TABLE_REPORT2 \<Rightarrow> pinba_update_report2_delete hs report record
      | PINBA_TABLE_REPORT3 \<Rightarrow> pinba_update_report3_delete hs report record
      | PINBA_TABLE_REPORT4 \<Rightarrow> pinba_update_report4_delete hs report record
      | PINBA_TABLE_REPORT5 \<Rightarrow> pinba_update_report5_delete hs report record
      | PINBA_TABLE_REPORT6 \<Rightarrow> pinba_update_report6_delete hs report record
      | PINBA_TABLE_REPORT7 \<Rightarrow> pinba_update_report7_delete hs report record
      | PINBA_TABLE_REPORT8 \<Rightarrow> pinba_update_report8_delete hs report record
      | PINBA_TABLE_REPORT9 \<Rightarrow> pinba_update_report9_delete hs report record
      | PINBA_TABLE_REPORT10 \<Rightarrow> pinba_update_report10_delete hs report record
      | PINBA_TABLE_REPORT11 \<Rightarrow> pinba_update_report11_delete hs report record
      | PINBA_TABLE_REPORT12 \<Rightarrow> pinba_update_report12_delete hs report record
      | PINBA_TABLE_REPORT13 \<Rightarrow> pinba_update_report13_delete hs report record
      | PINBA_TABLE_REPORT14 \<Rightarrow> pinba_update_report14_delete hs report record
      | PINBA_TABLE_REPORT15 \<Rightarrow> pinba_update_report15_delete hs report record
      | PINBA_TABLE_REPORT16 \<Rightarrow> pinba_update_report16_delete hs report record
      | PINBA_TABLE_REPORT17 \<Rightarrow> pinba_update_report17_delete hs report record
      | PINBA_TABLE_REPORT18 \<Rightarrow> pinba_update_report18_delete hs report record
      | _ \<Rightarrow> report)"

lemmas report_add_defs = pinba_update_report1_add_def pinba_update_report2_add_def pinba_update_report3_add_def pinba_update_report4_add_def pinba_update_report5_add_def pinba_update_report6_add_def pinba_update_report7_add_def pinba_update_report8_add_def pinba_update_report9_add_def pinba_update_report10_add_def pinba_update_report11_add_def pinba_update_report12_add_def pinba_update_report13_add_def pinba_update_report14_add_def pinba_update_report15_add_def pinba_update_report16_add_def pinba_update_report17_add_def pinba_update_report18_add_def

lemmas report_delete_defs = pinba_update_report1_delete_def pinba_update_report2_delete_def pinba_update_report3_delete_def pinba_update_report4_delete_def pinba_update_report5_delete_def pinba_update_report6_delete_def pinba_update_report7_delete_def pinba_update_report8_delete_def pinba_update_report9_delete_def pinba_update_report10_delete_def pinba_update_report11_delete_def pinba_update_report12_delete_def pinba_update_report13_delete_def pinba_update_report14_delete_def pinba_update_report15_delete_def pinba_update_report16_delete_def pinba_update_report17_delete_def pinba_update_report18_delete_def

lemma base_add_func_eq:
  "base_type t \<Longrightarrow> base_add_func t hs R r = update_report_add hs (base_index t r) (base_labels t r) R r"
  by (auto simp: base_type_def base_add_func_def base_index_def base_labels_def report_add_defs)

lemma base_delete_func_eq:
  "base_type t \<Longrightarrow> base_delete_func t hs R r = update_report_delete hs (base_index t r) R r"
  by (auto simp: base_type_def base_delete_func_def base_index_def report_delete_defs)

section \<open>A report holds the aggregates of its window\<close>

definition base_models ::
  "pinba_report_type \<Rightarrow> u64 \<Rightarrow> pinba_report \<Rightarrow> pinba_stats_record list \<Rightarrow> bool" where
  "base_models t hs R ws \<longleftrightarrow>
     totals_agg (totals R) ws \<and> map_wf (results R) \<and>
     rows_model pinba_map_get (row_agg hs (std R)) (\<lambda>d r. labels d = base_labels t r)
       (\<lambda>r. Some (base_index t r)) (results R) ws \<and>
     results_cnt (std R) = of_nat (pinba_map_count (results R))"

definition info_models :: "u64 \<Rightarrow> pinba_report \<Rightarrow> pinba_stats_record list \<Rightarrow> bool" where
  "info_models hs R ws \<longleftrightarrow>
     totals_agg (totals R) ws \<and> results_cnt (std R) = of_nat (length ws) \<and>
     hist_wf (std_histogram (std R)) \<and>
     hist_get (std_histogram (std R)) = hist_of (req_slot hs (std R)) ws"

definition report_adm :: "pinba_report \<Rightarrow> pinba_stats_record \<Rightarrow> bool" where
  "report_adm R r \<longleftrightarrow> record_ok r \<and> \<not> PINBA_REPORT_DELETE_CHECK (std R) r"

text \<open>A report as its constructor leaves it.\<close>

definition fresh_report :: "pinba_report \<Rightarrow> bool" where
  "fresh_report R \<longleftrightarrow>
     totals R = zero_totals \<and> results R = None \<and> results_cnt (std R) = 0 \<and> std_histogram (std R) = pinba_lmap_create"

lemma row_agg_calloc: "row_agg hs report (new_report_row lab) []"
  by (simp add: row_agg_def new_report_row_def row_data.defs calloc_row_def)

lemma labels_row_add [simp]: "labels (row_add hs report d r) = labels d"
  by (simp add: row_add_def)

lemma labels_row_sub [simp]: "labels (row_sub hs report d r) = labels d"
  by (simp add: row_sub_def)

interpretation base_rows: row_table pinba_map_get pinba_map_add "\<lambda>m k. fst (pinba_map_delete m k)"
    pinba_map_count map_wf None "row_add hs report" "row_sub hs report"
    "\<lambda>r. new_report_row (base_labels t r)" "row_agg hs report" "\<lambda>d. row_count d = 1"
    "\<lambda>d r. labels d = base_labels t r" window_ok
  for hs report t
proof (unfold_locales, goal_cases)
  case 1 show ?case by (rule row_agg_calloc)
next
  case 2 then show ?case by (rule row_agg_add)
next
  case 3 then show ?case by (blast intro: row_agg_sub)
next
  case 4 then show ?case by (rule row_agg_only)
next
  case 8 then show ?case by (rule window_ok_filter)
qed (simp_all add: new_report_row_def row_data.defs)

lemma base_count_bound:
  assumes "base_models t hs R ws" and "length ws < WINDOW_MAX"
  shows "pinba_map_count (results R) < 2 ^ 64" and "ws \<noteq> [] \<Longrightarrow> 0 < pinba_map_count (results R)"
proof -
  have "pinba_map_count (results R) = card {k. \<exists>r \<in> set ws. Some (base_index t r) = Some k}"
    using assms(1) by (intro base_rows.model_count) (auto simp: base_models_def)
  also have "\<dots> = card (base_index t ` set ws)" by (rule arg_cong [of _ _ card]) auto
  finally have c: "pinba_map_count (results R) = card (base_index t ` set ws)" .
  have "card (base_index t ` set ws) \<le> length ws"
    by (meson card_image_le card_length finite_set order_trans)
  then show "pinba_map_count (results R) < 2 ^ 64" using assms(2) c by (simp add: WINDOW_MAX_def)
  show "ws \<noteq> [] \<Longrightarrow> 0 < pinba_map_count (results R)" by (simp add: c card_gt_0_iff)
qed

lemma base_models_add:
  assumes m: "base_models t hs R ws" and ok: "window_ok (ws @ [r])"
  shows "base_models t hs (update_report_add hs (base_index t r) (base_labels t r) R r) (ws @ [r])"
proof -
  have wf: "map_wf (results R)" and tot: "totals_agg (totals_add (totals R) r) (ws @ [r])"
    using m ok totals_agg_add by (auto simp: base_models_def)
  have rows: "rows_model pinba_map_get (row_agg hs (std R)) (\<lambda>d r. labels d = base_labels t r)
      (\<lambda>r. Some (base_index t r))
      (pinba_map_add (results R) (base_index t r)
        (row_add hs (std R) (case pinba_map_get (results R) (base_index t r) of
            None \<Rightarrow> new_report_row (base_labels t r) | Some d \<Rightarrow> d) r)) (ws @ [r])"
    using m wf ok by (intro base_rows.model_add) (auto simp: base_models_def)
  show ?thesis
    using m wf tot rows smap.count_add_new [OF wf] smap.count_add_old [OF wf]
    by (auto simp: base_models_def update_report_add_def Let_def smap.inv_add
        split: option.splits)
qed

lemma base_models_delete:
  assumes m: "base_models t hs R (r # ws)" and ok: "window_ok (r # ws)"
    and in_report: "\<not> PINBA_REPORT_DELETE_CHECK (std R) r"
  shows "base_models t hs (update_report_delete hs (base_index t r) R r) ws"
proof -
  have wf: "map_wf (results R)" and tot: "totals_agg (totals_sub (totals R) r) ws"
    using m ok totals_agg_sub by (auto simp: base_models_def)
  obtain d where d: "pinba_map_get (results R) (base_index t r) = Some d"
    and rows: "rows_model pinba_map_get (row_agg hs (std R)) (\<lambda>d r. labels d = base_labels t r)
      (\<lambda>r. Some (base_index t r))
      (if row_count d = 1 then fst (pinba_map_delete (results R) (base_index t r))
       else pinba_map_add (results R) (base_index t r) (row_sub hs (std R) d r)) ws"
    using m wf ok base_rows.model_del [of hs "std R" t "\<lambda>r. Some (base_index t r)" "results R" r ws "base_index t r"]
    by (auto simp: base_models_def)
  have "results_cnt (std R) \<noteq> 0"
    using base_count_bound [OF m] ok m by (simp add: base_models_def window_ok_def of_nat_word64_eq_0_iff)
  moreover have "of_nat (pinba_map_count (results R)) - 1 =
      (of_nat (pinba_map_count (fst (pinba_map_delete (results R) (base_index t r)))) :: u64)"
    using smap.count_del_old [OF wf d] by (metis add_diff_cancel_left' of_nat_Suc)
  ultimately show ?thesis
    using m wf tot rows d in_report smap.count_add_old [OF wf d]
    by (cases "row_count d = 1") (simp_all add: base_models_def update_report_delete_def
        smap.inv_add smap.inv_del)
qed

lemma report_adm_frame [pinba_frame]:
  "report_adm (update_report_add hs i l R r) = report_adm R"
  "report_adm (update_report_delete hs i R r) = report_adm R"
  "report_adm (update_report_info_add hs R r) = report_adm R"
  "report_adm (update_report_info_delete hs R r) = report_adm R"
  by (auto simp: report_adm_def fun_eq_iff update_report_add_def update_report_delete_def
      update_report_info_add_def update_report_info_delete_def Let_def PINBA_REPORT_DELETE_CHECK_def
      split: option.splits)

lemma report_adm_ok:
  "list_all (report_adm R) ws \<Longrightarrow> length ws < WINDOW_MAX \<Longrightarrow> window_ok ws"
  by (auto simp: window_ok_def list_all_iff report_adm_def)

interpretation base_window: window_report
    "\<lambda>R r. update_report_add hs (base_index t r) (base_labels t r) R r"
    "\<lambda>R r. update_report_delete hs (base_index t r) R r"
    "base_models t hs"
    "\<lambda>R ws. list_all (report_adm R) ws \<and> length ws < WINDOW_MAX"
  for hs t
proof (unfold_locales, goal_cases)
  case (1 R ws r) then show ?case using report_adm_ok [OF conjunct1 [OF 1(2)] conjunct2 [OF 1(2)]] by (intro base_models_add)
next
  case (2 R r ws) then show ?case
    using report_adm_ok [OF conjunct1 [OF 2(2)] conjunct2 [OF 2(2)]] by (intro base_models_delete) (auto simp: report_adm_def)
qed (simp_all add: pinba_frame)

lemma info_models_add:
  assumes "info_models hs R ws" and "window_ok (ws @ [r])"
  shows "info_models hs (update_report_info_add hs R r) (ws @ [r])"
  using assms totals_agg_add [of "totals R" ws r] hist_of_add [of "req_slot hs (std R)" ws r]
  by (simp add: info_models_def update_report_info_add_def PINBA_UPDATE_HISTOGRAM_ADD_def
      hist_get_update req_slot_def [abs_def])

lemma info_models_delete:
  assumes m: "info_models hs R (r # ws)" and ok: "window_ok (r # ws)"
    and "\<not> PINBA_REPORT_DELETE_CHECK (std R) r"
  shows "info_models hs (update_report_info_delete hs R r) ws"
proof -
  have "results_cnt (std R) \<noteq> 0"
    using m ok of_nat_word64_eq_0_iff [of "length (r # ws)"]
    by (simp add: info_models_def window_ok_def WINDOW_MAX_def)
  then show ?thesis
    using assms totals_agg_sub [of "totals R" r ws] hist_of_sub [of "req_slot hs (std R)" r ws]
      histogram_slot_uminus [where c = 1]
    by (simp add: info_models_def update_report_info_delete_def PINBA_UPDATE_HISTOGRAM_DEL_def
        hist_get_update req_slot_def [abs_def])
qed

interpretation info_window: window_report "update_report_info_add hs" "update_report_info_delete hs"
    "info_models hs"
    "\<lambda>R ws. list_all (report_adm R) ws \<and> length ws < WINDOW_MAX"
  for hs
proof (unfold_locales, goal_cases)
  case (1 R ws r) then show ?case using report_adm_ok [OF conjunct1 [OF 1(2)] conjunct2 [OF 1(2)]] by (intro info_models_add)
next
  case (2 R r ws) then show ?case
    using report_adm_ok [OF conjunct1 [OF 2(2)] conjunct2 [OF 2(2)]] by (intro info_models_delete) (auto simp: report_adm_def)
qed (simp_all add: pinba_frame)

lemma fresh_models:
  assumes "fresh_report R"
  shows "base_models t hs R []" and "info_models hs R []"
  using assms base_rows.model_null
  by (auto simp: fresh_report_def base_models_def info_models_def pinba_map_count_def)

text \<open>A new report of type \<open>t\<close>.\<close>

definition sample_report :: "pinba_report_type \<Rightarrow> pinba_report" where
  "sample_report t = \<lparr>std = sample_std t, results = None, totals = zero_totals\<rparr>"

lemma sample_fresh: "fresh_report (sample_report t)"
  by (simp add: fresh_report_def sample_report_def sample_std_def)

lemma sample_history_adm: "list_all (report_adm (sample_report t)) (entered sample_history)"
  by (simp add: report_adm_def sample_history_def sample_not_older sample_request_ok fits_def)
    (simp add: sample_report_def sample_not_older)

text \<open>
  C8: At any moment of any history a base report (1 to 18) holds the aggregates of the
  requests inside its window: there is a row for exactly the keys of those requests, each
  row counts the requests of its key, sums their times and sizes exactly and holds their
  histogram, carries the labels of a request of its key, the totals are those of the whole
  window and results_cnt is the number of rows. The requests are well formed and not older
  than the report, and the window stays below 2^21 requests.
\<close>

theorem base_report_window:
  assumes "base_type t" and "fresh_report R"
    and "list_all (report_adm R) (entered es)" and "window_size 0 es < WINDOW_MAX"
  shows "case window_run (base_add_func t hs) (base_delete_func t hs) es (R, []) of
           (R', ws) \<Rightarrow> base_models t hs R' ws"
proof -
  have "base_add_func t hs = (\<lambda>R r. update_report_add hs (base_index t r) (base_labels t r) R r)"
    "base_delete_func t hs = (\<lambda>R r. update_report_delete hs (base_index t r) R r)"
    using assms(1) by (simp_all add: fun_eq_iff base_add_func_eq base_delete_func_eq)
  then show ?thesis
    using base_window.window_history [of t hs R "[]" es] fresh_models(1) [OF assms(2)]
      history_okI [of "report_adm R" "[]" es WINDOW_MAX] assms(3,4)
    by simp
qed

theorem base_report_window_witness:
  "case window_run (base_add_func PINBA_TABLE_REPORT4 512) (base_delete_func PINBA_TABLE_REPORT4 512)
     sample_history (sample_report PINBA_TABLE_REPORT4, []) of
     (R', ws) \<Rightarrow> base_models PINBA_TABLE_REPORT4 512 R' ws"
  by (rule base_report_window [OF _ sample_fresh sample_history_adm sample_history_size])
    (simp add: base_type_def)

text \<open>
  C9: The report "info" counts the requests of its window and holds their totals and their
  histogram, at any moment of any history.
\<close>

theorem info_report_window:
  assumes "fresh_report R" and "list_all (report_adm R) (entered es)"
    and "window_size 0 es < WINDOW_MAX"
  shows "case window_run (base_add_func PINBA_TABLE_REPORT_INFO hs)
                (base_delete_func PINBA_TABLE_REPORT_INFO hs) es (R, []) of
           (R', ws) \<Rightarrow> info_models hs R' ws"
proof -
  have "base_add_func PINBA_TABLE_REPORT_INFO hs = update_report_info_add hs"
    "base_delete_func PINBA_TABLE_REPORT_INFO hs = update_report_info_delete hs"
    by (simp_all add: fun_eq_iff base_add_func_def base_delete_func_def
        pinba_update_report_info_add_def pinba_update_report_info_delete_def)
  then show ?thesis
    using info_window.window_history [of hs R "[]" es] fresh_models(2) [OF assms(1)]
      history_okI [of "report_adm R" "[]" es WINDOW_MAX] assms(2,3)
    by simp
qed

theorem info_report_window_witness:
  "case window_run (base_add_func PINBA_TABLE_REPORT_INFO 512) (base_delete_func PINBA_TABLE_REPORT_INFO 512)
     sample_history (sample_report PINBA_TABLE_REPORT_INFO, []) of
     (R', ws) \<Rightarrow> info_models 512 R' ws"
  by (rule info_report_window [OF sample_fresh sample_history_adm sample_history_size])

end
