(* ===== verification/Nested_Maps.thy ===== *)
theory Nested_Maps
  imports Pinba_Maps
begin

text \<open>
  Two-level tables. The reports grouped by a host or a script and a tag keep a \<^verbatim>\<open>pinba_map\<close>
  from the first name to a \<^verbatim>\<open>pinba_map\<close> from the second (\<^verbatim>\<open>host_map\<close> in \<^verbatim>\<open>src/data.cc\<close>): an
  inner table is created with the first row it gets and destroyed with the last one. The
  operations satisfy the contract of a table keyed by pairs.
\<close>

type_synonym 'v nested_map = "'v pinba_map pinba_map"

definition nested_get :: "'v nested_map \<Rightarrow> string \<times> string \<Rightarrow> 'v option" where
  "nested_get m hk =
     (case pinba_map_get m (fst hk) of None \<Rightarrow> None | Some hm \<Rightarrow> pinba_map_get hm (snd hk))"

text \<open>The inner table, created and entered into the outer one when it is missing.\<close>

definition nested_inner :: "'v nested_map \<Rightarrow> string \<Rightarrow> 'v pinba_map" where
  "nested_inner m h = (case pinba_map_get m h of None \<Rightarrow> pinba_map_create | Some hm \<Rightarrow> hm)"

definition nested_create :: "'v nested_map \<Rightarrow> string \<Rightarrow> 'v nested_map" where
  "nested_create m h =
     (case pinba_map_get m h of None \<Rightarrow> pinba_map_add m h pinba_map_create | Some _ \<Rightarrow> m)"

definition nested_add :: "'v nested_map \<Rightarrow> string \<times> string \<Rightarrow> 'v \<Rightarrow> 'v nested_map" where
  "nested_add m hk v =
     pinba_map_add (nested_create m (fst hk)) (fst hk) (pinba_map_add (nested_inner m (fst hk)) (snd hk) v)"

definition nested_del :: "'v nested_map \<Rightarrow> string \<times> string \<Rightarrow> 'v nested_map" where
  "nested_del m hk =
     (case pinba_map_get m (fst hk) of
        None \<Rightarrow> m
      | Some hm \<Rightarrow>
          (case pinba_map_delete hm (snd hk) of
             (hm', rc) \<Rightarrow>
               if rc < 0 then fst (pinba_map_delete m (fst hk))
               else pinba_map_add m (fst hk) hm'))"

definition nested_count :: "'v nested_map \<Rightarrow> nat" where
  "nested_count m = card (dom (nested_get m))"

text \<open>Every inner table is well formed and not empty.\<close>

definition nested_wf :: "'v nested_map \<Rightarrow> bool" where
  "nested_wf m \<longleftrightarrow>
     map_wf m \<and> (\<forall>h hm. pinba_map_get m h = Some hm \<longrightarrow> map_wf hm \<and> pinba_map_get hm \<noteq> Map.empty)"

lemma map_wf_create [simp]: "map_wf pinba_map_create"
  by (simp add: map_wf_def pinba_map_create_def)

lemma get_create [simp]: "pinba_map_get pinba_map_create = Map.empty"
  by (simp add: fun_eq_iff pinba_map_get_def pinba_map_create_def)

lemma map_wf_inner: "nested_wf m \<Longrightarrow> map_wf (nested_inner m h)"
  by (auto simp: nested_wf_def nested_inner_def split: option.splits)

lemma map_wf_nested_create: "nested_wf m \<Longrightarrow> map_wf (nested_create m h)"
  by (auto simp: nested_wf_def nested_create_def smap.inv_add split: option.splits)

lemma get_nested_create:
  "map_wf m \<Longrightarrow> h' \<noteq> h \<Longrightarrow> pinba_map_get (nested_create m h) h' = pinba_map_get m h'"
  by (auto simp: nested_create_def smap.get_add split: option.splits)

lemma delete_rc:
  "map_wf hm \<Longrightarrow> snd (pinba_map_delete hm k) < 0 \<longleftrightarrow> pinba_map_get (fst (pinba_map_delete hm k)) = Map.empty"
  by (cases hm) (auto simp: pinba_map_delete_def pinba_map_get_def [abs_def] Let_def)

lemma nested_get_add:
  assumes "nested_wf m"
  shows "nested_get (nested_add m hk v) = (nested_get m)(hk \<mapsto> v)"
proof (rule ext)
  fix x :: "string \<times> string"
  have wf: "map_wf m" "map_wf (nested_create m (fst hk))" "map_wf (nested_inner m (fst hk))"
    using assms by (auto simp: nested_wf_def intro: map_wf_inner map_wf_nested_create)
  show "nested_get (nested_add m hk v) x = ((nested_get m)(hk \<mapsto> v)) x"
    using wf by (cases "fst x = fst hk")
      (auto simp: nested_get_def nested_add_def smap.get_add get_nested_create prod_eq_iff
        nested_inner_def split: option.splits)
qed

lemma nested_get_del:
  assumes "nested_wf m"
  shows "nested_get (nested_del m hk) = (nested_get m)(hk := None)"
proof (cases "pinba_map_get m (fst hk)")
  case None
  then show ?thesis by (auto simp: nested_del_def nested_get_def fun_eq_iff split: option.splits)
next
  case (Some hm)
  have wf: "map_wf m" "map_wf hm" using assms Some by (auto simp: nested_wf_def)
  have hm': "pinba_map_get (fst (pinba_map_delete hm (snd hk))) = (pinba_map_get hm)(snd hk := None)"
    using wf by (simp add: smap.get_del)
  show ?thesis
  proof (rule ext)
    fix x :: "string \<times> string"
    show "nested_get (nested_del m hk) x = ((nested_get m)(hk := None)) x"
      using Some wf hm' delete_rc [OF wf(2), of "snd hk"]
      by (cases "fst x = fst hk")
        (auto simp: nested_del_def nested_get_def smap.get_del smap.get_add prod_eq_iff split_beta
          fun_eq_iff split: option.splits)
  qed
qed

lemma nested_wf_add: "nested_wf m \<Longrightarrow> nested_wf (nested_add m hk v)"
proof -
  assume wf: "nested_wf m"
  have m: "map_wf (nested_create m (fst hk))" "map_wf (nested_inner m (fst hk))" "map_wf m"
    using wf by (auto simp: nested_wf_def intro: map_wf_inner map_wf_nested_create)
  show ?thesis
    unfolding nested_wf_def
  proof (intro conjI allI impI)
    show "map_wf (nested_add m hk v)" using m by (simp add: nested_add_def smap.inv_add)
    fix h hm assume "pinba_map_get (nested_add m hk v) h = Some hm"
    then have "(h = fst hk \<and> hm = pinba_map_add (nested_inner m (fst hk)) (snd hk) v) \<or>
        (h \<noteq> fst hk \<and> pinba_map_get m h = Some hm)"
      using m by (auto simp: nested_add_def smap.get_add get_nested_create split: if_splits)
    then show "map_wf hm" "pinba_map_get hm \<noteq> Map.empty"
      using m wf by (auto simp: smap.inv_add smap.get_add nested_wf_def)
  qed
qed

lemma nested_wf_del: "nested_wf m \<Longrightarrow> nested_wf (nested_del m hk)"
proof (cases "pinba_map_get m (fst hk)")
  case (Some hm)
  assume wf: "nested_wf m"
  have m: "map_wf m" "map_wf hm" using wf Some by (auto simp: nested_wf_def)
  show ?thesis
    using Some m wf delete_rc [OF m(2), of "snd hk"]
    by (auto simp: nested_wf_def nested_del_def smap.inv_add smap.inv_del smap.get_add smap.get_del
        split_beta split: if_splits)
qed (simp add: nested_del_def)

lemma finite_dom_nested: "nested_wf m \<Longrightarrow> finite (dom (nested_get m))"
proof -
  assume wf: "nested_wf m"
  let ?H = "dom (pinba_map_get m)"
  have "dom (nested_get m) \<subseteq> Sigma ?H (\<lambda>h. dom (pinba_map_get (the (pinba_map_get m h))))"
    by (auto simp: nested_get_def split: option.splits)
  moreover have "finite (Sigma ?H (\<lambda>h. dom (pinba_map_get (the (pinba_map_get m h)))))"
    using wf by (intro finite_SigmaI) (auto simp: nested_wf_def intro: smap.finite_dom)
  ultimately show ?thesis by (rule finite_subset)
qed

interpretation nmap: keyed_table nested_get nested_add nested_del nested_count nested_wf None
proof (unfold_locales, goal_cases)
  case 1 show ?case by (simp add: fun_eq_iff nested_get_def smap.get_null)
next
  case 2 show ?case by (simp add: nested_wf_def smap.get_null)
qed (simp_all add: nested_get_add nested_get_del nested_wf_add nested_wf_del finite_dom_nested nested_count_def)

end
