(* ===== verification/Rtag_Reports.thy ===== *)
theory Rtag_Reports
  imports Samples Nested_Maps
begin

text \<open>
  The reports grouped by request tags (\<^verbatim>\<open>src/data.cc\<close>, \<^verbatim>\<open>pinba_update_rtag*_add\<close> and
  \<^verbatim>\<open>pinba_update_rtag*_delete\<close>). A request takes part if it carries every tag of the report;
  its key is made of the values of those tags. The reports \<^verbatim>\<open>rtag_info\<close>, \<^verbatim>\<open>rtag2_info\<close> and
  \<^verbatim>\<open>rtagN_info\<close> keep one table, \<^verbatim>\<open>rtag_report\<close>, \<^verbatim>\<open>rtag2_report\<close> and \<^verbatim>\<open>rtagN_report\<close> one table per
  host name. The argument \<open>ok\<close> of an addition says whether its allocations succeed.
\<close>

section \<open>State\<close>

record rtag_labels =
  rl_hostname :: string
  rl_tag_values :: "string list"

record pinba_rtag_data = row_data + rlabels :: rtag_labels

record 'm pinba_rtag_report =
  rt_std :: pinba_std_report
  rt_results :: 'm
  rt_tags :: "pinba_word list"
  rt_totals :: report_totals

type_synonym rtag_info = "pinba_rtag_data pinba_map pinba_rtag_report"
type_synonym rtag_report = "pinba_rtag_data nested_map pinba_rtag_report"

text \<open>A zeroed row: its histogram is a null pointer until the first sample.\<close>

definition new_rtag_row :: "rtag_labels \<Rightarrow> pinba_rtag_data" where
  "new_rtag_row lab = row_data.extend (calloc_row\<lparr>histogram_data := None\<rparr>) \<lparr>rlabels = lab\<rparr>"

section \<open>The tags of a request\<close>

text \<open>The search for one tag: the value of the first tag of that name.\<close>

fun rtag_value :: "pinba_word \<Rightarrow> (pinba_word \<times> pinba_word) list \<Rightarrow> pinba_word option" where
  "rtag_value tag [] = None"
| "rtag_value tag ((name, v) # ts) = (if same_word tag name then Some v else rtag_value tag ts)"

text \<open>
  The search for two tags: positions are overwritten until both are found.
\<close>

fun rtag2_values ::
  "pinba_word \<Rightarrow> pinba_word \<Rightarrow> (pinba_word \<times> pinba_word) list \<Rightarrow> pinba_word option \<Rightarrow> pinba_word option \<Rightarrow>
   (pinba_word \<times> pinba_word) option" where
  "rtag2_values tag1 tag2 [] v1 v2 =
     (case (v1, v2) of (Some w1, Some w2) \<Rightarrow> Some (w1, w2) | _ \<Rightarrow> None)"
| "rtag2_values tag1 tag2 ((name, v) # ts) v1 v2 =
     (let v1' = (if same_word tag1 name then Some v else v1);
          v2' = (if \<not> same_word tag1 name \<and> same_word tag2 name then Some v else v2)
      in case (v1', v2') of
           (Some w1, Some w2) \<Rightarrow> Some (w1, w2)
         | _ \<Rightarrow> rtag2_values tag1 tag2 ts v1' v2')"

text \<open>The search for the tags of an N-tag report: all of them, or none.\<close>

fun rtagN_values :: "pinba_word list \<Rightarrow> (pinba_word \<times> pinba_word) list \<Rightarrow> pinba_word list option" where
  "rtagN_values [] ts = Some []"
| "rtagN_values (tag # tgs) ts =
     (case rtag_value tag ts of
        None \<Rightarrow> None
      | Some v \<Rightarrow> (case rtagN_values tgs ts of None \<Rightarrow> None | Some vs \<Rightarrow> Some (v # vs)))"

definition rtagN_find :: "pinba_word list \<Rightarrow> pinba_stats_record \<Rightarrow> pinba_word list option" where
  "rtagN_find tgs record =
     (if length (tags record) < length tgs then None else rtagN_values tgs (tags record))"

section \<open>Keys\<close>

definition rtag2_index :: "pinba_word \<Rightarrow> pinba_word \<Rightarrow> string" where
  "rtag2_index word1 word2 =
     (let bp = memcpy_static (zero_buf (PINBA_TAG_VALUE_SIZE + 1 + PINBA_TAG_VALUE_SIZE + 1)) (word_str word1);
          bp = put_char (CHR ''|'') bp;
          bp = memcat_static bp (word_str word2)
      in c_str (fst bp))"

fun rtagN_fill :: "pinba_word list \<Rightarrow> char list \<times> nat \<Rightarrow> char list \<times> nat" where
  "rtagN_fill [] bp = ((fst bp)[snd bp := NUL], snd bp)"
| "rtagN_fill (w # ws) bp =
     rtagN_fill ws (put_char (CHR ''|'') (memcpy_at (fst bp) (snd bp) (word_str w), snd bp + length (word_str w)))"

definition rtagN_index :: "pinba_word list \<Rightarrow> string" where
  "rtagN_index ws =
     c_str (fst (rtagN_fill ws (zero_buf (PINBA_TAG_VALUE_SIZE * length ws + length ws + 1), 0)))"

text \<open>
  The key and the labels of a request in a report over the tags \<open>tgs\<close>; \<open>None\<close> when it does
  not carry them all. A row of a one-tag report without host has no labels: its key is the
  value.
\<close>

definition rtag_info_key :: "pinba_word list \<Rightarrow> pinba_stats_record \<Rightarrow> (string \<times> string list) option" where
  "rtag_info_key tgs record =
     (case rtag_value (tgs ! 0) (tags record) of None \<Rightarrow> None | Some w \<Rightarrow> Some (word_str w, []))"

definition rtag_key :: "pinba_word list \<Rightarrow> pinba_stats_record \<Rightarrow> (string \<times> string list) option" where
  "rtag_key tgs record =
     (case rtag_value (tgs ! 0) (tags record) of
        None \<Rightarrow> None
      | Some w \<Rightarrow> Some (word_str w, [static_copy PINBA_TAG_VALUE_SIZE (word_str w)]))"

definition rtag2_key :: "pinba_word list \<Rightarrow> pinba_stats_record \<Rightarrow> (string \<times> string list) option" where
  "rtag2_key tgs record =
     (case rtag2_values (tgs ! 0) (tgs ! 1) (tags record) None None of
        None \<Rightarrow> None
      | Some (w1, w2) \<Rightarrow>
          Some (rtag2_index w1 w2, [static_copy PINBA_TAG_VALUE_SIZE (word_str w1),
                                    static_copy PINBA_TAG_VALUE_SIZE (word_str w2)]))"

definition rtagN_key :: "pinba_word list \<Rightarrow> pinba_stats_record \<Rightarrow> (string \<times> string list) option" where
  "rtagN_key tgs record =
     (case rtagN_find tgs record of
        None \<Rightarrow> None
      | Some ws \<Rightarrow> Some (rtagN_index ws, map word_str ws))"

section \<open>The common body\<close>

definition rtag_commit ::
  "'m pinba_rtag_report \<Rightarrow> 'm \<Rightarrow> u64 \<Rightarrow> pinba_stats_record \<Rightarrow> 'm pinba_rtag_report" where
  "rtag_commit report rows new record =
     report\<lparr>rt_totals := totals_add (rt_totals report) record,
            rt_results := rows,
            rt_std := (rt_std report)\<lparr>results_cnt := results_cnt (rt_std report) + new\<rparr>\<rparr>"

definition rtag_flat_add ::
  "u64 \<Rightarrow> bool \<Rightarrow> (string \<times> string list) option \<Rightarrow> rtag_info \<Rightarrow> pinba_stats_record \<Rightarrow> rtag_info" where
  "rtag_flat_add hs ok key report record =
     (case key of
        None \<Rightarrow> report
      | Some (index, vals) \<Rightarrow>
          (case pinba_map_get (rt_results report) index of
             None \<Rightarrow>
               if \<not> ok then report
               else
                 let data = new_rtag_row \<lparr>rl_hostname = [], rl_tag_values = vals\<rparr>
                 in rtag_commit report (pinba_map_add (rt_results report) index
                      (row_add hs (rt_std report) data record)) 1 record
           | Some data \<Rightarrow>
               rtag_commit report (pinba_map_add (rt_results report) index
                 (row_add hs (rt_std report) data record)) 0 record))"

definition rtag_flat_delete ::
  "u64 \<Rightarrow> (string \<times> string list) option \<Rightarrow> rtag_info \<Rightarrow> pinba_stats_record \<Rightarrow> rtag_info" where
  "rtag_flat_delete hs key report record =
     (if PINBA_REPORT_DELETE_CHECK (rt_std report) record then report
      else
        case key of
          None \<Rightarrow> report
        | Some (index, vals) \<Rightarrow>
            (case pinba_map_get (rt_results report) index of
               None \<Rightarrow> report
             | Some data \<Rightarrow>
                 let report = report\<lparr>rt_totals := totals_sub (rt_totals report) record\<rparr>
                 in if row_count data - 1 = 0
                    then report\<lparr>rt_results := fst (pinba_map_delete (rt_results report) index),
                                rt_std := (rt_std report)\<lparr>results_cnt := results_cnt (rt_std report) - 1\<rparr>\<rparr>
                    else report\<lparr>rt_results := pinba_map_add (rt_results report) index
                                  (row_sub hs (rt_std report) data record)\<rparr>))"

definition rtag_host_add ::
  "u64 \<Rightarrow> bool \<Rightarrow> (string \<times> string list) option \<Rightarrow> rtag_report \<Rightarrow> pinba_stats_record \<Rightarrow> rtag_report" where
  "rtag_host_add hs ok key report record =
     (case key of
        None \<Rightarrow> report
      | Some (index, vals) \<Rightarrow>
          let host_map = nested_inner (rt_results report) (hostname record);
              report = report\<lparr>rt_results := nested_create (rt_results report) (hostname record)\<rparr>
          in case pinba_map_get host_map index of
               None \<Rightarrow>
                 if \<not> ok then report
                 else
                   let data = new_rtag_row
                         \<lparr>rl_hostname = static_copy PINBA_HOSTNAME_SIZE (hostname record), rl_tag_values = vals\<rparr>
                   in rtag_commit report (pinba_map_add (rt_results report) (hostname record)
                        (pinba_map_add host_map index (row_add hs (rt_std report) data record))) 1 record
             | Some data \<Rightarrow>
                 rtag_commit report (pinba_map_add (rt_results report) (hostname record)
                   (pinba_map_add host_map index (row_add hs (rt_std report) data record))) 0 record)"

definition rtag_host_delete ::
  "u64 \<Rightarrow> (string \<times> string list) option \<Rightarrow> rtag_report \<Rightarrow> pinba_stats_record \<Rightarrow> rtag_report" where
  "rtag_host_delete hs key report record =
     (if PINBA_REPORT_DELETE_CHECK (rt_std report) record then report
      else
        case pinba_map_get (rt_results report) (hostname record) of
          None \<Rightarrow> report
        | Some host_map \<Rightarrow>
            (case key of
               None \<Rightarrow> report
             | Some (index, vals) \<Rightarrow>
                 (case pinba_map_get host_map index of
                    None \<Rightarrow> report
                  | Some data \<Rightarrow>
                      let report = report\<lparr>rt_totals := totals_sub (rt_totals report) record\<rparr>
                      in if row_count data - 1 = 0
                         then
                           let (host_map', rc) = pinba_map_delete host_map index
                           in report\<lparr>rt_results :=
                                       (if rc < 0 then fst (pinba_map_delete (rt_results report) (hostname record))
                                        else pinba_map_add (rt_results report) (hostname record) host_map'),
                                     rt_std := (rt_std report)\<lparr>results_cnt := results_cnt (rt_std report) - 1\<rparr>\<rparr>
                         else report\<lparr>rt_results := pinba_map_add (rt_results report) (hostname record)
                                (pinba_map_add host_map index (row_sub hs (rt_std report) data record))\<rparr>)))"

section \<open>The six reports\<close>

definition pinba_update_rtag_info_add :: "u64 \<Rightarrow> bool \<Rightarrow> rtag_info \<Rightarrow> pinba_stats_record \<Rightarrow> rtag_info" where
  "pinba_update_rtag_info_add hs ok report record =
     rtag_flat_add hs ok (rtag_info_key (rt_tags report) record) report record"

definition pinba_update_rtag_info_delete :: "u64 \<Rightarrow> rtag_info \<Rightarrow> pinba_stats_record \<Rightarrow> rtag_info" where
  "pinba_update_rtag_info_delete hs report record =
     rtag_flat_delete hs (rtag_info_key (rt_tags report) record) report record"

definition pinba_update_rtag2_info_add :: "u64 \<Rightarrow> bool \<Rightarrow> rtag_info \<Rightarrow> pinba_stats_record \<Rightarrow> rtag_info" where
  "pinba_update_rtag2_info_add hs ok report record =
     rtag_flat_add hs ok (rtag2_key (rt_tags report) record) report record"

definition pinba_update_rtag2_info_delete :: "u64 \<Rightarrow> rtag_info \<Rightarrow> pinba_stats_record \<Rightarrow> rtag_info" where
  "pinba_update_rtag2_info_delete hs report record =
     rtag_flat_delete hs (rtag2_key (rt_tags report) record) report record"

definition pinba_update_rtagN_info_add :: "u64 \<Rightarrow> bool \<Rightarrow> rtag_info \<Rightarrow> pinba_stats_record \<Rightarrow> rtag_info" where
  "pinba_update_rtagN_info_add hs ok report record =
     rtag_flat_add hs ok (rtagN_key (rt_tags report) record) report record"

definition pinba_update_rtagN_info_delete :: "u64 \<Rightarrow> rtag_info \<Rightarrow> pinba_stats_record \<Rightarrow> rtag_info" where
  "pinba_update_rtagN_info_delete hs report record =
     rtag_flat_delete hs (rtagN_key (rt_tags report) record) report record"

definition pinba_update_rtag_report_add :: "u64 \<Rightarrow> bool \<Rightarrow> rtag_report \<Rightarrow> pinba_stats_record \<Rightarrow> rtag_report" where
  "pinba_update_rtag_report_add hs ok report record =
     rtag_host_add hs ok (rtag_key (rt_tags report) record) report record"

definition pinba_update_rtag_report_delete :: "u64 \<Rightarrow> rtag_report \<Rightarrow> pinba_stats_record \<Rightarrow> rtag_report" where
  "pinba_update_rtag_report_delete hs report record =
     rtag_host_delete hs (rtag_key (rt_tags report) record) report record"

definition pinba_update_rtag2_report_add :: "u64 \<Rightarrow> bool \<Rightarrow> rtag_report \<Rightarrow> pinba_stats_record \<Rightarrow> rtag_report" where
  "pinba_update_rtag2_report_add hs ok report record =
     rtag_host_add hs ok (rtag2_key (rt_tags report) record) report record"

definition pinba_update_rtag2_report_delete :: "u64 \<Rightarrow> rtag_report \<Rightarrow> pinba_stats_record \<Rightarrow> rtag_report" where
  "pinba_update_rtag2_report_delete hs report record =
     rtag_host_delete hs (rtag2_key (rt_tags report) record) report record"

definition pinba_update_rtagN_report_add :: "u64 \<Rightarrow> bool \<Rightarrow> rtag_report \<Rightarrow> pinba_stats_record \<Rightarrow> rtag_report" where
  "pinba_update_rtagN_report_add hs ok report record =
     rtag_host_add hs ok (rtagN_key (rt_tags report) record) report record"

definition pinba_update_rtagN_report_delete :: "u64 \<Rightarrow> rtag_report \<Rightarrow> pinba_stats_record \<Rightarrow> rtag_report" where
  "pinba_update_rtagN_report_delete hs report record =
     rtag_host_delete hs (rtagN_key (rt_tags report) record) report record"

section \<open>A request-tag report holds the aggregates of its window\<close>

text \<open>\<open>keyf\<close> is the key function of one of the reports, over the tags of the report.\<close>

type_synonym rtag_keyf = "pinba_word list \<Rightarrow> pinba_stats_record \<Rightarrow> (string \<times> string list) option"

definition rtag_vals :: "(string \<times> string list) option \<Rightarrow> string list" where
  "rtag_vals key = (case key of None \<Rightarrow> [] | Some (i, vals) \<Rightarrow> vals)"

definition flat_labels :: "(string \<times> string list) option \<Rightarrow> rtag_labels" where
  "flat_labels key = \<lparr>rl_hostname = [], rl_tag_values = rtag_vals key\<rparr>"

definition host_labels :: "(string \<times> string list) option \<Rightarrow> pinba_stats_record \<Rightarrow> rtag_labels" where
  "host_labels key r =
     \<lparr>rl_hostname = static_copy PINBA_HOSTNAME_SIZE (hostname r), rl_tag_values = rtag_vals key\<rparr>"

definition flat_key :: "(string \<times> string list) option \<Rightarrow> string option" where
  "flat_key key = map_option fst key"

definition host_key :: "(string \<times> string list) option \<Rightarrow> pinba_stats_record \<Rightarrow> (string \<times> string) option" where
  "host_key key r = map_option (\<lambda>k. (hostname r, fst k)) key"

definition rtag_models ::
  "('m \<Rightarrow> 'k \<Rightarrow> pinba_rtag_data option) \<Rightarrow> ('m \<Rightarrow> nat) \<Rightarrow> ('m \<Rightarrow> bool) \<Rightarrow>
   (pinba_stats_record \<Rightarrow> 'k option) \<Rightarrow> (pinba_stats_record \<Rightarrow> rtag_labels) \<Rightarrow> u64 \<Rightarrow>
   'm pinba_rtag_report \<Rightarrow> pinba_stats_record list \<Rightarrow> bool" where
  "rtag_models tget tcount tinv key lab hs R ws \<longleftrightarrow>
     totals_agg (rt_totals R) (filter (\<lambda>r. key r \<noteq> None) ws) \<and> tinv (rt_results R) \<and>
     rows_model tget (row_agg hs (rt_std R)) (\<lambda>d r. rlabels d = lab r) key (rt_results R) ws \<and>
     results_cnt (rt_std R) = of_nat (tcount (rt_results R))"

definition rtag_flat_models :: "rtag_keyf \<Rightarrow> u64 \<Rightarrow> rtag_info \<Rightarrow> pinba_stats_record list \<Rightarrow> bool" where
  "rtag_flat_models keyf hs R ws =
     rtag_models pinba_map_get pinba_map_count map_wf (\<lambda>r. flat_key (keyf (rt_tags R) r))
       (\<lambda>r. flat_labels (keyf (rt_tags R) r)) hs R ws"

definition rtag_host_models :: "rtag_keyf \<Rightarrow> u64 \<Rightarrow> rtag_report \<Rightarrow> pinba_stats_record list \<Rightarrow> bool" where
  "rtag_host_models keyf hs R ws =
     rtag_models nested_get nested_count nested_wf (\<lambda>r. host_key (keyf (rt_tags R) r) r)
       (\<lambda>r. host_labels (keyf (rt_tags R) r) r) hs R ws"

definition rtag_adm :: "'m pinba_rtag_report \<Rightarrow> pinba_stats_record \<Rightarrow> bool" where
  "rtag_adm R r \<longleftrightarrow> record_ok r \<and> \<not> PINBA_REPORT_DELETE_CHECK (rt_std R) r"

lemma row_agg_new_rtag: "row_agg hs report (new_rtag_row lab) []"
  by (simp add: row_agg_def new_rtag_row_def row_data.defs calloc_row_def)

lemma rlabels_simps [simp]:
  "rlabels (row_add hs report d r) = rlabels d" "rlabels (row_sub hs report d r) = rlabels d"
  "rlabels (new_rtag_row lab) = lab"
  by (simp_all add: row_add_def row_sub_def new_rtag_row_def row_data.defs)

text \<open>
  The common body over any table: what both shapes of report do to the table of their rows.
\<close>

definition rtag_table_add ::
  "('m \<Rightarrow> 'k \<Rightarrow> pinba_rtag_data option) \<Rightarrow> ('m \<Rightarrow> 'k \<Rightarrow> pinba_rtag_data \<Rightarrow> 'm) \<Rightarrow> 'k option \<Rightarrow> rtag_labels \<Rightarrow>
   u64 \<Rightarrow> 'm pinba_rtag_report \<Rightarrow> pinba_stats_record \<Rightarrow> 'm pinba_rtag_report" where
  "rtag_table_add tget tadd key lab hs R r =
     (case key of
        None \<Rightarrow> R
      | Some k \<Rightarrow>
          rtag_commit R (tadd (rt_results R) k (row_add hs (rt_std R)
              (case tget (rt_results R) k of None \<Rightarrow> new_rtag_row lab | Some d \<Rightarrow> d) r))
            (case tget (rt_results R) k of None \<Rightarrow> 1 | Some d \<Rightarrow> 0) r)"

definition rtag_table_delete ::
  "('m \<Rightarrow> 'k \<Rightarrow> pinba_rtag_data option) \<Rightarrow> ('m \<Rightarrow> 'k \<Rightarrow> pinba_rtag_data \<Rightarrow> 'm) \<Rightarrow> ('m \<Rightarrow> 'k \<Rightarrow> 'm) \<Rightarrow>
   'k option \<Rightarrow> u64 \<Rightarrow> 'm pinba_rtag_report \<Rightarrow> pinba_stats_record \<Rightarrow> 'm pinba_rtag_report" where
  "rtag_table_delete tget tadd tdel key hs R r =
     (if PINBA_REPORT_DELETE_CHECK (rt_std R) r then R
      else case key of
          None \<Rightarrow> R
        | Some k \<Rightarrow>
            (case tget (rt_results R) k of
               None \<Rightarrow> R
             | Some d \<Rightarrow>
                 if row_count d = 1
                 then R\<lparr>rt_totals := totals_sub (rt_totals R) r, rt_results := tdel (rt_results R) k,
                        rt_std := (rt_std R)\<lparr>results_cnt := results_cnt (rt_std R) - 1\<rparr>\<rparr>
                 else R\<lparr>rt_totals := totals_sub (rt_totals R) r,
                        rt_results := tadd (rt_results R) k (row_sub hs (rt_std R) d r)\<rparr>))"

lemma rtag_flat_add_eq:
  "rtag_flat_add hs True key R r =
     rtag_table_add pinba_map_get pinba_map_add (flat_key key) (flat_labels key) hs R r"
  by (auto simp: rtag_flat_add_def rtag_table_add_def flat_key_def flat_labels_def rtag_vals_def
      split: option.splits)

lemma rtag_flat_delete_eq:
  "rtag_flat_delete hs key R r =
     rtag_table_delete pinba_map_get pinba_map_add (\<lambda>m k. fst (pinba_map_delete m k)) (flat_key key) hs R r"
  by (auto simp: rtag_flat_delete_def rtag_table_delete_def flat_key_def Let_def split: option.splits)

lemma get_nested_inner: "pinba_map_get (nested_inner m h) k = nested_get m (h, k)"
  by (simp add: nested_inner_def nested_get_def split: option.splits)

lemma rtag_host_add_eq:
  "rtag_host_add hs True key R r =
     rtag_table_add nested_get nested_add (host_key key r) (host_labels key r) hs R r"
  by (auto simp: rtag_host_add_def rtag_table_add_def host_key_def host_labels_def rtag_vals_def Let_def
      get_nested_inner nested_add_def rtag_commit_def split: option.splits)

lemma rtag_host_delete_eq:
  "rtag_host_delete hs key R r =
     rtag_table_delete nested_get nested_add nested_del (host_key key r) hs R r"
  by (auto simp: rtag_host_delete_def rtag_table_delete_def host_key_def Let_def nested_get_def
      nested_add_def nested_del_def nested_create_def nested_inner_def split_beta split: option.splits)

section \<open>The window of a request-tag report\<close>

abbreviation rtag_row_table where
  "rtag_row_table tget tadd tdel tcount tinv tnull hs report lab \<equiv>
     row_table tget tadd tdel tcount tinv tnull (row_add hs report) (row_sub hs report)
       (\<lambda>r. new_rtag_row (lab r)) (row_agg hs report) (\<lambda>d. row_count d = 1)
       (\<lambda>d r. rlabels d = lab r) window_ok"

lemma rtag_row_tableI:
  assumes "keyed_table tget tadd tdel tcount tinv tnull"
  shows "rtag_row_table tget tadd tdel tcount tinv tnull hs report lab"
  unfolding row_table_def row_table_axioms_def using assms
  by (auto intro: row_agg_new_rtag row_agg_add row_agg_sub window_ok_filter simp: row_agg_only)

lemma rtag_totals_add:
  assumes "totals_agg t (filter P ws)" and "window_ok (ws @ [r])" and "P r"
  shows "totals_agg (totals_add t r) (filter P (ws @ [r]))"
  using totals_agg_add [OF assms(1), of r] window_ok_filter [OF assms(2), of P] assms(3) by simp

lemma rtag_totals_sub:
  assumes "totals_agg t (filter P (r # ws))" and "window_ok (r # ws)" and "P r"
  shows "totals_agg (totals_sub t r) (filter P ws)"
  using totals_agg_sub [of t r "filter P ws"] window_ok_filter [OF assms(2), of P] assms by simp

lemma rtag_models_add:
  assumes T: "keyed_table tget tadd tdel tcount tinv tnull"
    and m: "rtag_models tget tcount tinv key lab hs R ws" and ok: "window_ok (ws @ [r])"
  shows "rtag_models tget tcount tinv key lab hs (rtag_table_add tget tadd (key r) (lab r) hs R r) (ws @ [r])"
proof (cases "key r")
  case None
  then show ?thesis
    using m row_table.model_add_other [OF rtag_row_tableI [OF T]]
    by (simp add: rtag_models_def rtag_table_add_def)
next
  case (Some k)
  have inv: "tinv (rt_results R)" using m by (simp add: rtag_models_def)
  have RT: "rtag_row_table tget tadd tdel tcount tinv tnull hs (rt_std R) lab"
    using T by (rule rtag_row_tableI)
  have old: "rows_model tget (row_agg hs (rt_std R)) (\<lambda>d r. rlabels d = lab r) key (rt_results R) ws"
    using m by (simp add: rtag_models_def)
  have tot: "totals_agg (totals_add (rt_totals R) r) (filter (\<lambda>r. key r \<noteq> None) (ws @ [r]))"
    using m ok Some by (intro rtag_totals_add) (auto simp: rtag_models_def)
  have rows: "rows_model tget (row_agg hs (rt_std R)) (\<lambda>d r. rlabels d = lab r) key
      (tadd (rt_results R) k (row_add hs (rt_std R)
        (case tget (rt_results R) k of None \<Rightarrow> new_rtag_row (lab r) | Some d \<Rightarrow> d) r)) (ws @ [r])"
    by (rule row_table.model_add [OF RT old inv ok]) (rule Some)
  show ?thesis
    using m Some inv tot rows keyed_table.inv_add [OF T inv] keyed_table.count_add_new [OF T inv]
      keyed_table.count_add_old [OF T inv]
    by (cases "tget (rt_results R) k") (auto simp: rtag_models_def rtag_table_add_def rtag_commit_def)
qed

lemma rtag_models_delete:
  assumes T: "keyed_table tget tadd tdel tcount tinv tnull"
    and m: "rtag_models tget tcount tinv key lab hs R (r # ws)" and ok: "window_ok (r # ws)"
    and in_report: "\<not> PINBA_REPORT_DELETE_CHECK (rt_std R) r"
  shows "rtag_models tget tcount tinv key lab hs (rtag_table_delete tget tadd tdel (key r) hs R r) ws"
proof (cases "key r")
  case None
  then show ?thesis
    using m row_table.model_del_other [OF rtag_row_tableI [OF T], where r = r]
    by (auto simp: rtag_models_def rtag_table_delete_def)
next
  case (Some k)
  have inv: "tinv (rt_results R)" using m by (simp add: rtag_models_def)
  have tot: "totals_agg (totals_sub (rt_totals R) r) (filter (\<lambda>r. key r \<noteq> None) ws)"
    using m ok Some by (intro rtag_totals_sub) (auto simp: rtag_models_def)
  have old: "rows_model tget (row_agg hs (rt_std R)) (\<lambda>d r. rlabels d = lab r) key (rt_results R) (r # ws)"
    using m by (simp add: rtag_models_def)
  obtain d where d: "tget (rt_results R) k = Some d"
    and rows: "rows_model tget (row_agg hs (rt_std R)) (\<lambda>d r. rlabels d = lab r) key
      (if row_count d = 1 then tdel (rt_results R) k
       else tadd (rt_results R) k (row_sub hs (rt_std R) d r)) ws"
    using row_table.model_del [OF rtag_row_tableI [OF T] old inv ok Some] by blast
  show ?thesis
    using m Some inv tot rows d in_report keyed_table.inv_add [OF T inv] keyed_table.inv_del [OF T inv]
      count_pred [OF keyed_table.count_del_old [OF T inv d]] keyed_table.count_add_old [OF T inv d]
    by (cases "row_count d = 1") (simp_all add: rtag_models_def rtag_table_delete_def)
qed

lemma rtag_frame [pinba_frame]:
  "rt_tags (rtag_table_add tget tadd key lab hs R r) = rt_tags R"
  "rt_tags (rtag_table_delete tget tadd tdel key hs R r) = rt_tags R"
  "rtag_adm (rtag_table_add tget tadd key lab hs R r) = rtag_adm R"
  "rtag_adm (rtag_table_delete tget tadd tdel key hs R r) = rtag_adm R"
  by (auto simp: rtag_table_add_def rtag_table_delete_def rtag_commit_def rtag_adm_def fun_eq_iff
      split: option.splits)

lemma rtag_adm_ok:
  "list_all (rtag_adm R) ws \<Longrightarrow> length ws < WINDOW_MAX \<Longrightarrow> window_ok ws"
  by (auto simp: window_ok_def list_all_iff rtag_adm_def)

interpretation flat_window: window_report
    "\<lambda>R r. rtag_flat_add hs True (keyf (rt_tags R) r) R r"
    "\<lambda>R r. rtag_flat_delete hs (keyf (rt_tags R) r) R r"
    "rtag_flat_models keyf hs"
    "\<lambda>R ws. list_all (rtag_adm R) ws \<and> length ws < WINDOW_MAX"
  for hs and keyf :: rtag_keyf
proof (unfold_locales, goal_cases)
  case (1 R ws r)
  then show ?case
    using rtag_models_add [OF smap.keyed_table_axioms _ rtag_adm_ok [OF conjunct1 [OF 1(2)] conjunct2 [OF 1(2)]]]
    unfolding rtag_flat_models_def rtag_flat_add_eq by (simp add: pinba_frame)
next
  case (2 R r ws)
  have "\<not> PINBA_REPORT_DELETE_CHECK (rt_std R) r" using 2(2) by (simp add: rtag_adm_def)
  then show ?case
    using 2(1) rtag_models_delete [OF smap.keyed_table_axioms _ rtag_adm_ok [OF conjunct1 [OF 2(2)] conjunct2 [OF 2(2)]]]
    unfolding rtag_flat_models_def rtag_flat_delete_eq by (simp add: pinba_frame)
qed (simp_all add: rtag_flat_add_eq rtag_flat_delete_eq pinba_frame)

interpretation host_window: window_report
    "\<lambda>R r. rtag_host_add hs True (keyf (rt_tags R) r) R r"
    "\<lambda>R r. rtag_host_delete hs (keyf (rt_tags R) r) R r"
    "rtag_host_models keyf hs"
    "\<lambda>R ws. list_all (rtag_adm R) ws \<and> length ws < WINDOW_MAX"
  for hs and keyf :: rtag_keyf
proof (unfold_locales, goal_cases)
  case (1 R ws r)
  then show ?case
    using rtag_models_add [OF nmap.keyed_table_axioms _ rtag_adm_ok [OF conjunct1 [OF 1(2)] conjunct2 [OF 1(2)]]]
    unfolding rtag_host_models_def rtag_host_add_eq by (simp add: pinba_frame)
next
  case (2 R r ws)
  have "\<not> PINBA_REPORT_DELETE_CHECK (rt_std R) r" using 2(2) by (simp add: rtag_adm_def)
  then show ?case
    using 2(1) rtag_models_delete [OF nmap.keyed_table_axioms _ rtag_adm_ok [OF conjunct1 [OF 2(2)] conjunct2 [OF 2(2)]]]
    unfolding rtag_host_models_def rtag_host_delete_eq by (simp add: pinba_frame)
qed (simp_all add: rtag_host_add_eq rtag_host_delete_eq pinba_frame)

definition fresh_rtag :: "('v list option) pinba_rtag_report \<Rightarrow> bool" where
  "fresh_rtag R \<longleftrightarrow> rt_totals R = zero_totals \<and> rt_results R = None \<and> results_cnt (rt_std R) = 0"

lemma fresh_rtag_models:
  "fresh_rtag R \<Longrightarrow> rtag_flat_models keyf hs R []"
  "fresh_rtag S \<Longrightarrow> rtag_host_models keyf hs S []"
  by (simp_all add: smap.count_null nmap.count_null nmap.inv_null fresh_rtag_def rtag_flat_models_def rtag_host_models_def rtag_models_def
      rows_model_def row_fits_def smap.get_null nmap.get_null)

definition rtag_infos ::
  "((u64 \<Rightarrow> bool \<Rightarrow> rtag_info \<Rightarrow> pinba_stats_record \<Rightarrow> rtag_info) \<times>
    (u64 \<Rightarrow> rtag_info \<Rightarrow> pinba_stats_record \<Rightarrow> rtag_info) \<times> rtag_keyf) list" where
  "rtag_infos =
     [(pinba_update_rtag_info_add, pinba_update_rtag_info_delete, rtag_info_key),
      (pinba_update_rtag2_info_add, pinba_update_rtag2_info_delete, rtag2_key),
      (pinba_update_rtagN_info_add, pinba_update_rtagN_info_delete, rtagN_key)]"

definition rtag_reports ::
  "((u64 \<Rightarrow> bool \<Rightarrow> rtag_report \<Rightarrow> pinba_stats_record \<Rightarrow> rtag_report) \<times>
    (u64 \<Rightarrow> rtag_report \<Rightarrow> pinba_stats_record \<Rightarrow> rtag_report) \<times> rtag_keyf) list" where
  "rtag_reports =
     [(pinba_update_rtag_report_add, pinba_update_rtag_report_delete, rtag_key),
      (pinba_update_rtag2_report_add, pinba_update_rtag2_report_delete, rtag2_key),
      (pinba_update_rtagN_report_add, pinba_update_rtagN_report_delete, rtagN_key)]"

lemma rtag_infos_eq:
  assumes "(add, del, keyf) \<in> set rtag_infos"
  shows "add hs True = (\<lambda>R r. rtag_flat_add hs True (keyf (rt_tags R) r) R r)"
    and "del hs = (\<lambda>R r. rtag_flat_delete hs (keyf (rt_tags R) r) R r)"
  using assms
  by (auto simp: rtag_infos_def fun_eq_iff pinba_update_rtag_info_add_def pinba_update_rtag_info_delete_def
      pinba_update_rtag2_info_add_def pinba_update_rtag2_info_delete_def
      pinba_update_rtagN_info_add_def pinba_update_rtagN_info_delete_def)

lemma rtag_reports_eq:
  assumes "(add, del, keyf) \<in> set rtag_reports"
  shows "add hs True = (\<lambda>R r. rtag_host_add hs True (keyf (rt_tags R) r) R r)"
    and "del hs = (\<lambda>R r. rtag_host_delete hs (keyf (rt_tags R) r) R r)"
  using assms
  by (auto simp: rtag_reports_def fun_eq_iff pinba_update_rtag_report_add_def pinba_update_rtag_report_delete_def
      pinba_update_rtag2_report_add_def pinba_update_rtag2_report_delete_def
      pinba_update_rtagN_report_add_def pinba_update_rtagN_report_delete_def)

definition sample_rtag :: "('v list option) pinba_rtag_report" where
  "sample_rtag =
     \<lparr>rt_std = sample_std PINBA_TABLE_RTAG2_INFO, rt_results = None,
      rt_tags = [sample_word 3 ''app'', sample_word 4 ''dc''], rt_totals = zero_totals\<rparr>"

lemma sample_rtag_fresh: "fresh_rtag sample_rtag"
  by (simp add: fresh_rtag_def sample_rtag_def sample_std_def)

lemma sample_rtag_adm: "list_all (rtag_adm sample_rtag) (entered sample_tagged_history)"
  by (simp add: rtag_adm_def sample_rtag_def sample_tagged_history_def sample_tagged_ok
      sample_tagged_not_older fits_def)

text \<open>
  C10: The reports by one, two or N request tags hold, at any moment of any history, the
  aggregates of the requests in their window that carry all tags of the report: one row per
  combination of values, totals over those requests only, and results_cnt the number of
  rows, as long as allocations succeed.
\<close>

theorem rtag_info_window:
  assumes "(add, del, keyf) \<in> set rtag_infos" and "fresh_rtag R"
    and "list_all (rtag_adm R) (entered es)" and "window_size 0 es < WINDOW_MAX"
  shows "case window_run (add hs True) (del hs) es (R, []) of
           (R', ws) \<Rightarrow> rtag_flat_models keyf hs R' ws"
  using flat_window.window_history [of keyf hs R "[]" es] fresh_rtag_models(1) [OF assms(2)] history_okI [of "rtag_adm R" "[]" es WINDOW_MAX] assms(3,4)
  unfolding rtag_infos_eq [OF assms(1)] by simp

theorem rtag_info_window_witness:
  "case window_run (pinba_update_rtag2_info_add 512 True) (pinba_update_rtag2_info_delete 512)
     sample_tagged_history (sample_rtag, []) of
     (R', ws) \<Rightarrow> rtag_flat_models rtag2_key 512 R' ws"
  by (rule rtag_info_window [OF _ sample_rtag_fresh sample_rtag_adm sample_tagged_size])
    (simp add: rtag_infos_def)

text \<open>
  C11: The reports by host name and request tags hold the aggregates of their window as well,
  one row per host name and combination of values, in per-host tables of which none is left
  empty.
\<close>

theorem rtag_report_window:
  assumes "(add, del, keyf) \<in> set rtag_reports" and "fresh_rtag R"
    and "list_all (rtag_adm R) (entered es)" and "window_size 0 es < WINDOW_MAX"
  shows "case window_run (add hs True) (del hs) es (R, []) of
           (R', ws) \<Rightarrow> rtag_host_models keyf hs R' ws"
  using host_window.window_history [of keyf hs R "[]" es] fresh_rtag_models(2) [OF assms(2)] history_okI [of "rtag_adm R" "[]" es WINDOW_MAX] assms(3,4)
  unfolding rtag_reports_eq [OF assms(1)] by simp

theorem rtag_report_window_witness:
  "case window_run (pinba_update_rtagN_report_add 512 True) (pinba_update_rtagN_report_delete 512)
     sample_tagged_history (sample_rtag, []) of
     (R', ws) \<Rightarrow> rtag_host_models rtagN_key 512 R' ws"
  by (rule rtag_report_window [OF _ sample_rtag_fresh sample_rtag_adm sample_tagged_size])
    (simp add: rtag_reports_def)

section \<open>Failed allocations and ambiguous keys\<close>

text \<open>
  When the allocation of a new row fails, a request-tag report stays as it was: no total,
  no counter and no row changes (a report by host may be left with an empty table for the
  host).
\<close>

theorem rtag_alloc_failure:
  assumes "flat_key key = Some k" and "pinba_map_get (rt_results R) k = None"
    and "host_key key r = Some hk" and "nested_get (rt_results S) hk = None"
    and "map_wf (rt_results S)"
  shows "rtag_flat_add hs False key R r = R \<and>
         rt_totals (rtag_host_add hs False key S r) = rt_totals S \<and>
         rt_std (rtag_host_add hs False key S r) = rt_std S \<and>
         nested_get (rt_results (rtag_host_add hs False key S r)) = nested_get (rt_results S)"
proof -
  obtain vals where key: "key = Some (k, vals)" using assms(1) by (auto simp: flat_key_def)
  have hk: "hk = (hostname r, k)" using assms(3) key by (simp add: host_key_def)
  have "nested_get (nested_create (rt_results S) (hostname r)) = nested_get (rt_results S)"
    using assms(5) by (auto simp: nested_get_def nested_create_def smap.get_add fun_eq_iff
        split: option.splits)
  then show ?thesis
    using assms(2,4) hk
    by (simp add: rtag_flat_add_def rtag_host_add_def key Let_def get_nested_inner)
qed

theorem rtag_alloc_failure_witness:
  "rtag_flat_add 512 False (Some (''web'', [])) sample_rtag (sample_tagged ''h1'' []) = sample_rtag \<and>
   rt_totals (rtag_host_add 512 False (Some (''web'', [])) sample_rtag (sample_tagged ''h1'' [])) = zero_totals"
  using rtag_alloc_failure [of "Some (''web'', [])" "''web''" sample_rtag "sample_tagged ''h1'' []"
      "(''h1'', ''web'')" sample_rtag 512]
  by (simp add: flat_key_def host_key_def sample_rtag_def smap.get_null nmap.get_null sample_tagged_def
      sample_request_def)

text \<open>The keys of two and of N tags, without truncation.\<close>

definition tag_word_ok :: "pinba_word \<Rightarrow> bool" where
  "tag_word_ok w \<longleftrightarrow> fits PINBA_TAG_VALUE_SIZE (word_str w)"

lemma rtag2_index_eq:
  "tag_word_ok w1 \<Longrightarrow> tag_word_ok w2 \<Longrightarrow>
   rtag2_index w1 w2 = (word_str w1 @ [CHR ''|'']) @ word_str w2"
  unfolding rtag2_index_def Let_def
  by (intro buffer_intros put_char_holds) (auto simp: tag_word_ok_def fits_def)

definition joined :: "pinba_word list \<Rightarrow> string" where
  "joined ws = concat (map (\<lambda>w. word_str w @ [CHR ''|'']) ws)"

lemma memcpy_at_holds:
  "holds bp s \<Longrightarrow> length s + length t < length (fst bp) \<Longrightarrow>
   holds (memcpy_at (fst bp) (snd bp) t, snd bp + length t) (s @ t)"
  using take_memcpy_at [of "length s" t "fst bp"] by (auto simp: holds_def)

lemma rtagN_fill_terminated:
  "holds bp s \<Longrightarrow> length s + length (joined ws) < length (fst bp) \<Longrightarrow>
   terminated (rtagN_fill ws bp) (s @ joined ws)"
proof (induction ws arbitrary: bp s)
  case Nil
  then show ?case by (auto simp: joined_def terminated_def holds_def)
next
  case (Cons w ws)
  let ?bp = "(memcpy_at (fst bp) (snd bp) (word_str w), snd bp + length (word_str w))"
  have h: "holds ?bp (s @ word_str w)"
    using Cons.prems by (intro memcpy_at_holds) (simp_all add: joined_def)
  have l: "length (fst ?bp) = length (fst bp)"
    using Cons.prems by (simp add: joined_def holds_def)
  have "holds (put_char (CHR ''|'') ?bp) ((s @ word_str w) @ [CHR ''|''])"
    using Cons.prems l by (intro put_char_holds [OF h]) (simp add: joined_def)
  then show ?case
    using Cons.IH [of "put_char (CHR ''|'') ?bp" "(s @ word_str w) @ [CHR ''|'']"] Cons.prems l
    by (simp add: joined_def)
qed

lemma length_joined:
  "list_all tag_word_ok ws \<Longrightarrow> length (joined ws) \<le> PINBA_TAG_VALUE_SIZE * length ws"
  by (induction ws) (auto simp: joined_def tag_word_ok_def fits_def)

lemma nul_free_joined: "list_all tag_word_ok ws \<Longrightarrow> nul_free (joined ws)"
  by (induction ws) (auto simp: joined_def tag_word_ok_def fits_def)

lemma rtagN_index_eq: "list_all tag_word_ok ws \<Longrightarrow> rtagN_index ws = joined ws"
  unfolding rtagN_index_def
  using rtagN_fill_terminated [of "(zero_buf (PINBA_TAG_VALUE_SIZE * length ws + length ws + 1), 0)" "[]" ws]
    length_joined [of ws]
  by (intro c_str_terminated) (auto simp: holds_def nul_free_joined)

lemma joined_inj:
  "list_all (\<lambda>w. lacks (CHR ''|'') (word_str w)) ws \<Longrightarrow>
   list_all (\<lambda>w. lacks (CHR ''|'') (word_str w)) vs \<Longrightarrow>
   joined ws = joined vs \<longleftrightarrow> map word_str ws = map word_str vs"
proof (induction ws arbitrary: vs)
  case Nil
  then show ?case by (cases vs) (auto simp: joined_def)
next
  case (Cons w ws)
  then show ?case by (cases vs) (auto simp: joined_def join_inj)
qed

text \<open>
  C16: Two requests share a row of an N-tag report exactly when they agree on the value of
  every tag, provided the values do not contain the separator of the key; the key is never
  truncated.
\<close>

theorem rtagN_key_separates:
  assumes "rtagN_key tgs r = Some (k, vals)" and "rtagN_key tgs r' = Some (k', vals')"
    and "\<And>x ws. x \<in> {r, r'} \<Longrightarrow> rtagN_find tgs x = Some ws \<Longrightarrow>
           list_all (\<lambda>w. tag_word_ok w \<and> lacks (CHR ''|'') (word_str w)) ws"
  shows "k = k' \<longleftrightarrow> vals = vals'"
proof -
  obtain ws vs where f: "rtagN_find tgs r = Some ws" "rtagN_find tgs r' = Some vs"
    and k: "k = rtagN_index ws" "vals = map word_str ws" "k' = rtagN_index vs" "vals' = map word_str vs"
    using assms(1,2) by (auto simp: rtagN_key_def split: option.splits)
  have "list_all tag_word_ok ws" "list_all (\<lambda>w. lacks (CHR ''|'') (word_str w)) ws"
    "list_all tag_word_ok vs" "list_all (\<lambda>w. lacks (CHR ''|'') (word_str w)) vs"
    using assms(3) [of r ws] assms(3) [of r' vs] f by (auto simp: list_all_iff)
  then show ?thesis by (simp add: k rtagN_index_eq joined_inj)
qed

theorem rtagN_key_separates_witness:
  "rtagN_index [sample_word 11 ''web'', sample_word 21 ''eu''] \<noteq>
   rtagN_index [sample_word 12 ''api'', sample_word 21 ''eu'']"
proof -
  let ?tgs = "[sample_word 3 ''app'', sample_word 4 ''dc'']"
  let ?r = "sample_tagged ''h1'' [(sample_word 3 ''app'', sample_word 11 ''web''), (sample_word 4 ''dc'', sample_word 21 ''eu'')]"
  let ?r' = "sample_tagged ''h2'' [(sample_word 4 ''dc'', sample_word 21 ''eu''), (sample_word 3 ''app'', sample_word 12 ''api'')]"
  have f: "rtagN_find ?tgs ?r = Some [sample_word 11 ''web'', sample_word 21 ''eu'']"
    "rtagN_find ?tgs ?r' = Some [sample_word 12 ''api'', sample_word 21 ''eu'']"
    by (simp_all add: rtagN_find_def sample_tagged_def same_word_def)
  have "rtagN_index [sample_word 11 ''web'', sample_word 21 ''eu''] =
      rtagN_index [sample_word 12 ''api'', sample_word 21 ''eu''] \<longleftrightarrow>
      [''web'', ''eu''] = [''api'', ''eu'']"
    by (rule rtagN_key_separates [of ?tgs ?r _ _ ?r'])
      (auto simp: rtagN_key_def f tag_word_ok_def fits_def lacks_def)
  then show ?thesis by simp
qed

end
