(* ===== verification/Tag_Reports.thy ===== *)
theory Tag_Reports
  imports Samples Rtag_Reports
begin

text \<open>
  The reports grouped by timer tags (\<^verbatim>\<open>src/data.cc\<close>, \<^verbatim>\<open>pinba_update_tag*_add\<close> and
  \<^verbatim>\<open>pinba_update_tag*_delete\<close>). A request contributes each of its timers that carries the
  tags of the report to the row of the timer's tag values. A row counts hits per timer and
  requests once per request: \<^verbatim>\<open>prev_add_request_id\<close> and \<^verbatim>\<open>prev_del_request_id\<close> hold the pool
  slot of the request that was last counted. The timers of a request are passed as the list
  that \<^verbatim>\<open>record_get_timer\<close> reads from the timer pool. \<open>ok i\<close> says whether the allocations made
  for the i-th timer succeed.
\<close>

section \<open>State\<close>

record tag_labels =
  tl_script_name :: string
  tl_hostname :: string
  tl_server_name :: string
  tl_tag_values :: "string list"

record pinba_tag_data =
  tr_histogram :: histogram
  tr_req_count :: u64
  tr_hit_count :: u64
  tr_value :: pinba_timeval
  tr_utime :: pinba_timeval
  tr_stime :: pinba_timeval
  tr_labels :: tag_labels
  tr_prev_add :: u64
  tr_prev_del :: u64

text \<open>
  \<open>tg_words\<close> is the scratch array \<^verbatim>\<open>words\<close> of an N-tag report. It is allocated without being
  initialised and keeps what the last search left in it.
\<close>

record 'm pinba_tag_report =
  tg_std :: pinba_std_report
  tg_tag_id :: "int list"
  tg_words :: "pinba_word list"
  tg_results :: 'm

type_synonym tag_info = "pinba_tag_data pinba_map pinba_tag_report"
type_synonym tag_report = "pinba_tag_data nested_map pinba_tag_report"

type_synonym timer_tags = "(int \<times> pinba_word) list"

section \<open>Searching the tags of a timer\<close>

fun tag_value :: "int \<Rightarrow> timer_tags \<Rightarrow> pinba_word option" where
  "tag_value tag_id [] = None"
| "tag_value tag_id ((i, w) # ts) = (if tag_id = i then Some w else tag_value tag_id ts)"

text \<open>Two tags: the loop runs to the end, so the last tag of each id counts.\<close>

fun tag2_values ::
  "int \<Rightarrow> int \<Rightarrow> timer_tags \<Rightarrow> pinba_word option \<Rightarrow> pinba_word option \<Rightarrow> (pinba_word \<times> pinba_word) option" where
  "tag2_values id1 id2 [] v1 v2 = (case (v1, v2) of (Some w1, Some w2) \<Rightarrow> Some (w1, w2) | _ \<Rightarrow> None)"
| "tag2_values id1 id2 ((i, w) # ts) v1 v2 =
     (if id1 = i then tag2_values id1 id2 ts (Some w) v2
      else if id2 = i then tag2_values id1 id2 ts v1 (Some w)
      else tag2_values id1 id2 ts v1 v2)"

text \<open>
  N tags: the inner loop over the tags of the timer for the \<open>h\<close>-th id, which returns the
  scratch array, the count of tags found, whether this id was found and whether the search
  jumped ahead because the count reached the number of tags; and the outer loop over the
  ids, which returns whether the timer takes part.
\<close>

fun tagN_inner ::
  "int \<Rightarrow> nat \<Rightarrow> nat \<Rightarrow> timer_tags \<Rightarrow> pinba_word list \<Rightarrow> nat \<Rightarrow> bool \<Rightarrow> pinba_word list \<times> nat \<times> bool \<times> bool" where
  "tagN_inner tag_id h n [] words cnt found = (words, cnt, found, False)"
| "tagN_inner tag_id h n ((i, w) # ts) words cnt found =
     (if tag_id = i then
        let words = words[h := w]; cnt = cnt + 1
        in if cnt = n then (words, cnt, found, True) else tagN_inner tag_id h n ts words cnt True
      else tagN_inner tag_id h n ts words cnt found)"

fun tagN_outer :: "int list \<Rightarrow> nat \<Rightarrow> nat \<Rightarrow> timer_tags \<Rightarrow> pinba_word list \<Rightarrow> nat \<Rightarrow> pinba_word list \<times> bool" where
  "tagN_outer [] h n ts words cnt = (words, cnt = n)"
| "tagN_outer (tag_id # ids) h n ts words cnt =
     (case tagN_inner tag_id h n ts words cnt False of
        (words, cnt, found, jump) \<Rightarrow>
          if jump then (words, True)
          else if \<not> found then (words, cnt = n)
          else tagN_outer ids (h + 1) n ts words cnt)"

definition tagN_search :: "int list \<Rightarrow> timer_tags \<Rightarrow> pinba_word list \<Rightarrow> pinba_word list \<times> bool" where
  "tagN_search ids ts words = tagN_outer ids 0 (length ids) ts words 0"

section \<open>Keys\<close>

text \<open>
  A key function gives the new scratch array and, if the timer takes part, the key of its row
  and the labels of a new row.
\<close>

type_synonym tag_keyf =
  "int list \<Rightarrow> pinba_word list \<Rightarrow> pinba_stats_record \<Rightarrow> pinba_timer_record \<Rightarrow>
   pinba_word list \<times> (string \<times> tag_labels) option"

definition no_tag_labels :: tag_labels where
  "no_tag_labels = \<lparr>tl_script_name = [], tl_hostname = [], tl_server_name = [], tl_tag_values = []\<rparr>"

definition copy_value :: "pinba_word \<Rightarrow> string" where
  "copy_value w = static_copy PINBA_TAG_VALUE_SIZE (word_str w)"

definition script_label :: "pinba_stats_record \<Rightarrow> tag_labels \<Rightarrow> tag_labels" where
  "script_label record l = l\<lparr>tl_script_name := static_copy PINBA_SCRIPT_NAME_SIZE (script_name record)\<rparr>"

definition host_server_labels :: "pinba_stats_record \<Rightarrow> tag_labels \<Rightarrow> tag_labels" where
  "host_server_labels record l =
     l\<lparr>tl_hostname := static_copy PINBA_HOSTNAME_SIZE (hostname record),
       tl_server_name := static_copy PINBA_SERVER_NAME_SIZE (server_name record)\<rparr>"

text \<open>The key \<^verbatim>\<open>value1|value2\<close> in a buffer of \<open>n\<close> bytes.\<close>

definition tag2_index :: "nat \<Rightarrow> pinba_word \<Rightarrow> pinba_word \<Rightarrow> string" where
  "tag2_index n word1 word2 =
     (let bp = memcpy_static (zero_buf n) (word_str word1);
          bp = put_char (CHR ''|'') bp;
          bp = memcat_static bp (word_str word2)
      in c_str (fst bp))"

definition tag_report2_index :: "nat \<Rightarrow> pinba_stats_record \<Rightarrow> pinba_word \<Rightarrow> string" where
  "tag_report2_index n record word =
     (let bp = memcpy_static (zero_buf n) (hostname record);
          bp = put_char (CHR ''|'') bp;
          bp = memcat_static bp (server_name record);
          bp = put_char (CHR ''|'') bp;
          bp = memcat_static bp (word_str word)
      in c_str (fst bp))"

definition tag2_report2_index :: "nat \<Rightarrow> pinba_stats_record \<Rightarrow> pinba_word \<Rightarrow> pinba_word \<Rightarrow> string" where
  "tag2_report2_index n record word1 word2 =
     (let bp = memcpy_static (zero_buf n) (hostname record);
          bp = pinba_append_key_delimiter bp;
          bp = memcat_static bp (server_name record);
          bp = pinba_append_key_delimiter bp;
          bp = memcat_static bp (word_str word1);
          bp = pinba_append_key_delimiter bp;
          bp = memcat_static bp (word_str word2)
      in c_str (fst bp))"

text \<open>
  The keys of the N-tag reports are written to \<^verbatim>\<open>report->index\<close>, which \<^verbatim>\<open>src/ha_pinba.cc\<close>
  allocates with \<open>tagN_index_size\<close> bytes for all three reports; \<open>rtagN_fill\<close> writes the
  values. A write beyond the buffer is modelled as if the memory were there; which reports
  stay inside it is stated below.
\<close>

definition tagN_index_size :: "nat \<Rightarrow> nat" where
  "tagN_index_size n = PINBA_TAG_VALUE_SIZE * n + n + 1"

definition tagN_index :: "pinba_word list \<Rightarrow> string" where
  "tagN_index words = c_str (fst (rtagN_fill words (zero_buf (tagN_index_size (length words)), 0)))"

definition memcpy_sep :: "string \<Rightarrow> char list \<times> nat \<Rightarrow> char list \<times> nat" where
  "memcpy_sep s bp = put_char (CHR ''|'') (memcpy_at (fst bp) (snd bp) s, snd bp + length s)"

definition tagN_report2_fill :: "pinba_stats_record \<Rightarrow> pinba_word list \<Rightarrow> char list \<Rightarrow> char list \<times> nat" where
  "tagN_report2_fill record words buf =
     rtagN_fill words (memcpy_sep (server_name record) (memcpy_sep (hostname record) (buf, 0)))"

definition tagN_report2_index :: "pinba_stats_record \<Rightarrow> pinba_word list \<Rightarrow> string" where
  "tagN_report2_index record words =
     c_str (fst (tagN_report2_fill record words (zero_buf (tagN_index_size (length words)))))"

definition tag_info_key :: tag_keyf where
  "tag_info_key ids words record timer =
     (words, case tag_value (ids ! 0) (timer_tags timer) of
               None \<Rightarrow> None
             | Some w \<Rightarrow> Some (word_str w, no_tag_labels))"

definition tag2_info_key :: tag_keyf where
  "tag2_info_key ids words record timer =
     (words, case tag2_values (ids ! 0) (ids ! 1) (timer_tags timer) None None of
               None \<Rightarrow> None
             | Some (w1, w2) \<Rightarrow>
                 Some (tag2_index (PINBA_TAG_VALUE_SIZE + 1 + PINBA_TAG_VALUE_SIZE) w1 w2,
                       no_tag_labels\<lparr>tl_tag_values := [copy_value w1, copy_value w2]\<rparr>))"

definition tag_report_key :: tag_keyf where
  "tag_report_key ids words record timer =
     (words, case tag_value (ids ! 0) (timer_tags timer) of
               None \<Rightarrow> None
             | Some w \<Rightarrow> Some (word_str w,
                 script_label record (no_tag_labels\<lparr>tl_tag_values := [copy_value w]\<rparr>)))"

definition tag2_report_key :: tag_keyf where
  "tag2_report_key ids words record timer =
     (words, case tag2_values (ids ! 0) (ids ! 1) (timer_tags timer) None None of
               None \<Rightarrow> None
             | Some (w1, w2) \<Rightarrow>
                 Some (tag2_index (PINBA_TAG_VALUE_SIZE + 1 + PINBA_TAG_VALUE_SIZE + 1) w1 w2,
                       script_label record (no_tag_labels\<lparr>tl_tag_values := [copy_value w1, copy_value w2]\<rparr>)))"

text \<open>The additions and the deletions of the \<^verbatim>\<open>report2\<close> family use buffers of different sizes.\<close>

definition tag_report2_key :: "nat \<Rightarrow> tag_keyf" where
  "tag_report2_key n ids words record timer =
     (words, case tag_value (ids ! 0) (timer_tags timer) of
               None \<Rightarrow> None
             | Some w \<Rightarrow>
                 Some (tag_report2_index n record w,
                       host_server_labels record (script_label record
                         (no_tag_labels\<lparr>tl_tag_values := [copy_value w]\<rparr>))))"

definition tag2_report2_key :: "nat \<Rightarrow> tag_keyf" where
  "tag2_report2_key n ids words record timer =
     (words, case tag2_values (ids ! 0) (ids ! 1) (timer_tags timer) None None of
               None \<Rightarrow> None
             | Some (w1, w2) \<Rightarrow>
                 Some (tag2_report2_index n record w1 w2,
                       host_server_labels record (script_label record
                         (no_tag_labels\<lparr>tl_tag_values := [copy_value w1, copy_value w2]\<rparr>))))"

definition tagN_info_key :: tag_keyf where
  "tagN_info_key ids words record timer =
     (if length (timer_tags timer) < length ids then (words, None)
      else case tagN_search ids (timer_tags timer) words of
             (words, found) \<Rightarrow>
               (words, if found
                       then Some (tagN_index words, no_tag_labels\<lparr>tl_tag_values := map word_str words\<rparr>)
                       else None))"

definition tagN_report_key :: tag_keyf where
  "tagN_report_key ids words record timer =
     (case tagN_search ids (timer_tags timer) words of
        (words, found) \<Rightarrow>
          (words, if found
                  then Some (tagN_index words,
                         script_label record (no_tag_labels\<lparr>tl_tag_values := map word_str words\<rparr>))
                  else None))"

definition tagN_report2_key :: tag_keyf where
  "tagN_report2_key ids words record timer =
     (case tagN_search ids (timer_tags timer) words of
        (words, found) \<Rightarrow>
          (words, if found
                  then Some (tagN_report2_index record words,
                         host_server_labels record (script_label record
                           (no_tag_labels\<lparr>tl_tag_values := map word_str words\<rparr>)))
                  else None))"

section \<open>Rows\<close>

definition PINBA_UPDATE_HISTOGRAM_ADD_EX ::
  "u64 \<Rightarrow> pinba_std_report \<Rightarrow> histogram \<Rightarrow> pinba_timeval \<Rightarrow> int \<Rightarrow> histogram" where
  "PINBA_UPDATE_HISTOGRAM_ADD_EX hs report hg time cnt =
     pinba_update_histogram hs (histogram_max_time report) (histogram_segment report) hg time cnt"

definition PINBA_UPDATE_HISTOGRAM_DEL_EX ::
  "u64 \<Rightarrow> pinba_std_report \<Rightarrow> histogram \<Rightarrow> pinba_timeval \<Rightarrow> int \<Rightarrow> histogram" where
  "PINBA_UPDATE_HISTOGRAM_DEL_EX hs report hg time cnt =
     pinba_update_histogram hs (histogram_max_time report) (histogram_segment report) hg time (- cnt)"

text \<open>The row a timer starts, the change of an existing row, and the statements after both.\<close>

definition tag_row_new :: "u64 \<Rightarrow> tag_labels \<Rightarrow> pinba_timer_record \<Rightarrow> pinba_tag_data" where
  "tag_row_new request_id lab timer =
     \<lparr>tr_histogram = None, tr_req_count = 1, tr_hit_count = word_of_int (timer_hit_count timer),
      tr_value = timer_value timer, tr_utime = null_timeval, tr_stime = null_timeval,
      tr_labels = lab, tr_prev_add = request_id, tr_prev_del = - 1\<rparr>"

definition tag_row_hit :: "pinba_tag_data \<Rightarrow> pinba_timer_record \<Rightarrow> pinba_tag_data" where
  "tag_row_hit data timer =
     data\<lparr>tr_hit_count := tr_hit_count data + word_of_int (timer_hit_count timer),
          tr_value := pinba_timeradd (tr_value data) (timer_value timer)\<rparr>"

definition tag_row_finish ::
  "u64 \<Rightarrow> pinba_std_report \<Rightarrow> u64 \<Rightarrow> pinba_tag_data \<Rightarrow> pinba_timer_record \<Rightarrow> pinba_tag_data" where
  "tag_row_finish hs report request_id data timer =
     (let data = data\<lparr>tr_utime := pinba_timeradd (tr_utime data) (timer_ru_utime timer),
                      tr_stime := pinba_timeradd (tr_stime data) (timer_ru_stime timer),
                      tr_histogram := PINBA_UPDATE_HISTOGRAM_ADD_EX hs report (tr_histogram data)
                        (timer_value timer) (timer_hit_count timer)\<rparr>
      in if request_id \<noteq> tr_prev_add data
         then data\<lparr>tr_req_count := tr_req_count data + 1, tr_prev_add := request_id\<rparr>
         else data)"

text \<open>The deletion of a timer: the request is uncounted once; the row survives unless it was the last.\<close>

definition tag_row_uncount :: "u64 \<Rightarrow> pinba_tag_data \<Rightarrow> pinba_tag_data" where
  "tag_row_uncount request_id data =
     (if request_id \<noteq> tr_prev_del data
      then data\<lparr>tr_req_count := tr_req_count data - 1, tr_prev_del := request_id\<rparr>
      else data)"

definition tag_row_sub ::
  "u64 \<Rightarrow> pinba_std_report \<Rightarrow> pinba_tag_data \<Rightarrow> pinba_timer_record \<Rightarrow> pinba_tag_data" where
  "tag_row_sub hs report data timer =
     data\<lparr>tr_hit_count := tr_hit_count data - word_of_int (timer_hit_count timer),
          tr_value := pinba_timersub (tr_value data) (timer_value timer),
          tr_utime := pinba_timersub (tr_utime data) (timer_ru_utime timer),
          tr_stime := pinba_timersub (tr_stime data) (timer_ru_stime timer),
          tr_histogram := PINBA_UPDATE_HISTOGRAM_DEL_EX hs report (tr_histogram data)
            (timer_value timer) (timer_hit_count timer)\<rparr>"

section \<open>One timer\<close>

definition tag_put :: "'m pinba_tag_report \<Rightarrow> 'm \<Rightarrow> u64 \<Rightarrow> 'm pinba_tag_report" where
  "tag_put report rows n =
     report\<lparr>tg_results := rows,
            tg_std := (tg_std report)\<lparr>results_cnt := results_cnt (tg_std report) + n\<rparr>\<rparr>"

definition tag_flat_timer_add ::
  "u64 \<Rightarrow> bool \<Rightarrow> u64 \<Rightarrow> (string \<times> tag_labels) option \<Rightarrow> pinba_timer_record \<Rightarrow> tag_info \<Rightarrow> tag_info" where
  "tag_flat_timer_add hs ok request_id key timer report =
     (case key of
        None \<Rightarrow> report
      | Some (index, lab) \<Rightarrow>
          (case pinba_map_get (tg_results report) index of
             None \<Rightarrow>
               if \<not> ok then report
               else tag_put report (pinba_map_add (tg_results report) index
                      (tag_row_finish hs (tg_std report) request_id (tag_row_new request_id lab timer) timer)) 1
           | Some data \<Rightarrow>
               tag_put report (pinba_map_add (tg_results report) index
                 (tag_row_finish hs (tg_std report) request_id (tag_row_hit data timer) timer)) 0))"

definition tag_flat_timer_delete ::
  "u64 \<Rightarrow> u64 \<Rightarrow> (string \<times> tag_labels) option \<Rightarrow> pinba_timer_record \<Rightarrow> tag_info \<Rightarrow> tag_info" where
  "tag_flat_timer_delete hs request_id key timer report =
     (case key of
        None \<Rightarrow> report
      | Some (index, lab) \<Rightarrow>
          (case pinba_map_get (tg_results report) index of
             None \<Rightarrow> report
           | Some data \<Rightarrow>
               let data = tag_row_uncount request_id data
               in if tr_req_count data = 0
                  then tag_put report (fst (pinba_map_delete (tg_results report) index)) (- 1)
                  else tag_put report (pinba_map_add (tg_results report) index
                         (tag_row_sub hs (tg_std report) data timer)) 0))"

text \<open>
  With a table per script. \<^verbatim>\<open>script_map\<close> is looked up once per request; it is the table the
  outer map holds for the script, or a null pointer when there is none, also after its last
  row was deleted.
\<close>

definition tag_script_timer_add ::
  "u64 \<Rightarrow> bool \<Rightarrow> u64 \<Rightarrow> string \<Rightarrow> (string \<times> tag_labels) option \<Rightarrow> pinba_timer_record \<Rightarrow> tag_report \<Rightarrow> tag_report" where
  "tag_script_timer_add hs ok request_id script key timer report =
     (case key of
        None \<Rightarrow> report
      | Some (index, lab) \<Rightarrow>
          let script_map = nested_inner (tg_results report) script;
              report = report\<lparr>tg_results := nested_create (tg_results report) script\<rparr>
          in case pinba_map_get script_map index of
               None \<Rightarrow>
                 if \<not> ok then report
                 else tag_put report (pinba_map_add (tg_results report) script
                        (pinba_map_add script_map index
                          (tag_row_finish hs (tg_std report) request_id (tag_row_new request_id lab timer) timer))) 1
             | Some data \<Rightarrow>
                 tag_put report (pinba_map_add (tg_results report) script
                   (pinba_map_add script_map index
                     (tag_row_finish hs (tg_std report) request_id (tag_row_hit data timer) timer))) 0)"

definition tag_script_timer_delete ::
  "u64 \<Rightarrow> u64 \<Rightarrow> string \<Rightarrow> (string \<times> tag_labels) option \<Rightarrow> pinba_timer_record \<Rightarrow> tag_report \<Rightarrow> tag_report" where
  "tag_script_timer_delete hs request_id script key timer report =
     (case key of
        None \<Rightarrow> report
      | Some (index, lab) \<Rightarrow>
          (case pinba_map_get (tg_results report) script of
             None \<Rightarrow> report
           | Some script_map \<Rightarrow>
               (case pinba_map_get script_map index of
                  None \<Rightarrow> report
                | Some data \<Rightarrow>
                    let data = tag_row_uncount request_id data
                    in if tr_req_count data = 0
                       then
                         let (script_map', rc) = pinba_map_delete script_map index
                         in tag_put report
                              (if rc < 0 then fst (pinba_map_delete (tg_results report) script)
                               else pinba_map_add (tg_results report) script script_map') (- 1)
                       else tag_put report (pinba_map_add (tg_results report) script
                              (pinba_map_add script_map index (tag_row_sub hs (tg_std report) data timer))) 0)))"

section \<open>The loops over the timers\<close>

text \<open>
  \<^verbatim>\<open>for (i = 0; i < record->timers_cnt; i++)\<close>: search the tags of the i-th timer, then do
  \<open>body\<close> with the key found.
\<close>

fun for_timers ::
  "tag_keyf \<Rightarrow> (nat \<Rightarrow> (string \<times> tag_labels) option \<Rightarrow> pinba_timer_record \<Rightarrow> 'm pinba_tag_report \<Rightarrow> 'm pinba_tag_report) \<Rightarrow>
   pinba_stats_record \<Rightarrow> nat \<Rightarrow> pinba_timer_record list \<Rightarrow> 'm pinba_tag_report \<Rightarrow> 'm pinba_tag_report" where
  "for_timers keyf body record i [] report = report"
| "for_timers keyf body record i (timer # timers) report =
     (case keyf (tg_tag_id report) (tg_words report) record timer of
        (words, key) \<Rightarrow>
          for_timers keyf body record (i + 1) timers (body i key timer (report\<lparr>tg_words := words\<rparr>)))"

definition tag_flat_add ::
  "tag_keyf \<Rightarrow> u64 \<Rightarrow> (nat \<Rightarrow> bool) \<Rightarrow> u64 \<Rightarrow> pinba_stats_record \<Rightarrow> pinba_timer_record list \<Rightarrow> tag_info \<Rightarrow> tag_info" where
  "tag_flat_add keyf hs ok request_id record timers report =
     for_timers keyf (\<lambda>i. tag_flat_timer_add hs (ok i) request_id) record 0 timers report"

definition tag_flat_delete ::
  "tag_keyf \<Rightarrow> u64 \<Rightarrow> u64 \<Rightarrow> pinba_stats_record \<Rightarrow> pinba_timer_record list \<Rightarrow> tag_info \<Rightarrow> tag_info" where
  "tag_flat_delete keyf hs request_id record timers report =
     (if PINBA_REPORT_DELETE_CHECK (tg_std report) record then report
      else for_timers keyf (\<lambda>i. tag_flat_timer_delete hs request_id) record 0 timers report)"

definition tag_script_add ::
  "tag_keyf \<Rightarrow> u64 \<Rightarrow> (nat \<Rightarrow> bool) \<Rightarrow> u64 \<Rightarrow> pinba_stats_record \<Rightarrow> pinba_timer_record list \<Rightarrow> tag_report \<Rightarrow> tag_report" where
  "tag_script_add keyf hs ok request_id record timers report =
     for_timers keyf (\<lambda>i. tag_script_timer_add hs (ok i) request_id (script_name record)) record 0 timers report"

definition tag_script_delete ::
  "tag_keyf \<Rightarrow> u64 \<Rightarrow> u64 \<Rightarrow> pinba_stats_record \<Rightarrow> pinba_timer_record list \<Rightarrow> tag_report \<Rightarrow> tag_report" where
  "tag_script_delete keyf hs request_id record timers report =
     (if PINBA_REPORT_DELETE_CHECK (tg_std report) record then report
      else case pinba_map_get (tg_results report) (script_name record) of
             None \<Rightarrow> report
           | Some script_map \<Rightarrow>
               for_timers keyf (\<lambda>i. tag_script_timer_delete hs request_id (script_name record)) record 0 timers report)"

section \<open>The nine reports\<close>

type_synonym 'p tag_add_func =
  "u64 \<Rightarrow> (nat \<Rightarrow> bool) \<Rightarrow> u64 \<Rightarrow> 'p \<Rightarrow> pinba_stats_record \<Rightarrow> pinba_timer_record list \<Rightarrow> 'p"

type_synonym 'p tag_delete_func =
  "u64 \<Rightarrow> u64 \<Rightarrow> 'p \<Rightarrow> pinba_stats_record \<Rightarrow> pinba_timer_record list \<Rightarrow> 'p"

definition pinba_update_tag_info_add :: "tag_info tag_add_func" where
  "pinba_update_tag_info_add hs ok request_id report record timers =
     tag_flat_add tag_info_key hs ok request_id record timers report"

definition pinba_update_tag_info_delete :: "tag_info tag_delete_func" where
  "pinba_update_tag_info_delete hs request_id report record timers =
     tag_flat_delete tag_info_key hs request_id record timers report"

definition pinba_update_tag2_info_add :: "tag_info tag_add_func" where
  "pinba_update_tag2_info_add hs ok request_id report record timers =
     tag_flat_add tag2_info_key hs ok request_id record timers report"

definition pinba_update_tag2_info_delete :: "tag_info tag_delete_func" where
  "pinba_update_tag2_info_delete hs request_id report record timers =
     tag_flat_delete tag2_info_key hs request_id record timers report"

definition pinba_update_tagN_info_add :: "tag_info tag_add_func" where
  "pinba_update_tagN_info_add hs ok request_id report record timers =
     tag_flat_add tagN_info_key hs ok request_id record timers report"

definition pinba_update_tagN_info_delete :: "tag_info tag_delete_func" where
  "pinba_update_tagN_info_delete hs request_id report record timers =
     tag_flat_delete tagN_info_key hs request_id record timers report"

definition pinba_update_tag_report_add :: "tag_report tag_add_func" where
  "pinba_update_tag_report_add hs ok request_id report record timers =
     tag_script_add tag_report_key hs ok request_id record timers report"

definition pinba_update_tag_report_delete :: "tag_report tag_delete_func" where
  "pinba_update_tag_report_delete hs request_id report record timers =
     tag_script_delete tag_report_key hs request_id record timers report"

definition pinba_update_tag2_report_add :: "tag_report tag_add_func" where
  "pinba_update_tag2_report_add hs ok request_id report record timers =
     tag_script_add tag2_report_key hs ok request_id record timers report"

definition pinba_update_tag2_report_delete :: "tag_report tag_delete_func" where
  "pinba_update_tag2_report_delete hs request_id report record timers =
     tag_script_delete tag2_report_key hs request_id record timers report"

definition pinba_update_tagN_report_add :: "tag_report tag_add_func" where
  "pinba_update_tagN_report_add hs ok request_id report record timers =
     tag_script_add tagN_report_key hs ok request_id record timers report"

definition pinba_update_tagN_report_delete :: "tag_report tag_delete_func" where
  "pinba_update_tagN_report_delete hs request_id report record timers =
     tag_script_delete tagN_report_key hs request_id record timers report"

definition pinba_update_tag_report2_add :: "tag_report tag_add_func" where
  "pinba_update_tag_report2_add hs ok request_id report record timers =
     tag_script_add (tag_report2_key
       (PINBA_SCRIPT_NAME_SIZE + PINBA_HOSTNAME_SIZE + PINBA_SCRIPT_NAME_SIZE + 1 + PINBA_TAG_VALUE_SIZE)) hs ok request_id record timers report"

definition pinba_update_tag_report2_delete :: "tag_report tag_delete_func" where
  "pinba_update_tag_report2_delete hs request_id report record timers =
     tag_script_delete (tag_report2_key
       (PINBA_HOSTNAME_SIZE + 1 + PINBA_SERVER_NAME_SIZE + 1 + PINBA_SCRIPT_NAME_SIZE + 1 + PINBA_TAG_VALUE_SIZE)) hs request_id record timers report"

definition pinba_update_tag2_report2_add :: "tag_report tag_add_func" where
  "pinba_update_tag2_report2_add hs ok request_id report record timers =
     tag_script_add (tag2_report2_key
       (PINBA_HOSTNAME_SIZE + 1 + PINBA_SERVER_NAME_SIZE + 1 + PINBA_SCRIPT_NAME_SIZE + 1 + PINBA_TAG_VALUE_SIZE + 1 + PINBA_TAG_VALUE_SIZE + 1)) hs ok request_id record timers report"

definition pinba_update_tag2_report2_delete :: "tag_report tag_delete_func" where
  "pinba_update_tag2_report2_delete hs request_id report record timers =
     tag_script_delete (tag2_report2_key
       (PINBA_HOSTNAME_SIZE + PINBA_SERVER_NAME_SIZE + PINBA_SCRIPT_NAME_SIZE + 1 + PINBA_TAG_VALUE_SIZE + 1 + PINBA_TAG_VALUE_SIZE + 1)) hs request_id record timers report"

definition pinba_update_tagN_report2_add :: "tag_report tag_add_func" where
  "pinba_update_tagN_report2_add hs ok request_id report record timers =
     tag_script_add tagN_report2_key hs ok request_id record timers report"

definition pinba_update_tagN_report2_delete :: "tag_report tag_delete_func" where
  "pinba_update_tagN_report2_delete hs request_id report record timers =
     tag_script_delete tagN_report2_key hs request_id record timers report"

end
