(* ===== verification/Tag_Windows.thy ===== *)
theory Tag_Windows
  imports Tag_Reports
begin

text \<open>
  The timer-tag reports hold the aggregates of their window. For a fixed key the table loops
  act on one row; \<open>row_in\<close> and \<open>row_out\<close> are that action for one timer. A row aggregates a
  list of requests, each given by its pool slot and its timers of the key: it counts the
  requests, sums over all their timers, and its two \<^verbatim>\<open>prev_\<close> fields point at the ends of the
  list.
\<close>

section \<open>One row\<close>

definition row_in ::
  "u64 \<Rightarrow> pinba_std_report \<Rightarrow> u64 \<Rightarrow> tag_labels \<Rightarrow> pinba_timer_record \<Rightarrow> pinba_tag_data option \<Rightarrow> pinba_tag_data" where
  "row_in hs report rid lab timer row =
     tag_row_finish hs report rid
       (case row of None \<Rightarrow> tag_row_new rid lab timer | Some d \<Rightarrow> tag_row_hit d timer) timer"

definition row_out ::
  "u64 \<Rightarrow> pinba_std_report \<Rightarrow> u64 \<Rightarrow> pinba_timer_record \<Rightarrow> pinba_tag_data option \<Rightarrow> pinba_tag_data option" where
  "row_out hs report rid timer row =
     (case row of
        None \<Rightarrow> None
      | Some d \<Rightarrow>
          if tr_req_count (tag_row_uncount rid d) = 0 then None
          else Some (tag_row_sub hs report (tag_row_uncount rid d) timer))"

definition timer_ok :: "pinba_timer_record \<Rightarrow> bool" where
  "timer_ok t \<longleftrightarrow>
     timeval_ok (timer_value t) \<and> timeval_ok (timer_ru_utime t) \<and> timeval_ok (timer_ru_stime t)"

definition timer_slot :: "u64 \<Rightarrow> pinba_std_report \<Rightarrow> pinba_timer_record \<Rightarrow> u64 option" where
  "timer_slot hs report t =
     histogram_slot hs (histogram_max_time report) (histogram_segment report) (timer_value t) (timer_hit_count t)"

definition hits_of :: "(pinba_timer_record \<Rightarrow> u64 option) \<Rightarrow> pinba_timer_record list \<Rightarrow> u64 \<Rightarrow> u64" where
  "hits_of slot ts = (\<lambda>s. \<Sum>t \<leftarrow> filter (\<lambda>t. slot t = Some s) ts. word_of_int (timer_hit_count t))"

definition tag_sums :: "u64 \<Rightarrow> pinba_std_report \<Rightarrow> pinba_tag_data \<Rightarrow> pinba_timer_record list \<Rightarrow> bool" where
  "tag_sums hs report d ts \<longleftrightarrow>
     tr_hit_count d = (\<Sum>t \<leftarrow> ts. word_of_int (timer_hit_count t)) \<and>
     tr_value d = usec_sum timer_value ts \<and> tr_utime d = usec_sum timer_ru_utime ts \<and>
     tr_stime d = usec_sum timer_ru_stime ts \<and> hist_wf (tr_histogram d) \<and>
     hist_get (tr_histogram d) = hits_of (timer_slot hs report) ts"

lemma hits_of_Nil [simp]: "hits_of slot [] = (\<lambda>_. 0)"
  by (simp add: hits_of_def)

lemma hits_of_add:
  "hist_add (hits_of slot ts) (slot t) (word_of_int (timer_hit_count t)) = hits_of slot (ts @ [t])"
  by (auto simp: hits_of_def hist_add_def fun_eq_iff split: option.splits)

lemma hits_of_sub:
  "hist_add (hits_of slot (t # ts)) (slot t) (- word_of_int (timer_hit_count t)) = hits_of slot ts"
  by (auto simp: hits_of_def hist_add_def fun_eq_iff split: option.splits)

lemma usec_sum_single: "timeval_ok (f t) \<Longrightarrow> usec_sum f [t] = f t"
  by (simp add: usec_sum_def)

lemma timeradd_null: "timeval_ok a \<Longrightarrow> pinba_timeradd null_timeval a = a"
  by (simp add: timeval_eq_iff)

lemma hist_get_update_ex:
  "hist_wf hg \<Longrightarrow>
   hist_get (PINBA_UPDATE_HISTOGRAM_ADD_EX hs report hg (timer_value t) (timer_hit_count t)) =
     hist_add (hist_get hg) (timer_slot hs report t) (word_of_int (timer_hit_count t))"
  "hist_wf hg \<Longrightarrow>
   hist_get (PINBA_UPDATE_HISTOGRAM_DEL_EX hs report hg (timer_value t) (timer_hit_count t)) =
     hist_add (hist_get hg) (timer_slot hs report t) (- word_of_int (timer_hit_count t))"
  by (simp_all add: PINBA_UPDATE_HISTOGRAM_ADD_EX_def PINBA_UPDATE_HISTOGRAM_DEL_EX_def hist_get_update
      timer_slot_def histogram_slot_uminus)

lemma hist_wf_update_ex [simp]:
  "hist_wf hg \<Longrightarrow> hist_wf (PINBA_UPDATE_HISTOGRAM_ADD_EX hs report hg time n)"
  "hist_wf hg \<Longrightarrow> hist_wf (PINBA_UPDATE_HISTOGRAM_DEL_EX hs report hg time n)"
  by (simp_all add: PINBA_UPDATE_HISTOGRAM_ADD_EX_def PINBA_UPDATE_HISTOGRAM_DEL_EX_def)

lemma tag_sums_new:
  "timer_ok t \<Longrightarrow> tag_sums hs report (row_in hs report rid lab t None) [t]"
  using hits_of_add [of "timer_slot hs report" "[]" t]
  by (simp add: tag_sums_def row_in_def tag_row_finish_def tag_row_new_def Let_def usec_sum_single
      timeradd_null timer_ok_def hist_get_update_ex)

lemma tag_sums_hit:
  assumes "tag_sums hs report d ts" and "timer_ok t"
  shows "tag_sums hs report (row_in hs report rid lab t (Some d)) (ts @ [t])"
  using assms hits_of_add [of "timer_slot hs report" ts t]
  by (simp add: tag_sums_def row_in_def tag_row_finish_def tag_row_hit_def Let_def usec_sum_add
      timer_ok_def hist_get_update_ex)

lemma tag_sums_sub:
  assumes "tag_sums hs report d (t # ts)" and "timer_ok t"
  shows "tag_sums hs report (tag_row_sub hs report d t) ts"
  using assms hits_of_sub [of "timer_slot hs report" t ts]
  by (simp add: tag_sums_def tag_row_sub_def usec_sum_sub timer_ok_def hist_get_update_ex)

section \<open>A row and the requests it aggregates\<close>

type_synonym slot_timers = "u64 \<times> pinba_timer_record list"

definition tagrow_agg :: "u64 \<Rightarrow> pinba_std_report \<Rightarrow> pinba_tag_data \<Rightarrow> slot_timers list \<Rightarrow> bool" where
  "tagrow_agg hs report d ws \<longleftrightarrow>
     tr_req_count d = of_nat (length ws) \<and> tag_sums hs report d (concat (map snd ws)) \<and>
     tr_prev_add d = fst (last ws) \<and> tr_prev_del d \<noteq> fst (hd ws)"

definition tagrow_ok ::
  "u64 \<Rightarrow> pinba_std_report \<Rightarrow> (tag_labels \<Rightarrow> bool) \<Rightarrow> pinba_tag_data option \<Rightarrow> slot_timers list \<Rightarrow> bool" where
  "tagrow_ok hs report labs row ws \<longleftrightarrow>
     (case row of
        None \<Rightarrow> ws = []
      | Some d \<Rightarrow> ws \<noteq> [] \<and> tagrow_agg hs report d ws \<and> labs (tr_labels d))"

definition in_all ::
  "u64 \<Rightarrow> pinba_std_report \<Rightarrow> u64 \<Rightarrow> (tag_labels \<times> pinba_timer_record) list \<Rightarrow>
   pinba_tag_data option \<Rightarrow> pinba_tag_data option" where
  "in_all hs report rid its row = fold (\<lambda>(lab, t) row. Some (row_in hs report rid lab t row)) its row"

definition out_all ::
  "u64 \<Rightarrow> pinba_std_report \<Rightarrow> u64 \<Rightarrow> pinba_timer_record list \<Rightarrow> pinba_tag_data option \<Rightarrow> pinba_tag_data option" where
  "out_all hs report rid ts row = fold (row_out hs report rid) ts row"

lemma row_in_fields:
  "tr_prev_add (row_in hs report rid lab t row) = rid"
  "tr_labels (row_in hs report rid lab t row) = (case row of None \<Rightarrow> lab | Some d \<Rightarrow> tr_labels d)"
  "tr_prev_del (row_in hs report rid lab t row) = (case row of None \<Rightarrow> - 1 | Some d \<Rightarrow> tr_prev_del d)"
  "tr_req_count (row_in hs report rid lab t row) =
     (case row of None \<Rightarrow> 1 | Some d \<Rightarrow> if tr_prev_add d = rid then tr_req_count d else tr_req_count d + 1)"
  by (auto simp: row_in_def tag_row_finish_def tag_row_new_def tag_row_hit_def Let_def split: option.splits)

text \<open>Further timers of the request that was added last.\<close>

lemma in_all_more:
  assumes "tagrow_agg hs report d (ws @ [(rid, ts)])" and "list_all (\<lambda>(lab, t). timer_ok t) its"
    and "ts \<noteq> []"
  shows "\<exists>d'. in_all hs report rid its (Some d) = Some d' \<and>
           tagrow_agg hs report d' (ws @ [(rid, ts @ map snd its)]) \<and> tr_labels d' = tr_labels d"
  using assms
proof (induction its arbitrary: d ts)
  case Nil
  then show ?case by (simp add: in_all_def)
next
  case (Cons it its)
  obtain lab t where it: "it = (lab, t)" by (cases it)
  have "tagrow_agg hs report (row_in hs report rid lab t (Some d)) (ws @ [(rid, ts @ [t])])"
    using Cons.prems(1,2) tag_sums_hit [of hs report d "concat (map snd ws) @ ts" t rid lab]
    by (cases "ws = []") (simp_all add: tagrow_agg_def row_in_fields it)
  then obtain d' where "in_all hs report rid its (Some (row_in hs report rid lab t (Some d))) = Some d'"
    "tagrow_agg hs report d' (ws @ [(rid, (ts @ [t]) @ map snd its)])"
    "tr_labels d' = tr_labels (row_in hs report rid lab t (Some d))"
    using Cons.IH [of "row_in hs report rid lab t (Some d)" "ts @ [t]"] Cons.prems(2) by (auto simp: it)
  then show ?case by (simp add: in_all_def it row_in_fields)
qed

lemma tagrow_ok_in:
  assumes row: "tagrow_ok hs report labs row ws" and ok: "list_all (\<lambda>(lab, t). timer_ok t \<and> labs lab) its"
    and its: "its \<noteq> []" and fresh: "rid \<notin> fst ` set ws" and rid: "rid \<noteq> - 1"
  shows "tagrow_ok hs report labs (in_all hs report rid its row) (ws @ [(rid, map snd its)])"
proof -
  obtain lab t its' where it: "its = (lab, t) # its'" using its by (cases its) auto
  let ?d = "row_in hs report rid lab t row"
  have agg: "tagrow_agg hs report ?d (ws @ [(rid, [t])])"
  proof (cases row)
    case None
    then show ?thesis
      using row ok rid tag_sums_new [of t hs report rid lab]
      by (simp add: tagrow_ok_def tagrow_agg_def row_in_fields it)
  next
    case (Some d)
    then have "tr_prev_add d \<noteq> rid" and "hd (ws @ [(rid, [t])]) = hd ws"
      using row fresh by (auto simp: tagrow_ok_def tagrow_agg_def image_iff)
    then show ?thesis
      using Some row ok tag_sums_hit [of hs report d "concat (map snd ws)" t rid lab]
      by (simp add: tagrow_ok_def tagrow_agg_def row_in_fields it)
  qed
  have "labs (tr_labels ?d)"
    using row ok by (auto simp: row_in_fields tagrow_ok_def it split: option.splits)
  moreover have "list_all (\<lambda>(lab, t). timer_ok t) its'" using ok by (auto simp: it list_all_iff)
  ultimately show ?thesis
    using in_all_more [OF agg, of its'] by (auto simp: tagrow_ok_def in_all_def it)
qed

text \<open>Timers of a request that has been uncounted already.\<close>

lemma out_all_more:
  assumes "tag_sums hs report d (ts @ rest)" and "list_all timer_ok ts"
    and "tr_prev_del d = rid" and "tr_req_count d \<noteq> 0"
  shows "\<exists>d'. out_all hs report rid ts (Some d) = Some d' \<and> tag_sums hs report d' rest \<and>
           tr_req_count d' = tr_req_count d \<and> tr_prev_add d' = tr_prev_add d \<and>
           tr_prev_del d' = rid \<and> tr_labels d' = tr_labels d"
  using assms
proof (induction ts arbitrary: d)
  case Nil
  then show ?case by (simp add: out_all_def)
next
  case (Cons t ts)
  have "row_out hs report rid t (Some d) = Some (tag_row_sub hs report d t)"
    using Cons.prems(3,4) by (simp add: row_out_def tag_row_uncount_def)
  moreover have "tag_sums hs report (tag_row_sub hs report d t) (ts @ rest)"
    using Cons.prems(1,2) tag_sums_sub [of hs report d t "ts @ rest"] by simp
  ultimately show ?case
    using Cons.IH [of "tag_row_sub hs report d t"] Cons.prems(2-4)
    by (auto simp: out_all_def tag_row_sub_def)
qed

lemma out_all_None: "out_all hs report rid ts None = None"
  by (induction ts) (simp_all add: out_all_def row_out_def)

lemma tagrow_ok_out:
  assumes row: "tagrow_ok hs report labs row ((rid, ts) # ws)" and ok: "list_all timer_ok ts"
    and ts: "ts \<noteq> []" and fresh: "rid \<notin> fst ` set ws" and len: "length ws < 2 ^ 63"
  shows "tagrow_ok hs report labs (out_all hs report rid ts row) ws"
proof -
  obtain d where d: "row = Some d" "tagrow_agg hs report d ((rid, ts) # ws)" "labs (tr_labels d)"
    using row by (auto simp: tagrow_ok_def split: option.splits)
  obtain t ts' where t: "ts = t # ts'" using ts by (cases ts) auto
  let ?u = "tag_row_uncount rid d"
  have u: "tr_req_count ?u = of_nat (length ws)" "tr_prev_del ?u = rid" "tr_prev_add ?u = tr_prev_add d"
    "tr_labels ?u = tr_labels d" "tag_sums hs report ?u (ts @ concat (map snd ws))"
    using d(2) by (auto simp: tag_row_uncount_def tagrow_agg_def tag_sums_def)
  show ?thesis
  proof (cases "ws = []")
    case True
    then have "row_out hs report rid t row = None" using u(1) d(1) by (simp add: row_out_def)
    then show ?thesis
      using True out_all_None [of hs report rid ts'] by (simp add: tagrow_ok_def out_all_def t)
  next
    case False
    have nz: "tr_req_count ?u \<noteq> 0"
      using u(1) len False of_nat_word64_eq_0_iff [of "length ws"] by simp
    have "row_out hs report rid t row = row_out hs report rid t (Some ?u)"
      using d(1) by (simp add: row_out_def tag_row_uncount_def)
    then have "out_all hs report rid ts row = out_all hs report rid ts (Some ?u)"
      by (simp add: out_all_def t)
    moreover obtain d' where "out_all hs report rid ts (Some ?u) = Some d'"
      "tag_sums hs report d' (concat (map snd ws))" "tr_req_count d' = tr_req_count ?u"
      "tr_prev_add d' = tr_prev_add ?u" "tr_prev_del d' = rid" "tr_labels d' = tr_labels ?u"
      using out_all_more [OF u(5) ok u(2) nz] by blast
    moreover have "rid \<noteq> fst (hd ws)" using fresh False by auto
    ultimately show ?thesis
      using d u False by (simp add: tagrow_ok_def tagrow_agg_def)
  qed
qed

section \<open>The table\<close>

definition tag_table_add ::
  "('m \<Rightarrow> 'k \<Rightarrow> pinba_tag_data option) \<Rightarrow> ('m \<Rightarrow> 'k \<Rightarrow> pinba_tag_data \<Rightarrow> 'm) \<Rightarrow> u64 \<Rightarrow> u64 \<Rightarrow>
   ('k \<times> tag_labels) option \<Rightarrow> pinba_timer_record \<Rightarrow> 'm pinba_tag_report \<Rightarrow> 'm pinba_tag_report" where
  "tag_table_add tget tadd hs rid key t R =
     (case key of
        None \<Rightarrow> R
      | Some (k, lab) \<Rightarrow>
          tag_put R (tadd (tg_results R) k (row_in hs (tg_std R) rid lab t (tget (tg_results R) k)))
            (case tget (tg_results R) k of None \<Rightarrow> 1 | Some _ \<Rightarrow> 0))"

definition tag_table_del ::
  "('m \<Rightarrow> 'k \<Rightarrow> pinba_tag_data option) \<Rightarrow> ('m \<Rightarrow> 'k \<Rightarrow> pinba_tag_data \<Rightarrow> 'm) \<Rightarrow> ('m \<Rightarrow> 'k \<Rightarrow> 'm) \<Rightarrow> u64 \<Rightarrow> u64 \<Rightarrow>
   ('k \<times> tag_labels) option \<Rightarrow> pinba_timer_record \<Rightarrow> 'm pinba_tag_report \<Rightarrow> 'm pinba_tag_report" where
  "tag_table_del tget tadd tdel hs rid key t R =
     (case key of
        None \<Rightarrow> R
      | Some (k, lab) \<Rightarrow>
          (case tget (tg_results R) k of
             None \<Rightarrow> R
           | Some d \<Rightarrow>
               (case row_out hs (tg_std R) rid t (Some d) of
                  None \<Rightarrow> tag_put R (tdel (tg_results R) k) (- 1)
                | Some d' \<Rightarrow> tag_put R (tadd (tg_results R) k d') 0)))"

definition script_key :: "string \<Rightarrow> (string \<times> tag_labels) option \<Rightarrow> ((string \<times> string) \<times> tag_labels) option" where
  "script_key script key = map_option (\<lambda>(i, l). ((script, i), l)) key"

lemma flat_timer_add_eq:
  "tag_flat_timer_add hs True rid key t R = tag_table_add pinba_map_get pinba_map_add hs rid key t R"
  by (auto simp: tag_flat_timer_add_def tag_table_add_def row_in_def split: option.splits)

lemma flat_timer_delete_eq:
  "tag_flat_timer_delete hs rid key t R =
     tag_table_del pinba_map_get pinba_map_add (\<lambda>m k. fst (pinba_map_delete m k)) hs rid key t R"
  by (auto simp: tag_flat_timer_delete_def tag_table_del_def row_out_def Let_def split: option.splits)

lemma script_timer_add_eq:
  "tag_script_timer_add hs True rid script key t R =
     tag_table_add nested_get nested_add hs rid (script_key script key) t R"
  by (auto simp: tag_script_timer_add_def tag_table_add_def row_in_def script_key_def Let_def
      get_nested_inner nested_add_def tag_put_def split: option.splits)

lemma script_timer_delete_eq:
  "tag_script_timer_delete hs rid script key t R =
     tag_table_del nested_get nested_add nested_del hs rid (script_key script key) t R"
  by (auto simp: tag_script_timer_delete_def tag_table_del_def row_out_def script_key_def Let_def
      nested_get_def nested_add_def nested_del_def nested_create_def nested_inner_def split_beta
      split: option.splits)

text \<open>The loops, over the list of keys and timers of the request.\<close>

definition table_adds where
  "table_adds tget tadd hs rid its R = fold (\<lambda>(key, t). tag_table_add tget tadd hs rid key t) its R"

definition table_dels where
  "table_dels tget tadd tdel hs rid its R = fold (\<lambda>(key, t). tag_table_del tget tadd tdel hs rid key t) its R"

lemma tag_put_sel [simp]:
  "tg_results (tag_put R m n) = m" "tg_tag_id (tag_put R m n) = tg_tag_id R"
  "tg_words (tag_put R m n) = tg_words R"
  "tg_std (tag_put R m n) = (tg_std R)\<lparr>results_cnt := results_cnt (tg_std R) + n\<rparr>"
  by (simp_all add: tag_put_def)

lemma tag_sums_cnt [simp]: "tag_sums hs (report\<lparr>results_cnt := n\<rparr>) = tag_sums hs report"
  by (simp add: fun_eq_iff tag_sums_def timer_slot_def [abs_def])

lemma row_in_cnt [simp]: "row_in hs (report\<lparr>results_cnt := n\<rparr>) = row_in hs report"
  by (simp add: fun_eq_iff row_in_def tag_row_finish_def PINBA_UPDATE_HISTOGRAM_ADD_EX_def)

lemma row_out_cnt [simp]: "row_out hs (report\<lparr>results_cnt := n\<rparr>) = row_out hs report"
  by (simp add: fun_eq_iff row_out_def tag_row_sub_def PINBA_UPDATE_HISTOGRAM_DEL_EX_def split: option.splits)

lemma tagrow_ok_cnt [simp]: "tagrow_ok hs (report\<lparr>results_cnt := n\<rparr>) = tagrow_ok hs report"
  by (simp add: fun_eq_iff tagrow_ok_def tagrow_agg_def split: option.splits)

definition key_is :: "'k \<Rightarrow> ('k \<times> tag_labels) option \<times> pinba_timer_record \<Rightarrow> bool" where
  "key_is k it \<longleftrightarrow> map_option fst (fst it) = Some k"

definition lab_of :: "('k \<times> tag_labels) option \<Rightarrow> tag_labels" where
  "lab_of key = snd (the key)"

definition same_config :: "'m pinba_tag_report \<Rightarrow> 'm pinba_tag_report \<Rightarrow> bool" where
  "same_config R S \<longleftrightarrow>
     tg_tag_id R = tg_tag_id S \<and> (\<exists>n. tg_std R = (tg_std S)\<lparr>results_cnt := n\<rparr>)"

lemma same_config_refl [simp]: "same_config R R"
  unfolding same_config_def by (intro conjI refl exI [of _ "results_cnt (tg_std R)"]) simp

lemma same_config_put [simp]: "same_config (tag_put R m n) S \<longleftrightarrow> same_config R S"
proof
  assume "same_config (tag_put R m n) S"
  then obtain k where "tg_tag_id R = tg_tag_id S"
    and e: "(tg_std R)\<lparr>results_cnt := results_cnt (tg_std R) + n\<rparr> = (tg_std S)\<lparr>results_cnt := k\<rparr>"
    by (auto simp: same_config_def)
  moreover have "tg_std R = ((tg_std R)\<lparr>results_cnt := results_cnt (tg_std R) + n\<rparr>)\<lparr>results_cnt := results_cnt (tg_std R)\<rparr>"
    by simp
  ultimately have "tg_std R = (tg_std S)\<lparr>results_cnt := results_cnt (tg_std R)\<rparr>" by simp
  then show "same_config R S" using \<open>tg_tag_id R = tg_tag_id S\<close> unfolding same_config_def by blast
qed (auto simp: same_config_def)

lemma table_adds_row:
  assumes T: "keyed_table tget tadd tdel tcount tinv tnull" and inv: "tinv (tg_results R)"
    and cnt: "results_cnt (tg_std R) = of_nat (tcount (tg_results R))"
  shows "tinv (tg_results (table_adds tget tadd hs rid its R)) \<and>
     results_cnt (tg_std (table_adds tget tadd hs rid its R)) =
       of_nat (tcount (tg_results (table_adds tget tadd hs rid its R))) \<and>
     same_config (table_adds tget tadd hs rid its R) R \<and>
     tget (tg_results (table_adds tget tadd hs rid its R)) k =
       in_all hs (tg_std R) rid (map (\<lambda>(key, t). (lab_of key, t)) (filter (key_is k) its)) (tget (tg_results R) k)"
  using inv cnt
proof (induction its arbitrary: R)
  case Nil
  then show ?case by (simp add: table_adds_def in_all_def)
next
  case (Cons it its)
  obtain key t where it: "it = (key, t)" by (cases it)
  let ?R = "tag_table_add tget tadd hs rid key t R"
  have step: "tinv (tg_results ?R)" "results_cnt (tg_std ?R) = of_nat (tcount (tg_results ?R))"
    "same_config ?R R" "in_all hs (tg_std ?R) = in_all hs (tg_std R)"
    using Cons.prems keyed_table.inv_add [OF T Cons.prems(1)]
      keyed_table.count_add_new [OF T Cons.prems(1)] keyed_table.count_add_old [OF T Cons.prems(1)]
    by (auto simp: tag_table_add_def in_all_def fun_eq_iff split: option.splits)
  have "tget (tg_results ?R) k = (if key_is k it then Some (row_in hs (tg_std R) rid (lab_of key) t (tget (tg_results R) k))
      else tget (tg_results R) k)"
    using keyed_table.get_add [OF T Cons.prems(1)]
    by (auto simp: tag_table_add_def key_is_def it lab_of_def split: option.splits)
  moreover have "same_config (table_adds tget tadd hs rid its ?R) R"
    using Cons.IH [OF step(1,2)] step(3) by (auto simp: same_config_def)
  ultimately show ?case
    using Cons.IH [OF step(1,2)] step(4) by (auto simp: table_adds_def in_all_def it)
qed

lemma table_dels_row:
  assumes T: "keyed_table tget tadd tdel tcount tinv tnull" and inv: "tinv (tg_results R)"
    and cnt: "results_cnt (tg_std R) = of_nat (tcount (tg_results R))"
  shows "tinv (tg_results (table_dels tget tadd tdel hs rid its R)) \<and>
     results_cnt (tg_std (table_dels tget tadd tdel hs rid its R)) =
       of_nat (tcount (tg_results (table_dels tget tadd tdel hs rid its R))) \<and>
     same_config (table_dels tget tadd tdel hs rid its R) R \<and>
     tget (tg_results (table_dels tget tadd tdel hs rid its R)) k =
       out_all hs (tg_std R) rid (map snd (filter (key_is k) its)) (tget (tg_results R) k)"
  using inv cnt
proof (induction its arbitrary: R)
  case Nil
  then show ?case by (simp add: table_dels_def out_all_def)
next
  case (Cons it its)
  obtain key t where it: "it = (key, t)" by (cases it)
  let ?R = "tag_table_del tget tadd tdel hs rid key t R"
  have step: "tinv (tg_results ?R)" "results_cnt (tg_std ?R) = of_nat (tcount (tg_results ?R))"
    "same_config ?R R" "out_all hs (tg_std ?R) = out_all hs (tg_std R)"
    using Cons.prems keyed_table.inv_add [OF T Cons.prems(1)] keyed_table.inv_del [OF T Cons.prems(1)]
      count_pred [OF keyed_table.count_del_old [OF T Cons.prems(1)]]
      keyed_table.count_add_old [OF T Cons.prems(1)]
    by (auto simp: tag_table_del_def out_all_def fun_eq_iff split: option.splits)
  have "tget (tg_results ?R) k = (if key_is k it then row_out hs (tg_std R) rid t (tget (tg_results R) k)
      else tget (tg_results R) k)"
    using keyed_table.get_add [OF T Cons.prems(1)] keyed_table.get_del [OF T Cons.prems(1)]
    by (auto simp: tag_table_del_def key_is_def it row_out_def split: option.splits)
  moreover have "same_config (table_dels tget tadd tdel hs rid its ?R) R"
    using Cons.IH [OF step(1,2)] step(3) by (auto simp: same_config_def)
  ultimately show ?case
    using Cons.IH [OF step(1,2)] step(4) by (auto simp: table_dels_def out_all_def it)
qed

section \<open>The window\<close>

text \<open>
  A request in the window of a timer-tag report: its pool slot, its record and its timers.
  \<open>K\<close> gives the key and labels of a timer; \<open>timers_of K k\<close> keeps of each request the timers
  with key \<open>k\<close>, and drops the requests that have none.
\<close>

type_synonym slot_request = "u64 \<times> pinba_stats_record \<times> pinba_timer_record list"

type_synonym 'k key_spec = "pinba_stats_record \<Rightarrow> pinba_timer_record \<Rightarrow> ('k \<times> tag_labels) option"

definition items :: "'k key_spec \<Rightarrow> pinba_stats_record \<Rightarrow> pinba_timer_record list \<Rightarrow>
    (('k \<times> tag_labels) option \<times> pinba_timer_record) list" where
  "items K record ts = map (\<lambda>t. (K record t, t)) ts"

definition with_key :: "'k key_spec \<Rightarrow> 'k \<Rightarrow> slot_request \<Rightarrow> slot_timers" where
  "with_key K k r =
     (case r of (rid, record, ts) \<Rightarrow> (rid, filter (\<lambda>t. map_option fst (K record t) = Some k) ts))"

definition timers_of :: "'k key_spec \<Rightarrow> 'k \<Rightarrow> slot_request list \<Rightarrow> slot_timers list" where
  "timers_of K k ws = filter (\<lambda>(rid, ts). ts \<noteq> []) (map (with_key K k) ws)"

definition tag_models ::
  "('m \<Rightarrow> 'k \<Rightarrow> pinba_tag_data option) \<Rightarrow> ('m \<Rightarrow> nat) \<Rightarrow> ('m \<Rightarrow> bool) \<Rightarrow> 'k key_spec \<Rightarrow> u64 \<Rightarrow>
   'm pinba_tag_report \<Rightarrow> slot_request list \<Rightarrow> bool" where
  "tag_models tget tcount tinv K hs R ws \<longleftrightarrow>
     tinv (tg_results R) \<and> results_cnt (tg_std R) = of_nat (tcount (tg_results R)) \<and>
     length (tg_words R) = length (tg_tag_id R) \<and>
     (\<forall>k. tagrow_ok hs (tg_std R) (\<lambda>l. \<exists>record t. K record t = Some (k, l))
            (tget (tg_results R) k) (timers_of K k ws))"

lemma filter_items:
  "map snd (filter (key_is k) (items K record ts)) = filter (\<lambda>t. map_option fst (K record t) = Some k) ts"
  by (induction ts) (auto simp: items_def key_is_def)

lemma timers_of_snoc:
  "timers_of K k (ws @ [(rid, record, ts)]) =
     timers_of K k ws @
       (if map snd (filter (key_is k) (items K record ts)) = [] then []
        else [(rid, map snd (filter (key_is k) (items K record ts)))])"
  unfolding filter_items by (simp add: timers_of_def with_key_def)

lemma timers_of_Cons:
  "timers_of K k ((rid, record, ts) # ws) =
     (if map snd (filter (key_is k) (items K record ts)) = [] then []
      else [(rid, map snd (filter (key_is k) (items K record ts)))]) @ timers_of K k ws"
  unfolding filter_items by (simp add: timers_of_def with_key_def)

lemma timers_of_slots: "fst ` set (timers_of K k ws) \<subseteq> fst ` set ws"
  by (force simp: timers_of_def with_key_def split: prod.splits)

lemma timers_of_length: "length (timers_of K k ws) \<le> length ws"
  by (metis length_filter_le length_map timers_of_def)

lemma same_config_std:
  "same_config R S \<Longrightarrow> tagrow_ok hs (tg_std R) = tagrow_ok hs (tg_std S)"
  by (auto simp: same_config_def)

lemma tag_models_add:
  assumes T: "keyed_table tget tadd tdel tcount tinv tnull"
    and m: "tag_models tget tcount tinv K hs R ws" and ok: "list_all timer_ok ts"
    and fresh: "rid \<notin> fst ` set ws" and rid: "rid \<noteq> - 1"
  shows "tag_models tget tcount tinv K hs
     ((table_adds tget tadd hs rid (items K record ts) R)\<lparr>tg_words := tg_words R\<rparr>) (ws @ [(rid, record, ts)])"
proof -
  let ?its = "items K record ts" and ?R = "table_adds tget tadd hs rid (items K record ts) R"
  have inv: "tinv (tg_results R)" "results_cnt (tg_std R) = of_nat (tcount (tg_results R))"
    using m by (auto simp: tag_models_def)
  note row = table_adds_row [OF T inv, of hs rid ?its]
  have "tagrow_ok hs (tg_std ?R) (\<lambda>l. \<exists>record t. K record t = Some (k, l))
      (tget (tg_results ?R) k) (timers_of K k (ws @ [(rid, record, ts)]))" for k
  proof -
    let ?labs = "\<lambda>l. \<exists>record t. K record t = Some (k, l)"
    let ?f = "map (\<lambda>(key, t). (lab_of key, t)) (filter (key_is k) ?its)"
    have old: "tagrow_ok hs (tg_std R) ?labs (tget (tg_results R) k) (timers_of K k ws)"
      using m by (simp add: tag_models_def)
    have ms: "map snd ?f = map snd (filter (key_is k) ?its)" by (simp add: split_beta comp_def)
    have "list_all (\<lambda>(lab, t). timer_ok t \<and> ?labs lab) ?f"
      using ok unfolding list_all_iff items_def key_is_def lab_of_def by clarsimp (metis option.sel snd_conv)
    moreover have "rid \<notin> fst ` set (timers_of K k ws)" using fresh timers_of_slots [of K k ws] by (rule contra_subsetD [rotated])
    ultimately have "tagrow_ok hs (tg_std R) ?labs (in_all hs (tg_std R) rid ?f (tget (tg_results R) k))
        (timers_of K k (ws @ [(rid, record, ts)]))"
      using old tagrow_ok_in [OF old, of ?f rid, unfolded ms] rid
      by (cases "filter (key_is k) ?its = []") (simp_all add: timers_of_snoc in_all_def)
    then show ?thesis using row same_config_std [of ?R R hs] by simp
  qed
  then show ?thesis using row m by (simp add: tag_models_def same_config_def)
qed

lemma tag_models_del:
  assumes T: "keyed_table tget tadd tdel tcount tinv tnull"
    and m: "tag_models tget tcount tinv K hs R ((rid, record, ts) # ws)" and ok: "list_all timer_ok ts"
    and fresh: "rid \<notin> fst ` set ws" and len: "length ws < 2 ^ 63"
  shows "tag_models tget tcount tinv K hs
     ((table_dels tget tadd tdel hs rid (items K record ts) R)\<lparr>tg_words := tg_words R\<rparr>) ws"
proof -
  let ?its = "items K record ts" and ?R = "table_dels tget tadd tdel hs rid (items K record ts) R"
  have inv: "tinv (tg_results R)" "results_cnt (tg_std R) = of_nat (tcount (tg_results R))"
    using m by (auto simp: tag_models_def)
  note row = table_dels_row [OF T inv, of hs rid ?its]
  have "tagrow_ok hs (tg_std ?R) (\<lambda>l. \<exists>record t. K record t = Some (k, l))
      (tget (tg_results ?R) k) (timers_of K k ws)" for k
  proof -
    let ?labs = "\<lambda>l. \<exists>record t. K record t = Some (k, l)"
    let ?f = "map snd (filter (key_is k) ?its)"
    have old: "tagrow_ok hs (tg_std R) ?labs (tget (tg_results R) k) (timers_of K k ((rid, record, ts) # ws))"
      using m by (simp add: tag_models_def)
    have "list_all timer_ok ?f" using ok by (auto simp: list_all_iff items_def)
    moreover have "rid \<notin> fst ` set (timers_of K k ws)" using fresh timers_of_slots [of K k ws] by (rule contra_subsetD [rotated])
    moreover have "length (timers_of K k ws) < 2 ^ 63"
      using len timers_of_length [of K k ws] by linarith
    ultimately have "tagrow_ok hs (tg_std R) ?labs (out_all hs (tg_std R) rid ?f (tget (tg_results R) k))
        (timers_of K k ws)"
      using old tagrow_ok_out [of hs "tg_std R" ?labs "tget (tg_results R) k" rid ?f "timers_of K k ws"]
      by (cases "?f = []") (simp_all add: timers_of_Cons out_all_def)
    then show ?thesis using row same_config_std [of ?R R hs] by simp
  qed
  then show ?thesis using row m by (simp add: tag_models_def same_config_def)
qed

lemma tag_models_words:
  assumes "tag_models tget tcount tinv K hs (S\<lparr>tg_words := tg_words R\<rparr>) ws"
    and "R' = S\<lparr>tg_words := w\<rparr>" and "length w = length (tg_words R)"
  shows "tag_models tget tcount tinv K hs R' ws"
  using assms by (simp add: tag_models_def)

lemma same_config_ids: "same_config R S \<Longrightarrow> tg_tag_id R = tg_tag_id S"
  by (simp add: same_config_def)

section \<open>The loops of the code\<close>

text \<open>
  A key function agrees with the specification \<open>K\<close> on a timer if the key does not depend on
  what the scratch array held before.
\<close>

definition key_agrees ::
  "tag_keyf \<Rightarrow> string key_spec \<Rightarrow> int list \<Rightarrow> pinba_stats_record \<Rightarrow> pinba_timer_record \<Rightarrow> bool" where
  "key_agrees keyf K ids record t \<longleftrightarrow>
     (\<forall>words. length words = length ids \<longrightarrow>
        snd (keyf ids words record t) = K record t \<and> length (fst (keyf ids words record t)) = length ids)"

lemma table_add_words:
  "tag_table_add tget tadd hs rid key t (R\<lparr>tg_words := w\<rparr>) = (tag_table_add tget tadd hs rid key t R)\<lparr>tg_words := w\<rparr>"
  by (auto simp: tag_table_add_def tag_put_def split: option.splits)

lemma table_del_words:
  "tag_table_del tget tadd tdel hs rid key t (R\<lparr>tg_words := w\<rparr>) =
     (tag_table_del tget tadd tdel hs rid key t R)\<lparr>tg_words := w\<rparr>"
  by (auto simp: tag_table_del_def tag_put_def split: option.splits)

lemma table_adds_words:
  "table_adds tget tadd hs rid its (R\<lparr>tg_words := w\<rparr>) = (table_adds tget tadd hs rid its R)\<lparr>tg_words := w\<rparr>"
  by (induction its arbitrary: R) (auto simp: table_adds_def table_add_words)

lemma table_dels_words:
  "table_dels tget tadd tdel hs rid its (R\<lparr>tg_words := w\<rparr>) =
     (table_dels tget tadd tdel hs rid its R)\<lparr>tg_words := w\<rparr>"
  by (induction its arbitrary: R) (auto simp: table_dels_def table_del_words)

lemma table_step_frame [simp]:
  "tg_tag_id (tag_table_add tget tadd hs rid key t R) = tg_tag_id R"
  "tg_words (tag_table_add tget tadd hs rid key t R) = tg_words R"
  "tg_tag_id (tag_table_del tget tadd tdel hs rid key t R) = tg_tag_id R"
  "tg_words (tag_table_del tget tadd tdel hs rid key t R) = tg_words R"
  by (auto simp: tag_table_add_def tag_table_del_def split: option.splits)

definition script_spec :: "string key_spec \<Rightarrow> (string \<times> string) key_spec" where
  "script_spec K record t = script_key (script_name record) (K record t)"

text \<open>A loop whose body does not look at the scratch array is a fold over the keys of \<open>K\<close>.\<close>

lemma for_timers_fold:
  assumes words: "\<And>key t R w. st key t (R\<lparr>tg_words := w\<rparr>) = (st key t R)\<lparr>tg_words := w\<rparr>"
    and frame: "\<And>key t R. tg_tag_id (st key t R) = tg_tag_id R"
    and "\<forall>t \<in> set ts. key_agrees keyf K (tg_tag_id R) record t"
    and "length (tg_words R) = length (tg_tag_id R)"
  shows "\<exists>w. length w = length (tg_tag_id R) \<and>
     for_timers keyf (\<lambda>i. st) record i ts R =
       (fold (\<lambda>(key, t). st key t) (items K record ts) R)\<lparr>tg_words := w\<rparr>"
  using assms(3,4)
proof (induction ts arbitrary: R i)
  case Nil
  then show ?case by (intro exI [of _ "tg_words R"]) (simp add: items_def)
next
  case (Cons t ts)
  obtain w where k: "keyf (tg_tag_id R) (tg_words R) record t = (w, K record t)"
    and w: "length w = length (tg_tag_id R)"
    using Cons.prems by (cases "keyf (tg_tag_id R) (tg_words R) record t") (auto simp: key_agrees_def)
  let ?R = "(st (K record t) t R)\<lparr>tg_words := w\<rparr>"
  have fold_words: "fold (\<lambda>(key, t). st key t) its (R\<lparr>tg_words := w\<rparr>) =
      (fold (\<lambda>(key, t). st key t) its R)\<lparr>tg_words := w\<rparr>" for its R w
    by (induction its arbitrary: R) (auto simp: words)
  have "\<exists>w'. length w' = length (tg_tag_id ?R) \<and> for_timers keyf (\<lambda>i. st) record (Suc i) ts ?R =
      (fold (\<lambda>(key, t). st key t) (items K record ts) ?R)\<lparr>tg_words := w'\<rparr>"
    using Cons.prems(1) w by (intro Cons.IH) (simp_all add: frame)
  then show ?case by (auto simp: k items_def words fold_words frame)
qed

text \<open>The specification of the keys of a report may depend on its tag ids.\<close>

type_synonym id_spec = "int list \<Rightarrow> string key_spec"

definition tag_flat_models :: "id_spec \<Rightarrow> u64 \<Rightarrow> tag_info \<Rightarrow> slot_request list \<Rightarrow> bool" where
  "tag_flat_models K hs R ws =
     tag_models pinba_map_get pinba_map_count map_wf (K (tg_tag_id R)) hs R ws"

definition tag_script_models :: "id_spec \<Rightarrow> u64 \<Rightarrow> tag_report \<Rightarrow> slot_request list \<Rightarrow> bool" where
  "tag_script_models K hs R ws =
     tag_models nested_get nested_count nested_wf (script_spec (K (tg_tag_id R))) hs R ws"

definition tag_adm :: "tag_keyf \<Rightarrow> tag_keyf \<Rightarrow> id_spec \<Rightarrow> 'm pinba_tag_report \<Rightarrow> slot_request \<Rightarrow> bool" where
  "tag_adm keyf keyf' K R r \<longleftrightarrow>
     (case r of (rid, record, ts) \<Rightarrow>
        rid \<noteq> - 1 \<and> \<not> PINBA_REPORT_DELETE_CHECK (tg_std R) record \<and> list_all timer_ok ts \<and>
        list_all (\<lambda>t. key_agrees keyf (K (tg_tag_id R)) (tg_tag_id R) record t \<and>
                      key_agrees keyf' (K (tg_tag_id R)) (tg_tag_id R) record t) ts)"

definition tag_okw ::
  "tag_keyf \<Rightarrow> tag_keyf \<Rightarrow> id_spec \<Rightarrow> 'm pinba_tag_report \<Rightarrow> slot_request list \<Rightarrow> bool" where
  "tag_okw keyf keyf' K R ws \<longleftrightarrow>
     list_all (tag_adm keyf keyf' K R) ws \<and> distinct (map fst ws) \<and> length ws < WINDOW_MAX"

lemma tag_okw_config: "same_config R S \<Longrightarrow> tag_okw keyf keyf' K R = tag_okw keyf keyf' K S"
  by (auto simp: fun_eq_iff same_config_def tag_okw_def tag_adm_def [abs_def])

lemma same_config_words [simp]: "same_config (R\<lparr>tg_words := w\<rparr>) S \<longleftrightarrow> same_config R S"
  by (simp add: same_config_def)

lemma same_config_step:
  "same_config (tag_flat_timer_add hs ok rid key t R) S \<longleftrightarrow> same_config R S"
  "same_config (tag_flat_timer_delete hs rid key t R) S \<longleftrightarrow> same_config R S"
  "same_config (tag_script_timer_add hs ok rid script key t R') S' \<longleftrightarrow> same_config R' S'"
  "same_config (tag_script_timer_delete hs rid script key t R') S' \<longleftrightarrow> same_config R' S'"
  by (auto simp: tag_flat_timer_add_def tag_flat_timer_delete_def tag_script_timer_add_def
      tag_script_timer_delete_def Let_def split_beta split: option.splits)
    (auto simp: same_config_def)

lemma same_config_loop:
  assumes "\<And>i key t R. same_config (body i key t R) S \<longleftrightarrow> same_config R S"
  shows "same_config (for_timers keyf body record i ts R) S \<longleftrightarrow> same_config R S"
  by (induction ts arbitrary: i R) (auto simp: assms split: prod.splits)

lemma step_words:
  "tag_flat_timer_add hs True rid key t (R\<lparr>tg_words := w\<rparr>) = (tag_flat_timer_add hs True rid key t R)\<lparr>tg_words := w\<rparr>"
  "tag_flat_timer_delete hs rid key t (R\<lparr>tg_words := w\<rparr>) = (tag_flat_timer_delete hs rid key t R)\<lparr>tg_words := w\<rparr>"
  "tag_script_timer_add hs True rid script key t (S\<lparr>tg_words := w\<rparr>) = (tag_script_timer_add hs True rid script key t S)\<lparr>tg_words := w\<rparr>"
  "tag_script_timer_delete hs rid script key t (S\<lparr>tg_words := w\<rparr>) = (tag_script_timer_delete hs rid script key t S)\<lparr>tg_words := w\<rparr>"
  by (simp_all add: flat_timer_add_eq flat_timer_delete_eq script_timer_add_eq script_timer_delete_eq
      table_add_words table_del_words)

lemma step_ids:
  "tg_tag_id (tag_flat_timer_add hs True rid key t R) = tg_tag_id R"
  "tg_tag_id (tag_flat_timer_delete hs rid key t R) = tg_tag_id R"
  "tg_tag_id (tag_script_timer_add hs True rid script key t S) = tg_tag_id S"
  "tg_tag_id (tag_script_timer_delete hs rid script key t S) = tg_tag_id S"
  by (simp_all add: flat_timer_add_eq flat_timer_delete_eq script_timer_add_eq script_timer_delete_eq)

lemma step_funs:
  "tag_flat_timer_add hs True rid = tag_table_add pinba_map_get pinba_map_add hs rid"
  "tag_flat_timer_delete hs rid =
     tag_table_del pinba_map_get pinba_map_add (\<lambda>m k. fst (pinba_map_delete m k)) hs rid"
  "tag_script_timer_add hs True rid script =
     (\<lambda>key. tag_table_add nested_get nested_add hs rid (script_key script key))"
  "tag_script_timer_delete hs rid script =
     (\<lambda>key. tag_table_del nested_get nested_add nested_del hs rid (script_key script key))"
  by (simp_all add: fun_eq_iff flat_timer_add_eq flat_timer_delete_eq script_timer_add_eq script_timer_delete_eq)

lemma script_items:
  "fold (\<lambda>(key, t). f (script_key (script_name record) key) t) (items K record ts) R =
   fold (\<lambda>(key, t). f key t) (items (script_spec K) record ts) R"
  by (induction ts arbitrary: R) (simp_all add: items_def script_spec_def)

lemma tag_okw_snocD:
  assumes "tag_okw keyf keyf' K R (ws @ [(rid, record, ts)])"
  shows "list_all timer_ok ts" and "rid \<notin> fst ` set ws" and "rid \<noteq> - 1"
    and "\<forall>t \<in> set ts. key_agrees keyf (K (tg_tag_id R)) (tg_tag_id R) record t"
  using assms by (simp_all add: tag_okw_def tag_adm_def list_all_iff)

lemma tag_okw_ConsD:
  assumes "tag_okw keyf keyf' K R ((rid, record, ts) # ws)"
  shows "list_all timer_ok ts" and "rid \<notin> fst ` set ws" and "length ws < 2 ^ 63"
    and "\<forall>t \<in> set ts. key_agrees keyf' (K (tg_tag_id R)) (tg_tag_id R) record t"
    and "\<not> PINBA_REPORT_DELETE_CHECK (tg_std R) record"
  using assms by (simp_all add: tag_okw_def tag_adm_def list_all_iff WINDOW_MAX_def)

lemma tag_config:
  "same_config (tag_flat_add keyf hs ok rid record ts R) R"
  "same_config (tag_flat_delete keyf hs rid record ts R) R"
  "same_config (tag_script_add keyf hs ok rid record ts S) S"
  "same_config (tag_script_delete keyf hs rid record ts S) S"
  by (simp_all add: tag_flat_add_def tag_flat_delete_def tag_script_add_def tag_script_delete_def
      same_config_loop same_config_step split: option.splits)

lemma tag_flat_models_add:
  assumes m: "tag_flat_models K hs R ws" and ok: "tag_okw keyf keyf' K R (ws @ [(rid, record, ts)])"
  shows "tag_flat_models K hs (tag_flat_add keyf hs (\<lambda>_. True) rid record ts R) (ws @ [(rid, record, ts)])"
proof -
  have len: "length (tg_words R) = length (tg_tag_id R)"
    using m by (simp add: tag_flat_models_def tag_models_def)
  note ag = tag_okw_snocD(4) [OF ok]
  obtain w where w: "length w = length (tg_tag_id R)"
    and e: "tag_flat_add keyf hs (\<lambda>_. True) rid record ts R =
      (table_adds pinba_map_get pinba_map_add hs rid (items (K (tg_tag_id R)) record ts) R)\<lparr>tg_words := w\<rparr>"
    using for_timers_fold [where st = "tag_flat_timer_add hs True rid" and i = 0, OF step_words(1) step_ids(1) ag len]
    by (auto simp: tag_flat_add_def table_adds_def step_funs)
  have "tag_models pinba_map_get pinba_map_count map_wf (K (tg_tag_id R)) hs
     ((table_adds pinba_map_get pinba_map_add hs rid (items (K (tg_tag_id R)) record ts) R)\<lparr>tg_words := tg_words R\<rparr>)
     (ws @ [(rid, record, ts)])"
    by (rule tag_models_add [OF smap.keyed_table_axioms m [unfolded tag_flat_models_def] tag_okw_snocD(1-3) [OF ok]])
  then have "tag_models pinba_map_get pinba_map_count map_wf (K (tg_tag_id R)) hs
     (tag_flat_add keyf hs (\<lambda>_. True) rid record ts R) (ws @ [(rid, record, ts)])"
    by (rule tag_models_words [OF _ e]) (simp add: w len)
  then show ?thesis by (simp add: tag_flat_models_def same_config_ids [OF tag_config(1)])
qed

lemma tag_script_models_add:
  assumes m: "tag_script_models K hs R ws" and ok: "tag_okw keyf keyf' K R (ws @ [(rid, record, ts)])"
  shows "tag_script_models K hs (tag_script_add keyf hs (\<lambda>_. True) rid record ts R) (ws @ [(rid, record, ts)])"
proof -
  let ?K = "script_spec (K (tg_tag_id R))"
  have len: "length (tg_words R) = length (tg_tag_id R)"
    using m by (simp add: tag_script_models_def tag_models_def)
  note ag = tag_okw_snocD(4) [OF ok]
  obtain w where w: "length w = length (tg_tag_id R)"
    and e: "tag_script_add keyf hs (\<lambda>_. True) rid record ts R =
      (table_adds nested_get nested_add hs rid (items ?K record ts) R)\<lparr>tg_words := w\<rparr>"
    using for_timers_fold [where st = "tag_script_timer_add hs True rid (script_name record)" and i = 0,
        OF step_words(3) step_ids(3) ag len]
    by (auto simp: tag_script_add_def table_adds_def step_funs script_items)
  have "tag_models nested_get nested_count nested_wf ?K hs
     ((table_adds nested_get nested_add hs rid (items ?K record ts) R)\<lparr>tg_words := tg_words R\<rparr>)
     (ws @ [(rid, record, ts)])"
    by (rule tag_models_add [OF nmap.keyed_table_axioms m [unfolded tag_script_models_def] tag_okw_snocD(1-3) [OF ok]])
  then have "tag_models nested_get nested_count nested_wf ?K hs
     (tag_script_add keyf hs (\<lambda>_. True) rid record ts R) (ws @ [(rid, record, ts)])"
    by (rule tag_models_words [OF _ e]) (simp add: w len)
  then show ?thesis by (simp add: tag_script_models_def same_config_ids [OF tag_config(3)])
qed

lemma tag_flat_models_delete:
  assumes m: "tag_flat_models K hs R ((rid, record, ts) # ws)"
    and ok: "tag_okw keyf keyf' K R ((rid, record, ts) # ws)"
  shows "tag_flat_models K hs (tag_flat_delete keyf' hs rid record ts R) ws"
proof -
  let ?del = "\<lambda>m k. fst (pinba_map_delete m k)"
  have len: "length (tg_words R) = length (tg_tag_id R)"
    using m by (simp add: tag_flat_models_def tag_models_def)
  note ag = tag_okw_ConsD(4) [OF ok]
  obtain w where w: "length w = length (tg_tag_id R)"
    and e: "tag_flat_delete keyf' hs rid record ts R =
      (table_dels pinba_map_get pinba_map_add ?del hs rid (items (K (tg_tag_id R)) record ts) R)\<lparr>tg_words := w\<rparr>"
    using for_timers_fold [where st = "tag_flat_timer_delete hs rid" and i = 0, OF step_words(2) step_ids(2) ag len] ok
    by (auto simp: tag_flat_delete_def table_dels_def step_funs tag_okw_def tag_adm_def)
  have "tag_models pinba_map_get pinba_map_count map_wf (K (tg_tag_id R)) hs
     ((table_dels pinba_map_get pinba_map_add ?del hs rid (items (K (tg_tag_id R)) record ts) R)\<lparr>tg_words := tg_words R\<rparr>) ws"
    by (rule tag_models_del [OF smap.keyed_table_axioms m [unfolded tag_flat_models_def] tag_okw_ConsD(1-3) [OF ok]])
  then have "tag_models pinba_map_get pinba_map_count map_wf (K (tg_tag_id R)) hs
     (tag_flat_delete keyf' hs rid record ts R) ws"
    by (rule tag_models_words [OF _ e]) (simp add: w len)
  then show ?thesis by (simp add: tag_flat_models_def same_config_ids [OF tag_config(2)])
qed

text \<open>A request of which no timer has a key leaves the rows alone.\<close>

lemma tag_models_drop:
  assumes "tag_models tget tcount tinv K hs R ((rid, record, ts) # ws)" and "\<forall>t \<in> set ts. K record t = None"
  shows "tag_models tget tcount tinv K hs R ws"
proof -
  have "timers_of K k ((rid, record, ts) # ws) = timers_of K k ws" for k
    using assms(2) by (auto simp: timers_of_def with_key_def filter_empty_conv)
  then show ?thesis using assms(1) by (simp add: tag_models_def)
qed

lemma tag_models_key:
  assumes "tag_models tget tcount tinv K hs R ((rid, record, ts) # ws)" and "t \<in> set ts"
    and "K record t = Some (k, lab)"
  shows "tget (tg_results R) k \<noteq> None"
proof -
  have "timers_of K k ((rid, record, ts) # ws) \<noteq> []"
    using assms(2,3) by (auto simp: timers_of_def with_key_def filter_empty_conv)
  then show ?thesis
    using assms(1) by (auto simp: tag_models_def tagrow_ok_def dest: spec [of _ k] split: option.splits)
qed

lemma tag_script_models_delete:
  assumes m: "tag_script_models K hs R ((rid, record, ts) # ws)"
    and ok: "tag_okw keyf keyf' K R ((rid, record, ts) # ws)"
  shows "tag_script_models K hs (tag_script_delete keyf' hs rid record ts R) ws"
proof -
  let ?K = "script_spec (K (tg_tag_id R))"
  have len: "length (tg_words R) = length (tg_tag_id R)"
    using m by (simp add: tag_script_models_def tag_models_def)
  note ag = tag_okw_ConsD(4) [OF ok] and in_report = tag_okw_ConsD(5) [OF ok]
  show ?thesis
  proof (cases "pinba_map_get (tg_results R) (script_name record)")
    case None
    then have "?K record t = None" if "t \<in> set ts" for t
      using tag_models_key [OF m [unfolded tag_script_models_def] that]
      by (cases "K (tg_tag_id R) record t") (auto simp: script_spec_def script_key_def nested_get_def)
    then show ?thesis
      using None in_report tag_models_drop [OF m [unfolded tag_script_models_def]]
      by (simp add: tag_script_models_def tag_script_delete_def)
  next
    case (Some script_map)
    obtain w where w: "length w = length (tg_tag_id R)"
      and e: "tag_script_delete keyf' hs rid record ts R =
        (table_dels nested_get nested_add nested_del hs rid (items ?K record ts) R)\<lparr>tg_words := w\<rparr>"
      using for_timers_fold [where st = "tag_script_timer_delete hs rid (script_name record)" and i = 0,
          OF step_words(4) step_ids(4) ag len] Some in_report
      by (auto simp: tag_script_delete_def table_dels_def step_funs script_items)
    have "tag_models nested_get nested_count nested_wf ?K hs
       ((table_dels nested_get nested_add nested_del hs rid (items ?K record ts) R)\<lparr>tg_words := tg_words R\<rparr>) ws"
      by (rule tag_models_del [OF nmap.keyed_table_axioms m [unfolded tag_script_models_def] tag_okw_ConsD(1-3) [OF ok]])
    then have "tag_models nested_get nested_count nested_wf ?K hs
       (tag_script_delete keyf' hs rid record ts R) ws"
      by (rule tag_models_words [OF _ e]) (simp add: w len)
    then show ?thesis by (simp add: tag_script_models_def same_config_ids [OF tag_config(4)])
  qed
qed

interpretation tag_flat_window: window_report
    "\<lambda>R (rid, record, ts). tag_flat_add keyf hs (\<lambda>_. True) rid record ts R"
    "\<lambda>R (rid, record, ts). tag_flat_delete keyf' hs rid record ts R"
    "tag_flat_models K hs" "tag_okw keyf keyf' K"
  for keyf keyf' K hs
proof (unfold_locales, goal_cases)
  case (1 R ws r) then show ?case using tag_flat_models_add by (cases r) simp
next
  case (2 R r ws) then show ?case using tag_flat_models_delete by (cases r) simp
next
  case (3 R r) then show ?case using tag_okw_config [OF tag_config(1)] by (cases r) simp
next
  case (4 R r) then show ?case using tag_okw_config [OF tag_config(2)] by (cases r) simp
qed

interpretation tag_script_window: window_report
    "\<lambda>R (rid, record, ts). tag_script_add keyf hs (\<lambda>_. True) rid record ts R"
    "\<lambda>R (rid, record, ts). tag_script_delete keyf' hs rid record ts R"
    "tag_script_models K hs" "tag_okw keyf keyf' K"
  for keyf keyf' K hs
proof (unfold_locales, goal_cases)
  case (1 R ws r) then show ?case using tag_script_models_add by (cases r) simp
next
  case (2 R r ws) then show ?case using tag_script_models_delete by (cases r) simp
next
  case (3 R r) then show ?case using tag_okw_config [OF tag_config(3)] by (cases r) simp
next
  case (4 R r) then show ?case using tag_okw_config [OF tag_config(4)] by (cases r) simp
qed

end
