(* ===== verification/Tag_Correct.thy ===== *)
theory Tag_Correct
  imports Tag_Windows
begin

text \<open>
  The nine timer-tag reports of \<^verbatim>\<open>src/data.cc\<close> against one specification: a timer belongs to
  the row of its values of the tags of the report, with the script name (per-script table)
  and, in the \<^verbatim>\<open>report2\<close> family, host and server name in front. Three shapes (one tag, two
  tags, N tags) times three levels (\<^verbatim>\<open>info\<close>, \<^verbatim>\<open>report\<close>, \<^verbatim>\<open>report2\<close>) give the reports. The last
  section states where the N-tag reports leave this specification.
\<close>

section \<open>Specification\<close>

datatype tag_shape = OneTag | TwoTags | NTags

datatype tag_level = Info | Report | Report2

definition tag_words :: "int list \<Rightarrow> timer_tags \<Rightarrow> pinba_word list option" where
  "tag_words ids tgs = those (map (map_of tgs) ids)"

fun shape_key :: "tag_shape \<Rightarrow> pinba_word list \<Rightarrow> string" where
  "shape_key OneTag ws = word_str (ws ! 0)"
| "shape_key TwoTags ws = (word_str (ws ! 0) @ ''|'') @ word_str (ws ! 1)"
| "shape_key NTags ws = joined ws"

definition host_server_prefix :: "pinba_stats_record \<Rightarrow> string" where
  "host_server_prefix record = ((hostname record @ ''|'') @ server_name record) @ ''|''"

fun level_prefix :: "tag_level \<Rightarrow> pinba_stats_record \<Rightarrow> string" where
  "level_prefix Report2 record = host_server_prefix record"
| "level_prefix level record = []"

fun level_labels :: "tag_level \<Rightarrow> tag_shape \<Rightarrow> pinba_stats_record \<Rightarrow> string list \<Rightarrow> tag_labels" where
  "level_labels Info shape record vals =
     no_tag_labels\<lparr>tl_tag_values := if shape = OneTag then [] else vals\<rparr>"
| "level_labels Report shape record vals =
     no_tag_labels\<lparr>tl_script_name := script_name record, tl_tag_values := vals\<rparr>"
| "level_labels Report2 shape record vals =
     no_tag_labels\<lparr>tl_script_name := script_name record, tl_hostname := hostname record,
       tl_server_name := server_name record, tl_tag_values := vals\<rparr>"

definition tag_spec :: "tag_shape \<Rightarrow> tag_level \<Rightarrow> id_spec" where
  "tag_spec shape level ids record t =
     map_option (\<lambda>ws. (level_prefix level record @ shape_key shape ws,
                       level_labels level shape record (map word_str ws)))
       (tag_words ids (timer_tags t))"

text \<open>The tags of a report, and the timers on which the code meets the specification.\<close>

definition ids_ok :: "tag_shape \<Rightarrow> int list \<Rightarrow> bool" where
  "ids_ok shape ids \<longleftrightarrow>
     distinct ids \<and> (case shape of OneTag \<Rightarrow> length ids = 1 | TwoTags \<Rightarrow> length ids = 2 | NTags \<Rightarrow> True)"

definition report2_room :: "pinba_stats_record \<Rightarrow> pinba_word list \<Rightarrow> bool" where
  "report2_room record ws \<longleftrightarrow>
     length (host_server_prefix record) + length (joined ws) < tagN_index_size (length ws)"

definition tag_timer_ok :: "tag_shape \<Rightarrow> tag_level \<Rightarrow> int list \<Rightarrow> pinba_stats_record \<Rightarrow> pinba_timer_record \<Rightarrow> bool" where
  "tag_timer_ok shape level ids record t \<longleftrightarrow>
     timer_ok t \<and> distinct (map fst (timer_tags t)) \<and> list_all (\<lambda>(i, w). tag_word_ok w) (timer_tags t) \<and>
     (if shape = NTags \<and> level = Report2
      then (case tag_words ids (timer_tags t) of None \<Rightarrow> True | Some ws \<Rightarrow> report2_room record ws)
      else True)"

section \<open>The searches\<close>

lemma tag_value_map_of: "tag_value i tgs = map_of tgs i"
  by (induction i tgs rule: tag_value.induct) auto

lemma map_of_absent: "i \<notin> fst ` set tgs \<Longrightarrow> map_of tgs i = None"
  by (simp add: map_of_eq_None_iff)

lemma tag2_values_map_of:
  "distinct (map fst tgs) \<Longrightarrow> id1 \<noteq> id2 \<Longrightarrow>
   tag2_values id1 id2 tgs v1 v2 =
     (case (case map_of tgs id1 of None \<Rightarrow> v1 | Some w \<Rightarrow> Some w,
            case map_of tgs id2 of None \<Rightarrow> v2 | Some w \<Rightarrow> Some w) of
        (Some w1, Some w2) \<Rightarrow> Some (w1, w2) | _ \<Rightarrow> None)"
proof (induction id1 id2 tgs v1 v2 rule: tag2_values.induct)
  case (2 id1 id2 i w tgs v1 v2)
  then have "map_of tgs i = None" by (simp add: map_of_absent)
  then show ?case using 2 by (auto split: option.splits)
qed simp

lemma tagN_inner_map_of:
  "distinct (map fst tgs) \<Longrightarrow>
   tagN_inner tag_id h n tgs ws cnt found =
     (case map_of tgs tag_id of
        None \<Rightarrow> (ws, cnt, found, False)
      | Some w \<Rightarrow> if cnt + 1 = n then (ws[h := w], cnt + 1, found, True)
                  else (ws[h := w], cnt + 1, True, False))"
proof (induction tag_id h n tgs ws cnt found rule: tagN_inner.induct)
  case (2 tag_id h n i w tgs ws cnt found)
  then have "map_of tgs i = None" by (simp add: map_of_absent)
  then show ?case using 2 by (auto simp: Let_def)
qed simp

lemma tagN_outer_map_of:
  assumes "distinct (map fst tgs)" and "length ws = n" and "h + length ids = n"
  shows "case tag_words ids tgs of
           Some vs \<Rightarrow> tagN_outer ids h n tgs ws h = (take h ws @ vs, True)
         | None \<Rightarrow> (\<exists>ws'. tagN_outer ids h n tgs ws h = (ws', False) \<and> length ws' = n)"
  using assms(2,3)
proof (induction ids arbitrary: h ws)
  case Nil
  then show ?case by (simp add: tag_words_def)
next
  case (Cons tag_id ids)
  show ?case
  proof (cases "map_of tgs tag_id")
    case None
    then show ?thesis
      using Cons.prems assms(1) by (auto simp: tag_words_def tagN_inner_map_of)
  next
    case (Some w)
    have tk: "take (Suc h) (ws[h := w]) = take h ws @ [w]"
      using Cons.prems by (simp add: take_Suc_conv_app_nth)
    show ?thesis
    proof (cases "ids = []")
      case True
      then show ?thesis
        using Some Cons.prems tk tagN_inner_map_of [OF assms(1), of tag_id h n ws h False]
        by (simp add: tag_words_def del: map_of_eq_Some_iff)
    next
      case False
      then have "tagN_outer (tag_id # ids) h n tgs ws h = tagN_outer ids (Suc h) n tgs (ws[h := w]) (Suc h)"
        using Some Cons.prems tagN_inner_map_of [OF assms(1), of tag_id h n ws h False] by (cases ids) simp_all
      moreover have "tag_words (tag_id # ids) tgs = map_option (Cons w) (tag_words ids tgs)"
        using Some by (simp add: tag_words_def)
      ultimately show ?thesis
        using Cons.IH [of "ws[h := w]" "Suc h"] Cons.prems tk by (auto split: option.splits)
    qed
  qed
qed

lemma tagN_search_found:
  assumes "distinct (map fst tgs)" and "length ws = length ids" and "tag_words ids tgs = Some vs"
  shows "tagN_search ids tgs ws = (vs, True)"
  using tagN_outer_map_of [OF assms(1,2), of 0 ids] assms(3) by (simp add: tagN_search_def)

lemma tagN_search_missing:
  assumes "distinct (map fst tgs)" and "length ws = length ids" and "tag_words ids tgs = None"
  shows "\<exists>ws'. tagN_search ids tgs ws = (ws', False) \<and> length ws' = length ids"
  using tagN_outer_map_of [OF assms(1,2), of 0 ids] assms(3) by (simp add: tagN_search_def)

lemma tag_words_Some:
  "tag_words ids tgs = Some vs \<longleftrightarrow> map (map_of tgs) ids = map Some vs"
proof (induction ids arbitrary: vs)
  case (Cons i ids)
  then show ?case
    by (cases vs) (auto simp: tag_words_def split: option.splits)
qed (auto simp: tag_words_def)

lemma tag_words_length: "tag_words ids tgs = Some vs \<Longrightarrow> length vs = length ids"
  by (metis tag_words_Some length_map)

lemma tag_words_ok:
  assumes "tag_words ids tgs = Some vs" and "list_all (\<lambda>(i, w). tag_word_ok w) tgs"
  shows "list_all tag_word_ok vs"
  unfolding list_all_length
proof (intro allI impI)
  fix j assume j: "j < length vs"
  have "map_of tgs (ids ! j) = Some (vs ! j)"
    using assms(1) j tag_words_length [OF assms(1)] unfolding tag_words_Some by (metis nth_map)
  then show "tag_word_ok (vs ! j)" using assms(2) by (auto simp: list_all_iff dest: map_of_SomeD)
qed

lemma tag_words_few:
  assumes "distinct ids" and "length tgs < length ids"
  shows "tag_words ids tgs = None"
proof (rule ccontr)
  assume "\<not> ?thesis"
  then obtain vs where "map (map_of tgs) ids = map Some vs" using tag_words_Some by fastforce
  then have "set ids \<subseteq> dom (map_of tgs)"
    by (auto simp: in_set_conv_nth dom_def) (metis length_map nth_map)
  then have "length ids \<le> card (dom (map_of tgs))"
    using assms(1) by (metis card_mono distinct_card finite_dom_map_of)
  then show False
    using assms(2) card_image_le [of "set tgs" fst] card_length [of tgs] by (simp add: dom_map_of_conv_image_fst)
qed

section \<open>The keys of the code\<close>

lemma copy_value_ok: "tag_word_ok w \<Longrightarrow> copy_value w = word_str w"
  by (simp add: copy_value_def tag_word_ok_def static_copy_fits)

lemma script_label_ok: "record_ok r \<Longrightarrow> script_label r l = l\<lparr>tl_script_name := script_name r\<rparr>"
  by (simp add: script_label_def record_ok_def static_copy_fits)

lemma host_server_labels_ok:
  "record_ok r \<Longrightarrow> host_server_labels r l = l\<lparr>tl_hostname := hostname r, tl_server_name := server_name r\<rparr>"
  by (simp add: host_server_labels_def record_ok_def static_copy_fits)

lemma tag2_index_eq:
  "tag_word_ok w1 \<Longrightarrow> tag_word_ok w2 \<Longrightarrow> 129 < n \<Longrightarrow>
   tag2_index n w1 w2 = (word_str w1 @ ''|'') @ word_str w2"
  unfolding tag2_index_def Let_def
  by (intro buffer_intros put_char_holds) (auto simp: tag_word_ok_def fits_def)

lemma tag_report2_index_eq:
  "record_ok r \<Longrightarrow> tag_word_ok w \<Longrightarrow> 195 < n \<Longrightarrow>
   tag_report2_index n r w = host_server_prefix r @ word_str w"
  unfolding tag_report2_index_def host_server_prefix_def Let_def
  by (intro buffer_intros put_char_holds) (auto simp: tag_word_ok_def record_fits)

lemma tag2_report2_index_eq:
  "record_ok r \<Longrightarrow> tag_word_ok w1 \<Longrightarrow> tag_word_ok w2 \<Longrightarrow> 260 < n \<Longrightarrow>
   tag2_report2_index n r w1 w2 = ((host_server_prefix r @ word_str w1) @ ''|'') @ word_str w2"
  unfolding tag2_report2_index_def host_server_prefix_def Let_def
  by (intro buffer_intros append_key_delimiter_holds) (auto simp: tag_word_ok_def record_fits)

lemma tagN_index_eq: "list_all tag_word_ok ws \<Longrightarrow> tagN_index ws = joined ws"
  using rtagN_index_eq [of ws] by (simp add: tagN_index_def rtagN_index_def tagN_index_size_def)

lemma memcpy_sep_holds:
  assumes "holds bp s" and "Suc (length s + length t) < length (fst bp)"
  shows "holds (memcpy_sep t bp) ((s @ t) @ ''|'') \<and> length (fst (memcpy_sep t bp)) = length (fst bp)"
  using assms put_char_holds [OF memcpy_at_holds [of bp s t]] by (auto simp: memcpy_sep_def holds_def)

lemma tagN_report2_index_eq:
  assumes "record_ok r" and "list_all tag_word_ok ws" and "report2_room r ws"
  shows "tagN_report2_index r ws = host_server_prefix r @ joined ws"
proof -
  let ?b = "zero_buf (tagN_index_size (length ws))"
  have room: "length (host_server_prefix r) + length (joined ws) < length ?b"
    using assms(3) by (simp add: report2_room_def)
  have h: "holds (memcpy_sep (hostname r) (?b, 0)) (hostname r @ ''|'')"
    "length (fst (memcpy_sep (hostname r) (?b, 0))) = length ?b"
    using memcpy_sep_holds [of "(?b, 0)" "[]" "hostname r"] room
    by (auto simp: host_server_prefix_def holds_def)
  have "holds (memcpy_sep (server_name r) (memcpy_sep (hostname r) (?b, 0))) (host_server_prefix r)"
    "length (fst (memcpy_sep (server_name r) (memcpy_sep (hostname r) (?b, 0)))) = length ?b"
    using memcpy_sep_holds [OF h(1), of "server_name r"] h(2) room by (auto simp: host_server_prefix_def)
  then have "terminated (tagN_report2_fill r ws ?b) (host_server_prefix r @ joined ws)"
    using rtagN_fill_terminated room by (simp add: tagN_report2_fill_def)
  moreover have "nul_free (host_server_prefix r @ joined ws)"
    using assms(1,2) nul_free_joined by (auto simp: host_server_prefix_def record_ok_def fits_def nul_free_def)
  ultimately show ?thesis by (simp add: tagN_report2_index_def c_str_terminated)
qed

text \<open>The key functions of the additions (\<open>True\<close>) and the deletions (\<open>False\<close>).\<close>

fun shape_keyf :: "tag_shape \<Rightarrow> tag_level \<Rightarrow> bool \<Rightarrow> tag_keyf" where
  "shape_keyf OneTag Info a = tag_info_key"
| "shape_keyf TwoTags Info a = tag2_info_key"
| "shape_keyf NTags Info a = tagN_info_key"
| "shape_keyf OneTag Report a = tag_report_key"
| "shape_keyf TwoTags Report a = tag2_report_key"
| "shape_keyf NTags Report a = tagN_report_key"
| "shape_keyf OneTag Report2 a = tag_report2_key
     (if a then PINBA_SCRIPT_NAME_SIZE + PINBA_HOSTNAME_SIZE + PINBA_SCRIPT_NAME_SIZE + 1 + PINBA_TAG_VALUE_SIZE
      else PINBA_HOSTNAME_SIZE + 1 + PINBA_SERVER_NAME_SIZE + 1 + PINBA_SCRIPT_NAME_SIZE + 1 + PINBA_TAG_VALUE_SIZE)"
| "shape_keyf TwoTags Report2 a = tag2_report2_key
     (if a then PINBA_HOSTNAME_SIZE + 1 + PINBA_SERVER_NAME_SIZE + 1 + PINBA_SCRIPT_NAME_SIZE + 1 + PINBA_TAG_VALUE_SIZE + 1 + PINBA_TAG_VALUE_SIZE + 1
      else PINBA_HOSTNAME_SIZE + PINBA_SERVER_NAME_SIZE + PINBA_SCRIPT_NAME_SIZE + 1 + PINBA_TAG_VALUE_SIZE + 1 + PINBA_TAG_VALUE_SIZE + 1)"
| "shape_keyf NTags Report2 a = tagN_report2_key"

lemma tag_words_1: "tag_words [i] tgs = map_option (\<lambda>w. [w]) (map_of tgs i)"
  by (simp add: tag_words_def split: option.splits)

lemma tag_words_2:
  "tag_words [i, j] tgs =
     (case (map_of tgs i, map_of tgs j) of (Some v, Some w) \<Rightarrow> Some [v, w] | _ \<Rightarrow> None)"
  by (simp add: tag_words_def split: option.splits)

lemma map_of_word_ok:
  "list_all (\<lambda>(i, w). tag_word_ok w) tgs \<Longrightarrow> map_of tgs i = Some w \<Longrightarrow> tag_word_ok w"
  by (auto simp: list_all_iff dest: map_of_SomeD)

lemmas key_defs =
  tag_info_key_def tag2_info_key_def tagN_info_key_def tag_report_key_def tag2_report_key_def
  tagN_report_key_def tag_report2_key_def tag2_report2_key_def tagN_report2_key_def

lemmas key_eqs =
  copy_value_ok script_label_ok host_server_labels_ok tag2_index_eq tag_report2_index_eq
  tag2_report2_index_eq tagN_index_eq tagN_report2_index_eq

lemma shape_key_agrees_1:
  assumes "record_ok record" and "ids_ok OneTag ids" and "tag_timer_ok OneTag level ids record t"
  shows "key_agrees (shape_keyf OneTag level a) (tag_spec OneTag level ids) ids record t"
proof -
  obtain i where i: "ids = [i]" using assms(2) by (auto simp: ids_ok_def length_Suc_conv)
  have "tag_word_ok w" if "map_of (timer_tags t) i = Some w" for w
    using map_of_word_ok [OF _ that] assms(3) by (simp add: tag_timer_ok_def)
  then show ?thesis
    using assms(1) by (cases level; cases "map_of (timer_tags t) i")
      (simp_all add: key_agrees_def key_defs tag_value_map_of tag_spec_def i tag_words_1 key_eqs no_tag_labels_def del: map_of_eq_Some_iff)
qed

lemma shape_key_agrees_2:
  assumes "record_ok record" and "ids_ok TwoTags ids" and "tag_timer_ok TwoTags level ids record t"
  shows "key_agrees (shape_keyf TwoTags level a) (tag_spec TwoTags level ids) ids record t"
proof -
  obtain i j where i: "ids = [i, j]" "i \<noteq> j"
    using assms(2) by (auto simp: ids_ok_def length_Suc_conv numeral_2_eq_2)
  have "tag_word_ok w" if "map_of (timer_tags t) k = Some w" for k w
    using map_of_word_ok [OF _ that] assms(3) by (simp add: tag_timer_ok_def)
  moreover have "distinct (map fst (timer_tags t))" using assms(3) by (simp add: tag_timer_ok_def)
  ultimately show ?thesis
    using assms(1) i(2)
    by (cases level; cases "map_of (timer_tags t) i"; cases "map_of (timer_tags t) j")
      (simp_all add: key_agrees_def key_defs tag2_values_map_of tag_spec_def i tag_words_2 key_eqs no_tag_labels_def del: map_of_eq_Some_iff)
qed

lemma shape_key_agrees_N:
  assumes "record_ok record" and "ids_ok NTags ids" and "tag_timer_ok NTags level ids record t"
  shows "key_agrees (shape_keyf NTags level a) (tag_spec NTags level ids) ids record t"
proof (cases "tag_words ids (timer_tags t)")
  case None
  have "\<exists>ws'. tagN_search ids (timer_tags t) ws = (ws', False) \<and> length ws' = length ids"
    if "length ws = length ids" for ws
    using tagN_search_missing [OF _ that None] assms(3) by (simp add: tag_timer_ok_def)
  then show ?thesis
    by (cases level) (fastforce simp: key_agrees_def key_defs tag_spec_def None)+
next
  case (Some vs)
  have f: "tagN_search ids (timer_tags t) ws = (vs, True)" if "length ws = length ids" for ws
    using tagN_search_found [OF _ that Some] assms(3) by (simp add: tag_timer_ok_def)
  have "\<not> length (timer_tags t) < length ids"
    using tag_words_few [of ids "timer_tags t"] assms(2) Some by (auto simp: ids_ok_def)
  moreover have "list_all tag_word_ok vs" using tag_words_ok [OF Some] assms(3) by (simp add: tag_timer_ok_def)
  moreover have "level = Report2 \<Longrightarrow> report2_room record vs" using assms(3) Some by (simp add: tag_timer_ok_def)
  ultimately show ?thesis
    using assms(1) Some tag_words_length [OF Some]
    by (cases level) (auto simp: key_agrees_def key_defs f tag_spec_def key_eqs no_tag_labels_def)
qed

lemma shape_key_agrees:
  "record_ok record \<Longrightarrow> ids_ok shape ids \<Longrightarrow> tag_timer_ok shape level ids record t \<Longrightarrow>
   key_agrees (shape_keyf shape level a) (tag_spec shape level ids) ids record t"
  using shape_key_agrees_1 shape_key_agrees_2 shape_key_agrees_N by (cases shape) blast+

section \<open>The reports hold the aggregates of their window\<close>

fun tag_info_add_func :: "tag_shape \<Rightarrow> tag_info tag_add_func" where
  "tag_info_add_func OneTag = pinba_update_tag_info_add"
| "tag_info_add_func TwoTags = pinba_update_tag2_info_add"
| "tag_info_add_func NTags = pinba_update_tagN_info_add"

fun tag_info_delete_func :: "tag_shape \<Rightarrow> tag_info tag_delete_func" where
  "tag_info_delete_func OneTag = pinba_update_tag_info_delete"
| "tag_info_delete_func TwoTags = pinba_update_tag2_info_delete"
| "tag_info_delete_func NTags = pinba_update_tagN_info_delete"

fun tag_report_add_func :: "tag_shape \<Rightarrow> bool \<Rightarrow> tag_report tag_add_func" where
  "tag_report_add_func OneTag False = pinba_update_tag_report_add"
| "tag_report_add_func TwoTags False = pinba_update_tag2_report_add"
| "tag_report_add_func NTags False = pinba_update_tagN_report_add"
| "tag_report_add_func OneTag True = pinba_update_tag_report2_add"
| "tag_report_add_func TwoTags True = pinba_update_tag2_report2_add"
| "tag_report_add_func NTags True = pinba_update_tagN_report2_add"

fun tag_report_delete_func :: "tag_shape \<Rightarrow> bool \<Rightarrow> tag_report tag_delete_func" where
  "tag_report_delete_func OneTag False = pinba_update_tag_report_delete"
| "tag_report_delete_func TwoTags False = pinba_update_tag2_report_delete"
| "tag_report_delete_func NTags False = pinba_update_tagN_report_delete"
| "tag_report_delete_func OneTag True = pinba_update_tag_report2_delete"
| "tag_report_delete_func TwoTags True = pinba_update_tag2_report2_delete"
| "tag_report_delete_func NTags True = pinba_update_tagN_report2_delete"

definition report_level :: "bool \<Rightarrow> tag_level" where
  "report_level two = (if two then Report2 else Report)"

lemma tag_info_funcs:
  "tag_info_add_func shape hs ok rid R record ts =
     tag_flat_add (shape_keyf shape Info True) hs ok rid record ts R"
  "tag_info_delete_func shape hs rid R record ts =
     tag_flat_delete (shape_keyf shape Info False) hs rid record ts R"
  by (cases shape; simp add: pinba_update_tag_info_add_def pinba_update_tag2_info_add_def
      pinba_update_tagN_info_add_def pinba_update_tag_info_delete_def pinba_update_tag2_info_delete_def
      pinba_update_tagN_info_delete_def)+

lemma tag_report_funcs:
  "tag_report_add_func shape two hs ok rid R record ts =
     tag_script_add (shape_keyf shape (report_level two) True) hs ok rid record ts R"
  "tag_report_delete_func shape two hs rid R record ts =
     tag_script_delete (shape_keyf shape (report_level two) False) hs rid record ts R"
  by (cases shape; cases two; simp add: report_level_def pinba_update_tag_report_add_def
      pinba_update_tag2_report_add_def pinba_update_tagN_report_add_def pinba_update_tag_report2_add_def
      pinba_update_tag2_report2_add_def pinba_update_tagN_report2_add_def pinba_update_tag_report_delete_def
      pinba_update_tag2_report_delete_def pinba_update_tagN_report_delete_def
      pinba_update_tag_report2_delete_def pinba_update_tag2_report2_delete_def
      pinba_update_tagN_report2_delete_def)+

text \<open>
  The windows of a timer-tag report: requests in distinct pool slots, none older than the
  report, with timers the specification covers.
\<close>

definition tag_request_ok :: "tag_shape \<Rightarrow> tag_level \<Rightarrow> 'm pinba_tag_report \<Rightarrow> slot_request \<Rightarrow> bool" where
  "tag_request_ok shape level R req =
     (case req of (rid, record, ts) \<Rightarrow>
        rid \<noteq> - 1 \<and> record_ok record \<and> \<not> PINBA_REPORT_DELETE_CHECK (tg_std R) record \<and>
        list_all (tag_timer_ok shape level (tg_tag_id R) record) ts)"

definition tag_window_ok :: "tag_shape \<Rightarrow> tag_level \<Rightarrow> 'm pinba_tag_report \<Rightarrow> slot_request list \<Rightarrow> bool" where
  "tag_window_ok shape level R ws \<longleftrightarrow>
     list_all (tag_request_ok shape level R) ws \<and> distinct (map fst ws) \<and> length ws < WINDOW_MAX"

definition fresh_tag_report :: "tag_shape \<Rightarrow> ('v list option) pinba_tag_report \<Rightarrow> bool" where
  "fresh_tag_report shape R \<longleftrightarrow>
     tg_results R = None \<and> results_cnt (tg_std R) = 0 \<and> length (tg_words R) = length (tg_tag_id R) \<and>
     ids_ok shape (tg_tag_id R)"

lemma tag_window_okw:
  assumes "tag_window_ok shape level R ws" and "ids_ok shape (tg_tag_id R)"
  shows "tag_okw (shape_keyf shape level True) (shape_keyf shape level False) (tag_spec shape level) R ws"
proof -
  have "tag_adm (shape_keyf shape level True) (shape_keyf shape level False) (tag_spec shape level) R req"
    if "tag_request_ok shape level R req" for req
    using that shape_key_agrees [OF _ assms(2)]
    by (auto simp: tag_adm_def tag_request_ok_def list_all_iff tag_timer_ok_def split: prod.splits)
  then show ?thesis using assms(1) by (auto simp: tag_okw_def tag_window_ok_def list_all_iff)
qed

lemma fresh_tag_models:
  "fresh_tag_report shape R \<Longrightarrow> tag_flat_models K hs R []"
  "fresh_tag_report shape S \<Longrightarrow> tag_script_models K hs S []"
  by (simp_all add: fresh_tag_report_def tag_flat_models_def tag_script_models_def tag_models_def
      timers_of_def tagrow_ok_def smap.get_null smap.count_null nmap.get_null nmap.count_null nmap.inv_null)

lemma history_ok_mono:
  "history_ok P ws es \<Longrightarrow> (\<And>ws. P ws \<Longrightarrow> Q ws) \<Longrightarrow> history_ok Q ws es"
  by (induction P ws es rule: history_ok.induct) auto

text \<open>A request with two timers, and a history of such requests in slots 7, 8 and 9.\<close>

definition sample_timer :: "int \<Rightarrow> timer_tags \<Rightarrow> pinba_timer_record" where
  "sample_timer hits tgs =
     \<lparr>timer_tags = tgs, timer_value = of_usecs 1500000, timer_ru_utime = of_usecs 3000,
      timer_ru_stime = of_usecs 2000, timer_request_id = 0, timer_hit_count = hits\<rparr>"

definition sample_timers :: "pinba_timer_record list" where
  "sample_timers =
     [sample_timer 3 [(5, sample_word 31 ''db''), (6, sample_word 32 ''get'')],
      sample_timer 2 [(6, sample_word 33 ''put''), (5, sample_word 31 ''db'')],
      sample_timer 4 [(7, sample_word 34 ''x'')]]"

definition sample_timer_history :: "slot_request event list" where
  "sample_timer_history =
     [Enter (7, sample_tagged ''h1'' [], sample_timers), Enter (8, sample_tagged ''h2'' [], sample_timers),
      Leave, Enter (9, sample_tagged ''h1'' [], rev sample_timers)]"

definition sample_tag_report :: "('v list option) pinba_tag_report" where
  "sample_tag_report =
     \<lparr>tg_std = sample_std PINBA_TABLE_TAG2_INFO, tg_tag_id = [5, 6],
      tg_words = [sample_word 0 [], sample_word 0 []], tg_results = None\<rparr>"

lemma sample_tag_report_fresh: "fresh_tag_report TwoTags sample_tag_report" "fresh_tag_report NTags sample_tag_report"
  by (simp_all add: fresh_tag_report_def sample_tag_report_def sample_std_def ids_ok_def)

lemma sample_timers_ok:
  assumes "shape \<noteq> NTags \<or> level \<noteq> Report2"
  shows "list_all (tag_timer_ok shape level ids record) sample_timers"
  using assms by (auto simp: sample_timers_def tag_timer_ok_def sample_timer_def timer_ok_def tag_word_ok_def
      fits_def split: option.splits)

lemma sample_timer_history_ok:
  assumes "shape \<noteq> NTags \<or> level \<noteq> Report2"
  shows "history_ok (tag_window_ok shape level sample_tag_report) [] sample_timer_history"
proof -
  have "tag_request_ok shape level sample_tag_report (rid, sample_tagged h [], ts)"
    if "rid \<noteq> - 1" "fits 65 h" "set ts \<subseteq> set sample_timers" for rid h ts
    using that sample_timers_ok [OF assms]
    by (auto simp: tag_request_ok_def sample_tag_report_def sample_tagged_ok sample_tagged_not_older list_all_iff)
  from this [of 7 "''h1''" sample_timers] this [of 8 "''h2''" sample_timers] this [of 9 "''h1''" "rev sample_timers"] show ?thesis
    by (simp add: sample_timer_history_def tag_window_ok_def WINDOW_MAX_def fits_def)
qed

text \<open>
  C12: A report over timer tags (one, two or N tags) holds the aggregates of the requests in
  its window after any history of additions and removals: one row per combination of tag
  values that a timer in the window has, whose hit count, times and histogram sum over those
  timers, whose request count counts each request once however many of its timers match, and
  results_cnt the number of rows. The rows must be allocated, the report names no tag twice, the
  requests are well formed, in distinct slots and fewer than \<open>WINDOW_MAX\<close>, and no timer in the
  window carries a tag id twice (\<open>tag_window_ok\<close>), which validation does not exclude.
\<close>

theorem tag_info_window:
  assumes "fresh_tag_report shape R" and "history_ok (tag_window_ok shape Info R) [] es"
  shows "case window_run (\<lambda>R (rid, record, ts). tag_info_add_func shape hs (\<lambda>_. True) rid R record ts)
           (\<lambda>R (rid, record, ts). tag_info_delete_func shape hs rid R record ts) es (R, []) of
           (R', ws) \<Rightarrow> tag_flat_models (tag_spec shape Info) hs R' ws"
proof -
  have "ids_ok shape (tg_tag_id R)" using assms(1) by (simp add: fresh_tag_report_def)
  from history_ok_mono [OF assms(2) tag_window_okw [OF _ this]]
  show ?thesis
    unfolding tag_info_funcs using fresh_tag_models(1) [OF assms(1)] by (intro tag_flat_window.window_history)
qed

theorem tag_info_window_witness:
  "case window_run (\<lambda>R (rid, record, ts). pinba_update_tagN_info_add 512 (\<lambda>_. True) rid R record ts)
     (\<lambda>R (rid, record, ts). pinba_update_tagN_info_delete 512 rid R record ts) sample_timer_history
     (sample_tag_report, []) of
     (R', ws) \<Rightarrow> tag_flat_models (tag_spec NTags Info) 512 R' ws"
  using tag_info_window [OF sample_tag_report_fresh(2) sample_timer_history_ok, of 512] by simp



section \<open>Where the N-tag reports leave the specification\<close>

lemma rtagN_fill_pos: "snd (rtagN_fill ws bp) = snd bp + length (joined ws)"
  by (induction ws bp rule: rtagN_fill.induct) (auto simp: joined_def put_char_def)

lemma tagN_report2_fill_pos:
  "snd (tagN_report2_fill r ws b) = length (host_server_prefix r) + length (joined ws)"
  by (simp add: tagN_report2_fill_def rtagN_fill_pos memcpy_sep_def put_char_def host_server_prefix_def)

text \<open>
  C17: The index buffer of an N-tag report, sized for the tag values only, is large enough for
  the keys of the info and report levels, with its terminating NUL. The report2 level puts
  host and server name in front: for every number of tags below 129 there are a request and
  values, all within their limits, whose key is longer than the buffer.
\<close>

theorem tagN_index_bounds:
  "(\<forall>ws. list_all tag_word_ok ws \<longrightarrow>
      snd (rtagN_fill ws (zero_buf (tagN_index_size (length ws)), 0)) < tagN_index_size (length ws)) \<and>
   (\<forall>n < 129. \<exists>r ws. record_ok r \<and> list_all tag_word_ok ws \<and> length ws = n \<and>
      tagN_index_size n < snd (tagN_report2_fill r ws (zero_buf (tagN_index_size n))))"
proof (intro conjI allI impI)
  fix ws assume "list_all tag_word_ok ws"
  then show "snd (rtagN_fill ws (zero_buf (tagN_index_size (length ws)), 0)) < tagN_index_size (length ws)"
    using length_joined [of ws] by (simp add: rtagN_fill_pos tagN_index_size_def)
next
  fix n :: nat assume n: "n < 129"
  obtain s where s: "length s = 64" "nul_free s"
    by (rule that [of "replicate 64 (CHR ''a'')"]) (simp_all add: nul_free_def)
  let ?r = "sample_request s s ''/'' 200" and ?ws = "replicate n (sample_word 1 s)"
  have "length (joined ?ws) = 65 * n" using s(1) by (induction n) (simp_all add: joined_def)
  then have "tagN_index_size n < snd (tagN_report2_fill ?r ?ws (zero_buf (tagN_index_size n)))"
    using n s by (simp add: tagN_report2_fill_pos tagN_index_size_def host_server_prefix_def sample_request_def)
  moreover have "record_ok ?r" using s by (intro sample_request_ok) (simp_all add: fits_def)
  moreover have "list_all tag_word_ok ?ws" using s by (simp add: list_all_iff tag_word_ok_def fits_def)
  ultimately show "\<exists>r ws. record_ok r \<and> list_all tag_word_ok ws \<and> length ws = n \<and>
      tagN_index_size n < snd (tagN_report2_fill r ws (zero_buf (tagN_index_size n)))"
    by (intro exI [of _ ?r] exI [of _ ?ws]) (simp only: length_replicate simp_thms)
qed

theorem tagN_index_bounds_witness:
  "snd (rtagN_fill [sample_word 1 ''db''] (zero_buf (tagN_index_size 1), 0)) < 67 \<and>
   (\<exists>r ws. record_ok r \<and> list_all tag_word_ok ws \<and> length ws = 4 \<and>
      tagN_index_size 4 < snd (tagN_report2_fill r ws (zero_buf (tagN_index_size 4))))"
proof
  show "snd (rtagN_fill [sample_word 1 ''db''] (zero_buf (tagN_index_size 1), 0)) < 67"
    using conjunct1 [OF tagN_index_bounds, THEN spec, of "[sample_word 1 ''db'']"]
    by (simp add: tag_word_ok_def fits_def tagN_index_size_def)
  show "\<exists>r ws. record_ok r \<and> list_all tag_word_ok ws \<and> length ws = 4 \<and>
      tagN_index_size 4 < snd (tagN_report2_fill r ws (zero_buf (tagN_index_size 4)))"
    using conjunct2 [OF tagN_index_bounds, THEN spec, of 4] by simp
qed

text \<open>The tags of one id overwrite each other and are all counted.\<close>

lemma tagN_inner_same:
  assumes "n \<le> cnt + length (filter (\<lambda>t. fst t = i) ts)" and "cnt < n"
  shows "\<exists>f. tagN_inner i h n ts words cnt found = (words[h := snd (filter (\<lambda>t. fst t = i) ts ! (n - Suc cnt))], n, f, True)"
  using assms
proof (induction ts arbitrary: words cnt found)
  case (Cons t ts)
  obtain j w where t: "t = (j, w)" by (cases t)
  show ?case
  proof (cases "i = j")
    case False
    then show ?thesis using Cons.IH [of cnt words found] Cons.prems by (simp add: t)
  next
    case True
    show ?thesis
    proof (cases "Suc cnt = n")
      case False
      then obtain f where "tagN_inner i h n ts (words[h := w]) (Suc cnt) True =
          (words[h := w, h := snd (filter (\<lambda>t. fst t = i) ts ! (n - Suc (Suc cnt)))], n, f, True)"
        using Cons.IH [of "Suc cnt" "words[h := w]" True] Cons.prems True by (auto simp: t)
      moreover have "n - Suc cnt = Suc (n - Suc (Suc cnt))" using False Cons.prems(2) by simp
      ultimately show ?thesis using True False by (simp add: t)
    qed (use True in \<open>auto simp: t\<close>)
  qed
qed simp

text \<open>
  C18: The N-tag search does not stop at the first tag of an id and counts every occurrence: for any
  report and any timer that carries the first id of the report at least as often as the report has
  ids, the search succeeds, whatever other tags the timer has or lacks. Only the first entry of the
  scratch array is set, to the value of the last occurrence counted; all other parts of the key are
  what the scratch array held before.
\<close>

theorem tagN_search_stale:
  assumes "length ids < length (filter (\<lambda>t. fst t = i) ts)"
  shows "tagN_search (i # ids) ts words = (words[0 := snd (filter (\<lambda>t. fst t = i) ts ! length ids)], True)"
proof -
  obtain f where "tagN_inner i 0 (Suc (length ids)) ts words 0 False =
      (words[0 := snd (filter (\<lambda>t. fst t = i) ts ! length ids)], Suc (length ids), f, True)"
    using tagN_inner_same [of "Suc (length ids)" 0 i ts 0 words False] assms by auto
  then show ?thesis by (simp add: tagN_search_def)
qed

theorem tagN_search_stale_witness:
  "tagN_search [5, 6] [(5, sample_word 31 ''db''), (7, sample_word 33 ''x''), (5, sample_word 35 ''api'')]
       [sample_word 41 ''old'', sample_word 42 ''stale''] =
     ([sample_word 35 ''api'', sample_word 42 ''stale''], True)"
  using tagN_search_stale [of "[6]" 5 "[(5, sample_word 31 ''db''), (7, sample_word 33 ''x''), (5, sample_word 35 ''api'')]"
      "[sample_word 41 ''old'', sample_word 42 ''stale'']"]
  by simp

end
