(* ===== verification/Pool.thy ===== *)
theory Pool
  imports Pinba_Prelude
begin

text \<open>
  The pools of \<^verbatim>\<open>src/pool.cc\<close>: growable arrays with two positions. The request pool and the
  timer pool are rings, \<^verbatim>\<open>out\<close> being the oldest cell and \<^verbatim>\<open>in\<close> the next free one; the
  per-thread pools are stacks with \<^verbatim>\<open>out\<close> at zero. Positions are natural numbers; the one sum
  that can leave the range of \<^verbatim>\<open>size_t\<close> for a valid pool is the new size, where the wrap-around
  is written out. \<open>ring\<close> is the abstract content of a pool.
\<close>

section \<open>State\<close>

record 'a pinba_pool =
  psize :: nat
  limit_size :: nat
  grow_size :: nat
  pin :: nat
  pout :: nat
  pname :: string
  pdata :: "'a list"

datatype p_result = P_SUCCESS | P_FAILURE

text \<open>\<^verbatim>\<open>memset\<close> and \<^verbatim>\<open>memmove\<close> on the cells of a pool.\<close>

definition memset_cells :: "'a list \<Rightarrow> nat \<Rightarrow> 'a \<Rightarrow> nat \<Rightarrow> 'a list" where
  "memset_cells d pos z n = take pos d @ replicate n z @ drop (pos + n) d"

definition memmove_cells :: "'a list \<Rightarrow> nat \<Rightarrow> nat \<Rightarrow> nat \<Rightarrow> 'a list" where
  "memmove_cells d dst src n = take dst d @ take n (drop src d) @ drop (dst + n) d"

section \<open>Operations\<close>

definition pinba_pool_num_records :: "'a pinba_pool \<Rightarrow> nat" where
  "pinba_pool_num_records p =
     (if pin p = pout p then 0
      else if pin p > pout p then pin p - pout p
      else psize p - (pout p - pin p))"

definition pinba_pool_is_full :: "'a pinba_pool \<Rightarrow> bool" where
  "pinba_pool_is_full p \<longleftrightarrow>
     (if pin p < pout p then psize p - (pout p - pin p) else pin p - pout p) = psize p - 1"

definition pinba_pool_new_size :: "'a pinba_pool \<Rightarrow> nat \<Rightarrow> nat" where
  "pinba_pool_new_size p n =
     (let new_size = (if n \<noteq> 0 then psize p + n else psize p + grow_size p) mod 2 ^ 64
      in if limit_size p > 0 \<and> new_size > limit_size p then limit_size p else new_size)"

text \<open>
  \<open>mem\<close> is what \<^verbatim>\<open>realloc\<close> does: \<open>None\<close> if it fails, else the content of the cells it adds.
  \<open>zero\<close> is a zeroed cell.
\<close>

definition pinba_pool_grow :: "'a list option \<Rightarrow> 'a \<Rightarrow> 'a pinba_pool \<Rightarrow> nat \<Rightarrow> p_result \<times> 'a pinba_pool" where
  "pinba_pool_grow mem zero p n =
     (let old_size = psize p; new_size = pinba_pool_new_size p n; more = new_size - old_size
      in if old_size = new_size then (P_FAILURE, p)
         else if new_size = 0 \<or> new_size < old_size then (P_FAILURE, p)
         else case mem of
                None \<Rightarrow> (P_FAILURE, p)
              | Some junk \<Rightarrow>
                  let p = p\<lparr>pdata := pdata p @ junk, psize := new_size\<rparr>
                  in if psize p = more
                     then (P_SUCCESS, p\<lparr>pdata := memset_cells (pdata p) 0 zero (psize p)\<rparr>)
                     else if pout p > pin p
                     then (P_SUCCESS,
                           p\<lparr>pdata := memset_cells
                               (memmove_cells (pdata p) (pout p + more) (pout p) (old_size - pout p))
                               (pout p) zero more,
                             pout := pout p + more\<rparr>)
                     else (P_SUCCESS, p\<lparr>pdata := memset_cells (pdata p) old_size zero more\<rparr>))"

definition pinba_pool_push ::
  "'a list option \<Rightarrow> 'a \<Rightarrow> 'a pinba_pool \<Rightarrow> nat \<Rightarrow> 'a \<Rightarrow> p_result \<times> 'a pinba_pool" where
  "pinba_pool_push mem zero p n x =
     (let (ret, p) = (if pin p = psize p then pinba_pool_grow mem zero p n else (P_SUCCESS, p))
      in case ret of
           P_FAILURE \<Rightarrow> (P_FAILURE, p)
         | P_SUCCESS \<Rightarrow> (P_SUCCESS, p\<lparr>pdata := (pdata p)[pin p := x], pin := pin p + 1\<rparr>))"

definition PINBA_POOL_NAME_SIZE :: nat where [simp]: "PINBA_POOL_NAME_SIZE = 256"

definition pinba_pool_init ::
  "'a list option \<Rightarrow> 'a \<Rightarrow> nat \<Rightarrow> nat \<Rightarrow> nat \<Rightarrow> string \<Rightarrow> p_result \<times> 'a pinba_pool" where
  "pinba_pool_init mem zero initial limit grow pool_name =
     (let p = \<lparr>psize = 0, limit_size = limit, grow_size = (if grow \<noteq> 0 then grow else initial), pin = 0,
               pout = 0, pname = take (PINBA_POOL_NAME_SIZE - 1) pool_name, pdata = []\<rparr>
      in if limit > 0 \<and> limit < initial then (P_FAILURE, p) else pinba_pool_grow mem zero p initial)"

text \<open>The next cell of a traversal.\<close>

definition next_cell :: "'a pinba_pool \<Rightarrow> nat \<Rightarrow> nat" where
  "next_cell p i = (if i = psize p - 1 then 0 else i + 1)"

text \<open>\<^verbatim>\<open>pool_traverse_forward\<close> as the list of cells it visits, \<open>None\<close> if \<open>fuel\<close> steps do not suffice.\<close>

fun traverse_forward :: "nat \<Rightarrow> 'a pinba_pool \<Rightarrow> nat \<Rightarrow> nat list option" where
  "traverse_forward fuel p i =
     (if i = pin p then Some []
      else case fuel of
             0 \<Rightarrow> None
           | Suc fuel \<Rightarrow> map_option (Cons i) (traverse_forward fuel p (next_cell p i)))"

declare traverse_forward.simps [simp del]

definition pool_traverse_forward :: "'a pinba_pool \<Rightarrow> nat list option" where
  "pool_traverse_forward p = traverse_forward (psize p) p (pout p)"

text \<open>
  \<^verbatim>\<open>(position + n) >= size ? (position + n) - size : position + n\<close>, the way every component
  advances a ring position.
\<close>

definition advance :: "'a pinba_pool \<Rightarrow> nat \<Rightarrow> nat \<Rightarrow> nat" where
  "advance p pos n = (if pos + n \<ge> psize p then pos + n - psize p else pos + n)"

section \<open>The ring\<close>

definition pool_ok :: "'a pinba_pool \<Rightarrow> bool" where
  "pool_ok p \<longleftrightarrow> pin p < psize p \<and> pout p < psize p \<and> length (pdata p) = psize p"

definition cells :: "'a pinba_pool \<Rightarrow> nat list" where
  "cells p = (if pout p \<le> pin p then [pout p..<pin p] else [pout p..<psize p] @ [0..<pin p])"

definition ring :: "'a pinba_pool \<Rightarrow> 'a list" where
  "ring p = map ((!) (pdata p)) (cells p)"

lemma length_cells: "pool_ok p \<Longrightarrow> length (cells p) = pinba_pool_num_records p"
  by (auto simp: cells_def pinba_pool_num_records_def pool_ok_def)

lemma length_ring: "pool_ok p \<Longrightarrow> length (ring p) = pinba_pool_num_records p"
  by (simp add: ring_def length_cells)

lemma distinct_cells: "pool_ok p \<Longrightarrow> distinct (cells p)"
  by (auto simp: cells_def pool_ok_def)

lemma cells_bound: "pool_ok p \<Longrightarrow> i \<in> set (cells p) \<Longrightarrow> i < psize p"
  by (auto simp: cells_def pool_ok_def split: if_splits)

lemma num_records_less: "pool_ok p \<Longrightarrow> pinba_pool_num_records p < psize p"
  by (auto simp: pinba_pool_num_records_def pool_ok_def)

lemma is_full_iff: "pool_ok p \<Longrightarrow> pinba_pool_is_full p \<longleftrightarrow> pinba_pool_num_records p = psize p - 1"
  by (auto simp: pinba_pool_is_full_def pinba_pool_num_records_def pool_ok_def)

lemma advance_less: "pool_ok p \<Longrightarrow> pos < psize p \<Longrightarrow> n \<le> psize p \<Longrightarrow> advance p pos n < psize p"
  by (auto simp: advance_def)

lemma advance_mod: "pos < psize p \<Longrightarrow> n \<le> psize p \<Longrightarrow> advance p pos n = (pos + n) mod psize p"
  by (auto simp: advance_def mod_if)

lemma next_cell_advance: "i < psize p \<Longrightarrow> next_cell p i = advance p i 1"
  by (auto simp: next_cell_def advance_def)

text \<open>The cells are the consecutive positions from \<open>out\<close>, modulo the size.\<close>

lemma cells_mod: "pool_ok p \<Longrightarrow> cells p = map (\<lambda>k. (pout p + k) mod psize p) [0..<pinba_pool_num_records p]"
  by (rule nth_equalityI)
    (auto simp: length_cells cells_def pinba_pool_num_records_def pool_ok_def nth_append mod_if)

lemma next_cell_mod: "0 < psize p \<Longrightarrow> next_cell p (x mod psize p) = Suc x mod psize p"
  by (auto simp: next_cell_def mod_Suc)

lemma traverse_suffix:
  assumes "pool_ok p" and "n \<le> fuel" and "n \<le> pinba_pool_num_records p"
  shows "traverse_forward fuel p ((pout p + (pinba_pool_num_records p - n)) mod psize p) =
     Some (drop (pinba_pool_num_records p - n) (cells p))"
  using assms(2,3)
proof (induction n arbitrary: fuel)
  case 0
  have "(pout p + pinba_pool_num_records p) mod psize p = pin p"
    using assms(1) by (auto simp: pinba_pool_num_records_def pool_ok_def mod_if)
  then show ?case using assms(1) by (simp add: traverse_forward.simps length_cells)
next
  case (Suc n)
  let ?k = "pinba_pool_num_records p - Suc n" and ?i = "(pout p + (pinba_pool_num_records p - Suc n)) mod psize p"
  obtain fuel' where f: "fuel = Suc fuel'" using Suc.prems by (cases fuel) auto
  have k: "?k < length (cells p)" "Suc ?k = pinba_pool_num_records p - n"
    using Suc.prems assms(1) by (auto simp: length_cells)
  have "?i \<noteq> pin p"
    using assms(1) Suc.prems by (auto simp: pinba_pool_num_records_def pool_ok_def mod_if)
  moreover have "next_cell p ?i = (pout p + (pinba_pool_num_records p - n)) mod psize p"
  proof -
    have "0 < psize p" and e: "Suc (pout p + ?k) = pout p + (pinba_pool_num_records p - n)"
      using assms(1) k(2) by (auto simp: pool_ok_def)
    then show ?thesis using next_cell_mod [of p "pout p + ?k"] unfolding e by blast
  qed
  moreover have "drop ?k (cells p) = ?i # drop (Suc ?k) (cells p)"
    using k(1) assms(1) by (simp add: Cons_nth_drop_Suc [symmetric] cells_mod)
  ultimately show ?case
    using Suc.IH [of fuel'] Suc.prems f k(2) by (simp add: traverse_forward.simps)
qed

lemma pool_traverse_cells: "pool_ok p \<Longrightarrow> pool_traverse_forward p = Some (cells p)"
  using traverse_suffix [of p "pinba_pool_num_records p" "psize p"] num_records_less [of p]
  by (simp add: pool_traverse_forward_def pool_ok_def)

text \<open>Moving \<open>out\<close> forward drops the oldest elements.\<close>

lemma pop_cells:
  assumes "pool_ok p" and "n \<le> pinba_pool_num_records p"
  shows "pool_ok (p\<lparr>pout := advance p (pout p) n\<rparr>)" and "cells (p\<lparr>pout := advance p (pout p) n\<rparr>) = drop n (cells p)"
    and "ring (p\<lparr>pout := advance p (pout p) n\<rparr>) = drop n (ring p)"
proof -
  show ok: "pool_ok (p\<lparr>pout := advance p (pout p) n\<rparr>)"
    using assms num_records_less [of p] by (auto simp: pool_ok_def advance_def)
  show c: "cells (p\<lparr>pout := advance p (pout p) n\<rparr>) = drop n (cells p)"
    using assms by (auto simp: cells_def advance_def pool_ok_def pinba_pool_num_records_def drop_append
        add.commute [of n] split: if_splits)
  show "ring (p\<lparr>pout := advance p (pout p) n\<rparr>) = drop n (ring p)"
    using c by (simp add: ring_def drop_map)
qed

text \<open>Moving \<open>in\<close> forward publishes the cells after it.\<close>

definition free_cells :: "'a pinba_pool \<Rightarrow> nat \<Rightarrow> nat list" where
  "free_cells p n = map (advance p (pin p)) [0..<n]"

lemma push_cells:
  assumes "pool_ok p" and "pinba_pool_num_records p + n < psize p"
  shows "pool_ok (p\<lparr>pin := advance p (pin p) n\<rparr>)" and "cells (p\<lparr>pin := advance p (pin p) n\<rparr>) = cells p @ free_cells p n"
    and "ring (p\<lparr>pin := advance p (pin p) n\<rparr>) = ring p @ map ((!) (pdata p)) (free_cells p n)"
proof -
  let ?q = "p\<lparr>pin := advance p (pin p) n\<rparr>"
  show ok: "pool_ok ?q"
    using assms by (auto simp: pool_ok_def advance_def)
  have n: "pinba_pool_num_records ?q = pinba_pool_num_records p + n"
    using assms by (auto simp: pinba_pool_num_records_def pool_ok_def advance_def split: if_splits)
  show c: "cells ?q = cells p @ free_cells p n"
  proof (rule nth_equalityI)
    show "length (cells ?q) = length (cells p @ free_cells p n)"
      using assms(1) ok n by (simp add: length_cells free_cells_def)
    fix k assume "k < length (cells ?q)"
    then have k: "k < pinba_pool_num_records p + n" using ok n by (simp add: length_cells)
    have in_eq: "pin p = (pout p + pinba_pool_num_records p) mod psize p"
      using assms(1) by (auto simp: pinba_pool_num_records_def pool_ok_def mod_if)
    have "(pin p + (k - pinba_pool_num_records p)) mod psize p = (pout p + k) mod psize p"
      if le: "pinba_pool_num_records p \<le> k"
    proof -
      obtain j where "k = pinba_pool_num_records p + j" using le by (auto simp: nat_le_iff_add)
      then have "pout p + k = pout p + pinba_pool_num_records p + j"
        and "k - pinba_pool_num_records p = j" by simp_all
      then show ?thesis using mod_add_left_eq [of "pout p + pinba_pool_num_records p" "psize p" j] in_eq by (simp add: add.assoc)
    qed
    then show "cells ?q ! k = (cells p @ free_cells p n) ! k"
      using k n ok assms
      by (auto simp: cells_mod nth_append free_cells_def advance_mod pool_ok_def)
  qed
  show "ring ?q = ring p @ map ((!) (pdata p)) (free_cells p n)"
    using c by (simp add: ring_def)
qed

lemma free_cells_fresh:
  assumes "pool_ok p" and "pinba_pool_num_records p + n < psize p"
  shows "set (free_cells p n) \<inter> set (cells p) = {}" and "distinct (free_cells p n)"
    and "\<forall>i \<in> set (free_cells p n). i < psize p"
proof -
  have "distinct (cells p @ free_cells p n)"
    using push_cells(1,2) [OF assms] distinct_cells [of "p\<lparr>pin := advance p (pin p) n\<rparr>"] by simp
  then show "set (free_cells p n) \<inter> set (cells p) = {}" "distinct (free_cells p n)" by auto
  show "\<forall>i \<in> set (free_cells p n). i < psize p"
    using assms by (auto simp: free_cells_def pool_ok_def intro!: advance_less)
qed

section \<open>Growing\<close>

text \<open>What a successful growth does, whatever \<^verbatim>\<open>realloc\<close> left in the new cells.\<close>

lemma pool_grow_effect:
  assumes g: "pinba_pool_grow (Some junk) zero p n = (P_SUCCESS, q)" and len: "length (pdata p) = psize p"
    and junk: "length junk = pinba_pool_new_size p n - psize p"
    and pos: "pin p \<le> psize p" "pout p \<le> psize p" "psize p = 0 \<Longrightarrow> pout p \<le> pin p"
  defines "added \<equiv> pinba_pool_new_size p n - psize p"
  shows "0 < added" and "psize q = psize p + added" and "pin q = pin p" and "length (pdata q) = psize q"
    and "pout q = (if pout p > pin p then pout p + added else pout p)"
    and "pdata q = (if pout p > pin p then take (pout p) (pdata p) @ replicate added zero @ drop (pout p) (pdata p)
                    else pdata p @ replicate added zero)"
  using g len junk pos unfolding added_def
  by (cases "psize p = 0"; auto simp: pinba_pool_grow_def Let_def memset_cells_def memmove_cells_def
      split: if_splits)+

lemma pool_grow_result:
  "fst (pinba_pool_grow mem zero p n) = P_SUCCESS \<longleftrightarrow> mem \<noteq> None \<and> psize p < pinba_pool_new_size p n"
  "fst (pinba_pool_grow mem zero p n) = P_FAILURE \<Longrightarrow> snd (pinba_pool_grow mem zero p n) = p"
  by (auto simp: pinba_pool_grow_def Let_def split: option.splits if_splits)

lemma grow_ring:
  assumes g: "pinba_pool_grow (Some junk) zero p n = (P_SUCCESS, q)" and ok: "pool_ok p"
    and junk: "length junk = pinba_pool_new_size p n - psize p"
  shows "pool_ok q" and "ring q = ring p"
proof -
  note e = pool_grow_effect [OF g _ junk]
  show "pool_ok q" using ok e by (auto simp: pool_ok_def)
  have "map ((!) (pdata q)) (cells q) = map ((!) (pdata p)) (cells p)"
  proof (cases "pout p > pin p")
    case True
    let ?m = "pinba_pool_new_size p n - psize p"
    have d: "pdata q = take (pout p) (pdata p) @ replicate ?m zero @ drop (pout p) (pdata p)"
      and c: "cells q = [pout p + ?m..<psize p + ?m] @ [0..<pin p]"
      using True ok e by (auto simp: pool_ok_def cells_def)
    have "map ((!) (pdata q)) [pout p + ?m..<psize p + ?m] = map ((!) (pdata p)) [pout p..<psize p]"
      using ok True by (intro nth_equalityI) (auto simp: d nth_append pool_ok_def)
    moreover have "map ((!) (pdata q)) [0..<pin p] = map ((!) (pdata p)) [0..<pin p]"
      using ok True by (auto simp: d nth_append pool_ok_def)
    ultimately show ?thesis using True by (simp add: c cells_def [of p])
  next
    case False
    then show ?thesis using ok e by (auto simp: pool_ok_def cells_def nth_append)
  qed
  then show "ring q = ring p" by (simp add: ring_def)
qed

text \<open>A pool of three cells that has wrapped around.\<close>

definition sample_pool :: "nat pinba_pool" where
  "sample_pool = \<lparr>psize = 4, limit_size = 0, grow_size = 4, pin = 1, pout = 3, pname = ''sample'',
     pdata = [20, 0, 0, 10]\<rparr>"

lemma sample_pool_ok: "pool_ok sample_pool"
  by (simp add: pool_ok_def sample_pool_def)

text \<open>
  C19: Growing a ring keeps its content and its order, also when it has wrapped around and the
  old tail is moved to the new end, and leaves no cell uninitialised whatever the allocator
  returned; it succeeds exactly when the allocator does and the size limit and the range of
  size_t leave room; when it fails the pool is unchanged.
\<close>

theorem pool_grow_keeps_content:
  assumes "pool_ok p" and "length junk = pinba_pool_new_size p n - psize p"
  shows "(case pinba_pool_grow (Some junk) zero p n of
            (P_SUCCESS, q) \<Rightarrow> psize p < psize q \<and> pool_ok q \<and> ring q = ring p \<and>
              set (pdata q) \<subseteq> insert zero (set (pdata p))
          | (P_FAILURE, q) \<Rightarrow> q = p \<and> pinba_pool_new_size p n \<le> psize p) \<and>
         pinba_pool_grow None zero p n = (P_FAILURE, p)"
proof (rule conjI)
  obtain res q where g: "pinba_pool_grow (Some junk) zero p n = (res, q)"
    by (cases "pinba_pool_grow (Some junk) zero p n")
  show "case pinba_pool_grow (Some junk) zero p n of
      (P_SUCCESS, q) \<Rightarrow> psize p < psize q \<and> pool_ok q \<and> ring q = ring p \<and>
        set (pdata q) \<subseteq> insert zero (set (pdata p))
    | (P_FAILURE, q) \<Rightarrow> q = p \<and> pinba_pool_new_size p n \<le> psize p"
  proof (cases res)
    case P_SUCCESS
    note e = pool_grow_effect [OF g [unfolded P_SUCCESS] _ assms(2)]
    have "set (pdata q) \<subseteq> insert zero (set (pdata p))"
      using e(6) assms(1) by (auto simp: pool_ok_def dest: in_set_takeD in_set_dropD)
    then show ?thesis
      using e(1,2) grow_ring [OF g [unfolded P_SUCCESS] assms] assms(1) by (simp add: g P_SUCCESS pool_ok_def)
  next
    case P_FAILURE
    then show ?thesis
      using g pool_grow_result [of "Some junk" zero p n] by auto
  qed
  show "pinba_pool_grow None zero p n = (P_FAILURE, p)"
    by (simp add: pinba_pool_grow_def Let_def)
qed

theorem pool_grow_keeps_content_witness:
  "ring (snd (pinba_pool_grow (Some [7, 7, 7, 7]) 0 sample_pool 0)) = [10, 20] \<and>
   pdata (snd (pinba_pool_grow (Some [7, 7, 7, 7]) 0 sample_pool 0)) = [20, 0, 0, 0, 0, 0, 0, 10]"
proof -
  have n: "pinba_pool_new_size sample_pool 0 = 8"
    by (simp add: pinba_pool_new_size_def sample_pool_def)
  have g: "pinba_pool_grow (Some [7, 7, 7, 7]) 0 sample_pool 0 =
      (P_SUCCESS, sample_pool\<lparr>psize := 8, pout := 7, pdata := [20, 0, 0, 0, 0, 0, 0, 10]\<rparr>)"
    unfolding pinba_pool_grow_def n Let_def
    by (simp add: sample_pool_def memset_cells_def memmove_cells_def numeral_eq_Suc)
  have "length [7, 7, 7, 7 :: nat] = pinba_pool_new_size sample_pool 0 - psize sample_pool"
    unfolding n by (simp add: sample_pool_def)
  from pool_grow_keeps_content [OF sample_pool_ok this, of 0] have
    "ring (snd (pinba_pool_grow (Some [7, 7, 7, 7]) 0 sample_pool 0)) = ring sample_pool"
    by (simp add: g)
  moreover have "ring sample_pool = [10, 20]" by (simp add: ring_def cells_def sample_pool_def upt_rec)
  ultimately show ?thesis by (simp add: g)
qed

end
