(* ===== verification/Report_Jobs.thy ===== *)
theory Report_Jobs
  imports Samples Pool "HOL-Library.Sublist"
begin

text \<open>
  How the reports are fed: the conditions of a report (\<^verbatim>\<open>CHECK_REPORT_CONDITIONS_CONTINUE\<close>,
  \<^verbatim>\<open>src/pinba.h\<close>), the array of registered reports and the per-report job
  (\<^verbatim>\<open>update_reports_func\<close>, \<^verbatim>\<open>src/pool.cc\<close>) that runs over a range of cells of the request pool
  and calls the report's add or delete function on each request that meets the conditions.
  The job is generic in the report: \<open>get_std\<close> and \<open>upd_std\<close> reach its header, as the casts to
  \<^verbatim>\<open>pinba_std_report\<close> do.
\<close>

unbundle bit_operations_syntax

section \<open>Conditions\<close>

text \<open>
  The search for one required tag: the number of tags found so far, and whether the search
  stopped at a tag with another value.
\<close>

fun cond_tag_scan ::
  "pinba_word \<Rightarrow> pinba_word \<Rightarrow> (pinba_word \<times> pinba_word) list \<Rightarrow> nat \<Rightarrow> nat \<times> bool" where
  "cond_tag_scan name val [] found = (found, False)"
| "cond_tag_scan name val ((n, v) # ts) found =
     (if same_word name n then
        if same_word val v then cond_tag_scan name val ts (found + 1) else (found, True)
      else cond_tag_scan name val ts found)"

fun cond_tags_found ::
  "(pinba_word \<times> pinba_word) list \<Rightarrow> (pinba_word \<times> pinba_word) list \<Rightarrow> nat \<Rightarrow> nat" where
  "cond_tags_found [] ts found = found"
| "cond_tags_found ((name, val) # cs) ts found =
     (case cond_tag_scan name val ts found of
        (found, skip) \<Rightarrow> if skip then found else cond_tags_found cs ts found)"

definition CHECK_REPORT_CONDITIONS :: "pinba_std_report \<Rightarrow> pinba_stats_record \<Rightarrow> bool" where
  "CHECK_REPORT_CONDITIONS report record =
     (if flags report AND PINBA_REPORT_CONDITIONAL \<noteq> 0 \<and>
         (fless (FNum 0) (min_time (cond report)) \<and>
            fless (timeval_to_float (req_time record)) (min_time (cond report)) \<or>
          fless (FNum 0) (max_time (cond report)) \<and>
            fless (max_time (cond report)) (timeval_to_float (req_time record)))
      then False
      else if flags report AND PINBA_REPORT_TAGGED \<noteq> 0 \<and>
              (tags record = [] \<or>
               cond_tags_found (cond_tags (cond report)) (tags record) 0 \<noteq> length (cond_tags (cond report)))
      then False
      else True)"

lemma cond_tag_scan_bound:
  "cond_tag_scan name val ts found = (n, b) \<Longrightarrow> found \<le> n"
  by (induction name val ts found arbitrary: n b rule: cond_tag_scan.induct) (fastforce split: if_splits)+

lemma cond_tag_scan_distinct:
  assumes "distinct (map (word_addr \<circ> fst) ts)"
  shows "cond_tag_scan name val ts found =
     (if \<exists>(n, v) \<in> set ts. same_word name n \<and> same_word val v then (found + 1, False)
      else if \<exists>(n, v) \<in> set ts. same_word name n then (found, True)
      else (found, False))"
  using assms
proof (induction ts arbitrary: found)
  case (Cons t ts)
  obtain n v where t: "t = (n, v)" by (cases t)
  show ?case
  proof (cases "same_word name n")
    case True
    then have "\<not> (\<exists>(n, v) \<in> set ts. same_word name n)"
      using Cons.prems by (force simp: t same_word_def)
    then show ?thesis using True Cons.IH [of "found + 1"] Cons.prems by (auto simp: t)
  next
    case False
    then show ?thesis using Cons by (auto simp: t)
  qed
qed simp

lemma cond_tags_found_iff:
  assumes "distinct (map (word_addr \<circ> fst) ts)"
  shows "cond_tags_found cs ts found \<le> found + length cs \<and>
     (cond_tags_found cs ts found = found + length cs \<longleftrightarrow>
        (\<forall>(name, val) \<in> set cs. \<exists>(n, v) \<in> set ts. same_word name n \<and> same_word val v))"
proof (induction cs arbitrary: found)
  case (Cons c cs)
  obtain name val where c: "c = (name, val)" by (cases c)
  show ?case
    using Cons.IH [of found] Cons.IH [of "found + 1"] cond_tag_scan_distinct [OF assms, of name val found]
    by (auto simp: c)
qed simp

definition sample_filter :: pinba_std_report where
  "sample_filter = (sample_std PINBA_TABLE_REPORT1)
     \<lparr>flags := 7, cond := \<lparr>min_time = FNum (1 / 8), max_time = FNum 0,
                       cond_tags = [(sample_word 3 ''app'', sample_word 11 ''web'')]\<rparr>\<rparr>"

text \<open>
  C21: A request meets the conditions of a report exactly when its time is not below a
  positive minimum and not above a positive maximum (if the report is conditional) and it
  carries every required tag with the required value (if the report is tagged), for requests
  that carry no tag twice.
\<close>

theorem report_conditions_iff:
  assumes "distinct (map (word_addr \<circ> fst) (tags record))"
    and "min_time (cond report) = FNum lo" and "max_time (cond report) = FNum hi"
    and "timeval_to_float (req_time record) = FNum t"
  shows "CHECK_REPORT_CONDITIONS report record \<longleftrightarrow>
     (flags report AND PINBA_REPORT_CONDITIONAL \<noteq> 0 \<longrightarrow> (0 < lo \<longrightarrow> lo \<le> t) \<and> (0 < hi \<longrightarrow> t \<le> hi)) \<and>
     (flags report AND PINBA_REPORT_TAGGED \<noteq> 0 \<longrightarrow>
        tags record \<noteq> [] \<and>
        (\<forall>(name, val) \<in> set (cond_tags (cond report)).
           \<exists>(n, v) \<in> set (tags record). same_word name n \<and> same_word val v))"
  using cond_tags_found_iff [OF assms(1), of "cond_tags (cond report)" 0] assms(2-4)
  unfolding CHECK_REPORT_CONDITIONS_def by auto

theorem report_conditions_iff_witness:
  "CHECK_REPORT_CONDITIONS sample_filter
     (sample_tagged ''h1'' [(sample_word 4 ''dc'', sample_word 21 ''eu''), (sample_word 3 ''app'', sample_word 11 ''web'')]) \<and>
   \<not> CHECK_REPORT_CONDITIONS sample_filter
     (sample_tagged ''h1'' [(sample_word 3 ''app'', sample_word 12 ''api'')])"
proof -
  have t: "timeval_to_float (req_time (sample_tagged h tgs)) = FNum (1 / 4)" for h tgs
    by (simp add: sample_tagged_def sample_request_def) code_simp
  have f: "min_time (cond sample_filter) = FNum (1 / 8)" "max_time (cond sample_filter) = FNum 0"
    by (simp_all add: sample_filter_def)
  show ?thesis
  proof
    show "CHECK_REPORT_CONDITIONS sample_filter
       (sample_tagged ''h1'' [(sample_word 4 ''dc'', sample_word 21 ''eu''), (sample_word 3 ''app'', sample_word 11 ''web'')])"
      by (subst report_conditions_iff [OF _ f t]) (simp_all add: sample_filter_def sample_tagged_def same_word_def)
    show "\<not> CHECK_REPORT_CONDITIONS sample_filter (sample_tagged ''h1'' [(sample_word 3 ''app'', sample_word 12 ''api'')])"
      by (subst report_conditions_iff [OF _ f t]) (simp_all add: sample_filter_def sample_tagged_def same_word_def)
  qed
qed

lemma cond_tag_scan_same:
  "\<forall>(n, v) \<in> set ts. same_word name n \<longrightarrow> same_word val v \<Longrightarrow>
   cond_tag_scan name val ts found = (found + length (filter (\<lambda>(n, v). same_word name n) ts), False)"
  by (induction name val ts found rule: cond_tag_scan.induct) auto

lemma cond_tags_found_none:
  "\<forall>(name, val) \<in> set cs. \<forall>(n, v) \<in> set ts. \<not> same_word name n \<Longrightarrow> cond_tags_found cs ts found = found"
proof (induction cs)
  case (Cons c cs)
  obtain name val where c: "c = (name, val)" by (cases c)
  have "filter (\<lambda>(n, v). same_word name n) ts = []" using Cons.prems by (auto simp: c filter_empty_conv)
  then have "cond_tag_scan name val ts found = (found, False)"
    using cond_tag_scan_same [of ts name val found] Cons.prems by (auto simp: c)
  then show ?case using Cons by (simp add: c)
qed simp

text \<open>
  C22: Every occurrence of a required tag is counted. For any report that requires tags but sets no
  time bounds, a request that carries the first of them as often as there are required tags, always
  with the required value, is taken although it carries none of the other required tags.
\<close>

theorem report_conditions_duplicate:
  assumes "flags report AND PINBA_REPORT_CONDITIONAL = 0"
    and "cond_tags (cond report) = (name, val) # cs"
    and "length (filter (\<lambda>(n, v). same_word name n) (tags record)) = Suc (length cs)"
    and "\<forall>(n, v) \<in> set (tags record). same_word name n \<longrightarrow> same_word val v"
    and "\<forall>(name', val') \<in> set cs. \<forall>(n, v) \<in> set (tags record). \<not> same_word name' n"
  shows "CHECK_REPORT_CONDITIONS report record"
proof -
  have "tags record \<noteq> []" using assms(3) by auto
  moreover have "cond_tags_found ((name, val) # cs) (tags record) 0 = Suc (length cs)"
    using cond_tag_scan_same [OF assms(4), of 0] cond_tags_found_none [OF assms(5)] assms(3) by simp
  ultimately show ?thesis using assms(1,2) by (simp add: CHECK_REPORT_CONDITIONS_def)
qed

theorem report_conditions_duplicate_witness:
  "CHECK_REPORT_CONDITIONS
     (sample_filter\<lparr>flags := 4, cond := \<lparr>min_time = FNum 0, max_time = FNum 0,
        cond_tags = [(sample_word 3 ''app'', sample_word 11 ''web''), (sample_word 4 ''dc'', sample_word 21 ''eu'')]\<rparr>\<rparr>)
     (sample_tagged ''h1'' [(sample_word 3 ''app'', sample_word 11 ''web''), (sample_word 3 ''app'', sample_word 11 ''web'')])"
  by (rule report_conditions_duplicate [of _ "sample_word 3 ''app''" "sample_word 11 ''web''" "[(sample_word 4 ''dc'', sample_word 21 ''eu'')]"])
    (simp_all add: sample_filter_def sample_tagged_def same_word_def)

section \<open>Registered reports\<close>

text \<open>
  \<^verbatim>\<open>pinba_array_t\<close>: the pointers of the registered reports. A failed \<^verbatim>\<open>realloc\<close> leaves a null
  pointer in \<^verbatim>\<open>data\<close> and the old size.
\<close>

record 'r pinba_array =
  arr_data :: "'r list option"
  arr_size :: nat

definition pinba_array_add :: "bool \<Rightarrow> 'r pinba_array \<Rightarrow> 'r \<Rightarrow> int \<times> 'r pinba_array" where
  "pinba_array_add ok array report =
     (if \<not> ok then (- 1, array\<lparr>arr_data := None\<rparr>)
      else (0, \<lparr>arr_data = Some (take (arr_size array) (case arr_data array of None \<Rightarrow> [] | Some d \<Rightarrow> d) @ [report]),
               arr_size = arr_size array + 1\<rparr>))"

fun array_find :: "'r list \<Rightarrow> nat \<Rightarrow> 'r \<Rightarrow> nat option" where
  "array_find [] i report = None"
| "array_find (r # rs) i report = (if r = report then Some i else array_find rs (i + 1) report)"

definition pinba_array_delete :: "'r pinba_array \<Rightarrow> 'r \<Rightarrow> int \<times> 'r pinba_array" where
  "pinba_array_delete array report =
     (case arr_data array of
        None \<Rightarrow> (- 1, array)
      | Some d \<Rightarrow>
          (case array_find (take (arr_size array) d) 0 report of
             None \<Rightarrow> (- 1, array)
           | Some i \<Rightarrow>
               (0, array\<lparr>arr_data := Some (if i \<noteq> arr_size array - 1
                             then memmove_cells d i (i + 1) (arr_size array - (i + 1)) else d),
                         arr_size := arr_size array - 1\<rparr>)))"

definition array_list :: "'r pinba_array \<Rightarrow> 'r list" where
  "array_list array = (case arr_data array of None \<Rightarrow> [] | Some d \<Rightarrow> take (arr_size array) d)"

definition array_ok :: "'r pinba_array \<Rightarrow> bool" where
  "array_ok array \<longleftrightarrow> (case arr_data array of None \<Rightarrow> arr_size array = 0 | Some d \<Rightarrow> arr_size array \<le> length d)"

lemma array_find_eq:
  "array_find rs i report =
     (if report \<in> set rs then Some (i + length (takeWhile (\<lambda>r. r \<noteq> report) rs)) else None)"
  by (induction rs arbitrary: i) auto

lemma takeWhile_stops: "x \<in> set xs \<Longrightarrow> length (takeWhile (\<lambda>r. r \<noteq> x) xs) < length xs"
  by (induction xs) auto

lemma remove1_takeWhile:
  "x \<in> set xs \<Longrightarrow> remove1 x xs =
     takeWhile (\<lambda>r. r \<noteq> x) xs @ drop (Suc (length (takeWhile (\<lambda>r. r \<noteq> x) xs))) xs"
  by (induction xs) auto

lemma report_array_result:
  assumes "array_ok array"
  shows "(case pinba_array_add True array report of
            (rc, array') \<Rightarrow> rc = 0 \<and> array_ok array' \<and> array_list array' = array_list array @ [report]) \<and>
         (case pinba_array_delete array report of
            (rc, array') \<Rightarrow>
              array_ok array' \<and> array_list array' = remove1 report (array_list array) \<and>
              rc = (if report \<in> set (array_list array) then 0 else - 1))"
proof (rule conjI)
  show "case pinba_array_add True array report of
      (rc, array') \<Rightarrow> rc = 0 \<and> array_ok array' \<and> array_list array' = array_list array @ [report]"
    using assms by (auto simp: pinba_array_add_def array_ok_def array_list_def split: option.splits)
  show "case pinba_array_delete array report of
      (rc, array') \<Rightarrow>
        array_ok array' \<and> array_list array' = remove1 report (array_list array) \<and>
        rc = (if report \<in> set (array_list array) then 0 else - 1)"
  proof (cases "report \<in> set (array_list array)")
    case False
    then show ?thesis
      using assms by (auto simp: pinba_array_delete_def array_list_def array_find_eq remove1_idem
          split: option.splits)
  next
    case True
    then obtain d where d: "arr_data array = Some d" "report \<in> set (take (arr_size array) d)"
      "arr_size array \<le> length d"
      using assms by (auto simp: array_list_def array_ok_def split: option.splits)
    let ?l = "take (arr_size array) d"
    define i where "i = length (takeWhile (\<lambda>r. r \<noteq> report) ?l)"
    have i: "i < arr_size array"
      unfolding i_def using takeWhile_stops [OF d(2)] d(3) by simp
    have "takeWhile (\<lambda>r. r \<noteq> report) ?l = take i ?l" unfolding i_def by (rule takeWhile_eq_take)
    then have rm: "remove1 report ?l = take i d @ drop (Suc i) ?l"
      using i d(3) remove1_takeWhile [OF d(2)] by (simp add: i_def [symmetric])
    have "take (arr_size array - 1) (memmove_cells d i (i + 1) (arr_size array - (i + 1))) = remove1 report ?l"
      unfolding rm using i d(3) by (simp add: memmove_cells_def drop_take)
    moreover have "take (arr_size array - 1) d = remove1 report ?l" if "i = arr_size array - 1"
      unfolding rm using that i d(3) by simp
    moreover have "array_find ?l 0 report = Some i"
      using d(2) by (simp add: array_find_eq i_def)
    moreover have "arr_size array - 1 \<le> length (memmove_cells d i (i + 1) (arr_size array - (i + 1)))"
      using i d(3) by (simp add: memmove_cells_def)
    ultimately show ?thesis
      using d by (auto simp: pinba_array_delete_def array_list_def array_ok_def)
  qed
qed

text \<open>
  C23: The array of registered reports behaves as a list: adding appends the report, deleting
  removes its first occurrence and keeps the order of the others, and both report success;
  deleting a report that is not registered changes nothing and says so.
\<close>

theorem report_array_list:
  assumes "array_ok array"
  shows "(case pinba_array_add True array report of
            (rc, array') \<Rightarrow> rc = 0 \<and> array_ok array' \<and> array_list array' = array_list array @ [report]) \<and>
         (case pinba_array_delete array report of
            (rc, array') \<Rightarrow>
              array_ok array' \<and> array_list array' = remove1 report (array_list array) \<and>
              rc = (if report \<in> set (array_list array) then 0 else - 1))"
  using assms by (rule report_array_result)

theorem report_array_list_witness:
  "array_list (snd (pinba_array_delete \<lparr>arr_data = Some [3, 5, 7 :: nat], arr_size = 3\<rparr> 5)) = [3, 7]"
proof -
  let ?a = "\<lparr>arr_data = Some [3, 5, 7 :: nat], arr_size = 3\<rparr>"
  have a: "array_ok ?a" "array_list ?a = [3, 5, 7]" by (simp_all add: array_ok_def array_list_def)
  show ?thesis using report_array_list [OF a(1), of 5] a(2) by (simp add: split_beta)
qed

section \<open>The job of one report\<close>

text \<open>The seconds between the oldest and the newest request of the pool, at least one.\<close>

definition pinba_get_time_interval :: "pinba_stats_record pinba_pool \<Rightarrow> int" where
  "pinba_get_time_interval p =
     (if pin p \<noteq> pout p then
        let start = tv_sec (rec_time (pdata p ! pout p));
            last = (if pin p > 0 then tv_sec (rec_time (pdata p ! (pin p - 1)))
                   else tv_sec (rec_time (pdata p ! (psize p - 1))));
            res = last - start
        in if res \<le> 0 then 1 else res
      else 1)"

text \<open>The processor times of the thread before and after the job, as \<^verbatim>\<open>getrusage\<close> gives them.\<close>

record rusage =
  rusage_utime :: pinba_timeval
  rusage_stime :: pinba_timeval

definition pinba_report_add_rusage :: "pinba_std_report \<Rightarrow> rusage \<Rightarrow> rusage \<Rightarrow> pinba_std_report" where
  "pinba_report_add_rusage report start_rusage final =
     report\<lparr>std_ru_utime := pinba_timeradd (std_ru_utime report)
               (pinba_timersub (rusage_utime final) (rusage_utime start_rusage)),
            std_ru_stime := pinba_timeradd (std_ru_stime report)
               (pinba_timersub (rusage_stime final) (rusage_stime start_rusage))\<rparr>"

record report_job =
  job_prefix :: nat
  job_count :: nat
  job_add :: bool

type_synonym 'p header_get = "'p \<Rightarrow> pinba_std_report"
type_synonym 'p header_upd = "(pinba_std_report \<Rightarrow> pinba_std_report) \<Rightarrow> 'p \<Rightarrow> 'p"
type_synonym 'p update_function = "nat \<Rightarrow> 'p \<Rightarrow> pinba_stats_record \<Rightarrow> 'p"

fun report_loop ::
  "'p header_get \<Rightarrow> 'p update_function \<Rightarrow> pinba_stats_record pinba_pool \<Rightarrow> nat \<Rightarrow> nat \<Rightarrow> 'p \<Rightarrow> 'p" where
  "report_loop get_std func p tmp_id 0 report = report"
| "report_loop get_std func p tmp_id (Suc n) report =
     (let record = pdata p ! tmp_id
      in report_loop get_std func p (next_cell p tmp_id) n
           (if CHECK_REPORT_CONDITIONS (get_std report) record then func tmp_id report record else report))"

definition report_start :: "pinba_stats_record \<Rightarrow> pinba_std_report \<Rightarrow> pinba_std_report" where
  "report_start record s =
     (if tv_sec (start s) = 0 then s\<lparr>start := rec_time record, request_pool_start_id := counter record\<rparr> else s)"

definition update_reports_func ::
  "'p header_get \<Rightarrow> 'p header_upd \<Rightarrow> 'p update_function \<Rightarrow> 'p update_function \<Rightarrow> rusage \<Rightarrow> rusage \<Rightarrow>
   pinba_stats_record pinba_pool \<Rightarrow> report_job \<Rightarrow> 'p \<Rightarrow> 'p" where
  "update_reports_func get_std upd_std add_func delete_func ru0 ru1 p d report =
     (let tmp_id = (if job_prefix d \<ge> psize p then job_prefix d - psize p else job_prefix d);
          report = (if job_add d
                    then upd_std (\<lambda>s. let s = report_start (pdata p ! tmp_id) s
                                      in s\<lparr>packets_cnt := packets_cnt s + of_nat (job_count d)\<rparr>) report
                    else report);
          report = report_loop get_std (if job_add d then add_func else delete_func) p tmp_id (job_count d) report
      in upd_std (\<lambda>s. (pinba_report_add_rusage s ru0 ru1)\<lparr>time_interval := pinba_get_time_interval p\<rparr>) report)"

text \<open>Feeding one request to every registered report, as the destructor of the pool does.\<close>

definition pinba_update_add ::
  "'p header_get \<Rightarrow> 'p header_upd \<Rightarrow> 'p update_function \<Rightarrow> pinba_stats_record pinba_pool \<Rightarrow> 'p list \<Rightarrow> nat \<Rightarrow>
   pinba_stats_record \<Rightarrow> 'p list" where
  "pinba_update_add get_std upd_std add_func p reports request_id record =
     map (\<lambda>report.
        if CHECK_REPORT_CONDITIONS (get_std report) record
        then upd_std (\<lambda>s. s\<lparr>time_interval := pinba_get_time_interval p\<rparr>) (add_func request_id report record)
        else report) reports"

definition pinba_update_delete ::
  "'p header_get \<Rightarrow> 'p header_upd \<Rightarrow> 'p update_function \<Rightarrow> pinba_stats_record pinba_pool \<Rightarrow> 'p list \<Rightarrow> nat \<Rightarrow>
   pinba_stats_record \<Rightarrow> 'p list" where
  "pinba_update_delete get_std upd_std delete_func p reports request_id record =
     map (\<lambda>report.
        if CHECK_REPORT_CONDITIONS (get_std report) record
        then upd_std (\<lambda>s. s\<lparr>time_interval := pinba_get_time_interval p\<rparr>) (delete_func request_id report record)
        else report) reports"

section \<open>A report follows the ring\<close>

text \<open>The requests in a list of cells that a report takes part in.\<close>

definition taken :: "(nat \<Rightarrow> pinba_stats_record \<Rightarrow> 'r) \<Rightarrow> pinba_std_report \<Rightarrow> pinba_stats_record pinba_pool \<Rightarrow> nat list \<Rightarrow> 'r list" where
  "taken item s p is =
     map (\<lambda>i. item i (pdata p ! i)) (filter (\<lambda>i. CHECK_REPORT_CONDITIONS s (pdata p ! i)) is)"

lemma taken_append: "taken item s p (is @ js) = taken item s p is @ taken item s p js"
  by (simp add: taken_def)

lemma report_loop_fold:
  assumes "\<And>i R r. CHECK_REPORT_CONDITIONS (get_std (step R (item i r))) = CHECK_REPORT_CONDITIONS (get_std R)"
    and "i < psize p" and "n \<le> psize p"
  shows "report_loop get_std (\<lambda>i R r. step R (item i r)) p i n R =
     fold (\<lambda>r R. step R r) (taken item (get_std R) p (map (advance p i) [0..<n])) R"
  using assms(2,3)
proof (induction n arbitrary: i R)
  case 0
  then show ?case by (simp add: taken_def)
next
  case (Suc n)
  let ?r = "pdata p ! i"
  let ?R = "if CHECK_REPORT_CONDITIONS (get_std R) ?r then step R (item i ?r) else R"
  have nx: "next_cell p i < psize p" using Suc.prems by (auto simp: next_cell_def)
  have "map (advance p i) [0..<Suc n] = i # map (advance p (next_cell p i)) [0..<n]"
    using Suc.prems
    by (auto simp: upt_conv_Cons map_Suc_upt [symmetric] comp_def advance_def next_cell_def simp del: upt_Suc)
  moreover have "CHECK_REPORT_CONDITIONS (get_std ?R) = CHECK_REPORT_CONDITIONS (get_std R)"
    by (simp add: assms(1))
  then have "taken item (get_std ?R) p js = taken item (get_std R) p js" for js
    by (simp add: taken_def)
  ultimately show ?case
    using Suc.IH [OF nx, of ?R] Suc.prems by (auto simp: taken_def Let_def)
qed

text \<open>What a change of the header leaves alone: everything the rows and the conditions depend on.\<close>

definition header_kept :: "pinba_std_report \<Rightarrow> pinba_std_report \<Rightarrow> bool" where
  "header_kept s s' \<longleftrightarrow>
     cond s' = cond s \<and> flags s' = flags s \<and> rtype s' = rtype s \<and>
     histogram_max_time s' = histogram_max_time s \<and> histogram_segment s' = histogram_segment s \<and>
     std_histogram s' = std_histogram s \<and> results_cnt s' = results_cnt s"

definition same_start :: "pinba_std_report \<Rightarrow> pinba_std_report \<Rightarrow> bool" where
  "same_start s s' \<longleftrightarrow> start s' = start s \<and> request_pool_start_id s' = request_pool_start_id s"

lemma conditions_cong:
  "cond s' = cond s \<Longrightarrow> flags s' = flags s \<Longrightarrow> CHECK_REPORT_CONDITIONS s' = CHECK_REPORT_CONDITIONS s"
  by (simp add: fun_eq_iff CHECK_REPORT_CONDITIONS_def)

lemma taken_cong:
  "CHECK_REPORT_CONDITIONS s' = CHECK_REPORT_CONDITIONS s \<Longrightarrow> taken item s' = taken item s"
  by (simp add: fun_eq_iff taken_def)

text \<open>
  A report whose rows follow a window: the interface between the jobs and the reports. On top
  of the window laws the report keeps its conditions, does not depend on the other fields of
  its header, and accepts every part of a window it accepts.
\<close>

locale fed_report = window_report radd rdel models okw
  for radd rdel :: "'p \<Rightarrow> 'r \<Rightarrow> 'p" and models okw :: "'p \<Rightarrow> 'r list \<Rightarrow> bool" +
  fixes get_std :: "'p \<Rightarrow> pinba_std_report"
    and upd_std :: "(pinba_std_report \<Rightarrow> pinba_std_report) \<Rightarrow> 'p \<Rightarrow> 'p"
  assumes get_upd: "get_std (upd_std f R) = f (get_std R)"
    and conds_add: "CHECK_REPORT_CONDITIONS (get_std (radd R r)) = CHECK_REPORT_CONDITIONS (get_std R)"
    and conds_del: "CHECK_REPORT_CONDITIONS (get_std (rdel R r)) = CHECK_REPORT_CONDITIONS (get_std R)"
    and models_upd: "header_kept (get_std R) (f (get_std R)) \<Longrightarrow> models (upd_std f R) = models R"
    and upd_id: "upd_std (\<lambda>s. s) R = R"
    and okw_upd: "same_start (f (get_std R)) (g (get_std R)) \<Longrightarrow> okw (upd_std f R) = okw (upd_std g R)"
    and okw_part: "okw R (us @ ws @ vs) \<Longrightarrow> okw R ws"
begin

lemma models_adds:
  "models R ws \<Longrightarrow> okw R (ws @ rs) \<Longrightarrow> models (fold (\<lambda>r R. radd R r) rs R) (ws @ rs)"
proof (induction rs arbitrary: R ws)
  case (Cons r rs)
  have "okw R (ws @ [r])" using okw_part [of R "[]" "ws @ [r]" rs] Cons.prems(2) by simp
  then have "models (radd R r) (ws @ [r])" using Cons.prems(1) by (intro models_add)
  then show ?case using Cons.IH [of "radd R r" "ws @ [r]"] Cons.prems(2) by (simp add: okw_add)
qed simp

lemma models_dels:
  "models R (rs @ ws) \<Longrightarrow> okw R (rs @ ws) \<Longrightarrow> models (fold (\<lambda>r R. rdel R r) rs R) ws"
proof (induction rs arbitrary: R)
  case (Cons r rs)
  have "models (rdel R r) (rs @ ws)" using Cons.prems by (intro models_del) auto
  moreover have "okw (rdel R r) (rs @ ws)"
    using okw_part [of R "[r]" "rs @ ws" "[]"] Cons.prems(2) by (simp add: okw_del)
  ultimately show ?case using Cons.IH by simp
qed simp

text \<open>The job of an addition and of a deletion over \<open>n\<close> cells from \<open>i\<close>.\<close>

lemma job_adds:
  assumes m: "models R ws" and i: "i < psize p" and n: "n \<le> psize p"
    and ok: "okw (upd_std (report_start (pdata p ! i)) R) (ws @ taken item (get_std R) p (map (advance p i) [0..<n]))"
  shows "models (update_reports_func get_std upd_std (\<lambda>i R r. radd R (item i r)) del ru0 ru1 p
           \<lparr>job_prefix = i, job_count = n, job_add = True\<rparr> R)
         (ws @ taken item (get_std R) p (map (advance p i) [0..<n]))"
proof -
  let ?f = "\<lambda>s. (report_start (pdata p ! i) s)\<lparr>packets_cnt := packets_cnt (report_start (pdata p ! i) s) + of_nat n\<rparr>"
  let ?new = "taken item (get_std R) p (map (advance p i) [0..<n])"
  have hk: "header_kept (get_std R) (?f (get_std R))" by (simp add: header_kept_def report_start_def)
  have "okw (upd_std ?f R) = okw (upd_std (report_start (pdata p ! i)) R)"
    by (rule okw_upd) (simp add: same_start_def)
  then have "models (fold (\<lambda>r R. radd R r) ?new (upd_std ?f R)) (ws @ ?new)"
    using m ok models_upd [of R ?f] hk by (intro models_adds) simp_all
  moreover have "taken item (get_std (upd_std ?f R)) p = taken item (get_std R) p"
    unfolding get_upd by (intro fun_cong [OF taken_cong] conditions_cong) (simp_all add: report_start_def)
  then have "report_loop get_std (\<lambda>i R r. radd R (item i r)) p i n (upd_std ?f R) =
      fold (\<lambda>r R. radd R r) ?new (upd_std ?f R)"
    using report_loop_fold [of get_std radd item, OF conds_add i n] by simp
  ultimately show ?thesis
    using i by (simp add: update_reports_func_def Let_def models_upd header_kept_def pinba_report_add_rusage_def)
qed

lemma job_dels:
  assumes m: "models R (taken item (get_std R) p (map (advance p i) [0..<n]) @ ws)"
    and i: "i < psize p" and n: "n \<le> psize p"
    and ok: "okw R (taken item (get_std R) p (map (advance p i) [0..<n]) @ ws)"
  shows "models (update_reports_func get_std upd_std add (\<lambda>i R r. rdel R (item i r)) ru0 ru1 p
           \<lparr>job_prefix = i, job_count = n, job_add = False\<rparr> R) ws"
  using report_loop_fold [of get_std rdel item, OF conds_del i n, of R] models_dels [OF m ok] i
  by (simp add: update_reports_func_def Let_def models_upd header_kept_def pinba_report_add_rusage_def)

end

text \<open>
  The cells of the pool a report covers: those not older than its start. A report that has
  not seen a batch yet covers none.
\<close>

definition report_cells :: "pinba_std_report \<Rightarrow> pinba_stats_record pinba_pool \<Rightarrow> nat list \<Rightarrow> nat list" where
  "report_cells s p is =
     (if tv_sec (start s) = 0 then [] else filter (\<lambda>i. \<not> PINBA_REPORT_DELETE_CHECK s (pdata p ! i)) is)"

definition report_window ::
  "(nat \<Rightarrow> pinba_stats_record \<Rightarrow> 'r) \<Rightarrow> pinba_std_report \<Rightarrow> pinba_stats_record pinba_pool \<Rightarrow> 'r list" where
  "report_window item s p = taken item s p (report_cells s p (cells p))"

text \<open>Windows agree when the cells do, whatever the report does not see of them.\<close>

lemma report_window_cong:
  assumes "cells q = cells p"
    and "\<And>i. i \<in> set (cells p) \<Longrightarrow> item' i (pdata q ! i) = item i (pdata p ! i)"
    and "\<And>i. i \<in> set (cells p) \<Longrightarrow> CHECK_REPORT_CONDITIONS s (pdata q ! i) = CHECK_REPORT_CONDITIONS s (pdata p ! i)"
    and "\<And>i. i \<in> set (cells p) \<Longrightarrow> PINBA_REPORT_DELETE_CHECK s (pdata q ! i) = PINBA_REPORT_DELETE_CHECK s (pdata p ! i)"
  shows "report_window item' s q = report_window item s p"
  using assms by (auto simp: report_window_def report_cells_def taken_def intro!: filter_cong map_cong)

text \<open>
  What a report sees of a request: neither where its timers lie and how many there are, nor
  whether it is still marked as active.
\<close>

definition request_view :: "pinba_stats_record \<Rightarrow> pinba_stats_record" where
  "request_view r = r\<lparr>active := True, timers_start := 0, timers_cnt := 0\<rparr>"

lemma request_view_active [simp]: "request_view (r\<lparr>active := a\<rparr>) = request_view r"
  by (simp add: request_view_def)

lemma request_view_start [simp]:
  "request_view (r\<lparr>timers_start := k\<rparr>) = request_view r" "request_view (r\<lparr>timers_cnt := n\<rparr>) = request_view r"
  by (simp_all add: request_view_def)

lemma checks_view [simp]:
  "PINBA_REPORT_DELETE_CHECK s (request_view r) = PINBA_REPORT_DELETE_CHECK s r"
  "CHECK_REPORT_CONDITIONS s (request_view r) = CHECK_REPORT_CONDITIONS s r"
  by (simp_all add: request_view_def PINBA_REPORT_DELETE_CHECK_def CHECK_REPORT_CONDITIONS_def)

text \<open>The requests of the pool are ordered by arrival.\<close>

definition older :: "pinba_stats_record \<Rightarrow> pinba_stats_record \<Rightarrow> bool" where
  "older a b \<longleftrightarrow>
     pinba_timercmp (<) (rec_time a) (rec_time b) \<or>
     (pinba_timercmp (=) (rec_time a) (rec_time b) \<and> counter a < counter b)"

definition arrival_ordered :: "pinba_stats_record list \<Rightarrow> bool" where
  "arrival_ordered rs \<longleftrightarrow> sorted_wrt older rs"

lemma delete_check_older:
  "start s = rec_time r \<Longrightarrow> request_pool_start_id s = counter r \<Longrightarrow>
   PINBA_REPORT_DELETE_CHECK s r' \<longleftrightarrow> older r' r"
  by (auto simp: PINBA_REPORT_DELETE_CHECK_def older_def pinba_timercmp_def)

lemma older_asym: "older a b \<Longrightarrow> \<not> older b a"
  by (auto simp: older_def pinba_timercmp_def)

lemma older_irrefl: "\<not> older a a"
  by (auto simp: older_def pinba_timercmp_def)

text \<open>
  A report fed from the pool: \<open>item\<close> is what it takes of a cell, \<open>good\<close> the windows it
  handles apart from their age. It ignores deletions of requests older than its start, and
  deletions while it is empty.
\<close>

locale dated_report = fed_report radd rdel models okw get_std upd_std
  for radd rdel :: "'p \<Rightarrow> 'r \<Rightarrow> 'p" and models okw get_std upd_std +
  fixes item :: "nat \<Rightarrow> pinba_stats_record \<Rightarrow> 'r" and rec_of :: "'r \<Rightarrow> pinba_stats_record"
    and good :: "'p \<Rightarrow> 'r list \<Rightarrow> bool"
  assumes rec_item: "PINBA_REPORT_DELETE_CHECK s (rec_of (item i r)) = PINBA_REPORT_DELETE_CHECK s r"
    and item_active: "item i (r\<lparr>active := a\<rparr>) = item i r"
    and del_old: "PINBA_REPORT_DELETE_CHECK (get_std R) (rec_of x) \<Longrightarrow> rdel R x = R"
    and del_empty: "models R [] \<Longrightarrow> models (rdel R x) []"
    and okw_good: "okw R ws \<longleftrightarrow> good R ws \<and> (\<forall>x \<in> set ws. \<not> PINBA_REPORT_DELETE_CHECK (get_std R) (rec_of x))"
    and good_sub: "subseq vs ws \<Longrightarrow> good R ws \<Longrightarrow> good R vs"
    and good_upd: "good (upd_std f R) = good R"
    and good_del: "good (rdel R x) = good R"
    and start_add: "same_start (get_std R) (get_std (radd R x))"
    and start_del: "same_start (get_std R) (get_std (rdel R x))"
begin

lemma window_not_old:
  "r \<in> set (taken item s p (report_cells s p is)) \<Longrightarrow> \<not> PINBA_REPORT_DELETE_CHECK s (rec_of r)"
  by (auto simp: taken_def report_cells_def rec_item split: if_splits)

lemma subseq_taken: "subseq is js \<Longrightarrow> subseq (taken item s p is) (taken item s p js)"
  unfolding taken_def by (intro subseq_map subseq_filter)

lemma subseq_report_cells: "subseq (report_cells s p is) is"
  by (simp add: report_cells_def)

lemma okw_window:
  "good R (taken item (get_std R) p is) \<Longrightarrow> okw R (taken item (get_std R) p (report_cells (get_std R) p is))"
  unfolding okw_good
  using good_sub [OF subseq_taken [OF subseq_report_cells]] window_not_old by blast

lemma fold_del_conds:
  "CHECK_REPORT_CONDITIONS (get_std (fold (\<lambda>r R. rdel R r) rs R)) = CHECK_REPORT_CONDITIONS (get_std R)"
  "same_start (get_std R) (get_std (fold (\<lambda>r R. rdel R r) rs R))"
proof (induction rs arbitrary: R)
  case Nil
  case 1 then show ?case by simp
  case 2 then show ?case by (simp add: same_start_def)
next
  case (Cons r rs)
  case 1 then show ?case using Cons.IH(1) [of "rdel R r"] by (simp add: conds_del)
  case 2 then show ?case
    using Cons.IH(2) [of "rdel R r"] start_del [of R r] by (simp add: same_start_def)
qed

lemma old_start: "same_start s s' \<Longrightarrow> PINBA_REPORT_DELETE_CHECK s' = PINBA_REPORT_DELETE_CHECK s"
  by (simp add: fun_eq_iff same_start_def PINBA_REPORT_DELETE_CHECK_def)

text \<open>Deleting cells: the requests older than the report do not matter, nor does \<^verbatim>\<open>active\<close>.\<close>

lemma fold_del_old:
  assumes "tv_sec (start s) \<noteq> 0" and "same_start (get_std R) s"
  shows "fold (\<lambda>r R. rdel R r) (taken item c p is) R = fold (\<lambda>r R. rdel R r) (taken item c p (report_cells s p is)) R"
  using assms(2)
proof (induction "is" arbitrary: R)
  case (Cons i "is")
  have "same_start (get_std (rdel R r)) s" for r
    using Cons.prems start_del [of R r] by (simp add: same_start_def)
  moreover have "PINBA_REPORT_DELETE_CHECK s (pdata p ! i) \<Longrightarrow> rdel R (item i (pdata p ! i)) = R"
    using del_old [of R "item i (pdata p ! i)"] old_start [OF Cons.prems] by (simp add: rec_item)
  ultimately show ?case
    using Cons assms(1) by (auto simp: taken_def report_cells_def)
qed (simp add: taken_def report_cells_def)

lemma fold_del_active:
  assumes "\<forall>i \<in> set is. \<exists>a. pdata q ! i = (pdata p ! i)\<lparr>active := a\<rparr>"
  shows "fold (\<lambda>r R. rdel R r) (taken item s q is) R = fold (\<lambda>r R. rdel R r) (taken item s p is) R"
  using assms
proof (induction "is" arbitrary: R)
  case (Cons i "is")
  obtain a where a: "pdata q ! i = (pdata p ! i)\<lparr>active := a\<rparr>" using Cons.prems by auto
  have "CHECK_REPORT_CONDITIONS s (pdata q ! i) = CHECK_REPORT_CONDITIONS s (pdata p ! i)"
    by (simp add: a CHECK_REPORT_CONDITIONS_def)
  then show ?case using Cons by (simp add: taken_def a item_active)
qed (simp add: taken_def)

lemma models_del_empty: "models R [] \<Longrightarrow> models (fold (\<lambda>r R. rdel R r) rs R) []"
  by (induction rs arbitrary: R) (simp_all add: del_empty)

lemma cells_prefix:
  assumes "pool_ok p" and "n \<le> pinba_pool_num_records p" and "psize q = psize p"
  shows "map (advance q (pout p)) [0..<n] = take n (cells p)"
proof -
  have "map (advance q (pout p)) [0..<n] = map (\<lambda>k. (pout p + k) mod psize p) [0..<n]"
    using assms num_records_less [OF assms(1)] by (auto simp: advance_def pool_ok_def mod_if)
  then show ?thesis using assms by (simp add: cells_mod take_map)
qed

text \<open>
  The job of an expiration: the oldest \<open>n\<close> requests of \<open>p\<close> have left the ring \<open>q\<close>.
\<close>

lemma job_expire:
  assumes p: "pool_ok p" and n: "n \<le> pinba_pool_num_records p"
    and q: "psize q = psize p" "cells q = drop n (cells p)"
    and old: "\<forall>i \<in> set (take n (cells p)). \<exists>a. pdata q ! i = (pdata p ! i)\<lparr>active := a\<rparr>"
    and kept: "\<forall>i \<in> set (cells q). pdata q ! i = pdata p ! i"
    and m: "models R (report_window item (get_std R) p)"
    and g: "good R (taken item (get_std R) p (cells p))"
    and res: "R' = update_reports_func get_std upd_std add (\<lambda>i R r. rdel R (item i r)) ru0 ru1 q
           \<lparr>job_prefix = pout p, job_count = n, job_add = False\<rparr> R"
  shows "models R' (report_window item (get_std R') q)"
    and "CHECK_REPORT_CONDITIONS (get_std R') = CHECK_REPORT_CONDITIONS (get_std R)"
    and "same_start (get_std R) (get_std R')"
proof -
  let ?s = "get_std R" and ?old = "take n (cells p)"
  let ?R = "fold (\<lambda>r R. rdel R r) (taken item ?s p ?old) R"
  let ?u = "\<lambda>s. (pinba_report_add_rusage s ru0 ru1)\<lparr>time_interval := pinba_get_time_interval q\<rparr>"
  have "report_loop get_std (\<lambda>i R r. rdel R (item i r)) q (pout p) n R =
      fold (\<lambda>r R. rdel R r) (taken item ?s q ?old) R"
    using report_loop_fold [of get_std rdel item, OF conds_del, of "pout p" q n R] p n q(1)
      num_records_less [OF p] cells_prefix [OF p n q(1)] by (simp add: pool_ok_def)
  also have "\<dots> = ?R" by (rule fold_del_active [OF old])
  finally have R': "R' = upd_std ?u ?R"
    using p q(1) by (simp add: res update_reports_func_def Let_def pool_ok_def)
  show c: "CHECK_REPORT_CONDITIONS (get_std R') = CHECK_REPORT_CONDITIONS ?s"
    using conditions_cong [of "?u (get_std ?R)" "get_std ?R"] fold_del_conds(1)
    by (simp add: R' get_upd pinba_report_add_rusage_def)
  show st: "same_start ?s (get_std R')"
    using fold_del_conds(2) [of R "taken item ?s p ?old"]
    by (simp add: R' get_upd same_start_def pinba_report_add_rusage_def)
  have "report_cells (get_std R') q (cells q) = report_cells ?s p (drop n (cells p))"
    using st old_start [OF st] kept q(2) by (auto simp: report_cells_def same_start_def intro!: filter_cong)
  moreover have "set (report_cells ?s p (drop n (cells p))) \<subseteq> set (cells q)"
    using q(2) by (auto simp: report_cells_def)
  ultimately have w: "report_window item (get_std R') q = taken item ?s p (report_cells ?s p (drop n (cells p)))"
    using kept c unfolding report_window_def taken_def
    by (auto intro!: filter_cong map_cong)
  have "models ?R (taken item ?s p (report_cells ?s p (drop n (cells p))))"
  proof (cases "tv_sec (start ?s) = 0")
    case True
    then show ?thesis using m models_del_empty by (simp add: report_window_def report_cells_def taken_def)
  next
    case False
    have split: "report_cells ?s p (cells p) = report_cells ?s p ?old @ report_cells ?s p (drop n (cells p))"
      by (simp add: report_cells_def filter_append [symmetric] del: filter_append)
    have "?R = fold (\<lambda>r R. rdel R r) (taken item ?s p (report_cells ?s p ?old)) R"
      using False by (intro fold_del_old) (simp_all add: same_start_def)
    then show ?thesis
      using m okw_window [OF g] models_dels
      by (simp add: report_window_def split taken_append)
  qed
  then show "models R' (report_window item (get_std R') q)"
    unfolding w unfolding R' by (simp add: models_upd header_kept_def pinba_report_add_rusage_def)
qed

lemma fold_add_conds:
  "CHECK_REPORT_CONDITIONS (get_std (fold (\<lambda>r R. radd R r) rs R)) = CHECK_REPORT_CONDITIONS (get_std R)"
  "same_start (get_std R) (get_std (fold (\<lambda>r R. radd R r) rs R))"
proof (induction rs arbitrary: R)
  case Nil
  case 1 then show ?case by simp
  case 2 then show ?case by (simp add: same_start_def)
next
  case (Cons r rs)
  case 1 then show ?case using Cons.IH(1) [of "radd R r"] by (simp add: conds_add)
  case 2 then show ?case
    using Cons.IH(2) [of "radd R r"] start_add [of R r] by (simp add: same_start_def)
qed

lemma batch_order:
  assumes "pool_ok p" and "pinba_pool_num_records p + n < psize p" and "0 < n"
    and "cells q' = cells p @ free_cells p n" and "pdata q' = pdata q" and "arrival_ordered (ring q')"
  shows "\<forall>i \<in> set (cells p). older (pdata q ! i) (pdata q ! pin p)"
    and "i \<in> set (free_cells p n) \<Longrightarrow> \<not> older (pdata q ! i) (pdata q ! pin p)"
proof -
  have "free_cells p n = pin p # map (advance p (pin p)) [1..<n]"
    using assms(1,3) by (simp add: free_cells_def upt_conv_Cons advance_def pool_ok_def)
  then show "\<forall>i \<in> set (cells p). older (pdata q ! i) (pdata q ! pin p)"
    and "i \<in> set (free_cells p n) \<Longrightarrow> \<not> older (pdata q ! i) (pdata q ! pin p)"
    using assms(4-6) older_asym older_irrefl
    by (auto simp: arrival_ordered_def ring_def sorted_wrt_append sorted_wrt_map)
qed

text \<open>
  The job of a batch: \<open>n\<close> requests have been written to the cells after \<open>in\<close> of \<open>q\<close>, not
  yet published; \<open>q'\<close> is the pool once they are.
\<close>

lemma job_batch:
  assumes p: "pool_ok p" and n: "pinba_pool_num_records p + n < psize p" "0 < n"
    and q: "psize q = psize p" "cells q' = cells p @ free_cells p n" "pdata q' = pdata q"
    and kept: "\<forall>i \<in> set (cells p). pdata q ! i = pdata p ! i"
    and dated: "\<forall>i \<in> set (free_cells p n). tv_sec (rec_time (pdata q ! i)) \<noteq> 0"
    and ord: "arrival_ordered (ring q')"
    and later: "tv_sec (start (get_std R)) \<noteq> 0 \<Longrightarrow>
      \<forall>i \<in> set (free_cells p n). \<not> PINBA_REPORT_DELETE_CHECK (get_std R) (pdata q ! i)"
    and m: "models R (report_window item (get_std R) p)"
    and g: "good R (taken item (get_std R) q' (cells q'))"
    and res: "R' = update_reports_func get_std upd_std (\<lambda>i R r. radd R (item i r)) del ru0 ru1 q
           \<lparr>job_prefix = pin p, job_count = n, job_add = True\<rparr> R"
  shows "models R' (report_window item (get_std R') q')"
    and "CHECK_REPORT_CONDITIONS (get_std R') = CHECK_REPORT_CONDITIONS (get_std R)"
    and "same_start (report_start (pdata q ! pin p) (get_std R)) (get_std R')"
proof -
  let ?s = "get_std R" and ?first = "pdata q ! pin p" and ?free = "free_cells p n"
  let ?s1 = "report_start ?first ?s"
  have free: "map (advance q (pin p)) [0..<n] = ?free"
    using q(1) by (simp add: free_cells_def advance_def)
  have first: "pin p \<in> set ?free" using n p by (force simp: free_cells_def advance_def pool_ok_def)
  have inp: "pin p < psize q" using p q(1) by (simp add: pool_ok_def)
  let ?f = "\<lambda>s. (report_start ?first s)\<lparr>packets_cnt := packets_cnt (report_start ?first s) + of_nat n\<rparr>"
  let ?R = "fold (\<lambda>r R. radd R r) (taken item ?s q ?free) (upd_std ?f R)"
  let ?u = "\<lambda>s. (pinba_report_add_rusage s ru0 ru1)\<lparr>time_interval := pinba_get_time_interval q\<rparr>"
  have f: "CHECK_REPORT_CONDITIONS (get_std (upd_std ?f R)) = CHECK_REPORT_CONDITIONS ?s"
    unfolding get_upd by (rule conditions_cong) (simp_all add: report_start_def)
  have "report_loop get_std (\<lambda>i R r. radd R (item i r)) q (pin p) n (upd_std ?f R) = ?R"
    using report_loop_fold [of get_std radd item, OF conds_add inp, of n "upd_std ?f R"] n(1) q(1) free
      fun_cong [OF taken_cong [OF f, of item], of q] by simp
  then have R': "R' = upd_std ?u ?R"
    using inp by (simp add: res update_reports_func_def Let_def)
  show c: "CHECK_REPORT_CONDITIONS (get_std R') = CHECK_REPORT_CONDITIONS ?s"
    using conditions_cong [of "?u (get_std ?R)" "get_std ?R"] fold_add_conds(1) f
    by (simp add: R' get_upd pinba_report_add_rusage_def)
  show st: "same_start ?s1 (get_std R')"
    using fold_add_conds(2) [of "upd_std ?f R" "taken item ?s q ?free"]
    by (simp add: R' get_upd same_start_def pinba_report_add_rusage_def)
  have dc: "PINBA_REPORT_DELETE_CHECK (get_std R') = PINBA_REPORT_DELETE_CHECK ?s1"
    by (rule old_start [OF st])
  have nz: "tv_sec (start ?s1) \<noteq> 0" using dated first by (auto simp: report_start_def)
  have new: "\<not> PINBA_REPORT_DELETE_CHECK ?s1 (pdata q ! i)" if "i \<in> set ?free" for i
    using later that delete_check_older [of ?s1 ?first] batch_order(2) [OF p n q(2,3) ord that]
    by (cases "tv_sec (start ?s) = 0") (auto simp: report_start_def)
  have out: "filter (\<lambda>i. \<not> PINBA_REPORT_DELETE_CHECK ?s1 (pdata q ! i)) (cells p) = report_cells ?s p (cells p)"
    using kept delete_check_older [of ?s1 ?first] batch_order(1) [OF p n q(2,3) ord]
    by (cases "tv_sec (start ?s) = 0") (auto simp: report_start_def report_cells_def filter_empty_conv intro!: filter_cong)
  have "report_cells (get_std R') q' (cells q') = report_cells ?s p (cells p) @ ?free"
    using nz st new out by (simp add: report_cells_def [of "get_std R'"] dc q(2,3) same_start_def filter_id_conv)
  moreover have "taken item ?s q (report_cells ?s p (cells p)) = taken item ?s p (report_cells ?s p (cells p))"
    using kept by (auto simp: taken_def report_cells_def intro!: filter_cong map_cong)
  ultimately have win: "report_window item (get_std R') q' = report_window item ?s p @ taken item ?s q ?free"
    using taken_cong [OF c, of item] q(3) by (simp add: report_window_def taken_append) (simp add: taken_def)
  have "okw (upd_std ?f R) (report_window item ?s p @ taken item ?s q ?free)"
    unfolding okw_good
  proof
    show "good (upd_std ?f R) (report_window item ?s p @ taken item ?s q ?free)"
      using good_sub [OF subseq_taken [OF subseq_report_cells] g, of "get_std R'"]
      unfolding good_upd win [symmetric] by (simp add: report_window_def taken_cong [OF c])
    show "\<forall>x \<in> set (report_window item ?s p @ taken item ?s q ?free).
        \<not> PINBA_REPORT_DELETE_CHECK (get_std (upd_std ?f R)) (rec_of x)"
      using window_not_old [of _ "get_std R'" q' "cells q'"] old_start [of ?s1 "get_std (upd_std ?f R)"]
      unfolding win [symmetric] dc by (simp add: report_window_def get_upd same_start_def)
  qed
  then have "models ?R (report_window item ?s p @ taken item ?s q ?free)"
    using m models_upd [of R ?f] by (intro models_adds) (simp_all add: header_kept_def report_start_def)
  then show "models R' (report_window item (get_std R') q')"
    unfolding win unfolding R' by (simp add: models_upd header_kept_def pinba_report_add_rusage_def)
qed

end

text \<open>
  A report that an expiration or a batch may pass over: the daemon does not run the jobs of
  the request-tag reports when no request carries a tag, nor those of the timer-tag reports
  when there are no timers. Such items are \<open>idle\<close> for the report.
\<close>

locale idle_report = dated_report radd rdel models okw get_std upd_std item rec_of good
  for radd rdel :: "'p \<Rightarrow> 'r \<Rightarrow> 'p" and models okw get_std upd_std item rec_of good +
  fixes idle :: "'r \<Rightarrow> bool" and serves :: "'p \<Rightarrow> bool"
  assumes models_idle: "serves R \<Longrightarrow> models R (filter (\<lambda>x. \<not> idle x) ws) = models R ws"
    and serves_add: "serves (radd R x) = serves R"
    and serves_del: "serves (rdel R x) = serves R"
    and serves_upd: "serves (upd_std f R) = serves R"
begin

lemma serves_fold: "serves (fold (\<lambda>r R. radd R r) rs R) = serves R" "serves (fold (\<lambda>r R. rdel R r) rs R) = serves R"
  by (induction rs arbitrary: R) (simp_all add: serves_add serves_del)

lemma serves_loop:
  "serves (report_loop get_std (\<lambda>i R r. radd R (item i r)) p i n R) = serves R"
  "serves (report_loop get_std (\<lambda>i R r. rdel R (item i r)) p i n R) = serves R"
  by (induction n arbitrary: i R) (simp_all add: Let_def serves_add serves_del)

lemma serves_job:
  "serves (update_reports_func get_std upd_std (\<lambda>i R r. radd R (item i r)) (\<lambda>i R r. rdel R (item i r)) ru0 ru1 p d R) = serves R"
  by (simp add: update_reports_func_def Let_def serves_upd serves_loop)

lemma idle_append: "serves R \<Longrightarrow> \<forall>x \<in> set vs. idle x \<Longrightarrow> models R (ws @ vs) = models R ws"
  using models_idle [of R "ws @ vs"] models_idle [of R ws] by (simp add: filter_empty_conv [THEN iffD2])

lemma idle_prepend: "serves R \<Longrightarrow> \<forall>x \<in> set vs. idle x \<Longrightarrow> models R (vs @ ws) = models R ws"
  using models_idle [of R "vs @ ws"] models_idle [of R ws] by (simp add: filter_empty_conv [THEN iffD2])

lemma expire_report:
  assumes p: "pool_ok p" and n: "n \<le> pinba_pool_num_records p"
    and q: "psize q = psize p" "cells q = drop n (cells p)"
    and old: "\<forall>i \<in> set (take n (cells p)). \<exists>a. pdata q ! i = (pdata p ! i)\<lparr>active := a\<rparr>"
    and kept: "\<forall>i \<in> set (cells q). pdata q ! i = pdata p ! i"
    and s: "serves R" and m: "models R (report_window item (get_std R) p)"
    and g: "good R (taken item (get_std R) p (cells p))"
    and skip: "\<not> run \<Longrightarrow> \<forall>i \<in> set (take n (cells p)). idle (item i (pdata p ! i))"
    and res: "R' = (if run then update_reports_func get_std upd_std (\<lambda>i R r. radd R (item i r)) (\<lambda>i R r. rdel R (item i r)) ru0 ru1 q
           \<lparr>job_prefix = pout p, job_count = n, job_add = False\<rparr> R else R)"
  shows "models R' (report_window item (get_std R') q) \<and> serves R' \<and> same_start (get_std R) (get_std R')"
proof (cases run)
  case True
  then show ?thesis using job_expire(1,3) [OF p n q old kept m g] res s serves_job by simp
next
  case False
  let ?s = "get_std R"
  have "report_cells ?s p (cells p) = report_cells ?s p (take n (cells p)) @ report_cells ?s p (drop n (cells p))"
    by (simp add: report_cells_def filter_append [symmetric] del: filter_append)
  then have "report_window item ?s p = taken item ?s p (report_cells ?s p (take n (cells p))) @ taken item ?s p (report_cells ?s p (drop n (cells p)))"
    by (simp add: report_window_def taken_append)
  moreover have "\<forall>x \<in> set (taken item ?s p (report_cells ?s p (take n (cells p)))). idle x"
    using skip False by (auto simp: taken_def report_cells_def split: if_splits)
  moreover have "report_window item ?s q = taken item ?s p (report_cells ?s p (drop n (cells p)))"
    using kept q(2) by (auto simp: report_window_def report_cells_def taken_def intro!: filter_cong map_cong)
  ultimately show ?thesis using m s False res idle_prepend by (simp add: same_start_def)
qed

lemma batch_report:
  assumes q: "pool_ok q" and n: "pinba_pool_num_records q + n < psize q" "0 < n"
    and q': "cells q' = cells q @ free_cells q n" "pdata q' = pdata q"
    and dated: "\<forall>i \<in> set (free_cells q n). tv_sec (rec_time (pdata q ! i)) \<noteq> 0"
    and ord: "arrival_ordered (ring q')"
    and later: "tv_sec (start (get_std R)) \<noteq> 0 \<Longrightarrow>
      \<forall>i \<in> set (free_cells q n). \<not> PINBA_REPORT_DELETE_CHECK (get_std R) (pdata q ! i)"
    and s: "serves R" and m: "models R (report_window item (get_std R) q)"
    and g: "good R (taken item (get_std R) q' (cells q'))"
    and skip: "\<not> run \<Longrightarrow> \<forall>i \<in> set (free_cells q n). idle (item i (pdata q ! i))"
    and res: "R' = (if run then update_reports_func get_std upd_std (\<lambda>i R r. radd R (item i r)) (\<lambda>i R r. rdel R (item i r)) ru0 ru1 q
           \<lparr>job_prefix = pin q, job_count = n, job_add = True\<rparr> R else R)"
  shows "models R' (report_window item (get_std R') q') \<and> serves R' \<and>
    same_start (if run then report_start (pdata q ! pin q) (get_std R) else get_std R) (get_std R')"
proof (cases run)
  case True
  then show ?thesis using job_batch(1,3) [OF q n refl q' _ dated ord later m g] res s serves_job by simp
next
  case False
  let ?s = "get_std R"
  have "report_window item ?s q' = report_window item ?s q @ (if tv_sec (start ?s) = 0 then [] else taken item ?s q (free_cells q n))"
    using later q' by (simp add: report_window_def report_cells_def taken_def filter_id_conv [THEN iffD2])
  moreover have "\<forall>x \<in> set (taken item ?s q (free_cells q n)). idle x"
    using skip False by (auto simp: taken_def)
  ultimately show ?thesis using m s False res idle_append by (simp add: same_start_def)
qed

end

end
