(* ===== verification/Report_Feeds.thy ===== *)
theory Report_Feeds
  imports Report_Jobs Base_Reports Tag_Correct
begin

text \<open>
  The reports of every kind meet the contract of the jobs: \<open>idle_report\<close> is interpreted on
  the base reports, the report "info" and the request-tag reports. A
  base or request-tag report takes the request itself from a cell of the pool, a timer-tag
  report the cell number, the request and its timers.
\<close>

section \<open>Headers\<close>

definition upd_report_std :: "(pinba_std_report \<Rightarrow> pinba_std_report) \<Rightarrow> pinba_report \<Rightarrow> pinba_report" where
  "upd_report_std f R = R\<lparr>std := f (std R)\<rparr>"

definition upd_rtag_std :: "(pinba_std_report \<Rightarrow> pinba_std_report) \<Rightarrow> 'm pinba_rtag_report \<Rightarrow> 'm pinba_rtag_report" where
  "upd_rtag_std f R = R\<lparr>rt_std := f (rt_std R)\<rparr>"

definition upd_tag_std :: "(pinba_std_report \<Rightarrow> pinba_std_report) \<Rightarrow> 'm pinba_tag_report \<Rightarrow> 'm pinba_tag_report" where
  "upd_tag_std f R = R\<lparr>tg_std := f (tg_std R)\<rparr>"

lemma row_agg_header: "header_kept s s' \<Longrightarrow> row_agg hs s' = row_agg hs s"
  by (simp add: fun_eq_iff row_agg_def req_slot_def [abs_def] header_kept_def)

lemma delete_check_start:
  "same_start s s' \<Longrightarrow> PINBA_REPORT_DELETE_CHECK s' = PINBA_REPORT_DELETE_CHECK s"
  by (simp add: fun_eq_iff same_start_def PINBA_REPORT_DELETE_CHECK_def)

lemma set_subseq: "subseq vs ws \<Longrightarrow> set vs \<subseteq> set ws"
  by (induction rule: list_emb.induct) auto

lemma window_ok_subseq: "subseq vs ws \<Longrightarrow> window_ok ws \<Longrightarrow> window_ok vs"
  using list_emb_length [of "(=)" vs ws] set_subseq [of vs ws]
  by (auto simp: window_ok_def list_all_iff)

lemma upd_std_sel [simp]:
  "std (upd_report_std f R) = f (std R)" "rt_std (upd_rtag_std f S) = f (rt_std S)"
  "tg_std (upd_tag_std f T) = f (tg_std T)"
  "upd_report_std (\<lambda>s. s) R = R" "upd_rtag_std (\<lambda>s. s) S = S" "upd_tag_std (\<lambda>s. s) T = T"
  by (simp_all add: upd_report_std_def upd_rtag_std_def upd_tag_std_def)

section \<open>Base reports\<close>

lemma base_models_empty: "base_models t hs R [] \<Longrightarrow> results_cnt (std R) = 0"
  using base_rows.model_count [of hs "std R" t "\<lambda>r. Some (base_index t r)" "results R" "[]"]
  by (simp add: base_models_def)

lemma update_report_std:
  "same_start (std R) (std (update_report_add hs i l R r))"
  "same_start (std R) (std (update_report_delete hs i R r))"
  "same_start (std R) (std (update_report_info_add hs R r))"
  "same_start (std R) (std (update_report_info_delete hs R r))"
  "CHECK_REPORT_CONDITIONS (std (update_report_add hs i l R r)) = CHECK_REPORT_CONDITIONS (std R)"
  "CHECK_REPORT_CONDITIONS (std (update_report_delete hs i R r)) = CHECK_REPORT_CONDITIONS (std R)"
  "CHECK_REPORT_CONDITIONS (std (update_report_info_add hs R r)) = CHECK_REPORT_CONDITIONS (std R)"
  "CHECK_REPORT_CONDITIONS (std (update_report_info_delete hs R r)) = CHECK_REPORT_CONDITIONS (std R)"
  by (auto simp: same_start_def update_report_add_def update_report_delete_def update_report_info_add_def
      update_report_info_delete_def Let_def split: option.splits intro!: conditions_cong)

lemma report_okw:
  "list_all (report_adm R) ws \<and> length ws < WINDOW_MAX \<longleftrightarrow>
   window_ok ws \<and> (\<forall>x \<in> set ws. \<not> PINBA_REPORT_DELETE_CHECK (std R) x)"
  by (auto simp: window_ok_def list_all_iff report_adm_def)

lemma base_models_header:
  assumes "header_kept (std R) (f (std R))"
  shows "base_models t hs (upd_report_std f R) = base_models t hs R"
    and "info_models hs (upd_report_std f R) = info_models hs R"
  using assms row_agg_header [OF assms, of hs, where ?'a = "\<lparr>labels :: report_labels\<rparr>"]
  by (simp_all add: fun_eq_iff [of "base_models t hs _"] fun_eq_iff [of "info_models hs _"] base_models_def
      info_models_def upd_report_std_def header_kept_def req_slot_def [abs_def])

lemma dated_window_cong:
  "same_start s s' \<Longrightarrow>
   (\<lambda>ws. Q ws \<and> (\<forall>x \<in> set ws. \<not> PINBA_REPORT_DELETE_CHECK s (rec_of x))) =
   (\<lambda>ws. Q ws \<and> (\<forall>x \<in> set ws. \<not> PINBA_REPORT_DELETE_CHECK s' (rec_of x)))"
  by (simp add: delete_check_start)

lemma base_delete_laws:
  "PINBA_REPORT_DELETE_CHECK (std R) r \<Longrightarrow> update_report_delete hs i R r = R"
  "base_models t hs R [] \<Longrightarrow> update_report_delete hs i R r = R"
  "PINBA_REPORT_DELETE_CHECK (std R) r \<Longrightarrow> update_report_info_delete hs R r = R"
  "info_models hs R [] \<Longrightarrow> update_report_info_delete hs R r = R"
  using base_models_empty [of t hs R]
  by (simp_all add: update_report_delete_def update_report_info_delete_def info_models_def Let_def split: option.splits)

interpretation base_feed: idle_report
    "\<lambda>R r. update_report_add hs (base_index t r) (base_labels t r) R r"
    "\<lambda>R r. update_report_delete hs (base_index t r) R r"
    "base_models t hs" "\<lambda>R ws. list_all (report_adm R) ws \<and> length ws < WINDOW_MAX"
    std upd_report_std "\<lambda>i. request_view" "\<lambda>r. r" "\<lambda>R ws. window_ok ws" "\<lambda>r. False" "\<lambda>R. True"
  for hs t
  by unfold_locales
    (simp_all add: update_report_std base_models_header base_delete_laws report_okw window_ok_subseq
      dated_window_cong [where rec_of = "\<lambda>r. r"])

interpretation info_feed: idle_report
    "update_report_info_add hs" "update_report_info_delete hs" "info_models hs"
    "\<lambda>R ws. list_all (report_adm R) ws \<and> length ws < WINDOW_MAX"
    std upd_report_std "\<lambda>i. request_view" "\<lambda>r. r" "\<lambda>R ws. window_ok ws" "\<lambda>r. False" "\<lambda>R. True"
  for hs
  by unfold_locales
    (simp_all add: update_report_std base_models_header base_delete_laws report_okw window_ok_subseq
      dated_window_cong [where rec_of = "\<lambda>r. r"])

section \<open>Request-tag reports\<close>

text \<open>The key function of a report type, as the table creation installs it.\<close>

definition rtag_flat_keyf :: "pinba_report_type \<Rightarrow> rtag_keyf" where
  "rtag_flat_keyf t =
     (case t of PINBA_TABLE_RTAG_INFO \<Rightarrow> rtag_info_key | PINBA_TABLE_RTAG2_INFO \<Rightarrow> rtag2_key | _ \<Rightarrow> rtagN_key)"

definition rtag_host_keyf :: "pinba_report_type \<Rightarrow> rtag_keyf" where
  "rtag_host_keyf t =
     (case t of PINBA_TABLE_RTAG_REPORT \<Rightarrow> rtag_key | PINBA_TABLE_RTAG2_REPORT \<Rightarrow> rtag2_key | _ \<Rightarrow> rtagN_key)"

lemma rtag_okw:
  "list_all (rtag_adm R) ws \<and> length ws < WINDOW_MAX \<longleftrightarrow>
   window_ok ws \<and> (\<forall>x \<in> set ws. \<not> PINBA_REPORT_DELETE_CHECK (rt_std R) x)"
  by (auto simp: window_ok_def list_all_iff rtag_adm_def)

lemma rtag_models_header:
  assumes "header_kept (rt_std R) (f (rt_std R))"
  shows "rtag_models tget tcount tinv key lab hs (upd_rtag_std f R) = rtag_models tget tcount tinv key lab hs R"
  using assms row_agg_header [OF assms, of hs, where ?'a = "\<lparr>rlabels :: rtag_labels\<rparr>"]
  by (simp add: fun_eq_iff [of "rtag_models _ _ _ _ _ _ _"] rtag_models_def upd_rtag_std_def header_kept_def)

lemma rtag_std:
  "same_start (rt_std R) (rt_std (rtag_flat_add hs ok key R r))"
  "same_start (rt_std R) (rt_std (rtag_flat_delete hs key R r))"
  "same_start (rt_std S) (rt_std (rtag_host_add hs ok key S r))"
  "same_start (rt_std S) (rt_std (rtag_host_delete hs key S r))"
  "CHECK_REPORT_CONDITIONS (rt_std (rtag_flat_add hs ok key R r)) = CHECK_REPORT_CONDITIONS (rt_std R)"
  "CHECK_REPORT_CONDITIONS (rt_std (rtag_flat_delete hs key R r)) = CHECK_REPORT_CONDITIONS (rt_std R)"
  "CHECK_REPORT_CONDITIONS (rt_std (rtag_host_add hs ok key S r)) = CHECK_REPORT_CONDITIONS (rt_std S)"
  "CHECK_REPORT_CONDITIONS (rt_std (rtag_host_delete hs key S r)) = CHECK_REPORT_CONDITIONS (rt_std S)"
  by (auto simp: same_start_def rtag_flat_add_def rtag_flat_delete_def rtag_host_add_def rtag_host_delete_def
      rtag_commit_def Let_def split: option.splits prod.splits if_splits intro!: conditions_cong)

lemma rtag_tags_kept:
  "rt_tags (rtag_flat_add hs ok key R r) = rt_tags R" "rt_tags (rtag_flat_delete hs key R r) = rt_tags R"
  "rt_tags (rtag_host_add hs ok key S r) = rt_tags S" "rt_tags (rtag_host_delete hs key S r) = rt_tags S"
  "rt_tags (upd_rtag_std f T) = rt_tags T"
  by (auto simp: rtag_flat_add_def rtag_flat_delete_def rtag_host_add_def rtag_host_delete_def
      rtag_commit_def upd_rtag_std_def Let_def split: option.splits prod.splits if_splits)

lemma rtag_delete_old:
  "PINBA_REPORT_DELETE_CHECK (rt_std R) r \<Longrightarrow> rtag_flat_delete hs key R r = R"
  "PINBA_REPORT_DELETE_CHECK (rt_std S) r \<Longrightarrow> rtag_host_delete hs key S r = S"
  by (simp_all add: rtag_flat_delete_def rtag_host_delete_def)

lemma rows_model_empty: "rows_model tget agg lab key m [] \<Longrightarrow> tget m k = None"
  by (auto simp: rows_model_def row_fits_def dest: spec [of _ k] split: option.splits)

lemma rtag_delete_empty:
  "rtag_flat_models keyf hs R [] \<Longrightarrow> rtag_flat_delete hs key R r = R"
  "rtag_host_models keyf hs S [] \<Longrightarrow> rtag_host_delete hs key S r = S"
proof -
  assume "rtag_flat_models keyf hs R []"
  then have "pinba_map_get (rt_results R) k = None" for k
    using rows_model_empty by (auto simp: rtag_flat_models_def rtag_models_def)
  then show "rtag_flat_delete hs key R r = R" by (auto simp: rtag_flat_delete_def split: option.splits)
next
  assume "rtag_host_models keyf hs S []"
  then have "nested_get (rt_results S) (hostname r, i) = None" for i
    using rows_model_empty by (auto simp: rtag_host_models_def rtag_models_def)
  then have "pinba_map_get m i = None" if "pinba_map_get (rt_results S) (hostname r) = Some m" for m i
    using that by (auto simp: nested_get_def)
  then show "rtag_host_delete hs key S r = S"
    by (auto simp: rtag_host_delete_def split: option.splits)
qed

lemma rtag_type_models_header:
  assumes "header_kept (rt_std R) (f (rt_std R))"
  shows "rtag_flat_models keyf hs (upd_rtag_std f R) = rtag_flat_models keyf hs R"
  by (simp add: fun_eq_iff [of "rtag_flat_models _ _ _"] rtag_flat_models_def rtag_tags_kept
      rtag_models_header assms)

lemma rtag_type_host_header:
  assumes "header_kept (rt_std R) (f (rt_std R))"
  shows "rtag_host_models keyf hs (upd_rtag_std f R) = rtag_host_models keyf hs R"
  by (simp add: fun_eq_iff [of "rtag_host_models _ _ _"] rtag_host_models_def rtag_tags_kept
      rtag_models_header assms)

lemmas rtag_feed_laws =
  rtag_std rtag_delete_old rtag_delete_empty rtag_okw window_ok_subseq
  dated_window_cong [where rec_of = "\<lambda>r. r"] rtag_type_models_header rtag_type_host_header

text \<open>A request without tags is idle: it has no key.\<close>

lemma rtag_keyf_idle:
  assumes "tgs \<noteq> []" and "tags r = []"
  shows "rtag_flat_keyf t tgs r = None" "rtag_host_keyf t tgs r = None"
  using assms
  by (simp_all add: rtag_flat_keyf_def rtag_host_keyf_def rtag_info_key_def rtag_key_def rtag2_key_def rtagN_key_def
      rtagN_find_def split: pinba_report_type.split)

lemma rtag_models_idle:
  assumes "\<And>r. tags r = [] \<Longrightarrow> key r = None"
  shows "rtag_models tget tcount tinv key lab hs R (filter (\<lambda>r. tags r \<noteq> []) ws) = rtag_models tget tcount tinv key lab hs R ws"
proof -
  have "filter (\<lambda>r. key r \<noteq> None) (filter (\<lambda>r. tags r \<noteq> []) ws) = filter (\<lambda>r. key r \<noteq> None) ws"
    "filter (\<lambda>r. key r = Some k) (filter (\<lambda>r. tags r \<noteq> []) ws) = filter (\<lambda>r. key r = Some k) ws" for k
    using assms by (auto intro!: filter_cong)
  then show ?thesis by (simp add: rtag_models_def rows_model_def)
qed

lemma rtag_type_idle:
  "rt_tags R \<noteq> [] \<Longrightarrow> rtag_flat_models (rtag_flat_keyf t) hs R (filter (\<lambda>r. tags r \<noteq> []) ws) = rtag_flat_models (rtag_flat_keyf t) hs R ws"
  "rt_tags S \<noteq> [] \<Longrightarrow> rtag_host_models (rtag_host_keyf t) hs S (filter (\<lambda>r. tags r \<noteq> []) ws) = rtag_host_models (rtag_host_keyf t) hs S ws"
  unfolding rtag_flat_models_def rtag_host_models_def
  by (rule rtag_models_idle; simp add: rtag_keyf_idle flat_key_def host_key_def)+

interpretation rtag_flat_feed: idle_report
    "\<lambda>R r. rtag_flat_add hs True (rtag_flat_keyf t (rt_tags R) r) R r"
    "\<lambda>R r. rtag_flat_delete hs (rtag_flat_keyf t (rt_tags R) r) R r"
    "rtag_flat_models (rtag_flat_keyf t) hs" "\<lambda>R ws. list_all (rtag_adm R) ws \<and> length ws < WINDOW_MAX"
    rt_std upd_rtag_std "\<lambda>i. request_view" "\<lambda>r. r" "\<lambda>R ws. window_ok ws" "\<lambda>r. tags r = []" "\<lambda>R. rt_tags R \<noteq> []"
  for hs t
  by unfold_locales (simp_all add: rtag_feed_laws rtag_type_idle rtag_tags_kept)

interpretation rtag_host_feed: idle_report
    "\<lambda>R r. rtag_host_add hs True (rtag_host_keyf t (rt_tags R) r) R r"
    "\<lambda>R r. rtag_host_delete hs (rtag_host_keyf t (rt_tags R) r) R r"
    "rtag_host_models (rtag_host_keyf t) hs" "\<lambda>R ws. list_all (rtag_adm R) ws \<and> length ws < WINDOW_MAX"
    rt_std upd_rtag_std "\<lambda>i. request_view" "\<lambda>r. r" "\<lambda>R ws. window_ok ws" "\<lambda>r. tags r = []" "\<lambda>R. rt_tags R \<noteq> []"
  for hs t
  by unfold_locales (simp_all add: rtag_feed_laws rtag_type_idle rtag_tags_kept)

end
