(* ===== verification/Timer_Pool.thy ===== *)
theory Timer_Pool
  imports Records Pool
begin

text \<open>
  The timer pool (\<^verbatim>\<open>src/pool.cc\<close>, \<^verbatim>\<open>src/pinba.h\<close>): a ring of timers in the order of their
  requests. A request refers to its timers by the position of the first one and their
  number; \<open>record_timers\<close> is the list the reports read. When the pool has to grow while it is
  wrapped around, the timers at its end move, and \<^verbatim>\<open>timer_pool_add\<close> corrects the positions in
  the requests they belong to.
\<close>

section \<open>Reading timers\<close>

definition record_get_timer :: "pinba_timer_record pinba_pool \<Rightarrow> pinba_stats_record \<Rightarrow> nat \<Rightarrow> pinba_timer_record" where
  "record_get_timer p record i =
     (if timers_start record + i \<ge> psize p then pdata p ! (timers_start record + i - psize p)
      else pdata p ! (timers_start record + i))"

definition record_timers :: "pinba_timer_record pinba_pool \<Rightarrow> pinba_stats_record \<Rightarrow> pinba_timer_record list" where
  "record_timers p record = map (record_get_timer p record) [0..<unat (timers_cnt record)]"

lemma record_timers_active [simp]: "record_timers p (r\<lparr>active := a\<rparr>) = record_timers p r"
  by (simp add: record_timers_def record_get_timer_def [abs_def])

section \<open>Reserving timers\<close>

definition zero_timer :: pinba_timer_record where
  "zero_timer = \<lparr>timer_tags = [], timer_value = null_timeval, timer_ru_utime = null_timeval,
     timer_ru_stime = null_timeval, timer_request_id = 0, timer_hit_count = 0\<rparr>"

text \<open>
  The loop over the moved timers: \<open>prev\<close> is \<^verbatim>\<open>prev_request_id\<close>, compared as an unsigned
  number. Each request with a tagged timer among them is moved once.
\<close>

fun move_timers_start ::
  "nat \<Rightarrow> pinba_timer_record list \<Rightarrow> u32 \<Rightarrow> pinba_stats_record list \<Rightarrow> pinba_stats_record list" where
  "move_timers_start n [] prev records = records"
| "move_timers_start n (timer # timers) prev records =
     (if timer_tags timer = [] then move_timers_start n timers prev records
      else if timer_request_id timer = ucast prev then move_timers_start n timers prev records
      else
        let i = unat (timer_request_id timer); record = records ! i
        in if timers_cnt record = 0 then move_timers_start n timers prev records
           else move_timers_start n timers (ucast (timer_request_id timer))
                  (records[i := record\<lparr>timers_start := timers_start record + n\<rparr>]))"

definition timer_pool_add ::
  "pinba_timer_record list option \<Rightarrow> nat \<Rightarrow> pinba_timer_record pinba_pool \<Rightarrow> pinba_stats_record pinba_pool \<Rightarrow>
   int \<times> pinba_timer_record pinba_pool \<times> pinba_stats_record pinba_pool" where
  "timer_pool_add mem cnt tp rp =
     (let grown =
            (if pinba_pool_num_records tp + cnt \<ge> psize tp then
               let n = (if PINBA_TIMER_POOL_GROW_SIZE < cnt
                        then PINBA_TIMER_POOL_GROW_SIZE + cnt else PINBA_TIMER_POOL_GROW_SIZE)
               in case pinba_pool_grow mem zero_timer tp n of
                    (P_FAILURE, tp) \<Rightarrow> None
                  | (P_SUCCESS, tp) \<Rightarrow>
                      Some (tp, if pout tp > pin tp
                                then rp\<lparr>pdata := move_timers_start n (drop (pout tp) (pdata tp)) (- 1) (pdata rp)\<rparr>
                                else rp)
             else Some (tp, rp))
      in case grown of
           None \<Rightarrow> (- 1, tp, rp)
         | Some (tp, rp) \<Rightarrow> (int (pin tp), tp\<lparr>pin := advance tp (pin tp) cnt\<rparr>, rp))"

section \<open>The layout of the timers\<close>

text \<open>
  The timers of the requests in the given cells lie in the ring one request after the other,
  starting \<open>off\<close> timers after \<open>out\<close>; each carries the cell of its request and has tags.
\<close>

fun laid :: "pinba_timer_record pinba_pool \<Rightarrow> pinba_stats_record list \<Rightarrow> nat \<Rightarrow> nat list \<Rightarrow> bool" where
  "laid tp records off [] \<longleftrightarrow> off = pinba_pool_num_records tp"
| "laid tp records off (i # is) \<longleftrightarrow>
     (timers_cnt (records ! i) \<noteq> 0 \<longrightarrow> timers_start (records ! i) = (pout tp + off) mod psize tp) \<and>
     (\<forall>t \<in> set (record_timers tp (records ! i)). timer_request_id t = of_nat i \<and> timer_tags t \<noteq> []) \<and>
     laid tp records (off + unat (timers_cnt (records ! i))) is"

lemma laid_bound: "laid tp records off is \<Longrightarrow> off \<le> pinba_pool_num_records tp"
  by (induction "is" arbitrary: off) force+

lemma laid_cong:
  "laid tp records off is \<Longrightarrow> \<forall>i \<in> set is. records' ! i = records ! i \<Longrightarrow> laid tp records' off is"
  by (induction "is" arbitrary: off) auto

lemma get_timer_mod:
  assumes "timers_start r = (pout tp + off) mod psize tp" and "j < psize tp" and "0 < psize tp"
  shows "record_get_timer tp r j = pdata tp ! ((pout tp + off + j) mod psize tp)"
proof -
  define x where "x = (pout tp + off) mod psize tp"
  have "x < psize tp" using assms(3) by (simp add: x_def)
  then have "record_get_timer tp r j = pdata tp ! ((x + j) mod psize tp)"
    using assms(1,2) by (cases "psize tp \<le> x + j") (simp_all add: record_get_timer_def x_def [symmetric] le_mod_geq)
  also have "(x + j) mod psize tp = (pout tp + off + j) mod psize tp"
    unfolding x_def by (rule mod_add_left_eq)
  finally show ?thesis .
qed

lemma unat_prev: "i < 2 ^ 31 \<Longrightarrow> (ucast (ucast (of_nat i :: u64) :: u32) :: u64) = of_nat i"
  by (rule ucast_ucast_small) (simp add: unat_of_nat_word64)

lemma of_nat_ne_minus: "i < 2 ^ 31 \<Longrightarrow> (of_nat i :: u64) \<noteq> ucast (- 1 :: u32)"
proof
  assume i: "i < 2 ^ 31" and e: "(of_nat i :: u64) = ucast (- 1 :: u32)"
  have "unat (ucast (- 1 :: u32) :: u64) = 4294967295"
    by (simp add: unsigned_ucast_eq take_bit_word_eq_self unsigned_minus_1_eq_mask
        mask_eq_exp_minus_1)
  moreover have "unat (of_nat i :: u64) = i" using i by (simp add: unat_of_nat_word64)
  ultimately show False using i e by simp
qed

text \<open>The timers of one request in front of the list: its record is moved, once.\<close>

lemma move_group:
  assumes "\<forall>t \<in> set ts. timer_request_id t = of_nat i \<and> timer_tags t \<noteq> []" and "ts \<noteq> []"
    and "i < 2 ^ 31" and "timers_cnt (records ! i) \<noteq> 0" and "of_nat i \<noteq> (ucast prev :: u64)"
  shows "move_timers_start n (ts @ rest) prev records =
     move_timers_start n rest (ucast (of_nat i :: u64))
       (records[i := (records ! i)\<lparr>timers_start := timers_start (records ! i) + n\<rparr>])"
proof -
  have skip: "move_timers_start n (ts' @ rest) (ucast (of_nat i :: u64)) rs =
      move_timers_start n rest (ucast (of_nat i :: u64)) rs"
    if "\<forall>t \<in> set ts'. timer_request_id t = of_nat i \<and> timer_tags t \<noteq> []" for ts' rs
    using that assms(3) by (induction ts') (simp_all add: unat_prev)
  obtain t ts' where "ts = t # ts'" using assms(2) by (cases ts) auto
  then show ?thesis
    using assms skip [of ts'] by (simp add: Let_def unat_of_nat_word64)
qed

text \<open>
  The timer pool before and after it grew by \<open>n\<close> cells while wrapped around: \<open>tq\<close> holds the
  old end of \<open>tp\<close> at its own end.
\<close>

definition wrapped_growth :: "nat \<Rightarrow> 'a pinba_pool \<Rightarrow> 'a pinba_pool \<Rightarrow> bool" where
  "wrapped_growth n tp tq \<longleftrightarrow>
     pool_ok tp \<and> pin tp < pout tp \<and> pin tq = pin tp \<and> pout tq = pout tp + n \<and> psize tq = psize tp + n \<and>
     (\<exists>z. pdata tq = take (pout tp) (pdata tp) @ replicate n z @ drop (pout tp) (pdata tp))"

lemma growth_read:
  assumes g: "wrapped_growth n tp tq" and k: "k < pinba_pool_num_records tp"
  shows "pdata tq ! ((pout tq + k) mod psize tq) = pdata tp ! ((pout tp + k) mod psize tp)"
proof -
  have len: "length (pdata tp) = psize tp" "pout tp < psize tp" using g by (auto simp: wrapped_growth_def pool_ok_def)
  have num: "pinba_pool_num_records tp = psize tp - pout tp + pin tp"
    using g len by (auto simp: wrapped_growth_def pinba_pool_num_records_def)
  show ?thesis
  proof (cases "pout tp + k < psize tp")
    case True
    then show ?thesis using g len by (auto simp: wrapped_growth_def nth_append)
  next
    case False
    then have e: "(pout tq + k) mod psize tq = pout tp + k - psize tp"
      "(pout tp + k) mod psize tp = pout tp + k - psize tp"
      using g len k num by (auto simp: wrapped_growth_def le_mod_geq)
    have "pout tp + k - psize tp < pout tp" using g len k num by (auto simp: wrapped_growth_def)
    then show ?thesis unfolding e using g len by (auto simp: wrapped_growth_def nth_append)
  qed
qed

text \<open>Moving the start of a request by \<open>n\<close> when its first timer moved keeps its timers.\<close>

definition moved :: "nat \<Rightarrow> pinba_timer_record pinba_pool \<Rightarrow> nat \<Rightarrow> pinba_stats_record \<Rightarrow> pinba_stats_record" where
  "moved n tp off r =
     (if timers_cnt r \<noteq> 0 \<and> pout tp + off < psize tp then r\<lparr>timers_start := timers_start r + n\<rparr> else r)"

lemma moved_timers:
  assumes g: "wrapped_growth n tp tq" and st: "timers_cnt r \<noteq> 0 \<longrightarrow> timers_start r = (pout tp + off) mod psize tp"
    and b: "off + unat (timers_cnt r) \<le> pinba_pool_num_records tp"
  shows "timers_cnt r \<noteq> 0 \<longrightarrow> timers_start (moved n tp off r) = (pout tq + off) mod psize tq"
    and "record_timers tq (moved n tp off r) = record_timers tp r"
    and "timers_cnt (moved n tp off r) = timers_cnt r"
proof -
  have len: "pout tp < psize tp" "0 < psize tp" "psize tq = psize tp + n" "pout tq = pout tp + n"
    using g by (auto simp: wrapped_growth_def pool_ok_def)
  have num: "pinba_pool_num_records tp < psize tp" "pinba_pool_num_records tp = psize tp - pout tp + pin tp" "pin tp < pout tp"
    using g num_records_less by (auto simp: wrapped_growth_def pinba_pool_num_records_def pool_ok_def)
  show c: "timers_cnt (moved n tp off r) = timers_cnt r" by (simp add: moved_def)
  have off: "off < pinba_pool_num_records tp" if "timers_cnt r \<noteq> 0"
    using b that by (metis add_lessD1 le_neq_implies_less less_add_same_cancel1 linorder_not_less not_gr_zero unat_eq_zero)
  show s: "timers_cnt r \<noteq> 0 \<longrightarrow> timers_start (moved n tp off r) = (pout tq + off) mod psize tq"
  proof
    assume nz: "timers_cnt r \<noteq> 0"
    show "timers_start (moved n tp off r) = (pout tq + off) mod psize tq"
    proof (cases "pout tp + off < psize tp")
      case True
      then show ?thesis using st nz len by (simp add: moved_def)
    next
      case False
      then have "(pout tp + off) mod psize tp = pout tp + off - psize tp"
        "(pout tq + off) mod psize tq = pout tp + off - psize tp"
        using off [OF nz] num len by (auto simp: le_mod_geq)
      then show ?thesis using st nz False by (simp add: moved_def)
    qed
  qed
  show "record_timers tq (moved n tp off r) = record_timers tp r"
  proof (cases "timers_cnt r = 0")
    case False
    have "record_get_timer tq (moved n tp off r) j = record_get_timer tp r j" if j: "j < unat (timers_cnt r)" for j
    proof -
      have "record_get_timer tq (moved n tp off r) j = pdata tq ! ((pout tq + (off + j)) mod psize tq)"
        using get_timer_mod [of "moved n tp off r" tq off j] s False j b num len by (simp add: add.assoc)
      also have "\<dots> = pdata tp ! ((pout tp + (off + j)) mod psize tp)"
        using j b by (intro growth_read [OF g]) simp
      also have "\<dots> = record_get_timer tp r j"
        using get_timer_mod [of r tp off j] st False j b num len by (simp add: add.assoc)
      finally show ?thesis .
    qed
    then show ?thesis by (simp add: record_timers_def c)
  qed (simp add: record_timers_def c)
qed

lemma drop_group:
  assumes ok: "pool_ok tp" and st: "timers_cnt r \<noteq> 0 \<longrightarrow> timers_start r = (pout tp + off) mod psize tp"
    and b: "unat (timers_cnt r) < psize tp"
  shows "drop (pout tp + off) (pdata tp) =
     take (psize tp - (pout tp + off)) (record_timers tp r) @ drop (pout tp + (off + unat (timers_cnt r))) (pdata tp)"
proof (cases "timers_cnt r = 0")
  case False
  let ?c = "unat (timers_cnt r)"
  have "record_timers tp r = map (\<lambda>j. pdata tp ! ((pout tp + off + j) mod psize tp)) [0..<?c]"
    using get_timer_mod [of r tp off] st False b ok by (auto simp: record_timers_def pool_ok_def)
  then have "take (psize tp - (pout tp + off)) (record_timers tp r) = take ?c (drop (pout tp + off) (pdata tp))"
    using ok by (intro nth_equalityI) (auto simp: pool_ok_def)
  then show ?thesis
    by (metis append_take_drop_id drop_drop add.assoc add.commute)
qed (simp add: record_timers_def)

lemma growth_num: "wrapped_growth n tp tq \<Longrightarrow> pinba_pool_num_records tq = pinba_pool_num_records tp"
  by (auto simp: wrapped_growth_def pinba_pool_num_records_def)

lemma of_nat_ne: "i < 2 ^ 31 \<Longrightarrow> j < 2 ^ 31 \<Longrightarrow> i \<noteq> j \<Longrightarrow> (of_nat i :: u64) \<noteq> of_nat j"
  by (simp add: of_nat_word64_eq_iff)

lemma move_step:
  assumes g: "wrapped_growth n tp tq" and laid: "laid tp records off (i # is)"
    and i: "i < 2 ^ 31" and prev: "of_nat i \<noteq> (ucast prev :: u64)"
  shows "\<exists>prev'. move_timers_start n (drop (pout tp + off) (pdata tp)) prev records =
      move_timers_start n (drop (pout tp + (off + unat (timers_cnt (records ! i)))) (pdata tp)) prev'
        (records[i := moved n tp off (records ! i)]) \<and> prev' \<in> {prev, ucast (of_nat i :: u64)}"
proof -
  let ?r = "records ! i"
  let ?ts = "take (psize tp - (pout tp + off)) (record_timers tp ?r)"
  have ok: "pool_ok tp" using g by (simp add: wrapped_growth_def)
  have b: "unat (timers_cnt ?r) < psize tp"
    using laid_bound [of tp records "off + unat (timers_cnt ?r)" "is"] laid num_records_less [OF ok] by simp
  have d: "drop (pout tp + off) (pdata tp) = ?ts @ drop (pout tp + (off + unat (timers_cnt ?r))) (pdata tp)"
    using laid by (intro drop_group [OF ok _ b]) simp
  have ids: "\<forall>t \<in> set ?ts. timer_request_id t = of_nat i \<and> timer_tags t \<noteq> []"
    using laid by (auto dest: in_set_takeD)
  show ?thesis
  proof (cases "timers_cnt ?r \<noteq> 0 \<and> pout tp + off < psize tp")
    case True
    then have "?ts \<noteq> []" by (auto simp: record_timers_def unat_eq_0)
    then show ?thesis
      unfolding d using move_group [OF ids _ i _ prev, of records n] True by (auto simp: moved_def)
  next
    case False
    then have "?ts = []" by (auto simp: record_timers_def)
    then show ?thesis unfolding d using False by (auto simp: moved_def)
  qed
qed

lemma move_laid:
  assumes g: "wrapped_growth n tp tq"
  shows "laid tp records off is \<Longrightarrow> distinct is \<Longrightarrow> \<forall>i \<in> set is. i < length records \<and> i < 2 ^ 31 \<Longrightarrow>
     \<forall>i \<in> set is. of_nat i \<noteq> (ucast prev :: u64) \<Longrightarrow>
     R' = move_timers_start n (drop (pout tp + off) (pdata tp)) prev records \<Longrightarrow>
     laid tq R' off is \<and> length R' = length records \<and> (\<forall>j. j \<notin> set is \<longrightarrow> R' ! j = records ! j) \<and>
     (\<forall>i \<in> set is. record_timers tq (R' ! i) = record_timers tp (records ! i) \<and>
        (\<exists>k. R' ! i = (records ! i)\<lparr>timers_start := k\<rparr>))"
proof (induction "is" arbitrary: off prev records)
  case Nil
  have "pool_ok tp" and "pin tp < pout tp" using g by (auto simp: wrapped_growth_def)
  then have "psize tp - pout tp \<le> off" and "length (pdata tp) = psize tp"
    using Nil.prems(1) by (auto simp: pinba_pool_num_records_def pool_ok_def)
  then have "drop (pout tp + off) (pdata tp) = []" by simp
  then have "R' = records" using Nil.prems(5) by simp
  then show ?case using Nil.prems(1) growth_num [OF g] by simp
next
  case (Cons i "is")
  let ?r = "records ! i" and ?c = "unat (timers_cnt (records ! i))"
  let ?rs = "records[i := moved n tp off (records ! i)]"
  have i: "i < length records" "i < 2 ^ 31" "i \<notin> set is" using Cons.prems(2,3) by auto
  obtain prev' where R': "R' = move_timers_start n (drop (pout tp + (off + ?c)) (pdata tp)) prev' ?rs"
    and prev': "prev' \<in> {prev, ucast (of_nat i :: u64)}"
    using move_step [OF g Cons.prems(1) i(2), of prev] Cons.prems(4,5) by auto
  have rs: "?rs ! j = records ! j" if "j \<in> set is" for j
  proof -
    have "i \<noteq> j" using that i(3) by auto
    then show ?thesis by simp
  qed
  have "laid tp ?rs (off + ?c) is"
    by (rule laid_cong [of tp records]) (use Cons.prems(1) rs in auto)
  moreover have "\<forall>j \<in> set is. of_nat j \<noteq> (ucast prev' :: u64)"
  proof
    fix j assume j: "j \<in> set is"
    then have "of_nat j \<noteq> (ucast prev :: u64)" and "(of_nat j :: u64) \<noteq> of_nat i"
      using Cons.prems(3,4) i of_nat_ne [of j i] by auto
    then show "of_nat j \<noteq> (ucast prev' :: u64)" using prev' unat_prev [OF i(2)] by fastforce
  qed
  ultimately have IH: "laid tq R' (off + ?c) is" "length R' = length ?rs" "\<forall>j. j \<notin> set is \<longrightarrow> R' ! j = ?rs ! j"
    "\<forall>j \<in> set is. record_timers tq (R' ! j) = record_timers tp (?rs ! j) \<and> (\<exists>k. R' ! j = (?rs ! j)\<lparr>timers_start := k\<rparr>)"
    using Cons.IH [of ?rs "off + ?c" prev'] Cons.prems(2,3) R' by auto
  have Ri: "R' ! i = moved n tp off ?r" using IH(3) i by simp
  have b: "off + ?c \<le> pinba_pool_num_records tp" using laid_bound [of tp records "off + ?c" "is"] Cons.prems(1) by simp
  note mv = moved_timers [OF g _ b]
  have st: "timers_cnt ?r \<noteq> 0 \<longrightarrow> timers_start ?r = (pout tp + off) mod psize tp" using Cons.prems(1) by simp
  have "laid tq R' off (i # is)"
    using IH(1) Cons.prems(1) mv [OF st] Ri by simp
  moreover have "\<exists>k. moved n tp off ?r = ?r\<lparr>timers_start := k\<rparr>"
    unfolding moved_def by (cases "timers_cnt ?r \<noteq> 0 \<and> pout tp + off < psize tp")
      (auto intro: exI [of _ "timers_start ?r"])
  moreover have "\<forall>j. j \<notin> set (i # is) \<longrightarrow> R' ! j = records ! j" using IH(3) by auto
  ultimately show ?case using IH(2,4) mv(2) [OF st] Ri rs by simp
qed

section \<open>Reserving keeps the timers of every request\<close>

definition timers_ok :: "pinba_timer_record pinba_pool \<Rightarrow> pinba_stats_record pinba_pool \<Rightarrow> bool" where
  "timers_ok tp rp \<longleftrightarrow>
     pool_ok tp \<and> limit_size tp = 0 \<and> psize tp < 2 ^ 62 \<and> pool_ok rp \<and> psize rp \<le> 2 ^ 31 \<and>
     laid tp (pdata rp) 0 (cells rp)"

definition timer_growth :: "nat \<Rightarrow> nat" where
  "timer_growth cnt =
     (if PINBA_TIMER_POOL_GROW_SIZE < cnt then PINBA_TIMER_POOL_GROW_SIZE + cnt else PINBA_TIMER_POOL_GROW_SIZE)"

text \<open>A growth that does not wrap leaves every position as it is.\<close>

lemma laid_flat:
  assumes p: "pool_ok tp" "pout tp \<le> pin tp" and q: "pin tq = pin tp" "pout tq = pout tp" "psize tp \<le> psize tq"
    "\<forall>k < psize tp. pdata tq ! k = pdata tp ! k"
  shows "laid tp records off is \<Longrightarrow>
    laid tq records off is \<and> (\<forall>i \<in> set is. record_timers tq (records ! i) = record_timers tp (records ! i))"
proof (induction "is" arbitrary: off)
  case Nil
  then show ?case using p q by (auto simp: pinba_pool_num_records_def)
next
  case (Cons i "is")
  let ?r = "records ! i"
  have b: "off + unat (timers_cnt ?r) \<le> pin tp - pout tp"
    using laid_bound [of tp records "off + unat (timers_cnt ?r)" "is"] Cons.prems p
    by (simp add: pinba_pool_num_records_def split: if_splits)
  have small: "pout tp + k < psize tp" if "k \<le> pin tp - pout tp" for k
    using p that unfolding pool_ok_def by linarith
  have m: "(pout tp + off) mod psize tp = pout tp + off" "(pout tp + off) mod psize tq = pout tp + off"
    using small [of off] b q(3) by auto
  have "record_timers tq ?r = record_timers tp ?r"
  proof (cases "timers_cnt ?r = 0")
    case False
    then have "timers_start ?r = pout tp + off" using Cons.prems m by simp
    then have "record_get_timer tq ?r j = record_get_timer tp ?r j" if "j < unat (timers_cnt ?r)" for j
      using small [of "off + j"] that b q by (simp add: record_get_timer_def add.assoc)
    then show ?thesis by (simp add: record_timers_def)
  qed (simp add: record_timers_def)
  moreover have "laid tp records (off + unat (timers_cnt ?r)) is" using Cons.prems by simp
  ultimately show ?case using Cons.IH [of "off + unat (timers_cnt ?r)"] Cons.prems m q(2) by simp
qed

lemma timer_growth_size:
  assumes "psize tp < 2 ^ 62" and "cnt < 2 ^ 31" and "limit_size tp = 0"
  shows "pinba_pool_new_size tp (timer_growth cnt) = psize tp + timer_growth cnt"
    and "0 < timer_growth cnt" and "cnt \<le> timer_growth cnt"
  using assms by (auto simp: pinba_pool_new_size_def timer_growth_def)

definition timers_kept ::
  "pinba_timer_record pinba_pool \<Rightarrow> pinba_stats_record pinba_pool \<Rightarrow>
   pinba_timer_record pinba_pool \<Rightarrow> pinba_stats_record pinba_pool \<Rightarrow> bool" where
  "timers_kept tp rp tq rq \<longleftrightarrow>
     (\<exists>d. rq = rp\<lparr>pdata := d\<rparr> \<and> length d = length (pdata rp)) \<and>
     (\<forall>i. i \<notin> set (cells rp) \<longrightarrow> pdata rq ! i = pdata rp ! i) \<and>
     (\<forall>i \<in> set (cells rp). record_timers tq (pdata rq ! i) = record_timers tp (pdata rp ! i) \<and>
        (\<exists>k. pdata rq ! i = (pdata rp ! i)\<lparr>timers_start := k\<rparr>))"

lemma timers_kept_refl: "timers_kept tp rp tp rp"
proof -
  have "\<exists>k. r = r\<lparr>timers_start := k\<rparr>" for r :: pinba_stats_record
    by (rule exI [of _ "timers_start r"]) simp
  moreover have "rp = rp\<lparr>pdata := pdata rp\<rparr>" by simp
  ultimately show ?thesis unfolding timers_kept_def by blast
qed

text \<open>The two ways the pool grows, with the positions corrected when it was wrapped around.\<close>

lemma timers_grown:
  assumes ok: "timers_ok tp rp" and cnt: "cnt < 2 ^ 31"
    and g: "pinba_pool_grow (Some junk) zero_timer tp (timer_growth cnt) = (P_SUCCESS, tq)"
    and junk: "length junk = pinba_pool_new_size tp (timer_growth cnt) - psize tp"
  defines "rq \<equiv> (if pout tq > pin tq
     then rp\<lparr>pdata := move_timers_start (timer_growth cnt) (drop (pout tq) (pdata tq)) (- 1) (pdata rp)\<rparr> else rp)"
  shows "timers_kept tp rp tq rq" and "laid tq (pdata rq) 0 (cells rp)" and "pool_ok tq"
    and "pin tq = pin tp" and "psize tq = psize tp + timer_growth cnt"
    and "pinba_pool_num_records tq = pinba_pool_num_records tp" and "limit_size tq = 0"
proof -
  have tp: "pool_ok tp" "limit_size tp = 0" "psize tp < 2 ^ 62" and rp: "pool_ok rp" "psize rp \<le> 2 ^ 31"
    and laid: "laid tp (pdata rp) 0 (cells rp)"
    using ok by (auto simp: timers_ok_def)
  note size = timer_growth_size [OF tp(3) cnt tp(2)]
  have e: "psize tq = psize tp + timer_growth cnt" "pin tq = pin tp" "length (pdata tq) = psize tq"
    "pout tq = (if pout tp > pin tp then pout tp + timer_growth cnt else pout tp)"
    "pdata tq = (if pout tp > pin tp
       then take (pout tp) (pdata tp) @ replicate (timer_growth cnt) zero_timer @ drop (pout tp) (pdata tp)
       else pdata tp @ replicate (timer_growth cnt) zero_timer)"
    using pool_grow_effect [OF g _ junk] tp(1) unfolding size(1) pool_ok_def by auto
  show "pool_ok tq" using e tp(1) by (auto simp: pool_ok_def)
  show "limit_size tq = 0"
    using g tp(2) by (auto simp: pinba_pool_grow_def Let_def split: if_splits)
  show "pin tq = pin tp" "psize tq = psize tp + timer_growth cnt" using e by simp_all
  show "pinba_pool_num_records tq = pinba_pool_num_records tp"
    using e by (auto simp: pinba_pool_num_records_def)
  have "timers_kept tp rp tq rq \<and> laid tq (pdata rq) 0 (cells rp)"
  proof (cases "pout tp > pin tp")
    case True
    then have wg: "wrapped_growth (timer_growth cnt) tp tq"
      using e tp(1) by (auto simp: wrapped_growth_def)
    have "drop (pout tq) (pdata tq) = drop (pout tp + 0) (pdata tp)"
      using e True tp(1) by (simp add: pool_ok_def)
    then have rq: "rq = rp\<lparr>pdata := move_timers_start (timer_growth cnt) (drop (pout tp + 0) (pdata tp)) (- 1) (pdata rp)\<rparr>"
      using True e by (simp add: rq_def)
    have b: "\<forall>i \<in> set (cells rp). i < length (pdata rp) \<and> i < 2 ^ 31"
      using cells_bound [OF rp(1)] rp by (force simp: pool_ok_def)
    then have "\<forall>i \<in> set (cells rp). of_nat i \<noteq> (ucast (- 1 :: u32) :: u64)"
      using of_nat_ne_minus by blast
    note mv = move_laid [OF wg laid distinct_cells [OF rp(1)] b this refl]
    show ?thesis using mv unfolding rq timers_kept_def by auto
  next
    case False
    then have rq: "rq = rp" using e by (simp add: rq_def)
    have "laid tq (pdata rp) 0 (cells rp) \<and>
        (\<forall>i \<in> set (cells rp). record_timers tq (pdata rp ! i) = record_timers tp (pdata rp ! i))"
      using False e tp(1) by (intro laid_flat [OF tp(1) _ _ _ _ _ laid]) (auto simp: nth_append pool_ok_def)
    then show ?thesis using timers_kept_refl [of tp rp] by (simp add: rq timers_kept_def)
  qed
  then show "timers_kept tp rp tq rq" "laid tq (pdata rq) 0 (cells rp)" by auto
qed

lemma record_timers_in [simp]: "record_timers (tp\<lparr>pin := k\<rparr>) r = record_timers tp r"
  by (simp add: record_timers_def record_get_timer_def [abs_def])

lemma timers_kept_in [simp]: "timers_kept tp rp (tq\<lparr>pin := k\<rparr>) rq = timers_kept tp rp tq rq"
  by (simp add: timers_kept_def)

lemma num_records_push:
  assumes "pool_ok p" and "pinba_pool_num_records p + n < psize p"
  shows "pinba_pool_num_records (p\<lparr>pin := advance p (pin p) n\<rparr>) = pinba_pool_num_records p + n"
  using push_cells(1,2) [OF assms] length_cells [of "p\<lparr>pin := advance p (pin p) n\<rparr>"] length_cells [OF assms(1)]
  by (simp add: free_cells_def)

section \<open>Reserving timers for a request\<close>

lemma timer_pool_add_eq:
  "timer_pool_add mem cnt tp rp =
     (if pinba_pool_num_records tp + cnt \<ge> psize tp then
        case pinba_pool_grow mem zero_timer tp (timer_growth cnt) of
          (P_FAILURE, tq) \<Rightarrow> (- 1, tp, rp)
        | (P_SUCCESS, tq) \<Rightarrow>
            (int (pin tq), tq\<lparr>pin := advance tq (pin tq) cnt\<rparr>,
             if pout tq > pin tq
             then rp\<lparr>pdata := move_timers_start (timer_growth cnt) (drop (pout tq) (pdata tq)) (- 1) (pdata rp)\<rparr>
             else rp)
      else (int (pin tp), tp\<lparr>pin := advance tp (pin tp) cnt\<rparr>, rp))"
  unfolding timer_pool_add_def timer_growth_def Let_def by (auto split: prod.splits p_result.splits)

text \<open>A timer pool of four cells that has wrapped around: the timers of two requests.\<close>

definition sample_mark :: "nat \<Rightarrow> int \<Rightarrow> pinba_timer_record" where
  "sample_mark i n = zero_timer\<lparr>timer_tags := [(1, \<lparr>word_addr = 1, word_str = ''x''\<rparr>)],
     timer_request_id := of_nat i, timer_hit_count := n\<rparr>"

definition sample_timer_pool :: "pinba_timer_record pinba_pool" where
  "sample_timer_pool = \<lparr>psize = 4, limit_size = 0, grow_size = 4, pin = 1, pout = 3, pname = ''timer'',
     pdata = [sample_mark 1 20, zero_timer, zero_timer, sample_mark 0 10]\<rparr>"

definition sample_timed :: "nat \<Rightarrow> u16 \<Rightarrow> pinba_stats_record" where
  "sample_timed first n =
     \<lparr>script_name = ''/a'', server_name = ''s'', hostname = ''h'', schema = [], req_time = null_timeval,
      ru_utime = null_timeval, ru_stime = null_timeval, doc_size = FNum 0, mem_peak_usage = FNum 0,
      memory_footprint = FNum 0, tags = [], req_count = 1, status = 200, rec_time = \<lparr>tv_sec = 7, tv_usec = 0\<rparr>,
      timers_start = first, counter = 0, timers_cnt = n, active = True, dictionary_words = []\<rparr>"

definition sample_request_pool :: "pinba_stats_record pinba_pool" where
  "sample_request_pool = \<lparr>psize = 4, limit_size = 4, grow_size = 4, pin = 2, pout = 0, pname = ''request'',
     pdata = [sample_timed 3 1, sample_timed 0 1, sample_timed 0 0, sample_timed 0 0]\<rparr>"

lemma sample_timer_pool_ok: "timers_ok sample_timer_pool sample_request_pool"
  by (simp add: timers_ok_def sample_timer_pool_def sample_request_pool_def pool_ok_def cells_def upt_rec
      sample_timed_def record_timers_def record_get_timer_def sample_mark_def pinba_pool_num_records_def)

text \<open>
  C20: Reserving timers for a request gives it the position after the last timer and counts the
  new timers in; every stored request still reads the same timers afterwards, also when the
  pool had to grow while it was wrapped around and the timers at its end moved, and nothing of
  a request but the position of its timers changes. When the pool has to grow and no memory
  is left, the answer is -1 and nothing changes.
\<close>

theorem timer_pool_add_keeps_timers:
  assumes "timers_ok tp rp" and "cnt < 2 ^ 31"
    and "length junk = pinba_pool_new_size tp (timer_growth cnt) - psize tp"
  shows "(case timer_pool_add (Some junk) cnt tp rp of
            (i, tq, rq) \<Rightarrow> i = int (pin tp) \<and> pool_ok tq \<and> timers_kept tp rp tq rq \<and>
              pinba_pool_num_records tq = pinba_pool_num_records tp + cnt) \<and>
         (psize tp \<le> pinba_pool_num_records tp + cnt \<longrightarrow> timer_pool_add None cnt tp rp = (- 1, tp, rp))"
proof (rule conjI)
  have tp: "pool_ok tp" "limit_size tp = 0" "psize tp < 2 ^ 62" using assms(1) by (auto simp: timers_ok_def)
  note size = timer_growth_size [OF tp(3) assms(2) tp(2)]
  show "case timer_pool_add (Some junk) cnt tp rp of
      (i, tq, rq) \<Rightarrow> i = int (pin tp) \<and> pool_ok tq \<and> timers_kept tp rp tq rq \<and>
        pinba_pool_num_records tq = pinba_pool_num_records tp + cnt"
  proof (cases "psize tp \<le> pinba_pool_num_records tp + cnt")
    case True
    obtain tq where g: "pinba_pool_grow (Some junk) zero_timer tp (timer_growth cnt) = (P_SUCCESS, tq)"
      using pool_grow_result(1) [of "Some junk" zero_timer tp "timer_growth cnt"] size
      by (cases "pinba_pool_grow (Some junk) zero_timer tp (timer_growth cnt)") auto
    note grown = timers_grown [OF assms(1,2) g assms(3)]
    have "pinba_pool_num_records tq + cnt < psize tq"
      using grown(5,6) num_records_less [OF tp(1)] size(3) by simp
    note push = push_cells(1) [OF grown(3) this] num_records_push [OF grown(3) this]
    show ?thesis using True push grown(1,4,6) by (simp add: timer_pool_add_eq g)
  next
    case False
    then have "pinba_pool_num_records tp + cnt < psize tp" by simp
    note push = push_cells(1) [OF tp(1) this] num_records_push [OF tp(1) this]
    show ?thesis using False push timers_kept_refl [of tp rp] by (simp add: timer_pool_add_eq)
  qed
  show "psize tp \<le> pinba_pool_num_records tp + cnt \<longrightarrow> timer_pool_add None cnt tp rp = (- 1, tp, rp)"
    using pool_grow_result(1) [of None zero_timer tp "timer_growth cnt"]
    by (cases "pinba_pool_grow None zero_timer tp (timer_growth cnt)")
      (auto simp: timer_pool_add_eq split: p_result.splits)
qed

theorem timer_pool_add_keeps_timers_witness:
  "case timer_pool_add (Some (replicate (timer_growth 3) zero_timer)) 3 sample_timer_pool sample_request_pool of
     (i, tq, rq) \<Rightarrow> i = 1 \<and> record_timers tq (pdata rq ! 0) = [sample_mark 0 10] \<and>
       record_timers tq (pdata rq ! 1) = [sample_mark 1 20]"
proof -
  let ?junk = "replicate (timer_growth 3) zero_timer"
  have "length ?junk = pinba_pool_new_size sample_timer_pool (timer_growth 3) - psize sample_timer_pool"
    using timer_growth_size(1) [of sample_timer_pool 3] by (simp add: sample_timer_pool_def)
  from timer_pool_add_keeps_timers [OF sample_timer_pool_ok _ this] show ?thesis
    by (simp add: timers_kept_def split: prod.splits)
      (auto simp: sample_timer_pool_def sample_request_pool_def cells_def upt_rec record_timers_def
        record_get_timer_def sample_timed_def)
qed

end
