(* ===== verification/Tag_Feeds.thy ===== *)
theory Tag_Feeds
  imports Report_Feeds Timer_Pool
begin

text \<open>
  The timer-tag reports meet the contract of the jobs (\<open>idle_report\<close>): of a cell of the
  request pool they take the cell number, the request and the timers it refers to.
\<close>

definition timer_item :: "pinba_timer_record pinba_pool \<Rightarrow> nat \<Rightarrow> pinba_stats_record \<Rightarrow> slot_request" where
  "timer_item tp i r = (of_nat i, request_view r, record_timers tp r)"

definition item_request :: "slot_request \<Rightarrow> pinba_stats_record" where
  "item_request x = fst (snd x)"

section \<open>The scratch array\<close>

text \<open>The searches keep the length of the scratch array.\<close>

lemma tagN_inner_length: "length (fst (tagN_inner tag_id h n ts words cnt found)) = length words"
  by (induction tag_id h n ts words cnt found rule: tagN_inner.induct) (simp_all add: Let_def)

lemma tagN_outer_length: "length (fst (tagN_outer ids h n ts words cnt)) = length words"
proof (induction ids h n ts words cnt rule: tagN_outer.induct)
  case (2 tag_id ids h n ts words cnt)
  then show ?case
    using tagN_inner_length [of tag_id h n ts words cnt False]
    by (cases "tagN_inner tag_id h n ts words cnt False") auto
qed simp

lemma shape_keyf_length: "length (fst (shape_keyf shape level a ids words record t)) = length words"
  using tagN_outer_length [of ids 0 "length ids" "timer_tags t" words 0]
  by (cases shape; cases level; simp add: key_defs tagN_search_def split_beta)

section \<open>The laws\<close>

lemma same_configD:
  assumes "same_config R S"
  shows "same_start (tg_std S) (tg_std R)" and "CHECK_REPORT_CONDITIONS (tg_std R) = CHECK_REPORT_CONDITIONS (tg_std S)"
  using assms by (auto simp: same_config_def same_start_def intro!: conditions_cong)

lemma tagrow_ok_header: "header_kept s s' \<Longrightarrow> tagrow_ok hs s' = tagrow_ok hs s"
  by (simp add: fun_eq_iff tagrow_ok_def tagrow_agg_def tag_sums_def timer_slot_def [abs_def] header_kept_def
      split: option.splits)

lemma tag_models_header:
  assumes "header_kept (tg_std R) (f (tg_std R))"
  shows "tag_models tget tcount tinv K hs (upd_tag_std f R) = tag_models tget tcount tinv K hs R"
  using assms by (simp add: fun_eq_iff [of "tag_models _ _ _ _ _ _"] tag_models_def upd_tag_std_def
      tagrow_ok_header [OF assms]) (simp add: header_kept_def)

lemma tag_type_models_header:
  "header_kept (tg_std R) (f (tg_std R)) \<Longrightarrow> tag_flat_models K hs (upd_tag_std f R) = tag_flat_models K hs R"
  "header_kept (tg_std S) (f (tg_std S)) \<Longrightarrow> tag_script_models K hs (upd_tag_std f S) = tag_script_models K hs S"
  by (simp_all add: fun_eq_iff [of "tag_flat_models _ _ _"] fun_eq_iff [of "tag_script_models _ _ _"]
      tag_flat_models_def tag_script_models_def tag_models_header) (simp_all add: upd_tag_std_def)

text \<open>An empty report stays empty: a deletion finds no row.\<close>

lemma tag_models_empty: "tag_models tget tcount tinv K hs R [] \<Longrightarrow> tget (tg_results R) k = None"
  by (auto simp: tag_models_def timers_of_def tagrow_ok_def dest: spec [of _ k] split: option.splits)

lemma for_timers_empty:
  assumes "\<And>ids words t. length (fst (keyf ids words record t)) = length words"
    and "\<And>i key t R. P (tg_results R) \<Longrightarrow> body i key t R = R" and "P (tg_results R)"
  shows "\<exists>w. length w = length (tg_words R) \<and> for_timers keyf body record i ts R = R\<lparr>tg_words := w\<rparr>"
  using assms(3)
proof (induction ts arbitrary: i R)
  case Nil
  then show ?case by (intro exI [of _ "tg_words R"]) simp
next
  case (Cons t ts)
  obtain w key where k: "keyf (tg_tag_id R) (tg_words R) record t = (w, key)" by fastforce
  then have "length w = length (tg_words R)" using assms(1) [of "tg_tag_id R" "tg_words R" t] by simp
  then show ?case
    using Cons.IH [of "R\<lparr>tg_words := w\<rparr>" "Suc i"] Cons.prems assms(2) [of "R\<lparr>tg_words := w\<rparr>" i key t]
    by (simp add: k)
qed

lemma tag_delete_empty:
  "tag_flat_models K hs R [] \<Longrightarrow> tag_flat_models K hs (tag_flat_delete (shape_keyf shape level a) hs' rid record ts R) []"
  "tag_script_models K hs S [] \<Longrightarrow> tag_script_models K hs (tag_script_delete (shape_keyf shape level a) hs' rid record ts S) []"
proof -
  assume m: "tag_flat_models K hs R []"
  have "\<exists>w. length w = length (tg_words R) \<and> for_timers (shape_keyf shape level a)
      (\<lambda>i. tag_flat_timer_delete hs' rid) record 0 ts R = R\<lparr>tg_words := w\<rparr>"
    using tag_models_empty [OF m [unfolded tag_flat_models_def]]
    by (intro for_timers_empty [where P = "\<lambda>m. \<forall>k. pinba_map_get m k = None"] shape_keyf_length)
      (simp_all add: tag_flat_timer_delete_def split: option.splits)
  then show "tag_flat_models K hs (tag_flat_delete (shape_keyf shape level a) hs' rid record ts R) []"
    using m by (auto simp: tag_flat_delete_def tag_flat_models_def tag_models_def)
next
  assume m: "tag_script_models K hs S []"
  have "\<exists>w. length w = length (tg_words S) \<and> for_timers (shape_keyf shape level a)
      (\<lambda>i. tag_script_timer_delete hs' rid (script_name record)) record 0 ts S = S\<lparr>tg_words := w\<rparr>"
    using tag_models_empty [OF m [unfolded tag_script_models_def]]
    by (intro for_timers_empty [where P = "\<lambda>m. \<forall>k. nested_get m k = None"] shape_keyf_length)
      (auto simp: tag_script_timer_delete_def nested_get_def split: option.splits)
  then show "tag_script_models K hs (tag_script_delete (shape_keyf shape level a) hs' rid record ts S) []"
    using m by (auto simp: tag_script_delete_def tag_script_models_def tag_models_def split: option.splits)
qed

text \<open>The windows a report handles, apart from their age.\<close>

definition tag_good :: "tag_keyf \<Rightarrow> tag_keyf \<Rightarrow> id_spec \<Rightarrow> 'm pinba_tag_report \<Rightarrow> slot_request list \<Rightarrow> bool" where
  "tag_good keyf keyf' K R ws \<longleftrightarrow>
     list_all (\<lambda>(rid, record, ts). rid \<noteq> - 1 \<and> list_all timer_ok ts \<and>
        list_all (\<lambda>t. key_agrees keyf (K (tg_tag_id R)) (tg_tag_id R) record t \<and>
                      key_agrees keyf' (K (tg_tag_id R)) (tg_tag_id R) record t) ts) ws \<and>
     distinct (map fst ws) \<and> length ws < WINDOW_MAX"

lemma tag_okw_good:
  "tag_okw keyf keyf' K R ws \<longleftrightarrow>
   tag_good keyf keyf' K R ws \<and> (\<forall>x \<in> set ws. \<not> PINBA_REPORT_DELETE_CHECK (tg_std R) (item_request x))"
  by (force simp: tag_okw_def tag_good_def tag_adm_def list_all_iff item_request_def)

lemma tag_okw_goodD:
  "tag_okw keyf keyf' K R ws \<Longrightarrow> tag_good keyf keyf' K R ws"
  "tag_okw keyf keyf' K R ws \<Longrightarrow> x \<in> set ws \<Longrightarrow> \<not> PINBA_REPORT_DELETE_CHECK (tg_std R) (item_request x)"
  by (simp_all add: tag_okw_good)

lemma distinct_subseq: "subseq xs ys \<Longrightarrow> distinct ys \<Longrightarrow> distinct xs"
proof (induction rule: list_emb.induct)
  case (list_emb_Cons2 x y xs ys)
  then show ?case using set_subseq [of xs ys] by auto
qed simp_all

lemma tag_good_sub: "subseq vs ws \<Longrightarrow> tag_good keyf keyf' K R ws \<Longrightarrow> tag_good keyf keyf' K R vs"
  using list_emb_length [of "(=)" vs ws] set_subseq [of vs ws] subseq_map [of vs ws fst]
    distinct_subseq [of "map fst vs" "map fst ws"]
  unfolding tag_good_def list_all_iff by (metis (no_types, lifting) le_less_trans subsetD)

lemma tag_good_ids: "tg_tag_id R = tg_tag_id S \<Longrightarrow> tag_good keyf keyf' K R = tag_good keyf keyf' K S"
  by (simp add: fun_eq_iff tag_good_def)

lemma tag_okw_start:
  assumes "same_start (f (tg_std R)) (g (tg_std R))"
  shows "tag_okw keyf keyf' K (upd_tag_std f R) = tag_okw keyf keyf' K (upd_tag_std g R)"
  using delete_check_start [OF assms] tag_good_ids [of "upd_tag_std f R" "upd_tag_std g R" keyf keyf' K]
  by (simp add: fun_eq_iff [of "tag_okw _ _ _ _"] tag_okw_good) (simp add: upd_tag_std_def)

lemma tag_okw_part: "tag_okw keyf keyf' K R (us @ ws @ vs) \<Longrightarrow> tag_okw keyf keyf' K R ws"
  by (simp add: tag_okw_def)

lemma timer_item_simps [simp]:
  "item_request (timer_item tp i r) = request_view r" "timer_item tp i (r\<lparr>active := a\<rparr>) = timer_item tp i r"
  by (simp_all add: timer_item_def item_request_def)

lemma tag_delete_old:
  "PINBA_REPORT_DELETE_CHECK (tg_std R) (item_request (rid, record, ts)) \<Longrightarrow> tag_flat_delete keyf hs rid record ts R = R"
  "PINBA_REPORT_DELETE_CHECK (tg_std S) (item_request (rid, record, ts)) \<Longrightarrow> tag_script_delete keyf hs rid record ts S = S"
  by (simp_all add: tag_flat_delete_def tag_script_delete_def item_request_def)

lemma tag_good_frame:
  "tag_good keyf keyf' K (upd_tag_std f T) = tag_good keyf keyf' K T"
  "tag_good keyf keyf' K (tag_flat_delete keyf'' hs rid record ts R) = tag_good keyf keyf' K R"
  "tag_good keyf keyf' K (tag_script_delete keyf'' hs rid record ts S) = tag_good keyf keyf' K S"
  by (rule tag_good_ids, simp add: upd_tag_std_def same_config_ids [OF tag_config(2)] same_config_ids [OF tag_config(4)])+

text \<open>A request without timers is idle.\<close>

lemma timers_of_idle: "timers_of K k (filter (\<lambda>x. snd (snd x) \<noteq> []) ws) = timers_of K k ws"
  by (induction ws) (auto simp: timers_of_def with_key_def)

lemma tag_type_idle:
  "tag_flat_models K hs R (filter (\<lambda>x. snd (snd x) \<noteq> []) ws) = tag_flat_models K hs R ws"
  "tag_script_models K hs S (filter (\<lambda>x. snd (snd x) \<noteq> []) ws) = tag_script_models K hs S ws"
  by (simp_all add: tag_flat_models_def tag_script_models_def tag_models_def timers_of_idle)

lemma tag_ids_upd: "tg_tag_id (upd_tag_std f R) = tg_tag_id R"
  by (simp add: upd_tag_std_def)

lemmas tag_feed_laws =
  tag_type_idle
  same_configD [OF tag_config(1)] same_configD [OF tag_config(2)] same_configD [OF tag_config(3)]
  same_configD [OF tag_config(4)] tag_type_models_header tag_good_sub tag_delete_empty tag_delete_old
  tag_good_frame tag_okw_start
  same_config_ids [OF tag_config(1)] same_config_ids [OF tag_config(2)] same_config_ids [OF tag_config(3)]
  same_config_ids [OF tag_config(4)] tag_ids_upd

interpretation tag_flat_feed: idle_report
    "\<lambda>R (rid, record, ts). tag_flat_add (shape_keyf shape level True) hs (\<lambda>_. True) rid record ts R"
    "\<lambda>R (rid, record, ts). tag_flat_delete (shape_keyf shape level False) hs rid record ts R"
    "tag_flat_models K hs" "tag_okw (shape_keyf shape level True) (shape_keyf shape level False) K"
    tg_std upd_tag_std "timer_item tp" item_request
    "tag_good (shape_keyf shape level True) (shape_keyf shape level False) K" "\<lambda>x. snd (snd x) = []" "\<lambda>R. tg_tag_id R = ids"
  for shape level K hs tp ids
  by unfold_locales
    (auto simp: tag_feed_laws intro: tag_okw_part iffD2 [OF tag_okw_good]
      dest: tag_okw_goodD split: prod.splits)

interpretation tag_script_feed: idle_report
    "\<lambda>R (rid, record, ts). tag_script_add (shape_keyf shape level True) hs (\<lambda>_. True) rid record ts R"
    "\<lambda>R (rid, record, ts). tag_script_delete (shape_keyf shape level False) hs rid record ts R"
    "tag_script_models K hs" "tag_okw (shape_keyf shape level True) (shape_keyf shape level False) K"
    tg_std upd_tag_std "timer_item tp" item_request
    "tag_good (shape_keyf shape level True) (shape_keyf shape level False) K" "\<lambda>x. snd (snd x) = []" "\<lambda>R. tg_tag_id R = ids"
  for shape level K hs tp ids
  by unfold_locales
    (auto simp: tag_feed_laws intro: tag_okw_part iffD2 [OF tag_okw_good]
      dest: tag_okw_goodD split: prod.splits)

end
