(* ===== verification/Dictionary.thy ===== *)
theory Dictionary
  imports Records Pinba_Maps "HOL-Library.Multiset"
begin

text \<open>
  The dictionary of words (\<^verbatim>\<open>src/pinba_dictionary.cc\<close>, \<^verbatim>\<open>src/pinba_dictionary.h\<close>): strings are
  interned, requests and reports own references to the words, and a word without references
  is reclaimed by the collector. \<open>refs\<close> is the \<^verbatim>\<open>references\<close> member of the word at an address;
  the counters are the metrics the budget reads. \<open>word_size\<close> stands for
  \<^verbatim>\<open>sizeof(pinba_word)\<close>.
\<close>

section \<open>State\<close>

record pinba_dictionary =
  dict :: "pinba_word pinba_map"
  refs :: "nat \<Rightarrow> u64"
  words_live :: u64
  words_bytes :: u64
  dictionary_rejects :: u64

record pinba_dictionary_budget =
  max_words :: u64
  max_bytes :: u64

section \<open>Operations\<close>

definition pinba_word_retain :: "pinba_word option \<Rightarrow> pinba_dictionary \<Rightarrow> pinba_dictionary" where
  "pinba_word_retain word d =
     (case word of
        None \<Rightarrow> d
      | Some w \<Rightarrow> d\<lparr>refs := (refs d)(word_addr w := refs d (word_addr w) + 1)\<rparr>)"

definition pinba_word_release :: "pinba_word option \<Rightarrow> pinba_dictionary \<Rightarrow> pinba_dictionary" where
  "pinba_word_release word d =
     (case word of
        None \<Rightarrow> d
      | Some w \<Rightarrow> d\<lparr>refs := (refs d)(word_addr w := refs d (word_addr w) - 1)\<rparr>)"

definition pinba_words_release :: "pinba_word list \<Rightarrow> pinba_dictionary \<Rightarrow> pinba_dictionary" where
  "pinba_words_release ws d = fold (\<lambda>w. pinba_word_release (Some w)) ws d"

definition word_charge :: "u64 \<Rightarrow> nat \<Rightarrow> u64" where
  "word_charge word_size len = word_size + 2 * (of_nat len + 1)"

definition over_budget :: "u64 \<Rightarrow> pinba_dictionary_budget \<Rightarrow> nat \<Rightarrow> pinba_dictionary \<Rightarrow> bool" where
  "over_budget word_size budget copied d \<longleftrightarrow>
     (let charge = word_charge word_size copied; bytes = words_bytes d
      in max_words budget \<noteq> 0 \<and> of_nat (pinba_map_count (dict d)) \<ge> max_words budget \<or>
         max_bytes budget \<noteq> 0 \<and> (charge > max_bytes budget \<or> bytes > max_bytes budget - charge))"

text \<open>
  Interning a string. The caller holds the read lock; the function gives it up to take the
  write lock, and \<open>meanwhile\<close> is what the other threads do in between. \<open>fresh\<close> is the word
  \<^verbatim>\<open>new\<close> returns, \<open>None\<close> when it fails, and \<open>room\<close> says whether \<^verbatim>\<open>strdup\<close> and the insertion
  find memory.
\<close>

definition pinba_dictionary_intern_rdlock ::
  "u64 \<Rightarrow> (pinba_dictionary \<Rightarrow> pinba_dictionary) \<Rightarrow> nat option \<Rightarrow> bool \<Rightarrow> pinba_dictionary_budget \<Rightarrow>
   string \<Rightarrow> pinba_dictionary \<Rightarrow> pinba_word option \<times> pinba_dictionary" where
  "pinba_dictionary_intern_rdlock word_size meanwhile fresh room budget str d =
     (let copied = min (length str) (PINBA_TAG_VALUE_SIZE - 1); key = take copied str
      in case pinba_map_get (dict d) key of
           Some w \<Rightarrow> (Some w, pinba_word_retain (Some w) d)
         | None \<Rightarrow>
             let d = meanwhile d
             in case pinba_map_get (dict d) key of
                  Some w \<Rightarrow> (Some w, pinba_word_retain (Some w) d)
                | None \<Rightarrow>
                    if over_budget word_size budget copied d
                    then (None, d\<lparr>dictionary_rejects := dictionary_rejects d + 1\<rparr>)
                    else case fresh of
                           None \<Rightarrow> (None, d)
                         | Some a \<Rightarrow>
                             let w = \<lparr>word_addr = a, word_str = key\<rparr>;
                                 d = d\<lparr>refs := (refs d)(a := 0)\<rparr>
                             in case pinba_map_try_add room (dict d) key w of
                                  (m, True) \<Rightarrow>
                                    (Some w, pinba_word_retain (Some w)
                                       (d\<lparr>dict := m, words_live := words_live d + 1,
                                          words_bytes := words_bytes d + word_charge word_size copied\<rparr>))
                                | (m, False) \<Rightarrow> (None, d\<lparr>dict := m\<rparr>))"

definition pinba_dictionary_lookup :: "string \<Rightarrow> pinba_dictionary \<Rightarrow> pinba_word option \<times> pinba_dictionary" where
  "pinba_dictionary_lookup str d =
     (let word = pinba_map_get (dict d) str in (word, pinba_word_retain word d))"

definition pinba_dictionary_collect :: "u64 \<Rightarrow> pinba_dictionary \<Rightarrow> nat \<times> pinba_dictionary" where
  "pinba_dictionary_collect word_size d =
     (let dead = (\<lambda>w. refs d (word_addr w) = 0);
          gone = (case dict d of None \<Rightarrow> [] | Some ps \<Rightarrow> filter dead (map snd ps))
      in case pinba_map_delete_if (dict d) dead of
           (m, collected) \<Rightarrow>
             (collected,
              d\<lparr>dict := m, words_live := words_live d - of_nat (length gone),
                words_bytes := words_bytes d - (\<Sum>w \<leftarrow> gone. word_charge word_size (length (word_str w)))\<rparr>))"

text \<open>Dropping the words of a stored request; its tags go with them.\<close>

definition pinba_record_release_words ::
  "pinba_stats_record \<Rightarrow> pinba_dictionary \<Rightarrow> pinba_stats_record \<times> pinba_dictionary" where
  "pinba_record_release_words record d =
     (record\<lparr>dictionary_words := [], tags := []\<rparr>, pinba_words_release (dictionary_words record) d)"

section \<open>Owners\<close>

text \<open>
  \<open>owners\<close> is the multiset of the addresses the rest of the engine holds, one for each
  reference. No owned address dangles, the counts are exact, and words are the same object
  exactly when they are the same string.
\<close>

definition words_of :: "pinba_dictionary \<Rightarrow> pinba_word list" where
  "words_of d = (case dict d of None \<Rightarrow> [] | Some ps \<Rightarrow> map snd ps)"

definition entry_ok :: "string \<times> pinba_word \<Rightarrow> bool" where
  "entry_ok e \<longleftrightarrow> word_str (snd e) = fst e \<and> length (fst e) < PINBA_TAG_VALUE_SIZE"

definition dictionary_ok :: "u64 \<Rightarrow> nat multiset \<Rightarrow> pinba_dictionary \<Rightarrow> bool" where
  "dictionary_ok word_size owners d \<longleftrightarrow>
     (case dict d of None \<Rightarrow> True | Some ps \<Rightarrow> list_all entry_ok ps) \<and> map_wf (dict d) \<and>
     distinct (map word_addr (words_of d)) \<and> size owners < 2 ^ 64 \<and>
     (\<forall>w \<in> set (words_of d). refs d (word_addr w) = of_nat (count owners (word_addr w))) \<and>
     set_mset owners \<subseteq> word_addr ` set (words_of d) \<and>
     words_live d = of_nat (length (words_of d)) \<and>
     words_bytes d = (\<Sum>w \<leftarrow> words_of d. word_charge word_size (length (word_str w)))"

lemma count_less_word: "size owners < 2 ^ 64 \<Longrightarrow> (of_nat (count owners a) :: u64) = 0 \<longleftrightarrow> a \<notin># owners"
  using count_le_size [of owners a] by (simp add: of_nat_word64_eq_0_iff count_eq_zero_iff)

lemma get_words_of: "pinba_map_get (dict d) key = Some w \<Longrightarrow> w \<in> set (words_of d)"
  by (force simp: pinba_map_get_def words_of_def dest: map_of_SomeD split: option.splits)

lemma words_of_get:
  assumes "dictionary_ok word_size owners d" and "w \<in> set (words_of d)"
  shows "pinba_map_get (dict d) (word_str w) = Some w"
  using assms
  by (force simp: dictionary_ok_def words_of_def pinba_map_get_def map_wf_def list_all_iff entry_ok_def
      split: option.splits)

lemma get_str:
  assumes "dictionary_ok word_size owners d" and "pinba_map_get (dict d) key = Some w"
  shows "word_str w = key"
  using assms
  by (auto simp: dictionary_ok_def pinba_map_get_def list_all_iff entry_ok_def dest!: map_of_SomeD
      split: option.splits)

lemma words_of_refs [simp]: "words_of (d\<lparr>refs := r\<rparr>) = words_of d"
  by (simp add: words_of_def)

lemma retain_ok:
  assumes "dictionary_ok word_size owners d" and "w \<in> set (words_of d)" and "Suc (size owners) < 2 ^ 64"
  shows "dictionary_ok word_size (add_mset (word_addr w) owners) (pinba_word_retain (Some w) d)"
  using assms by (auto simp: dictionary_ok_def pinba_word_retain_def)

lemma release_ok:
  assumes "dictionary_ok word_size (add_mset (word_addr w) owners) d"
  shows "dictionary_ok word_size owners (pinba_word_release (Some w) d)"
  using assms by (auto simp: dictionary_ok_def pinba_word_release_def)

lemma releases_ok:
  "dictionary_ok word_size (owners + mset (map word_addr ws)) d \<Longrightarrow>
   dictionary_ok word_size owners (pinba_words_release ws d)"
proof (induction ws arbitrary: d)
  case (Cons w ws)
  have "dictionary_ok word_size (owners + mset (map word_addr ws)) (pinba_word_release (Some w) d)"
    using Cons.prems by (intro release_ok) simp
  then show ?case using Cons.IH by (simp add: pinba_words_release_def)
qed (simp add: pinba_words_release_def)

section \<open>Interning, collecting, budget\<close>

lemma try_add_new:
  assumes "pinba_map_get m key = None"
  shows "pinba_map_try_add room m key w =
     (if room then (Some ((case m of None \<Rightarrow> [] | Some ps \<Rightarrow> ps) @ [(key, w)]), True) else (m, False))"
proof -
  have "map_of ps key = None \<Longrightarrow> alist_put key w ps = ps @ [(key, w)]" for ps
    by (induction ps) (auto split: if_splits)
  then show ?thesis
    using assms by (auto simp: pinba_map_try_add_def map_data_add_def pinba_map_get_def split: option.splits)
qed

lemma insert_ok:
  assumes ok: "dictionary_ok word_size owners d" and new: "pinba_map_get (dict d) key = None"
    and len: "length key < PINBA_TAG_VALUE_SIZE" and a: "a \<notin> word_addr ` set (words_of d)"
    and d': "d' = d\<lparr>refs := (refs d)(a := 0),
       dict := Some ((case dict d of None \<Rightarrow> [] | Some ps \<Rightarrow> ps) @ [(key, \<lparr>word_addr = a, word_str = key\<rparr>)]),
       words_live := words_live d + 1, words_bytes := words_bytes d + word_charge word_size (length key)\<rparr>"
  shows "dictionary_ok word_size owners d'" and "words_of d' = words_of d @ [\<lparr>word_addr = a, word_str = key\<rparr>]"
proof -
  let ?w = "\<lparr>word_addr = a, word_str = key\<rparr>"
  show w: "words_of d' = words_of d @ [?w]" by (simp add: d' words_of_def split: option.splits)
  have "a \<notin># owners" using ok a by (auto simp: dictionary_ok_def)
  then have "\<forall>w \<in> set (words_of d'). refs d' (word_addr w) = of_nat (count owners (word_addr w))"
    unfolding w using ok a by (auto simp: dictionary_ok_def d' not_in_iff)
  moreover have "map_wf (dict d')"
    using ok new by (auto simp: d' dictionary_ok_def map_wf_def pinba_map_get_def map_of_eq_None_iff split: option.splits)
  moreover have "words_live d' = of_nat (length (words_of d'))"
    "words_bytes d' = (\<Sum>w \<leftarrow> words_of d'. word_charge word_size (length (word_str w)))"
    unfolding w using ok by (simp_all add: d' dictionary_ok_def)
  moreover have "case dict d' of None \<Rightarrow> True | Some ps \<Rightarrow> list_all entry_ok ps"
    using ok len by (auto simp: d' dictionary_ok_def entry_ok_def split: option.splits)
  moreover have "distinct (map word_addr (words_of d'))" "set_mset owners \<subseteq> word_addr ` set (words_of d')"
    "size owners < 2 ^ 64"
    unfolding w using ok a by (auto simp: dictionary_ok_def)
  ultimately show "dictionary_ok word_size owners d'" by (simp add: dictionary_ok_def)
qed

lemma rejects_ok:
  "dictionary_ok word_size owners (d\<lparr>dictionary_rejects := n\<rparr>) = dictionary_ok word_size owners d"
  "words_of (d\<lparr>dictionary_rejects := n\<rparr>) = words_of d"
  by (simp_all add: dictionary_ok_def words_of_def)

lemma unused_ref_ok:
  assumes "dictionary_ok word_size owners d" and "a \<notin> word_addr ` set (words_of d)"
  shows "dictionary_ok word_size owners (d\<lparr>refs := (refs d)(a := r)\<rparr>)"
  using assms by (auto simp: dictionary_ok_def)

definition dictionary_key :: "string \<Rightarrow> string" where
  "dictionary_key str = take (PINBA_TAG_VALUE_SIZE - 1) str"

lemma intern_eq:
  "pinba_dictionary_intern_rdlock word_size meanwhile fresh room budget str d =
     (let key = dictionary_key str
      in case pinba_map_get (dict d) key of
           Some w \<Rightarrow> (Some w, pinba_word_retain (Some w) d)
         | None \<Rightarrow>
             let d = meanwhile d
             in case pinba_map_get (dict d) key of
                  Some w \<Rightarrow> (Some w, pinba_word_retain (Some w) d)
                | None \<Rightarrow>
                    if over_budget word_size budget (length key) d
                    then (None, d\<lparr>dictionary_rejects := dictionary_rejects d + 1\<rparr>)
                    else case fresh of
                           None \<Rightarrow> (None, d)
                         | Some a \<Rightarrow>
                             let w = \<lparr>word_addr = a, word_str = key\<rparr>;
                                 d = d\<lparr>refs := (refs d)(a := 0)\<rparr>
                             in case pinba_map_try_add room (dict d) key w of
                                  (m, True) \<Rightarrow>
                                    (Some w, pinba_word_retain (Some w)
                                       (d\<lparr>dict := m, words_live := words_live d + 1,
                                          words_bytes := words_bytes d + word_charge word_size (length key)\<rparr>))
                                | (m, False) \<Rightarrow> (None, d\<lparr>dict := m\<rparr>))"
proof -
  have "take (min (length str) (PINBA_TAG_VALUE_SIZE - 1)) str = dictionary_key str"
    "min (length str) (PINBA_TAG_VALUE_SIZE - 1) = length (dictionary_key str)"
    by (simp_all add: dictionary_key_def min_def)
  then show ?thesis unfolding pinba_dictionary_intern_rdlock_def by (simp only: Let_def)
qed

definition sample_dictionary :: pinba_dictionary where
  "sample_dictionary =
     \<lparr>dict = Some [(''app'', \<lparr>word_addr = 5, word_str = ''app''\<rparr>), (''old'', \<lparr>word_addr = 9, word_str = ''old''\<rparr>)],
      refs = (\<lambda>a. if a = 5 then 1 else 0), words_live = 2,
      words_bytes = 64, dictionary_rejects = 0\<rparr>"

lemma sample_dictionary_ok: "dictionary_ok 24 {#5#} sample_dictionary"
  by (simp add: dictionary_ok_def sample_dictionary_def entry_ok_def map_wf_def words_of_def word_charge_def)

lemma intern_result:
  assumes ok: "dictionary_ok word_size owners d" and ok': "dictionary_ok word_size owners' (meanwhile d)"
    and size: "Suc (size owners) < 2 ^ 64" "Suc (size owners') < 2 ^ 64"
    and fresh: "fresh \<noteq> None \<longrightarrow> the fresh \<notin> word_addr ` set (words_of (meanwhile d))"
  shows "case pinba_dictionary_intern_rdlock word_size meanwhile fresh room budget str d of
           (Some w, d') \<Rightarrow>
             word_str w = dictionary_key str \<and>
             (if pinba_map_get (dict d) (dictionary_key str) \<noteq> None
              then dictionary_ok word_size (add_mset (word_addr w) owners) d' \<and> words_of d' = words_of d
              else dictionary_ok word_size (add_mset (word_addr w) owners') d' \<and>
                   set (words_of d') = insert w (set (words_of (meanwhile d))))
         | (None, d') \<Rightarrow> dictionary_ok word_size owners' d' \<and> words_of d' = words_of (meanwhile d)"
proof -
  let ?key = "dictionary_key str" and ?e = "meanwhile d"
  have retained: "words_of (pinba_word_retain (Some w) c) = words_of c" for w c
    by (simp add: pinba_word_retain_def)
  have len: "length ?key < PINBA_TAG_VALUE_SIZE" by (simp add: dictionary_key_def)
  show ?thesis
  proof (cases "pinba_map_get (dict d) ?key")
    case (Some w)
    then show ?thesis
      using get_str [OF ok Some] retain_ok [OF ok get_words_of [OF Some] size(1)]
      by (simp add: intern_eq Let_def retained)
  next
    case None
    note first = None
    show ?thesis
    proof (cases "pinba_map_get (dict ?e) ?key")
      case (Some w)
      then show ?thesis
        using first get_str [OF ok' Some] retain_ok [OF ok' get_words_of [OF Some] size(2)] get_words_of [OF Some]
        by (auto simp: intern_eq Let_def retained)
    next
      case None
      consider "over_budget word_size budget (length ?key) ?e" | "\<not> over_budget word_size budget (length ?key) ?e" "fresh = None"
        | a where "\<not> over_budget word_size budget (length ?key) ?e" "fresh = Some a" by fastforce
      then show ?thesis
      proof cases
        case (3 a)
        let ?w = "\<lparr>word_addr = a, word_str = ?key\<rparr>"
        have a: "a \<notin> word_addr ` set (words_of ?e)" using fresh 3 by simp
        note ins = insert_ok [OF ok' None len a refl]
        have "dictionary_ok word_size (add_mset a owners') (pinba_word_retain (Some ?w)
            (?e\<lparr>refs := (refs ?e)(a := 0),
                dict := Some ((case dict ?e of None \<Rightarrow> [] | Some ps \<Rightarrow> ps) @ [(?key, ?w)]),
                words_live := words_live ?e + 1, words_bytes := words_bytes ?e + word_charge word_size (length ?key)\<rparr>))"
          using retain_ok [OF ins(1), of ?w] ins(2) size(2) by simp
        then show ?thesis
          using first None 3 unused_ref_ok [OF ok' a] ins(2)
          by (auto simp: intern_eq Let_def try_add_new retained)
      qed (use first None ok' in \<open>simp_all add: intern_eq Let_def rejects_ok\<close>)
    qed
  qed
qed

text \<open>
  C24: Interning a string answers the word of that string (cut to 64 characters) and gives the
  caller a reference to it, whatever the other threads did while the lock was given up: if
  another thread has inserted the string meanwhile its word is used, and all words known
  before stay the same objects. When the budget is exhausted or no memory is left there is no
  word and no reference. Every reference stays accounted for.
\<close>

theorem dictionary_intern:
  assumes ok: "dictionary_ok word_size owners d" and ok': "dictionary_ok word_size owners' (meanwhile d)"
    and size: "Suc (size owners) < 2 ^ 64" "Suc (size owners') < 2 ^ 64"
    and fresh: "fresh \<noteq> None \<longrightarrow> the fresh \<notin> word_addr ` set (words_of (meanwhile d))"
  shows "case pinba_dictionary_intern_rdlock word_size meanwhile fresh room budget str d of
           (Some w, d') \<Rightarrow>
             word_str w = dictionary_key str \<and>
             (if pinba_map_get (dict d) (dictionary_key str) \<noteq> None
              then dictionary_ok word_size (add_mset (word_addr w) owners) d' \<and> words_of d' = words_of d
              else dictionary_ok word_size (add_mset (word_addr w) owners') d' \<and>
                   set (words_of d') = insert w (set (words_of (meanwhile d))))
         | (None, d') \<Rightarrow> dictionary_ok word_size owners' d' \<and> words_of d' = words_of (meanwhile d)"
  using assms by (rule intern_result)

theorem dictionary_intern_witness:
  "fst (pinba_dictionary_intern_rdlock 24 (\<lambda>d. d) (Some 12) True \<lparr>max_words = 4, max_bytes = 0\<rparr> ''dc'' sample_dictionary) =
     Some \<lparr>word_addr = 12, word_str = ''dc''\<rparr> \<and>
   dictionary_ok 24 {#5, 12#}
     (snd (pinba_dictionary_intern_rdlock 24 (\<lambda>d. d) (Some 12) True \<lparr>max_words = 4, max_bytes = 0\<rparr> ''dc'' sample_dictionary))"
proof -
  have e: "fst (pinba_dictionary_intern_rdlock 24 (\<lambda>d. d) (Some 12) True \<lparr>max_words = 4, max_bytes = 0\<rparr> ''dc'' sample_dictionary) =
     Some \<lparr>word_addr = 12, word_str = ''dc''\<rparr>"
    by (simp add: pinba_dictionary_intern_rdlock_def sample_dictionary_def pinba_map_get_def over_budget_def
        pinba_map_count_def pinba_map_try_add_def map_data_add_def Let_def)
  have "pinba_map_get (dict sample_dictionary) (dictionary_key ''dc'') = None"
    by (simp add: sample_dictionary_def dictionary_key_def pinba_map_get_def)
  then show ?thesis
    using e dictionary_intern [OF sample_dictionary_ok, where meanwhile = "\<lambda>d. d" and owners' = "{#5#}" and fresh = "Some 12"
        and room = True and budget = "\<lparr>max_words = 4, max_bytes = 0\<rparr>" and str = "''dc''"] sample_dictionary_ok
    by (simp add: sample_dictionary_def words_of_def split: prod.splits option.splits) (simp add: add_mset_commute)
qed

lemma collect_result:
  assumes ok: "dictionary_ok word_size owners d"
  shows "case pinba_dictionary_collect word_size d of
           (n, d') \<Rightarrow>
             dictionary_ok word_size owners d' \<and> words_of d' = filter (\<lambda>w. word_addr w \<in># owners) (words_of d) \<and>
             n = length (filter (\<lambda>w. word_addr w \<notin># owners) (words_of d))"
proof -
  let ?dead = "\<lambda>w. refs d (word_addr w) = 0"
  have dead: "?dead w \<longleftrightarrow> word_addr w \<notin># owners" if "w \<in> set (words_of d)" for w
    using ok that count_less_word [of owners "word_addr w"] by (simp add: dictionary_ok_def)
  define d' where "d' = snd (pinba_dictionary_collect word_size d)"
  have w: "words_of d' = filter (\<lambda>w. \<not> ?dead w) (words_of d)"
    by (cases "dict d") (simp_all add: d'_def pinba_dictionary_collect_def pinba_map_delete_if_def words_of_def
        filter_map comp_def case_prod_unfold)
  have m: "map_wf (dict d')" "case dict d' of None \<Rightarrow> True | Some ps \<Rightarrow> list_all entry_ok ps"
  proof -
    have e: "dict d' = map_option (filter (\<lambda>(k, v). \<not> ?dead v)) (dict d)"
      by (cases "dict d") (simp_all add: d'_def pinba_dictionary_collect_def pinba_map_delete_if_def Let_def)
    show "map_wf (dict d')" "case dict d' of None \<Rightarrow> True | Some ps \<Rightarrow> list_all entry_ok ps"
      unfolding e using ok
      by (auto simp: dictionary_ok_def map_wf_def list_all_iff distinct_map_filter split: option.splits)
  qed
  have gone: "(case dict d of None \<Rightarrow> [] | Some ps \<Rightarrow> filter ?dead (map snd ps)) = filter ?dead (words_of d)"
    by (simp add: words_of_def split: option.splits)
  have sum: "(\<Sum>w \<leftarrow> ws. f w) = (\<Sum>w \<leftarrow> filter P ws. f w) + (\<Sum>w \<leftarrow> filter (\<lambda>w. \<not> P w) ws. f w)"
    for f :: "pinba_word \<Rightarrow> u64" and P ws
    by (induction ws) (simp_all add: algebra_simps)
  have len: "length ws = length (filter P ws) + length (filter (\<lambda>w. \<not> P w) ws)" for P and ws :: "pinba_word list"
    by (rule sum_length_filter_compl [symmetric])
  have "words_live d' = of_nat (length (words_of d'))"
    using ok len [of "words_of d" ?dead] unfolding w
    by (simp add: d'_def pinba_dictionary_collect_def gone dictionary_ok_def split_beta Let_def)
  moreover have "words_bytes d' = (\<Sum>w \<leftarrow> words_of d'. word_charge word_size (length (word_str w)))"
    using ok sum [of "\<lambda>w. word_charge word_size (length (word_str w))" "words_of d" ?dead] unfolding w
    by (simp add: d'_def pinba_dictionary_collect_def gone dictionary_ok_def split_beta Let_def)
  moreover have "refs d' = refs d" by (simp add: d'_def pinba_dictionary_collect_def split_beta Let_def)
  moreover have "words_of d' = filter (\<lambda>w. word_addr w \<in># owners) (words_of d)"
    unfolding w using dead by (intro filter_cong) auto
  moreover have "set_mset owners \<subseteq> word_addr ` set (filter (\<lambda>w. word_addr w \<in># owners) (words_of d))"
    using ok by (auto simp: dictionary_ok_def)
  ultimately have "dictionary_ok word_size owners d'"
    using ok m by (simp add: dictionary_ok_def distinct_map_filter)
  moreover have "fst (pinba_dictionary_collect word_size d) = length (filter ?dead (words_of d))"
    by (cases "dict d") (simp_all add: pinba_dictionary_collect_def pinba_map_delete_if_def words_of_def filter_map
        comp_def case_prod_unfold)
  moreover have "filter ?dead (words_of d) = filter (\<lambda>w. word_addr w \<notin># owners) (words_of d)"
    using dead by (intro filter_cong) auto
  ultimately show ?thesis
    using \<open>words_of d' = filter (\<lambda>w. word_addr w \<in># owners) (words_of d)\<close>
    by (simp add: d'_def split_beta)
qed

text \<open>
  C25: The collector removes exactly the words nobody refers to and says how many; a word in
  use is never freed, and the accounts of words and bytes stay exact.
\<close>

theorem dictionary_collect:
  assumes ok: "dictionary_ok word_size owners d"
  shows "case pinba_dictionary_collect word_size d of
           (n, d') \<Rightarrow>
             dictionary_ok word_size owners d' \<and> words_of d' = filter (\<lambda>w. word_addr w \<in># owners) (words_of d) \<and>
             n = length (filter (\<lambda>w. word_addr w \<notin># owners) (words_of d))"
  by (rule collect_result [OF ok])

theorem dictionary_collect_witness:
  "fst (pinba_dictionary_collect 24 sample_dictionary) = 1 \<and>
   words_of (snd (pinba_dictionary_collect 24 sample_dictionary)) = [\<lparr>word_addr = 5, word_str = ''app''\<rparr>]"
  using dictionary_collect [OF sample_dictionary_ok]
  by (simp add: split_beta) (simp add: sample_dictionary_def words_of_def)

text \<open>
  C26: With a limit on the number of words and on their bytes, interning never takes the
  dictionary past either of them.
\<close>

theorem dictionary_budget:
  assumes "max_words budget \<noteq> 0" and "max_bytes budget \<noteq> 0"
    and "\<forall>e \<in> {d, meanwhile d}. words_bytes e \<le> max_bytes budget \<and> pinba_map_count (dict e) \<le> unat (max_words budget)"
  shows "case pinba_dictionary_intern_rdlock word_size meanwhile fresh room budget str d of
           (res, d') \<Rightarrow> words_bytes d' \<le> max_bytes budget \<and> pinba_map_count (dict d') \<le> unat (max_words budget)"
proof -
  let ?e = "meanwhile d" and ?c = "word_charge word_size (length (dictionary_key str))"
  have small: "unat (max_words budget) < 2 ^ 64" by (rule unat_less_64)
  have bytes: "words_bytes ?e + ?c \<le> max_bytes budget"
    if "?c \<le> max_bytes budget" "words_bytes ?e \<le> max_bytes budget - ?c"
    using that by (simp add: word_le_nat_alt unat_sub unat_word_ariths)
  have count: "Suc (pinba_map_count (dict ?e)) \<le> unat (max_words budget)"
    if "\<not> of_nat (pinba_map_count (dict ?e)) \<ge> max_words budget"
    using that assms(3) small by (auto simp: word_le_nat_alt unat_of_nat_word64)
  have added: "words_bytes ?e + ?c \<le> max_bytes budget \<and> Suc (pinba_map_count (dict ?e)) \<le> unat (max_words budget)"
    if "\<not> over_budget word_size budget (length (dictionary_key str)) ?e"
    using that assms(1,2) bytes count unfolding over_budget_def Let_def by (auto simp: not_less)
  have retained: "words_bytes (pinba_word_retain w c) = words_bytes c" "dict (pinba_word_retain w c) = dict c" for w c
    by (simp_all add: pinba_word_retain_def split: option.splits)
  have cnt: "pinba_map_count (Some ((case m of None \<Rightarrow> [] | Some ps \<Rightarrow> ps) @ [x])) = Suc (pinba_map_count m)" for m x
    by (simp add: pinba_map_count_def split: option.splits)
  show ?thesis
  proof (cases "pinba_map_get (dict d) (dictionary_key str)")
    case (Some w)
    then show ?thesis using assms(3) by (simp add: intern_eq Let_def retained)
  next
    case first: None
    show ?thesis
    proof (cases "pinba_map_get (dict ?e) (dictionary_key str)")
      case (Some w)
      then show ?thesis using first assms(3) by (simp add: intern_eq Let_def retained)
    next
      case None
      then show ?thesis
        using first assms(3) added by (cases fresh) (auto simp: intern_eq Let_def try_add_new retained cnt)
    qed
  qed
qed

theorem dictionary_budget_witness:
  "pinba_map_count (dict (snd (pinba_dictionary_intern_rdlock 24 (\<lambda>d. d) (Some 12) True
     \<lparr>max_words = 2, max_bytes = 100\<rparr> ''dc'' sample_dictionary))) \<le> 2"
  using dictionary_budget [where budget = "\<lparr>max_words = 2, max_bytes = 100\<rparr>" and meanwhile = "\<lambda>d. d"
      and d = sample_dictionary and word_size = 24 and fresh = "Some 12" and room = True and str = "''dc''"]
  by (simp add: split_beta) (simp add: sample_dictionary_def pinba_map_count_def)

end
