(* ===== verification/Expiration.thy ===== *)
theory Expiration
  imports Tag_Feeds Dictionary
begin

text \<open>
  Expiration (\<^verbatim>\<open>src/pool.cc\<close>): the requests older than the history leave the request pool, the
  reports subtract them, their timers are cleared and leave the timer pool, and their words are
  released.
\<close>

section \<open>The oldest requests leave the pool\<close>

text \<open>
  The loop of \<^verbatim>\<open>pinba_request_pool_delete_old\<close> from cell \<open>i\<close>: the pool, the number of timers
  and of request tags of the deleted requests; \<open>None\<close> if \<open>fuel\<close> steps do not suffice.
\<close>

fun delete_old_loop ::
  "pinba_timeval \<Rightarrow> nat \<Rightarrow> nat \<Rightarrow> pinba_stats_record pinba_pool \<Rightarrow> nat \<Rightarrow> nat \<Rightarrow>
   (pinba_stats_record pinba_pool \<times> nat \<times> nat) option" where
  "delete_old_loop since fuel i p timer_cnt rtags_cnt =
     (if i = pin p then Some (p, timer_cnt, rtags_cnt)
      else case fuel of
             0 \<Rightarrow> None
           | Suc fuel \<Rightarrow>
               let record = pdata p ! i
               in if pinba_timercmp (<) (rec_time record) since
                  then let out = pout p + 1;
                           out = (if out = psize p then 0 else out)
                       in delete_old_loop since fuel (next_cell p i)
                            (p\<lparr>pdata := (pdata p)[i := record\<lparr>active := False\<rparr>], pout := out\<rparr>)
                            (timer_cnt + unat (timers_cnt record)) (rtags_cnt + length (tags record))
                  else Some (p, timer_cnt, rtags_cnt))"

declare delete_old_loop.simps [simp del]

definition pinba_request_pool_delete_old ::
  "pinba_timeval \<Rightarrow> pinba_stats_record pinba_pool \<Rightarrow> (pinba_stats_record pinba_pool \<times> nat \<times> nat) option" where
  "pinba_request_pool_delete_old since p = delete_old_loop since (psize p) (pout p) p 0 0"

definition expired :: "pinba_timeval \<Rightarrow> pinba_stats_record \<Rightarrow> bool" where
  "expired since r \<longleftrightarrow> pinba_timercmp (<) (rec_time r) since"

definition expired_cells :: "pinba_timeval \<Rightarrow> pinba_stats_record pinba_pool \<Rightarrow> nat list" where
  "expired_cells since p = takeWhile (\<lambda>i. expired since (pdata p ! i)) (cells p)"

definition deactivate :: "nat list \<Rightarrow> pinba_stats_record list \<Rightarrow> pinba_stats_record list" where
  "deactivate is records = fold (\<lambda>i rs. rs[i := (rs ! i)\<lparr>active := False\<rparr>]) is records"

lemma nth_update: "xs[i := x] ! j = (if i = j \<and> j < length xs then x else xs ! j)"
  by (cases "i = j") (auto simp: list_update_beyond)

lemma deactivate_props:
  "distinct is \<Longrightarrow> length (deactivate is rs) = length rs \<and>
     (\<forall>j. deactivate is rs ! j = (if j \<in> set is \<and> j < length rs then (rs ! j)\<lparr>active := False\<rparr> else rs ! j))"
proof (induction "is" arbitrary: rs)
  case (Cons i "is")
  then show ?case by (auto simp: deactivate_def nth_update)
qed (simp add: deactivate_def)

lemma cells_Cons:
  assumes "pool_ok p" and "pout p \<noteq> pin p"
  shows "cells p = pout p # cells (p\<lparr>pout := next_cell p (pout p)\<rparr>)"
    and "pool_ok (p\<lparr>pout := next_cell p (pout p)\<rparr>)"
  using assms
  by (auto simp: cells_def next_cell_def pool_ok_def upt_conv_Cons not_le split: if_splits)

lemma cells_data [simp]: "cells (p\<lparr>pdata := d\<rparr>) = cells p"
  by (simp add: cells_def)

lemma delete_old_step:
  assumes "pool_ok p" and "pinba_pool_num_records p \<le> fuel"
  shows "\<exists>q. delete_old_loop since fuel (pout p) p t g =
       Some (q, t + (\<Sum>i \<leftarrow> expired_cells since p. unat (timers_cnt (pdata p ! i))),
             g + (\<Sum>i \<leftarrow> expired_cells since p. length (tags (pdata p ! i)))) \<and>
     q = p\<lparr>pdata := deactivate (expired_cells since p) (pdata p),
           pout := advance p (pout p) (length (expired_cells since p))\<rparr>"
  using assms
proof (induction fuel arbitrary: p t g)
  case 0
  then have "cells p = []" using length_cells [of p] by simp
  then have "pout p = pin p" using 0 by (auto simp: cells_def pool_ok_def split: if_splits)
  then show ?case
    using 0 by (simp add: delete_old_loop.simps [of _ 0] expired_cells_def cells_def deactivate_def advance_def pool_ok_def)
next
  case (Suc fuel)
  show ?case
  proof (cases "pout p = pin p")
    case True
    then show ?thesis
      using Suc.prems by (simp add: delete_old_loop.simps [of _ "Suc fuel"] expired_cells_def cells_def deactivate_def advance_def pool_ok_def)
  next
    case False
    let ?i = "pout p" and ?r = "pdata p ! pout p"
    note c = cells_Cons [OF Suc.prems(1) False]
    show ?thesis
    proof (cases "expired since ?r")
      case e: True
      define q where "q = p\<lparr>pdata := (pdata p)[?i := ?r\<lparr>active := False\<rparr>], pout := next_cell p ?i\<rparr>"
      have pq: "pdata q = (pdata p)[?i := ?r\<lparr>active := False\<rparr>]" "pout q = next_cell p ?i" "psize q = psize p"
        by (simp_all add: q_def)
      have q: "pool_ok q" using c(2) by (simp add: q_def pool_ok_def)
      have cq: "cells p = ?i # cells q" using c(1) by (simp add: q_def cells_def)
      then have n: "pinba_pool_num_records q \<le> fuel"
        using Suc.prems length_cells [OF Suc.prems(1)] length_cells [OF q] by simp
      have fresh: "?i \<notin> set (cells q)" using distinct_cells [OF Suc.prems(1)] cq by simp
      then have same: "pdata q ! j = pdata p ! j" if "j \<in> set (cells q)" for j
        using that by (cases "j = ?i") (auto simp: pq)
      have ex: "expired_cells since q = takeWhile (\<lambda>i. expired since (pdata p ! i)) (cells q)"
        unfolding expired_cells_def by (rule takeWhile_cong) (simp_all add: same)
      then have ec: "expired_cells since p = ?i # expired_cells since q"
        using e cq by (simp add: expired_cells_def)
      have sums: "(\<Sum>i \<leftarrow> expired_cells since q. f (pdata q ! i)) = (\<Sum>i \<leftarrow> expired_cells since q. f (pdata p ! i))"
        for f :: "pinba_stats_record \<Rightarrow> nat"
        using same unfolding ex by (intro arg_cong [of _ _ sum_list] map_cong refl) (auto dest: set_takeWhileD)
      have out: "(if ?i + 1 = psize p then 0 else ?i + 1) = next_cell p ?i"
        using Suc.prems(1) by (auto simp: next_cell_def pool_ok_def)
      have step: "delete_old_loop since (Suc fuel) ?i p t g =
          delete_old_loop since fuel (pout q) q (t + unat (timers_cnt ?r)) (g + length (tags ?r))"
        using False e unfolding delete_old_loop.simps [of since "Suc fuel"] expired_def q_def out [symmetric]
        by (simp add: Let_def)
      have k: "length (expired_cells since q) < psize p"
        using length_takeWhile_le [of "\<lambda>i. expired since (pdata p ! i)" "cells q"] length_cells [OF q]
          num_records_less [OF q] pq(3) unfolding ex by simp
      then have adv: "advance p ?i (Suc (length (expired_cells since q))) = advance q (pout q) (length (expired_cells since q))"
        using Suc.prems(1) by (auto simp: advance_def next_cell_def pool_ok_def pq)
      have "deactivate (expired_cells since p) (pdata p) = deactivate (expired_cells since q) (pdata q)"
        unfolding ec by (simp add: deactivate_def pq)
      then have upd: "q\<lparr>pdata := deactivate (expired_cells since q) (pdata q), pout := x\<rparr> =
          p\<lparr>pdata := deactivate (expired_cells since p) (pdata p), pout := x\<rparr>" for x
        by (simp add: q_def)
      show ?thesis
        using Suc.IH [OF q n, of "t + unat (timers_cnt ?r)" "g + length (tags ?r)"]
        unfolding step upd
        by (simp add: ec adv add.assoc sums [of "\<lambda>r. unat (timers_cnt r)"] sums [of "\<lambda>r. length (tags r)"])
    next
      case e: False
      then have "expired_cells since p = []" using c(1) by (simp add: expired_cells_def)
      then show ?thesis
        using False e Suc.prems(1) unfolding delete_old_loop.simps [of since "Suc fuel"] expired_def
        by (simp add: deactivate_def advance_def pool_ok_def Let_def)
    qed
  qed
qed

lemma delete_old_result:
  assumes "pool_ok p"
  shows "pinba_request_pool_delete_old since p =
     Some (p\<lparr>pdata := deactivate (expired_cells since p) (pdata p),
             pout := advance p (pout p) (length (expired_cells since p))\<rparr>,
           \<Sum>i \<leftarrow> expired_cells since p. unat (timers_cnt (pdata p ! i)),
           \<Sum>i \<leftarrow> expired_cells since p. length (tags (pdata p ! i)))"
  using delete_old_step [OF assms, of "psize p" since 0 0] num_records_less [OF assms]
  by (simp add: pinba_request_pool_delete_old_def)

section \<open>Clearing the timers of expired requests\<close>

definition record_get_timer_id :: "pinba_timer_record pinba_pool \<Rightarrow> pinba_stats_record \<Rightarrow> nat \<Rightarrow> nat" where
  "record_get_timer_id p record i =
     (if timers_start record + i \<ge> psize p then timers_start record + i - psize p else timers_start record + i)"

definition clear_timer :: "pinba_timer_record \<Rightarrow> pinba_timer_record" where
  "clear_timer timer = timer\<lparr>timer_tags := [], timer_value := null_timeval, timer_hit_count := 0\<rparr>"

text \<open>One timer: the tags it held are counted.\<close>

definition clear_timer_at ::
  "nat \<Rightarrow> nat \<times> pinba_timer_record pinba_pool \<Rightarrow> nat \<times> pinba_timer_record pinba_pool" where
  "clear_timer_at j s =
     (case s of (timertag_cnt, tp) \<Rightarrow>
        (timertag_cnt + length (timer_tags (pdata tp ! j)),
         tp\<lparr>pdata := (pdata tp)[j := clear_timer (pdata tp ! j)]\<rparr>))"

definition clear_record ::
  "pinba_stats_record \<Rightarrow> nat \<times> pinba_timer_record pinba_pool \<Rightarrow> nat \<times> pinba_timer_record pinba_pool" where
  "clear_record record s =
     fold (\<lambda>j s. clear_timer_at (record_get_timer_id (snd s) record j) s) [0..<unat (timers_cnt record)] s"

fun clear_loop ::
  "pinba_stats_record pinba_pool \<Rightarrow> nat \<Rightarrow> nat \<Rightarrow> nat \<times> pinba_timer_record pinba_pool \<Rightarrow>
   nat \<times> pinba_timer_record pinba_pool" where
  "clear_loop rp tmp_id 0 s = s"
| "clear_loop rp tmp_id (Suc n) s = clear_loop rp (next_cell rp tmp_id) n (clear_record (pdata rp ! tmp_id) s)"

text \<open>
  One job: the requests from \<open>first_id\<close> on; the result is its \<^verbatim>\<open>timertag_cnt\<close>, an
  unsigned int, and the timers.
\<close>

definition clear_record_timers_func ::
  "pinba_stats_record pinba_pool \<Rightarrow> nat \<Rightarrow> nat \<Rightarrow> pinba_timer_record pinba_pool \<Rightarrow> nat \<times> pinba_timer_record pinba_pool" where
  "clear_record_timers_func rp first_id cnt tp =
     (case clear_loop rp (if first_id \<ge> psize rp then first_id - psize rp else first_id) cnt (0, tp) of
        (timertag_cnt, tp) \<Rightarrow> (timertag_cnt mod 2 ^ 32, tp))"

text \<open>How the work is cut into one job per thread: the lengths, in order.\<close>

fun job_sizes :: "nat \<Rightarrow> nat \<Rightarrow> nat \<Rightarrow> nat \<Rightarrow> nat list" where
  "job_sizes job_size num 0 accounted = []"
| "job_sizes job_size num (Suc left) accounted =
     (let l_job_size = (if left = 0 then num - accounted else job_size); accounted = accounted + l_job_size
      in l_job_size # (if accounted = num then [] else job_sizes job_size num left accounted))"

definition PINBA_THREAD_POOL_THRESHOLD_AMOUNT :: nat where [simp]: "PINBA_THREAD_POOL_THRESHOLD_AMOUNT = 16"

definition thread_job_size :: "nat \<Rightarrow> nat \<Rightarrow> nat" where
  "thread_job_size threads num = (if num < threads * PINBA_THREAD_POOL_THRESHOLD_AMOUNT then num else num div threads)"

fun clear_jobs ::
  "pinba_stats_record pinba_pool \<Rightarrow> nat \<Rightarrow> nat list \<Rightarrow> pinba_timer_record pinba_pool \<Rightarrow> nat \<times> pinba_timer_record pinba_pool" where
  "clear_jobs rp first_id [] tp = (0, tp)"
| "clear_jobs rp first_id (n # ns) tp =
     (case clear_record_timers_func rp first_id n tp of
        (cnt, tp) \<Rightarrow> (case clear_jobs rp (first_id + n) ns tp of (cnt', tp) \<Rightarrow> (cnt + cnt', tp)))"

lemma job_sizes_sum:
  assumes "accounted \<le> num" and "0 < left"
    and "accounted + job_size = num \<or> accounted + (left - 1) * job_size \<le> num"
  shows "sum_list (job_sizes job_size num left accounted) = num - accounted"
  using assms
proof (induction left arbitrary: accounted)
  case (Suc left)
  show ?case
  proof (cases "left = 0 \<or> accounted + job_size = num")
    case True
    then show ?thesis using Suc.prems(1) by (auto simp: Let_def)
  next
    case False
    then have le: "accounted + left * job_size \<le> num" and "0 < left" using Suc.prems by auto
    then have "job_size \<le> left * job_size" "left * job_size = (left - 1) * job_size + job_size"
      by (cases left; simp)+
    then have "sum_list (job_sizes job_size num left (accounted + job_size)) = num - (accounted + job_size)"
      using le False by (intro Suc.IH) auto
    moreover have "accounted + job_size \<le> num" using le \<open>job_size \<le> left * job_size\<close> by linarith
    ultimately show ?thesis using False by (simp add: Let_def)
  qed
qed simp

lemma thread_jobs_cover:
  "0 < threads \<Longrightarrow> sum_list (job_sizes (thread_job_size threads num) num threads 0) = num"
proof -
  assume t: "0 < threads"
  have "(threads - 1) * (num div threads) \<le> threads * (num div threads)" by simp
  also have "\<dots> \<le> num" by (rule times_div_less_eq_dividend)
  finally show ?thesis using t job_sizes_sum [of 0 num threads "thread_job_size threads num"] by (simp add: thread_job_size_def)
qed

text \<open>The cells of the timers that a list of jobs clears, whoever runs them.\<close>

definition timer_cells :: "pinba_timer_record pinba_pool \<Rightarrow> pinba_stats_record \<Rightarrow> nat list" where
  "timer_cells tp r = map (record_get_timer_id tp r) [0..<unat (timers_cnt r)]"

definition clear_cells :: "nat list \<Rightarrow> nat \<times> pinba_timer_record pinba_pool \<Rightarrow> nat \<times> pinba_timer_record pinba_pool" where
  "clear_cells js s = fold clear_timer_at js s"

lemma clear_cells_size: "psize (snd (clear_cells js s)) = psize (snd s)"
  unfolding clear_cells_def by (induction js arbitrary: s) (simp_all add: clear_timer_at_def split_beta)

lemma clear_cells_append: "clear_cells (is @ js) s = clear_cells js (clear_cells is s)"
  by (simp add: clear_cells_def)

lemma record_cells_size: "psize tp = psize tq \<Longrightarrow> record_get_timer_id tp r j = record_get_timer_id tq r j"
  by (simp add: record_get_timer_id_def)

lemma timer_cells_size: "psize tp = psize tq \<Longrightarrow> timer_cells tp r = timer_cells tq r"
  using record_cells_size [of tp tq r] by (simp add: timer_cells_def)

lemma clear_record_cells: "clear_record r s = clear_cells (timer_cells (snd s) r) s"
proof -
  have "fold (\<lambda>j s. clear_timer_at (record_get_timer_id (snd s) r j) s) js s =
      clear_cells (map (record_get_timer_id tp r) js) s" if "psize (snd s) = psize tp" for js tp
    using that
  proof (induction js arbitrary: s)
    case (Cons j js)
    have "psize (snd (clear_timer_at (record_get_timer_id (snd s) r j) s)) = psize tp"
      using Cons.prems by (simp add: clear_timer_at_def split_beta)
    then show ?case using Cons.IH Cons.prems record_cells_size [of "snd s" tp r j] by (simp add: clear_cells_def)
  qed (simp add: clear_cells_def)
  then show ?thesis by (simp add: clear_record_def timer_cells_def)
qed

lemma clear_loop_cells:
  assumes "i < psize rp" and "n \<le> psize rp"
  shows "clear_loop rp i n s =
     clear_cells (concat (map (\<lambda>k. timer_cells (snd s) (pdata rp ! advance rp i k)) [0..<n])) s"
  using assms
proof (induction n arbitrary: i s)
  case (Suc n)
  let ?s = "clear_record (pdata rp ! i) s"
  have nx: "next_cell rp i < psize rp" using Suc.prems by (auto simp: next_cell_def)
  have adv: "advance rp (next_cell rp i) k = advance rp i (Suc k)" if "k < n" for k
    using Suc.prems that by (auto simp: advance_def next_cell_def)
  have tc: "timer_cells (snd ?s) r = timer_cells (snd s) r" for r
    by (rule timer_cells_size) (simp add: clear_record_cells clear_cells_size)
  have "map (\<lambda>k. timer_cells (snd s) (pdata rp ! advance rp i k)) [0..<Suc n] =
      timer_cells (snd s) (pdata rp ! i) # map (\<lambda>k. timer_cells (snd s) (pdata rp ! advance rp (next_cell rp i) k)) [0..<n]"
    using Suc.prems adv by (simp add: upt_conv_Cons map_Suc_upt [symmetric] comp_def advance_def [of rp i 0] del: upt_Suc)
  then show ?case
    using Suc.IH [OF nx, of ?s] Suc.prems tc by (simp add: clear_cells_append flip: clear_record_cells del: upt_Suc)
qed (simp add: clear_cells_def)

text \<open>Clearing only adds to the count, so jobs may be counted apart.\<close>

lemma clear_cells_count: "clear_cells js (a + c, tp) = (case clear_cells js (c, tp) of (n, tq) \<Rightarrow> (a + n, tq))"
proof (induction js arbitrary: c tp)
  case (Cons j js)
  then show ?case by (simp add: clear_cells_def clear_timer_at_def add.assoc)
qed (simp add: clear_cells_def)

lemma clear_jobs_cells:
  assumes "i < psize rp" and "acc + sum_list ns \<le> psize rp"
    and "fst (clear_cells (concat (map (\<lambda>k. timer_cells tp (pdata rp ! advance rp i k)) [acc..<acc + sum_list ns])) (0, tp)) < 2 ^ 32"
  shows "clear_jobs rp (i + acc) ns tp =
     clear_cells (concat (map (\<lambda>k. timer_cells tp (pdata rp ! advance rp i k)) [acc..<acc + sum_list ns])) (0, tp)"
  using assms(2,3)
proof (induction ns arbitrary: acc tp)
  case (Cons n ns)
  let ?f = "\<lambda>tp k. timer_cells tp (pdata rp ! advance rp i k)"
  let ?start = "if i + acc \<ge> psize rp then i + acc - psize rp else i + acc"
  have "advance rp ?start k = advance rp i (acc + k)" if "k < n" for k
    using assms(1) Cons.prems that by (auto simp: advance_def)
  then have "map (\<lambda>k. timer_cells tp (pdata rp ! advance rp ?start k)) [0..<n] = map (?f tp) [acc..<acc + n]"
    by (simp add: list_eq_iff_nth_eq)
  moreover have "?start < psize rp" if "n \<noteq> 0" using assms(1) Cons.prems(1) that by auto
  ultimately have loop: "clear_loop rp ?start n (0, tp) = clear_cells (concat (map (?f tp) [acc..<acc + n])) (0, tp)"
    using clear_loop_cells [of ?start rp n "(0, tp)"] Cons.prems
    by (cases "n = 0") (simp_all add: clear_cells_def)
  obtain c tq where cq: "clear_cells (concat (map (?f tp) [acc..<acc + n])) (0, tp) = (c, tq)" by fastforce
  then have "psize tq = psize tp" using clear_cells_size [of "concat (map (?f tp) [acc..<acc + n])" "(0, tp)"] by simp
  then have f: "?f tq = ?f tp" using timer_cells_size [of tq tp] by simp
  have "[acc..<acc + sum_list (n # ns)] = [acc..<acc + n] @ [acc + n..<acc + n + sum_list ns]"
    using upt_add_eq_append [of acc "acc + n" "sum_list ns"] by (simp add: add.assoc)
  then have all: "clear_cells (concat (map (?f tp) [acc..<acc + sum_list (n # ns)])) (0, tp) =
      clear_cells (concat (map (?f tq) [acc + n..<acc + n + sum_list ns])) (c + 0, tq)"
    using cq unfolding f by (simp add: clear_cells_append)
  then have small: "c < 2 ^ 32"
    "fst (clear_cells (concat (map (?f tq) [acc + n..<acc + n + sum_list ns])) (0, tq)) < 2 ^ 32"
    using Cons.prems(2) clear_cells_count [of "concat (map (?f tq) [acc + n..<acc + n + sum_list ns])" c 0 tq]
    by (simp_all add: split_beta)
  show ?case
    using Cons.IH [of "acc + n" tq] Cons.prems(1) small loop cq all
      clear_cells_count [of "concat (map (?f tq) [acc + n..<acc + n + sum_list ns])" c 0 tq]
    by (simp add: clear_record_timers_func_def add.assoc split_beta)
qed (simp add: clear_cells_def)

section \<open>The timers of the expired requests are the oldest timers\<close>

definition timers_sum :: "pinba_stats_record list \<Rightarrow> nat list \<Rightarrow> nat" where
  "timers_sum records is = (\<Sum>i \<leftarrow> is. unat (timers_cnt (records ! i)))"

lemma timer_id_mod:
  assumes "timers_start r = (pout tp + off) mod psize tp" and "j < psize tp" and "0 < psize tp"
  shows "record_get_timer_id tp r j = (pout tp + (off + j)) mod psize tp"
proof -
  define x where "x = (pout tp + off) mod psize tp"
  have "x < psize tp" using assms(3) by (simp add: x_def)
  then have "record_get_timer_id tp r j = (x + j) mod psize tp"
    using assms(1,2) by (cases "psize tp \<le> x + j") (simp_all add: record_get_timer_id_def x_def [symmetric] le_mod_geq)
  also have "\<dots> = (pout tp + off + j) mod psize tp" unfolding x_def by (rule mod_add_left_eq)
  finally show ?thesis by (simp add: add.assoc)
qed

lemma laid_cells:
  assumes ok: "pool_ok tp"
  shows "laid tp records off (is @ js) \<Longrightarrow>
     concat (map (\<lambda>i. timer_cells tp (records ! i)) is) =
       map (\<lambda>k. (pout tp + k) mod psize tp) [off..<off + timers_sum records is] \<and>
     laid tp records (off + timers_sum records is) js"
proof (induction "is" arbitrary: off)
  case (Cons i "is")
  let ?r = "records ! i" and ?c = "unat (timers_cnt (records ! i))"
  have st: "timers_cnt ?r \<noteq> 0 \<longrightarrow> timers_start ?r = (pout tp + off) mod psize tp"
    and rest: "laid tp records (off + ?c) (is @ js)" using Cons.prems by simp_all
  have b: "off + ?c < psize tp" using laid_bound [OF rest] num_records_less [OF ok] by simp
  have "timer_cells tp ?r = map (\<lambda>j. (pout tp + (off + j)) mod psize tp) [0..<?c]"
    using timer_id_mod [of ?r tp off] st b ok by (cases "timers_cnt ?r = 0") (auto simp: timer_cells_def pool_ok_def)
  also have "\<dots> = map (\<lambda>k. (pout tp + k) mod psize tp) [off..<off + ?c]"
    by (simp add: list_eq_iff_nth_eq)
  finally have tc: "timer_cells tp ?r = map (\<lambda>k. (pout tp + k) mod psize tp) [off..<off + ?c]" .
  have "[off..<off + timers_sum records (i # is)] = [off..<off + ?c] @ [off + ?c..<off + ?c + timers_sum records is]"
    using upt_add_eq_append [of off "off + ?c" "timers_sum records is"] by (simp add: timers_sum_def add.assoc)
  then show ?case using Cons.IH [OF rest] tc by (simp add: timers_sum_def add.assoc)
qed (simp add: timers_sum_def)

definition cleared :: "nat list \<Rightarrow> pinba_timer_record list \<Rightarrow> pinba_timer_record list" where
  "cleared js d = map (\<lambda>k. if k \<in> set js then clear_timer (d ! k) else d ! k) [0..<length d]"

lemma clear_cells_eq:
  "distinct js \<Longrightarrow> \<forall>j \<in> set js. j < length (pdata tp) \<Longrightarrow>
   clear_cells js (c, tp) = (c + (\<Sum>j \<leftarrow> js. length (timer_tags (pdata tp ! j))), tp\<lparr>pdata := cleared js (pdata tp)\<rparr>)"
proof (induction js arbitrary: c tp)
  case Nil
  then show ?case by (simp add: clear_cells_def cleared_def map_nth)
next
  case (Cons j js)
  let ?d = "(pdata tp)[j := clear_timer (pdata tp ! j)]"
  have "cleared js ?d = cleared (j # js) (pdata tp)"
    using Cons.prems(1) unfolding cleared_def by (intro map_cong) (auto simp: nth_update)
  moreover have "(\<Sum>i \<leftarrow> js. length (timer_tags (?d ! i))) = (\<Sum>i \<leftarrow> js. length (timer_tags (pdata tp ! i)))"
    using Cons.prems(1) by (intro arg_cong [of _ _ sum_list] map_cong refl) (auto simp: nth_update)
  ultimately show ?case
    using Cons.IH [of "tp\<lparr>pdata := ?d\<rparr>" "c + length (timer_tags (pdata tp ! j))"] Cons.prems
    by (simp add: clear_cells_def clear_timer_at_def add.assoc)
qed

text \<open>What is left once the oldest \<open>d\<close> timers are cleared and \<^verbatim>\<open>out\<close> has moved past them.\<close>

lemma laid_pop:
  assumes ok: "pool_ok tp" and d: "d \<le> pinba_pool_num_records tp"
    and tq: "psize tq = psize tp" "pin tq = pin tp" "pout tq = advance tp (pout tp) d"
      "\<And>k. d \<le> k \<Longrightarrow> k < pinba_pool_num_records tp \<Longrightarrow>
         pdata tq ! ((pout tp + k) mod psize tp) = pdata tp ! ((pout tp + k) mod psize tp)"
  shows "laid tp records (d + off) js \<Longrightarrow> \<forall>i \<in> set js. records' ! i = records ! i \<Longrightarrow>
     laid tq records' off js \<and> (\<forall>i \<in> set js. record_timers tq (records' ! i) = record_timers tp (records ! i))"
proof (induction js arbitrary: off)
  case Nil
  have "pinba_pool_num_records tq = pinba_pool_num_records tp - d"
    using ok d tq(1-3) by (auto simp: pinba_pool_num_records_def advance_def pool_ok_def split: if_splits)
  then show ?case using Nil.prems by simp
next
  case (Cons i js)
  let ?r = "records ! i" and ?c = "unat (timers_cnt (records ! i))"
  have p: "0 < psize tp" "pout tp < psize tp" "pinba_pool_num_records tp < psize tp"
    using ok num_records_less [OF ok] by (auto simp: pool_ok_def)
  have rest: "laid tp records (d + (off + ?c)) js" using Cons.prems(1) by (simp add: add.assoc)
  have b: "d + off + ?c \<le> pinba_pool_num_records tp" using laid_bound [OF rest] by simp
  have out: "(pout tq + k) mod psize tq = (pout tp + (d + k)) mod psize tp" for k
  proof -
    have "pout tq = (pout tp + d) mod psize tp" using p d tq(3) by (simp add: advance_mod)
    then show ?thesis unfolding tq(1) by (simp add: mod_add_left_eq add.assoc)
  qed
  have st: "timers_cnt ?r \<noteq> 0 \<longrightarrow> timers_start ?r = (pout tp + (d + off)) mod psize tp" using Cons.prems(1) by simp
  have "record_timers tq ?r = record_timers tp ?r"
  proof (cases "timers_cnt ?r = 0")
    case False
    have "record_get_timer tq ?r j = record_get_timer tp ?r j" if "j < ?c" for j
    proof -
      have "record_get_timer tq ?r j = pdata tq ! ((pout tq + off + j) mod psize tq)"
        using st False out [of off] p tq(1) b that by (intro get_timer_mod) auto
      also have "\<dots> = pdata tp ! ((pout tp + (d + off + j)) mod psize tp)"
        using tq(4) [of "d + off + j"] b that out [of "off + j"] by (simp add: add.assoc)
      also have "\<dots> = record_get_timer tp ?r j"
        using get_timer_mod [of ?r tp "d + off" j] st False p b that by (simp add: add.assoc)
      finally show ?thesis .
    qed
    then show ?thesis by (simp add: record_timers_def)
  qed (simp add: record_timers_def)
  then show ?case
    using Cons.IH [OF rest] Cons.prems st out [of off] by (simp add: add.assoc)
qed

end
