(* ===== verification/Tag_Registry.thy ===== *)
theory Tag_Registry
  imports Dictionary
begin

text \<open>
  The registry of timer tag names (\<^verbatim>\<open>src/tags.cc\<close>): tables by id and by name, the next id, and
  with the optional collector an ordered index of the live ids. The descriptor is its id and
  name; \<open>cursor_refs\<close> is the \<^verbatim>\<open>cursor_references\<close> member of the descriptor with an id.
\<close>

section \<open>State\<close>

record pinba_tag =
  tag_id :: u64
  tag_name :: string

record tag_registry =
  tag_table :: "pinba_tag pinba_lmap"
  name_index :: "pinba_tag pinba_map"
  next_id :: u64
  live_ids :: "(u64 \<times> pinba_tag) list"
  cursor_refs :: "u64 \<Rightarrow> u64"

record tag_settings =
  tag_names_limit :: u64
  tag_gc_enabled :: bool

text \<open>The ordered index is a \<^verbatim>\<open>std::map\<close>: sorted by id.\<close>

definition live_emplace :: "u64 \<Rightarrow> pinba_tag \<Rightarrow> (u64 \<times> pinba_tag) list \<Rightarrow> (u64 \<times> pinba_tag) list" where
  "live_emplace i tag ids = (if i \<in> fst ` set ids then ids else insort_key fst (i, tag) ids)"

definition live_erase :: "u64 \<Rightarrow> (u64 \<times> pinba_tag) list \<Rightarrow> (u64 \<times> pinba_tag) list" where
  "live_erase i ids = filter (\<lambda>(j, tag). j \<noteq> i) ids"

section \<open>Operations\<close>

definition pinba_tag_dtor :: "pinba_tag \<Rightarrow> tag_registry \<Rightarrow> tag_registry" where
  "pinba_tag_dtor tag g =
     g\<lparr>tag_table := fst (pinba_lmap_delete (tag_table g) (tag_id tag)),
       name_index := fst (pinba_map_delete (name_index g) (tag_name tag)),
       live_ids := live_erase (tag_id tag) (live_ids g)\<rparr>"

definition pinba_tag_get_by_name :: "string option \<Rightarrow> tag_registry \<Rightarrow> pinba_tag option" where
  "pinba_tag_get_by_name name g =
     (case name of None \<Rightarrow> None | Some n \<Rightarrow> pinba_map_get (name_index g) n)"

definition pinba_tag_get_after :: "tag_settings \<Rightarrow> u64 \<Rightarrow> bool \<Rightarrow> tag_registry \<Rightarrow> pinba_tag option" where
  "pinba_tag_get_after settings i exact g =
     (if exact \<or> \<not> tag_gc_enabled settings then pinba_lmap_get (tag_table g) i
      else map_option snd (List.find (\<lambda>(j, tag). j \<ge> i) (live_ids g)))"

definition pinba_tag_get_by_id :: "tag_settings \<Rightarrow> u64 \<Rightarrow> tag_registry \<Rightarrow> pinba_tag option" where
  "pinba_tag_get_by_id settings i g = pinba_tag_get_after settings i True g"

definition pinba_tag_next_name :: "string \<Rightarrow> nat \<Rightarrow> bool \<Rightarrow> tag_registry \<Rightarrow> (string \<times> pinba_tag) option" where
  "pinba_tag_next_name key capacity first g =
     (if first then pinba_map_first (name_index g) capacity else pinba_map_next (name_index g) key capacity)"

text \<open>
  \<open>meanwhile\<close> is what other threads do while the lock is upgraded; \<open>mem\<close> says which of the
  four allocations succeed: the descriptor, the two table entries and the index entry.
\<close>

record tag_memory =
  mem_tag :: bool
  mem_name :: bool
  mem_table :: bool
  mem_index :: bool

definition INT_MAX_ID :: u64 where [simp]: "INT_MAX_ID = 2147483647"

definition tag_limit_reached :: "tag_settings \<Rightarrow> tag_registry \<Rightarrow> bool" where
  "tag_limit_reached settings g \<longleftrightarrow>
     tag_names_limit settings \<noteq> 0 \<and> of_nat (pinba_lmap_count (tag_table g)) \<ge> tag_names_limit settings \<or>
     next_id g > INT_MAX_ID"

definition pinba_tag_create :: "tag_settings \<Rightarrow> tag_memory \<Rightarrow> string \<Rightarrow> tag_registry \<Rightarrow> pinba_tag option \<times> tag_registry" where
  "pinba_tag_create settings mem name g =
     (if tag_limit_reached settings g then (None, g)
      else if \<not> mem_tag mem then (None, g)
      else
        let tag = \<lparr>tag_id = next_id g, tag_name = take (PINBA_TAG_NAME_SIZE - 1) name\<rparr>
        in case pinba_map_try_add (mem_name mem) (name_index g) (tag_name tag) tag of
             (m, False) \<Rightarrow> (None, g\<lparr>name_index := fst (pinba_map_delete m (tag_name tag))\<rparr>)
           | (m, True) \<Rightarrow>
               (case pinba_lmap_try_add (mem_table mem) (tag_table g) (tag_id tag) tag of
                  (t, False) \<Rightarrow> (None, g\<lparr>tag_table := t, name_index := fst (pinba_map_delete m (tag_name tag))\<rparr>)
                | (t, True) \<Rightarrow>
                    if tag_gc_enabled settings \<and> \<not> mem_index mem
                    then (None, g\<lparr>tag_table := fst (pinba_lmap_delete t (tag_id tag)),
                                  name_index := fst (pinba_map_delete m (tag_name tag))\<rparr>)
                    else (Some tag,
                          g\<lparr>tag_table := t, name_index := m, next_id := next_id g + 1,
                            cursor_refs := (cursor_refs g)(tag_id tag := 0),
                            live_ids := (if tag_gc_enabled settings then live_emplace (tag_id tag) tag (live_ids g)
                                         else live_ids g)\<rparr>)))"

definition pinba_tag_lookup_or_create_locked ::
  "tag_settings \<Rightarrow> (tag_registry \<Rightarrow> tag_registry) \<Rightarrow> tag_memory \<Rightarrow> string option \<Rightarrow> tag_registry \<Rightarrow>
   pinba_tag option \<times> tag_registry" where
  "pinba_tag_lookup_or_create_locked settings meanwhile mem name g =
     (case name of
        None \<Rightarrow> (None, g)
      | Some n \<Rightarrow>
          (case pinba_map_get (name_index g) n of
             Some tag \<Rightarrow> (Some tag, g)
           | None \<Rightarrow>
               let g = meanwhile g
               in case pinba_map_get (name_index g) n of
                    Some tag \<Rightarrow> (Some tag, g)
                  | None \<Rightarrow> pinba_tag_create settings mem n g))"

text \<open>
  The collector. \<open>selectors\<close> are the tag ids of all timer-tag reports, \<open>None\<close> when there is
  no memory for them; a tag stays while a cursor or a stored word uses it or a report
  selects it.
\<close>

definition tag_in_use :: "pinba_dictionary \<Rightarrow> int list \<Rightarrow> tag_registry \<Rightarrow> pinba_tag \<Rightarrow> bool" where
  "tag_in_use d selectors g tag \<longleftrightarrow>
     cursor_refs g (tag_id tag) \<noteq> 0 \<or>
     (case pinba_map_get (dict d) (tag_name tag) of None \<Rightarrow> False | Some w \<Rightarrow> refs d (word_addr w) \<noteq> 0) \<or>
     tag_id tag \<in> of_int ` set (filter (\<lambda>i. i \<ge> 0) selectors)"

fun collect_loop :: "(pinba_tag \<Rightarrow> bool) \<Rightarrow> (u64 \<times> pinba_tag) list \<Rightarrow> tag_registry \<Rightarrow> tag_registry" where
  "collect_loop used [] g = g"
| "collect_loop used ((i, tag) # ids) g =
     collect_loop used ids
       (if used tag then g
        else g\<lparr>tag_table := fst (pinba_lmap_delete (tag_table g) (tag_id tag)),
               name_index := fst (pinba_map_delete (name_index g) (tag_name tag)),
               live_ids := live_erase i (live_ids g)\<rparr>)"

definition pinba_collect_unused_tags ::
  "tag_settings \<Rightarrow> pinba_dictionary \<Rightarrow> int list option \<Rightarrow> tag_registry \<Rightarrow> tag_registry" where
  "pinba_collect_unused_tags settings d selectors g =
     (if \<not> tag_gc_enabled settings then g
      else case selectors of
             None \<Rightarrow> g
           | Some s \<Rightarrow> collect_loop (tag_in_use d s g) (live_ids g) g)"

section \<open>The registry is consistent\<close>

definition registry_ok :: "bool \<Rightarrow> tag_registry \<Rightarrow> bool" where
  "registry_ok gc g \<longleftrightarrow>
     map_wf (tag_table g) \<and> map_wf (name_index g) \<and> next_id g \<le> INT_MAX_ID + 1 \<and>
     (\<forall>n t. pinba_map_get (name_index g) n = Some t \<longrightarrow>
        tag_name t = n \<and> pinba_lmap_get (tag_table g) (tag_id t) = Some t) \<and>
     (\<forall>i t. pinba_lmap_get (tag_table g) i = Some t \<longrightarrow>
        tag_id t = i \<and> i < next_id g \<and> length (tag_name t) < PINBA_TAG_NAME_SIZE \<and>
        pinba_map_get (name_index g) (tag_name t) = Some t) \<and>
     (gc \<longrightarrow> sorted (map fst (live_ids g)) \<and> distinct (map fst (live_ids g)) \<and>
             map_of (live_ids g) = pinba_lmap_get (tag_table g)) \<and>
     (\<not> gc \<longrightarrow> (\<forall>i < next_id g. pinba_lmap_get (tag_table g) i \<noteq> None))"

lemma try_add_absent:
  assumes "pinba_map_get m k = None"
  shows "pinba_map_try_add ok m k v = (if ok then (pinba_map_add m k v, True) else (m, False))"
  using assms by (auto simp: pinba_map_try_add_def pinba_map_add_def pinba_map_get_def map_data_add_def
      split: option.splits)

lemma ltry_add_absent:
  assumes "pinba_lmap_get m k = None"
  shows "pinba_lmap_try_add ok m k v = (if ok then (pinba_lmap_add m k v, True) else (m, False))"
  using assms by (auto simp: pinba_lmap_try_add_def pinba_lmap_add_def pinba_lmap_get_def split: option.splits)

text \<open>The registry only matters through its lookups.\<close>

definition same_registry :: "tag_registry \<Rightarrow> tag_registry \<Rightarrow> bool" where
  "same_registry g h \<longleftrightarrow>
     map_wf (tag_table h) \<and> map_wf (name_index h) \<and> next_id h = next_id g \<and> live_ids h = live_ids g \<and>
     pinba_map_get (name_index h) = pinba_map_get (name_index g) \<and>
     pinba_lmap_get (tag_table h) = pinba_lmap_get (tag_table g)"

lemma same_registry_ok: "registry_ok gc g \<Longrightarrow> same_registry g h \<Longrightarrow> registry_ok gc h"
  by (simp add: registry_ok_def same_registry_def)

lemma insort_last: "\<forall>x \<in> set ids. fst x < i \<Longrightarrow> insort_key fst (i, tag) ids = ids @ [(i, tag)]"
  by (induction ids) (auto simp: not_le)

lemma registry_fresh:
  assumes "registry_ok gc g"
  shows "pinba_lmap_get (tag_table g) (next_id g) = None"
    and "gc \<Longrightarrow> \<forall>x \<in> set (live_ids g). fst x < next_id g"
proof -
  show "pinba_lmap_get (tag_table g) (next_id g) = None"
    using assms by (cases "pinba_lmap_get (tag_table g) (next_id g)") (auto simp: registry_ok_def)
  show "\<forall>x \<in> set (live_ids g). fst x < next_id g" if gc
  proof
    fix x assume "x \<in> set (live_ids g)"
    moreover have "distinct (map fst (live_ids g))" and e: "map_of (live_ids g) = pinba_lmap_get (tag_table g)"
      using assms that by (simp_all add: registry_ok_def)
    ultimately have "map_of (live_ids g) (fst x) = Some (snd x)"
      using map_of_is_SomeI [of "live_ids g" "fst x" "snd x"] by simp
    then show "fst x < next_id g" using assms that unfolding e by (simp add: registry_ok_def)
  qed
qed

lemma word_Suc_le: "i < (n :: u64) + 1 \<Longrightarrow> n \<le> 2147483647 \<Longrightarrow> i < n \<or> i = n"
proof -
  assume "i < n + 1" "n \<le> 2147483647"
  then have "unat i < unat n + 1" by (simp add: word_less_nat_alt word_le_nat_alt unat_word_ariths)
  then show ?thesis by (auto simp: word_less_nat_alt word_unat_eq_iff)
qed

lemma registered_ok:
  assumes ok: "registry_ok gc g" and new: "pinba_map_get (name_index g) name = None"
    and len: "length name < PINBA_TAG_NAME_SIZE" and room: "next_id g \<le> INT_MAX_ID"
    and tag: "tag = \<lparr>tag_id = next_id g, tag_name = name\<rparr>"
    and h: "h = g\<lparr>tag_table := pinba_lmap_add (tag_table g) (next_id g) tag,
              name_index := pinba_map_add (name_index g) name tag, next_id := next_id g + 1,
              cursor_refs := (cursor_refs g)(next_id g := 0),
              live_ids := (if gc then live_emplace (next_id g) tag (live_ids g) else live_ids g)\<rparr>"
  shows "registry_ok gc h"
proof -
  note fresh = registry_fresh [OF ok]
  have wf: "map_wf (tag_table g)" "map_wf (name_index g)" using ok by (auto simp: registry_ok_def)
  have get: "pinba_map_get (name_index h) = (pinba_map_get (name_index g))(name \<mapsto> tag)"
    "pinba_lmap_get (tag_table h) = (pinba_lmap_get (tag_table g))(next_id g \<mapsto> tag)"
    "map_wf (tag_table h)" "map_wf (name_index h)"
    using wf by (simp_all add: h smap_simps lmap_simps)
  have up: "next_id g < next_id g + 1" "next_id g + 1 \<le> INT_MAX_ID + 1"
    using room by (simp_all add: word_less_nat_alt word_le_nat_alt unat_word_ariths)
  have "i < next_id g + 1" if "i < next_id g" for i
    using that up(1) by (rule order_less_trans)
  then have old: "i < next_id h" if "pinba_lmap_get (tag_table g) i = Some t" for i t
    using that ok by (simp add: registry_ok_def h)
  have live: "sorted (map fst (live_ids h)) \<and> distinct (map fst (live_ids h)) \<and>
      map_of (live_ids h) = pinba_lmap_get (tag_table h)" if gc
  proof -
    have e: "live_ids h = live_ids g @ [(next_id g, tag)]"
      using fresh(2) [OF that] that by (force simp: h live_emplace_def insort_last)
    have lg: "sorted (map fst (live_ids g))" "distinct (map fst (live_ids g))"
      "map_of (live_ids g) = pinba_lmap_get (tag_table g)"
      using ok that by (simp_all add: registry_ok_def)
    have "map_of (live_ids g @ [(next_id g, tag)]) = (map_of (live_ids g))(next_id g \<mapsto> tag)"
      using fresh(1) lg(3) by (auto simp: fun_eq_iff map_add_def split: option.splits)
    moreover have "sorted (map fst (live_ids g @ [(next_id g, tag)]))"
      using lg(1) fresh(2) [OF that] by (auto simp: sorted_append intro: less_imp_le)
    moreover have "distinct (map fst (live_ids g @ [(next_id g, tag)]))"
      using lg(2) fresh(2) [OF that] by auto
    ultimately show ?thesis unfolding e get using lg(3) by simp
  qed
  have dense: "\<forall>i < next_id h. pinba_lmap_get (tag_table h) i \<noteq> None" if "\<not> gc"
  proof (intro allI impI)
    fix i assume "i < next_id h"
    then have "i < next_id g \<or> i = next_id g" using room word_Suc_le [of i "next_id g"] by (simp add: h)
    moreover have "\<forall>i < next_id g. pinba_lmap_get (tag_table g) i \<noteq> None"
      using ok that by (simp add: registry_ok_def)
    ultimately show "pinba_lmap_get (tag_table h) i \<noteq> None" unfolding get by auto
  qed
  have names: "tag_name t = n \<and> pinba_lmap_get (tag_table h) (tag_id t) = Some t"
    if "pinba_map_get (name_index h) n = Some t" for n t
  proof (cases "n = name")
    case False
    then have "pinba_map_get (name_index g) n = Some t" using that get(1) by simp
    then have "tag_name t = n" "pinba_lmap_get (tag_table g) (tag_id t) = Some t"
      using ok by (simp_all add: registry_ok_def)
    then show ?thesis using fresh(1) unfolding get by auto
  qed (use that get tag in auto)
  have ids: "tag_id t = i \<and> i < next_id h \<and> length (tag_name t) < PINBA_TAG_NAME_SIZE \<and>
      pinba_map_get (name_index h) (tag_name t) = Some t"
    if "pinba_lmap_get (tag_table h) i = Some t" for i t
  proof (cases "i = next_id g")
    case True
    then show ?thesis using that get up(1) len by (auto simp: tag h)
  next
    case False
    then have t: "pinba_lmap_get (tag_table g) i = Some t" using that get(2) by simp
    then have "pinba_map_get (name_index g) (tag_name t) = Some t" "tag_id t = i" "length (tag_name t) < PINBA_TAG_NAME_SIZE"
      using ok by (simp_all add: registry_ok_def)
    moreover have "tag_name t \<noteq> name" using calculation(1) new by auto
    ultimately show ?thesis using old [OF t] unfolding get by simp
  qed
  show ?thesis
    unfolding registry_ok_def using get(3,4) up(2) live dense names ids by (simp add: h)
qed

section \<open>Looking up, creating\<close>

text \<open>A creation that does not find memory leaves no trace.\<close>

lemma create_result:
  assumes ok: "registry_ok (tag_gc_enabled settings) g" and new: "pinba_map_get (name_index g) name = None"
    and len: "length name < PINBA_TAG_NAME_SIZE"
  shows "case pinba_tag_create settings mem name g of
      (Some t, h) \<Rightarrow> t = \<lparr>tag_id = next_id g, tag_name = name\<rparr> \<and> registry_ok (tag_gc_enabled settings) h \<and>
        next_id h = next_id g + 1 \<and>
        pinba_map_get (name_index h) = (pinba_map_get (name_index g))(name \<mapsto> t) \<and>
        pinba_lmap_get (tag_table h) = (pinba_lmap_get (tag_table g))(next_id g \<mapsto> t)
    | (None, h) \<Rightarrow> same_registry g h"
proof -
  let ?gc = "tag_gc_enabled settings" and ?t = "\<lparr>tag_id = next_id g, tag_name = name\<rparr>"
  have wf: "map_wf (tag_table g)" "map_wf (name_index g)" using ok by (auto simp: registry_ok_def)
  have tk: "take 64 name = name" using len by simp
  have same: "same_registry g g" using wf by (simp add: same_registry_def)
  have fresh: "pinba_lmap_get (tag_table g) (next_id g) = None" by (rule registry_fresh [OF ok])
  have del: "pinba_map_get (fst (pinba_map_delete (pinba_map_add (name_index g) name ?t) name)) = pinba_map_get (name_index g)"
    "pinba_map_get (fst (pinba_map_delete (name_index g) name)) = pinba_map_get (name_index g)"
    "pinba_lmap_get (fst (pinba_lmap_delete (pinba_lmap_add (tag_table g) (next_id g) ?t) (next_id g))) = pinba_lmap_get (tag_table g)"
    using smap.add_del_roundtrip [OF wf(2) new] lmap.add_del_roundtrip [OF wf(1) fresh] new
    by (simp_all add: smap_simps wf fun_upd_idem)
  have dwf: "map_wf (fst (pinba_map_delete (pinba_map_add (name_index g) name ?t) name))"
    "map_wf (fst (pinba_map_delete (name_index g) name))"
    "map_wf (fst (pinba_lmap_delete (pinba_lmap_add (tag_table g) (next_id g) ?t) (next_id g)))"
    using wf by (simp_all add: smap_simps lmap_simps)
  show ?thesis
  proof (cases "tag_limit_reached settings g \<or> \<not> mem_tag mem")
    case True
    then show ?thesis using same by (auto simp: pinba_tag_create_def)
  next
    case False
    show ?thesis
    proof (cases "mem_name mem \<and> mem_table mem \<and> (?gc \<longrightarrow> mem_index mem)")
      case True
      have "next_id g \<le> INT_MAX_ID" using False by (auto simp: tag_limit_reached_def)
      note reg = registered_ok [OF ok new len this refl refl]
      show ?thesis
        using False True reg wf
        by (cases ?gc) (simp_all add: pinba_tag_create_def Let_def tk try_add_absent [OF new] ltry_add_absent [OF fresh] smap_simps lmap_simps)
    next
      case no: False
      show ?thesis
        using False no wf del dwf
        by (auto simp: pinba_tag_create_def Let_def tk try_add_absent [OF new] ltry_add_absent [OF fresh] same_registry_def)
    qed
  qed
qed

definition sample_registry :: tag_registry where
  "sample_registry =
     \<lparr>tag_table = Some [(0, \<lparr>tag_id = 0, tag_name = ''app''\<rparr>), (1, \<lparr>tag_id = 1, tag_name = ''old''\<rparr>)],
      name_index = Some [(''app'', \<lparr>tag_id = 0, tag_name = ''app''\<rparr>), (''old'', \<lparr>tag_id = 1, tag_name = ''old''\<rparr>)],
      next_id = 2, live_ids = [(0, \<lparr>tag_id = 0, tag_name = ''app''\<rparr>), (1, \<lparr>tag_id = 1, tag_name = ''old''\<rparr>)],
      cursor_refs = (\<lambda>_. 0)\<rparr>"

lemma sample_registry_ok: "registry_ok True sample_registry"
  by (auto simp: registry_ok_def sample_registry_def map_wf_def pinba_map_get_def pinba_lmap_get_def
      fun_eq_iff split: if_splits)

lemma lookup_result:
  assumes "registry_ok (tag_gc_enabled settings) g" and "registry_ok (tag_gc_enabled settings) (meanwhile g)"
    and "length name < PINBA_TAG_NAME_SIZE"
  shows "case pinba_tag_lookup_or_create_locked settings meanwhile mem (Some name) g of
           (Some t, h) \<Rightarrow>
             tag_name t = name \<and> registry_ok (tag_gc_enabled settings) h \<and>
             pinba_tag_get_by_name (Some name) h = Some t \<and> pinba_tag_get_by_id settings (tag_id t) h = Some t \<and>
             (let before = (if pinba_tag_get_by_name (Some name) g = None then meanwhile g else g) in
              (\<forall>n. n \<noteq> name \<longrightarrow> pinba_tag_get_by_name (Some n) h = pinba_tag_get_by_name (Some n) before) \<and>
              (pinba_tag_get_by_name (Some name) before = None \<longrightarrow>
                 tag_id t = next_id before \<and> next_id h = next_id before + 1))
         | (None, h) \<Rightarrow> registry_ok (tag_gc_enabled settings) h \<and> same_registry (meanwhile g) h"
proof (cases "pinba_map_get (name_index g) name")
  case (Some t)
  then show ?thesis
    using assms(1) by (simp add: pinba_tag_lookup_or_create_locked_def pinba_tag_get_by_name_def
        pinba_tag_get_by_id_def pinba_tag_get_after_def registry_ok_def)
next
  case first: None
  show ?thesis
  proof (cases "pinba_map_get (name_index (meanwhile g)) name")
    case (Some t)
    then show ?thesis
      using assms(2) first by (simp add: pinba_tag_lookup_or_create_locked_def pinba_tag_get_by_name_def
          pinba_tag_get_by_id_def pinba_tag_get_after_def registry_ok_def)
  next
    case None
    obtain res h where r: "pinba_tag_create settings mem name (meanwhile g) = (res, h)" by fastforce
    note c = create_result [OF assms(2) None assms(3), of mem, unfolded r]
    show ?thesis
    proof (cases res)
      case n: None
      then show ?thesis
        using c first None r same_registry_ok [OF assms(2)] by (simp add: pinba_tag_lookup_or_create_locked_def)
    next
      case (Some t)
      then show ?thesis
        using c first None r
        by (auto simp: pinba_tag_lookup_or_create_locked_def pinba_tag_get_by_name_def
            pinba_tag_get_by_id_def pinba_tag_get_after_def)
    qed
  qed
qed

text \<open>
  C27: Looking up a tag name, creating it if needed, answers the one descriptor of that name;
  it is found by name and by id afterwards, the descriptors of all other names stay as they
  are, and a new descriptor gets an id that was never given out before. When the limit is
  reached or memory runs out at any of the allocations, the registry is as if nothing had
  been tried. All this holds whatever other threads did while the lock was upgraded.
\<close>

theorem tag_lookup_or_create:
  assumes "registry_ok (tag_gc_enabled settings) g" and "registry_ok (tag_gc_enabled settings) (meanwhile g)"
    and "length name < PINBA_TAG_NAME_SIZE"
  shows "case pinba_tag_lookup_or_create_locked settings meanwhile mem (Some name) g of
           (Some t, h) \<Rightarrow>
             tag_name t = name \<and> registry_ok (tag_gc_enabled settings) h \<and>
             pinba_tag_get_by_name (Some name) h = Some t \<and> pinba_tag_get_by_id settings (tag_id t) h = Some t \<and>
             (let before = (if pinba_tag_get_by_name (Some name) g = None then meanwhile g else g) in
              (\<forall>n. n \<noteq> name \<longrightarrow> pinba_tag_get_by_name (Some n) h = pinba_tag_get_by_name (Some n) before) \<and>
              (pinba_tag_get_by_name (Some name) before = None \<longrightarrow>
                 tag_id t = next_id before \<and> next_id h = next_id before + 1))
         | (None, h) \<Rightarrow> registry_ok (tag_gc_enabled settings) h \<and> same_registry (meanwhile g) h"
  using assms by (rule lookup_result)

theorem tag_lookup_or_create_witness:
  "tag_id (the (fst (pinba_tag_lookup_or_create_locked \<lparr>tag_names_limit = 9, tag_gc_enabled = True\<rparr> (\<lambda>g. g)
     \<lparr>mem_tag = True, mem_name = True, mem_table = True, mem_index = True\<rparr> (Some ''dc'') sample_registry))) = 2 \<and>
   registry_ok True (snd (pinba_tag_lookup_or_create_locked \<lparr>tag_names_limit = 9, tag_gc_enabled = True\<rparr> (\<lambda>g. g)
     \<lparr>mem_tag = True, mem_name = True, mem_table = True, mem_index = True\<rparr> (Some ''dc'') sample_registry))"
proof -
  let ?s = "\<lparr>tag_names_limit = 9, tag_gc_enabled = True\<rparr>"
    and ?m = "\<lparr>mem_tag = True, mem_name = True, mem_table = True, mem_index = True\<rparr>"
  have e: "fst (pinba_tag_lookup_or_create_locked ?s (\<lambda>g. g) ?m (Some ''dc'') sample_registry) = Some \<lparr>tag_id = 2, tag_name = ''dc''\<rparr>"
    by (simp add: pinba_tag_lookup_or_create_locked_def pinba_tag_create_def sample_registry_def pinba_map_get_def
        tag_limit_reached_def pinba_lmap_count_def pinba_map_try_add_def map_data_add_def pinba_lmap_try_add_def Let_def)
  show ?thesis
    using tag_lookup_or_create [of ?s sample_registry "\<lambda>g. g" "''dc''" ?m] sample_registry_ok e
    by (simp split: prod.splits option.splits)
qed

section \<open>Collecting\<close>

lemma live_erase_map: "map_of (live_erase i ids) = (map_of ids)(i := None)"
  by (induction ids) (auto simp: live_erase_def fun_eq_iff)

lemma live_erase_keys:
  "sorted (map fst ids) \<Longrightarrow> sorted (map fst (live_erase i ids))"
  "distinct (map fst ids) \<Longrightarrow> distinct (map fst (live_erase i ids))"
  by (simp_all add: live_erase_def sorted_filter distinct_map_filter)

text \<open>Dropping one live descriptor.\<close>

lemma dtor_ok:
  assumes ok: "registry_ok True g" and t: "pinba_lmap_get (tag_table g) (tag_id t) = Some t"
  shows "registry_ok True (pinba_tag_dtor t g)"
    and "pinba_lmap_get (tag_table (pinba_tag_dtor t g)) = (pinba_lmap_get (tag_table g))(tag_id t := None)"
    and "pinba_map_get (name_index (pinba_tag_dtor t g)) = (pinba_map_get (name_index g))(tag_name t := None)"
proof -
  have wf: "map_wf (tag_table g)" "map_wf (name_index g)" using ok by (auto simp: registry_ok_def)
  show get: "pinba_lmap_get (tag_table (pinba_tag_dtor t g)) = (pinba_lmap_get (tag_table g))(tag_id t := None)"
    "pinba_map_get (name_index (pinba_tag_dtor t g)) = (pinba_map_get (name_index g))(tag_name t := None)"
    using wf by (simp_all add: pinba_tag_dtor_def smap_simps lmap_simps)
  have name: "pinba_map_get (name_index g) (tag_name t) = Some t" using ok t by (simp add: registry_ok_def)
  have names: "tag_name s = n \<and> pinba_lmap_get (tag_table (pinba_tag_dtor t g)) (tag_id s) = Some s"
    if "pinba_map_get (name_index (pinba_tag_dtor t g)) n = Some s" for n s
  proof -
    have s: "pinba_map_get (name_index g) n = Some s" "n \<noteq> tag_name t" using that get(2) by (auto split: if_splits)
    then have n: "tag_name s = n" "pinba_lmap_get (tag_table g) (tag_id s) = Some s" using ok by (simp_all add: registry_ok_def)
    have "tag_id s \<noteq> tag_id t"
    proof
      assume "tag_id s = tag_id t"
      then have "Some s = Some t" using n(2) t by metis
      then show False using n(1) s(2) by simp
    qed
    then show ?thesis using n get(1) by simp
  qed
  have ids: "tag_id s = i \<and> i < next_id g \<and> length (tag_name s) < PINBA_TAG_NAME_SIZE \<and>
      pinba_map_get (name_index (pinba_tag_dtor t g)) (tag_name s) = Some s"
    if "pinba_lmap_get (tag_table (pinba_tag_dtor t g)) i = Some s" for i s
  proof -
    have s: "pinba_lmap_get (tag_table g) i = Some s" "i \<noteq> tag_id t" using that get(1) by (auto split: if_splits)
    then have n: "tag_id s = i" "i < next_id g" "length (tag_name s) < PINBA_TAG_NAME_SIZE"
      "pinba_map_get (name_index g) (tag_name s) = Some s" using ok by (simp_all add: registry_ok_def)
    have "tag_name s \<noteq> tag_name t"
    proof
      assume "tag_name s = tag_name t"
      then have "Some s = Some t" using n(4) name by metis
      then show False using n(1) s(2) by simp
    qed
    then show ?thesis using n get(2) by simp
  qed
  have "map_wf (tag_table (pinba_tag_dtor t g))" "map_wf (name_index (pinba_tag_dtor t g))"
    using wf by (simp_all add: pinba_tag_dtor_def smap_simps lmap_simps)
  moreover have "map_of (live_ids (pinba_tag_dtor t g)) = pinba_lmap_get (tag_table (pinba_tag_dtor t g))"
    unfolding get(1) using ok by (simp add: pinba_tag_dtor_def live_erase_map registry_ok_def)
  moreover have "next_id (pinba_tag_dtor t g) = next_id g" "live_ids (pinba_tag_dtor t g) = live_erase (tag_id t) (live_ids g)"
    by (simp_all add: pinba_tag_dtor_def)
  ultimately show "registry_ok True (pinba_tag_dtor t g)"
    using ok names ids live_erase_keys [of "live_ids g" "tag_id t"] unfolding registry_ok_def by simp
qed

lemma collect_loop_ok:
  assumes "registry_ok True g" and "distinct (map fst ids)"
    and "\<forall>(i, t) \<in> set ids. pinba_lmap_get (tag_table g) i = Some t"
  shows "registry_ok True (collect_loop used ids g) \<and> next_id (collect_loop used ids g) = next_id g \<and>
     pinba_lmap_get (tag_table (collect_loop used ids g)) =
       (\<lambda>i. case map_of ids i of Some t \<Rightarrow> if used t then pinba_lmap_get (tag_table g) i else None
                               | None \<Rightarrow> pinba_lmap_get (tag_table g) i)"
  using assms
proof (induction ids arbitrary: g)
  case (Cons x ids)
  obtain i t where x: "x = (i, t)" by (cases x)
  have t: "pinba_lmap_get (tag_table g) i = Some t" using Cons.prems(3) x by auto
  then have id: "tag_id t = i" using Cons.prems(1) by (simp add: registry_ok_def)
  let ?h = "if used t then g else pinba_tag_dtor t g"
  have h: "registry_ok True ?h" "next_id ?h = next_id g"
    "pinba_lmap_get (tag_table ?h) = (if used t then pinba_lmap_get (tag_table g) else (pinba_lmap_get (tag_table g))(i := None))"
    using dtor_ok [OF Cons.prems(1), of t] Cons.prems(1) t id by (auto simp: pinba_tag_dtor_def)
  have e: "collect_loop used (x # ids) g = collect_loop used ids ?h"
    by (simp add: x pinba_tag_dtor_def id)
  have ni: "map_of ids i = None" using Cons.prems(2) x by (auto simp: map_of_eq_None_iff)
  have "\<forall>(j, s) \<in> set ids. pinba_lmap_get (tag_table ?h) j = Some s"
    using Cons.prems(2,3) x h(3) by (force split: prod.splits)
  then show ?case
    unfolding e using Cons.IH [OF h(1)] Cons.prems(2) h(2,3) ni by (auto simp: x fun_eq_iff split: option.splits)
qed simp

text \<open>
  C28: With the tag collector on, it removes exactly the descriptors that no cursor holds, whose
  name no stored word refers to, and that no report selects; all others are found as before,
  the registry stays consistent and the next id does not go back, so that an id is never used
  for two names. With the collector off, or no memory for the selection, nothing changes.
\<close>

theorem tag_collect:
  assumes "registry_ok True g"
  shows "(let h = pinba_collect_unused_tags \<lparr>tag_names_limit = n, tag_gc_enabled = True\<rparr> d (Some selectors) g
          in registry_ok True h \<and> next_id h = next_id g \<and>
             (\<forall>i. pinba_lmap_get (tag_table h) i =
                (case pinba_lmap_get (tag_table g) i of
                   None \<Rightarrow> None
                 | Some t \<Rightarrow> if tag_in_use d selectors g t then Some t else None))) \<and>
         pinba_collect_unused_tags \<lparr>tag_names_limit = n, tag_gc_enabled = True\<rparr> d None g = g \<and>
         pinba_collect_unused_tags \<lparr>tag_names_limit = n, tag_gc_enabled = False\<rparr> d sel g = g"
proof -
  have live: "map_of (live_ids g) = pinba_lmap_get (tag_table g)" "distinct (map fst (live_ids g))"
    using assms by (simp_all add: registry_ok_def)
  have "\<forall>(i, t) \<in> set (live_ids g). pinba_lmap_get (tag_table g) i = Some t"
    using map_of_is_SomeI [OF live(2)] live(1) by auto
  from collect_loop_ok [OF assms live(2) this, of "tag_in_use d selectors g"] show ?thesis
    by (auto simp: pinba_collect_unused_tags_def Let_def live(1) split: option.splits)
qed

theorem tag_collect_witness:
  "let h = pinba_collect_unused_tags \<lparr>tag_names_limit = 0, tag_gc_enabled = True\<rparr> sample_dictionary (Some []) sample_registry
   in pinba_lmap_get (tag_table h) 0 = Some \<lparr>tag_id = 0, tag_name = ''app''\<rparr> \<and> pinba_lmap_get (tag_table h) 1 = None"
  using tag_collect [OF sample_registry_ok, of 0 sample_dictionary "[]" None]
  by (simp add: Let_def sample_registry_def pinba_lmap_get_def tag_in_use_def sample_dictionary_def pinba_map_get_def)

end
