(* ===== verification/Daemon.thy ===== *)
theory Daemon
  imports Expiration Tag_Registry
begin

text \<open>
  The daemon (\<^verbatim>\<open>struct _pinba_daemon\<close>, \<^verbatim>\<open>src/pinba_types.h\<close>) and one round of the statistics
  thread (\<^verbatim>\<open>pinba_stats_main\<close>, \<^verbatim>\<open>src/pool.cc\<close>). A registered report is given with its type,
  which stands for its \<^verbatim>\<open>add_func\<close> and \<^verbatim>\<open>delete_func\<close> pointers. The jobs of one round touch
  one report each, so the model runs them one after the other.
\<close>

section \<open>State\<close>

type_synonym base_entry = "pinba_report_type \<times> pinba_report"

datatype rtag_entry = Rtag_info pinba_report_type rtag_info | Rtag_report pinba_report_type rtag_report

datatype tag_entry = Tag_info tag_shape tag_info | Tag_report tag_shape bool tag_report

record pinba_daemon =
  request_pool_counter :: u64
  request_pool :: "pinba_stats_record pinba_pool"
  timer_pool :: "pinba_timer_record pinba_pool"
  dictionary :: pinba_dictionary
  registry :: tag_registry
  timertags_cnt :: u64
  base_reports :: "base_entry list"
  tag_reports :: "tag_entry list"
  rtag_reports :: "rtag_entry list"
  lost_tmp_records :: u64
  invalid_request_data :: u64

section \<open>The jobs\<close>

text \<open>
  \<open>hs\<close> is the size of the histograms, \<open>ok\<close> says whether the allocations of the jobs succeed
  and \<open>ru0\<close>, \<open>ru1\<close> are the processor times before and after a job.
\<close>

record job_env =
  env_hs :: u64
  env_ok :: bool
  env_ru0 :: rusage
  env_ru1 :: rusage

definition rtag_info_add_func :: "pinba_report_type \<Rightarrow> u64 \<Rightarrow> bool \<Rightarrow> rtag_info \<Rightarrow> pinba_stats_record \<Rightarrow> rtag_info" where
  "rtag_info_add_func t =
     (case t of PINBA_TABLE_RTAG_INFO \<Rightarrow> pinba_update_rtag_info_add
      | PINBA_TABLE_RTAG2_INFO \<Rightarrow> pinba_update_rtag2_info_add | _ \<Rightarrow> pinba_update_rtagN_info_add)"

definition rtag_info_delete_func :: "pinba_report_type \<Rightarrow> u64 \<Rightarrow> rtag_info \<Rightarrow> pinba_stats_record \<Rightarrow> rtag_info" where
  "rtag_info_delete_func t =
     (case t of PINBA_TABLE_RTAG_INFO \<Rightarrow> pinba_update_rtag_info_delete
      | PINBA_TABLE_RTAG2_INFO \<Rightarrow> pinba_update_rtag2_info_delete | _ \<Rightarrow> pinba_update_rtagN_info_delete)"

definition rtag_report_add_func :: "pinba_report_type \<Rightarrow> u64 \<Rightarrow> bool \<Rightarrow> rtag_report \<Rightarrow> pinba_stats_record \<Rightarrow> rtag_report" where
  "rtag_report_add_func t =
     (case t of PINBA_TABLE_RTAG_REPORT \<Rightarrow> pinba_update_rtag_report_add
      | PINBA_TABLE_RTAG2_REPORT \<Rightarrow> pinba_update_rtag2_report_add | _ \<Rightarrow> pinba_update_rtagN_report_add)"

definition rtag_report_delete_func :: "pinba_report_type \<Rightarrow> u64 \<Rightarrow> rtag_report \<Rightarrow> pinba_stats_record \<Rightarrow> rtag_report" where
  "rtag_report_delete_func t =
     (case t of PINBA_TABLE_RTAG_REPORT \<Rightarrow> pinba_update_rtag_report_delete
      | PINBA_TABLE_RTAG2_REPORT \<Rightarrow> pinba_update_rtag2_report_delete | _ \<Rightarrow> pinba_update_rtagN_report_delete)"

definition base_job :: "job_env \<Rightarrow> pinba_stats_record pinba_pool \<Rightarrow> report_job \<Rightarrow> base_entry \<Rightarrow> base_entry" where
  "base_job e p d entry =
     (case entry of (t, R) \<Rightarrow>
        (t, update_reports_func std upd_report_std
              (\<lambda>i R r. base_add_func t (env_hs e) R r) (\<lambda>i R r. base_delete_func t (env_hs e) R r)
              (env_ru0 e) (env_ru1 e) p d R))"

fun rtag_job :: "job_env \<Rightarrow> pinba_stats_record pinba_pool \<Rightarrow> report_job \<Rightarrow> rtag_entry \<Rightarrow> rtag_entry" where
  "rtag_job e p d (Rtag_info t R) =
     Rtag_info t (update_reports_func rt_std upd_rtag_std
       (\<lambda>i R r. rtag_info_add_func t (env_hs e) (env_ok e) R r) (\<lambda>i R r. rtag_info_delete_func t (env_hs e) R r)
       (env_ru0 e) (env_ru1 e) p d R)"
| "rtag_job e p d (Rtag_report t R) =
     Rtag_report t (update_reports_func rt_std upd_rtag_std
       (\<lambda>i R r. rtag_report_add_func t (env_hs e) (env_ok e) R r) (\<lambda>i R r. rtag_report_delete_func t (env_hs e) R r)
       (env_ru0 e) (env_ru1 e) p d R)"

fun tag_job ::
  "job_env \<Rightarrow> pinba_timer_record pinba_pool \<Rightarrow> pinba_stats_record pinba_pool \<Rightarrow> report_job \<Rightarrow> tag_entry \<Rightarrow> tag_entry" where
  "tag_job e tp p d (Tag_info shape R) =
     Tag_info shape (update_reports_func tg_std upd_tag_std
       (\<lambda>i R r. tag_info_add_func shape (env_hs e) (\<lambda>_. env_ok e) (of_nat i) R r (record_timers tp r))
       (\<lambda>i R r. tag_info_delete_func shape (env_hs e) (of_nat i) R r (record_timers tp r))
       (env_ru0 e) (env_ru1 e) p d R)"
| "tag_job e tp p d (Tag_report shape two R) =
     Tag_report shape two (update_reports_func tg_std upd_tag_std
       (\<lambda>i R r. tag_report_add_func shape two (env_hs e) (\<lambda>_. env_ok e) (of_nat i) R r (record_timers tp r))
       (\<lambda>i R r. tag_report_delete_func shape two (env_hs e) (of_nat i) R r (record_timers tp r))
       (env_ru0 e) (env_ru1 e) p d R)"

section \<open>One round of the statistics thread\<close>

fun release_expired ::
  "nat \<Rightarrow> nat \<Rightarrow> pinba_stats_record pinba_pool \<Rightarrow> pinba_dictionary \<Rightarrow> pinba_stats_record pinba_pool \<times> pinba_dictionary" where
  "release_expired expired_id 0 p d = (p, d)"
| "release_expired expired_id (Suc n) p d =
     (case pinba_record_release_words (pdata p ! expired_id) d of
        (record, d) \<Rightarrow>
          release_expired (if expired_id + 1 = psize p then 0 else expired_id + 1) n
            (p\<lparr>pdata := (pdata p)[expired_id := record]\<rparr>) d)"

text \<open>
  The timers part, run when the deleted requests had timers: the tag reports first, then the
  timers are cleared by one job per thread and leave the pool.
\<close>

definition expire_timers :: "job_env \<Rightarrow> nat \<Rightarrow> nat \<Rightarrow> nat \<Rightarrow> nat \<Rightarrow> pinba_daemon \<Rightarrow> pinba_daemon" where
  "expire_timers e threads prev_request_id num deleted_timer_cnt D =
     (let p = request_pool D; tp = timer_pool D;
          reports = map (tag_job e tp p \<lparr>job_prefix = prev_request_id, job_count = num, job_add = False\<rparr>) (tag_reports D)
      in case clear_jobs p prev_request_id (job_sizes (thread_job_size threads num) num threads 0) tp of
           (timertag_cnt, tp) \<Rightarrow>
             D\<lparr>tag_reports := reports, timer_pool := tp\<lparr>pout := advance tp (pout tp) deleted_timer_cnt\<rparr>,
               timertags_cnt := timertags_cnt D - of_nat timertag_cnt\<rparr>)"

definition pinba_stats_expire :: "job_env \<Rightarrow> nat \<Rightarrow> pinba_timeval \<Rightarrow> pinba_daemon \<Rightarrow> pinba_daemon option" where
  "pinba_stats_expire e threads since D =
     (let prev_request_id = pout (request_pool D)
      in case pinba_request_pool_delete_old since (request_pool D) of
           None \<Rightarrow> None
         | Some (p, deleted_timer_cnt, rtags_cnt) \<Rightarrow>
             let new_request_id = pout p;
                 num = (if new_request_id = prev_request_id then 0
                        else if new_request_id > prev_request_id then new_request_id - prev_request_id
                        else psize p - (prev_request_id - new_request_id));
                 d = \<lparr>job_prefix = prev_request_id, job_count = num, job_add = False\<rparr>;
                 D = D\<lparr>request_pool := p\<rparr>
             in if num = 0 then Some D
                else
                  let D = D\<lparr>base_reports := map (base_job e p d) (base_reports D)\<rparr>;
                      D = (if rtags_cnt \<noteq> 0 then D\<lparr>rtag_reports := map (rtag_job e p d) (rtag_reports D)\<rparr> else D);
                      D = (if deleted_timer_cnt > 0 then expire_timers e threads prev_request_id num deleted_timer_cnt D else D)
                  in case release_expired prev_request_id num (request_pool D) (dictionary D) of
                       (p, words) \<Rightarrow> Some (D\<lparr>request_pool := p, dictionary := words\<rparr>))"

end
