(* ===== verification/Daemon_Invariant.thy ===== *)
theory Daemon_Invariant
  imports Daemon
begin

text \<open>
  What holds of the daemon between two rounds of its threads: the pools are rings with the
  requests in their order of arrival, every timer belongs to its request, every registered
  report holds the aggregates of the requests the pool still has, and the words and timer tags
  are accounted for. This theory shows that an expiration keeps it.
\<close>

section \<open>Reports see what they need of a request\<close>

lemma base_index_view: "base_index t (request_view r) = base_index t r"
  by (cases t) (simp_all add: request_view_def base_index_def report1_index_def report2_index_def report3_index_def
      report4_index_def report5_index_def report6_index_def report7_index_def report8_index_def
      report9_index_def report10_index_def report11_index_def report12_index_def report13_index_def
      report14_index_def report15_index_def report16_index_def report17_index_def report18_index_def)

lemma base_labels_view: "base_labels t (request_view r) = base_labels t r"
  by (cases t) (simp_all add: request_view_def base_labels_def report_labels_simps)

lemma row_view [simp]:
  "totals_add ts (request_view r) = totals_add ts r" "totals_sub ts (request_view r) = totals_sub ts r"
  "row_add hs s d (request_view r) = row_add hs s d r" "row_sub hs s d (request_view r) = row_sub hs s d r"
  by (simp_all add: request_view_def totals_add_def totals_sub_def row_add_def row_sub_def)

lemma record_ok_view [simp]: "record_ok (request_view r) = record_ok r"
  by (simp add: request_view_def record_ok_def)

lemma base_func_view:
  "update_report_add hs i l R (request_view r) = update_report_add hs i l R r"
  "update_report_delete hs i R (request_view r) = update_report_delete hs i R r"
  "update_report_info_add hs R (request_view r) = update_report_info_add hs R r"
  "update_report_info_delete hs R (request_view r) = update_report_info_delete hs R r"
  by (simp_all add: update_report_add_def update_report_delete_def update_report_info_add_def
      update_report_info_delete_def Let_def split: option.splits) (simp_all add: request_view_def)

lemma base_job_funcs:
  assumes "base_type t"
  shows "(\<lambda>i R r. base_add_func t hs R r) =
      (\<lambda>i R r. update_report_add hs (base_index t (request_view r)) (base_labels t (request_view r)) R (request_view r))"
    and "(\<lambda>i R r. base_delete_func t hs R r) = (\<lambda>i R r. update_report_delete hs (base_index t (request_view r)) R (request_view r))"
  using assms by (simp_all add: fun_eq_iff base_add_func_eq base_delete_func_eq base_index_view base_labels_view base_func_view)

lemma info_job_funcs:
  "(\<lambda>i R r. base_add_func PINBA_TABLE_REPORT_INFO hs R r) = (\<lambda>i R r. update_report_info_add hs R (request_view r))"
  "(\<lambda>i R r. base_delete_func PINBA_TABLE_REPORT_INFO hs R r) = (\<lambda>i R r. update_report_info_delete hs R (request_view r))"
  by (simp_all add: fun_eq_iff base_add_func_def base_delete_func_def pinba_update_report_info_add_def
      pinba_update_report_info_delete_def base_func_view)

lemma rtag_func_view:
  "rtag_flat_add hs ok key R (request_view r) = rtag_flat_add hs ok key R r"
  "rtag_flat_delete hs key R (request_view r) = rtag_flat_delete hs key R r"
  "rtag_host_add hs ok key S (request_view r) = rtag_host_add hs ok key S r"
  "rtag_host_delete hs key S (request_view r) = rtag_host_delete hs key S r"
  "rtag_flat_keyf t tgs (request_view r) = rtag_flat_keyf t tgs r"
  "rtag_host_keyf t tgs (request_view r) = rtag_host_keyf t tgs r"
proof -
  have h: "hostname (request_view r) = hostname r" "tags (request_view r) = tags r" by (simp_all add: request_view_def)
  show "rtag_flat_keyf t tgs (request_view r) = rtag_flat_keyf t tgs r"
    "rtag_host_keyf t tgs (request_view r) = rtag_host_keyf t tgs r"
    by (simp_all add: rtag_flat_keyf_def rtag_host_keyf_def rtag_info_key_def rtag_key_def rtag2_key_def rtagN_key_def
        rtagN_find_def h split: pinba_report_type.split)
  show "rtag_flat_add hs ok key R (request_view r) = rtag_flat_add hs ok key R r"
    "rtag_flat_delete hs key R (request_view r) = rtag_flat_delete hs key R r"
    "rtag_host_add hs ok key S (request_view r) = rtag_host_add hs ok key S r"
    "rtag_host_delete hs key S (request_view r) = rtag_host_delete hs key S r"
    by (simp_all add: rtag_flat_add_def rtag_flat_delete_def rtag_host_add_def rtag_host_delete_def rtag_commit_def
        h Let_def split: option.splits prod.splits)
qed

lemma rtag_job_funcs:
  "(\<lambda>i R r. rtag_info_add_func t hs True R r) =
     (\<lambda>i R r. rtag_flat_add hs True (rtag_flat_keyf t (rt_tags R) (request_view r)) R (request_view r))"
  "(\<lambda>i R r. rtag_info_delete_func t hs R r) =
     (\<lambda>i R r. rtag_flat_delete hs (rtag_flat_keyf t (rt_tags R) (request_view r)) R (request_view r))"
  "(\<lambda>i R r. rtag_report_add_func t hs True R r) =
     (\<lambda>i R r. rtag_host_add hs True (rtag_host_keyf t (rt_tags R) (request_view r)) R (request_view r))"
  "(\<lambda>i R r. rtag_report_delete_func t hs R r) =
     (\<lambda>i R r. rtag_host_delete hs (rtag_host_keyf t (rt_tags R) (request_view r)) R (request_view r))"
  unfolding rtag_func_view
  by (cases t; simp add: fun_eq_iff rtag_info_add_func_def rtag_info_delete_func_def rtag_report_add_func_def
      rtag_report_delete_func_def rtag_flat_keyf_def rtag_host_keyf_def pinba_update_rtag_info_add_def
      pinba_update_rtag_info_delete_def pinba_update_rtag2_info_add_def pinba_update_rtag2_info_delete_def
      pinba_update_rtagN_info_add_def pinba_update_rtagN_info_delete_def pinba_update_rtag_report_add_def
      pinba_update_rtag_report_delete_def pinba_update_rtag2_report_add_def pinba_update_rtag2_report_delete_def
      pinba_update_rtagN_report_add_def pinba_update_rtagN_report_delete_def)+

lemma shape_keyf_view: "shape_keyf shape level a ids words (request_view r) t = shape_keyf shape level a ids words r t"
proof -
  have "hostname (request_view r) = hostname r" "server_name (request_view r) = server_name r"
    "script_name (request_view r) = script_name r" by (simp_all add: request_view_def)
  then have v: "script_label (request_view r) = script_label r" "host_server_labels (request_view r) = host_server_labels r"
    "tag_report2_index n (request_view r) = tag_report2_index n r" "tag2_report2_index n (request_view r) = tag2_report2_index n r"
    "tagN_report2_index (request_view r) = tagN_report2_index r" for n
    by (simp_all add: fun_eq_iff tag_report2_index_def tag2_report2_index_def tagN_report2_index_def tagN_report2_fill_def
        script_label_def host_server_labels_def)
  show ?thesis
    by (cases shape; cases level; simp add: key_defs v split: option.splits prod.splits)
qed

lemma for_timers_view:
  "for_timers (shape_keyf shape level a) body (request_view r) i ts R = for_timers (shape_keyf shape level a) body r i ts R"
  by (induction ts arbitrary: i R) (simp_all add: shape_keyf_view)

lemma tag_job_funcs:
  "(\<lambda>i R r. tag_info_add_func shape hs (\<lambda>_. True) (of_nat i) R r (record_timers tp r)) =
     (\<lambda>i R r. case timer_item tp i r of (rid, record, ts) \<Rightarrow>
        tag_flat_add (shape_keyf shape Info True) hs (\<lambda>_. True) rid record ts R)"
  "(\<lambda>i R r. tag_info_delete_func shape hs (of_nat i) R r (record_timers tp r)) =
     (\<lambda>i R r. case timer_item tp i r of (rid, record, ts) \<Rightarrow>
        tag_flat_delete (shape_keyf shape Info False) hs rid record ts R)"
  "(\<lambda>i R r. tag_report_add_func shape two hs (\<lambda>_. True) (of_nat i) R r (record_timers tp r)) =
     (\<lambda>i R r. case timer_item tp i r of (rid, record, ts) \<Rightarrow>
        tag_script_add (shape_keyf shape (report_level two) True) hs (\<lambda>_. True) rid record ts R)"
  "(\<lambda>i R r. tag_report_delete_func shape two hs (of_nat i) R r (record_timers tp r)) =
     (\<lambda>i R r. case timer_item tp i r of (rid, record, ts) \<Rightarrow>
        tag_script_delete (shape_keyf shape (report_level two) False) hs rid record ts R)"
proof -
  have "script_name (request_view r) = script_name r" for r by (simp add: request_view_def)
  then show "(\<lambda>i R r. tag_info_add_func shape hs (\<lambda>_. True) (of_nat i) R r (record_timers tp r)) =
     (\<lambda>i R r. case timer_item tp i r of (rid, record, ts) \<Rightarrow>
        tag_flat_add (shape_keyf shape Info True) hs (\<lambda>_. True) rid record ts R)"
    "(\<lambda>i R r. tag_info_delete_func shape hs (of_nat i) R r (record_timers tp r)) =
     (\<lambda>i R r. case timer_item tp i r of (rid, record, ts) \<Rightarrow>
        tag_flat_delete (shape_keyf shape Info False) hs rid record ts R)"
    "(\<lambda>i R r. tag_report_add_func shape two hs (\<lambda>_. True) (of_nat i) R r (record_timers tp r)) =
     (\<lambda>i R r. case timer_item tp i r of (rid, record, ts) \<Rightarrow>
        tag_script_add (shape_keyf shape (report_level two) True) hs (\<lambda>_. True) rid record ts R)"
    "(\<lambda>i R r. tag_report_delete_func shape two hs (of_nat i) R r (record_timers tp r)) =
     (\<lambda>i R r. case timer_item tp i r of (rid, record, ts) \<Rightarrow>
        tag_script_delete (shape_keyf shape (report_level two) False) hs rid record ts R)"
    by (simp_all add: fun_eq_iff timer_item_def tag_info_funcs tag_report_funcs tag_flat_add_def tag_flat_delete_def
        tag_script_add_def tag_script_delete_def for_timers_view split: option.splits)
qed

section \<open>The invariant\<close>

definition tv_le :: "pinba_timeval \<Rightarrow> pinba_timeval \<Rightarrow> bool" where
  "tv_le a b \<longleftrightarrow> \<not> pinba_timercmp (<) b a"

text \<open>
  \<open>tm\<close> is the moment of the last batch and \<open>c\<close> the request counter: nothing stored is newer.
\<close>

definition requests_ok :: "pinba_timeval \<Rightarrow> u64 \<Rightarrow> pinba_stats_record pinba_pool \<Rightarrow> bool" where
  "requests_ok tm c p \<longleftrightarrow>
     pool_ok p \<and> psize p \<le> WINDOW_MAX \<and> arrival_ordered (ring p) \<and>
     (\<forall>r \<in> set (ring p). record_ok r \<and> tv_le (rec_time r) tm \<and> counter r < c)"

definition started_before :: "pinba_timeval \<Rightarrow> u64 \<Rightarrow> pinba_std_report \<Rightarrow> bool" where
  "started_before tm c s \<longleftrightarrow>
     (tv_sec (start s) \<noteq> 0 \<longrightarrow> tv_le (start s) tm \<and> request_pool_start_id s \<le> c)"

fun base_std :: "base_entry \<Rightarrow> pinba_std_report" where
  "base_std (t, R) = std R"

fun rtag_std_of :: "rtag_entry \<Rightarrow> pinba_std_report" where
  "rtag_std_of (Rtag_info t R) = rt_std R"
| "rtag_std_of (Rtag_report t R) = rt_std R"

fun tag_std_of :: "tag_entry \<Rightarrow> pinba_std_report" where
  "tag_std_of (Tag_info shape R) = tg_std R"
| "tag_std_of (Tag_report shape two R) = tg_std R"

text \<open>A report holds the aggregates of the requests of the pool since its start.\<close>

fun base_follows :: "u64 \<Rightarrow> pinba_stats_record pinba_pool \<Rightarrow> base_entry \<Rightarrow> bool" where
  "base_follows hs p (t, R) \<longleftrightarrow>
     (let w = report_window (\<lambda>i. request_view) (std R) p
      in if t = PINBA_TABLE_REPORT_INFO then info_models hs R w else base_type t \<and> base_models t hs R w)"

fun rtag_follows :: "u64 \<Rightarrow> pinba_stats_record pinba_pool \<Rightarrow> rtag_entry \<Rightarrow> bool" where
  "rtag_follows hs p (Rtag_info t R) \<longleftrightarrow>
     rt_tags R \<noteq> [] \<and> rtag_flat_models (rtag_flat_keyf t) hs R (report_window (\<lambda>i. request_view) (rt_std R) p)"
| "rtag_follows hs p (Rtag_report t R) \<longleftrightarrow>
     rt_tags R \<noteq> [] \<and> rtag_host_models (rtag_host_keyf t) hs R (report_window (\<lambda>i. request_view) (rt_std R) p)"

fun tag_follows ::
  "u64 \<Rightarrow> pinba_timer_record pinba_pool \<Rightarrow> pinba_stats_record pinba_pool \<Rightarrow> tag_entry \<Rightarrow> bool" where
  "tag_follows hs tp p (Tag_info shape R) \<longleftrightarrow>
     tag_flat_models (tag_spec shape Info) hs R (report_window (timer_item tp) (tg_std R) p)"
| "tag_follows hs tp p (Tag_report shape two R) \<longleftrightarrow>
     tag_script_models (tag_spec shape (report_level two)) hs R (report_window (timer_item tp) (tg_std R) p)"

text \<open>The timers of a request are such that a report can form its keys.\<close>

fun tag_fits :: "pinba_stats_record \<Rightarrow> pinba_timer_record list \<Rightarrow> tag_entry \<Rightarrow> bool" where
  "tag_fits r ts (Tag_info shape R) \<longleftrightarrow>
     ids_ok shape (tg_tag_id R) \<and> list_all (tag_timer_ok shape Info (tg_tag_id R) r) ts"
| "tag_fits r ts (Tag_report shape two R) \<longleftrightarrow>
     ids_ok shape (tg_tag_id R) \<and> list_all (tag_timer_ok shape (report_level two) (tg_tag_id R) r) ts"

definition tags_fit ::
  "pinba_timer_record pinba_pool \<Rightarrow> pinba_stats_record pinba_pool \<Rightarrow> tag_entry \<Rightarrow> bool" where
  "tags_fit tp p e \<longleftrightarrow> (\<forall>i \<in> set (cells p). tag_fits (pdata p ! i) (record_timers tp (pdata p ! i)) e)"

definition stored_tags :: "pinba_timer_record list \<Rightarrow> nat" where
  "stored_tags ts = (\<Sum>t \<leftarrow> ts. length (timer_tags t))"

definition stored_words :: "pinba_stats_record list \<Rightarrow> nat multiset" where
  "stored_words rs = mset (concat (map (\<lambda>r. map word_addr (dictionary_words r)) rs))"

text \<open>A cell that holds no stored request owns no words.\<close>

definition unused_wordless :: "pinba_stats_record pinba_pool \<Rightarrow> bool" where
  "unused_wordless p \<longleftrightarrow> (\<forall>i < length (pdata p). i \<notin> set (cells p) \<longrightarrow> dictionary_words (pdata p ! i) = [])"

definition daemon_ok :: "u64 \<Rightarrow> u64 \<Rightarrow> bool \<Rightarrow> nat multiset \<Rightarrow> pinba_timeval \<Rightarrow> pinba_daemon \<Rightarrow> bool" where
  "daemon_ok hs word_size gc others tm D \<longleftrightarrow>
     registry_ok gc (registry D) \<and> unused_wordless (request_pool D) \<and>
     requests_ok tm (request_pool_counter D) (request_pool D) \<and>
     timers_ok (timer_pool D) (request_pool D) \<and>
     (\<forall>e \<in> set (base_reports D). base_follows hs (request_pool D) e \<and> started_before tm (request_pool_counter D) (base_std e)) \<and>
     (\<forall>e \<in> set (rtag_reports D). rtag_follows hs (request_pool D) e \<and> started_before tm (request_pool_counter D) (rtag_std_of e)) \<and>
     (\<forall>e \<in> set (tag_reports D). tag_follows hs (timer_pool D) (request_pool D) e \<and>
        started_before tm (request_pool_counter D) (tag_std_of e) \<and> tags_fit (timer_pool D) (request_pool D) e) \<and>
     timertags_cnt D = of_nat (stored_tags (ring (timer_pool D))) \<and>
     dictionary_ok word_size (others + stored_words (ring (request_pool D))) (dictionary D)"

section \<open>One report through an expiration\<close>

text \<open>The pool \<open>q\<close> has lost the \<open>n\<close> oldest requests of \<open>p\<close>.\<close>

definition expires :: "nat \<Rightarrow> pinba_stats_record pinba_pool \<Rightarrow> pinba_stats_record pinba_pool \<Rightarrow> bool" where
  "expires n p q \<longleftrightarrow>
     n \<le> pinba_pool_num_records p \<and> psize q = psize p \<and> cells q = drop n (cells p) \<and>
     (\<forall>i \<in> set (take n (cells p)). \<exists>a. pdata q ! i = (pdata p ! i)\<lparr>active := a\<rparr>) \<and>
     (\<forall>i \<in> set (cells q). pdata q ! i = pdata p ! i) \<and>
     length (pdata q) = length (pdata p) \<and> (\<forall>i. i \<notin> set (take n (cells p)) \<longrightarrow> pdata q ! i = pdata p ! i)"

definition expire_job :: "nat \<Rightarrow> pinba_stats_record pinba_pool \<Rightarrow> report_job" where
  "expire_job n p = \<lparr>job_prefix = pout p, job_count = n, job_add = False\<rparr>"

lemma window_ok_pool:
  assumes "requests_ok tm c p"
  shows "window_ok (taken (\<lambda>i. request_view) s p (cells p))"
proof -
  have "length (cells p) < psize p" using assms length_cells [of p] num_records_less [of p] by (simp add: requests_ok_def)
  then have "length (taken (\<lambda>i. request_view) s p (cells p)) < WINDOW_MAX"
    using assms by (auto simp: taken_def requests_ok_def intro: le_less_trans [OF length_filter_le])
  moreover have "\<forall>i \<in> set (cells p). record_ok (pdata p ! i)" using assms by (auto simp: requests_ok_def ring_def)
  ultimately show ?thesis by (auto simp: window_ok_def list_all_iff taken_def)
qed

lemma expire_base:
  assumes p: "requests_ok tm c p" and x: "expires n p q" and f: "base_follows (env_hs e) p entry"
  shows "base_follows (env_hs e) q (base_job e q (expire_job n p) entry) \<and>
     same_start (base_std entry) (base_std (base_job e q (expire_job n p) entry))"
proof -
  obtain t R where entry: "entry = (t, R)" by (cases entry)
  have pk: "pool_ok p" and n: "n \<le> pinba_pool_num_records p" and q: "psize q = psize p" "cells q = drop n (cells p)"
    and old: "\<forall>i \<in> set (take n (cells p)). \<exists>a. pdata q ! i = (pdata p ! i)\<lparr>active := a\<rparr>"
    and kept: "\<forall>i \<in> set (cells q). pdata q ! i = pdata p ! i"
    using p x by (auto simp: expires_def requests_ok_def)
  note w = window_ok_pool [OF p, of "std R"]
  show ?thesis
  proof (cases "t = PINBA_TABLE_REPORT_INFO")
    case True
    then show ?thesis
      using info_feed.expire_report [where R = R and hs = "env_hs e" and run = True, OF pk n q old kept _ _ w _ refl] f
      by (simp add: entry base_job_def info_job_funcs expire_job_def)
  next
    case False
    then have t: "base_type t" using f by (simp add: entry Let_def)
    show ?thesis
      using base_feed.expire_report [where R = R and hs = "env_hs e" and t = t and run = True, OF pk n q old kept _ _ w _ refl] f t False
      by (simp add: entry base_job_def base_job_funcs [OF t] expire_job_def)
  qed
qed

lemma job_delete_func:
  "update_reports_func get_std upd_std add del ru0 ru1 q (expire_job n p) R =
   update_reports_func get_std upd_std add' del ru0 ru1 q (expire_job n p) R"
  by (simp add: update_reports_func_def expire_job_def)

lemma expire_rtag:
  assumes p: "requests_ok tm c p" and x: "expires n p q" and f: "rtag_follows (env_hs e) p entry"
    and skip: "\<not> run \<Longrightarrow> \<forall>i \<in> set (take n (cells p)). tags (pdata p ! i) = []"
    and res: "entry' = (if run then rtag_job e q (expire_job n p) entry else entry)"
  shows "rtag_follows (env_hs e) q entry' \<and> same_start (rtag_std_of entry) (rtag_std_of entry')"
proof -
  have pk: "pool_ok p" and n: "n \<le> pinba_pool_num_records p" and q: "psize q = psize p" "cells q = drop n (cells p)"
    and old: "\<forall>i \<in> set (take n (cells p)). \<exists>a. pdata q ! i = (pdata p ! i)\<lparr>active := a\<rparr>"
    and kept: "\<forall>i \<in> set (cells q). pdata q ! i = pdata p ! i"
    using p x by (auto simp: expires_def requests_ok_def)
  have idle: "\<forall>i \<in> set (take n (cells p)). tags (request_view (pdata p ! i)) = []" if "\<not> run"
    using skip [OF that] by (simp add: request_view_def)
  show ?thesis
  proof (cases entry)
    case (Rtag_info t R)
    let ?R = "if run then update_reports_func rt_std upd_rtag_std
       (\<lambda>i R r. rtag_flat_add (env_hs e) True (rtag_flat_keyf t (rt_tags R) (request_view r)) R (request_view r))
       (\<lambda>i R r. rtag_flat_delete (env_hs e) (rtag_flat_keyf t (rt_tags R) (request_view r)) R (request_view r))
       (env_ru0 e) (env_ru1 e) q (expire_job n p) R else R"
    have "entry' = Rtag_info t ?R"
      unfolding res Rtag_info rtag_job.simps rtag_job_funcs(2)
      by (auto intro: job_delete_func)
    then show ?thesis
      using rtag_flat_feed.expire_report [where R = R and hs = "env_hs e" and t = t and run = run and ?ru0.0 = "env_ru0 e" and ?ru1.0 = "env_ru1 e", OF pk n q old kept _ _ window_ok_pool [OF p] idle refl] f
      by (cases run) (simp_all add: Rtag_info expire_job_def)
  next
    case (Rtag_report t R)
    let ?R = "if run then update_reports_func rt_std upd_rtag_std
       (\<lambda>i R r. rtag_host_add (env_hs e) True (rtag_host_keyf t (rt_tags R) (request_view r)) R (request_view r))
       (\<lambda>i R r. rtag_host_delete (env_hs e) (rtag_host_keyf t (rt_tags R) (request_view r)) R (request_view r))
       (env_ru0 e) (env_ru1 e) q (expire_job n p) R else R"
    have "entry' = Rtag_report t ?R"
      unfolding res Rtag_report rtag_job.simps rtag_job_funcs(4)
      by (auto intro: job_delete_func)
    then show ?thesis
      using rtag_host_feed.expire_report [where R = R and hs = "env_hs e" and t = t and run = run and ?ru0.0 = "env_ru0 e" and ?ru1.0 = "env_ru1 e", OF pk n q old kept _ _ window_ok_pool [OF p] idle refl] f
      by (cases run) (simp_all add: Rtag_report expire_job_def)
  qed
qed

text \<open>The cells of the pool are distinct slots, so a timer-tag report handles its window.\<close>

lemma cells_slots:
  assumes "pool_ok p" and "psize p \<le> 2 ^ 31"
  shows "distinct (map (\<lambda>i. of_nat i :: u64) (cells p))" and "i \<in> set (cells p) \<Longrightarrow> (of_nat i :: u64) \<noteq> - 1"
proof -
  have b: "i < 2 ^ 31" if "i \<in> set (cells p)" for i using cells_bound [OF assms(1) that] assms(2) by simp
  then show "distinct (map (\<lambda>i. of_nat i :: u64) (cells p))"
    using distinct_cells [OF assms(1)] of_nat_ne by (auto simp: distinct_map inj_on_def)
  show "(of_nat i :: u64) \<noteq> - 1" if "i \<in> set (cells p)"
  proof
    assume "(of_nat i :: u64) = - 1"
    then have "unat (of_nat i :: u64) = unat (- 1 :: u64)" by simp
    then show False using b [OF that] by (simp add: unat_of_nat_word64 unsigned_minus_1_eq_mask mask_eq_exp_minus_1)
  qed
qed

lemma tag_good_pool:
  assumes p: "requests_ok tm c p" "psize p \<le> 2 ^ 31" and ids: "ids_ok shape (tg_tag_id R)"
    and fit: "\<forall>i \<in> set (cells p). list_all (tag_timer_ok shape level (tg_tag_id R) (pdata p ! i)) (record_timers tp (pdata p ! i))"
  shows "tag_good (shape_keyf shape level True) (shape_keyf shape level False) (tag_spec shape level) R
    (taken (timer_item tp) s p (cells p))"
proof -
  have pk: "pool_ok p" using p by (simp add: requests_ok_def)
  let ?js = "filter (\<lambda>i. CHECK_REPORT_CONDITIONS s (pdata p ! i)) (cells p)"
  have fst: "map fst (taken (timer_item tp) s p (cells p)) = map (\<lambda>i. of_nat i) ?js"
    by (simp add: taken_def timer_item_def)
  have ok: "tag_timer_ok shape level (tg_tag_id R) (request_view r) t = tag_timer_ok shape level (tg_tag_id R) r t" for r t
    by (simp add: tag_timer_ok_def report2_room_def host_server_prefix_def request_view_def split: option.splits)
  have each: "(of_nat i :: u64) \<noteq> - 1 \<and> list_all timer_ok (record_timers tp (pdata p ! i)) \<and>
      list_all (\<lambda>t. key_agrees (shape_keyf shape level True) (tag_spec shape level (tg_tag_id R)) (tg_tag_id R) (request_view (pdata p ! i)) t \<and>
        key_agrees (shape_keyf shape level False) (tag_spec shape level (tg_tag_id R)) (tg_tag_id R) (request_view (pdata p ! i)) t)
        (record_timers tp (pdata p ! i))" if "i \<in> set (cells p)" for i
  proof -
    have r: "record_ok (request_view (pdata p ! i))" using p(1) that by (simp add: requests_ok_def ring_def)
    have ts: "\<forall>t \<in> set (record_timers tp (pdata p ! i)). tag_timer_ok shape level (tg_tag_id R) (request_view (pdata p ! i)) t"
      using fit that unfolding ok by (simp add: list_all_iff)
    then show ?thesis
      using shape_key_agrees [OF r ids] cells_slots(2) [OF pk p(2) that] unfolding list_all_iff tag_timer_ok_def by blast
  qed
  have "list_all (\<lambda>(rid, record, ts). rid \<noteq> - 1 \<and> list_all timer_ok ts \<and>
      list_all (\<lambda>t. key_agrees (shape_keyf shape level True) (tag_spec shape level (tg_tag_id R)) (tg_tag_id R) record t \<and>
                    key_agrees (shape_keyf shape level False) (tag_spec shape level (tg_tag_id R)) (tg_tag_id R) record t) ts)
      (taken (timer_item tp) s p (cells p))"
    unfolding taken_def timer_item_def list_all_iff [of _ "map _ _"] using each by simp
  moreover have "distinct (map fst (taken (timer_item tp) s p (cells p)))"
    unfolding fst using cells_slots(1) [OF pk p(2)] by (rule distinct_map_filter)
  moreover have "length (taken (timer_item tp) s p (cells p)) < WINDOW_MAX"
    using p length_cells [OF pk] num_records_less [OF pk]
    by (auto simp: taken_def requests_ok_def intro: le_less_trans [OF length_filter_le])
  ultimately show ?thesis unfolding tag_good_def by blast
qed

lemma expire_tag:
  assumes p: "requests_ok tm c p" "psize p \<le> 2 ^ 31" and x: "expires n p q"
    and f: "tag_follows (env_hs e) tp p entry" and fit: "tags_fit tp p entry"
    and skip: "\<not> run \<Longrightarrow> \<forall>i \<in> set (take n (cells p)). record_timers tp (pdata p ! i) = []"
    and res: "entry' = (if run then tag_job e tp q (expire_job n p) entry else entry)"
  shows "tag_follows (env_hs e) tp q entry' \<and> same_start (tag_std_of entry) (tag_std_of entry') \<and>
     (\<forall>r ts. tag_fits r ts entry' = tag_fits r ts entry)"
proof -
  have pk: "pool_ok p" and n: "n \<le> pinba_pool_num_records p" and q: "psize q = psize p" "cells q = drop n (cells p)"
    and old: "\<forall>i \<in> set (take n (cells p)). \<exists>a. pdata q ! i = (pdata p ! i)\<lparr>active := a\<rparr>"
    and kept: "\<forall>i \<in> set (cells q). pdata q ! i = pdata p ! i"
    using p x by (auto simp: expires_def requests_ok_def)
  have idle: "\<forall>i \<in> set (take n (cells p)). snd (snd (timer_item tp i (pdata p ! i))) = []" if "\<not> run"
    using skip [OF that] by (simp add: timer_item_def)
  note good = tag_good_pool [OF p]
  have none: "cells p = [] \<Longrightarrow> tag_good ka kb K R (taken (timer_item tp) s p (cells p))"
    for ka kb K s and R :: "'m pinba_tag_report"
    by (simp add: taken_def tag_good_def WINDOW_MAX_def)
  show ?thesis
  proof (cases entry)
    case (Tag_info shape R)
    let ?add = "\<lambda>i R r. case timer_item tp i r of (rid, record, ts) \<Rightarrow>
        tag_flat_add (shape_keyf shape Info True) (env_hs e) (\<lambda>_. True) rid record ts R"
    let ?del = "\<lambda>i R r. case timer_item tp i r of (rid, record, ts) \<Rightarrow>
        tag_flat_delete (shape_keyf shape Info False) (env_hs e) rid record ts R"
    have g: "tag_good (shape_keyf shape Info True) (shape_keyf shape Info False) (tag_spec shape Info) R
        (taken (timer_item tp) (tg_std R) p (cells p))"
      using good [of shape R Info tp] none fit by (cases "cells p") (auto simp: Tag_info tags_fit_def)
    have "entry' = Tag_info shape (if run then update_reports_func tg_std upd_tag_std ?add ?del
        (env_ru0 e) (env_ru1 e) q (expire_job n p) R else R)"
      unfolding res Tag_info tag_job.simps tag_job_funcs(2)
      by (auto intro: job_delete_func)
    then show ?thesis
      using tag_flat_feed.expire_report [where R = R and ids = "tg_tag_id R" and hs = "env_hs e" and run = run and ?ru0.0 = "env_ru0 e" and ?ru1.0 = "env_ru1 e", OF pk n q old kept _ _ g idle refl] f
      by (cases run) (simp_all add: Tag_info expire_job_def)
  next
    case (Tag_report shape two R)
    let ?add = "\<lambda>i R r. case timer_item tp i r of (rid, record, ts) \<Rightarrow>
        tag_script_add (shape_keyf shape (report_level two) True) (env_hs e) (\<lambda>_. True) rid record ts R"
    let ?del = "\<lambda>i R r. case timer_item tp i r of (rid, record, ts) \<Rightarrow>
        tag_script_delete (shape_keyf shape (report_level two) False) (env_hs e) rid record ts R"
    have g: "tag_good (shape_keyf shape (report_level two) True) (shape_keyf shape (report_level two) False)
        (tag_spec shape (report_level two)) R (taken (timer_item tp) (tg_std R) p (cells p))"
      using good [of shape R "report_level two" tp] none fit by (cases "cells p") (auto simp: Tag_report tags_fit_def)
    have "entry' = Tag_report shape two (if run then update_reports_func tg_std upd_tag_std ?add ?del
        (env_ru0 e) (env_ru1 e) q (expire_job n p) R else R)"
      unfolding res Tag_report tag_job.simps tag_job_funcs(4)
      by (auto intro: job_delete_func)
    then show ?thesis
      using tag_script_feed.expire_report [where R = R and ids = "tg_tag_id R" and hs = "env_hs e" and run = run and ?ru0.0 = "env_ru0 e" and ?ru1.0 = "env_ru1 e", OF pk n q old kept _ _ g idle refl] f
      by (cases run) (simp_all add: Tag_report expire_job_def)
  qed
qed

end
