(* ===== verification/Daemon_Expire.thy ===== *)
theory Daemon_Expire
  imports Daemon_Invariant
begin

text \<open>
  One round of the statistics thread keeps the invariant of the daemon: the requests older than
  the limit leave the pool and every report, their timers leave the timer pool, and the words
  they held are released.
\<close>

section \<open>The request pool\<close>

lemma expired_take:
  "expired_cells since p = take (length (expired_cells since p)) (cells p)"
  unfolding expired_cells_def by (rule takeWhile_eq_take)

lemma expired_le: "pool_ok p \<Longrightarrow> length (expired_cells since p) \<le> pinba_pool_num_records p"
  using length_takeWhile_le [of _ "cells p"] by (simp add: expired_cells_def flip: length_cells)

lemma delete_old_expires:
  assumes ok: "pool_ok p"
    and n: "n = length (expired_cells since p)"
    and q: "q = p\<lparr>pdata := deactivate (expired_cells since p) (pdata p), pout := advance p (pout p) n\<rparr>"
  shows "expires n p q" and "pool_ok q" and "pinba_pool_num_records q = pinba_pool_num_records p - n"
    and "(if pout q = pout p then 0 else if pout q > pout p then pout q - pout p else psize q - (pout p - pout q)) = n"
proof -
  have le: "n \<le> pinba_pool_num_records p" using expired_le [OF ok] n by simp
  have js: "expired_cells since p = take n (cells p)" using expired_take n by simp
  have dist: "distinct (expired_cells since p)" using distinct_cells [OF ok] js by (simp add: distinct_take)
  note d = deactivate_props [OF dist, of "pdata p"]
  have "cells q = cells (p\<lparr>pout := advance p (pout p) n\<rparr>)" unfolding q cells_def by simp
  then have c: "cells q = drop n (cells p)" using pop_cells(2) [OF ok le] by simp
  show okq: "pool_ok q" using pop_cells(1) [OF ok le] d by (simp add: q pool_ok_def)
  have "set (take n (cells p)) \<inter> set (drop n (cells p)) = {}"
    using distinct_cells [OF ok] by (rule set_take_disj_set_drop_if_distinct) simp
  then have "\<forall>i \<in> set (cells q). pdata q ! i = pdata p ! i" using d js c by (auto simp: q)
  moreover have "\<forall>i \<in> set (take n (cells p)). \<exists>a. pdata q ! i = (pdata p ! i)\<lparr>active := a\<rparr>"
  proof
    fix i assume "i \<in> set (take n (cells p))"
    then have "pdata q ! i = (pdata p ! i)\<lparr>active := False\<rparr> \<or> pdata q ! i = (pdata p ! i)\<lparr>active := active (pdata p ! i)\<rparr>"
      using d by (simp add: q)
    then show "\<exists>a. pdata q ! i = (pdata p ! i)\<lparr>active := a\<rparr>" by blast
  qed
  moreover have "\<forall>i. i \<notin> set (take n (cells p)) \<longrightarrow> pdata q ! i = pdata p ! i" using d js by (simp add: q)
  ultimately show "expires n p q" using le c d by (simp add: expires_def q)
  show "pinba_pool_num_records q = pinba_pool_num_records p - n"
    using length_cells [OF ok] length_cells [OF okq] c by simp
  show "(if pout q = pout p then 0 else if pout q > pout p then pout q - pout p else psize q - (pout p - pout q)) = n"
    using ok le num_records_less [OF ok] by (auto simp: q advance_def pool_ok_def)
qed

lemma expires_requests_ok: "requests_ok tm c p \<Longrightarrow> expires n p q \<Longrightarrow> pool_ok q \<Longrightarrow> requests_ok tm c q"
proof -
  assume p: "requests_ok tm c p" and x: "expires n p q" and q: "pool_ok q"
  have "ring q = drop n (ring p)" using x by (auto simp: expires_def ring_def drop_map)
  then show ?thesis using p x q
    by (auto simp: requests_ok_def expires_def arrival_ordered_def sorted_wrt_drop dest: in_set_dropD)
qed

text \<open>What a report follows depends on the cells of the pool and their timers only.\<close>

lemma follows_cong:
  assumes c: "cells q' = cells q" and d: "\<forall>i \<in> set (cells q). pdata q' ! i = pdata q ! i"
  shows "base_follows hs q' b = base_follows hs q b" and "rtag_follows hs q' rt = rtag_follows hs q rt"
    and "\<forall>i \<in> set (cells q). record_timers tq (pdata q ! i) = record_timers tp (pdata q ! i) \<Longrightarrow>
      tag_follows hs tq q' t = tag_follows hs tp q t \<and> tags_fit tq q' t = tags_fit tp q t"
    and "ring q' = ring q"
proof -
  have w: "report_window (\<lambda>i. request_view) s q' = report_window (\<lambda>i. request_view) s q" for s
    by (rule report_window_cong) (use c d in auto)
  show "base_follows hs q' b = base_follows hs q b" by (cases b) (simp add: Let_def w)
  show "rtag_follows hs q' rt = rtag_follows hs q rt" by (cases rt) (simp_all add: w)
  show "tag_follows hs tq q' t = tag_follows hs tp q t \<and> tags_fit tq q' t = tags_fit tp q t"
    if t: "\<forall>i \<in> set (cells q). record_timers tq (pdata q ! i) = record_timers tp (pdata q ! i)"
  proof -
    have "report_window (timer_item tq) s q' = report_window (timer_item tp) s q" for s
      by (rule report_window_cong) (use c d t in \<open>auto simp: timer_item_def\<close>)
    then show ?thesis using c d t by (cases t) (simp_all add: tags_fit_def)
  qed
  show "ring q' = ring q" using c d by (simp add: ring_def)
qed

section \<open>The words\<close>

lemma release_expired_ok:
  assumes "i < psize p" and "n \<le> psize p"
    and "dictionary_ok word_size (owners + stored_words (map (\<lambda>k. pdata p ! advance p i k) [0..<n])) d"
    and "release_expired i n p d = (q, d')"
  shows "(\<exists>dat. q = p\<lparr>pdata := dat\<rparr> \<and> length dat = length (pdata p) \<and>
      (\<forall>j. j \<notin> set (map (advance p i) [0..<n]) \<longrightarrow> dat ! j = pdata p ! j) \<and>
      (\<forall>j \<in> set (map (advance p i) [0..<n]). j < length (pdata p) \<longrightarrow> dictionary_words (dat ! j) = [])) \<and>
    dictionary_ok word_size owners d'"
  using assms
proof (induction n arbitrary: i p d)
  case 0
  then show ?case by (auto simp: stored_words_def intro!: exI [of _ "pdata p"])
next
  case (Suc n)
  let ?r = "pdata p ! i"
  let ?p = "p\<lparr>pdata := (pdata p)[i := fst (pinba_record_release_words ?r d)]\<rparr>"
  let ?i = "if i + 1 = psize p then 0 else i + 1"
  have i: "?i < psize ?p" using Suc.prems(1) by auto
  have adv: "advance ?p ?i k = advance p i (Suc k)" and ne: "i \<noteq> advance p i (Suc k)" if "k < n" for k
    using that Suc.prems(1,2) by (auto simp: advance_def)
  have split: "map f [0..<Suc n] = f 0 # map (\<lambda>k. f (Suc k)) [0..<n]" for f :: "nat \<Rightarrow> 'z"
    by (simp add: upt_conv_Cons map_Suc_upt [symmetric] comp_def del: upt_Suc)
  have a0: "advance p i 0 = i" using Suc.prems(1) by (simp add: advance_def)
  have rest: "map (\<lambda>k. pdata ?p ! advance ?p ?i k) [0..<n] = map (\<lambda>k. pdata p ! advance p i (Suc k)) [0..<n]"
    using adv ne by (intro map_cong refl) (simp add: nth_update)
  have "dictionary_ok word_size
      ((owners + stored_words (map (\<lambda>k. pdata p ! advance p i (Suc k)) [0..<n])) + mset (map word_addr (dictionary_words ?r))) d"
    using Suc.prems(3) unfolding split by (simp add: stored_words_def a0 ac_simps)
  then have "dictionary_ok word_size (owners + stored_words (map (\<lambda>k. pdata ?p ! advance ?p ?i k) [0..<n]))
      (snd (pinba_record_release_words ?r d))"
    unfolding rest by (simp add: pinba_record_release_words_def releases_ok)
  moreover have "release_expired ?i n ?p (snd (pinba_record_release_words ?r d)) = (q, d')"
    using Suc.prems(4) by (simp add: split_beta)
  ultimately obtain dat where dat: "q = ?p\<lparr>pdata := dat\<rparr>" "length dat = length (pdata ?p)"
      "\<forall>j. j \<notin> set (map (advance ?p ?i) [0..<n]) \<longrightarrow> dat ! j = pdata ?p ! j"
      "\<forall>j \<in> set (map (advance ?p ?i) [0..<n]). j < length (pdata ?p) \<longrightarrow> dictionary_words (dat ! j) = []"
      and d': "dictionary_ok word_size owners d'"
    using Suc.IH [OF i, of "snd (pinba_record_release_words ?r d)"] Suc.prems(2) by auto
  have set: "set (map (advance p i) [0..<Suc n]) = insert i (set (map (advance ?p ?i) [0..<n]))"
    unfolding split using adv a0 by auto
  then have "\<forall>j. j \<notin> set (map (advance p i) [0..<Suc n]) \<longrightarrow> dat ! j = pdata p ! j"
    using dat(3) by (auto simp: nth_update)
  moreover have "dictionary_words (dat ! i) = []" if "i < length (pdata p)"
  proof -
    have "i \<notin> set (map (advance ?p ?i) [0..<n])" using adv ne by auto
    then have "dat ! i = pdata ?p ! i" using dat(3) by blast
    then show ?thesis using that by (simp add: pinba_record_release_words_def)
  qed
  then have "\<forall>j \<in> set (map (advance p i) [0..<Suc n]). j < length (pdata p) \<longrightarrow> dictionary_words (dat ! j) = []"
    unfolding set using dat(4) by auto
  ultimately show ?case using dat d' by auto
qed

section \<open>The timers\<close>

lemma timer_cells_active [simp]: "timer_cells tp (r\<lparr>active := a\<rparr>) = timer_cells tp r"
  by (simp add: timer_cells_def record_get_timer_id_def [abs_def])

lemma stored_tags_append: "stored_tags (xs @ ys) = stored_tags xs + stored_tags ys"
  by (simp add: stored_tags_def)

lemma stored_tags_take_drop: "stored_tags (take k ts) + stored_tags (drop k ts) = stored_tags ts"
  using stored_tags_append [of "take k ts" "drop k ts"] by simp

lemma timers_laid:
  assumes tk: "timers_ok tp p" and d: "d = timers_sum (pdata p) (take n (cells p))"
  shows "concat (map (\<lambda>i. timer_cells tp (pdata p ! i)) (take n (cells p))) = take d (cells tp)"
    and "laid tp (pdata p) d (drop n (cells p))" and "d \<le> pinba_pool_num_records tp"
proof -
  have ok: "pool_ok tp" and laid: "laid tp (pdata p) 0 (take n (cells p) @ drop n (cells p))"
    using tk by (simp_all add: timers_ok_def)
  note l = laid_cells [OF ok laid, folded d]
  then show rest: "laid tp (pdata p) d (drop n (cells p))" by simp
  then show le: "d \<le> pinba_pool_num_records tp" by (rule laid_bound)
  show "concat (map (\<lambda>i. timer_cells tp (pdata p ! i)) (take n (cells p))) = take d (cells tp)"
    using l le by (simp add: cells_mod [OF ok] take_map)
qed

lemma clear_expired:
  assumes tk: "timers_ok tp p" and x: "expires n p q" and th: "0 < threads"
    and small: "stored_tags (ring tp) < 2 ^ 32" and d: "d = timers_sum (pdata p) (take n (cells p))"
  shows "clear_jobs q (pout p) (job_sizes (thread_job_size threads n) n threads 0) tp =
     (stored_tags (take d (ring tp)), tp\<lparr>pdata := cleared (take d (cells tp)) (pdata tp)\<rparr>)"
proof -
  have ok: "pool_ok tp" "pool_ok p" using tk by (simp_all add: timers_ok_def)
  have n: "n \<le> pinba_pool_num_records p" and size: "psize q = psize p"
    and old: "\<forall>i \<in> set (take n (cells p)). \<exists>a. pdata q ! i = (pdata p ! i)\<lparr>active := a\<rparr>"
    using x by (simp_all add: expires_def)
  have "map (\<lambda>k. timer_cells tp (pdata q ! advance q (pout p) k)) [0..<n] =
      map (\<lambda>i. timer_cells tp (pdata q ! i)) (map (advance q (pout p)) [0..<n])" by simp
  also have "\<dots> = map (\<lambda>i. timer_cells tp (pdata p ! i)) (take n (cells p))"
    unfolding info_feed.cells_prefix [OF ok(2) n size] using old by (auto intro!: map_cong)
  finally have js: "concat (map (\<lambda>k. timer_cells tp (pdata q ! advance q (pout p) k)) [0..<n]) = take d (cells tp)"
    using timers_laid(1) [OF tk d] by simp
  have "distinct (take d (cells tp))" "\<forall>j \<in> set (take d (cells tp)). j < length (pdata tp)"
    using distinct_cells [OF ok(1)] cells_bound [OF ok(1)] ok(1) by (auto simp: pool_ok_def dest: in_set_takeD)
  note eq = clear_cells_eq [OF this, of 0]
  have sum: "(\<Sum>j \<leftarrow> take d (cells tp). length (timer_tags (pdata tp ! j))) = stored_tags (take d (ring tp))"
    by (simp add: stored_tags_def ring_def take_map comp_def)
  have "pout p < psize q" "n \<le> psize q" using ok(2) n size num_records_less [OF ok(2)] by (auto simp: pool_ok_def)
  then show ?thesis
    using clear_jobs_cells [of "pout p" q 0 "job_sizes (thread_job_size threads n) n threads 0" tp]
      stored_tags_take_drop [of d "ring tp"] small
    unfolding thread_jobs_cover [OF th] by (simp add: js eq sum)
qed

lemma timers_expired:
  assumes tk: "timers_ok tp p" and x: "expires n p q" and q: "pool_ok q"
    and d: "d = timers_sum (pdata p) (take n (cells p))"
    and tq: "tq = tp\<lparr>pdata := cleared (take d (cells tp)) (pdata tp), pout := advance tp (pout tp) d\<rparr>"
  shows "timers_ok tq q" and "ring tq = drop d (ring tp)"
    and "\<forall>i \<in> set (cells q). record_timers tq (pdata q ! i) = record_timers tp (pdata q ! i)"
proof -
  have ok: "pool_ok tp" using tk by (simp add: timers_ok_def)
  note l = timers_laid(2,3) [OF tk d]
  have "cells tq = cells (tp\<lparr>pout := advance tp (pout tp) d\<rparr>)" unfolding tq cells_def by simp
  then have c: "cells tq = drop d (cells tp)" using pop_cells(2) [OF ok l(2)] by simp
  have disj: "set (take d (cells tp)) \<inter> set (drop d (cells tp)) = {}"
    using distinct_cells [OF ok] by (rule set_take_disj_set_drop_if_distinct) simp
  have kept: "pdata tq ! i = pdata tp ! i" if "i \<in> set (drop d (cells tp))" for i
    using that disj cells_bound [OF ok in_set_dropD [OF that]] ok by (auto simp: tq cleared_def pool_ok_def)
  then show "ring tq = drop d (ring tp)" unfolding ring_def c drop_map by (auto intro!: map_cong)
  have at: "(pout tp + k) mod psize tp \<in> set (drop d (cells tp))" if "d \<le> k" "k < pinba_pool_num_records tp" for k
  proof -
    have "drop d (cells tp) ! (k - d) = (pout tp + k) mod psize tp" "k - d < length (drop d (cells tp))"
      using that length_cells [OF ok] by (simp_all add: cells_mod [OF ok])
    then show ?thesis using nth_mem by metis
  qed
  have "laid tq (pdata q) 0 (cells q) \<and>
      (\<forall>i \<in> set (cells q). record_timers tq (pdata q ! i) = record_timers tp (pdata p ! i))"
    using x l(1) kept at by (intro laid_pop [OF ok l(2)]) (simp_all add: tq expires_def)
  moreover have "pool_ok tq" using pop_cells(1) [OF ok l(2)] ok by (simp add: tq pool_ok_def cleared_def)
  ultimately show "timers_ok tq q"
    "\<forall>i \<in> set (cells q). record_timers tq (pdata q ! i) = record_timers tp (pdata q ! i)"
    using tk q x by (simp_all add: timers_ok_def tq expires_def)
qed

section \<open>A round keeps the invariant\<close>

lemma started_same: "same_start s s' \<Longrightarrow> started_before tm c s' = started_before tm c s"
  by (simp add: same_start_def started_before_def)

text \<open>What a round leaves, when requests have expired.\<close>

lemma stats_expire_eq:
  assumes p: "p = request_pool D" "pool_ok p" and n: "n = length (expired_cells since p)" "0 < n"
    and q: "q = p\<lparr>pdata := deactivate (expired_cells since p) (pdata p), pout := advance p (pout p) n\<rparr>"
    and d: "d = (\<Sum>i \<leftarrow> expired_cells since p. unat (timers_cnt (pdata p ! i)))"
    and rel: "release_expired (pout p) n q (dictionary D) = (p', words)"
    and clear: "clear_jobs q (pout p) (job_sizes (thread_job_size threads n) n threads 0) (timer_pool D) = (k, tq)"
  shows "pinba_stats_expire e threads since D = Some (D\<lparr>request_pool := p', dictionary := words,
     base_reports := map (base_job e q (expire_job n p)) (base_reports D),
     rtag_reports := (if (\<Sum>i \<leftarrow> expired_cells since p. length (tags (pdata p ! i))) \<noteq> 0
        then map (rtag_job e q (expire_job n p)) (rtag_reports D) else rtag_reports D),
     tag_reports := (if 0 < d then map (tag_job e (timer_pool D) q (expire_job n p)) (tag_reports D) else tag_reports D),
     timer_pool := (if 0 < d then tq\<lparr>pout := advance tq (pout tq) d\<rparr> else timer_pool D),
     timertags_cnt := (if 0 < d then timertags_cnt D - of_nat k else timertags_cnt D)\<rparr>)"
proof -
  let ?g = "\<Sum>i \<leftarrow> expired_cells since p. length (tags (pdata p ! i))"
  have old: "pinba_request_pool_delete_old since p = Some (q, d, ?g)"
    using delete_old_result [OF p(2), of since] by (simp add: q d n(1))
  note num = delete_old_expires(4) [OF p(2) n(1) q]
  show ?thesis
    using rel clear n(2)
    by (cases "0 < d"; cases "?g \<noteq> 0")
      (simp_all only: pinba_stats_expire_def old p(1) [symmetric] num Let_def option.case prod.case expire_job_def,
       simp_all add: expire_timers_def)
qed

lemma expired_words:
  assumes ok: "pool_ok p" and x: "expires n p q" and q: "pool_ok q"
    and dict: "dictionary_ok word_size (others + stored_words (ring p)) w"
    and rel: "release_expired (pout p) n q w = (p', words)"
  shows "dictionary_ok word_size (others + stored_words (ring q)) words"
    and "\<exists>dat. p' = q\<lparr>pdata := dat\<rparr> \<and> length dat = length (pdata q) \<and> (\<forall>i \<in> set (cells q). dat ! i = pdata q ! i) \<and>
       (unused_wordless p \<longrightarrow> unused_wordless p')"
proof -
  have n: "n \<le> pinba_pool_num_records p" and size: "psize q = psize p" and c: "cells q = drop n (cells p)"
    and old: "\<forall>i \<in> set (take n (cells p)). \<exists>a. pdata q ! i = (pdata p ! i)\<lparr>active := a\<rparr>"
    and kept: "\<forall>i \<in> set (cells q). pdata q ! i = pdata p ! i"
    and rest: "length (pdata q) = length (pdata p)" "\<forall>i. i \<notin> set (take n (cells p)) \<longrightarrow> pdata q ! i = pdata p ! i"
    using x by (simp_all add: expires_def)
  have pre: "map (advance q (pout p)) [0..<n] = take n (cells p)" by (rule info_feed.cells_prefix [OF ok n size])
  have words: "map (\<lambda>r. map word_addr (dictionary_words r)) (map ((!) (pdata q)) (take n (cells p))) =
      map (\<lambda>r. map word_addr (dictionary_words r)) (map ((!) (pdata p)) (take n (cells p)))"
    using old by auto
  have "map (\<lambda>k. pdata q ! advance q (pout p) k) [0..<n] = map ((!) (pdata q)) (take n (cells p))"
    unfolding pre [symmetric] by simp
  then have "stored_words (map (\<lambda>k. pdata q ! advance q (pout p) k) [0..<n]) = stored_words (map ((!) (pdata p)) (take n (cells p)))"
    unfolding stored_words_def by (simp only: words)
  moreover have "stored_words (ring q) = stored_words (map ((!) (pdata p)) (drop n (cells p)))"
    using kept unfolding ring_def c stored_words_def by (auto intro!: arg_cong [of _ _ mset] arg_cong [of _ _ concat] map_cong)
  moreover have "stored_words (ring p) =
      stored_words (map ((!) (pdata p)) (take n (cells p))) + stored_words (map ((!) (pdata p)) (drop n (cells p)))"
    unfolding ring_def by (subst append_take_drop_id [of n "cells p", symmetric]) (simp add: stored_words_def del: append_take_drop_id)
  ultimately have "dictionary_ok word_size ((others + stored_words (ring q)) + stored_words (map (\<lambda>k. pdata q ! advance q (pout p) k) [0..<n])) w"
    using dict by (simp add: ac_simps)
  moreover have "pout p < psize q" "n \<le> psize q" using ok n size num_records_less [OF ok] by (auto simp: pool_ok_def)
  moreover have "set (take n (cells p)) \<inter> set (cells q) = {}"
    unfolding c using distinct_cells [OF ok] by (rule set_take_disj_set_drop_if_distinct) simp
  ultimately obtain dat where dat: "p' = q\<lparr>pdata := dat\<rparr>" "length dat = length (pdata q)"
      "\<forall>j. j \<notin> set (take n (cells p)) \<longrightarrow> dat ! j = pdata q ! j"
      "\<forall>j \<in> set (take n (cells p)). j < length (pdata q) \<longrightarrow> dictionary_words (dat ! j) = []"
      and w: "dictionary_ok word_size (others + stored_words (ring q)) words"
      and disj: "set (take n (cells p)) \<inter> set (cells q) = {}"
    using release_expired_ok [OF _ _ _ rel, of word_size "others + stored_words (ring q)"] unfolding pre by blast
  show "dictionary_ok word_size (others + stored_words (ring q)) words" by (rule w)
  have "unused_wordless p'" if u: "unused_wordless p"
    unfolding unused_wordless_def
  proof (intro allI impI)
    fix i assume i: "i < length (pdata p')" "i \<notin> set (cells p')"
    show "dictionary_words (pdata p' ! i) = []"
    proof (cases "i \<in> set (take n (cells p))")
      case True
      then show ?thesis using dat i by simp
    next
      case False
      then have "i \<notin> set (cells p)"
        using i(2) c dat(1) append_take_drop_id [of n "cells p"] by (metis Un_iff cells_data set_append)
      then have "dictionary_words (pdata p ! i) = []" and "pdata q ! i = pdata p ! i"
        using u i dat rest False by (auto simp: unused_wordless_def)
      then show ?thesis using dat False by simp
    qed
  qed
  then show "\<exists>dat. p' = q\<lparr>pdata := dat\<rparr> \<and> length dat = length (pdata q) \<and> (\<forall>i \<in> set (cells q). dat ! i = pdata q ! i) \<and>
       (unused_wordless p \<longrightarrow> unused_wordless p')"
    using dat disj by blast
qed

lemma expired_ring: "expires n p q \<Longrightarrow> ring q = drop n (ring p)"
  by (auto simp: expires_def ring_def drop_map)

lemma ring_expired: "drop (length (expired_cells since p)) (ring p) = dropWhile (expired since) (ring p)"
  unfolding ring_def expired_cells_def dropWhile_map drop_map dropWhile_eq_drop [symmetric] comp_def ..

lemma expire_bases:
  assumes p: "requests_ok tm c p" and x: "expires n p q"
    and f: "\<forall>b \<in> set rs. base_follows (env_hs e) p b \<and> started_before tm c (base_std b)"
    and b: "b \<in> set (map (base_job e q (expire_job n p)) rs)"
  shows "base_follows (env_hs e) q b \<and> started_before tm c (base_std b)"
proof -
  obtain a where a: "a \<in> set rs" "b = base_job e q (expire_job n p) a" using b by auto
  then show ?thesis using expire_base [OF p x, of e a] f started_same by blast
qed

lemma expire_rtags:
  assumes p: "requests_ok tm c p" and x: "expires n p q"
    and f: "\<forall>b \<in> set rs. rtag_follows (env_hs e) p b \<and> started_before tm c (rtag_std_of b)"
    and b: "b \<in> set (if (\<Sum>i \<leftarrow> take n (cells p). length (tags (pdata p ! i))) \<noteq> 0
       then map (rtag_job e q (expire_job n p)) rs else rs)"
  shows "rtag_follows (env_hs e) q b \<and> started_before tm c (rtag_std_of b)"
proof -
  define run where "run \<longleftrightarrow> (\<Sum>i \<leftarrow> take n (cells p). length (tags (pdata p ! i))) \<noteq> 0"
  obtain a where a: "a \<in> set rs" "b = (if run then rtag_job e q (expire_job n p) a else a)"
    using b unfolding run_def [symmetric] by (cases run) auto
  have "\<forall>i \<in> set (take n (cells p)). tags (pdata p ! i) = []" if "\<not> run"
    using that by (auto simp: run_def)
  then show ?thesis using expire_rtag [OF p x _ _ a(2)] f a(1) started_same by blast
qed

lemma expire_tags:
  assumes p: "requests_ok tm c p" "psize p \<le> 2 ^ 31" and x: "expires n p q"
    and f: "\<forall>b \<in> set rs. tag_follows (env_hs e) tp p b \<and> started_before tm c (tag_std_of b) \<and> tags_fit tp p b"
    and b: "b \<in> set (if 0 < timers_sum (pdata p) (take n (cells p)) then map (tag_job e tp q (expire_job n p)) rs else rs)"
  shows "tag_follows (env_hs e) tp q b \<and> started_before tm c (tag_std_of b) \<and> tags_fit tp q b"
proof -
  define run where "run \<longleftrightarrow> 0 < timers_sum (pdata p) (take n (cells p))"
  obtain a where a: "a \<in> set rs" "b = (if run then tag_job e tp q (expire_job n p) a else a)"
    using b by (auto simp: run_def [symmetric] split: if_splits)
  have "\<forall>i \<in> set (take n (cells p)). record_timers tp (pdata p ! i) = []" if "\<not> run"
    using that by (auto simp: run_def timers_sum_def record_timers_def)
  then have r: "tag_follows (env_hs e) tp q b \<and> same_start (tag_std_of a) (tag_std_of b) \<and>
      (\<forall>r ts. tag_fits r ts b = tag_fits r ts a)"
    using f a(1) by (intro expire_tag [OF p x _ _ _ a(2)]) blast+
  moreover have "tags_fit tp q b"
    using f a(1) r x unfolding tags_fit_def expires_def by (auto dest: in_set_dropD)
  ultimately show ?thesis using f a(1) started_same by blast
qed

text \<open>The timer pool and the count of its tags; nothing changes when no timer expired.\<close>

lemma timers_left:
  fixes tp :: "pinba_timer_record pinba_pool"
  defines "clear d \<equiv> tp\<lparr>pdata := cleared (take d (cells tp)) (pdata tp)\<rparr>"
  assumes tk: "timers_ok tp p" and tq: "tq = (clear d)\<lparr>pout := advance tp (pout tp) d\<rparr>"
  shows "(if 0 < d then (clear d)\<lparr>pout := advance (clear d) (pout (clear d)) d\<rparr> else tp) = tq"
    and "k = of_nat (stored_tags (ring tp)) \<Longrightarrow> ring tq = drop d (ring tp) \<Longrightarrow>
      (if 0 < d then k - of_nat (stored_tags (take d (ring tp))) else k) = (of_nat (stored_tags (ring tq)) :: u64)"
proof -
  have "tq = tp" if "d = 0"
  proof -
    have "cleared [] (pdata tp) = pdata tp" by (simp add: cleared_def map_nth)
    then show ?thesis using that tk unfolding tq clear_def by (simp add: advance_def timers_ok_def pool_ok_def)
  qed
  then show "(if 0 < d then (clear d)\<lparr>pout := advance (clear d) (pout (clear d)) d\<rparr> else tp) = tq"
  proof (cases "0 < d")
    case True
    then show ?thesis by (simp add: advance_def tq clear_def)
  qed simp
  assume k: "k = of_nat (stored_tags (ring tp))" and r: "ring tq = drop d (ring tp)"
  have "k = of_nat (stored_tags (take d (ring tp)) + stored_tags (drop d (ring tp)))"
    unfolding k stored_tags_take_drop ..
  then show "(if 0 < d then k - of_nat (stored_tags (take d (ring tp))) else k) = (of_nat (stored_tags (ring tq)) :: u64)"
    unfolding r by (simp add: stored_tags_def)
qed

lemma stats_expire_result:
  assumes D: "daemon_ok (env_hs e) word_size gc others tm D" and th: "0 < threads"
    and small: "stored_tags (ring (timer_pool D)) < 2 ^ 32"
  shows "\<exists>D'. pinba_stats_expire e threads since D = Some D' \<and> daemon_ok (env_hs e) word_size gc others tm D' \<and>
     ring (request_pool D') = dropWhile (expired since) (ring (request_pool D)) \<and>
     ring (timer_pool D') = drop (\<Sum>r \<leftarrow> takeWhile (expired since) (ring (request_pool D)). unat (timers_cnt r)) (ring (timer_pool D))"
proof -
  let ?p = "request_pool D" and ?tp = "timer_pool D" and ?hs = "env_hs e" and ?c = "request_pool_counter D"
  define n where n: "n = length (expired_cells since ?p)"
  define q where q: "q = ?p\<lparr>pdata := deactivate (expired_cells since ?p) (pdata ?p), pout := advance ?p (pout ?p) n\<rparr>"
  define d where d: "d = (\<Sum>i \<leftarrow> expired_cells since ?p. unat (timers_cnt (pdata ?p ! i)))"
  have rq: "requests_ok tm ?c ?p" and tk: "timers_ok ?tp ?p" using D by (simp_all add: daemon_ok_def)
  then have ok: "pool_ok ?p" and size: "psize ?p \<le> 2 ^ 31" by (simp_all add: requests_ok_def timers_ok_def)
  note x = delete_old_expires [OF ok n q]
  have js: "expired_cells since ?p = take n (cells ?p)" using expired_take n by simp
  have d': "d = timers_sum (pdata ?p) (take n (cells ?p))" unfolding d js timers_sum_def ..
  have sum: "(\<Sum>r \<leftarrow> takeWhile (expired since) (ring ?p). unat (timers_cnt r)) = d"
    by (simp add: d ring_def expired_cells_def takeWhile_map comp_def)
  have rgq: "ring q = dropWhile (expired since) (ring ?p)" using expired_ring [OF x(1)] ring_expired [of since ?p] n by simp
  show ?thesis
  proof (cases "n = 0")
    case True
    then have none: "expired_cells since ?p = []" and d0: "d = 0" and qp: "q = ?p"
      using ok by (simp_all add: n d q deactivate_def advance_def pool_ok_def)
    have "pinba_stats_expire e threads since D = Some D"
      using delete_old_result [OF ok, of since, folded n, folded q] none qp by (simp add: pinba_stats_expire_def Let_def)
    then show ?thesis using D rgq qp unfolding sum d0 by simp
  next
    case False
    obtain p' words where rel: "release_expired (pout ?p) n q (dictionary D) = (p', words)" by fastforce
    have dk: "dictionary_ok word_size (others + stored_words (ring ?p)) (dictionary D)" using D by (simp add: daemon_ok_def)
    note w = expired_words [OF ok x(1,2) dk rel]
    obtain dat where p': "p' = q\<lparr>pdata := dat\<rparr>" "length dat = length (pdata q)"
        "\<forall>i \<in> set (cells q). dat ! i = pdata q ! i" and unused: "unused_wordless p'"
      using w(2) D by (auto simp: daemon_ok_def)
    let ?clear = "?tp\<lparr>pdata := cleared (take d (cells ?tp)) (pdata ?tp)\<rparr>"
    define tq where tq: "tq = ?clear\<lparr>pout := advance ?tp (pout ?tp) d\<rparr>"
    note te = timers_expired [OF tk x(1,2) d', of tq, OF tq [simplified]]
    have clear: "clear_jobs q (pout ?p) (job_sizes (thread_job_size threads n) n threads 0) ?tp = (stored_tags (take d (ring ?tp)), ?clear)"
      by (rule clear_expired [OF tk x(1) th small d'])
    note pool = timers_left(1) [OF tk tq]
    have "timertags_cnt D = of_nat (stored_tags (ring ?tp))" using D by (simp add: daemon_ok_def)
    note tags = timers_left(2) [OF tk tq this te(2)]
    let ?D = "D\<lparr>request_pool := p', dictionary := words,
     base_reports := map (base_job e q (expire_job n ?p)) (base_reports D),
     rtag_reports := (if (\<Sum>i \<leftarrow> expired_cells since ?p. length (tags (pdata ?p ! i))) \<noteq> 0
        then map (rtag_job e q (expire_job n ?p)) (rtag_reports D) else rtag_reports D),
     tag_reports := (if 0 < d then map (tag_job e ?tp q (expire_job n ?p)) (tag_reports D) else tag_reports D),
     timer_pool := tq, timertags_cnt := of_nat (stored_tags (ring tq))\<rparr>"
    have res: "pinba_stats_expire e threads since D = Some ?D"
      using stats_expire_eq [OF refl ok n _ q d rel clear, of e] False unfolding pool tags by simp
    have c: "cells p' = cells q" and dq: "\<forall>i \<in> set (cells q). pdata p' ! i = pdata q ! i" using p' by simp_all
    note fc = follows_cong [OF c dq]
    have reps: "\<forall>b \<in> set (base_reports D). base_follows ?hs ?p b \<and> started_before tm ?c (base_std b)"
      "\<forall>b \<in> set (rtag_reports D). rtag_follows ?hs ?p b \<and> started_before tm ?c (rtag_std_of b)"
      "\<forall>b \<in> set (tag_reports D). tag_follows ?hs ?tp ?p b \<and> started_before tm ?c (tag_std_of b) \<and> tags_fit ?tp ?p b"
      using D by (simp_all add: daemon_ok_def)
    have tfc: "tag_follows ?hs tq p' t = tag_follows ?hs ?tp q t \<and> tags_fit tq p' t = tags_fit ?tp q t" for t
      using fc(3) [OF te(3)] .
    have "requests_ok tm ?c p'"
      using expires_requests_ok [OF rq x(1,2)] p' c fc(4) by (simp add: requests_ok_def pool_ok_def)
    moreover have "timers_ok tq p'"
      using te(1) p' c laid_cong [of tq "pdata q" 0 "cells q" "pdata p'"] by (simp add: timers_ok_def pool_ok_def)
    moreover have "\<forall>b \<in> set (base_reports ?D). base_follows ?hs p' b \<and> started_before tm ?c (base_std b)"
      unfolding fc(1) using expire_bases [OF rq x(1) reps(1)] by simp
    moreover have "\<forall>b \<in> set (rtag_reports ?D). rtag_follows ?hs p' b \<and> started_before tm ?c (rtag_std_of b)"
      unfolding fc(2) using expire_rtags [OF rq x(1) reps(2)] unfolding js by simp
    moreover have "\<forall>b \<in> set (tag_reports ?D). tag_follows ?hs tq p' b \<and> started_before tm ?c (tag_std_of b) \<and> tags_fit tq p' b"
      using expire_tags [OF rq size x(1) reps(3)] tfc unfolding d' by simp
    moreover have "dictionary_ok word_size (others + stored_words (ring p')) words" using w(1) fc(4) by simp
    ultimately have "daemon_ok ?hs word_size gc others tm ?D" using D unused by (simp add: daemon_ok_def)
    then show ?thesis using res rgq fc(4) te(2) unfolding sum by simp
  qed
qed

text \<open>
  C4: A round of the statistics thread always completes and keeps the invariant: exactly the
  requests at the old end of the pool that are older than the limit leave it, every base report,
  request-tag report and timer-tag report then holds the aggregates of the remaining requests,
  the timers of the expired requests leave the timer pool while the others stay those of their
  requests, and the tag counter and the reference counts of the dictionary stay exact, however
  many threads share the work.
\<close>

theorem stats_expire_keeps_invariant:
  assumes D: "daemon_ok (env_hs e) word_size gc others tm D" and th: "0 < threads"
    and small: "stored_tags (ring (timer_pool D)) < 2 ^ 32"
  shows "\<exists>D'. pinba_stats_expire e threads since D = Some D' \<and> daemon_ok (env_hs e) word_size gc others tm D' \<and>
     ring (request_pool D') = dropWhile (expired since) (ring (request_pool D)) \<and>
     ring (timer_pool D') = drop (\<Sum>r \<leftarrow> takeWhile (expired since) (ring (request_pool D)). unat (timers_cnt r)) (ring (timer_pool D))"
  by (rule stats_expire_result [OF assms])

text \<open>Two stored requests with a timer each; the older one holds a word.\<close>

definition sample_daemon :: pinba_daemon where
  "sample_daemon =
     \<lparr>request_pool_counter = 2,
      request_pool = sample_request_pool\<lparr>pdata :=
        [(sample_timed 3 1)\<lparr>dictionary_words := [\<lparr>word_addr = 5, word_str = ''app''\<rparr>]\<rparr>,
         (sample_timed 0 1)\<lparr>rec_time := \<lparr>tv_sec = 9, tv_usec = 0\<rparr>, counter := 1\<rparr>, sample_timed 0 0, sample_timed 0 0]\<rparr>,
      timer_pool = sample_timer_pool, dictionary = sample_dictionary, registry = sample_registry, timertags_cnt = 2,
      base_reports = [(PINBA_TABLE_REPORT1, sample_report PINBA_TABLE_REPORT1)], tag_reports = [], rtag_reports = [],
      lost_tmp_records = 0, invalid_request_data = 0\<rparr>"

definition sample_env :: job_env where
  "sample_env = \<lparr>env_hs = 512, env_ok = True, env_ru0 = \<lparr>rusage_utime = null_timeval, rusage_stime = null_timeval\<rparr>,
     env_ru1 = \<lparr>rusage_utime = null_timeval, rusage_stime = null_timeval\<rparr>\<rparr>"

lemma sample_daemon_ok: "daemon_ok 512 24 True {#} \<lparr>tv_sec = 9, tv_usec = 0\<rparr> sample_daemon"
proof -
  let ?p = "request_pool sample_daemon" and ?tm = "\<lparr>tv_sec = 9, tv_usec = 0\<rparr>"
  have c: "cells ?p = [0, 1]" by (simp add: sample_daemon_def sample_request_pool_def cells_def upt_rec)
  have r: "ring ?p = [(sample_timed 3 1)\<lparr>dictionary_words := [\<lparr>word_addr = 5, word_str = ''app''\<rparr>]\<rparr>,
      (sample_timed 0 1)\<lparr>rec_time := ?tm, counter := 1\<rparr>]"
    unfolding ring_def c by (simp add: sample_daemon_def)
  have "requests_ok ?tm 2 ?p"
    unfolding requests_ok_def r
    by (simp add: sample_daemon_def sample_request_pool_def pool_ok_def WINDOW_MAX_def arrival_ordered_def older_def
        pinba_timercmp_def tv_le_def sample_timed_def record_ok_def kb_ok_def kb_units_def fits_def)
  moreover have "timers_ok sample_timer_pool ?p"
    using sample_timer_pool_ok c unfolding timers_ok_def
    by (simp add: sample_daemon_def sample_timer_pool_def sample_request_pool_def pool_ok_def cells_def upt_rec
        sample_timed_def record_timers_def record_get_timer_def sample_mark_def pinba_pool_num_records_def)
  moreover have "tv_sec (start (std (sample_report t))) = 0" for t by (simp add: sample_report_def sample_std_def of_usecs_def)
  then have "base_follows 512 ?p (PINBA_TABLE_REPORT1, sample_report PINBA_TABLE_REPORT1)"
    "started_before ?tm 2 (base_std (PINBA_TABLE_REPORT1, sample_report PINBA_TABLE_REPORT1))"
    using fresh_models(1) [OF sample_fresh]
    by (simp_all add: report_window_def report_cells_def taken_def base_type_def started_before_def)
  moreover have "stored_tags (ring sample_timer_pool) = 2"
    by (simp add: stored_tags_def ring_def cells_def sample_timer_pool_def sample_mark_def upt_rec)
  moreover have "stored_words (ring ?p) = {#5#}"
    unfolding r by (simp add: stored_words_def sample_timed_def)
  moreover have "unused_wordless ?p"
    unfolding unused_wordless_def c by (auto simp: sample_daemon_def sample_timed_def less_Suc_eq_0_disj numeral_eq_Suc)
  ultimately show ?thesis
    using sample_dictionary_ok sample_registry_ok by (simp add: daemon_ok_def) (simp add: sample_daemon_def)
qed

theorem stats_expire_keeps_invariant_witness:
  "\<exists>D'. pinba_stats_expire sample_env 4 \<lparr>tv_sec = 8, tv_usec = 0\<rparr> sample_daemon = Some D' \<and>
     daemon_ok 512 24 True {#} \<lparr>tv_sec = 9, tv_usec = 0\<rparr> D' \<and>
     ring (request_pool D') = [(sample_timed 0 1)\<lparr>rec_time := \<lparr>tv_sec = 9, tv_usec = 0\<rparr>, counter := 1\<rparr>] \<and>
     ring (timer_pool D') = [sample_mark 1 20]"
proof -
  have hs: "env_hs sample_env = 512" by (simp add: sample_env_def)
  have small: "stored_tags (ring (timer_pool sample_daemon)) < 2 ^ 32"
    by (simp add: stored_tags_def ring_def cells_def sample_timer_pool_def sample_mark_def upt_rec sample_daemon_def)
  have r: "ring (request_pool sample_daemon) = [(sample_timed 3 1)\<lparr>dictionary_words := [\<lparr>word_addr = 5, word_str = ''app''\<rparr>]\<rparr>,
      (sample_timed 0 1)\<lparr>rec_time := \<lparr>tv_sec = 9, tv_usec = 0\<rparr>, counter := 1\<rparr>]"
    by (simp add: ring_def sample_daemon_def sample_request_pool_def cells_def upt_rec)
  have t: "ring (timer_pool sample_daemon) = [sample_mark 0 10, sample_mark 1 20]"
    by (simp add: ring_def cells_def sample_timer_pool_def upt_rec sample_daemon_def)
  show ?thesis
    using stats_expire_keeps_invariant [OF sample_daemon_ok [folded hs], of 4 "\<lparr>tv_sec = 8, tv_usec = 0\<rparr>", OF _ small]
    unfolding r t hs by (simp add: expired_def pinba_timercmp_def sample_timed_def)
qed

end
