(* ===== verification/Packets.thy ===== *)
theory Packets
  imports C_Buffers Time_Conversion
begin

text \<open>
  Packets (\<^verbatim>\<open>src/pinba.pb-c.h\<close>, \<^verbatim>\<open>src/pinba.pb-c.cc\<close>): the message the Protocol Buffers
  runtime decodes (\<^verbatim>\<open>pinba.proto\<close>) is converted to a flat request with fixed-size strings, and
  validated (\<^verbatim>\<open>src/pinba_request_validation.h\<close>). Decoding itself is third-party code: the
  parameter \<open>parse\<close>. A repeated field is a list, so its \<^verbatim>\<open>n_\<close> member is the length of the list.
\<close>

section \<open>Messages and requests\<close>

text \<open>The decoded message, one field for each of \<^verbatim>\<open>pinba.proto\<close>.\<close>

record proto_request =
  p_hostname :: string
  p_server_name :: string
  p_script_name :: string
  p_request_count :: u32
  p_document_size :: u32
  p_memory_peak :: u32
  p_request_time :: fp
  p_ru_utime :: fp
  p_ru_stime :: fp
  p_timer_hit_count :: "u32 list"
  p_timer_value :: "fp list"
  p_timer_tag_count :: "u32 list"
  p_timer_tag_name :: "u32 list"
  p_timer_tag_value :: "u32 list"
  p_dictionary :: "string list"
  p_status :: "u32 option"
  p_memory_footprint :: "u32 option"
  p_schema :: string
  p_tag_name :: "u32 list"
  p_tag_value :: "u32 list"
  p_timer_ru_utime :: "fp list"
  p_timer_ru_stime :: "fp list"

datatype proto_tree = Proto proto_request "proto_tree list"

text \<open>
  \<^verbatim>\<open>struct Pinba__Request\<close>. The character arrays are buffers; the dictionary is one buffer of
  \<open>n_dictionary\<close> entries of \<^verbatim>\<open>PINBA_DICTIONARY_ENTRY_SIZE\<close> bytes.
\<close>

record pinba_request =
  q_hostname :: "char list"
  q_server_name :: "char list"
  q_script_name :: "char list"
  q_request_count :: u32
  q_document_size :: u32
  q_memory_peak :: u32
  q_request_time :: fp
  q_ru_utime :: fp
  q_ru_stime :: fp
  q_timer_hit_count :: "u32 list"
  q_timer_value :: "fp list"
  q_timer_tag_count :: "u32 list"
  q_timer_tag_name :: "u32 list"
  q_timer_tag_value :: "u32 list"
  n_dictionary :: nat
  q_dictionary :: "char list"
  has_status :: bool
  q_status :: u32
  has_memory_footprint :: bool
  q_memory_footprint :: u32
  q_schema :: "char list"
  q_tag_name :: "u32 list"
  q_tag_value :: "u32 list"
  q_timer_ru_utime :: "fp list"
  q_timer_ru_stime :: "fp list"

datatype request_tree = Request pinba_request "request_tree list"

definition PINBA_DICTIONARY_ENTRY_SIZE :: nat where [simp]: "PINBA_DICTIONARY_ENTRY_SIZE = 65"

definition pinba__request__init :: pinba_request where
  "pinba__request__init =
     \<lparr>q_hostname = replicate PINBA_HOSTNAME_SIZE NUL, q_server_name = replicate PINBA_SERVER_NAME_SIZE NUL,
      q_script_name = replicate PINBA_SCRIPT_NAME_SIZE NUL, q_request_count = 0, q_document_size = 0,
      q_memory_peak = 0, q_request_time = FNum 0, q_ru_utime = FNum 0, q_ru_stime = FNum 0,
      q_timer_hit_count = [], q_timer_value = [], q_timer_tag_count = [], q_timer_tag_name = [],
      q_timer_tag_value = [], n_dictionary = 0, q_dictionary = [], has_status = False, q_status = 0,
      has_memory_footprint = False, q_memory_footprint = 0, q_schema = replicate PINBA_SCHEMA_SIZE NUL,
      q_tag_name = [], q_tag_value = [], q_timer_ru_utime = [], q_timer_ru_stime = []\<rparr>"

section \<open>Conversion\<close>

text \<open>\<^verbatim>\<open>strncpy(buf + pos, src, n)\<close>: up to \<open>n\<close> characters of the C string, padded with NULs.\<close>

definition strncpy_at :: "char list \<Rightarrow> nat \<Rightarrow> string \<Rightarrow> nat \<Rightarrow> char list" where
  "strncpy_at buf pos src n =
     (let s = take n (c_str src) in memcpy_at buf pos (s @ replicate (n - length s) NUL))"

definition copy_fixed_string :: "string \<Rightarrow> char list \<Rightarrow> nat \<Rightarrow> char list \<times> bool" where
  "copy_fixed_string src dest max_len =
     (let dest = memcpy_at dest 0 (replicate max_len NUL)
      in if src = [] then (dest, True)
         else (strncpy_at dest 0 src (max_len - 1), length src < max_len))"

fun fill_dictionary :: "nat \<Rightarrow> string list \<Rightarrow> char list \<Rightarrow> char list" where
  "fill_dictionary i [] storage = storage"
| "fill_dictionary i (entry # entries) storage =
     fill_dictionary (Suc i) entries
       (strncpy_at storage (i * PINBA_DICTIONARY_ENTRY_SIZE) entry (PINBA_DICTIONARY_ENTRY_SIZE - 1))"

definition convert_fields :: "proto_request \<Rightarrow> pinba_request" where
  "convert_fields proto =
     (let message = pinba__request__init
      in message
        \<lparr>q_hostname := fst (copy_fixed_string (p_hostname proto) (q_hostname message) PINBA_HOSTNAME_SIZE),
         q_server_name := fst (copy_fixed_string (p_server_name proto) (q_server_name message) PINBA_SERVER_NAME_SIZE),
         q_script_name := fst (copy_fixed_string (p_script_name proto) (q_script_name message) PINBA_SCRIPT_NAME_SIZE),
         q_schema := fst (copy_fixed_string (p_schema proto) (q_schema message) PINBA_SCHEMA_SIZE),
         q_request_count := p_request_count proto, q_document_size := p_document_size proto,
         q_memory_peak := p_memory_peak proto, q_request_time := p_request_time proto,
         q_ru_utime := p_ru_utime proto, q_ru_stime := p_ru_stime proto,
         has_status := p_status proto \<noteq> None,
         q_status := (case p_status proto of Some s \<Rightarrow> s | None \<Rightarrow> 0),
         has_memory_footprint := p_memory_footprint proto \<noteq> None,
         q_memory_footprint := (case p_memory_footprint proto of Some s \<Rightarrow> s | None \<Rightarrow> 0),
         q_timer_hit_count := p_timer_hit_count proto, q_timer_value := p_timer_value proto,
         q_timer_tag_count := p_timer_tag_count proto, q_timer_tag_name := p_timer_tag_name proto,
         q_timer_tag_value := p_timer_tag_value proto, q_tag_name := p_tag_name proto,
         q_tag_value := p_tag_value proto, q_timer_ru_utime := p_timer_ru_utime proto,
         q_timer_ru_stime := p_timer_ru_stime proto, n_dictionary := length (p_dictionary proto),
         q_dictionary :=
           (if length (p_dictionary proto) > 0
            then fill_dictionary 0 (p_dictionary proto)
                   (replicate (length (p_dictionary proto) * PINBA_DICTIONARY_ENTRY_SIZE) NUL)
            else [])\<rparr>)"

fun convert_request :: "proto_tree \<Rightarrow> request_tree" where
  "convert_request (Proto proto requests) = Request (convert_fields proto) (map convert_request requests)"

text \<open>
  \<open>data\<close> is \<open>None\<close> for a null pointer; \<open>mem\<close> says whether all allocations succeed.
\<close>

definition pinba__request__unpack ::
  "('b list \<Rightarrow> proto_tree option) \<Rightarrow> bool \<Rightarrow> 'b list option \<Rightarrow> request_tree option" where
  "pinba__request__unpack parse mem data =
     (case data of
        None \<Rightarrow> None
      | Some bytes \<Rightarrow>
          if length bytes = 0 \<or> int (length bytes) > INT_MAX then None
          else if \<not> mem then None
          else map_option convert_request (parse bytes))"

text \<open>Reading entry \<open>i\<close> of the dictionary, as the consumers do: up to the first NUL from its start.\<close>

definition dictionary_entry :: "pinba_request \<Rightarrow> nat \<Rightarrow> string" where
  "dictionary_entry request i = c_str (drop (PINBA_DICTIONARY_ENTRY_SIZE * i) (q_dictionary request))"

section \<open>Validation\<close>

datatype pinba_request_error =
  none | timer_arrays | flattened_tags | dictionary_index | representation_limit

definition USHRT_MAX :: nat where [simp]: "USHRT_MAX = 65535"
definition UINT_MAX :: nat where [simp]: "UINT_MAX = 4294967295"

text \<open>The number of timers that take a slot of the pool.\<close>

fun stored_count :: "u32 list \<Rightarrow> u32 list \<Rightarrow> nat" where
  "stored_count (hits # hs) (tgs # ts) = (if hits \<noteq> 0 \<and> tgs \<noteq> 0 then 1 else 0) + stored_count hs ts"
| "stored_count _ _ = 0"

definition pinba_stored_timer_count :: "pinba_request \<Rightarrow> nat" where
  "pinba_stored_timer_count request = stored_count (q_timer_hit_count request) (q_timer_tag_count request)"

text \<open>The loop over the timers: the total of the tag counts, or an error.\<close>

fun validate_timers :: "nat \<Rightarrow> nat \<Rightarrow> u32 list \<Rightarrow> u32 list \<Rightarrow> pinba_request_error + nat" where
  "validate_timers n_names offset (hits # hs) (tgs # ts) =
     (let tags = unat tgs
      in if tags > USHRT_MAX \<or> int (unat hits) > INT_MAX then Inl representation_limit
         else if tags > n_names - offset then Inl flattened_tags
         else validate_timers n_names (offset + tags) hs ts)"
| "validate_timers n_names offset _ _ = Inr offset"

definition index_out :: "pinba_request \<Rightarrow> u32 \<times> u32 \<Rightarrow> bool" where
  "index_out request nv \<longleftrightarrow> unat (fst nv) \<ge> n_dictionary request \<or> unat (snd nv) \<ge> n_dictionary request"

definition pinba_validate_request :: "pinba_request \<Rightarrow> pinba_request_error" where
  "pinba_validate_request request =
     (let timers = length (q_timer_hit_count request)
      in if timers \<noteq> length (q_timer_value request) \<or> timers \<noteq> length (q_timer_tag_count request) \<or>
            length (q_tag_name request) \<noteq> length (q_tag_value request) then timer_arrays
         else if timers > USHRT_MAX \<or> length (q_tag_name request) > UINT_MAX then representation_limit
         else if length (q_timer_tag_name request) \<noteq> length (q_timer_tag_value request) then flattened_tags
         else if n_dictionary request = 0 \<and> (timers \<noteq> 0 \<or> length (q_tag_name request) \<noteq> 0) then dictionary_index
         else case validate_timers (length (q_timer_tag_name request)) 0
                     (q_timer_hit_count request) (q_timer_tag_count request) of
                Inl e \<Rightarrow> e
              | Inr tag_total \<Rightarrow>
                  if tag_total \<noteq> length (q_timer_tag_name request) then flattened_tags
                  else if list_ex (index_out request) (zip (q_timer_tag_name request) (q_timer_tag_value request))
                  then dictionary_index
                  else if list_ex (index_out request) (zip (q_tag_name request) (q_tag_value request))
                  then dictionary_index
                  else none)"

section \<open>Strings survive the conversion\<close>

lemma c_str_nul_free [simp]: "nul_free (c_str s)"
  by (auto simp: c_str_def nul_free_def dest: set_takeWhileD)

lemma c_str_stop: "nul_free s \<Longrightarrow> c_str (s @ NUL # t) = s"
  unfolding c_str_def by (rule takeWhile_append_stop) (auto simp: nul_free_def)

lemma c_str_padded: "nul_free s \<Longrightarrow> 0 < k \<Longrightarrow> c_str (s @ replicate k NUL @ t) = s"
  using c_str_stop [of s "replicate (k - 1) NUL @ t"] by (cases k) simp_all

definition fixed_buffer :: "nat \<Rightarrow> string \<Rightarrow> char list" where
  "fixed_buffer n src = take (n - 1) (c_str src) @ replicate (n - length (take (n - 1) (c_str src))) NUL"

lemma fixed_buffer: "0 < n \<Longrightarrow> length (fixed_buffer n s) = n" "0 < n \<Longrightarrow> c_str (fixed_buffer n s @ t) = take (n - 1) (c_str s)"
proof -
  assume n: "0 < n"
  let ?s = "take (n - 1) (c_str s)"
  have l: "length ?s < n" using n by simp
  then show "length (fixed_buffer n s) = n" unfolding fixed_buffer_def length_append length_replicate by linarith
  show "c_str (fixed_buffer n s @ t) = ?s"
    using l c_str_padded [of ?s "n - length ?s" t] unfolding fixed_buffer_def append_assoc by simp
qed

lemma strncpy_zeroed:
  assumes "0 < n"
  shows "strncpy_at (pre @ replicate n NUL @ post) (length pre) src (n - 1) = pre @ fixed_buffer n src @ post"
proof -
  let ?s = "take (n - 1) (c_str src)"
  have l: "length ?s \<le> n - 1" by simp
  have "(pre @ replicate n NUL @ post) = pre @ (replicate (n - 1) NUL @ NUL # post)"
    using assms by (cases n) (simp_all add: replicate_append_same [symmetric])
  moreover have "replicate (n - length ?s) NUL = replicate (n - 1 - length ?s) NUL @ [NUL]"
    using l assms by (simp add: replicate_append_same Suc_diff_le [symmetric] Suc_diff_Suc flip: replicate_Suc)
  ultimately show ?thesis
    using l by (simp add: strncpy_at_def memcpy_at_def fixed_buffer_def Let_def)
qed

lemma copy_fixed_buffer:
  assumes "0 < n" and "length dest = n"
  shows "fst (copy_fixed_string src dest n) = fixed_buffer n src"
  using strncpy_zeroed [of n "[]" "[]" src] assms
  by (simp add: copy_fixed_string_def Let_def memcpy_at_def fixed_buffer_def c_str_def)

lemma fill_dictionary_blocks:
  "length pre = i * 65 \<Longrightarrow>
   fill_dictionary i es (pre @ replicate (length es * 65) NUL) = pre @ concat (map (fixed_buffer 65) es)"
proof (induction es arbitrary: i pre)
  case (Cons e es)
  have "replicate (length (e # es) * 65) NUL = replicate 65 NUL @ replicate (length es * 65) NUL"
    by (simp add: replicate_add [symmetric] del: replicate.simps)
  then have "strncpy_at (pre @ replicate (length (e # es) * 65) NUL) (i * 65) e 64 =
      pre @ fixed_buffer 65 e @ replicate (length es * 65) NUL"
    using strncpy_zeroed [of 65 pre "replicate (length es * 65) NUL" e] Cons.prems by simp
  then show ?case
    using Cons.IH [of "pre @ fixed_buffer 65 e" "Suc i"] Cons.prems fixed_buffer(1) [of 65 e] by simp
qed simp

lemma drop_blocks:
  "\<forall>b \<in> set bs. length b = n \<Longrightarrow> i \<le> length bs \<Longrightarrow> drop (n * i) (concat bs) = concat (drop i bs)"
proof (induction bs arbitrary: i)
  case (Cons b bs)
  then show ?case by (cases i) simp_all
qed simp

lemma dictionary_entry_convert:
  assumes "i < length (p_dictionary p)"
  shows "dictionary_entry (convert_fields p) i = take 64 (c_str (p_dictionary p ! i))"
proof -
  let ?es = "p_dictionary p"
  have "q_dictionary (convert_fields p) = concat (map (fixed_buffer 65) ?es)"
    using fill_dictionary_blocks [of "[]" 0 ?es] assms by (auto simp: convert_fields_def Let_def)
  moreover have "drop (65 * i) (concat (map (fixed_buffer 65) ?es)) = concat (map (fixed_buffer 65) (drop i ?es))"
    using drop_blocks [of "map (fixed_buffer 65) ?es" 65 i] assms fixed_buffer(1) [of 65] by (simp add: drop_map)
  moreover have "drop i ?es = ?es ! i # drop (Suc i) ?es" using assms by (simp add: Cons_nth_drop_Suc)
  ultimately show ?thesis using fixed_buffer(2) [of 65 "?es ! i"] by (simp add: dictionary_entry_def)
qed

text \<open>
  C34: A packet survives the conversion: every name reads back as the C string of the message cut
  to the size of its field, entry \<open>i\<close> of the flat dictionary reads back as entry \<open>i\<close> of the
  message cut to 64 characters and never runs into the next entry, the numbers and arrays are
  unchanged, and the nested requests are converted in order.
\<close>

theorem packet_roundtrip:
  "case convert_request (Proto p ps) of
     Request q qs \<Rightarrow>
       c_str (q_hostname q) = take 64 (c_str (p_hostname p)) \<and> length (q_hostname q) = 65 \<and>
       c_str (q_server_name q) = take 64 (c_str (p_server_name p)) \<and> length (q_server_name q) = 65 \<and>
       c_str (q_script_name q) = take 128 (c_str (p_script_name p)) \<and> length (q_script_name q) = 129 \<and>
       c_str (q_schema q) = take 16 (c_str (p_schema p)) \<and> length (q_schema q) = 17 \<and>
       map (dictionary_entry q) [0..<n_dictionary q] = map (\<lambda>s. take 64 (c_str s)) (p_dictionary p) \<and>
       (if has_status q then Some (q_status q) else None) = p_status p \<and>
       (if has_memory_footprint q then Some (q_memory_footprint q) else None) = p_memory_footprint p \<and>
       [q_request_count q, q_document_size q, q_memory_peak q] = [p_request_count p, p_document_size p, p_memory_peak p] \<and>
       [q_request_time q, q_ru_utime q, q_ru_stime q] = [p_request_time p, p_ru_utime p, p_ru_stime p] \<and>
       (q_timer_hit_count q, q_timer_value q, q_timer_tag_count q) = (p_timer_hit_count p, p_timer_value p, p_timer_tag_count p) \<and>
       (q_timer_tag_name q, q_timer_tag_value q, q_timer_ru_utime q, q_timer_ru_stime q) =
         (p_timer_tag_name p, p_timer_tag_value p, p_timer_ru_utime p, p_timer_ru_stime p) \<and>
       (q_tag_name q, q_tag_value q) = (p_tag_name p, p_tag_value p) \<and> qs = map convert_request ps"
proof -
  let ?q = "convert_fields p"
  have n: "n_dictionary ?q = length (p_dictionary p)" by (simp add: convert_fields_def Let_def)
  have "map (dictionary_entry ?q) [0..<n_dictionary ?q] = map (\<lambda>s. take 64 (c_str s)) (p_dictionary p)"
    unfolding n by (rule nth_equalityI) (simp_all add: dictionary_entry_convert)
  moreover have "q_hostname ?q = fixed_buffer 65 (p_hostname p)" "q_server_name ?q = fixed_buffer 65 (p_server_name p)"
    "q_script_name ?q = fixed_buffer 129 (p_script_name p)" "q_schema ?q = fixed_buffer 17 (p_schema p)"
    by (simp_all add: convert_fields_def Let_def pinba__request__init_def copy_fixed_buffer)
  moreover have "c_str (fixed_buffer 65 s) = take 64 (c_str s)" "c_str (fixed_buffer 129 s) = take 128 (c_str s)"
    "c_str (fixed_buffer 17 s) = take 16 (c_str s)" for s
    using fixed_buffer(2) [of 65 s "[]"] fixed_buffer(2) [of 129 s "[]"] fixed_buffer(2) [of 17 s "[]"] by simp_all
  ultimately show ?thesis
    by (simp add: fixed_buffer(1)) (simp add: convert_fields_def Let_def split: option.splits)
qed

section \<open>What validation accepts\<close>

text \<open>
  A request whose arrays belong together: every timer has a value and a count of tags, the
  flattened tags are exactly those counts, all indices point into the dictionary, and the
  numbers fit the fields that will hold them.
\<close>

definition request_valid :: "pinba_request \<Rightarrow> bool" where
  "request_valid r \<longleftrightarrow>
     length (q_timer_value r) = length (q_timer_hit_count r) \<and>
     length (q_timer_tag_count r) = length (q_timer_hit_count r) \<and> length (q_timer_hit_count r) \<le> USHRT_MAX \<and>
     length (q_tag_value r) = length (q_tag_name r) \<and> length (q_tag_name r) \<le> UINT_MAX \<and>
     length (q_timer_tag_value r) = length (q_timer_tag_name r) \<and>
     (\<Sum>c \<leftarrow> q_timer_tag_count r. unat c) = length (q_timer_tag_name r) \<and>
     list_all (\<lambda>c. unat c \<le> USHRT_MAX) (q_timer_tag_count r) \<and>
     list_all (\<lambda>h. int (unat h) \<le> INT_MAX) (q_timer_hit_count r) \<and>
     list_all (\<lambda>i. unat i < n_dictionary r)
       (q_timer_tag_name r @ q_timer_tag_value r @ q_tag_name r @ q_tag_value r) \<and>
     (n_dictionary r = 0 \<longrightarrow> q_timer_hit_count r = [])"

lemma validate_timers_result:
  assumes "length hs = length ts" and "offset \<le> n"
  shows "validate_timers n offset hs ts = Inr m \<longleftrightarrow>
     list_all (\<lambda>c. unat c \<le> USHRT_MAX) ts \<and> list_all (\<lambda>h. int (unat h) \<le> INT_MAX) hs \<and>
     m = offset + (\<Sum>c \<leftarrow> ts. unat c) \<and> m \<le> n"
    and "validate_timers n offset hs ts \<noteq> Inl none"
  using assms
proof (induction n offset hs ts arbitrary: m rule: validate_timers.induct)
  case (1 n_names offset hits hs tgs ts)
  {
    case 1
    then show ?case using "1.IH"(1) [OF refl] by (auto simp: Let_def not_less)
  next
    case 2
    then show ?case using "1.IH"(2) [OF refl] by (auto simp: Let_def not_less)
  }
qed auto

lemma no_index_out:
  "length vs = length ns \<Longrightarrow>
   list_ex (index_out r) (zip ns vs) \<longleftrightarrow> \<not> list_all (\<lambda>i. unat i < n_dictionary r) (ns @ vs)"
  by (induction ns vs rule: list_induct2') (auto simp: index_out_def)

lemma validate_iff: "pinba_validate_request r = none \<longleftrightarrow> request_valid r"
proof -
  let ?hs = "q_timer_hit_count r" and ?ts = "q_timer_tag_count r" and ?n = "length (q_timer_tag_name r)"
  show ?thesis
  proof (cases "length ?hs = length ?ts \<and> length (q_timer_tag_value r) = ?n \<and> length (q_tag_value r) = length (q_tag_name r)")
    case True
    note res = validate_timers_result [of ?hs ?ts 0 ?n]
    have io: "list_ex (index_out r) (zip (q_timer_tag_name r) (q_timer_tag_value r)) \<longleftrightarrow>
        \<not> list_all (\<lambda>i. unat i < n_dictionary r) (q_timer_tag_name r @ q_timer_tag_value r)"
      "list_ex (index_out r) (zip (q_tag_name r) (q_tag_value r)) \<longleftrightarrow>
        \<not> list_all (\<lambda>i. unat i < n_dictionary r) (q_tag_name r @ q_tag_value r)"
      using True no_index_out by auto
    have empty: "n_dictionary r = 0 \<Longrightarrow> list_all (\<lambda>i. unat i < n_dictionary r) (q_tag_name r) \<Longrightarrow> q_tag_name r = []"
      by (cases "q_tag_name r") auto
    show ?thesis
    proof (cases "validate_timers ?n 0 ?hs ?ts")
      case (Inl e)
      then have "e \<noteq> none" using res(2) True by auto
      moreover have "\<not> request_valid r"
      proof
        assume "request_valid r"
        then have "validate_timers ?n 0 ?hs ?ts = Inr ?n" using res(1) [of ?n] True by (simp add: request_valid_def)
        then show False using Inl by simp
      qed
      ultimately show ?thesis using Inl by (auto simp: pinba_validate_request_def Let_def)
    next
      case (Inr m)
      then have m: "list_all (\<lambda>c. unat c \<le> USHRT_MAX) ?ts" "list_all (\<lambda>h. int (unat h) \<le> INT_MAX) ?hs"
        "m = (\<Sum>c \<leftarrow> ?ts. unat c)" using res(1) [of m] True by auto
      show ?thesis
        using True m empty unfolding pinba_validate_request_def request_valid_def Let_def Inr io
        by (auto simp: not_less)
    qed
  qed (auto simp: pinba_validate_request_def request_valid_def Let_def)
qed

text \<open>
  C35: Validation accepts exactly the requests whose arrays belong together. In particular every
  index that staging and timer merging will use, into the flattened tag arrays and into the
  dictionary, is then in bounds, and no count overflows the field that holds it.
\<close>

theorem validate_request_iff: "pinba_validate_request r = none \<longleftrightarrow> request_valid r"
  by (rule validate_iff)

end
