(* ===== verification/Staging.thy ===== *)
theory Staging
  imports Packets Tag_Registry Report_Keys "HOL-Library.Sublist"
begin

text \<open>
  Staging (\<^verbatim>\<open>request_to_record\<close> and \<^verbatim>\<open>data_job_func\<close>, \<^verbatim>\<open>src/main.cc\<close>): each worker validates the
  requests of its packets, interns their dictionaries and prepares a record for each of them
  in a temporary pool. The words of a prepared record are owned by its slot of that pool.
\<close>

section \<open>State\<close>

text \<open>
  \<^verbatim>\<open>pinba_stats_record_ex\<close>; \<open>ex_request_id\<close> is the cell the request was copied to, \<open>None\<close> for
  \<^verbatim>\<open>SIZE_MAX\<close>.
\<close>

record pinba_stats_record_ex =
  ex_record :: pinba_stats_record
  ex_request :: pinba_request
  ex_words :: "pinba_word list"
  ex_request_id :: "nat option"

text \<open>
  What staging depends on: \<open>ie_fresh\<close> is the allocator of words, \<open>ie_room\<close>, \<open>ie_tag_mem\<close>,
  \<open>ie_words_mem\<close>, \<open>ie_tags_mem\<close> and \<open>ie_slots\<close> say which allocations succeed (of a word, of a
  tag descriptor, of the two arrays of a slot, and of slot \<open>n\<close> of the temporary pool), the
  rest are settings.
\<close>

record ingest_env =
  ie_word_size :: u64
  ie_fresh :: "pinba_dictionary \<Rightarrow> nat option"
  ie_room :: bool
  ie_budget :: pinba_dictionary_budget
  ie_tags :: tag_settings
  ie_tag_mem :: tag_memory
  ie_words_mem :: bool
  ie_tags_mem :: bool
  ie_slots :: "nat \<Rightarrow> bool"

definition zero_record :: pinba_stats_record where
  "zero_record =
     \<lparr>script_name = [], server_name = [], hostname = [], schema = [], req_time = null_timeval,
      ru_utime = null_timeval, ru_stime = null_timeval, doc_size = FNum 0, mem_peak_usage = FNum 0,
      memory_footprint = FNum 0, tags = [], req_count = 0, status = 0, rec_time = null_timeval,
      timers_start = 0, counter = 0, timers_cnt = 0, active = False, dictionary_words = []\<rparr>"

section \<open>A request becomes a record\<close>

definition pinba_tmp_release_words ::
  "pinba_stats_record_ex \<Rightarrow> pinba_dictionary \<Rightarrow> pinba_stats_record_ex \<times> pinba_dictionary" where
  "pinba_tmp_release_words record d =
     (record\<lparr>ex_words := [], ex_record := (ex_record record)\<lparr>tags := []\<rparr>\<rparr>, pinba_words_release (ex_words record) d)"

definition intern_word :: "ingest_env \<Rightarrow> string \<Rightarrow> pinba_dictionary \<Rightarrow> pinba_word option \<times> pinba_dictionary" where
  "intern_word env str d =
     pinba_dictionary_intern_rdlock (ie_word_size env) (\<lambda>d. d) (ie_fresh env d) (ie_room env) (ie_budget env) str d"

text \<open>The words of the dictionary, until one is refused.\<close>

fun stage_words ::
  "ingest_env \<Rightarrow> string list \<Rightarrow> pinba_word list \<Rightarrow> pinba_dictionary \<Rightarrow> bool \<times> pinba_word list \<times> pinba_dictionary" where
  "stage_words env [] words d = (True, words, d)"
| "stage_words env (str # strs) words d =
     (case intern_word env str d of
        (None, d) \<Rightarrow> (False, words, d)
      | (Some w, d) \<Rightarrow> stage_words env strs (words @ [w]) d)"

definition tag_of_word :: "ingest_env \<Rightarrow> pinba_word \<Rightarrow> tag_registry \<Rightarrow> pinba_tag option \<times> tag_registry" where
  "tag_of_word env word g =
     pinba_tag_lookup_or_create_locked (ie_tags env) (\<lambda>g. g) (ie_tag_mem env) (Some (word_str word)) g"

text \<open>
  The preflight of the tag names: all names of the timers that will be stored get a descriptor
  before any part of the request is published.
\<close>

fun admit_names :: "ingest_env \<Rightarrow> pinba_word list \<Rightarrow> u32 list \<Rightarrow> tag_registry \<Rightarrow> bool \<times> tag_registry" where
  "admit_names env words [] g = (True, g)"
| "admit_names env words (i # is) g =
     (case tag_of_word env (words ! unat i) g of
        (None, g) \<Rightarrow> (False, g)
      | (Some tag, g) \<Rightarrow> admit_names env words is g)"

fun admit_timers ::
  "ingest_env \<Rightarrow> pinba_word list \<Rightarrow> u32 list \<Rightarrow> nat \<Rightarrow> u32 list \<Rightarrow> u32 list \<Rightarrow> tag_registry \<Rightarrow> bool \<times> tag_registry" where
  "admit_timers env words names offset (hits # hs) (tgs # ts) g =
     (if hits \<noteq> 0 \<and> tgs \<noteq> 0
      then (case admit_names env words (take (unat tgs) (drop offset names)) g of
              (False, g) \<Rightarrow> (False, g)
            | (True, g) \<Rightarrow> admit_timers env words names (offset + unat tgs) hs ts g)
      else admit_timers env words names (offset + unat tgs) hs ts g)"
| "admit_timers env words names offset _ _ g = (True, g)"

text \<open>The request tags: pairs of words, or failure at an index outside the dictionary.\<close>

fun stage_tags ::
  "nat \<Rightarrow> pinba_word list \<Rightarrow> u32 list \<Rightarrow> u32 list \<Rightarrow> (pinba_word \<times> pinba_word) list \<Rightarrow>
   bool \<times> (pinba_word \<times> pinba_word) list" where
  "stage_tags n words (name # names) (v # vs) acc =
     (if unat name \<ge> n then (False, acc)
      else if unat v \<ge> n then (False, acc)
      else stage_tags n words names vs (acc @ [(words ! unat name, words ! unat v)]))"
| "stage_tags n words _ _ acc = (True, acc)"

text \<open>The plain fields.\<close>

definition fill_record :: "pinba_request \<Rightarrow> pinba_stats_record \<Rightarrow> pinba_stats_record" where
  "fill_record request record =
     (let doc = fdiv round64 (f64_of_int (uint (q_document_size request))) (FNum 1024);
          doc = (if fless doc (FNum 0) then FNum 0 else doc)
      in record
        \<lparr>script_name := static_copy PINBA_SCRIPT_NAME_SIZE (c_str (q_script_name request)),
         server_name := static_copy PINBA_SERVER_NAME_SIZE (c_str (q_server_name request)),
         hostname := static_copy PINBA_HOSTNAME_SIZE (c_str (q_hostname request)),
         schema := (if q_schema request ! 0 \<noteq> NUL then static_copy PINBA_SCHEMA_SIZE (c_str (q_schema request))
                    else schema record),
         req_time := float_to_timeval (pinba_sanitize_time_seconds (q_request_time request)),
         ru_utime := float_to_timeval (pinba_sanitize_time_seconds (q_ru_utime request)),
         ru_stime := float_to_timeval (pinba_sanitize_time_seconds (q_ru_stime request)),
         req_count := pinba_normalize_request_count (q_request_count request),
         doc_size := fto_f32 doc,
         mem_peak_usage := fdiv round32 (f32_of_int (uint (q_memory_peak request))) (FNum 1024),
         memory_footprint :=
           (if has_memory_footprint request
            then fdiv round32 (f32_of_int (uint (q_memory_footprint request))) (FNum 1024) else FNum 0),
         status := ucast (if has_status request then q_status request else 0)\<rparr>)"

definition request_to_record ::
  "ingest_env \<Rightarrow> pinba_request \<Rightarrow> pinba_stats_record_ex \<Rightarrow> pinba_dictionary \<Rightarrow> tag_registry \<Rightarrow>
   bool \<times> pinba_stats_record_ex \<times> pinba_dictionary \<times> tag_registry" where
  "request_to_record env request ex d g =
     (case pinba_tmp_release_words ex d of
        (ex, d) \<Rightarrow>
          let ex = ex\<lparr>ex_record := zero_record\<rparr>;
              (ok, words, d, g) =
                (if n_dictionary request = 0 then (True, [], d, g)
                 else if \<not> ie_words_mem env then (False, [], d, g)
                 else case stage_words env (map (dictionary_entry request) [0..<n_dictionary request]) [] d of
                        (False, words, d) \<Rightarrow> (False, words, d, g)
                      | (True, words, d) \<Rightarrow>
                          if tag_gc_enabled (ie_tags env) \<or> tag_names_limit (ie_tags env) \<noteq> 0
                          then (case admit_timers env words (q_timer_tag_name request) 0
                                       (q_timer_hit_count request) (q_timer_tag_count request) g of
                                  (ok, g) \<Rightarrow> (ok, words, d, g))
                          else (True, words, d, g));
              ex = ex\<lparr>ex_words := words\<rparr>
          in if \<not> ok then (False, ex, d, g)
             else if q_tag_name request \<noteq> [] \<and> \<not> ie_tags_mem env then (False, ex, d, g)
             else case stage_tags (n_dictionary request) words (q_tag_name request) (q_tag_value request) [] of
                    (False, tgs) \<Rightarrow> (False, ex\<lparr>ex_record := (ex_record ex)\<lparr>tags := tgs\<rparr>\<rparr>, d, g)
                  | (True, tgs) \<Rightarrow>
                      (True, ex\<lparr>ex_record := fill_record request ((ex_record ex)\<lparr>tags := tgs\<rparr>)\<rparr>, d, g))"

section \<open>A worker stages its packets\<close>

text \<open>
  The temporary pool of the worker, the requests it found invalid, and the shared tables. A
  slot beyond the pool owns no words: the end of a batch and a failed attempt release them.
\<close>

record stage_state =
  ss_dictionary :: pinba_dictionary
  ss_registry :: tag_registry
  ss_staged :: "pinba_stats_record_ex list"
  ss_invalid :: nat

definition stage_request :: "ingest_env \<Rightarrow> pinba_timeval \<Rightarrow> pinba_request \<Rightarrow> stage_state \<Rightarrow> stage_state" where
  "stage_request env now request s =
     (if pinba_validate_request request \<noteq> none then s\<lparr>ss_invalid := ss_invalid s + 1\<rparr>
      else if \<not> ie_slots env (length (ss_staged s)) then s
      else case request_to_record env request
                  \<lparr>ex_record = zero_record, ex_request = request, ex_words = [], ex_request_id = None\<rparr>
                  (ss_dictionary s) (ss_registry s) of
             (False, ex, d, g) \<Rightarrow>
               s\<lparr>ss_dictionary := snd (pinba_tmp_release_words ex d), ss_registry := g\<rparr>
           | (True, ex, d, g) \<Rightarrow>
               s\<lparr>ss_dictionary := d, ss_registry := g,
                 ss_staged := ss_staged s @ [ex\<lparr>ex_record := (ex_record ex)\<lparr>rec_time := now\<rparr>\<rparr>]\<rparr>)"

text \<open>A request and then its nested requests.\<close>

fun stage_tree :: "ingest_env \<Rightarrow> pinba_timeval \<Rightarrow> request_tree \<Rightarrow> stage_state \<Rightarrow> stage_state" where
  "stage_tree env now (Request request requests) s =
     fold (stage_tree env now) requests (stage_request env now request s)"

text \<open>The packets a worker read; \<open>None\<close> is a slot whose packet could not be decoded.\<close>

definition data_job_func :: "ingest_env \<Rightarrow> pinba_timeval \<Rightarrow> request_tree option list \<Rightarrow> stage_state \<Rightarrow> stage_state" where
  "data_job_func env now packets s =
     fold (\<lambda>packet s. case packet of None \<Rightarrow> s | Some request \<Rightarrow> stage_tree env now request s) packets s"

section \<open>Sizes stay exact multiples of 1/1024\<close>

lemma round_even_near: "0 \<le> y \<Longrightarrow> 0 \<le> round_even y" "y \<le> of_int k \<Longrightarrow> round_even y \<le> k"
proof -
  show "0 \<le> round_even y" if "0 \<le> y" using that by (simp add: round_even_def Let_def)
  show "round_even y \<le> k" if le: "y \<le> of_int k"
  proof (cases "y = of_int k")
    case False
    then have "\<lfloor>y\<rfloor> < k" using le by (simp add: floor_less_iff)
    then show ?thesis by (simp add: round_even_def Let_def)
  qed simp
qed

lemma powi2_mono: "i \<le> j \<Longrightarrow> (2::rat) powi i \<le> 2 powi j"
  by (rule power_int_increasing) auto

text \<open>
  A 32-bit integer scaled down by \<open>2^s\<close> and rounded to a \<^verbatim>\<open>float\<close> is again an integer, with a
  mantissa of 24 bits, scaled down by \<open>2^s\<close>.
\<close>

lemma round32_scaled:
  assumes n: "0 \<le> n" "n < 2 ^ 32" and s: "s \<le> 10"
  shows "\<exists>a j. round32 (of_int n / 2 ^ s) = FNum (of_int (a * 2 ^ j) / 2 ^ s) \<and> 0 \<le> a \<and> a < 2 ^ 24 \<and> a * 2 ^ j \<le> 2 ^ 32"
proof (cases "n < 2 ^ 24")
  case True
  have e: "(of_int n / 2 ^ s :: rat) = of_int n * 2 powi (- int s)" by (simp add: power_int_minus field_simps)
  then have "on_grid (nat 24) (- 126 - (24 - 1)) (of_int n / 2 ^ s)"
    unfolding on_grid_def using True n s by (intro exI [of _ n] exI [of _ "- int s"]) simp
  moreover have "\<bar>of_int n / 2 ^ s :: rat\<bar> < 2 powi (127 + 1)"
  proof -
    have "of_int n < (2::rat) ^ 24" using True by (metis of_int_less_iff of_int_numeral of_int_power)
    moreover have "(2::rat) ^ 24 \<le> 2 powi (127 + 1)" by (simp add: power_int_def)
    moreover have "of_int n * 1 \<le> (of_int n * 2 ^ s :: rat)" using n(1) by (intro mult_left_mono) auto
    then have "\<bar>of_int n / 2 ^ s :: rat\<bar> \<le> of_int n" using n(1) by (simp add: field_simps)
    ultimately show ?thesis by linarith
  qed
  ultimately have "round32 (of_int n / 2 ^ s) = FNum (of_int (n * 2 ^ 0) / 2 ^ s)" using fround_grid [of 24 "- 126"] by simp
  then show ?thesis using n True by (intro exI [of _ n] exI [of _ 0]) simp
next
  case False
  define x where "x = (of_int n / 2 ^ s :: rat)"
  have big: "(2::rat) ^ 24 \<le> of_int n" "of_int n < (2::rat) ^ 32"
    using False n(2) by (metis not_less of_int_le_iff of_int_numeral of_int_power, metis of_int_less_iff of_int_numeral of_int_power)
  have scale: "(2::rat) powi (c - int s) = 2 powi c / 2 ^ s" for c by (simp add: power_int_diff)
  have x: "(2::rat) powi (24 - int s) \<le> x" "x < 2 powi (32 - int s)" "0 < x"
    using big n False unfolding scale x_def by (auto intro!: divide_right_mono divide_strict_right_mono)
  define l where "l = flog2 x"
  have b: "2 powi l \<le> x" "x < 2 powi (l + 1)" using flog2_bounds [OF x(3)] by (simp_all add: l_def)
  have "24 - int s \<le> l"
  proof (rule ccontr)
    assume "\<not> 24 - int s \<le> l"
    then have "(2::rat) powi (l + 1) \<le> 2 powi (24 - int s)" by (intro powi2_mono) simp
    then show False using b(2) x(1) by linarith
  qed
  moreover have "l \<le> 31 - int s"
  proof (rule ccontr)
    assume "\<not> l \<le> 31 - int s"
    then have "(2::rat) powi (32 - int s) \<le> 2 powi l" by (intro powi2_mono) simp
    then show False using b(1) x(2) by linarith
  qed
  moreover define k where "k = nat (l - 23 + int s)"
  ultimately have k: "l - 23 = int k - int s" "k \<le> 8" "max l (- 126) = l" using s by auto
  define r where "r = round_even (x / 2 powi (l - 23))"
  have "(2::rat) powi (l + 1) = 2 ^ 24 * 2 powi (l - 23)"
    using power_int_add [of "2::rat" 24 "l - 23"] by (simp add: add.commute)
  then have "x / 2 powi (l - 23) \<le> of_int (2 ^ 24)" using b(2) by (simp add: divide_le_eq)
  then have r: "0 \<le> r" "r \<le> 2 ^ 24" unfolding r_def using x(3) by (intro round_even_near; simp)+
  have p: "(2::rat) powi (l - 23) = of_int (2 ^ k) / 2 ^ s"
    unfolding k(1) by (simp add: power_int_diff)
  have y: "of_int r * 2 powi (l - 23) = (of_int (r * 2 ^ k) / 2 ^ s :: rat)" unfolding p by simp
  have "(2::int) ^ k \<le> 2 ^ 8" using k(2) by (intro power_increasing) auto
  then have m: "0 \<le> r * 2 ^ k" "r * 2 ^ k \<le> 2 ^ 32" using r mult_mono [of r "2 ^ 24" "2 ^ k" "2 ^ 8"] by auto
  then have "of_int (r * 2 ^ k) \<le> (2::rat) ^ 32" by (metis of_int_le_iff of_int_numeral of_int_power)
  moreover have "of_int (r * 2 ^ k) * 1 \<le> (of_int (r * 2 ^ k) * 2 ^ s :: rat)" using m(1) by (intro mult_left_mono) (auto simp del: of_int_mult)
  then have "of_int (r * 2 ^ k) / 2 ^ s \<le> (of_int (r * 2 ^ k) :: rat)" by (simp add: field_simps del: of_int_mult of_int_power)
  ultimately have "of_int (r * 2 ^ k) / 2 ^ s \<le> (2::rat) ^ 32" by linarith
  moreover have "0 \<le> (of_int (r * 2 ^ k) / 2 ^ s :: rat)" using m(1) by (metis divide_nonneg_pos of_int_0_le_iff zero_less_numeral zero_less_power)
  moreover have "(2::rat) ^ 32 < 2 powi (127 + 1)" by simp
  ultimately have "\<not> 2 powi (127 + 1) \<le> \<bar>of_int (r * 2 ^ k) / 2 ^ s :: rat\<bar>" by linarith
  then have res: "round32 x = FNum (of_int (r * 2 ^ k) / 2 ^ s)"
    using x(3) unfolding fround_def Let_def by (simp add: l_def [symmetric] k(3) r_def [symmetric] y del: of_int_mult of_int_power)
  show ?thesis
  proof (cases "r = 2 ^ 24")
    case True
    then have e: "r * 2 ^ k = 2 ^ 23 * 2 ^ Suc k" by simp
    show ?thesis
    proof (intro exI conjI)
      show "round32 (of_int n / 2 ^ s) = FNum (of_int (2 ^ 23 * 2 ^ Suc k) / 2 ^ s)"
        using res unfolding x_def e .
      show "2 ^ 23 * 2 ^ Suc k \<le> (2 :: int) ^ 32" using m(2) unfolding e .
    qed simp_all
  next
    case False
    then show ?thesis using res m r unfolding x_def [symmetric] by (intro exI [of _ r] exI [of _ k]) simp
  qed
qed

lemma kb_ok_units: "0 \<le> m \<Longrightarrow> m \<le> 2 ^ 32 \<Longrightarrow> kb_ok (FNum (of_int m / 1024))"
  by (simp add: kb_ok_def kb_units_def)

lemma round32_kb:
  assumes "0 \<le> n" "n < 2 ^ 32"
  shows "kb_ok (round32 (of_int n / 1024))" and "kb_ok (fdiv round32 (f32_of_int n) (FNum 1024))"
proof -
  obtain a j where "round32 (of_int n / 2 ^ 10) = FNum (of_int (a * 2 ^ j) / 2 ^ 10)" "0 \<le> a" "a * 2 ^ j \<le> 2 ^ 32"
    using round32_scaled [OF assms, of 10] by auto
  then show "kb_ok (round32 (of_int n / 1024))" using kb_ok_units [of "a * 2 ^ j"] by simp
  obtain b i where b: "round32 (of_int n) = FNum (of_int (b * 2 ^ i))" "0 \<le> b" "b < 2 ^ 24" "b * 2 ^ i \<le> 2 ^ 32"
    using round32_scaled [OF assms, of 0] by auto
  let ?x = "of_int (b * 2 ^ i) / 1024 :: rat"
  have "?x = of_int b * 2 powi (int i - 10)" by (simp add: power_int_diff)
  then have grid: "on_grid (nat 24) (- 126 - (24 - 1)) ?x"
    unfolding on_grid_def using b by (intro exI [of _ b] exI [of _ "int i - 10"]) simp
  have "of_int (b * 2 ^ i) \<le> (2::rat) ^ 32" using b(4) by (metis of_int_le_iff of_int_numeral of_int_power)
  moreover have "0 \<le> ?x" "?x \<le> of_int (b * 2 ^ i)" using b(2) by (simp_all add: field_simps)
  moreover have "(2::rat) ^ 32 < 2 powi (127 + 1)" by simp
  ultimately have "\<bar>?x\<bar> < 2 powi (127 + 1)" by linarith
  then have "round32 ?x = FNum ?x" using grid by (intro fround_grid) auto
  then show "kb_ok (fdiv round32 (f32_of_int n) (FNum 1024))"
    using b kb_ok_units [of "b * 2 ^ i"] by (simp add: f32_of_int_def)
qed

section \<open>A prepared record is well-formed\<close>

text \<open>The numbers of a packet are binary32 numbers, as \<^verbatim>\<open>float\<close> fields are.\<close>

definition request_floats :: "pinba_request \<Rightarrow> bool" where
  "request_floats q \<longleftrightarrow>
     list_all is_f32 ([q_request_time q, q_ru_utime q, q_ru_stime q] @ q_timer_value q @ q_timer_ru_utime q @ q_timer_ru_stime q)"

lemma sanitized_timeval:
  assumes "is_f32 f"
  shows "timeval_ok (float_to_timeval (pinba_sanitize_time_seconds f))"
proof -
  obtain x where x: "pinba_sanitize_time_seconds f = FNum x" "0 \<le> x"
    using sanitize_valid [of f] unfolding valid_time_iff by blast
  then have "is_f32 (FNum x)" using sanitize_f32 [OF assms] by simp
  then show ?thesis using float_to_timeval_exact x by simp
qed

lemma static_copy_cut: "0 < n \<Longrightarrow> fits n (static_copy n (c_str s))"
proof -
  assume n: "0 < n"
  have t: "terminated (memcpy_static (zero_buf n) (c_str s)) (take (n - 1) (c_str s))"
    using memcpy_static_terminated [of "zero_buf n" "c_str s"] n by simp
  then have "static_copy n (c_str s) = take (n - 1) (c_str s)"
    unfolding static_copy_def by (intro c_str_terminated) simp_all
  then show ?thesis using n by (simp add: fits_def)
qed

lemma round64_nat: "round64 (of_int (uint (n :: u32)) / 1024) = FNum (of_int (uint n) / 1024)"
  using round64_kb [of "uint n"] uint_lt2p [of n] by (simp add: kb_sum_def)

lemma record_sizes:
  "kb_ok (fto_f32 (fdiv round64 (f64_of_int (uint (n :: u32))) (FNum 1024)))"
  "kb_ok (fdiv round32 (f32_of_int (uint n)) (FNum 1024))"
  "\<not> fless (fdiv round64 (f64_of_int (uint n)) (FNum 1024)) (FNum 0)"
proof -
  have u: "0 \<le> uint n" "uint n < 2 ^ 32" using uint_lt2p [of n] by simp_all
  have nn: "0 \<le> (of_int (uint n) :: rat)" unfolding of_int_0_le_iff by (rule u(1))
  have "f64_of_int (uint n) = FNum (of_int (uint n))" unfolding f64_of_int_def by (rule round64_of_int) (use u in simp)
  then show "kb_ok (fto_f32 (fdiv round64 (f64_of_int (uint (n :: u32))) (FNum 1024)))"
    "\<not> fless (fdiv round64 (f64_of_int (uint n)) (FNum 1024)) (FNum 0)"
    using round32_kb [OF u] round64_nat [of n] nn by (simp_all add: not_less)
  show "kb_ok (fdiv round32 (f32_of_int (uint n)) (FNum 1024))" using round32_kb [OF u] by simp
qed

lemma fill_record_ok:
  assumes "request_floats q" and "schema r = []"
  shows "record_ok (fill_record q r)"
proof -
  have "kb_ok (FNum 0)" by (simp add: kb_ok_def kb_units_def)
  moreover have "fits 17 []" by (simp add: fits_def nul_free_def)
  ultimately show ?thesis
    using assms static_copy_cut sanitized_timeval record_sizes
    by (simp add: record_ok_def fill_record_def Let_def request_floats_def)
qed

section \<open>Words and tags stay accounted for\<close>

text \<open>The allocator never answers an address that is in use.\<close>

definition fresh_words :: "ingest_env \<Rightarrow> bool" where
  "fresh_words env \<longleftrightarrow> (\<forall>d a. ie_fresh env d = Some a \<longrightarrow> a \<notin> word_addr ` set (words_of d))"

lemma intern_word_ok:
  assumes "dictionary_ok (ie_word_size env) owners d" and "Suc (size owners) < 2 ^ 64" and "fresh_words env"
  shows "case intern_word env str d of
      (None, d') \<Rightarrow> dictionary_ok (ie_word_size env) owners d'
    | (Some w, d') \<Rightarrow> word_str w = dictionary_key str \<and> dictionary_ok (ie_word_size env) (add_mset (word_addr w) owners) d'"
  using intern_result [where word_size = "ie_word_size env" and owners = owners and d = d and owners' = owners
      and meanwhile = "\<lambda>d. d" and fresh = "ie_fresh env d" and room = "ie_room env" and budget = "ie_budget env" and str = str] assms
  by (auto simp: intern_word_def fresh_words_def split: prod.splits option.splits if_splits)

lemma stage_words_ok:
  assumes "dictionary_ok (ie_word_size env) owners d" and "size owners + length strs < 2 ^ 64" and f: "fresh_words env"
    and "stage_words env strs words d = (ok, words', d')"
  shows "\<exists>new. words' = words @ new \<and> dictionary_ok (ie_word_size env) (owners + mset (map word_addr new)) d' \<and>
     length new \<le> length strs \<and> (ok \<longrightarrow> map word_str new = map dictionary_key strs)"
  using assms
proof (induction strs arbitrary: owners words d)
  case (Cons str strs)
  note i = intern_word_ok [OF Cons.prems(1) _ f, of str]
  show ?case
  proof (cases "intern_word env str d")
    case (Pair res d1)
    show ?thesis
    proof (cases res)
      case None
      then show ?thesis using Cons.prems i by (auto simp: Pair)
    next
      case (Some w)
      have w: "word_str w = dictionary_key str" "dictionary_ok (ie_word_size env) (add_mset (word_addr w) owners) d1"
        using i Cons.prems(2) by (auto simp: Pair Some)
      have "stage_words env strs (words @ [w]) d1 = (ok, words', d')" using Cons.prems(4) by (simp add: Pair Some)
      then obtain new where "words' = (words @ [w]) @ new"
          "dictionary_ok (ie_word_size env) (add_mset (word_addr w) owners + mset (map word_addr new)) d'"
          "length new \<le> length strs" "ok \<longrightarrow> map word_str new = map dictionary_key strs"
        using Cons.IH [OF w(2) _ f] Cons.prems(2) by fastforce
      then show ?thesis using w(1) by (intro exI [of _ "w # new"]) simp
    qed
  qed
qed simp

lemma tag_of_word_ok:
  assumes "registry_ok (tag_gc_enabled (ie_tags env)) g" and "length (word_str w) < PINBA_TAG_NAME_SIZE"
  shows "registry_ok (tag_gc_enabled (ie_tags env)) (snd (tag_of_word env w g))"
  using lookup_result [of "ie_tags env" g "\<lambda>g. g" "word_str w" "ie_tag_mem env"] assms
  by (auto simp: tag_of_word_def split: prod.splits option.splits)

lemma admit_names_ok:
  assumes "registry_ok (tag_gc_enabled (ie_tags env)) g"
    and "\<forall>i \<in> set is. length (word_str (words ! unat i)) < PINBA_TAG_NAME_SIZE"
  shows "registry_ok (tag_gc_enabled (ie_tags env)) (snd (admit_names env words is g))"
  using assms
proof (induction "is" arbitrary: g)
  case (Cons i "is")
  then show ?case
    using tag_of_word_ok [of env g "words ! unat i"] by (auto split: prod.splits option.splits)
qed simp

lemma admit_timers_ok:
  assumes "registry_ok (tag_gc_enabled (ie_tags env)) g"
    and "\<forall>i \<in> set names. length (word_str (words ! unat i)) < PINBA_TAG_NAME_SIZE"
  shows "registry_ok (tag_gc_enabled (ie_tags env)) (snd (admit_timers env words names offset hs ts g))"
  using assms
proof (induction env words names offset hs ts g rule: admit_timers.induct)
  case (1 env words names offset hits hs tgs ts g)
  let ?a = "admit_names env words (take (unat tgs) (drop offset names)) g"
  have "\<forall>i \<in> set (take (unat tgs) (drop offset names)). length (word_str (words ! unat i)) < PINBA_TAG_NAME_SIZE"
    using "1.prems"(2) by (meson in_set_takeD in_set_dropD)
  then have "registry_ok (tag_gc_enabled (ie_tags env)) (snd ?a)" using "1.prems"(1) by (intro admit_names_ok)
  then show ?case
    using "1.IH" "1.prems" by (cases ?a) (auto split: bool.splits)
qed simp_all

lemma stage_tags_result:
  assumes "length vs = length ns" and "list_all (\<lambda>i. unat i < n) (ns @ vs)"
  shows "stage_tags n words ns vs acc = (True, acc @ map (\<lambda>(i, v). (words ! unat i, words ! unat v)) (zip ns vs))"
  using assms
  by (induction n words ns vs acc rule: stage_tags.induct) auto

text \<open>What a slot of the temporary pool holds after a request was staged in it.\<close>

definition staged_ok :: "pinba_timeval \<Rightarrow> pinba_stats_record_ex \<Rightarrow> bool" where
  "staged_ok now ex \<longleftrightarrow>
     (let q = ex_request ex; r = ex_record ex; ws = ex_words ex in
        request_valid q \<and> record_ok r \<and> rec_time r = now \<and> timers_cnt r = 0 \<and> dictionary_words r = [] \<and>
        map word_str ws = map (\<lambda>i. dictionary_key (dictionary_entry q i)) [0..<n_dictionary q] \<and>
        tags r = map (\<lambda>(i, v). (ws ! unat i, ws ! unat v)) (zip (q_tag_name q) (q_tag_value q)))"

lemma request_to_record_result:
  assumes d: "dictionary_ok (ie_word_size env) owners d" and g: "registry_ok (tag_gc_enabled (ie_tags env)) g"
    and size: "size owners + n_dictionary q < 2 ^ 64" and f: "fresh_words env"
    and q: "request_valid q" "request_floats q"
    and ex: "ex_words ex = []" "ex_request ex = q"
    and res: "request_to_record env q ex d g = (ok, ex', d', g')"
  shows "dictionary_ok (ie_word_size env) (owners + mset (map word_addr (ex_words ex'))) d'"
    and "registry_ok (tag_gc_enabled (ie_tags env)) g'"
    and "ok \<Longrightarrow> staged_ok now (ex'\<lparr>ex_record := (ex_record ex')\<lparr>rec_time := now\<rparr>\<rparr>) \<and> ex_request ex' = q"
    and "length (ex_words ex') \<le> n_dictionary q"
proof -
  let ?strs = "map (dictionary_entry q) [0..<n_dictionary q]"
  obtain sok ws sd where sw: "stage_words env ?strs [] d = (sok, ws, sd)" by (cases "stage_words env ?strs [] d") auto
  have "size owners + length ?strs < 2 ^ 64" using size by simp
  note w = stage_words_ok [OF d this f sw]
  then have ws: "dictionary_ok (ie_word_size env) (owners + mset (map word_addr ws)) sd" "length ws \<le> n_dictionary q"
    "sok \<longrightarrow> map word_str ws = map dictionary_key ?strs" by auto
  have short: "length (word_str (ws ! unat i)) < PINBA_TAG_NAME_SIZE" if "sok" "i \<in> set (q_timer_tag_name q)" for i
  proof -
    have i: "unat i < n_dictionary q" using q(1) that(2) by (auto simp: request_valid_def list_all_iff)
    have "map word_str ws = map dictionary_key ?strs" using ws(3) that(1) by simp
    then have "word_str (ws ! unat i) = dictionary_key (?strs ! unat i)"
      using i by (metis length_map length_upt minus_nat.diff_0 nth_map)
    then show ?thesis by (simp add: dictionary_key_def)
  qed
  let ?admit = "admit_timers env ws (q_timer_tag_name q) 0 (q_timer_hit_count q) (q_timer_tag_count q) g"
  have reg: "registry_ok (tag_gc_enabled (ie_tags env)) (snd ?admit)" if sok
    using short that by (intro admit_timers_ok [OF g]) blast
  have tgs: "stage_tags (n_dictionary q) wds (q_tag_name q) (q_tag_value q) [] =
      (True, map (\<lambda>(i, v). (wds ! unat i, wds ! unat v)) (zip (q_tag_name q) (q_tag_value q)))" for wds
    using stage_tags_result [of "q_tag_value q" "q_tag_name q" "n_dictionary q" wds "[]"] q(1)
    by (simp add: request_valid_def)
  have rel: "pinba_tmp_release_words ex d = (ex\<lparr>ex_record := (ex_record ex)\<lparr>tags := []\<rparr>\<rparr>, d)"
    using ex(1) by (simp add: pinba_tmp_release_words_def pinba_words_release_def)
  define inner where "inner = (if n_dictionary q = 0 then (True, [], d, g)
       else if \<not> ie_words_mem env then (False, [], d, g)
       else case stage_words env ?strs [] d of
              (False, words, d) \<Rightarrow> (False, words, d, g)
            | (True, words, d) \<Rightarrow>
                if tag_gc_enabled (ie_tags env) \<or> tag_names_limit (ie_tags env) \<noteq> 0
                then (case admit_timers env words (q_timer_tag_name q) 0 (q_timer_hit_count q) (q_timer_tag_count q) g of
                        (ok, g) \<Rightarrow> (ok, words, d, g))
                else (True, words, d, g))"
  obtain iok wds di gi where i: "inner = (iok, wds, di, gi)" by (cases inner) auto
  have "dictionary_ok (ie_word_size env) (owners + mset (map word_addr wds)) di \<and>
      registry_ok (tag_gc_enabled (ie_tags env)) gi \<and> length wds \<le> n_dictionary q \<and>
      (iok \<longrightarrow> map word_str wds = map dictionary_key ?strs)"
    using i d g ws reg unfolding inner_def sw by (cases ?admit) (auto split: if_splits bool.splits)
  then have in1: "dictionary_ok (ie_word_size env) (owners + mset (map word_addr wds)) di"
      "registry_ok (tag_gc_enabled (ie_tags env)) gi" "length wds \<le> n_dictionary q"
    and in2: "iok \<Longrightarrow> map word_str wds = map dictionary_key ?strs" by blast+
  let ?x = "ex\<lparr>ex_record := zero_record, ex_words := wds\<rparr>"
  let ?r = "fill_record q (zero_record\<lparr>tags := map (\<lambda>(i, v). (wds ! unat i, wds ! unat v)) (zip (q_tag_name q) (q_tag_value q))\<rparr>)"
  have "request_to_record env q ex d g = (if \<not> iok \<or> q_tag_name q \<noteq> [] \<and> \<not> ie_tags_mem env then (False, ?x, di, gi)
      else (True, ?x\<lparr>ex_record := ?r\<rparr>, di, gi))"
    unfolding request_to_record_def rel prod.case Let_def inner_def [symmetric] i by (simp add: tgs)
  note r = this [unfolded res]
  then show "dictionary_ok (ie_word_size env) (owners + mset (map word_addr (ex_words ex'))) d'"
    "registry_ok (tag_gc_enabled (ie_tags env)) g'" "length (ex_words ex') \<le> n_dictionary q"
    using in1 by (auto split: if_splits)
  assume ok
  then have e: "ex' = ?x\<lparr>ex_record := ?r\<rparr>" iok using r by (auto split: if_splits)
  have "record_ok ?r" by (rule fill_record_ok [OF q(2)]) (simp add: zero_record_def)
  then have "record_ok (?r\<lparr>rec_time := now\<rparr>)" by (simp add: record_ok_def)
  then show "staged_ok now (ex'\<lparr>ex_record := (ex_record ex')\<lparr>rec_time := now\<rparr>\<rparr>) \<and> ex_request ex' = q"
    using e q(1) ex(2) in2 unfolding staged_ok_def Let_def by (simp add: fill_record_def zero_record_def Let_def)
qed

section \<open>A worker's packets\<close>

fun requests_of :: "request_tree \<Rightarrow> pinba_request list" where
  "requests_of (Request request requests) = request # concat (map requests_of requests)"

definition packet_requests :: "request_tree option list \<Rightarrow> pinba_request list" where
  "packet_requests packets = concat (map (\<lambda>p. case p of None \<Rightarrow> [] | Some t \<Rightarrow> requests_of t) packets)"

lemma fold_concat: "fold f (concat xss) s = fold (\<lambda>xs. fold f xs) xss s"
  by (induction xss arbitrary: s) simp_all

lemma stage_tree_fold: "stage_tree env now t s = fold (stage_request env now) (requests_of t) s"
proof (induction t arbitrary: s)
  case (Request request requests)
  then have "fold (stage_tree env now) requests s = fold (\<lambda>t. fold (stage_request env now) (requests_of t)) requests s" for s
    by (intro fold_cong) auto
  then show ?case by (simp add: fold_concat fold_map comp_def)
qed

lemma data_job_fold: "data_job_func env now packets s = fold (stage_request env now) (packet_requests packets) s"
  unfolding data_job_func_def packet_requests_def fold_concat fold_map
  by (intro fold_cong refl) (auto simp: stage_tree_fold comp_def split: option.splits)

definition staged_words :: "pinba_stats_record_ex list \<Rightarrow> nat multiset" where
  "staged_words exs = mset (concat (map (\<lambda>ex. map word_addr (ex_words ex)) exs))"

definition stage_ok :: "ingest_env \<Rightarrow> nat multiset \<Rightarrow> pinba_timeval \<Rightarrow> stage_state \<Rightarrow> bool" where
  "stage_ok env owners now s \<longleftrightarrow>
     dictionary_ok (ie_word_size env) (owners + staged_words (ss_staged s)) (ss_dictionary s) \<and>
     registry_ok (tag_gc_enabled (ie_tags env)) (ss_registry s) \<and> list_all (staged_ok now) (ss_staged s)"

lemma stage_request_ok:
  assumes s: "stage_ok env owners now s" and f: "fresh_words env" and q: "request_floats q"
    and size: "size owners + size (staged_words (ss_staged s)) + n_dictionary q < 2 ^ 64"
    and t: "t = stage_request env now q s"
  shows "stage_ok env owners now t"
    and "\<exists>new. ss_staged t = ss_staged s @ new \<and> subseq (map ex_request new) (if request_valid q then [q] else []) \<and>
       size (staged_words new) \<le> n_dictionary q"
    and "ss_invalid t = ss_invalid s + (if request_valid q then 0 else 1)"
proof -
  let ?ex = "\<lparr>ex_record = zero_record, ex_request = q, ex_words = [], ex_request_id = None\<rparr>"
  obtain ok ex d g where r: "request_to_record env q ?ex (ss_dictionary s) (ss_registry s) = (ok, ex, d, g)"
    by (cases "request_to_record env q ?ex (ss_dictionary s) (ss_registry s)") auto
  have size': "size (owners + staged_words (ss_staged s)) + n_dictionary q < 2 ^ 64" using size by simp
  have t: "t = (if \<not> request_valid q then s\<lparr>ss_invalid := ss_invalid s + 1\<rparr>
      else if \<not> ie_slots env (length (ss_staged s)) then s
      else if ok then s\<lparr>ss_dictionary := d, ss_registry := g,
             ss_staged := ss_staged s @ [ex\<lparr>ex_record := (ex_record ex)\<lparr>rec_time := now\<rparr>\<rparr>]\<rparr>
      else s\<lparr>ss_dictionary := snd (pinba_tmp_release_words ex d), ss_registry := g\<rparr>)"
    using validate_iff [of q] by (simp add: t stage_request_def r split: bool.splits)
  show "ss_invalid t = ss_invalid s + (if request_valid q then 0 else 1)" unfolding t by simp
  have res: "dictionary_ok (ie_word_size env) (owners + staged_words (ss_staged s) + mset (map word_addr (ex_words ex))) d"
      "registry_ok (tag_gc_enabled (ie_tags env)) g" "length (ex_words ex) \<le> n_dictionary q"
      "ok \<Longrightarrow> staged_ok now (ex\<lparr>ex_record := (ex_record ex)\<lparr>rec_time := now\<rparr>\<rparr>) \<and> ex_request ex = q" if "request_valid q"
    using request_to_record_result [OF _ _ size' f that q _ _ r] s by (simp_all add: stage_ok_def)
  show "stage_ok env owners now t"
  proof (cases "request_valid q")
    case True
    then show ?thesis
      using s res [OF True] unfolding t stage_ok_def
      by (auto simp: staged_words_def ac_simps pinba_tmp_release_words_def releases_ok)
  qed (use s in \<open>simp add: t stage_ok_def\<close>)
  show "\<exists>new. ss_staged t = ss_staged s @ new \<and> subseq (map ex_request new) (if request_valid q then [q] else []) \<and>
       size (staged_words new) \<le> n_dictionary q"
    using res unfolding t by (auto simp: staged_words_def)
qed

lemma stage_requests_ok:
  assumes "stage_ok env owners now s" and f: "fresh_words env" and "\<forall>q \<in> set qs. request_floats q"
    and "size owners + size (staged_words (ss_staged s)) + (\<Sum>q \<leftarrow> qs. n_dictionary q) < 2 ^ 64"
    and "t = fold (stage_request env now) qs s"
  shows "stage_ok env owners now t \<and>
     (\<exists>new. ss_staged t = ss_staged s @ new \<and> subseq (map ex_request new) (filter request_valid qs) \<and>
        size (staged_words new) \<le> (\<Sum>q \<leftarrow> qs. n_dictionary q)) \<and>
     ss_invalid t = ss_invalid s + length (filter (\<lambda>q. \<not> request_valid q) qs)"
  using assms
proof (induction qs arbitrary: s)
  case (Cons q qs)
  let ?s = "stage_request env now q s"
  have q: "request_floats q" "size owners + size (staged_words (ss_staged s)) + n_dictionary q < 2 ^ 64"
    using Cons.prems by simp_all
  note one = stage_request_ok [OF Cons.prems(1) f q refl]
  obtain new where new: "ss_staged ?s = ss_staged s @ new"
      "subseq (map ex_request new) (if request_valid q then [q] else [])" "size (staged_words new) \<le> n_dictionary q"
    using one(2) by blast
  have "size (staged_words (ss_staged ?s)) = size (staged_words (ss_staged s)) + size (staged_words new)"
    by (simp add: new(1) staged_words_def)
  then have "size owners + size (staged_words (ss_staged ?s)) + (\<Sum>q \<leftarrow> qs. n_dictionary q) < 2 ^ 64"
    using new(3) Cons.prems(4) by simp
  then obtain more where more: "stage_ok env owners now t" "ss_staged t = ss_staged ?s @ more"
      "subseq (map ex_request more) (filter request_valid qs)" "size (staged_words more) \<le> (\<Sum>q \<leftarrow> qs. n_dictionary q)"
      "ss_invalid t = ss_invalid ?s + length (filter (\<lambda>q. \<not> request_valid q) qs)"
    using Cons.IH [OF one(1) f] Cons.prems by auto
  have "subseq (map ex_request (new @ more)) (filter request_valid (q # qs))"
    using list_emb_append_mono [OF new(2) more(3)] by (auto split: if_splits)
  then show ?case
    using more new one(3) by (auto simp: staged_words_def intro!: exI [of _ "new @ more"])
qed (simp add: staged_words_def)

definition sample_ingest_env :: ingest_env where
  "sample_ingest_env =
     \<lparr>ie_word_size = 24, ie_fresh = (\<lambda>d. Some (Suc (Max (insert 0 (word_addr ` set (words_of d)))))), ie_room = True,
      ie_budget = \<lparr>max_words = 0, max_bytes = 0\<rparr>, ie_tags = \<lparr>tag_names_limit = 9, tag_gc_enabled = True\<rparr>,
      ie_tag_mem = \<lparr>mem_tag = True, mem_name = True, mem_table = True, mem_index = True\<rparr>,
      ie_words_mem = True, ie_tags_mem = True, ie_slots = (\<lambda>_. True)\<rparr>"

lemma sample_fresh_words: "fresh_words sample_ingest_env"
proof -
  have "Suc (Max (insert 0 A)) \<notin> A" if "finite A" for A :: "nat set"
  proof
    assume "Suc (Max (insert 0 A)) \<in> A"
    then have "Suc (Max (insert 0 A)) \<le> Max (insert 0 A)" using that by (intro Max_ge) auto
    then show False by simp
  qed
  then show ?thesis by (simp add: fresh_words_def sample_ingest_env_def)
qed

text \<open>A packet with two timers, one of them without hits, and a nested request with a dangling tag.\<close>

definition sample_proto :: proto_request where
  "sample_proto =
     \<lparr>p_hostname = ''h1'', p_server_name = ''shop'', p_script_name = ''/cart'', p_request_count = 1,
      p_document_size = 2048, p_memory_peak = 0, p_request_time = FNum (1 / 4), p_ru_utime = FNum 0, p_ru_stime = FNum 0,
      p_timer_hit_count = [2, 0], p_timer_value = [FNum (1 / 2), FNum 1], p_timer_tag_count = [1, 1],
      p_timer_tag_name = [0, 0], p_timer_tag_value = [1, 1], p_dictionary = [''op'', ''get''], p_status = Some 200,
      p_memory_footprint = None, p_schema = [], p_tag_name = [0], p_tag_value = [1], p_timer_ru_utime = [],
      p_timer_ru_stime = []\<rparr>"

definition sample_packet :: proto_tree where
  "sample_packet = Proto sample_proto [Proto (sample_proto\<lparr>p_tag_value := [7]\<rparr>) []]"

lemma sample_floats: "\<forall>q \<in> set (packet_requests [None, Some (convert_request sample_packet)]). request_floats q"
proof -
  have f: "is_f32 (FNum (1 / 4))" "is_f32 (FNum (1 / 2))" "is_f32 (FNum 0)" "is_f32 (FNum 1)"
  proof -
    have "is_f32 (FNum (of_int m * 2 powi e))" if "\<bar>m\<bar> < 2 ^ 24" "- 149 \<le> e" for m e
      using that by (auto simp: is_f32_def on_grid_def)
    from this [of 1 "- 2"] this [of 1 "- 1"] this [of 0 0] this [of 1 0]
    show "is_f32 (FNum (1 / 4))" "is_f32 (FNum (1 / 2))" "is_f32 (FNum 0)" "is_f32 (FNum 1)"
      by (simp_all add: power_int_minus)
  qed
  then show ?thesis
    by (simp add: packet_requests_def sample_packet_def sample_proto_def convert_fields_def request_floats_def Let_def)
qed

text \<open>
  C31: Staging keeps the books: the requests that fail validation are counted and leave no trace;
  the staged records are well-formed, carry the time of the batch, belong to valid requests in
  the order of the packets with nested requests after their parent, and name exactly the words of
  their packet's dictionary and tags; and the reference counts of the dictionary are those of the
  staged records, also when a request is given up half-way because a word, a tag or memory is
  refused.
\<close>

theorem staging_accounts:
  assumes "stage_ok env owners now s" and "fresh_words env"
    and "\<forall>q \<in> set (packet_requests packets). request_floats q"
    and "size owners + size (staged_words (ss_staged s)) + (\<Sum>q \<leftarrow> packet_requests packets. n_dictionary q) < 2 ^ 64"
    and "t = data_job_func env now packets s"
  shows "stage_ok env owners now t \<and>
     (\<exists>new. ss_staged t = ss_staged s @ new \<and> subseq (map ex_request new) (filter request_valid (packet_requests packets))) \<and>
     ss_invalid t = ss_invalid s + length (filter (\<lambda>q. \<not> request_valid q) (packet_requests packets))"
  using stage_requests_ok [OF assms(1-4) assms(5) [unfolded data_job_fold]] by blast

theorem staging_accounts_witness:
  "stage_ok sample_ingest_env {#} null_timeval
     (data_job_func sample_ingest_env null_timeval [None, Some (convert_request sample_packet)]
        \<lparr>ss_dictionary = \<lparr>dict = None, refs = (\<lambda>_. 0), words_live = 0, words_bytes = 0, dictionary_rejects = 0\<rparr>,
         ss_registry = \<lparr>tag_table = None, name_index = None, next_id = 0, live_ids = [], cursor_refs = (\<lambda>_. 0)\<rparr>,
         ss_staged = [], ss_invalid = 0\<rparr>)"
proof -
  let ?s = "\<lparr>ss_dictionary = \<lparr>dict = None, refs = (\<lambda>_. 0), words_live = 0, words_bytes = 0, dictionary_rejects = 0\<rparr>,
         ss_registry = \<lparr>tag_table = None, name_index = None, next_id = 0, live_ids = [], cursor_refs = (\<lambda>_. 0)\<rparr>,
         ss_staged = [], ss_invalid = 0\<rparr>"
  have s: "stage_ok sample_ingest_env {#} null_timeval ?s"
    by (simp add: stage_ok_def dictionary_ok_def words_of_def staged_words_def registry_ok_def pinba_map_get_def
        pinba_lmap_get_def map_wf_def fun_eq_iff)
  show ?thesis
    by (intro staging_accounts [OF s sample_fresh_words sample_floats _ refl, THEN conjunct1])
      (simp add: packet_requests_def sample_packet_def sample_proto_def convert_fields_def Let_def staged_words_def)
qed

end
