(* ===== verification/Timer_Merge.thy ===== *)
theory Timer_Merge
  imports Staging Daemon_Invariant
begin

text \<open>
  Merging timers (\<^verbatim>\<open>_add_timers\<close> and \<^verbatim>\<open>merge_timers_func\<close>, \<^verbatim>\<open>src/main.cc\<close>): once the requests of a
  batch have their cells and their timers are reserved, each worker fills the timers of its
  requests and resolves the tag names to descriptors.
\<close>

section \<open>Operations\<close>

definition PINBA_TEMP_DICTIONARY_SIZE :: nat where [simp]: "PINBA_TEMP_DICTIONARY_SIZE = 1024"

text \<open>
  \<open>me_cache\<close> says whether a cache beyond the static one can be allocated, \<open>me_arrays n\<close> whether
  the arrays of a timer can hold \<open>n\<close> tags.
\<close>

record merge_env =
  me_ingest :: ingest_env
  me_cache :: bool
  me_arrays :: "nat \<Rightarrow> bool"

type_synonym tag_cache = "pinba_tag option list option"

text \<open>The cache of descriptors by dictionary index; \<open>None\<close> when there is none.\<close>

definition temp_tags :: "merge_env \<Rightarrow> nat \<Rightarrow> pinba_word list \<Rightarrow> tag_registry \<Rightarrow> tag_cache" where
  "temp_tags env dict_size words g =
     (if dict_size > PINBA_TEMP_DICTIONARY_SIZE \<and> \<not> me_cache env then None
      else Some (map (\<lambda>n. pinba_map_get (name_index g) (word_str (words ! n))) [0..<dict_size]))"

text \<open>The tags of one timer: pairs of name and value indices.\<close>

fun merge_tags ::
  "merge_env \<Rightarrow> nat \<Rightarrow> pinba_word list \<Rightarrow> (u32 \<times> u32) list \<Rightarrow> (int \<times> pinba_word) list \<Rightarrow> tag_cache \<Rightarrow> tag_registry \<Rightarrow>
   (int \<times> pinba_word) list \<times> tag_cache \<times> tag_registry" where
  "merge_tags env dict_size words [] acc cache g = (acc, cache, g)"
| "merge_tags env dict_size words ((name, v) # nvs) acc cache g =
     (if unat v < dict_size \<and> unat name < dict_size then
        (let word = words ! unat name;
             tag = (case cache of Some c \<Rightarrow> c ! unat name
                    | None \<Rightarrow> pinba_map_get (name_index g) (word_str word))
         in case tag of
              Some t \<Rightarrow> merge_tags env dict_size words nvs (acc @ [(int (unat (tag_id t)), words ! unat v)]) cache g
            | None \<Rightarrow>
                (case tag_of_word (me_ingest env) word g of
                   (None, g) \<Rightarrow> merge_tags env dict_size words nvs acc cache g
                 | (Some t, g) \<Rightarrow>
                     merge_tags env dict_size words nvs (acc @ [(int (unat (tag_id t)), words ! unat v)])
                       (map_option (\<lambda>c. c[unat name := Some t]) cache) g))
      else merge_tags env dict_size words nvs acc cache g)"

text \<open>The fields of a timer apart from its tags.\<close>

definition timer_cpu :: "fp list \<Rightarrow> nat \<Rightarrow> pinba_timeval" where
  "timer_cpu fs i = (if length fs > i then float_to_timeval (pinba_sanitize_time_seconds (fs ! i)) else null_timeval)"

definition fill_timer :: "pinba_request \<Rightarrow> nat \<Rightarrow> nat \<Rightarrow> pinba_timer_record" where
  "fill_timer request request_id i =
     (let v = q_timer_value request ! i;
          v = (if pinba_is_valid_time_seconds v then v else FNum 0)
      in \<lparr>timer_tags = [],
          timer_value = (if fless (FNum 0) v then float_to_timeval v else float_to_timeval (FNum 0)),
          timer_ru_utime = timer_cpu (q_timer_ru_utime request) i,
          timer_ru_stime = timer_cpu (q_timer_ru_stime request) i,
          timer_request_id = of_nat request_id,
          timer_hit_count = int (unat (q_timer_hit_count request ! i))\<rparr>)"

text \<open>
  The loop over the timers of a request, from timer \<open>i\<close> and position \<open>tt\<close> of the flattened tags.
  The state is the record, the pool, the count of tags, the cache and the registry.
\<close>

fun add_timers_loop ::
  "merge_env \<Rightarrow> pinba_request \<Rightarrow> nat \<Rightarrow> nat \<Rightarrow> nat \<Rightarrow> u32 list \<Rightarrow> u32 list \<Rightarrow>
   pinba_stats_record \<times> pinba_timer_record pinba_pool \<times> nat \<times> tag_cache \<times> tag_registry \<Rightarrow>
   pinba_stats_record \<times> pinba_timer_record pinba_pool \<times> nat \<times> tag_cache \<times> tag_registry" where
  "add_timers_loop env request request_id i tt (hits # hs) (tgs # ts) (record, tp, timertag_cnt, cache, g) =
     (if hits = 0 \<or> tgs = 0
      then add_timers_loop env request request_id (Suc i) (tt + unat tgs) hs ts (record, tp, timertag_cnt, cache, g)
      else
        let slot = record_get_timer_id tp record (unat (timers_cnt record));
            timer = fill_timer request request_id i;
            record = record\<lparr>timers_cnt := timers_cnt record + 1\<rparr>
        in if \<not> me_arrays env (unat tgs)
           then add_timers_loop env request request_id (Suc i) (tt + unat tgs) hs ts
                  (record, tp\<lparr>pdata := (pdata tp)[slot := timer]\<rparr>, timertag_cnt, cache, g)
           else (case merge_tags env (n_dictionary request) (dictionary_words record)
                        (take (unat tgs) (drop tt (zip (q_timer_tag_name request) (q_timer_tag_value request)))) [] cache g of
                   (tgl, cache, g) \<Rightarrow>
                     add_timers_loop env request request_id (Suc i) (tt + unat tgs) hs ts
                       (record, tp\<lparr>pdata := (pdata tp)[slot := timer\<lparr>timer_tags := tgl\<rparr>]\<rparr>,
                        timertag_cnt + length tgl, cache, g)))"
| "add_timers_loop env request request_id i tt _ _ s = s"

definition add_timers ::
  "merge_env \<Rightarrow> pinba_request \<Rightarrow> nat \<Rightarrow> pinba_stats_record \<Rightarrow> pinba_timer_record pinba_pool \<Rightarrow> nat \<Rightarrow> tag_registry \<Rightarrow>
   pinba_stats_record \<times> pinba_timer_record pinba_pool \<times> nat \<times> tag_registry" where
  "add_timers env request request_id record tp timertag_cnt g =
     (case add_timers_loop env request request_id 0 0 (q_timer_hit_count request) (q_timer_tag_count request)
             (record\<lparr>timers_cnt := 0\<rparr>, tp, timertag_cnt, temp_tags env (n_dictionary request) (dictionary_words record) g, g) of
        (record, tp, timertag_cnt, cache, g) \<Rightarrow> (record, tp, timertag_cnt, g))"

text \<open>
  One worker: the requests it staged that found a cell, in order. \<open>timers_prefix\<close> is where the
  timers of the worker start.
\<close>

record merge_state =
  ms_requests :: "pinba_stats_record pinba_pool"
  ms_timers :: "pinba_timer_record pinba_pool"
  ms_timers_cnt :: nat
  ms_timertag_cnt :: nat
  ms_registry :: tag_registry

definition merge_record :: "merge_env \<Rightarrow> nat \<Rightarrow> pinba_stats_record_ex \<Rightarrow> merge_state \<Rightarrow> merge_state" where
  "merge_record env timers_prefix ex s =
     (case ex_request_id ex of
        None \<Rightarrow> s
      | Some i \<Rightarrow>
          let request = ex_request ex; timers_cnt = length (q_timer_hit_count request)
          in if timers_cnt \<noteq> length (q_timer_value request) \<or> timers_cnt \<noteq> length (q_timer_tag_count request) then s
             else if n_dictionary request = 0 \<and> timers_cnt > 0 then s
             else if timers_cnt = 0 then s
             else
               let first = timers_prefix + ms_timers_cnt s;
                   first = (if first \<ge> psize (ms_timers s) then first - psize (ms_timers s) else first);
                   record = (pdata (ms_requests s) ! i)\<lparr>timers_start := first\<rparr>
               in case add_timers env request i record (ms_timers s) (ms_timertag_cnt s) (ms_registry s) of
                    (record, tp, timertag_cnt, g) \<Rightarrow>
                      s\<lparr>ms_requests := (ms_requests s)\<lparr>pdata := (pdata (ms_requests s))[i := record]\<rparr>,
                        ms_timers := tp, ms_timers_cnt := ms_timers_cnt s + unat (pinba_stats_record.timers_cnt record),
                        ms_timertag_cnt := timertag_cnt, ms_registry := g\<rparr>)"

definition merge_timers_func :: "merge_env \<Rightarrow> nat \<Rightarrow> pinba_stats_record_ex list \<Rightarrow> merge_state \<Rightarrow> merge_state" where
  "merge_timers_func env timers_prefix exs s = fold (merge_record env timers_prefix) exs (s\<lparr>ms_timers_cnt := 0\<rparr>)"

section \<open>The cache is transparent\<close>

text \<open>Resolving the names one after the other, without a cache.\<close>

fun resolve_tags ::
  "ingest_env \<Rightarrow> pinba_word list \<Rightarrow> (u32 \<times> u32) list \<Rightarrow> tag_registry \<Rightarrow> (int \<times> pinba_word) list \<times> tag_registry" where
  "resolve_tags env words [] g = ([], g)"
| "resolve_tags env words ((name, v) # nvs) g =
     (case tag_of_word env (words ! unat name) g of
        (None, g) \<Rightarrow> resolve_tags env words nvs g
      | (Some t, g) \<Rightarrow>
          (case resolve_tags env words nvs g of (ts, g) \<Rightarrow> ((int (unat (tag_id t)), words ! unat v) # ts, g)))"

definition names_short :: "nat \<Rightarrow> pinba_word list \<Rightarrow> bool" where
  "names_short n words \<longleftrightarrow> (\<forall>i < n. length (word_str (words ! i)) < PINBA_TAG_NAME_SIZE)"

definition cache_ok :: "nat \<Rightarrow> pinba_word list \<Rightarrow> tag_cache \<Rightarrow> tag_registry \<Rightarrow> bool" where
  "cache_ok n words cache g \<longleftrightarrow>
     (case cache of None \<Rightarrow> True
      | Some c \<Rightarrow> length c = n \<and>
          (\<forall>i < n. \<forall>t. c ! i = Some t \<longrightarrow> pinba_map_get (name_index g) (word_str (words ! i)) = Some t))"

lemma temp_tags_ok: "cache_ok n words (temp_tags env n words g) g"
  by (simp add: temp_tags_def cache_ok_def)

lemma tag_of_word_known:
  "pinba_map_get (name_index g) (word_str w) = Some t \<Longrightarrow> tag_of_word env w g = (Some t, g)"
  by (simp add: tag_of_word_def pinba_tag_lookup_or_create_locked_def)

lemma tag_of_word_mono:
  assumes "registry_ok (tag_gc_enabled (ie_tags env)) g" and "length (word_str w) < PINBA_TAG_NAME_SIZE"
    and "tag_of_word env w g = (res, h)"
  shows "registry_ok (tag_gc_enabled (ie_tags env)) h"
    and "pinba_map_get (name_index g) s = Some t \<Longrightarrow> pinba_map_get (name_index h) s = Some t"
    and "res = Some t' \<Longrightarrow> pinba_map_get (name_index h) (word_str w) = Some t'"
proof -
  show "registry_ok (tag_gc_enabled (ie_tags env)) h" using tag_of_word_ok [OF assms(1,2)] assms(3) by simp
  note l = lookup_result [of "ie_tags env" g "\<lambda>g. g" "word_str w" "ie_tag_mem env", OF assms(1) assms(1) assms(2)]
  show "pinba_map_get (name_index h) (word_str w) = Some t'" if "res = Some t'"
    using l assms(3) that by (simp add: tag_of_word_def pinba_tag_get_by_name_def)
  show "pinba_map_get (name_index h) s = Some t" if s: "pinba_map_get (name_index g) s = Some t"
  proof (cases res)
    case None
    then show ?thesis using l assms(3) s by (simp add: tag_of_word_def same_registry_def)
  next
    case (Some t')
    show ?thesis
    proof (cases "s = word_str w")
      case True
      then show ?thesis using tag_of_word_known [of g w t env] s assms(3) by simp
    next
      case False
      then show ?thesis using l assms(3) s Some by (simp add: tag_of_word_def pinba_tag_get_by_name_def Let_def)
    qed
  qed
qed

lemma merge_tags_resolve:
  assumes "registry_ok (tag_gc_enabled (ie_tags (me_ingest env))) g" and "cache_ok n words cache g" and "names_short n words"
    and "\<forall>(i, v) \<in> set nvs. unat i < n \<and> unat v < n"
  shows "\<exists>cache'. merge_tags env n words nvs acc cache g =
       (acc @ fst (resolve_tags (me_ingest env) words nvs g), cache', snd (resolve_tags (me_ingest env) words nvs g)) \<and>
     cache_ok n words cache' (snd (resolve_tags (me_ingest env) words nvs g)) \<and>
     registry_ok (tag_gc_enabled (ie_tags (me_ingest env))) (snd (resolve_tags (me_ingest env) words nvs g))"
  using assms
proof (induction nvs arbitrary: acc cache g)
  case (Cons nv nvs)
  obtain i v where nv: "nv = (i, v)" by (cases nv)
  let ?e = "me_ingest env" and ?w = "words ! unat i"
  have b: "unat i < n" "unat v < n" "length (word_str ?w) < PINBA_TAG_NAME_SIZE"
    using Cons.prems by (auto simp: nv names_short_def)
  obtain res h where r: "tag_of_word ?e ?w g = (res, h)" by fastforce
  note mono = tag_of_word_mono [OF Cons.prems(1) b(3) r]
  have ch: "cache_ok n words cache h" using Cons.prems(2) mono(2) by (auto simp: cache_ok_def split: option.splits)
  have rest: "\<forall>(i, v) \<in> set nvs. unat i < n \<and> unat v < n" using Cons.prems(4) by auto
  note ih = Cons.IH [OF mono(1) _ Cons.prems(3) rest]
  define known where "known = (case cache of Some c \<Rightarrow> c ! unat i | None \<Rightarrow> pinba_map_get (name_index g) (word_str ?w))"
  show ?case
  proof (cases known)
    case (Some t)
    then have "pinba_map_get (name_index g) (word_str ?w) = Some t"
      using Cons.prems(2) b(1) by (auto simp: known_def cache_ok_def split: option.splits)
    then have "res = Some t" "h = g" using tag_of_word_known [of g ?w t ?e] r by simp_all
    then show ?thesis
      using ih [OF ch, of "acc @ [(int (unat (tag_id t)), words ! unat v)]"] b r Some
      by (auto simp: nv Let_def known_def [symmetric] split: prod.splits)
  next
    case none: None
    show ?thesis
    proof (cases res)
      case None
      then show ?thesis
        using ih [OF ch, of acc] b r none by (auto simp: nv Let_def known_def [symmetric] split: prod.splits)
    next
      case (Some t)
      let ?c = "map_option (\<lambda>c. c[unat i := Some t]) cache"
      have "cache_ok n words ?c h"
        using ch mono(3) [OF Some] by (auto simp: cache_ok_def nth_update split: option.splits if_splits)
      from ih [OF this, of "acc @ [(int (unat (tag_id t)), words ! unat v)]"] show ?thesis
        using b r none Some by (auto simp: nv Let_def known_def [symmetric] split: prod.splits)
    qed
  qed
qed simp

section \<open>The timers of a request\<close>

text \<open>The timers that are stored, with their tags, in order.\<close>

fun merged_timers ::
  "ingest_env \<Rightarrow> pinba_request \<Rightarrow> pinba_word list \<Rightarrow> nat \<Rightarrow> nat \<Rightarrow> nat \<Rightarrow> u32 list \<Rightarrow> u32 list \<Rightarrow> tag_registry \<Rightarrow>
   pinba_timer_record list \<times> tag_registry" where
  "merged_timers env request words request_id i tt (hits # hs) (tgs # ts) g =
     (if hits = 0 \<or> tgs = 0 then merged_timers env request words request_id (Suc i) (tt + unat tgs) hs ts g
      else case resolve_tags env words
                  (take (unat tgs) (drop tt (zip (q_timer_tag_name request) (q_timer_tag_value request)))) g of
             (tgl, g) \<Rightarrow>
               (case merged_timers env request words request_id (Suc i) (tt + unat tgs) hs ts g of
                  (timers, g) \<Rightarrow> ((fill_timer request request_id i)\<lparr>timer_tags := tgl\<rparr> # timers, g)))"
| "merged_timers env request words request_id i tt _ _ g = ([], g)"

lemma merged_timers_length: "length (fst (merged_timers env q words rid i tt hs ts g)) = stored_count hs ts"
  by (induction env q words rid i tt hs ts g rule: merged_timers.induct) (auto split: prod.splits)

text \<open>Writing timers to consecutive cells of a ring.\<close>

fun put_timers :: "nat \<Rightarrow> nat \<Rightarrow> pinba_timer_record list \<Rightarrow> pinba_timer_record list \<Rightarrow> pinba_timer_record list" where
  "put_timers n pos [] d = d"
| "put_timers n pos (t # ts) d = put_timers n (Suc pos) ts (d[pos mod n := t])"

lemma put_timers_length [simp]: "length (put_timers n pos ts d) = length d"
  by (induction n pos ts d rule: put_timers.induct) simp_all

lemma put_timers_append: "put_timers n pos (ts @ us) d = put_timers n (pos + length ts) us (put_timers n pos ts d)"
  by (induction n pos ts d rule: put_timers.induct) simp_all

lemma mod_apart: "k < n \<Longrightarrow> 0 < k \<Longrightarrow> (pos + k) mod n \<noteq> pos mod (n :: nat)"
proof
  assume "k < n" "0 < k" and e: "(pos + k) mod n = pos mod n"
  then have "n dvd pos + k - pos" using mod_eq_dvd_iff_nat [of pos "pos + k" n] by simp
  then show False using \<open>k < n\<close> \<open>0 < k\<close> by (simp add: nat_dvd_not_less)
qed

lemma put_timers_nth:
  assumes "length d = n" and "length ts \<le> n"
  shows "\<forall>k < length ts. put_timers n pos ts d ! ((pos + k) mod n) = ts ! k"
    and "j \<notin> (\<lambda>k. (pos + k) mod n) ` {..<length ts} \<Longrightarrow> put_timers n pos ts d ! j = d ! j"
  using assms
proof (induction ts arbitrary: pos d j)
  case (Cons t ts)
  {
    case 1
    have n: "0 < n" using 1 by auto
    show ?case
    proof (intro allI impI)
      fix k assume k: "k < length (t # ts)"
      show "put_timers n pos (t # ts) d ! ((pos + k) mod n) = (t # ts) ! k"
      proof (cases k)
        case 0
        have "pos mod n \<notin> (\<lambda>k. (Suc pos + k) mod n) ` {..<length ts}"
        proof
          assume "pos mod n \<in> (\<lambda>k. (Suc pos + k) mod n) ` {..<length ts}"
          then obtain k where "k < length ts" "(pos + Suc k) mod n = pos mod n" by auto
          then show False using mod_apart [of "Suc k" n pos] 1 by simp
        qed
        then show ?thesis using Cons.IH(2) [where j = "pos mod n" and pos = "Suc pos" and d = "d[pos mod n := t]"] 1 n 0 by simp
      next
        case (Suc m)
        then show ?thesis using Cons.IH(1) [where pos = "Suc pos" and d = "d[pos mod n := t]"] 1 k by simp
      qed
    qed
  next
    case 2
    have "(\<lambda>k. (pos + k) mod n) ` {..<length (t # ts)} = insert (pos mod n) ((\<lambda>k. (Suc pos + k) mod n) ` {..<length ts})"
      by (auto simp: lessThan_Suc_eq_insert_0 image_image)
    then show ?case using 2 Cons.IH(2) [where j = j and pos = "Suc pos" and d = "d[pos mod n := t]"] by auto
  }
qed auto

lemma timer_slot_mod:
  assumes "timers_start r < psize tp" and "j < psize tp"
  shows "record_get_timer_id tp r j = (timers_start r + j) mod psize tp"
  using assms by (simp add: record_get_timer_id_def mod_if)

lemma add_timers_loop_result:
  assumes "registry_ok (tag_gc_enabled (ie_tags (me_ingest env))) g"
    and "cache_ok (n_dictionary q) words cache g" and "names_short (n_dictionary q) words" and "\<forall>k. me_arrays env k"
    and "\<forall>(i, v) \<in> set (zip (q_timer_tag_name q) (q_timer_tag_value q)). unat i < n_dictionary q \<and> unat v < n_dictionary q"
    and "dictionary_words r = words" and "timers_start r < psize tp" and "length (pdata tp) = psize tp"
    and "unat (timers_cnt r) + stored_count hs ts \<le> USHRT_MAX" and "unat (timers_cnt r) + stored_count hs ts \<le> psize tp"
    and "merged_timers (me_ingest env) q words rid i tt hs ts g = (ms, g')"
  shows "\<exists>cache'. add_timers_loop env q rid i tt hs ts (r, tp, c, cache, g) =
      (r\<lparr>timers_cnt := timers_cnt r + of_nat (length ms)\<rparr>,
       tp\<lparr>pdata := put_timers (psize tp) (timers_start r + unat (timers_cnt r)) ms (pdata tp)\<rparr>,
       c + stored_tags ms, cache', g') \<and> registry_ok (tag_gc_enabled (ie_tags (me_ingest env))) g'"
  using assms
proof (induction hs arbitrary: ts i tt r tp c cache g ms)
  case (Cons hits hs)
  show ?case
  proof (cases ts)
    case Nil
    then show ?thesis using Cons.prems by (auto simp: stored_tags_def)
  next
    case (Cons tgs ts')
    note ts = Cons
    show ?thesis
    proof (cases "hits = 0 \<or> tgs = 0")
      case True
      then have "merged_timers (me_ingest env) q words rid (Suc i) (tt + unat tgs) hs ts' g = (ms, g')"
        and "stored_count hs ts' = stored_count (hits # hs) ts" using Cons.prems(11) by (auto simp: ts)
      then show ?thesis using Cons.IH [OF Cons.prems(1-8)] Cons.prems(9,10) True by (auto simp: ts)
    next
      case False
      let ?nvs = "take (unat tgs) (drop tt (zip (q_timer_tag_name q) (q_timer_tag_value q)))"
      have "\<forall>(i, v) \<in> set ?nvs. unat i < n_dictionary q \<and> unat v < n_dictionary q"
        using Cons.prems(5) by (meson in_set_dropD in_set_takeD)
      from merge_tags_resolve [OF Cons.prems(1-3) this, of "[]"] obtain cache1 where
        mt: "merge_tags env (n_dictionary q) words ?nvs [] cache g =
            (fst (resolve_tags (me_ingest env) words ?nvs g), cache1, snd (resolve_tags (me_ingest env) words ?nvs g))"
          "cache_ok (n_dictionary q) words cache1 (snd (resolve_tags (me_ingest env) words ?nvs g))"
          "registry_ok (tag_gc_enabled (ie_tags (me_ingest env))) (snd (resolve_tags (me_ingest env) words ?nvs g))"
        by auto
      obtain tgl g1 where rs: "resolve_tags (me_ingest env) words ?nvs g = (tgl, g1)" by fastforce
      obtain ms' where ms': "merged_timers (me_ingest env) q words rid (Suc i) (tt + unat tgs) hs ts' g1 = (ms', g')"
        and ms: "ms = (fill_timer q rid i)\<lparr>timer_tags := tgl\<rparr> # ms'"
        using Cons.prems(11) False by (auto simp: ts rs split: prod.splits)
      let ?t = "(fill_timer q rid i)\<lparr>timer_tags := tgl\<rparr>" and ?k = "unat (timers_cnt r)"
      let ?r = "r\<lparr>timers_cnt := timers_cnt r + 1\<rparr>"
      let ?tp = "tp\<lparr>pdata := (pdata tp)[(timers_start r + ?k) mod psize tp := ?t]\<rparr>"
      have cnt: "stored_count (hits # hs) ts = Suc (stored_count hs ts')" using False by (simp add: ts)
      have k: "unat (timers_cnt r + 1) = Suc ?k"
        using Cons.prems(9) cnt by (simp add: unat_word_ariths)
      have slot: "record_get_timer_id tp r ?k = (timers_start r + ?k) mod psize tp"
        using Cons.prems(7,10) cnt by (intro timer_slot_mod) simp_all
      from Cons.IH [of g1 cache1 ?r ?tp ts' "Suc i" "tt + unat tgs" ms' "c + length tgl"] obtain cache2 where
        "add_timers_loop env q rid (Suc i) (tt + unat tgs) hs ts' (?r, ?tp, c + length tgl, cache1, g1) =
          (?r\<lparr>timers_cnt := timers_cnt ?r + of_nat (length ms')\<rparr>,
           ?tp\<lparr>pdata := put_timers (psize ?tp) (timers_start ?r + unat (timers_cnt ?r)) ms' (pdata ?tp)\<rparr>,
           c + length tgl + stored_tags ms', cache2, g')" "registry_ok (tag_gc_enabled (ie_tags (me_ingest env))) g'"
        using mt(2,3) Cons.prems ms' cnt k by (auto simp: rs)
      then show ?thesis
        using mt(1) rs False Cons.prems(4,6) slot k
        by (simp add: ts ms Let_def stored_tags_def add.assoc)
    qed
  qed
qed (simp add: stored_tags_def)

lemma stored_count_le: "stored_count hs ts \<le> length hs"
  by (induction hs ts rule: stored_count.induct) auto

definition request_timers :: "ingest_env \<Rightarrow> pinba_request \<Rightarrow> pinba_word list \<Rightarrow> nat \<Rightarrow> tag_registry \<Rightarrow> pinba_timer_record list \<times> tag_registry" where
  "request_timers env q words rid g = merged_timers env q words rid 0 0 (q_timer_hit_count q) (q_timer_tag_count q) g"

lemma request_timers_length: "length (fst (request_timers env q words rid g)) = pinba_stored_timer_count q"
  by (simp add: request_timers_def merged_timers_length pinba_stored_timer_count_def)

lemma add_timers_result:
  assumes g: "registry_ok (tag_gc_enabled (ie_tags (me_ingest env))) g" and q: "request_valid q"
    and words: "names_short (n_dictionary q) (dictionary_words r)" and arr: "\<forall>k. me_arrays env k"
    and tp: "timers_start r < psize tp" "length (pdata tp) = psize tp" "pinba_stored_timer_count q \<le> psize tp"
    and ms: "request_timers (me_ingest env) q (dictionary_words r) rid g = (ms, g')"
  shows "add_timers env q rid r tp c g =
      (r\<lparr>timers_cnt := of_nat (length ms)\<rparr>, tp\<lparr>pdata := put_timers (psize tp) (timers_start r) ms (pdata tp)\<rparr>,
       c + stored_tags ms, g')"
    and "registry_ok (tag_gc_enabled (ie_tags (me_ingest env))) g'"
    and "length ms = pinba_stored_timer_count q" and "pinba_stored_timer_count q \<le> USHRT_MAX"
proof -
  have le: "pinba_stored_timer_count q \<le> USHRT_MAX"
    using q stored_count_le [of "q_timer_hit_count q" "q_timer_tag_count q"]
    by (simp add: request_valid_def pinba_stored_timer_count_def)
  have idx: "\<forall>(i, v) \<in> set (zip (q_timer_tag_name q) (q_timer_tag_value q)). unat i < n_dictionary q \<and> unat v < n_dictionary q"
    using q by (auto simp: request_valid_def list_all_iff dest: set_zip_leftD set_zip_rightD)
  note loop = add_timers_loop_result [OF g temp_tags_ok [where env = env] words arr idx,
      where r = "r\<lparr>timers_cnt := 0\<rparr>" and tp = tp and i = 0 and tt = 0 and rid = rid and c = c
        and hs = "q_timer_hit_count q" and ts = "q_timer_tag_count q" and ms = ms and g' = g']
  show "add_timers env q rid r tp c g =
      (r\<lparr>timers_cnt := of_nat (length ms)\<rparr>, tp\<lparr>pdata := put_timers (psize tp) (timers_start r) ms (pdata tp)\<rparr>,
       c + stored_tags ms, g')" "registry_ok (tag_gc_enabled (ie_tags (me_ingest env))) g'"
    using loop tp le ms by (auto simp: add_timers_def pinba_stored_timer_count_def request_timers_def)
  show "length ms = pinba_stored_timer_count q" using request_timers_length [of "me_ingest env" q "dictionary_words r" rid g] ms by simp
  show "pinba_stored_timer_count q \<le> USHRT_MAX" by (rule le)
qed

text \<open>What the timers are: they belong to the request, and when all their names are admitted they keep all their tags.\<close>

lemma merged_timers_ids: "\<forall>t \<in> set (fst (merged_timers env q words rid i tt hs ts g)). timer_request_id t = of_nat rid"
  by (induction env q words rid i tt hs ts g rule: merged_timers.induct)
    (auto simp: fill_timer_def Let_def split: prod.splits)

lemma resolve_admitted:
  "admit_names env words (map fst nvs) g = (True, g') \<Longrightarrow>
   snd (resolve_tags env words nvs g) = g' \<and> length (fst (resolve_tags env words nvs g)) = length nvs"
  by (induction env words nvs g rule: resolve_tags.induct) (auto split: prod.splits option.splits)

lemma merged_admitted:
  assumes "admit_timers env words (q_timer_tag_name q) tt hs ts g = (True, g')"
    and "length (q_timer_tag_value q) = length (q_timer_tag_name q)" and "tt + (\<Sum>c \<leftarrow> ts. unat c) \<le> length (q_timer_tag_name q)"
  shows "snd (merged_timers env q words rid i tt hs ts g) = g' \<and>
     (\<forall>t \<in> set (fst (merged_timers env q words rid i tt hs ts g)). timer_tags t \<noteq> [])"
  using assms
proof (induction env words "q_timer_tag_name q" tt hs ts g arbitrary: i rule: admit_timers.induct)
  case (1 env words offset hits hs tgs ts g)
  show ?case
  proof (cases "hits = 0 \<or> tgs = 0")
    case True
    then show ?thesis using "1.hyps"(2) [of "Suc i"] "1.prems" by auto
  next
    case False
    let ?nvs = "take (unat tgs) (drop offset (zip (q_timer_tag_name q) (q_timer_tag_value q)))"
    have fst: "map fst ?nvs = take (unat tgs) (drop offset (q_timer_tag_name q))"
      using "1.prems"(2) by (simp add: take_map [symmetric] drop_map [symmetric])
    obtain g1 where g1: "admit_names env words (map fst ?nvs) g = (True, g1)"
        "admit_timers env words (q_timer_tag_name q) (offset + unat tgs) hs ts g1 = (True, g')"
      using "1.prems"(1) False unfolding fst by (auto split: prod.splits bool.splits)
    obtain tgl g2 where rs: "resolve_tags env words ?nvs g = (tgl, g2)" by fastforce
    have "0 < unat tgs" using False by (simp add: unat_gt_0)
    then have "length ?nvs = unat tgs" "0 < unat tgs" using "1.prems"(2,3) by auto
    then have tgl: "tgl \<noteq> []" "g2 = g1" using resolve_admitted [OF g1(1)] rs by auto
    have ih: "snd (merged_timers env q words rid (Suc i) (offset + unat tgs) hs ts g1) = g' \<and>
        (\<forall>t \<in> set (fst (merged_timers env q words rid (Suc i) (offset + unat tgs) hs ts g1)). timer_tags t \<noteq> [])"
      using "1.hyps"(1) [of True g1 "Suc i"] g1 "1.prems"(2,3) False unfolding fst by auto
    show ?thesis using ih rs tgl False by (auto split: prod.splits)
  qed
qed auto

section \<open>The timers of a batch\<close>

definition ex_timers ::
  "ingest_env \<Rightarrow> pinba_stats_record list \<Rightarrow> pinba_stats_record_ex \<Rightarrow> tag_registry \<Rightarrow> pinba_timer_record list \<times> tag_registry" where
  "ex_timers env d ex g =
     (case ex_request_id ex of
        None \<Rightarrow> ([], g)
      | Some i \<Rightarrow> request_timers env (ex_request ex) (dictionary_words (d ! i)) i g)"

fun batch_timers ::
  "ingest_env \<Rightarrow> pinba_stats_record list \<Rightarrow> pinba_stats_record_ex list \<Rightarrow> tag_registry \<Rightarrow>
   (pinba_stats_record_ex \<times> pinba_timer_record list) list \<times> tag_registry" where
  "batch_timers env d [] g = ([], g)"
| "batch_timers env d (ex # exs) g =
     (case ex_timers env d ex g of
        (ts, g) \<Rightarrow> (case batch_timers env d exs g of (tss, g) \<Rightarrow> ((ex, ts) # tss, g)))"

text \<open>Where the records find their timers, from position \<open>pos\<close> of a ring of \<open>n\<close> cells.\<close>

definition place_timer ::
  "nat \<Rightarrow> nat \<Rightarrow> pinba_stats_record_ex \<Rightarrow> nat \<Rightarrow> pinba_stats_record list \<Rightarrow> pinba_stats_record list" where
  "place_timer n pos ex cnt d =
     (case ex_request_id ex of
        None \<Rightarrow> d
      | Some i \<Rightarrow>
          if q_timer_hit_count (ex_request ex) = [] then d
          else d[i := (d ! i)\<lparr>timers_start := pos mod n, timers_cnt := of_nat cnt\<rparr>])"

fun place_timers ::
  "nat \<Rightarrow> nat \<Rightarrow> (pinba_stats_record_ex \<times> pinba_timer_record list) list \<Rightarrow> pinba_stats_record list \<Rightarrow> pinba_stats_record list" where
  "place_timers n pos [] d = d"
| "place_timers n pos ((ex, ts) # xs) d = place_timers n (pos + length ts) xs (place_timer n pos ex (length ts) d)"

text \<open>A staged record that was copied to its cell with its words.\<close>

definition copied_ok :: "pinba_stats_record list \<Rightarrow> pinba_stats_record_ex \<Rightarrow> bool" where
  "copied_ok d ex \<longleftrightarrow>
     (case ex_request_id ex of
        None \<Rightarrow> True
      | Some i \<Rightarrow> request_valid (ex_request ex) \<and> i < length d \<and>
          names_short (n_dictionary (ex_request ex)) (dictionary_words (d ! i)))"

lemma put_timers_mod: "pos mod n = pos' mod n \<Longrightarrow> put_timers n pos ts d = put_timers n pos' ts d"
proof (induction ts arbitrary: pos pos' d)
  case (Cons t ts)
  then show ?case using Cons.IH [of "Suc pos" "Suc pos'"] by (simp add: mod_Suc)
qed simp

lemma merge_record_result:
  assumes g: "registry_ok (tag_gc_enabled (ie_tags (me_ingest env))) (ms_registry s)" and arr: "\<forall>k. me_arrays env k"
    and ex: "copied_ok (pdata (ms_requests s)) ex"
    and tp: "length (pdata (ms_timers s)) = psize (ms_timers s)"
    and pos: "pos = tprefix + ms_timers_cnt s" "pos < 2 * psize (ms_timers s)"
    and ts: "ex_timers (me_ingest env) (pdata (ms_requests s)) ex (ms_registry s) = (ts, g')"
    and fit: "length ts \<le> psize (ms_timers s)"
  shows "merge_record env tprefix ex s =
      s\<lparr>ms_requests := (ms_requests s)\<lparr>pdata := place_timer (psize (ms_timers s)) pos ex (length ts) (pdata (ms_requests s))\<rparr>,
        ms_timers := (ms_timers s)\<lparr>pdata := put_timers (psize (ms_timers s)) pos ts (pdata (ms_timers s))\<rparr>,
        ms_timers_cnt := ms_timers_cnt s + length ts, ms_timertag_cnt := ms_timertag_cnt s + stored_tags ts, ms_registry := g'\<rparr> \<and>
     registry_ok (tag_gc_enabled (ie_tags (me_ingest env))) g'"
proof (cases "ex_request_id ex")
  case None
  then show ?thesis using ts g by (simp add: merge_record_def ex_timers_def place_timer_def stored_tags_def)
next
  case (Some i)
  let ?q = "ex_request ex" and ?rp = "ms_requests s" and ?tp = "ms_timers s" and ?n = "psize (ms_timers s)"
  have q: "request_valid ?q" "names_short (n_dictionary ?q) (dictionary_words (pdata ?rp ! i))"
    using ex by (simp_all add: copied_ok_def Some)
  have ts': "request_timers (me_ingest env) ?q (dictionary_words (pdata ?rp ! i)) i (ms_registry s) = (ts, g')"
    using ts by (simp add: ex_timers_def Some)
  show ?thesis
  proof (cases "q_timer_hit_count ?q = []")
    case True
    then have "ts = []" "g' = ms_registry s" using ts' by (simp_all add: request_timers_def)
    then show ?thesis
      using True q(1) g by (simp add: merge_record_def Some place_timer_def stored_tags_def request_valid_def Let_def)
  next
    case False
    define r where "r = (pdata ?rp ! i)\<lparr>timers_start := pos mod ?n\<rparr>"
    have n: "0 < ?n" "pos mod ?n < ?n" using pos(2) by auto
    have first: "(if ?n \<le> pos then pos - ?n else pos) = pos mod ?n" using pos(2) by (simp add: le_mod_geq)
    have len: "length ts = pinba_stored_timer_count ?q"
      using request_timers_length [of "me_ingest env" ?q "dictionary_words (pdata ?rp ! i)" i "ms_registry s"] ts' by simp
    have r: "names_short (n_dictionary ?q) (dictionary_words r)" "timers_start r < ?n" "pinba_stored_timer_count ?q \<le> ?n"
      "request_timers (me_ingest env) ?q (dictionary_words r) i (ms_registry s) = (ts, g')"
      using q(2) n len fit ts' by (simp_all add: r_def)
    note add = add_timers_result [OF g q(1) r(1) arr r(2) tp r(3,4)]
    have "add_timers env ?q i r ?tp (ms_timertag_cnt s) (ms_registry s) =
        (r\<lparr>timers_cnt := of_nat (length ts)\<rparr>, ?tp\<lparr>pdata := put_timers ?n (pos mod ?n) ts (pdata ?tp)\<rparr>,
         ms_timertag_cnt s + stored_tags ts, g')" "registry_ok (tag_gc_enabled (ie_tags (me_ingest env))) g'"
      "length ts \<le> USHRT_MAX"
      using add len by (simp_all add: r_def)
    moreover from this(3) have "unat (of_nat (length ts) :: u16) = length ts" by (simp add: unat_of_nat)
    moreover have "put_timers ?n (pos mod ?n) ts (pdata ?tp) = put_timers ?n pos ts (pdata ?tp)" by (rule put_timers_mod) simp
    ultimately show ?thesis
      using False q(1) unfolding merge_record_def Some Let_def option.case pos(1) [symmetric] first r_def [symmetric]
      by (simp add: place_timer_def Some request_valid_def r_def)
  qed
qed

lemma place_timer_facts:
  "length (place_timer n pos ex cnt d) = length d"
  "dictionary_words (place_timer n pos ex cnt d ! i) = dictionary_words (d ! i)"
proof -
  show "length (place_timer n pos ex cnt d) = length d" by (simp add: place_timer_def split: option.splits)
  show "dictionary_words (place_timer n pos ex cnt d ! i) = dictionary_words (d ! i)"
    by (auto simp: place_timer_def nth_update split: option.splits)
qed

lemma batch_timers_place: "batch_timers env (place_timer n pos ex cnt d) exs g = batch_timers env d exs g"
proof -
  have "ex_timers env (place_timer n pos ex cnt d) ex' g = ex_timers env d ex' g" for ex' g
    by (simp add: ex_timers_def place_timer_facts split: option.splits)
  then show ?thesis by (induction exs arbitrary: g) simp_all
qed

lemma copied_place: "copied_ok (place_timer n pos ex cnt d) = copied_ok d"
  by (simp add: fun_eq_iff copied_ok_def place_timer_facts split: option.splits)

lemma merge_records_result:
  assumes "registry_ok (tag_gc_enabled (ie_tags (me_ingest env))) (ms_registry s)" and arr: "\<forall>k. me_arrays env k"
    and "list_all (copied_ok (pdata (ms_requests s))) exs"
    and "length (pdata (ms_timers s)) = psize (ms_timers s)"
    and "batch_timers (me_ingest env) (pdata (ms_requests s)) exs (ms_registry s) = (tss, g')"
    and "pos = tprefix + ms_timers_cnt s"
    and "pos + length (concat (map snd tss)) < 2 * psize (ms_timers s)" and "length (concat (map snd tss)) \<le> psize (ms_timers s)"
  shows "fold (merge_record env tprefix) exs s =
      s\<lparr>ms_requests := (ms_requests s)\<lparr>pdata := place_timers (psize (ms_timers s)) pos tss (pdata (ms_requests s))\<rparr>,
        ms_timers := (ms_timers s)\<lparr>pdata := put_timers (psize (ms_timers s)) pos (concat (map snd tss)) (pdata (ms_timers s))\<rparr>,
        ms_timers_cnt := ms_timers_cnt s + length (concat (map snd tss)),
        ms_timertag_cnt := ms_timertag_cnt s + stored_tags (concat (map snd tss)), ms_registry := g'\<rparr> \<and>
     registry_ok (tag_gc_enabled (ie_tags (me_ingest env))) g'"
  using assms
proof (induction exs arbitrary: s tss pos)
  case (Cons ex exs)
  let ?rp = "ms_requests s" and ?tp = "ms_timers s" and ?n = "psize (ms_timers s)"
  obtain ts g1 where ts: "ex_timers (me_ingest env) (pdata ?rp) ex (ms_registry s) = (ts, g1)" by fastforce
  obtain tss' where tss': "batch_timers (me_ingest env) (pdata ?rp) exs g1 = (tss', g')" and tss: "tss = (ex, ts) # tss'"
    using Cons.prems(5) ts by (auto split: prod.splits)
  let ?s = "s\<lparr>ms_requests := ?rp\<lparr>pdata := place_timer ?n pos ex (length ts) (pdata ?rp)\<rparr>,
      ms_timers := ?tp\<lparr>pdata := put_timers ?n pos ts (pdata ?tp)\<rparr>,
      ms_timers_cnt := ms_timers_cnt s + length ts, ms_timertag_cnt := ms_timertag_cnt s + stored_tags ts, ms_registry := g1\<rparr>"
  have one: "merge_record env tprefix ex s = ?s" "registry_ok (tag_gc_enabled (ie_tags (me_ingest env))) g1"
    using merge_record_result [OF Cons.prems(1) arr _ Cons.prems(4,6) _ ts] Cons.prems(3,7,8) by (simp_all add: tss)
  have "fold (merge_record env tprefix) exs ?s =
      ?s\<lparr>ms_requests := (ms_requests ?s)\<lparr>pdata := place_timers (psize (ms_timers ?s)) (pos + length ts) tss' (pdata (ms_requests ?s))\<rparr>,
        ms_timers := (ms_timers ?s)\<lparr>pdata := put_timers (psize (ms_timers ?s)) (pos + length ts) (concat (map snd tss')) (pdata (ms_timers ?s))\<rparr>,
        ms_timers_cnt := ms_timers_cnt ?s + length (concat (map snd tss')),
        ms_timertag_cnt := ms_timertag_cnt ?s + stored_tags (concat (map snd tss')), ms_registry := g'\<rparr> \<and>
     registry_ok (tag_gc_enabled (ie_tags (me_ingest env))) g'"
    by (rule Cons.IH)
      (use one(2) Cons.prems in \<open>simp_all add: copied_place batch_timers_place tss' tss add.assoc arr\<close>)
  then show ?case by (simp add: one(1) tss put_timers_append stored_tags_def add.assoc)
qed (simp add: stored_tags_def)

section \<open>The new requests own their timers\<close>

definition cell_of :: "pinba_stats_record_ex \<Rightarrow> nat" where
  "cell_of ex = the (ex_request_id ex)"

lemma place_timers_mod: "pos mod n = pos' mod n \<Longrightarrow> place_timers n pos xs d = place_timers n pos' xs d"
proof (induction xs arbitrary: pos pos' d)
  case (Cons x xs)
  obtain ex ts where x: "x = (ex, ts)" by (cases x)
  have e: "(pos + length ts) mod n = (pos' + length ts) mod n" using Cons.prems by (metis mod_add_left_eq)
  have p: "place_timer n pos ex c d = place_timer n pos' ex c d" for c d
    unfolding place_timer_def Cons.prems ..
  show ?case unfolding x place_timers.simps p by (rule Cons.IH [OF e])
qed simp

lemma retimed_refl: "\<exists>a b. r = r\<lparr>timers_start := a, timers_cnt := b\<rparr>" for r :: pinba_stats_record
  by (rule exI [of _ "timers_start r"], rule exI [of _ "timers_cnt r"]) simp

lemma retimed_place: "\<exists>a b. place_timer n pos ex cnt d ! i = (d ! i)\<lparr>timers_start := a, timers_cnt := b\<rparr>"
proof (cases "ex_request_id ex = Some i \<and> q_timer_hit_count (ex_request ex) \<noteq> [] \<and> i < length d")
  case True
  then show ?thesis by (auto simp: place_timer_def)
next
  case False
  then have "place_timer n pos ex cnt d ! i = d ! i" by (auto simp: place_timer_def nth_update split: option.splits)
  then show ?thesis using retimed_refl by simp
qed

lemma place_timers_facts:
  "length (place_timers n pos xs d) = length d"
  "i \<notin> cell_of ` fst ` set xs \<Longrightarrow> place_timers n pos xs d ! i = d ! i"
  "\<exists>a b. place_timers n pos xs d ! i = (d ! i)\<lparr>timers_start := a, timers_cnt := b\<rparr>"
proof (induction xs arbitrary: pos d)
  case (Cons x xs)
  obtain ex ts where x: "x = (ex, ts)" by (cases x)
  { case 1 then show ?case using Cons by (simp add: x place_timer_facts) }
  { case 2
    then have "place_timer n pos ex (length ts) d ! i = d ! i"
      by (auto simp: x place_timer_def cell_of_def nth_update split: option.splits)
    then show ?case using Cons.IH(2) 2 by (simp add: x) }
  { case 3
    obtain a b where "place_timers n (pos + length ts) xs (place_timer n pos ex (length ts) d) ! i =
        (place_timer n pos ex (length ts) d ! i)\<lparr>timers_start := a, timers_cnt := b\<rparr>" using Cons.IH(3) by blast
    moreover obtain a' b' where "place_timer n pos ex (length ts) d ! i = (d ! i)\<lparr>timers_start := a', timers_cnt := b'\<rparr>"
      using retimed_place by blast
    ultimately show ?case by (simp add: x) blast }
next
  case Nil
  { case 3 then show ?case unfolding place_timers.simps by (rule retimed_refl) }
qed simp_all

definition timers_of_ex :: "pinba_stats_record_ex \<times> pinba_timer_record list \<Rightarrow> bool" where
  "timers_of_ex x \<longleftrightarrow>
     (case x of (ex, ts) \<Rightarrow>
        ex_request_id ex \<noteq> None \<and> length ts \<le> USHRT_MAX \<and> (q_timer_hit_count (ex_request ex) = [] \<longrightarrow> ts = []) \<and>
        (\<forall>t \<in> set ts. timer_request_id t = of_nat (cell_of ex) \<and> timer_tags t \<noteq> []))"

lemma laid_new:
  assumes n: "0 < psize tp"
    and "\<forall>k < length (concat (map snd xs)). pdata tp ! ((pout tp + off + k) mod psize tp) = concat (map snd xs) ! k"
    and "off + length (concat (map snd xs)) = pinba_pool_num_records tp" and "pinba_pool_num_records tp < psize tp"
    and "list_all timers_of_ex xs" and "distinct (map (\<lambda>x. cell_of (fst x)) xs)"
    and "\<forall>x \<in> set xs. cell_of (fst x) < length d \<and> timers_cnt (d ! cell_of (fst x)) = 0"
  shows "laid tp (place_timers (psize tp) (pout tp + off) xs d) off (map (\<lambda>x. cell_of (fst x)) xs) \<and>
     (\<forall>x \<in> set xs. record_timers tp (place_timers (psize tp) (pout tp + off) xs d ! cell_of (fst x)) = snd x)"
  using assms(2-)
proof (induction xs arbitrary: off d)
  case (Cons x xs)
  obtain ex ts where x: "x = (ex, ts)" by (cases x)
  let ?i = "cell_of ex" and ?n = "psize tp" and ?d = "place_timer (psize tp) (pout tp + off) ex (length ts) d"
  let ?e = "place_timers (psize tp) (pout tp + off + length ts) xs ?d"
  have i: "ex_request_id ex = Some ?i" "length ts \<le> USHRT_MAX" "q_timer_hit_count (ex_request ex) = [] \<Longrightarrow> ts = []"
    "\<forall>t \<in> set ts. timer_request_id t = of_nat ?i \<and> timer_tags t \<noteq> []"
    "?i \<notin> cell_of ` fst ` set xs" "?i < length d" "timers_cnt (d ! ?i) = 0"
    using Cons.prems(4-6) by (auto simp: x timers_of_ex_def cell_of_def)
  have ei: "?e ! ?i = ?d ! ?i" using place_timers_facts(2) i(5) by blast
  have cnt: "unat (of_nat (length ts) :: u16) = length ts" using i(2) by (simp add: unat_of_nat)
  have di: "unat (timers_cnt (?d ! ?i)) = length ts" "ts \<noteq> [] \<Longrightarrow> timers_start (?d ! ?i) = (pout tp + off) mod ?n"
    using i(3,6,7) cnt by (auto simp: place_timer_def i(1))
  have at: "pdata tp ! ((pout tp + off + k) mod ?n) = ts ! k" if "k < length ts" for k
    using Cons.prems(1) that by (auto simp: x nth_append)
  have rt: "record_timers tp (?d ! ?i) = ts"
  proof (cases "ts = []")
    case False
    have "record_get_timer tp (?d ! ?i) k = ts ! k" if "k < length ts" for k
    proof -
      have "k < ?n" using that Cons.prems(2,3) by (simp add: x)
      then show ?thesis using get_timer_mod [OF di(2) [OF False] _ n] at [OF that] by metis
    qed
    then show ?thesis unfolding record_timers_def di(1) by (intro nth_equalityI) simp_all
  qed (use di(1) in \<open>simp add: record_timers_def\<close>)
  have zero: "timers_cnt (?d ! cell_of (fst y)) = 0" if "y \<in> set xs" for y
  proof -
    have "cell_of (fst y) \<noteq> ?i" using i(5) that by (metis imageI)
    then have "?d ! cell_of (fst y) = d ! cell_of (fst y)" by (simp add: place_timer_def i(1) nth_update)
    then show ?thesis using Cons.prems(6) that by simp
  qed
  have data: "\<forall>k < length (concat (map snd xs)). pdata tp ! ((pout tp + (off + length ts) + k) mod ?n) = concat (map snd xs) ! k"
  proof (intro allI impI)
    fix k assume "k < length (concat (map snd xs))"
    then have "pdata tp ! ((pout tp + off + (length ts + k)) mod ?n) = (ts @ concat (map snd xs)) ! (length ts + k)"
      using Cons.prems(1) by (simp add: x)
    then show "pdata tp ! ((pout tp + (off + length ts) + k) mod ?n) = concat (map snd xs) ! k"
      by (simp only: nth_append_length_plus add.assoc)
  qed
  have ih: "laid tp ?e (off + length ts) (map (\<lambda>x. cell_of (fst x)) xs) \<and> (\<forall>x \<in> set xs. record_timers tp (?e ! cell_of (fst x)) = snd x)"
    using Cons.IH [of "off + length ts" ?d, OF data] Cons.prems zero by (simp add: x place_timer_facts add.assoc)
  have "timers_cnt (?d ! ?i) \<noteq> 0 \<longrightarrow> timers_start (?d ! ?i) = (pout tp + off) mod ?n"
    using di by (cases "ts = []") (auto simp: unat_eq_0)
  then show ?case
    using ih rt di(1) i(4) ei by (simp add: x add.assoc)
qed simp

section \<open>One request\<close>

text \<open>Where the arguments of \<open>add_timers\<close> come from: a valid request, its words and its reserved cells.\<close>

definition merge_ready ::
  "merge_env \<Rightarrow> pinba_request \<Rightarrow> pinba_stats_record \<Rightarrow> pinba_timer_record pinba_pool \<Rightarrow> tag_registry \<Rightarrow> bool" where
  "merge_ready env q r tp g \<longleftrightarrow>
     registry_ok (tag_gc_enabled (ie_tags (me_ingest env))) g \<and> request_valid q \<and>
     names_short (n_dictionary q) (dictionary_words r) \<and> timers_start r < psize tp \<and>
     length (pdata tp) = psize tp \<and> pinba_stored_timer_count q \<le> psize tp"

lemma add_timers_reads_back:
  assumes ok: "merge_ready env q r tp g" and arr: "\<forall>k. me_arrays env k" and add: "add_timers env q rid r tp c g = (r', tp', c', g')"
  shows "record_timers tp' r' = fst (request_timers (me_ingest env) q (dictionary_words r) rid g)"
    and "j \<notin> (\<lambda>k. (timers_start r + k) mod psize tp) ` {..<pinba_stored_timer_count q} \<Longrightarrow> pdata tp' ! j = pdata tp ! j"
proof -
  obtain ms h where ms: "request_timers (me_ingest env) q (dictionary_words r) rid g = (ms, h)" by fastforce
  have ok': "registry_ok (tag_gc_enabled (ie_tags (me_ingest env))) g" "request_valid q"
    "names_short (n_dictionary q) (dictionary_words r)" "timers_start r < psize tp" "length (pdata tp) = psize tp"
    "pinba_stored_timer_count q \<le> psize tp" using ok by (simp_all add: merge_ready_def)
  note res = add_timers_result [OF ok'(1-3) arr ok'(4-6) ms]
  have e: "r' = r\<lparr>timers_cnt := of_nat (length ms)\<rparr>" "tp' = tp\<lparr>pdata := put_timers (psize tp) (timers_start r) ms (pdata tp)\<rparr>"
    using res(1) [of c] add by simp_all
  have fit: "length ms \<le> psize tp" using res(3) ok'(6) by simp
  note put = put_timers_nth [OF ok'(5) fit]
  have cnt: "unat (timers_cnt r') = length ms" using res(3,4) by (simp add: e unat_of_nat)
  have "record_get_timer tp' r' k = ms ! k" if "k < length ms" for k
  proof -
    have "k < psize tp" using that fit by simp
    then have "record_get_timer tp' r' k = pdata tp' ! ((timers_start r + k) mod psize tp)"
      using timer_slot_mod [of r' tp' k] ok'(4) by (simp add: e record_get_timer_def record_get_timer_id_def split: if_splits)
    then show ?thesis using put(1) [of "timers_start r"] that by (simp add: e)
  qed
  then show "record_timers tp' r' = fst (request_timers (me_ingest env) q (dictionary_words r) rid g)"
    unfolding record_timers_def cnt ms by (intro nth_equalityI) simp_all
  show "pdata tp' ! j = pdata tp ! j"
    if "j \<notin> (\<lambda>k. (timers_start r + k) mod psize tp) ` {..<pinba_stored_timer_count q}"
    using put(2) that res(3) by (simp add: e)
qed

definition sample_merge_env :: merge_env where
  "sample_merge_env = \<lparr>me_ingest = sample_ingest_env, me_cache = False, me_arrays = (\<lambda>_. True)\<rparr>"

definition sample_merge_request :: pinba_request where
  "sample_merge_request = convert_fields sample_proto"

definition sample_worded :: pinba_stats_record where
  "sample_worded =
     (sample_timed 3 0)\<lparr>dictionary_words := [\<lparr>word_addr = 1, word_str = ''op''\<rparr>, \<lparr>word_addr = 2, word_str = ''get''\<rparr>]\<rparr>"

definition no_tags :: tag_registry where
  "no_tags = \<lparr>tag_table = None, name_index = None, next_id = 0, live_ids = [], cursor_refs = (\<lambda>_. 0)\<rparr>"

lemma sample_merge_ready: "merge_ready sample_merge_env sample_merge_request sample_worded sample_timer_pool no_tags"
proof -
  have "registry_ok True no_tags"
    by (simp add: no_tags_def registry_ok_def pinba_map_get_def pinba_lmap_get_def map_wf_def fun_eq_iff)
  moreover have "request_valid sample_merge_request" "n_dictionary sample_merge_request = 2"
    by (simp_all add: sample_merge_request_def sample_proto_def convert_fields_def request_valid_def INT_MAX_def Let_def)
  moreover have "pinba_stored_timer_count sample_merge_request = 1"
    by (simp add: sample_merge_request_def sample_proto_def convert_fields_def pinba_stored_timer_count_def Let_def)
  ultimately show ?thesis
    by (simp add: merge_ready_def sample_merge_env_def sample_ingest_env_def names_short_def sample_worded_def
        sample_timer_pool_def sample_timed_def nth_Cons')
qed

lemma sample_merge_arrays: "\<forall>k. me_arrays sample_merge_env k"
  by (simp add: sample_merge_env_def)

text \<open>
  C32: Merging a request stores exactly its timers that have hits and tags, in order, each with the
  descriptors its names resolve to one after the other, and changes no timer outside the cells
  reserved for the request. When all names were admitted while staging, no stored timer is
  without tags and the registry ends as the admission leaves it.
\<close>

theorem merge_stores_timers:
  assumes "merge_ready env q r tp g" and "\<forall>k. me_arrays env k" and "add_timers env q rid r tp c g = (r', tp', c', g')"
  shows "record_timers tp' r' = fst (request_timers (me_ingest env) q (dictionary_words r) rid g) \<and>
     (\<forall>j. j \<notin> (\<lambda>k. (timers_start r + k) mod psize tp) ` {..<pinba_stored_timer_count q} \<longrightarrow> pdata tp' ! j = pdata tp ! j) \<and>
     (\<forall>h. admit_timers (me_ingest env) (dictionary_words r) (q_timer_tag_name q) 0 (q_timer_hit_count q) (q_timer_tag_count q) g = (True, h) \<longrightarrow>
         g' = h \<and> (\<forall>t \<in> set (record_timers tp' r'). timer_tags t \<noteq> []))"
proof (intro conjI allI impI)
  show stored: "record_timers tp' r' = fst (request_timers (me_ingest env) q (dictionary_words r) rid g)"
    by (rule add_timers_reads_back(1) [OF assms])
  show "pdata tp' ! j = pdata tp ! j" if "j \<notin> (\<lambda>k. (timers_start r + k) mod psize tp) ` {..<pinba_stored_timer_count q}" for j
    using add_timers_reads_back(2) [OF assms that] .
  obtain ms h' where ms: "request_timers (me_ingest env) q (dictionary_words r) rid g = (ms, h')" by fastforce
  have g': "g' = h'" using add_timers_result(1) [OF _ _ _ assms(2) _ _ _ ms, of tp c] assms(1,3) by (simp add: merge_ready_def)
  have q: "length (q_timer_tag_value q) = length (q_timer_tag_name q)"
    "0 + (\<Sum>c \<leftarrow> q_timer_tag_count q. unat c) \<le> length (q_timer_tag_name q)"
    using assms(1) by (auto simp: merge_ready_def request_valid_def)
  fix h
  assume "admit_timers (me_ingest env) (dictionary_words r) (q_timer_tag_name q) 0 (q_timer_hit_count q) (q_timer_tag_count q) g = (True, h)"
  from merged_admitted [OF this q, of rid 0] show "g' = h" "\<forall>t \<in> set (record_timers tp' r'). timer_tags t \<noteq> []"
    using ms stored g' by (simp_all add: request_timers_def)
qed

theorem merge_stores_timers_witness:
  "case add_timers sample_merge_env sample_merge_request 0 sample_worded sample_timer_pool 0 no_tags of
     (r, tp, n, g) \<Rightarrow> record_timers tp r =
        fst (request_timers sample_ingest_env sample_merge_request (dictionary_words sample_worded) 0 no_tags) \<and>
        length (record_timers tp r) = 1 \<and> pdata tp ! 1 = pdata sample_timer_pool ! 1"
proof -
  obtain r tp n g where a: "add_timers sample_merge_env sample_merge_request 0 sample_worded sample_timer_pool 0 no_tags = (r, tp, n, g)"
    by (cases "add_timers sample_merge_env sample_merge_request 0 sample_worded sample_timer_pool 0 no_tags")
  have one: "pinba_stored_timer_count sample_merge_request = 1"
    by (simp add: sample_merge_request_def sample_proto_def convert_fields_def pinba_stored_timer_count_def Let_def)
  have "1 \<notin> (\<lambda>k. (timers_start sample_worded + k) mod psize sample_timer_pool) ` {..<pinba_stored_timer_count sample_merge_request}"
    by (simp add: one sample_worded_def sample_timed_def sample_timer_pool_def image_iff)
  then show ?thesis
    using merge_stores_timers [OF sample_merge_ready sample_merge_arrays a]
      request_timers_length [of sample_ingest_env sample_merge_request "dictionary_words sample_worded" 0 no_tags]
    unfolding a one by (auto simp: sample_merge_env_def)
qed

text \<open>
  C33: The cache of tag descriptors is an optimisation only: merging with it, with a cache that
  cannot be allocated, or with the static one gives what resolving every name in the registry
  gives.
\<close>

theorem tag_cache_transparent:
  assumes "merge_ready env q r tp g" and "\<forall>k. me_arrays env k"
  shows "add_timers (env\<lparr>me_cache := b\<rparr>) q rid r tp n g =
     (case request_timers (me_ingest env) q (dictionary_words r) rid g of
        (ms, g') \<Rightarrow> (r\<lparr>timers_cnt := of_nat (length ms)\<rparr>,
          tp\<lparr>pdata := put_timers (psize tp) (timers_start r) ms (pdata tp)\<rparr>, n + stored_tags ms, g'))"
  using add_timers_result(1) [of "env\<lparr>me_cache := b\<rparr>" g q r tp rid] assms
  by (auto simp: merge_ready_def split: prod.splits)

theorem tag_cache_transparent_witness:
  "add_timers (sample_merge_env\<lparr>me_cache := True\<rparr>) sample_merge_request 0 sample_worded sample_timer_pool 0 no_tags =
   (case request_timers sample_ingest_env sample_merge_request (dictionary_words sample_worded) 0 no_tags of
      (ms, g') \<Rightarrow> (sample_worded\<lparr>timers_cnt := of_nat (length ms)\<rparr>,
        sample_timer_pool\<lparr>pdata := put_timers (psize sample_timer_pool) (timers_start sample_worded) ms (pdata sample_timer_pool)\<rparr>,
        stored_tags ms, g'))"
  using tag_cache_transparent [OF sample_merge_ready sample_merge_arrays, of True 0 0]
  by (simp add: sample_merge_env_def)

end
