(* ===== verification/Batch.thy ===== *)
theory Batch
  imports Timer_Merge
begin

text \<open>
  One round of the data thread (\<^verbatim>\<open>pinba_data_main\<close>, \<^verbatim>\<open>src/main.cc\<close>): the workers stage the packets
  they read, the staged records are copied to the free cells of the request pool, gaps left by
  failed copies are closed, the reports are fed, the timers are merged, and the new requests are
  published by moving \<^verbatim>\<open>in\<close>. The jobs of a round touch disjoint data, so the model runs them in
  the order of the threads.
\<close>

section \<open>Copying\<close>

text \<open>
  What a round depends on: \<open>be_copy t i\<close> says whether the buffers for record \<open>i\<close> of worker \<open>t\<close> can
  be allocated, \<open>be_jobs\<close> whether the job buffers can, \<open>be_timer_mem cnt\<close> is the memory by which
  the timer pool may grow for \<open>cnt\<close> more timers.
\<close>

record batch_env =
  be_merge :: merge_env
  be_job :: job_env
  be_copy :: "nat \<Rightarrow> nat \<Rightarrow> bool"
  be_jobs :: bool
  be_timer_mem :: "nat \<Rightarrow> pinba_timer_record list option"

text \<open>
  The loop of \<^verbatim>\<open>request_copy_job_func\<close>: a record is prepared in cell \<open>tmp_id\<close>; when its buffers
  cannot be allocated the cell is used again for the next one.
\<close>

fun copy_loop ::
  "(nat \<Rightarrow> bool) \<Rightarrow> u64 \<Rightarrow> nat \<Rightarrow> pinba_stats_record_ex list \<Rightarrow> nat \<Rightarrow>
   pinba_stats_record pinba_pool \<Rightarrow> pinba_dictionary \<Rightarrow>
   pinba_stats_record_ex list \<times> pinba_stats_record pinba_pool \<times> pinba_dictionary" where
  "copy_loop mem first i [] tmp_id rp d = ([], rp, d)"
| "copy_loop mem first i (ex # exs) tmp_id rp d =
     (case pinba_record_release_words (pdata rp ! tmp_id) d of
        (old, d) \<Rightarrow>
          let record = (ex_record ex)\<lparr>counter := first + of_nat i\<rparr>
          in if \<not> mem i
             then (case copy_loop mem first (Suc i) exs tmp_id
                          (rp\<lparr>pdata := (pdata rp)[tmp_id := record\<lparr>active := False, tags := [], dictionary_words := []\<rparr>]\<rparr>) d of
                     (exs, rp, d) \<Rightarrow> (ex\<lparr>ex_request_id := None\<rparr> # exs, rp, d))
             else (case copy_loop mem first (Suc i) exs (next_cell rp tmp_id)
                          (rp\<lparr>pdata := (pdata rp)[tmp_id := record\<lparr>active := True, dictionary_words := ex_words ex\<rparr>]\<rparr>) d of
                     (exs, rp, d) \<Rightarrow>
                       (ex\<lparr>ex_request_id := Some tmp_id, ex_words := [], ex_record := (ex_record ex)\<lparr>tags := []\<rparr>\<rparr> # exs, rp, d)))"

definition request_copy_job_func ::
  "(nat \<Rightarrow> bool) \<Rightarrow> u64 \<Rightarrow> nat \<Rightarrow> pinba_stats_record_ex list \<Rightarrow> pinba_stats_record pinba_pool \<Rightarrow> pinba_dictionary \<Rightarrow>
   pinba_stats_record_ex list \<times> pinba_stats_record pinba_pool \<times> pinba_dictionary" where
  "request_copy_job_func mem c start0 exs rp d =
     (let tmp_id = pin rp + start0;
          tmp_id = (if tmp_id \<ge> psize rp then tmp_id - psize rp else tmp_id)
      in copy_loop mem (c + of_nat start0) 0 exs tmp_id rp d)"

text \<open>
  The jobs of all workers: each takes the records that still fit. The result keeps the copied
  records of each worker apart from the ones that did not fit.
\<close>

fun copy_jobs ::
  "(nat \<Rightarrow> nat \<Rightarrow> bool) \<Rightarrow> u64 \<Rightarrow> nat \<Rightarrow> nat \<Rightarrow> nat \<Rightarrow> pinba_stats_record_ex list list \<Rightarrow>
   pinba_stats_record pinba_pool \<Rightarrow> pinba_dictionary \<Rightarrow>
   (pinba_stats_record_ex list \<times> pinba_stats_record_ex list) list \<times> pinba_stats_record pinba_pool \<times> pinba_dictionary" where
  "copy_jobs mem c t accounted records_to_copy [] rp d = ([], rp, d)"
| "copy_jobs mem c t accounted records_to_copy (exs # exss) rp d =
     (let end0 = (if length exs > records_to_copy then records_to_copy else length exs)
      in case request_copy_job_func (mem t) c accounted (take end0 exs) rp d of
           (copied, rp, d) \<Rightarrow>
             (case copy_jobs mem c (Suc t) (accounted + end0) (records_to_copy - end0) exss rp d of
                (rest, rp, d) \<Rightarrow> ((copied, drop end0 exs) # rest, rp, d)))"

text \<open>Closing the gaps: the copied records move to consecutive cells and are numbered anew.\<close>

fun compact_loop ::
  "u64 \<Rightarrow> nat \<Rightarrow> nat \<Rightarrow> pinba_stats_record_ex list \<Rightarrow> pinba_stats_record pinba_pool \<Rightarrow>
   pinba_stats_record_ex list \<times> nat \<times> nat \<times> pinba_stats_record pinba_pool" where
  "compact_loop c k position [] rp = ([], k, position, rp)"
| "compact_loop c k position (ex # exs) rp =
     (case ex_request_id ex of
        None \<Rightarrow>
          (case compact_loop c k position exs rp of (exs, k, position, rp) \<Rightarrow> (ex # exs, k, position, rp))
      | Some i \<Rightarrow>
          let source = pdata rp ! i; target = pdata rp ! position;
              data = (if i \<noteq> position then (pdata rp)[i := target, position := source] else pdata rp);
              data = data[position := (data ! position)\<lparr>counter := c + of_nat k\<rparr>]
          in case compact_loop c (Suc k) ((position + 1) mod psize rp) exs (rp\<lparr>pdata := data\<rparr>) of
               (exs, k, position', rp) \<Rightarrow> (ex\<lparr>ex_request_id := Some position\<rparr> # exs, k, position', rp))"

fun compact_jobs ::
  "u64 \<Rightarrow> nat \<Rightarrow> nat \<Rightarrow> (pinba_stats_record_ex list \<times> pinba_stats_record_ex list) list \<Rightarrow> pinba_stats_record pinba_pool \<Rightarrow>
   (pinba_stats_record_ex list \<times> pinba_stats_record_ex list) list \<times> pinba_stats_record pinba_pool" where
  "compact_jobs c k position [] rp = ([], rp)"
| "compact_jobs c k position ((copied, left) # jobs) rp =
     (case compact_loop c k position copied rp of
        (copied, k, position, rp) \<Rightarrow>
          (case compact_jobs c k position jobs rp of (jobs, rp) \<Rightarrow> ((copied, left) # jobs, rp)))"

section \<open>The round\<close>

text \<open>The workers stage their packets; the result is what each staged and how much was invalid.\<close>

fun stage_jobs ::
  "ingest_env \<Rightarrow> pinba_timeval \<Rightarrow> request_tree option list list \<Rightarrow> pinba_dictionary \<Rightarrow> tag_registry \<Rightarrow>
   pinba_stats_record_ex list list \<times> nat \<times> pinba_dictionary \<times> tag_registry" where
  "stage_jobs env now [] d g = ([], 0, d, g)"
| "stage_jobs env now (packets # pools) d g =
     (let s = data_job_func env now packets \<lparr>ss_dictionary = d, ss_registry = g, ss_staged = [], ss_invalid = 0\<rparr>
      in case stage_jobs env now pools (ss_dictionary s) (ss_registry s) of
           (exss, invalid, d, g) \<Rightarrow> (ss_staged s # exss, ss_invalid s + invalid, d, g))"

text \<open>The counts of one worker: records, timers and request tags.\<close>

definition created :: "pinba_stats_record_ex list \<Rightarrow> pinba_stats_record_ex list" where
  "created exs = filter (\<lambda>ex. ex_request_id ex \<noteq> None) exs"

definition job_timers_cnt :: "pinba_stats_record_ex list \<Rightarrow> nat" where
  "job_timers_cnt copied = (\<Sum>ex \<leftarrow> created copied. pinba_stored_timer_count (ex_request ex))"

definition job_rtags_cnt :: "pinba_stats_record pinba_pool \<Rightarrow> pinba_stats_record_ex list \<Rightarrow> nat" where
  "job_rtags_cnt rp copied = (\<Sum>ex \<leftarrow> created copied. length (tags (pdata rp ! the (ex_request_id ex))))"

text \<open>The workers merge the timers of their records, each from its own prefix.\<close>

fun merge_jobs ::
  "merge_env \<Rightarrow> nat \<Rightarrow> pinba_stats_record_ex list list \<Rightarrow> merge_state \<Rightarrow> nat \<Rightarrow> merge_state \<times> nat" where
  "merge_jobs env tprefix [] s timertags = (s, timertags)"
| "merge_jobs env tprefix (copied # jobs) s timertags =
     (let s = merge_timers_func env tprefix copied (s\<lparr>ms_timertag_cnt := 0\<rparr>)
      in merge_jobs env (tprefix + job_timers_cnt copied) jobs s (timertags + ms_timertag_cnt s mod 2 ^ 32))"

definition start_base :: "pinba_stats_record \<Rightarrow> base_entry \<Rightarrow> base_entry" where
  "start_base record entry = (case entry of (t, R) \<Rightarrow> (t, upd_report_std (report_start record) R))"

fun start_rtag :: "pinba_stats_record \<Rightarrow> rtag_entry \<Rightarrow> rtag_entry" where
  "start_rtag record (Rtag_info t R) = Rtag_info t (upd_rtag_std (report_start record) R)"
| "start_rtag record (Rtag_report t R) = Rtag_report t (upd_rtag_std (report_start record) R)"

fun start_tag :: "pinba_stats_record \<Rightarrow> tag_entry \<Rightarrow> tag_entry" where
  "start_tag record (Tag_info shape R) = Tag_info shape (upd_tag_std (report_start record) R)"
| "start_tag record (Tag_report shape two R) = Tag_report shape two (upd_tag_std (report_start record) R)"

text \<open>The timers of the round: reserve, merge, and feed the timer-tag reports.\<close>

definition batch_timers_step ::
  "batch_env \<Rightarrow> nat \<Rightarrow> pinba_stats_record_ex list list \<Rightarrow> pinba_daemon \<Rightarrow> pinba_daemon" where
  "batch_timers_step env records_created copied D =
     (let timers_added = (\<Sum>exs \<leftarrow> copied. job_timers_cnt exs)
      in if timers_added = 0 then D
         else case timer_pool_add (be_timer_mem env timers_added) timers_added (timer_pool D) (request_pool D) of
                (reserved, tp, rp) \<Rightarrow>
                  if reserved < 0 then D
                  else
                    (case merge_jobs (be_merge env) (nat reserved) copied
                            \<lparr>ms_requests = rp, ms_timers = tp, ms_timers_cnt = 0, ms_timertag_cnt = 0, ms_registry = registry D\<rparr> 0 of
                       (s, timertags) \<Rightarrow>
                         let rp = ms_requests s; tp = ms_timers s;
                             d = \<lparr>job_prefix = pin rp, job_count = records_created, job_add = True\<rparr>
                         in D\<lparr>request_pool := rp, timer_pool := tp, registry := ms_registry s,
                              timertags_cnt := timertags_cnt D + of_nat timertags,
                              tag_reports := map (tag_job (be_job env) tp rp d)
                                (map (start_tag (pdata rp ! pin rp)) (tag_reports D))\<rparr>))"

text \<open>From the copied records to the published ones.\<close>

definition batch_publish ::
  "batch_env \<Rightarrow> pinba_stats_record_ex list list \<Rightarrow> pinba_daemon \<Rightarrow> pinba_daemon" where
  "batch_publish env copied D =
     (let rp = request_pool D; records_created = length (created (concat copied));
          d = \<lparr>job_prefix = pin rp, job_count = records_created, job_add = True\<rparr>;
          D = D\<lparr>request_pool_counter := request_pool_counter D + of_nat records_created,
                base_reports := map (base_job (be_job env) rp d) (map (start_base (pdata rp ! pin rp)) (base_reports D)),
                rtag_reports :=
                  (if (\<Sum>exs \<leftarrow> copied. job_rtags_cnt rp exs) \<noteq> 0
                   then map (rtag_job (be_job env) rp d) (map (start_rtag (pdata rp ! pin rp)) (rtag_reports D))
                   else rtag_reports D)\<rparr>;
          D = batch_timers_step env records_created copied D;
          rp = request_pool D
      in D\<lparr>request_pool := rp\<lparr>pin :=
             (if pin rp + records_created \<ge> psize rp then pin rp + records_created - psize rp else pin rp + records_created)\<rparr>\<rparr>)"

text \<open>The words of the slots are released at the end of the round; copied records gave theirs away.\<close>

definition release_slots :: "pinba_stats_record_ex list \<Rightarrow> pinba_dictionary \<Rightarrow> pinba_dictionary" where
  "release_slots exs d = fold (\<lambda>ex d. snd (pinba_tmp_release_words ex d)) exs d"

definition pinba_data_batch ::
  "batch_env \<Rightarrow> pinba_timeval \<Rightarrow> request_tree option list list \<Rightarrow> pinba_daemon \<Rightarrow> pinba_daemon" where
  "pinba_data_batch env now pools D =
     (if (\<Sum>packets \<leftarrow> pools. length packets) = 0 then D
      else
        case stage_jobs (me_ingest (be_merge env)) now pools (dictionary D) (registry D) of
          (exss, invalid, words, g) \<Rightarrow>
            let D = D\<lparr>dictionary := words, registry := g,
                      invalid_request_data := invalid_request_data D + of_nat invalid\<rparr>;
                staged = length (concat exss)
            in if staged = 0 then D
               else if \<not> be_jobs env then D\<lparr>dictionary := release_slots (concat exss) words\<rparr>
               else
                 let rp = request_pool D;
                     free_slots = psize rp - pinba_pool_num_records rp - 1;
                     lost = (if free_slots < staged then staged - free_slots else 0);
                     records_to_copy = (if free_slots < staged then free_slots else staged)
                 in case copy_jobs (be_copy env) (request_pool_counter D) 0 0 records_to_copy exss rp words of
                      (jobs, rp, words) \<Rightarrow>
                        let records_created = length (created (concat (map fst jobs)));
                            accounted = length (concat (map fst jobs));
                            (jobs, rp) =
                              (if records_created < accounted
                               then compact_jobs (request_pool_counter D) 0 (pin rp) jobs rp else (jobs, rp));
                            D = batch_publish env (map fst jobs) (D\<lparr>request_pool := rp, dictionary := words\<rparr>)
                        in D\<lparr>dictionary := release_slots (concat (map (\<lambda>(copied, rest). copied @ rest) jobs)) (dictionary D),
                             lost_tmp_records := lost_tmp_records D + of_nat lost\<rparr>)"

section \<open>The schedule\<close>

text \<open>When the next round starts; \<open>period\<close> is \<^verbatim>\<open>stats_gathering_period\<close> in microseconds.\<close>

definition next_launch :: "int \<Rightarrow> pinba_timeval \<Rightarrow> pinba_timeval" where
  "next_launch period launch =
     (let launch = launch\<lparr>tv_sec := tv_sec launch + period div 1000000, tv_usec := tv_usec launch + period mod 1000000\<rparr>
      in if tv_usec launch > 1000000 then launch\<lparr>tv_usec := tv_usec launch - 1000000, tv_sec := tv_sec launch + 1\<rparr>
         else launch)"

text \<open>
  The schedule advances by exactly one period, but the carry compares with \<^verbatim>\<open>>\<close> instead of
  \<^verbatim>\<open>>=\<close>: the microseconds reach a whole second exactly when they add up to one, and the launch
  time, which dates the requests of the round, is then not normalised.
\<close>

theorem next_launch_carry:
  assumes "timeval_ok launch" and "0 \<le> period" and "l = next_launch period launch"
  shows "tv_sec l * 1000000 + tv_usec l = tv_sec launch * 1000000 + tv_usec launch + period \<and>
     0 \<le> tv_usec l \<and> tv_usec l \<le> 1000000 \<and>
     (timeval_ok l \<longleftrightarrow> tv_usec launch + period mod 1000000 \<noteq> 1000000)"
proof -
  have "period div 1000000 * 1000000 + period mod 1000000 = period" by (rule div_mult_mod_eq)
  moreover have "0 \<le> period mod 1000000" "period mod 1000000 < 1000000" by simp_all
  ultimately show ?thesis using assms(1,3) by (auto simp: next_launch_def timeval_ok_def Let_def algebra_simps)
qed

theorem next_launch_carry_witness:
  "\<not> timeval_ok (next_launch 200000 \<lparr>tv_sec = 5, tv_usec = 800000\<rparr>)"
  using next_launch_carry [of "\<lparr>tv_sec = 5, tv_usec = 800000\<rparr>" 200000, OF _ _ refl] by (simp add: timeval_ok_def)

end
