(* ===== verification/Batch_Copy.thy ===== *)
theory Batch_Copy
  imports Batch
begin

text \<open>
  Copying the staged records of a round to the request pool: whatever copies fail, the records
  that were copied end up in the free cells right after the stored requests, in order and
  numbered consecutively, every other cell is as before or owns no words, and each word still
  has one owner.
\<close>

section \<open>Ring positions\<close>

definition ring_cell :: "nat \<Rightarrow> nat \<Rightarrow> nat \<Rightarrow> nat" where
  "ring_cell n b k = (b + k) mod n"

lemma ring_cell_inj: "j < n \<Longrightarrow> k < n \<Longrightarrow> ring_cell n b j = ring_cell n b k \<Longrightarrow> j = k"
proof (induction j k rule: linorder_wlog)
  case (le j k)
  show ?case
  proof (rule ccontr)
    assume "j \<noteq> k"
    then have "(b + j + (k - j)) mod n \<noteq> (b + j) mod n" using le by (intro mod_apart) auto
    then show False using le by (simp add: ring_cell_def)
  qed
qed auto

lemma ring_cell_apart: "k < n \<Longrightarrow> \<forall>j \<in> A. j < n \<and> j \<noteq> k \<Longrightarrow> ring_cell n b k \<notin> ring_cell n b ` A"
  using ring_cell_inj by blast

lemma ring_cell_less [simp]: "0 < n \<Longrightarrow> ring_cell n b k < n"
  by (simp add: ring_cell_def)

lemma next_ring_cell: "0 < psize rp \<Longrightarrow> next_cell rp (ring_cell (psize rp) b k) = ring_cell (psize rp) b (Suc k)"
  by (auto simp: next_cell_def ring_cell_def mod_Suc)

section \<open>What a copy does\<close>

text \<open>The record as it is stored, and what is left in its slot.\<close>

definition stored :: "pinba_stats_record_ex \<Rightarrow> u64 \<Rightarrow> pinba_stats_record" where
  "stored ex c = (ex_record ex)\<lparr>counter := c, active := True, dictionary_words := ex_words ex\<rparr>"

definition moved_ex :: "pinba_stats_record_ex \<Rightarrow> nat \<Rightarrow> pinba_stats_record_ex" where
  "moved_ex ex i = ex\<lparr>ex_request_id := Some i, ex_words := [], ex_record := (ex_record ex)\<lparr>tags := []\<rparr>\<rparr>"

text \<open>
  \<open>copies n b o0 o1 d d' exs exs' os ys cs\<close>: of the records \<open>exs\<close>, those in \<open>ys\<close> were copied to the
  cells at the offsets \<open>os\<close> after \<open>b\<close>, with the numbers \<open>cs\<close>; only cells at the offsets from
  \<open>o0\<close> to \<open>o1\<close> were touched, and the ones not used own no words.
\<close>

definition copies ::
  "nat \<Rightarrow> nat \<Rightarrow> nat \<Rightarrow> nat \<Rightarrow> pinba_stats_record list \<Rightarrow> pinba_stats_record list \<Rightarrow>
   pinba_stats_record_ex list \<Rightarrow> pinba_stats_record_ex list \<Rightarrow> nat list \<Rightarrow> pinba_stats_record_ex list \<Rightarrow> u64 list \<Rightarrow> bool" where
  "copies n b o0 o1 d d' exs exs' os ys cs \<longleftrightarrow>
     length d' = length d \<and> length os = length ys \<and> length cs = length ys \<and> length exs' = length exs \<and>
     sorted_wrt (<) os \<and> set os \<subseteq> {o0..<o1} \<and> subseq ys exs \<and>
     created exs' = map2 (\<lambda>k ex. moved_ex ex (ring_cell n b k)) os ys \<and>
     (\<forall>k < length ys. d' ! ring_cell n b (os ! k) = stored (ys ! k) (cs ! k)) \<and>
     (\<forall>j. j \<notin> ring_cell n b ` {o0..<o1} \<longrightarrow> d' ! j = d ! j) \<and>
     (\<forall>k \<in> {o0..<o1} - set os. dictionary_words (d' ! ring_cell n b k) = []) \<and>
     staged_words exs = staged_words ys + staged_words exs'"

lemma copies_Nil: "copies n b k k d d [] [] [] [] []"
  by (simp add: copies_def created_def staged_words_def)

lemma copies_append:
  assumes a: "copies n b o0 o1 d d1 exs exs' os ys cs" and c: "copies n b o1 o2 d1 d2 fxs fxs' os2 ys2 cs2"
    and o: "o0 \<le> o1" "o1 \<le> o2" "o2 \<le> n"
  shows "copies n b o0 o2 d d2 (exs @ fxs) (exs' @ fxs') (os @ os2) (ys @ ys2) (cs @ cs2)"
proof -
  have apart: "ring_cell n b k \<notin> ring_cell n b ` {o1..<o2}" if "k \<in> {o0..<o1}" for k
    by (rule ring_cell_apart) (use that o in auto)
  have keep: "d2 ! ring_cell n b k = d1 ! ring_cell n b k" if "k \<in> {o0..<o1}" for k
    using c apart [OF that] by (simp add: copies_def)
  have "d2 ! ring_cell n b ((os @ os2) ! k) = stored ((ys @ ys2) ! k) ((cs @ cs2) ! k)" if k: "k < length (ys @ ys2)" for k
  proof (cases "k < length ys")
    case True
    then have "os ! k \<in> set os" and "set os \<subseteq> {o0..<o1}" using a by (simp_all add: copies_def)
    then have "os ! k \<in> {o0..<o1}" by blast
    then show ?thesis using a True keep by (simp add: copies_def nth_append)
  next
    case False
    then show ?thesis using a c k by (simp add: copies_def nth_append)
  qed
  moreover have "d2 ! j = d ! j" if "j \<notin> ring_cell n b ` {o0..<o2}" for j
  proof -
    have "j \<notin> ring_cell n b ` {o0..<o1}" "j \<notin> ring_cell n b ` {o1..<o2}" using that o by auto
    then show ?thesis using a c by (simp add: copies_def)
  qed
  moreover have "dictionary_words (d2 ! ring_cell n b k) = []" if "k \<in> {o0..<o2} - set (os @ os2)" for k
    using a c that keep by (cases "k < o1") (auto simp: copies_def)
  moreover have "\<forall>x \<in> set os. \<forall>y \<in> set os2. x < y" using a c by (force simp: copies_def)
  moreover have "subseq (ys @ ys2) (exs @ fxs)" using a c by (intro list_emb_append_mono) (simp_all add: copies_def)
  ultimately show ?thesis
    using a c o by (auto simp: copies_def sorted_wrt_append created_def staged_words_def)
qed

lemma copies_one:
  assumes "0 < n" and "length d = n"
  shows "copies n b k (Suc k) d (d[ring_cell n b k := stored ex c]) [ex] [moved_ex ex (ring_cell n b k)] [k] [ex] [c]"
  using assms by (simp add: copies_def created_def moved_ex_def staged_words_def nth_update)

text \<open>A failed copy leaves its cell to the next record.\<close>

lemma copies_fail:
  assumes c: "copies n b o0 o1 (d[ring_cell n b o0 := r]) d' exs exs' os ys cs"
    and r: "dictionary_words r = []" and d: "length d = n" "0 < n" "o0 \<le> o1" "o1 < n"
    and free: "\<forall>k \<in> {o0..<Suc o1}. dictionary_words (d ! ring_cell n b k) = []"
  shows "copies n b o0 (Suc o1) d d' (ex # exs) (ex\<lparr>ex_request_id := None\<rparr> # exs') os ys cs"
proof -
  have out: "d' ! j = d ! j" if "j \<notin> ring_cell n b ` {o0..<Suc o1}" for j
  proof -
    have "j \<noteq> ring_cell n b o0" "j \<notin> ring_cell n b ` {o0..<o1}" using that d(3) by auto
    then show ?thesis using c by (simp add: copies_def)
  qed
  have last: "dictionary_words (d' ! ring_cell n b o1) = []"
  proof -
    have "ring_cell n b o1 \<notin> ring_cell n b ` {o0..<o1}" by (rule ring_cell_apart) (use d(4) in auto)
    then have "d' ! ring_cell n b o1 = d[ring_cell n b o0 := r] ! ring_cell n b o1" using c by (simp add: copies_def)
    then show ?thesis using r free d by (simp add: nth_update)
  qed
  have "dictionary_words (d' ! ring_cell n b k) = []" if "k \<in> {o0..<Suc o1} - set os" for k
    using c that last by (cases "k = o1") (auto simp: copies_def)
  moreover have "set os \<subseteq> {o0..<Suc o1}" using c by (force simp: copies_def)
  moreover have "subseq ys (ex # exs)" using c by (simp add: copies_def list_emb_Cons)
  ultimately show ?thesis using c out by (simp add: copies_def created_def staged_words_def)
qed

lemma release_nothing: "dictionary_words r = [] \<Longrightarrow> snd (pinba_record_release_words r d) = d"
  by (simp add: pinba_record_release_words_def pinba_words_release_def)

section \<open>The workers\<close>

lemma copy_loop_result:
  assumes "0 < psize rp" and "o0 + length exs \<le> psize rp" and "length (pdata rp) = psize rp"
    and "\<forall>k \<in> {o0..<o0 + length exs}. dictionary_words (pdata rp ! ring_cell (psize rp) b k) = []"
    and "copy_loop mem f i exs (ring_cell (psize rp) b o0) rp d = (exs', rp', d')"
  shows "\<exists>os ys cs. d' = d \<and> rp' = rp\<lparr>pdata := pdata rp'\<rparr> \<and>
     copies (psize rp) b o0 (o0 + length exs) (pdata rp) (pdata rp') exs exs' os ys cs \<and>
     (length ys = length exs \<longrightarrow> os = [o0..<o0 + length exs] \<and> cs = map (\<lambda>k. f + of_nat (i + k)) [0..<length exs]) \<and>
     ((\<forall>k. mem k) \<longrightarrow> length ys = length exs)"
  using assms
proof (induction exs arbitrary: i o0 rp d exs' rp' d')
  case Nil
  then show ?case by (intro exI [of _ "[]"]) (simp add: copies_Nil)
next
  case (Cons ex exs)
  let ?n = "psize rp" and ?t = "ring_cell (psize rp) b o0"
  have rel: "\<exists>old. pinba_record_release_words (pdata rp ! ?t) d = (old, d)"
    using release_nothing [of "pdata rp ! ?t" d] Cons.prems(4) by (cases "pinba_record_release_words (pdata rp ! ?t) d") auto
  show ?case
  proof (cases "mem i")
    case True
    let ?s = "stored ex (f + of_nat i)"
    let ?rp = "rp\<lparr>pdata := (pdata rp)[?t := ?s]\<rparr>"
    obtain exs1 where loop: "copy_loop mem f (Suc i) exs (ring_cell (psize ?rp) b (Suc o0)) ?rp d = (exs1, rp', d')"
        and exs': "exs' = moved_ex ex ?t # exs1"
      using Cons.prems(5) rel True Cons.prems(1)
      by (auto simp: Let_def next_ring_cell stored_def moved_ex_def split: prod.splits)
    have free: "\<forall>k \<in> {Suc o0..<Suc o0 + length exs}. dictionary_words (pdata ?rp ! ring_cell (psize ?rp) b k) = []"
    proof
      fix k assume k: "k \<in> {Suc o0..<Suc o0 + length exs}"
      then have "ring_cell ?n b k \<noteq> ?t" using Cons.prems(2) ring_cell_inj [of k ?n o0 b] by auto
      then show "dictionary_words (pdata ?rp ! ring_cell (psize ?rp) b k) = []" using Cons.prems(4) k by simp
    qed
    from Cons.IH [OF _ _ _ free loop] obtain os ys cs where ih: "d' = d" "rp' = ?rp\<lparr>pdata := pdata rp'\<rparr>"
        "copies ?n b (Suc o0) (Suc o0 + length exs) ((pdata rp)[?t := ?s]) (pdata rp') exs exs1 os ys cs"
        "length ys = length exs \<longrightarrow> os = [Suc o0..<Suc o0 + length exs] \<and> cs = map (\<lambda>k. f + of_nat (Suc i + k)) [0..<length exs]"
        "(\<forall>k. mem k) \<longrightarrow> length ys = length exs"
      using Cons.prems(1-3) by auto
    have "copies ?n b o0 (Suc o0 + length exs) (pdata rp) (pdata rp') ([ex] @ exs) ([moved_ex ex ?t] @ exs1) ([o0] @ os) ([ex] @ ys) ([f + of_nat i] @ cs)"
      using Cons.prems(2) by (intro copies_append [OF copies_one [OF Cons.prems(1,3)] ih(3)]) simp_all
    moreover have "map (\<lambda>k. f + of_nat (i + k)) [0..<length (ex # exs)] = (f + of_nat i) # map (\<lambda>k. f + of_nat (Suc i + k)) [0..<length exs]"
      by (simp add: upt_conv_Cons map_Suc_upt [symmetric] comp_def del: upt_Suc)
    moreover have "[o0..<o0 + length (ex # exs)] = o0 # [Suc o0..<Suc o0 + length exs]" by (simp add: upt_conv_Cons del: upt_Suc)
    ultimately show ?thesis
      using ih exs' by (intro exI [of _ "o0 # os"] exI [of _ "ex # ys"] exI [of _ "(f + of_nat i) # cs"]) (simp del: upt_Suc)
  next
    case False
    let ?s = "(ex_record ex)\<lparr>counter := f + of_nat i, active := False, tags := [], dictionary_words := []\<rparr>"
    let ?rp = "rp\<lparr>pdata := (pdata rp)[?t := ?s]\<rparr>"
    obtain exs1 where loop: "copy_loop mem f (Suc i) exs (ring_cell (psize ?rp) b o0) ?rp d = (exs1, rp', d')"
        and exs': "exs' = ex\<lparr>ex_request_id := None\<rparr> # exs1"
      using Cons.prems(5) rel False by (auto simp: Let_def split: prod.splits)
    have free: "\<forall>k \<in> {o0..<o0 + length exs}. dictionary_words (pdata ?rp ! ring_cell (psize ?rp) b k) = []"
      using Cons.prems(4) by (simp add: nth_update)
    from Cons.IH [OF _ _ _ free loop] obtain os ys cs where ih: "d' = d" "rp' = ?rp\<lparr>pdata := pdata rp'\<rparr>"
        "copies ?n b o0 (o0 + length exs) ((pdata rp)[?t := ?s]) (pdata rp') exs exs1 os ys cs"
      using Cons.prems(1-3) by auto
    have "copies ?n b o0 (Suc (o0 + length exs)) (pdata rp) (pdata rp') (ex # exs) (ex\<lparr>ex_request_id := None\<rparr> # exs1) os ys cs"
      using Cons.prems by (intro copies_fail [OF ih(3)]) simp_all
    moreover have "length ys \<le> length exs" using ih(3) by (auto simp: copies_def dest: list_emb_length)
    ultimately show ?thesis
      using ih exs' False by (intro exI [of _ os] exI [of _ ys] exI [of _ cs]) auto
  qed
qed

text \<open>
  All workers: the first \<open>records_to_copy\<close> of the staged records, \<open>txs\<close>, are tried.
\<close>

lemma copy_jobs_result:
  assumes "pin rp < psize rp" and "acc + rtc \<le> psize rp" and "length (pdata rp) = psize rp"
    and "\<forall>k \<in> {acc..<acc + rtc}. dictionary_words (pdata rp ! ring_cell (psize rp) (pin rp) k) = []"
    and "copy_jobs mem c t acc rtc exss rp d = (jobs, rp', d')"
  shows "\<exists>txs os ys cs. d' = d \<and> rp' = rp\<lparr>pdata := pdata rp'\<rparr> \<and> length txs = min rtc (length (concat exss)) \<and>
     copies (psize rp) (pin rp) acc (acc + length txs) (pdata rp) (pdata rp') txs (concat (map fst jobs)) os ys cs \<and>
     subseq txs (concat exss) \<and> staged_words (concat exss) = staged_words txs + staged_words (concat (map snd jobs)) \<and>
     (length ys = length txs \<longrightarrow> os = [acc..<acc + length txs] \<and> cs = map (\<lambda>k. c + of_nat (acc + k)) [0..<length txs]) \<and>
     ((\<forall>t k. mem t k) \<longrightarrow> length ys = length txs)"
  using assms
proof (induction exss arbitrary: t acc rtc rp d jobs rp' d')
  case Nil
  then show ?case by (intro exI [of _ "[]"]) (simp add: copies_Nil staged_words_def)
next
  case (Cons exs exss)
  let ?n = "psize rp" and ?b = "pin rp"
  define e where "e = (if length exs > rtc then rtc else length exs)"
  let ?xs = "take e exs"
  have e: "length ?xs = e" "e \<le> rtc" by (simp_all add: e_def)
  obtain xs1 rp1 d1 rest where job: "request_copy_job_func (mem t) c acc ?xs rp d = (xs1, rp1, d1)"
      and jobs: "copy_jobs mem c (Suc t) (acc + e) (rtc - e) exss rp1 d1 = (rest, rp', d')" "jobs = (xs1, drop e exs) # rest"
    using Cons.prems(5) by (auto simp: e_def Let_def split: prod.splits)
  have "(if ?n \<le> ?b + acc then ?b + acc - ?n else ?b + acc) = ring_cell ?n ?b acc"
    using Cons.prems(1,2) by (auto simp: ring_cell_def mod_if)
  then have "copy_loop (mem t) (c + of_nat acc) 0 ?xs (ring_cell ?n ?b acc) rp d = (xs1, rp1, d1)"
    using job by (simp add: request_copy_job_func_def Let_def)
  moreover have "acc + length ?xs \<le> ?n" "\<forall>k \<in> {acc..<acc + length ?xs}. dictionary_words (pdata rp ! ring_cell ?n ?b k) = []"
    using Cons.prems(2,4) e by auto
  ultimately obtain os ys cs where one: "d1 = d" "rp1 = rp\<lparr>pdata := pdata rp1\<rparr>"
      "copies ?n ?b acc (acc + e) (pdata rp) (pdata rp1) ?xs xs1 os ys cs"
      "length ys = e \<longrightarrow> os = [acc..<acc + e] \<and> cs = map (\<lambda>k. c + of_nat (acc + k)) [0..<e]"
      "(\<forall>k. mem t k) \<longrightarrow> length ys = e"
    using copy_loop_result [of rp acc ?xs ?b "mem t" "c + of_nat acc" 0 d xs1 rp1 d1] Cons.prems(1,3) e
    by (auto simp: add.assoc)
  have rp1: "psize rp1 = ?n" "pin rp1 = ?b" "length (pdata rp1) = ?n"
    using one(2,3) Cons.prems(3) by (metis pinba_pool.select_convs(1) pinba_pool.surjective pinba_pool.update_convs(7),
      metis pinba_pool.select_convs(4) pinba_pool.surjective pinba_pool.update_convs(7), simp add: copies_def)
  have "dictionary_words (pdata rp1 ! ring_cell ?n ?b k) = []" if k: "k \<in> {acc + e..<acc + e + (rtc - e)}" for k
  proof -
    have "ring_cell ?n ?b k \<notin> ring_cell ?n ?b ` {acc..<acc + e}"
      by (rule ring_cell_apart) (use k Cons.prems(2) e in auto)
    then show ?thesis using one(3) Cons.prems(4) k e by (simp add: copies_def)
  qed
  then have free: "\<forall>k \<in> {acc + e..<acc + e + (rtc - e)}. dictionary_words (pdata rp1 ! ring_cell (psize rp1) (pin rp1) k) = []"
    unfolding rp1 by blast
  have "pin rp1 < psize rp1" "acc + e + (rtc - e) \<le> psize rp1" "length (pdata rp1) = psize rp1"
    unfolding rp1 using Cons.prems(1,2) e by auto
  from Cons.IH [OF this free jobs(1), unfolded rp1] obtain txs os2 ys2 cs2 where ih: "d' = d1" "rp' = rp1\<lparr>pdata := pdata rp'\<rparr>" "length txs = min (rtc - e) (length (concat exss))"
      "copies ?n ?b (acc + e) (acc + e + length txs) (pdata rp1) (pdata rp') txs (concat (map fst rest)) os2 ys2 cs2"
      "subseq txs (concat exss)" "staged_words (concat exss) = staged_words txs + staged_words (concat (map snd rest))"
      "length ys2 = length txs \<longrightarrow> os2 = [acc + e..<acc + e + length txs] \<and> cs2 = map (\<lambda>k. c + of_nat (acc + e + k)) [0..<length txs]"
      "(\<forall>t k. mem t k) \<longrightarrow> length ys2 = length txs"
    by blast
  have "acc + e + length txs \<le> ?n" using ih(3) Cons.prems(2) e by auto
  note both = copies_append [OF one(3) ih(4) _ _ this]
  have le: "length ys \<le> e" "length ys2 \<le> length txs"
    using one(3) ih(4) e by (auto simp: copies_def dest: list_emb_length)
  have cnt: "map (\<lambda>k. c + of_nat (acc + k)) [0..<e + length txs] =
      map (\<lambda>k. c + of_nat (acc + k)) [0..<e] @ map (\<lambda>k. c + of_nat (acc + e + k)) [0..<length txs]"
    by (rule nth_equalityI) (auto simp: nth_append)
  have "subseq (?xs @ txs) (concat (exs # exss))"
    using list_emb_append_mono [OF list_emb_prefix [of "(=)" ?xs ?xs "drop e exs"] ih(5)] by simp
  moreover have "staged_words exs = staged_words ?xs + staged_words (drop e exs)"
    by (subst append_take_drop_id [of e exs, symmetric]) (simp add: staged_words_def del: append_take_drop_id)
  moreover have "length (?xs @ txs) = min rtc (length (concat (exs # exss)))" using ih(3) e by (auto simp: e_def)
  moreover have "rp' = rp\<lparr>pdata := pdata rp'\<rparr>"
  proof -
    have "rp1\<lparr>pdata := x\<rparr> = rp\<lparr>pdata := x\<rparr>" for x by (subst one(2)) simp
    then show ?thesis using ih(2) by metis
  qed
  moreover have "length (ys @ ys2) = length (?xs @ txs) \<longrightarrow> os @ os2 = [acc..<acc + length (?xs @ txs)] \<and>
      cs @ cs2 = map (\<lambda>k. c + of_nat (acc + k)) [0..<length (?xs @ txs)]"
  proof
    assume "length (ys @ ys2) = length (?xs @ txs)"
    then have "length ys = e" "length ys2 = length txs" using le e(1) by auto
    then show "os @ os2 = [acc..<acc + length (?xs @ txs)] \<and> cs @ cs2 = map (\<lambda>k. c + of_nat (acc + k)) [0..<length (?xs @ txs)]"
      using one(4) ih(7) cnt e(1) by (simp add: upt_add_eq_append [of acc "acc + e"] add.assoc [symmetric])
  qed
  moreover have "length (ys @ ys2) = length (?xs @ txs)" if "\<forall>t k. mem t k"
    using one(5) ih(8) that e(1) by simp
  moreover have "d' = d" using one(1) ih(1) by simp
  ultimately show ?case
    using both ih(6) e(1) jobs(2)
    by (intro exI [of _ "?xs @ txs"] exI [of _ "os @ os2"] exI [of _ "ys @ ys2"] exI [of _ "cs @ cs2"] conjI)
      (simp_all add: staged_words_def add.assoc)
qed

section \<open>Closing the gaps\<close>

lemma compact_loop_append:
  "compact_loop c k pos (xs @ ys) rp =
     (case compact_loop c k pos xs rp of (xs', k', pos', rp') \<Rightarrow>
        (case compact_loop c k' pos' ys rp' of (ys', k'', pos'', rp'') \<Rightarrow> (xs' @ ys', k'', pos'', rp'')))"
  by (induction xs arbitrary: k pos rp) (simp_all add: Let_def split: prod.splits option.splits)

lemma compact_jobs_concat:
  "compact_jobs c k pos jobs rp = (jobs', rp') \<Longrightarrow>
   map snd jobs' = map snd jobs \<and>
   (\<exists>k' pos'. compact_loop c k pos (concat (map fst jobs)) rp = (concat (map fst jobs'), k', pos', rp'))"
proof (induction jobs arbitrary: k pos rp jobs')
  case (Cons job jobs)
  obtain xs l where job: "job = (xs, l)" by (cases job)
  obtain xs1 k1 pos1 rp1 where one: "compact_loop c k pos xs rp = (xs1, k1, pos1, rp1)" by (cases "compact_loop c k pos xs rp")
  obtain rest where rest: "compact_jobs c k1 pos1 jobs rp1 = (rest, rp')" "jobs' = (xs1, l) # rest"
    using Cons.prems by (auto simp: job one split: prod.splits)
  show ?case using Cons.IH [OF rest(1)] by (auto simp: job one rest(2) compact_loop_append)
qed simp

text \<open>
  \<open>holds d n b os ys\<close>: the records \<open>ys\<close> are stored at the offsets \<open>os\<close> after \<open>b\<close>.
\<close>

definition holds ::
  "pinba_stats_record list \<Rightarrow> nat \<Rightarrow> nat \<Rightarrow> nat list \<Rightarrow> pinba_stats_record_ex list \<Rightarrow> bool" where
  "holds d n b os ys \<longleftrightarrow> list_all2 (\<lambda>k ex. \<exists>c. d ! ring_cell n b k = stored ex c) os ys"

definition gaps_free :: "pinba_stats_record list \<Rightarrow> nat \<Rightarrow> nat \<Rightarrow> nat set \<Rightarrow> bool" where
  "gaps_free d n b A \<longleftrightarrow> (\<forall>k \<in> A. dictionary_words (d ! ring_cell n b k) = [])"

text \<open>One record moves from offset \<open>o0\<close> to offset \<open>k\<close>.\<close>

lemma compact_step:
  assumes n: "0 < n" "length d = n" and k: "k \<le> o0" "o0 < m" "m \<le> n" and os: "\<forall>x \<in> set os. o0 < x \<and> x < m"
    and h: "holds d n b (o0 # os) (ex # ys)" and g: "gaps_free d n b ({k..<m} - set (o0 # os))"
    and d1: "d1 = (if ring_cell n b o0 \<noteq> ring_cell n b k
       then d[ring_cell n b o0 := d ! ring_cell n b k, ring_cell n b k := d ! ring_cell n b o0] else d)"
    and d2: "d2 = d1[ring_cell n b k := (d1 ! ring_cell n b k)\<lparr>counter := c\<rparr>]"
  shows "length d2 = n" and "d2 ! ring_cell n b k = stored ex c" and "holds d2 n b os ys"
    and "gaps_free d2 n b ({Suc k..<m} - set os)" and "j \<notin> ring_cell n b ` {k..<m} \<Longrightarrow> d2 ! j = d ! j"
proof -
  have ne: "ring_cell n b x \<noteq> ring_cell n b y" if "x < m" "y < m" "x \<noteq> y" for x y
    using ring_cell_inj [of x n y b] that k(3) by auto
  obtain c0 where c0: "d ! ring_cell n b o0 = stored ex c0" using h by (auto simp: holds_def)
  show "length d2 = n" using n by (simp add: d2 d1)
  have "d1 ! ring_cell n b k = stored ex c0" using c0 n by (auto simp: d1 nth_update)
  then show "d2 ! ring_cell n b k = stored ex c" using n by (simp add: d2 d1 nth_update stored_def)
  have other: "d2 ! ring_cell n b x = d ! ring_cell n b x" if "x < m" "x \<noteq> k" "x \<noteq> o0" for x
  proof -
    have "ring_cell n b x \<noteq> ring_cell n b k" "ring_cell n b x \<noteq> ring_cell n b o0" using ne [of x k] ne [of x o0] that k by auto
    then show ?thesis by (auto simp: d2 d1 nth_update)
  qed
  show "holds d2 n b os ys"
    unfolding holds_def
  proof (rule list_all2_mono)
    have "list_all2 (\<lambda>x ex. \<exists>c. d ! ring_cell n b x = stored ex c) os ys" using h by (simp add: holds_def)
    then show "list_all2 (\<lambda>x ex. x \<in> set os \<and> (\<exists>c. d ! ring_cell n b x = stored ex c)) os ys"
      by (simp add: list_all2_conv_all_nth)
    show "\<exists>c. d2 ! ring_cell n b x = stored y c" if "x \<in> set os \<and> (\<exists>c. d ! ring_cell n b x = stored y c)" for x y
    proof -
      have "x < m" "x \<noteq> k" "x \<noteq> o0" using os k that by auto
      then show ?thesis using other that by simp
    qed
  qed
  show "gaps_free d2 n b ({Suc k..<m} - set os)"
    unfolding gaps_free_def
  proof
    fix x assume x: "x \<in> {Suc k..<m} - set os"
    show "dictionary_words (d2 ! ring_cell n b x) = []"
    proof (cases "x = o0")
      case True
      then have "k \<in> {k..<m} - set (o0 # os)" using x os k by auto
      moreover have "d2 ! ring_cell n b x = d ! ring_cell n b k"
        using True x ne [of o0 k] k n by (auto simp: d2 d1 nth_update)
      ultimately show ?thesis using g by (simp add: gaps_free_def)
    next
      case False
      then show ?thesis using other [of x] x g by (auto simp: gaps_free_def)
    qed
  qed
  show "d2 ! j = d ! j" if "j \<notin> ring_cell n b ` {k..<m}"
  proof -
    have "k \<in> {k..<m}" "o0 \<in> {k..<m}" using k by auto
    then have "j \<noteq> ring_cell n b k" "j \<noteq> ring_cell n b o0" using that by blast+
    then show ?thesis by (auto simp: d2 d1 nth_update)
  qed
qed

lemma compact_loop_result:
  assumes "0 < psize rp" and "length (pdata rp) = psize rp" and "m \<le> psize rp"
    and "created exs = map2 (\<lambda>k ex. moved_ex ex (ring_cell (psize rp) b k)) os ys" and "sorted_wrt (<) os" and "set os \<subseteq> {k..<m}"
    and "holds (pdata rp) (psize rp) b os ys" and "gaps_free (pdata rp) (psize rp) b ({k..<m} - set os)"
    and "compact_loop c k (ring_cell (psize rp) b k) exs rp = (exs', k', pos', rp')"
  shows "rp' = rp\<lparr>pdata := pdata rp'\<rparr> \<and> length (pdata rp') = psize rp \<and> staged_words exs' = staged_words exs \<and>
     created exs' = map (\<lambda>j. moved_ex (ys ! j) (ring_cell (psize rp) b (k + j))) [0..<length ys] \<and>
     (\<forall>j < length ys. pdata rp' ! ring_cell (psize rp) b (k + j) = stored (ys ! j) (c + of_nat (k + j))) \<and>
     (\<forall>j. j \<notin> ring_cell (psize rp) b ` {k..<m} \<longrightarrow> pdata rp' ! j = pdata rp ! j) \<and>
     gaps_free (pdata rp') (psize rp) b {k + length ys..<m}"
  using assms
proof (induction exs arbitrary: k os ys rp exs')
  case Nil
  have "length os = length ys" using Nil.prems(7) by (simp add: holds_def list_all2_conv_all_nth)
  then have "os = []" "ys = []" using Nil.prems(4) by (auto simp: created_def zip_eq_Nil_iff)
  then show ?case using Nil.prems by (simp add: created_def)
next
  case (Cons ex exs)
  let ?n = "psize rp"
  let ?cell = "ring_cell ?n b"
  show ?case
  proof (cases "ex_request_id ex")
    case None
    then obtain exs1 where l: "compact_loop c k (?cell k) exs rp = (exs1, k', pos', rp')" "exs' = ex # exs1"
      using Cons.prems(9) by (auto split: prod.splits)
    have "created exs = map2 (\<lambda>k ex. moved_ex ex (?cell k)) os ys" using Cons.prems(4) None by (simp add: created_def)
    note ih = Cons.IH [OF Cons.prems(1-3) this Cons.prems(5-8) l(1)]
    have "created exs' = created exs1" using None by (simp add: l(2) created_def)
    moreover have "staged_words exs' = staged_words (ex # exs)" using ih by (simp add: l(2) staged_words_def)
    ultimately show ?thesis using ih by simp
  next
    case (Some i)
    then have "map2 (\<lambda>k ex. moved_ex ex (?cell k)) os ys = ex # created exs" using Cons.prems(4) by (simp add: created_def)
    then obtain o0 os1 y ys1 where os: "os = o0 # os1" "ys = y # ys1" "ex = moved_ex y (?cell o0)"
        "created exs = map2 (\<lambda>k ex. moved_ex ex (?cell k)) os1 ys1"
      by (cases os; cases ys) auto
    have i: "i = ?cell o0" using Some os(3) by (simp add: moved_ex_def)
    have o0: "k \<le> o0" "o0 < m" "\<forall>x \<in> set os1. o0 < x \<and> x < m" using Cons.prems(5,6) by (auto simp: os(1))
    define d1 where "d1 = (if ?cell o0 \<noteq> ?cell k then (pdata rp)[?cell o0 := pdata rp ! ?cell k, ?cell k := pdata rp ! ?cell o0] else pdata rp)"
    define d2 where "d2 = d1[?cell k := (d1 ! ?cell k)\<lparr>counter := c + of_nat k\<rparr>]"
    note st = compact_step [OF Cons.prems(1,2) o0(1,2) Cons.prems(3) o0(3) Cons.prems(7) [unfolded os(1,2)] Cons.prems(8) [unfolded os(1)] d1_def d2_def]
    have next': "(?cell k + 1) mod ?n = ?cell (Suc k)" by (simp add: ring_cell_def mod_Suc_eq)
    obtain exs1 where l: "compact_loop c (Suc k) (?cell (Suc k)) exs (rp\<lparr>pdata := d2\<rparr>) = (exs1, k', pos', rp')"
        and exs': "exs' = moved_ex y (?cell k) # exs1"
      using Cons.prems(9) next' by (auto simp: Some i Let_def d1_def d2_def os(3) moved_ex_def split: prod.splits)
    have "set os1 \<subseteq> {Suc k..<m}" "sorted_wrt (<) os1" using o0 Cons.prems(5) by (auto simp: os(1))
    then have ih: "rp' = rp\<lparr>pdata := pdata rp'\<rparr>" "length (pdata rp') = ?n" "staged_words exs1 = staged_words exs"
        "created exs1 = map (\<lambda>j. moved_ex (ys1 ! j) (?cell (Suc k + j))) [0..<length ys1]"
        "\<forall>j < length ys1. pdata rp' ! ?cell (Suc k + j) = stored (ys1 ! j) (c + of_nat (Suc k + j))"
        "\<forall>j. j \<notin> ?cell ` {Suc k..<m} \<longrightarrow> pdata rp' ! j = d2 ! j" "gaps_free (pdata rp') ?n b {Suc k + length ys1..<m}"
      using Cons.IH [of "rp\<lparr>pdata := d2\<rparr>" os1 ys1 "Suc k" exs1] Cons.prems(1,3) os(4) st(1,3,4) l by simp_all
    have "?cell k \<notin> ?cell ` {Suc k..<m}" by (rule ring_cell_apart) (use o0 Cons.prems(3) in auto)
    then have here: "pdata rp' ! ?cell k = stored y (c + of_nat k)" using ih(6) st(2) by simp
    have "pdata rp' ! ?cell (k + j) = stored (ys ! j) (c + of_nat (k + j))" if "j < length ys" for j
      using here ih(5) that by (cases j) (simp_all add: os(2))
    moreover have "created exs' = map (\<lambda>j. moved_ex (ys ! j) (?cell (k + j))) [0..<length ys]"
    proof -
      have "created exs' = moved_ex y (?cell k) # created exs1" by (simp add: exs' created_def moved_ex_def)
      also have "\<dots> = map (\<lambda>j. moved_ex (ys ! j) (?cell (k + j))) [0..<length ys]"
        unfolding ih(4) os(2) by (simp add: upt_conv_Cons map_Suc_upt [symmetric] comp_def del: upt_Suc)
      finally show ?thesis .
    qed
    moreover have "pdata rp' ! j = pdata rp ! j" if "j \<notin> ?cell ` {k..<m}" for j
    proof -
      have "j \<notin> ?cell ` {Suc k..<m}" using that by auto
      then show ?thesis using ih(6) st(5) [OF that] by simp
    qed
    moreover have "staged_words exs' = staged_words (ex # exs)"
      using ih(3) by (simp add: exs' os(3) staged_words_def moved_ex_def)
    ultimately show ?thesis using ih(1,2,7) by (simp add: os(2))
  qed
qed

section \<open>Copying a round\<close>

text \<open>
  The result of copying and compaction: \<open>m\<close> records were stored, the others keep their words in
  their slots.
\<close>

definition batch_copied ::
  "pinba_stats_record pinba_pool \<Rightarrow> pinba_stats_record pinba_pool \<Rightarrow> u64 \<Rightarrow>
   pinba_stats_record_ex list \<Rightarrow> pinba_stats_record_ex list \<Rightarrow> bool" where
  "batch_copied p q c ys copied \<longleftrightarrow>
     q = p\<lparr>pdata := pdata q\<rparr> \<and> length (pdata q) = psize p \<and>
     created copied = map (\<lambda>j. moved_ex (ys ! j) (advance p (pin p) j)) [0..<length ys] \<and>
     (\<forall>j < length ys. pdata q ! advance p (pin p) j = stored (ys ! j) (c + of_nat j)) \<and>
     (\<forall>i. i \<in> set (cells p) \<longrightarrow> pdata q ! i = pdata p ! i) \<and>
     (\<forall>i < psize p. i \<notin> set (cells p) \<longrightarrow> i \<notin> set (free_cells p (length ys)) \<longrightarrow> dictionary_words (pdata q ! i) = [])"

lemma ring_cell_advance: "pin p < psize p \<Longrightarrow> k \<le> psize p \<Longrightarrow> ring_cell (psize p) (pin p) k = advance p (pin p) k"
  by (simp add: ring_cell_def advance_mod)

lemma free_ring_cells:
  assumes "pool_ok p" and "m \<le> psize p"
  shows "ring_cell (psize p) (pin p) ` {0..<m} = set (free_cells p m)"
  using assms by (auto simp: free_cells_def ring_cell_advance pool_ok_def image_iff)

lemma batch_copied_intro:
  assumes p: "pool_ok p" "pinba_pool_num_records p + a < psize p" and u: "unused_wordless p"
    and q: "q = p\<lparr>pdata := pdata q\<rparr>" "length (pdata q) = psize p" and le: "length ys \<le> a"
    and cr: "created copied = map (\<lambda>j. moved_ex (ys ! j) (ring_cell (psize p) (pin p) j)) [0..<length ys]"
    and st: "\<forall>j < length ys. pdata q ! ring_cell (psize p) (pin p) j = stored (ys ! j) (c + of_nat j)"
    and out: "\<forall>j. j \<notin> ring_cell (psize p) (pin p) ` {0..<a} \<longrightarrow> pdata q ! j = pdata p ! j"
    and gaps: "gaps_free (pdata q) (psize p) (pin p) {length ys..<a}"
  shows "batch_copied p q c ys copied"
proof -
  have a: "a \<le> psize p" and pin: "pin p < psize p" using p by (simp_all add: pool_ok_def)
  have adv: "ring_cell (psize p) (pin p) j = advance p (pin p) j" if "j < a" for j
    using ring_cell_advance [OF pin, of j] that a by simp
  have cells: "ring_cell (psize p) (pin p) ` {0..<a} = set (free_cells p a)" by (rule free_ring_cells [OF p(1) a])
  have "pdata q ! i = pdata p ! i" if "i \<in> set (cells p)" for i
    using out free_cells_fresh(1) [OF p] that unfolding cells by blast
  moreover have "dictionary_words (pdata q ! i) = []"
    if i: "i < psize p" "i \<notin> set (cells p)" "i \<notin> set (free_cells p (length ys))" for i
  proof (cases "i \<in> set (free_cells p a)")
    case True
    then obtain k where k: "k < a" "i = ring_cell (psize p) (pin p) k" unfolding cells [symmetric] by auto
    then have "\<not> k < length ys" using i(3) adv by (auto simp: free_cells_def)
    then show ?thesis using gaps k by (simp add: gaps_free_def)
  next
    case False
    then show ?thesis using out u i p(1) unfolding cells by (simp add: unused_wordless_def pool_ok_def)
  qed
  moreover have "created copied = map (\<lambda>j. moved_ex (ys ! j) (advance p (pin p) j)) [0..<length ys]"
    unfolding cr using adv le by (intro map_cong) auto
  ultimately show ?thesis using q st adv le by (simp add: batch_copied_def)
qed

lemma batch_copy_result:
  assumes p: "pool_ok p" and u: "unused_wordless p" and room: "rtc = min (psize p - pinba_pool_num_records p - 1) (length (concat exss))"
    and job: "copy_jobs mem c 0 0 rtc exss p d = (jobs, p1, d1)"
    and comp: "(jobs', q) = (if length (created (concat (map fst jobs))) < length (concat (map fst jobs))
       then compact_jobs c 0 (pin p1) jobs p1 else (jobs, p1))"
  shows "\<exists>ys. d1 = d \<and> batch_copied p q c ys (concat (map fst jobs')) \<and> length ys \<le> rtc \<and> subseq ys (concat exss) \<and>
     staged_words (concat exss) = staged_words ys + staged_words (concat (map fst jobs')) + staged_words (concat (map snd jobs')) \<and>
     ((\<forall>t k. mem t k) \<longrightarrow> length ys = rtc)"
proof -
  let ?n = "psize p" and ?b = "pin p"
  have pin: "?b < ?n" "length (pdata p) = ?n" using p by (simp_all add: pool_ok_def)
  have rtc: "pinba_pool_num_records p + rtc < ?n" using num_records_less [OF p] room by simp
  have cells: "ring_cell ?n ?b ` {0..<rtc} = set (free_cells p rtc)" using free_ring_cells [OF p] rtc by simp
  have "dictionary_words (pdata p ! ring_cell ?n ?b k) = []" if "k \<in> {0..<0 + rtc}" for k
  proof -
    have "ring_cell ?n ?b k \<in> set (free_cells p rtc)" using that cells by auto
    then show ?thesis using u free_cells_fresh [OF p rtc] pin by (auto simp: unused_wordless_def)
  qed
  then have free: "\<forall>k \<in> {0..<0 + rtc}. dictionary_words (pdata p ! ring_cell ?n ?b k) = []" by blast
  have "0 + rtc \<le> ?n" using rtc by simp
  from copy_jobs_result [OF pin(1) this pin(2) free job] obtain txs os ys cs where r: "d1 = d" "p1 = p\<lparr>pdata := pdata p1\<rparr>" "length txs = min rtc (length (concat exss))"
      "copies ?n ?b 0 (0 + length txs) (pdata p) (pdata p1) txs (concat (map fst jobs)) os ys cs" "subseq txs (concat exss)"
      "staged_words (concat exss) = staged_words txs + staged_words (concat (map snd jobs))"
      "length ys = length txs \<longrightarrow> os = [0..<0 + length txs] \<and> cs = map (\<lambda>k. c + of_nat (0 + k)) [0..<length txs]"
      "(\<forall>t k. mem t k) \<longrightarrow> length ys = length txs"
    by blast
  have len: "length txs = rtc" using r(3) room by simp
  note cp = r(4) [unfolded len add_0 copies_def]
  have sub: "subseq ys (concat exss)" using cp r(5) by (meson subseq_order.trans)
  have le: "length ys \<le> rtc" using cp len by (auto dest: list_emb_length)
  have same: "psize p1 = ?n" "pin p1 = ?b" "length (pdata p1) = ?n"
    using r(2) cp pin(2) by (metis pinba_pool.select_convs(1) pinba_pool.surjective pinba_pool.update_convs(7),
      metis pinba_pool.select_convs(4) pinba_pool.surjective pinba_pool.update_convs(7), simp)
  have cnt: "length (created (concat (map fst jobs))) = length ys" "length (concat (map fst jobs)) = rtc"
    using cp len by simp_all
  show ?thesis
  proof (cases "length ys < rtc")
    case True
    then have "compact_jobs c 0 ?b jobs p1 = (jobs', q)" using comp cnt same(2) by simp
    from compact_jobs_concat [OF this] obtain k' pos' where snd: "map snd jobs' = map snd jobs"
        and loop: "compact_loop c 0 ?b (concat (map fst jobs)) p1 = (concat (map fst jobs'), k', pos', q)" by blast
    have b0: "ring_cell (psize p1) ?b 0 = ?b" using pin same(1) by (simp add: ring_cell_def)
    have loop': "compact_loop c 0 (ring_cell (psize p1) ?b 0) (concat (map fst jobs)) p1 = (concat (map fst jobs'), k', pos', q)"
      using loop b0 by simp
    have "0 < psize p1" "length (pdata p1) = psize p1" "rtc \<le> psize p1"
      "created (concat (map fst jobs)) = map2 (\<lambda>k ex. moved_ex ex (ring_cell (psize p1) ?b k)) os ys"
      "sorted_wrt (<) os" "set os \<subseteq> {0..<rtc}" "holds (pdata p1) (psize p1) ?b os ys"
      "gaps_free (pdata p1) (psize p1) ?b ({0..<rtc} - set os)"
      using cp pin rtc unfolding same by (simp_all add: holds_def gaps_free_def list_all2_conv_all_nth) blast
    from compact_loop_result [OF this loop', unfolded same]
    have c: "q = p1\<lparr>pdata := pdata q\<rparr>" "length (pdata q) = ?n"
        "staged_words (concat (map fst jobs')) = staged_words (concat (map fst jobs))"
        "created (concat (map fst jobs')) = map (\<lambda>j. moved_ex (ys ! j) (ring_cell ?n ?b (0 + j))) [0..<length ys]"
        "\<forall>j < length ys. pdata q ! ring_cell ?n ?b (0 + j) = stored (ys ! j) (c + of_nat (0 + j))"
        "\<forall>j. j \<notin> ring_cell ?n ?b ` {0..<rtc} \<longrightarrow> pdata q ! j = pdata p1 ! j" "gaps_free (pdata q) ?n ?b {0 + length ys..<rtc}"
      by blast+
    have "q = p\<lparr>pdata := pdata q\<rparr>"
    proof -
      have "p1\<lparr>pdata := x\<rparr> = p\<lparr>pdata := x\<rparr>" for x by (subst r(2)) simp
      then show ?thesis using c(1) by metis
    qed
    then have "batch_copied p q c ys (concat (map fst jobs'))"
      using c cp by (intro batch_copied_intro [OF p rtc u _ _ le]) simp_all
    then show ?thesis using r(1,6,8) c(3) cp snd sub le len True by auto
  next
    case False
    then have all: "length ys = rtc" "jobs' = jobs" "q = p1" using comp cnt le by auto
    then have os: "os = [0..<rtc]" "cs = map (\<lambda>k. c + of_nat k) [0..<rtc]" using r(7) len by simp_all
    have "created (concat (map fst jobs')) = map (\<lambda>j. moved_ex (ys ! j) (ring_cell ?n ?b j)) [0..<length ys]"
      using cp all by (intro nth_equalityI) (simp_all add: os)
    moreover have "\<forall>j < length ys. pdata q ! ring_cell ?n ?b j = stored (ys ! j) (c + of_nat j)"
      using cp all by (simp add: os)
    moreover have "\<forall>j. j \<notin> ring_cell ?n ?b ` {0..<rtc} \<longrightarrow> pdata q ! j = pdata p ! j" using cp all(3) by blast
    moreover have "gaps_free (pdata q) ?n ?b {length ys..<rtc}" using all(1) by (simp add: gaps_free_def)
    ultimately have "batch_copied p q c ys (concat (map fst jobs'))"
      using r(2) same(3) all(3) by (intro batch_copied_intro [OF p rtc u _ _ le]) simp_all
    then show ?thesis using r(1,6) cp all sub le by auto
  qed
qed

end
