(* ===== verification/Batch_Stage.thy ===== *)
theory Batch_Stage
  imports Batch
begin

text \<open>
  What the workers have staged when a round starts copying: well-formed records whose words are
  accounted for, and whose tag names all have descriptors that stay when the daemon admits names.
  Without admission names are created while timers are merged; that cannot fail as long as there is
  memory and ids are left.
\<close>

section \<open>Admitted names stay\<close>

text \<open>A registry that still has every descriptor of another.\<close>

definition registry_le :: "tag_registry \<Rightarrow> tag_registry \<Rightarrow> bool" where
  "registry_le g h \<longleftrightarrow>
     (\<forall>s t. pinba_map_get (name_index g) s = Some t \<longrightarrow> pinba_map_get (name_index h) s = Some t)"

lemma registry_le_refl [simp]: "registry_le g g"
  by (simp add: registry_le_def)

lemma registry_le_trans: "registry_le f g \<Longrightarrow> registry_le g h \<Longrightarrow> registry_le f h"
  by (simp add: registry_le_def)

lemma tag_of_word_again:
  assumes "registry_ok (tag_gc_enabled (ie_tags env)) g" and "length (word_str w) < PINBA_TAG_NAME_SIZE"
    and "tag_of_word env w g = (res, g')"
  shows "registry_ok (tag_gc_enabled (ie_tags env)) g'" and "registry_le g g'"
    and "res = Some t \<Longrightarrow> registry_le g' h \<Longrightarrow> tag_of_word env w h = (Some t, h)"
  using tag_of_word_mono [OF assms] tag_of_word_known [of h w t env] by (auto simp: registry_le_def)

lemma admit_names_again:
  assumes "registry_ok (tag_gc_enabled (ie_tags env)) g"
    and "\<forall>i \<in> set is. length (word_str (words ! unat i)) < PINBA_TAG_NAME_SIZE"
    and "admit_names env words is g = (ok, g')"
  shows "registry_ok (tag_gc_enabled (ie_tags env)) g' \<and> registry_le g g' \<and>
     (ok \<longrightarrow> (\<forall>h. registry_le g' h \<longrightarrow> admit_names env words is h = (True, h)))"
  using assms
proof (induction "is" arbitrary: g)
  case (Cons i "is")
  obtain res g1 where r: "tag_of_word env (words ! unat i) g = (res, g1)" by fastforce
  have "length (word_str (words ! unat i)) < PINBA_TAG_NAME_SIZE" using Cons.prems(2) by simp
  note one = tag_of_word_again [OF Cons.prems(1) this r]
  show ?case
  proof (cases res)
    case None
    then show ?thesis using Cons.prems(3) one r by auto
  next
    case (Some t)
    then have "admit_names env words is g1 = (ok, g')" using Cons.prems(3) r by simp
    then have ih: "registry_ok (tag_gc_enabled (ie_tags env)) g'" "registry_le g1 g'"
        "ok \<Longrightarrow> registry_le g' h \<Longrightarrow> admit_names env words is h = (True, h)" for h
      using Cons.IH [OF one(1)] Cons.prems(2) by auto
    then show ?thesis using one(2) one(3) [OF Some] registry_le_trans by (auto simp: registry_le_trans [OF ih(2)])
  qed
qed simp

lemma admit_timers_again:
  assumes "registry_ok (tag_gc_enabled (ie_tags env)) g"
    and "\<forall>i \<in> set names. length (word_str (words ! unat i)) < PINBA_TAG_NAME_SIZE"
    and "admit_timers env words names offset hs ts g = (ok, g')"
  shows "registry_ok (tag_gc_enabled (ie_tags env)) g' \<and> registry_le g g' \<and>
     (ok \<longrightarrow> (\<forall>h. registry_le g' h \<longrightarrow> admit_timers env words names offset hs ts h = (True, h)))"
  using assms
proof (induction env words names offset hs ts g rule: admit_timers.induct)
  case (1 env words names offset hits hs tgs ts g)
  show ?case
  proof (cases "hits \<noteq> 0 \<and> tgs \<noteq> 0")
    case True
    let ?is = "take (unat tgs) (drop offset names)"
    obtain aok g1 where a: "admit_names env words ?is g = (aok, g1)" by fastforce
    have "\<forall>i \<in> set ?is. length (word_str (words ! unat i)) < PINBA_TAG_NAME_SIZE"
      using "1.prems"(2) by (meson in_set_takeD in_set_dropD)
    then have one: "registry_ok (tag_gc_enabled (ie_tags env)) g1" "registry_le g g1"
        "aok \<Longrightarrow> registry_le g1 h \<Longrightarrow> admit_names env words ?is h = (True, h)" for h
      using admit_names_again [OF "1.prems"(1) _ a] by auto
    show ?thesis
    proof (cases aok)
      case False
      then show ?thesis using "1.prems"(3) True a one by auto
    next
      case aok: True
      then have "admit_timers env words names (offset + unat tgs) hs ts g1 = (ok, g')" using "1.prems"(3) True a by simp
      then have ih: "registry_ok (tag_gc_enabled (ie_tags env)) g'" "registry_le g1 g'"
          "ok \<Longrightarrow> registry_le g' h \<Longrightarrow> admit_timers env words names (offset + unat tgs) hs ts h = (True, h)" for h
        using "1.IH"(1) [OF True] a aok one(1) "1.prems"(2) by auto
      then show ?thesis using one(2,3) aok True registry_le_trans [OF one(2) ih(2)] registry_le_trans [OF ih(2)] by auto
    qed
  next
    case False
    then show ?thesis using "1.IH"(2) [OF False] "1.prems" by auto
  qed
qed auto

text \<open>All tag names of a staged record have descriptors in \<open>g\<close>, and in every registry that keeps them.\<close>

definition names_known :: "ingest_env \<Rightarrow> tag_registry \<Rightarrow> pinba_stats_record_ex \<Rightarrow> bool" where
  "names_known env g ex \<longleftrightarrow>
     (\<forall>h. registry_le g h \<longrightarrow>
        admit_timers env (ex_words ex) (q_timer_tag_name (ex_request ex)) 0
          (q_timer_hit_count (ex_request ex)) (q_timer_tag_count (ex_request ex)) h = (True, h))"

lemma names_known_mono: "names_known env g ex \<Longrightarrow> registry_le g h \<Longrightarrow> names_known env h ex"
  using registry_le_trans by (auto simp: names_known_def)

text \<open>The daemon checks tag names before it publishes a request when it collects or limits them.\<close>

definition admission :: "ingest_env \<Rightarrow> bool" where
  "admission env \<longleftrightarrow> tag_gc_enabled (ie_tags env) \<or> tag_names_limit (ie_tags env) \<noteq> 0"

definition names_staged :: "ingest_env \<Rightarrow> tag_registry \<Rightarrow> pinba_stats_record_ex \<Rightarrow> bool" where
  "names_staged env g ex \<longleftrightarrow> (admission env \<longrightarrow> names_known env g ex)"

lemma names_staged_mono: "names_staged env g ex \<Longrightarrow> registry_le g h \<Longrightarrow> names_staged env h ex"
  using names_known_mono by (auto simp: names_staged_def)

lemma dictionary_key_short: "length (dictionary_key s) < PINBA_TAG_NAME_SIZE"
  by (simp add: dictionary_key_def)

lemma request_to_record_names:
  assumes d: "dictionary_ok (ie_word_size env) owners d" and g: "registry_ok (tag_gc_enabled (ie_tags env)) g"
    and size: "size owners + n_dictionary q < 2 ^ 64" and f: "fresh_words env"
    and q: "request_valid q" and ex: "ex_words ex = []" "ex_request ex = q"
    and res: "request_to_record env q ex d g = (ok, ex', d', g')"
  shows "registry_le g g' \<and> (\<not> admission env \<longrightarrow> g' = g) \<and> (ok \<longrightarrow> names_staged env g' (ex'\<lparr>ex_record := r\<rparr>))"
proof -
  let ?strs = "map (dictionary_entry q) [0..<n_dictionary q]"
  obtain sok ws sd where sw: "stage_words env ?strs [] d = (sok, ws, sd)" by (cases "stage_words env ?strs [] d") auto
  let ?admit = "admit_timers env ws (q_timer_tag_name q) 0 (q_timer_hit_count q) (q_timer_tag_count q)"
  obtain aok ga where a: "?admit g = (aok, ga)" by fastforce
  have admitted: "registry_le g ga \<and> (aok \<longrightarrow> (\<forall>h. registry_le ga h \<longrightarrow> ?admit h = (True, h)))" if sok
  proof -
    have "size owners + length ?strs < 2 ^ 64" using size by simp
    from stage_words_ok [OF d this f sw] that have ws: "map word_str ws = map dictionary_key ?strs" by auto
    have "length (word_str (ws ! unat i)) < PINBA_TAG_NAME_SIZE" if i: "i \<in> set (q_timer_tag_name q)" for i
    proof -
      have "unat i < n_dictionary q" using q i by (auto simp: request_valid_def list_all_iff)
      then have "word_str (ws ! unat i) = dictionary_key (?strs ! unat i)"
        using ws by (metis length_map length_upt minus_nat.diff_0 nth_map)
      then show ?thesis using dictionary_key_short by simp
    qed
    then show ?thesis using admit_timers_again [OF g _ a] by blast
  qed
  have empty: "q_timer_hit_count q = []" if "n_dictionary q = 0" using q that by (simp add: request_valid_def)
  define inner where "inner = (if n_dictionary q = 0 then (True, [], d, g)
       else if \<not> ie_words_mem env then (False, [], d, g)
       else case stage_words env ?strs [] d of
              (False, words, d) \<Rightarrow> (False, words, d, g)
            | (True, words, d) \<Rightarrow>
                if tag_gc_enabled (ie_tags env) \<or> tag_names_limit (ie_tags env) \<noteq> 0
                then (case admit_timers env words (q_timer_tag_name q) 0 (q_timer_hit_count q) (q_timer_tag_count q) g of
                        (ok, g) \<Rightarrow> (ok, words, d, g))
                else (True, words, d, g))"
  obtain iok wds di gi where i: "inner = (iok, wds, di, gi)" by (cases inner) auto
  have in1: "registry_le g gi \<and> (\<not> admission env \<longrightarrow> gi = g) \<and> (iok \<and> admission env \<longrightarrow> (\<forall>h. registry_le gi h \<longrightarrow>
      admit_timers env wds (q_timer_tag_name q) 0 (q_timer_hit_count q) (q_timer_tag_count q) h = (True, h)))"
    using i admitted empty unfolding inner_def sw admission_def
    by (cases sok) (auto simp: a split: if_splits)
  have rel: "pinba_tmp_release_words ex d = (ex\<lparr>ex_record := (ex_record ex)\<lparr>tags := []\<rparr>\<rparr>, d)"
    using ex(1) by (simp add: pinba_tmp_release_words_def pinba_words_release_def)
  have "g' = gi" "ok \<Longrightarrow> iok \<and> ex_words ex' = wds \<and> ex_request ex' = q"
    using res ex(2) unfolding request_to_record_def rel prod.case Let_def inner_def [symmetric] i
    by (auto split: if_splits prod.splits bool.splits)
  then show ?thesis using in1 by (auto simp: names_staged_def names_known_def)
qed

section \<open>The workers\<close>

lemma stage_request_names:
  assumes s: "stage_ok env owners now s" and f: "fresh_words env"
    and size: "size owners + size (staged_words (ss_staged s)) + n_dictionary q < 2 ^ 64"
    and k: "\<forall>ex \<in> set (ss_staged s). names_staged env (ss_registry s) ex"
    and t: "t = stage_request env now q s"
  shows "registry_le (ss_registry s) (ss_registry t) \<and> (\<not> admission env \<longrightarrow> ss_registry t = ss_registry s) \<and> (\<forall>ex \<in> set (ss_staged t). names_staged env (ss_registry t) ex)"
proof -
  let ?ex = "\<lparr>ex_record = zero_record, ex_request = q, ex_words = [], ex_request_id = None\<rparr>"
  obtain ok ex d g where r: "request_to_record env q ?ex (ss_dictionary s) (ss_registry s) = (ok, ex, d, g)"
    by (cases "request_to_record env q ?ex (ss_dictionary s) (ss_registry s)") auto
  have size': "size (owners + staged_words (ss_staged s)) + n_dictionary q < 2 ^ 64" using size by simp
  have t: "t = (if \<not> request_valid q then s\<lparr>ss_invalid := ss_invalid s + 1\<rparr>
      else if \<not> ie_slots env (length (ss_staged s)) then s
      else if ok then s\<lparr>ss_dictionary := d, ss_registry := g,
             ss_staged := ss_staged s @ [ex\<lparr>ex_record := (ex_record ex)\<lparr>rec_time := now\<rparr>\<rparr>]\<rparr>
      else s\<lparr>ss_dictionary := snd (pinba_tmp_release_words ex d), ss_registry := g\<rparr>)"
    using validate_iff [of q] by (simp add: t stage_request_def r split: bool.splits)
  have "registry_le (ss_registry s) g \<and> (\<not> admission env \<longrightarrow> g = ss_registry s) \<and> (ok \<longrightarrow> names_staged env g (ex\<lparr>ex_record := (ex_record ex)\<lparr>rec_time := now\<rparr>\<rparr>))"
    if "request_valid q"
    using request_to_record_names [OF _ _ size' f that _ _ r] s by (simp add: stage_ok_def)
  then show ?thesis using k names_staged_mono unfolding t by auto
qed

text \<open>What holds of the staged records of all workers.\<close>

definition round_staged ::
  "ingest_env \<Rightarrow> pinba_timeval \<Rightarrow> pinba_request list \<Rightarrow> tag_registry \<Rightarrow> pinba_stats_record_ex list \<Rightarrow> bool" where
  "round_staged env now qs g exs \<longleftrightarrow>
     list_all (staged_ok now) exs \<and> (\<forall>ex \<in> set exs. names_staged env g ex) \<and>
     subseq (map ex_request exs) qs \<and> size (staged_words exs) \<le> (\<Sum>q \<leftarrow> qs. n_dictionary q)"

lemma worker_staged:
  assumes "stage_ok env owners now s" and f: "fresh_words env" and "\<forall>q \<in> set qs. request_floats q"
    and "size owners + size (staged_words (ss_staged s)) + (\<Sum>q \<leftarrow> qs. n_dictionary q) < 2 ^ 64"
    and "\<forall>ex \<in> set (ss_staged s). names_staged env (ss_registry s) ex"
    and "t = fold (stage_request env now) qs s"
  shows "registry_le (ss_registry s) (ss_registry t) \<and> (\<not> admission env \<longrightarrow> ss_registry t = ss_registry s) \<and> (\<forall>ex \<in> set (ss_staged t). names_staged env (ss_registry t) ex)"
  using assms
proof (induction qs arbitrary: s)
  case (Cons q qs)
  let ?s = "stage_request env now q s"
  have q: "request_floats q" "size owners + size (staged_words (ss_staged s)) + n_dictionary q < 2 ^ 64"
    using Cons.prems by simp_all
  note one = stage_request_ok [OF Cons.prems(1) f q refl]
  note names = stage_request_names [OF Cons.prems(1) f q(2) Cons.prems(5) refl]
  obtain new where new: "ss_staged ?s = ss_staged s @ new" "size (staged_words new) \<le> n_dictionary q" using one(2) by blast
  have "size owners + size (staged_words (ss_staged ?s)) + (\<Sum>q \<leftarrow> qs. n_dictionary q) < 2 ^ 64"
    using new Cons.prems(4) by (simp add: staged_words_def)
  then show ?case using Cons.IH [OF one(1) f] names Cons.prems(3,6) registry_le_trans by auto
qed simp

lemma stage_jobs_ok:
  assumes "dictionary_ok (ie_word_size env) owners d" and "registry_ok (tag_gc_enabled (ie_tags env)) g"
    and f: "fresh_words env" and "\<forall>q \<in> set (concat (map packet_requests pools)). request_floats q"
    and "size owners + (\<Sum>q \<leftarrow> concat (map packet_requests pools). n_dictionary q) < 2 ^ 64"
    and "stage_jobs env now pools d g = (exss, invalid, d', g')"
  shows "dictionary_ok (ie_word_size env) (owners + staged_words (concat exss)) d' \<and> registry_ok (tag_gc_enabled (ie_tags env)) g' \<and>
     registry_le g g' \<and> (\<not> admission env \<longrightarrow> g' = g) \<and> round_staged env now (concat (map packet_requests pools)) g' (concat exss) \<and>
     invalid = length (filter (\<lambda>q. \<not> request_valid q) (concat (map packet_requests pools)))"
  using assms
proof (induction pools arbitrary: owners d g exss invalid)
  case Nil
  then show ?case by (simp add: round_staged_def staged_words_def)
next
  case (Cons packets pools)
  let ?qs = "packet_requests packets" and ?rest = "concat (map packet_requests pools)"
  let ?s = "\<lparr>ss_dictionary = d, ss_registry = g, ss_staged = [], ss_invalid = 0\<rparr>"
  define t where "t = fold (stage_request env now) ?qs ?s"
  obtain exss1 inv1 where rest: "stage_jobs env now pools (ss_dictionary t) (ss_registry t) = (exss1, inv1, d', g')"
      and e: "exss = ss_staged t # exss1" "invalid = ss_invalid t + inv1"
    using Cons.prems(6) unfolding stage_jobs.simps Let_def data_job_fold t_def [symmetric] by (auto split: prod.splits)
  have s: "stage_ok env owners now ?s" using Cons.prems(1,2) by (simp add: stage_ok_def staged_words_def)
  have fl: "\<forall>q \<in> set ?qs. request_floats q" and size: "size owners + size (staged_words (ss_staged ?s)) + (\<Sum>q \<leftarrow> ?qs. n_dictionary q) < 2 ^ 64"
    using Cons.prems(4,5) by (simp_all add: staged_words_def)
  from stage_requests_ok [OF s f fl size t_def] obtain new where st: "stage_ok env owners now t" "ss_staged t = new"
      "subseq (map ex_request new) (filter request_valid ?qs)" "size (staged_words new) \<le> (\<Sum>q \<leftarrow> ?qs. n_dictionary q)"
      "ss_invalid t = length (filter (\<lambda>q. \<not> request_valid q) ?qs)" by auto
  have names: "registry_le g (ss_registry t)" "\<not> admission env \<Longrightarrow> ss_registry t = g" "\<forall>ex \<in> set new. names_staged env (ss_registry t) ex"
    using worker_staged [OF s f fl size _ t_def] st(2) by simp_all
  have "size (owners + staged_words new) + (\<Sum>q \<leftarrow> ?rest. n_dictionary q) < 2 ^ 64" using Cons.prems(5) st(4) by simp
  then have ih: "dictionary_ok (ie_word_size env) (owners + staged_words new + staged_words (concat exss1)) d'"
      "registry_ok (tag_gc_enabled (ie_tags env)) g'" "registry_le (ss_registry t) g'" "\<not> admission env \<Longrightarrow> g' = ss_registry t"
      "round_staged env now ?rest g' (concat exss1)" "inv1 = length (filter (\<lambda>q. \<not> request_valid q) ?rest)"
    using Cons.IH [OF _ _ f _ _ rest] st(1,2) Cons.prems(4) by (auto simp: stage_ok_def)
  have "subseq (map ex_request new) ?qs" using st(3) subseq_filter_left subseq_order.trans by blast
  then have sub: "subseq (map ex_request (new @ concat exss1)) (?qs @ ?rest)"
    using ih(5) by (simp add: round_staged_def list_emb_append_mono)
  have "round_staged env now (?qs @ ?rest) g' (new @ concat exss1)"
    using ih(5) st(1,2,4) names(3) names_staged_mono [OF _ ih(3)] sub
    by (auto simp: round_staged_def stage_ok_def staged_words_def)
  then show ?case using ih names(2) st(2,5) e registry_le_trans [OF names(1) ih(3)] by (simp add: staged_words_def ac_simps)
qed

section \<open>Names created while merging\<close>

text \<open>Nothing keeps \<open>n\<close> more names from being created: no limit is set, memory is found and ids are left.\<close>

definition tags_creatable :: "ingest_env \<Rightarrow> tag_registry \<Rightarrow> nat \<Rightarrow> bool" where
  "tags_creatable env g n \<longleftrightarrow>
     tag_names_limit (ie_tags env) = 0 \<and> mem_tag (ie_tag_mem env) \<and> mem_name (ie_tag_mem env) \<and> mem_table (ie_tag_mem env) \<and>
     mem_index (ie_tag_mem env) \<and> unat (next_id g) + n \<le> 2 ^ 31"

lemma tags_creatable_less: "tags_creatable env g n \<Longrightarrow> m \<le> n \<Longrightarrow> tags_creatable env g m"
  by (auto simp: tags_creatable_def)

lemma tag_of_word_creates:
  assumes g: "registry_ok (tag_gc_enabled (ie_tags env)) g" and w: "length (word_str w) < PINBA_TAG_NAME_SIZE"
    and c: "tags_creatable env g (Suc n)"
  shows "\<exists>t h. tag_of_word env w g = (Some t, h) \<and> tags_creatable env h n"
proof (cases "pinba_map_get (name_index g) (word_str w)")
  case (Some t)
  then show ?thesis using tag_of_word_known [OF Some] tags_creatable_less [OF c] by simp
next
  case None
  have id: "unat (next_id g) < 2 ^ 31" using c by (simp add: tags_creatable_def)
  then have "\<not> tag_limit_reached (ie_tags env) g"
    using c by (simp add: tag_limit_reached_def tags_creatable_def word_less_nat_alt)
  then obtain t h where t: "pinba_tag_create (ie_tags env) (ie_tag_mem env) (word_str w) g = (Some t, h)"
    using c w None registry_fresh(1) [OF g]
    by (auto simp: pinba_tag_create_def tags_creatable_def Let_def try_add_absent ltry_add_absent)
  then have "next_id h = next_id g + 1" using create_result [OF g None w, of "ie_tag_mem env"] by simp
  then have "unat (next_id h) = Suc (unat (next_id g))" using id by (simp add: unat_word_ariths)
  then show ?thesis using t None c by (simp add: tag_of_word_def pinba_tag_lookup_or_create_locked_def tags_creatable_def)
qed

lemma admit_names_creates:
  assumes "registry_ok (tag_gc_enabled (ie_tags env)) g" and "\<forall>i \<in> set is. length (word_str (words ! unat i)) < PINBA_TAG_NAME_SIZE"
    and "tags_creatable env g (length is + n)"
  shows "\<exists>h. admit_names env words is g = (True, h) \<and> tags_creatable env h n"
  using assms
proof (induction "is" arbitrary: g)
  case (Cons i "is")
  have short: "length (word_str (words ! unat i)) < PINBA_TAG_NAME_SIZE" using Cons.prems(2) by simp
  obtain t h where t: "tag_of_word env (words ! unat i) g = (Some t, h)" "tags_creatable env h (length is + n)"
    using tag_of_word_creates [OF Cons.prems(1) short, of "length is + n"] Cons.prems(3) by auto
  then show ?case using Cons.IH [OF tag_of_word_again(1) [OF Cons.prems(1) short t(1)]] Cons.prems(2) by simp
qed simp

lemma admit_timers_creates:
  assumes "registry_ok (tag_gc_enabled (ie_tags env)) g" and "\<forall>i \<in> set names. length (word_str (words ! unat i)) < PINBA_TAG_NAME_SIZE"
    and "tags_creatable env g ((\<Sum>c \<leftarrow> ts. unat c) + n)"
  shows "\<exists>h. admit_timers env words names offset hs ts g = (True, h) \<and> tags_creatable env h n"
  using assms
proof (induction env words names offset hs ts g rule: admit_timers.induct)
  case (1 env words names offset hits hs tgs ts g)
  show ?case
  proof (cases "hits \<noteq> 0 \<and> tgs \<noteq> 0")
    case True
    let ?is = "take (unat tgs) (drop offset names)"
    have short: "\<forall>i \<in> set ?is. length (word_str (words ! unat i)) < PINBA_TAG_NAME_SIZE"
      using "1.prems"(2) by (meson in_set_takeD in_set_dropD)
    have "tags_creatable env g (length ?is + ((\<Sum>c \<leftarrow> ts. unat c) + n))"
      by (rule tags_creatable_less [OF "1.prems"(3)]) simp
    from admit_names_creates [OF "1.prems"(1) short this] obtain h where
      h: "admit_names env words ?is g = (True, h)" "tags_creatable env h ((\<Sum>c \<leftarrow> ts. unat c) + n)" by blast
    have "registry_ok (tag_gc_enabled (ie_tags env)) h" using admit_names_again [OF "1.prems"(1) short h(1)] by blast
    then show ?thesis using "1.IH"(1) [OF True h(1) [symmetric] refl] h "1.prems"(2) True by auto
  next
    case False
    have "tags_creatable env g ((\<Sum>c \<leftarrow> ts. unat c) + n)" by (rule tags_creatable_less [OF "1.prems"(3)]) simp
    then show ?thesis using "1.IH"(2) [OF False] "1.prems"(1,2) False by auto
  qed
qed (auto intro: tags_creatable_less)

text \<open>Timers whose names all have descriptors look the same in every later registry.\<close>

lemma resolve_again:
  assumes "registry_ok (tag_gc_enabled (ie_tags env)) g" and "\<forall>i \<in> fst ` set nvs. length (word_str (words ! unat i)) < PINBA_TAG_NAME_SIZE"
    and "admit_names env words (map fst nvs) g = (True, g')" and "registry_le g' h"
  shows "resolve_tags env words nvs h = (fst (resolve_tags env words nvs g), h)"
  using assms
proof (induction nvs arbitrary: g)
  case (Cons nv nvs)
  obtain i v where nv: "nv = (i, v)" by (cases nv)
  have short: "length (word_str (words ! unat i)) < PINBA_TAG_NAME_SIZE" using Cons.prems(2) by (simp add: nv)
  obtain t g1 where t: "tag_of_word env (words ! unat i) g = (Some t, g1)" "admit_names env words (map fst nvs) g1 = (True, g')"
    using Cons.prems(3) by (auto simp: nv split: prod.splits option.splits)
  note one = tag_of_word_again [OF Cons.prems(1) short t(1)]
  have short': "\<forall>i \<in> set (map fst nvs). length (word_str (words ! unat i)) < PINBA_TAG_NAME_SIZE" using Cons.prems(2) by simp
  have "registry_le g1 g'" using admit_names_again [OF one(1) short' t(2)] by blast
  then have "tag_of_word env (words ! unat i) h = (Some t, h)" using one(3) [OF refl] registry_le_trans Cons.prems(4) by blast
  moreover have "resolve_tags env words nvs h = (fst (resolve_tags env words nvs g1), h)"
    using Cons.IH [OF one(1) _ t(2) Cons.prems(4)] short' by simp
  ultimately show ?case using t(1) by (simp add: nv split: prod.split)
qed simp

lemma merged_again:
  assumes "registry_ok (tag_gc_enabled (ie_tags env)) g" and "\<forall>i \<in> set (q_timer_tag_name q). length (word_str (words ! unat i)) < PINBA_TAG_NAME_SIZE"
    and "admit_timers env words (q_timer_tag_name q) tt hs ts g = (True, g')" and "registry_le g' h"
    and "length (q_timer_tag_value q) = length (q_timer_tag_name q)"
  shows "merged_timers env q words rid i tt hs ts h = (fst (merged_timers env q words rid i tt hs ts g), h)"
  using assms
proof (induction env words "q_timer_tag_name q" tt hs ts g arbitrary: i rule: admit_timers.induct)
  case (1 env words offset hits hs tgs ts g)
  show ?case
  proof (cases "hits = 0 \<or> tgs = 0")
    case True
    then show ?thesis using "1.hyps"(2) [of "Suc i"] "1.prems" by auto
  next
    case False
    let ?nvs = "take (unat tgs) (drop offset (zip (q_timer_tag_name q) (q_timer_tag_value q)))"
    have fst: "map fst ?nvs = take (unat tgs) (drop offset (q_timer_tag_name q))"
      using "1.prems"(5) by (simp add: take_map [symmetric] drop_map [symmetric])
    obtain g1 where g1: "admit_names env words (map fst ?nvs) g = (True, g1)"
        "admit_timers env words (q_timer_tag_name q) (offset + unat tgs) hs ts g1 = (True, g')"
      using "1.prems"(3) False unfolding fst by (auto split: prod.splits bool.splits)
    have short: "\<forall>i \<in> set (map fst ?nvs). length (word_str (words ! unat i)) < PINBA_TAG_NAME_SIZE"
      unfolding fst using "1.prems"(2) by (meson in_set_takeD in_set_dropD)
    have ok1: "registry_ok (tag_gc_enabled (ie_tags env)) g1" using admit_names_again [OF "1.prems"(1) short g1(1)] by blast
    have "registry_le g1 g'" using admit_timers_again [OF ok1 "1.prems"(2) g1(2)] by blast
    then have le: "registry_le g1 h" using registry_le_trans "1.prems"(4) by blast
    obtain tgl g2 where rs: "resolve_tags env words ?nvs g = (tgl, g2)" by fastforce
    have g2: "g2 = g1" using resolve_admitted [OF g1(1)] rs by simp
    have "resolve_tags env words ?nvs h = (tgl, h)"
      using resolve_again [OF "1.prems"(1) _ g1(1) le] short rs by simp
    moreover have "merged_timers env q words rid (Suc i) (offset + unat tgs) hs ts h =
        (fst (merged_timers env q words rid (Suc i) (offset + unat tgs) hs ts g1), h)"
      using "1.hyps"(1) [of True g1 "Suc i"] g1 "1.prems" ok1 False unfolding fst by auto
    ultimately show ?thesis using rs g2 False by (simp split: prod.split)
  qed
qed auto

end
