(* ===== verification/Batch_Reports.thy ===== *)
theory Batch_Reports
  imports Batch
begin

text \<open>
  One report through a round of the data thread: the new requests are in the cells after \<open>in\<close>,
  the report is dated if it is new, fed by its job, and follows the pool once the requests are
  published.
\<close>

section \<open>The new requests\<close>

definition publish :: "nat \<Rightarrow> pinba_stats_record pinba_pool \<Rightarrow> pinba_stats_record pinba_pool" where
  "publish n q = q\<lparr>pin := advance q (pin q) n\<rparr>"

definition feed_job :: "nat \<Rightarrow> pinba_stats_record pinba_pool \<Rightarrow> report_job" where
  "feed_job n q = \<lparr>job_prefix = pin q, job_count = n, job_add = True\<rparr>"

text \<open>
  \<open>arrived now c n q\<close>: the \<open>n\<close> cells after \<open>in\<close> hold well-formed requests of the moment \<open>now\<close>,
  numbered from \<open>c\<close>.
\<close>

definition arrived :: "pinba_timeval \<Rightarrow> u64 \<Rightarrow> nat \<Rightarrow> pinba_stats_record pinba_pool \<Rightarrow> bool" where
  "arrived now c n q \<longleftrightarrow>
     tv_sec now \<noteq> 0 \<and> unat c + n < 2 ^ 64 \<and> pinba_pool_num_records q + n < psize q \<and>
     (\<forall>k < n. let r = pdata q ! advance q (pin q) k in record_ok r \<and> rec_time r = now \<and> counter r = c + of_nat k)"

lemma counter_unat: "unat (c :: u64) + n < 2 ^ 64 \<Longrightarrow> k \<le> n \<Longrightarrow> unat (c + of_nat k) = unat c + k"
  by (simp add: unat_word_ariths unat_of_nat)

lemma counter_less: "unat c + n < 2 ^ 64 \<Longrightarrow> j < k \<Longrightarrow> k \<le> n \<Longrightarrow> (c :: u64) + of_nat j < c + of_nat k"
  using counter_unat [of c n j] counter_unat [of c n k] by (simp add: word_less_nat_alt)

lemma counter_le: "unat c + n < 2 ^ 64 \<Longrightarrow> k \<le> n \<Longrightarrow> (c :: u64) \<le> c + of_nat k"
  using counter_unat [of c n k] by (simp add: word_le_nat_alt)

lemma tv_le_trans: "tv_le a b \<Longrightarrow> tv_le b c \<Longrightarrow> tv_le a c"
  by (auto simp: tv_le_def pinba_timercmp_def split: if_splits)

lemma tv_le_refl: "tv_le a a"
  by (simp add: tv_le_def pinba_timercmp_def)

lemma publish_pool:
  assumes "pool_ok q" and "pinba_pool_num_records q + n < psize q"
  shows "pool_ok (publish n q)" and "cells (publish n q) = cells q @ free_cells q n" and "pdata (publish n q) = pdata q"
    and "psize (publish n q) = psize q" and "ring (publish n q) = ring q @ map ((!) (pdata q)) (free_cells q n)"
  using push_cells [OF assms] by (simp_all add: publish_def)

lemma arrived_order:
  assumes q: "requests_ok tm c q" and a: "arrived now c n q" and le: "tv_le tm now"
  shows "arrival_ordered (ring (publish n q))"
proof -
  have n: "unat c + n < 2 ^ 64" "pinba_pool_num_records q + n < psize q"
    and new: "\<forall>k < n. rec_time (pdata q ! advance q (pin q) k) = now \<and> counter (pdata q ! advance q (pin q) k) = c + of_nat k"
    using a by (simp_all add: arrived_def Let_def)
  have "older r (pdata q ! advance q (pin q) k)" if "r \<in> set (ring q)" "k < n" for r k
  proof -
    have "tv_le (rec_time r) now" "counter r < c" using q that(1) tv_le_trans [OF _ le] by (auto simp: requests_ok_def)
    moreover have "c \<le> c + of_nat k"
      by (rule counter_le [OF n(1)]) (use that in simp)
    ultimately show ?thesis using new that(2)
      by (auto simp: older_def tv_le_def pinba_timercmp_def split: if_splits)
  qed
  moreover have "sorted_wrt older (map (\<lambda>k. pdata q ! advance q (pin q) k) [0..<n])"
    using new counter_less [OF n(1)] by (auto simp: sorted_wrt_iff_nth_less older_def pinba_timercmp_def)
  moreover have "pool_ok q" "sorted_wrt older (ring q)" using q by (simp_all add: requests_ok_def arrival_ordered_def)
  ultimately show ?thesis
    using publish_pool(5) [of q n] n(2) by (auto simp: arrival_ordered_def sorted_wrt_append free_cells_def comp_def)
qed

lemma arrived_requests_ok:
  assumes q: "requests_ok tm c q" and a: "arrived now c n q" and le: "tv_le tm now"
  shows "requests_ok now (c + of_nat n) (publish n q)"
proof -
  have pk: "pool_ok q" and n: "unat c + n < 2 ^ 64" "pinba_pool_num_records q + n < psize q"
    using q a by (simp_all add: requests_ok_def arrived_def)
  have "record_ok r \<and> tv_le (rec_time r) now \<and> counter r < c + of_nat n" if r: "r \<in> set (ring (publish n q))" for r
  proof (cases "r \<in> set (ring q)")
    case True
    then have "record_ok r" "tv_le (rec_time r) tm" "counter r < c" using q by (auto simp: requests_ok_def)
    moreover have "c \<le> c + of_nat n" by (rule counter_le [OF n(1)]) simp
    ultimately show ?thesis using tv_le_trans [OF _ le] by auto
  next
    case False
    then obtain k where "k < n" "r = pdata q ! advance q (pin q) k"
      using r publish_pool(5) [OF pk n(2)] by (auto simp: free_cells_def)
    then show ?thesis using a counter_less [OF n(1), of k n] tv_le_refl by (simp add: arrived_def Let_def)
  qed
  then show ?thesis
    using arrived_order [OF assms] publish_pool(1,4) [OF pk n(2)] q by (simp add: requests_ok_def)
qed

text \<open>A report that has started is older than every new request.\<close>

lemma arrived_later:
  assumes q: "pool_ok q" and a: "arrived now c n q" and le: "tv_le tm now" and s: "started_before tm c s" "tv_sec (start s) \<noteq> 0"
  shows "\<forall>i \<in> set (free_cells q n). \<not> PINBA_REPORT_DELETE_CHECK s (pdata q ! i)"
proof
  fix i assume "i \<in> set (free_cells q n)"
  then obtain k where k: "k < n" "i = advance q (pin q) k" by (auto simp: free_cells_def)
  then have "rec_time (pdata q ! i) = now" "counter (pdata q ! i) = c + of_nat k" "c \<le> c + of_nat k"
    using a counter_le [of c n k] by (auto simp: arrived_def Let_def)
  moreover have "tv_le (start s) now" "request_pool_start_id s \<le> c"
    using s tv_le_trans [OF _ le] by (auto simp: started_before_def)
  ultimately show "\<not> PINBA_REPORT_DELETE_CHECK s (pdata q ! i)"
    by (auto simp: PINBA_REPORT_DELETE_CHECK_def tv_le_def pinba_timercmp_def split: if_splits)
qed

lemma arrived_dated:
  "arrived now c n q \<Longrightarrow> \<forall>i \<in> set (free_cells q n). tv_sec (rec_time (pdata q ! i)) \<noteq> 0"
  by (auto simp: arrived_def free_cells_def Let_def)

lemma started_after:
  assumes q: "pool_ok q" and a: "arrived now c n q" and n: "0 < n" and le: "tv_le tm now" and s: "started_before tm c s"
    and st: "same_start (if run then report_start (pdata q ! pin q) s else s) s'"
  shows "started_before now (c + of_nat n) s'"
proof -
  have "advance q (pin q) 0 = pin q" using q by (simp add: advance_def pool_ok_def)
  then have "rec_time (pdata q ! pin q) = now" "counter (pdata q ! pin q) = c"
    using a n by (auto simp: arrived_def Let_def elim: allE [of _ 0])
  moreover have "c \<le> c + of_nat n" using counter_le [of c n n] a by (simp add: arrived_def)
  ultimately show ?thesis
    using s st tv_le_refl tv_le_trans [OF _ le]
    by (auto simp: started_before_def same_start_def report_start_def split: if_splits)
qed

section \<open>Dating a report before its job\<close>

lemma report_start_twice: "report_start r (report_start r s) = report_start r s"
  by (simp add: report_start_def)

lemma job_dated:
  assumes "\<And>f g R. upd_std f (upd_std g R) = upd_std (\<lambda>s. f (g s)) R" and "pin q < psize q"
  shows "update_reports_func get_std upd_std add del ru0 ru1 q (feed_job n q) (upd_std (report_start (pdata q ! pin q)) R) =
     update_reports_func get_std upd_std add del ru0 ru1 q (feed_job n q) R"
  using assms by (simp add: update_reports_func_def feed_job_def Let_def report_start_twice)

lemma upd_std_twice:
  "upd_report_std f (upd_report_std g R) = upd_report_std (\<lambda>s. f (g s)) R"
  "upd_rtag_std f (upd_rtag_std g S) = upd_rtag_std (\<lambda>s. f (g s)) S"
  "upd_tag_std f (upd_tag_std g T) = upd_tag_std (\<lambda>s. f (g s)) T"
  by (simp_all add: upd_report_std_def upd_rtag_std_def upd_tag_std_def)

lemma start_base_job: "pin q < psize q \<Longrightarrow> base_job e q (feed_job n q) (start_base (pdata q ! pin q) entry) = base_job e q (feed_job n q) entry"
  using job_dated [of upd_report_std, OF upd_std_twice(1)] by (cases entry) (simp add: base_job_def start_base_def)

lemma start_rtag_job: "pin q < psize q \<Longrightarrow> rtag_job e q (feed_job n q) (start_rtag (pdata q ! pin q) entry) = rtag_job e q (feed_job n q) entry"
  by (cases entry) (simp_all add: job_dated [of upd_rtag_std, OF upd_std_twice(2)])

lemma start_tag_job: "pin q < psize q \<Longrightarrow> tag_job e tp q (feed_job n q) (start_tag (pdata q ! pin q) entry) = tag_job e tp q (feed_job n q) entry"
  by (cases entry) (simp_all add: job_dated [of upd_tag_std, OF upd_std_twice(3)])

section \<open>The jobs\<close>

text \<open>A job over no requests, as when no request of the round could be stored.\<close>

context idle_report
begin

lemma empty_report:
  assumes s: "tv_sec (start (get_std R)) \<noteq> 0" and v: "serves R" and m: "models R (report_window item (get_std R) q)"
    and res: "R' = update_reports_func get_std upd_std (\<lambda>i R r. radd R (item i r)) (\<lambda>i R r. rdel R (item i r)) ru0 ru1 q (feed_job 0 q) R"
  shows "models R' (report_window item (get_std R') q) \<and> serves R' \<and> same_start (get_std R) (get_std R')"
proof -
  let ?f = "\<lambda>s. let s = report_start (pdata q ! (if pin q \<ge> psize q then pin q - psize q else pin q)) s in s\<lparr>packets_cnt := packets_cnt s + of_nat 0\<rparr>"
  let ?u = "\<lambda>s. (pinba_report_add_rusage s ru0 ru1)\<lparr>time_interval := pinba_get_time_interval q\<rparr>"
  have R': "R' = upd_std ?u (upd_std ?f R)" by (simp add: res update_reports_func_def feed_job_def Let_def)
  have f: "?f (get_std R) = get_std R" using s by (simp add: report_start_def Let_def)
  have st: "get_std R' = ?u (get_std R)" unfolding R' get_upd f ..
  have ss: "same_start (get_std R) (get_std R')" by (simp add: st same_start_def pinba_report_add_rusage_def)
  have c: "CHECK_REPORT_CONDITIONS (get_std R') = CHECK_REPORT_CONDITIONS (get_std R)"
    by (rule conditions_cong) (simp_all add: st pinba_report_add_rusage_def)
  have "report_cells (get_std R') q (cells q) = report_cells (get_std R) q (cells q)"
    using ss old_start [OF ss] by (simp add: report_cells_def same_start_def)
  then have "report_window item (get_std R') q = report_window item (get_std R) q"
    by (simp add: report_window_def taken_cong [OF c])
  moreover have "models R' = models R"
  proof -
    have "models (upd_std ?f R) = models R" by (rule models_upd) (unfold f, simp add: header_kept_def)
    moreover have "models (upd_std ?u (upd_std ?f R)) = models (upd_std ?f R)"
      by (rule models_upd) (simp add: header_kept_def pinba_report_add_rusage_def)
    ultimately show ?thesis by (simp add: R')
  qed
  ultimately show ?thesis using m ss v by (simp add: R' serves_upd)
qed

end

lemma batch_base:
  assumes q: "requests_ok tm c q" and a: "arrived now c n q" and le: "tv_le tm now" and n: "0 < n"
    and f: "base_follows (env_hs e) q entry" and s: "started_before tm c (base_std entry)"
    and entry': "entry' = base_job e q (feed_job n q) (start_base (pdata q ! pin q) entry)"
  shows "base_follows (env_hs e) (publish n q) entry' \<and> started_before now (c + of_nat n) (base_std entry')"
proof -
  obtain t R where entry: "entry = (t, R)" by (cases entry)
  have pk: "pool_ok q" and room: "pinba_pool_num_records q + n < psize q" using q a by (simp_all add: requests_ok_def arrived_def)
  note pub = publish_pool [OF pk room]
  have e': "entry' = base_job e q (feed_job n q) entry" using pk unfolding entry' by (intro start_base_job) (simp add: pool_ok_def)
  note rq = arrived_requests_ok [OF q a le]
  note laws = pk room n pub(2,3) arrived_dated [OF a] arrived_order [OF q a le]
  have later: "tv_sec (start (std R)) \<noteq> 0 \<Longrightarrow> \<forall>i \<in> set (free_cells q n). \<not> PINBA_REPORT_DELETE_CHECK (std R) (pdata q ! i)"
    using arrived_later [OF pk a le] s by (simp add: entry)
  have fin: "base_follows (env_hs e) (publish n q) entry' \<and>
      same_start (if True then report_start (pdata q ! pin q) (base_std entry) else base_std entry) (base_std entry')"
  proof (cases "t = PINBA_TABLE_REPORT_INFO")
    case True
    then show ?thesis
      using info_feed.batch_report [where R = R and hs = "env_hs e" and run = True and ?ru0.0 = "env_ru0 e" and ?ru1.0 = "env_ru1 e",
          OF laws later _ _ window_ok_pool [OF rq] _ refl] f
      by (simp add: e' entry base_job_def info_job_funcs feed_job_def)
  next
    case False
    then have t: "base_type t" using f by (simp add: entry Let_def)
    show ?thesis
      using base_feed.batch_report [where R = R and hs = "env_hs e" and t = t and run = True and ?ru0.0 = "env_ru0 e" and ?ru1.0 = "env_ru1 e",
          OF laws later _ _ window_ok_pool [OF rq] _ refl] f t False
      by (simp add: e' entry base_job_def base_job_funcs [OF t] feed_job_def)
  qed
  then show ?thesis using started_after [OF pk a n le s] by blast
qed

lemma empty_base:
  assumes f: "base_follows (env_hs e) q entry" and s: "tv_sec (start (base_std entry)) \<noteq> 0" and pk: "pool_ok q"
    and entry': "entry' = base_job e q (feed_job 0 q) (start_base (pdata q ! pin q) entry)"
  shows "base_follows (env_hs e) q entry' \<and> same_start (base_std entry) (base_std entry')"
proof -
  obtain t R where entry: "entry = (t, R)" by (cases entry)
  have e': "entry' = base_job e q (feed_job 0 q) entry" using pk unfolding entry' by (intro start_base_job) (simp add: pool_ok_def)
  show ?thesis
  proof (cases "t = PINBA_TABLE_REPORT_INFO")
    case True
    then show ?thesis
      using info_feed.empty_report [where R = R and hs = "env_hs e" and q = q and ?ru0.0 = "env_ru0 e" and ?ru1.0 = "env_ru1 e", OF _ _ _ refl] f s
      by (simp add: e' entry base_job_def info_job_funcs)
  next
    case False
    then have t: "base_type t" using f by (simp add: entry Let_def)
    then show ?thesis
      using base_feed.empty_report [where R = R and hs = "env_hs e" and t = t and q = q and ?ru0.0 = "env_ru0 e" and ?ru1.0 = "env_ru1 e", OF _ _ _ refl] f s False
      by (simp add: e' entry base_job_def base_job_funcs [OF t])
  qed
qed

lemma batch_rtag:
  assumes q: "requests_ok tm c q" and a: "arrived now c n q" and le: "tv_le tm now" and n: "0 < n" and ok: "env_ok e"
    and f: "rtag_follows (env_hs e) q entry" and s: "started_before tm c (rtag_std_of entry)"
    and skip: "\<not> run \<Longrightarrow> \<forall>i \<in> set (free_cells q n). tags (pdata q ! i) = []"
    and entry': "entry' = (if run then rtag_job e q (feed_job n q) (start_rtag (pdata q ! pin q) entry) else entry)"
  shows "rtag_follows (env_hs e) (publish n q) entry' \<and> started_before now (c + of_nat n) (rtag_std_of entry')"
proof -
  have pk: "pool_ok q" and room: "pinba_pool_num_records q + n < psize q" using q a by (simp_all add: requests_ok_def arrived_def)
  note pub = publish_pool [OF pk room]
  have e': "entry' = (if run then rtag_job e q (feed_job n q) entry else entry)"
    using pk start_rtag_job unfolding entry' by (simp add: pool_ok_def)
  note rq = arrived_requests_ok [OF q a le]
  note laws = pk room n pub(2,3) arrived_dated [OF a] arrived_order [OF q a le]
  have later: "tv_sec (start (rtag_std_of entry)) \<noteq> 0 \<Longrightarrow>
      \<forall>i \<in> set (free_cells q n). \<not> PINBA_REPORT_DELETE_CHECK (rtag_std_of entry) (pdata q ! i)"
    using arrived_later [OF pk a le s] by blast
  have idle: "\<forall>i \<in> set (free_cells q n). tags (request_view (pdata q ! i)) = []" if "\<not> run"
    using skip [OF that] by (simp add: request_view_def)
  have "rtag_follows (env_hs e) (publish n q) entry' \<and>
      same_start (if run then report_start (pdata q ! pin q) (rtag_std_of entry) else rtag_std_of entry) (rtag_std_of entry')"
  proof (cases entry)
    case (Rtag_info t R)
    show ?thesis
      using rtag_flat_feed.batch_report [where R = R and hs = "env_hs e" and t = t and run = run and ?ru0.0 = "env_ru0 e" and ?ru1.0 = "env_ru1 e",
          OF laws later [unfolded Rtag_info rtag_std_of.simps] _ _ window_ok_pool [OF rq] idle refl] f
      by (cases run) (simp_all add: e' Rtag_info rtag_job_funcs feed_job_def ok)
  next
    case (Rtag_report t R)
    show ?thesis
      using rtag_host_feed.batch_report [where R = R and hs = "env_hs e" and t = t and run = run and ?ru0.0 = "env_ru0 e" and ?ru1.0 = "env_ru1 e",
          OF laws later [unfolded Rtag_report rtag_std_of.simps] _ _ window_ok_pool [OF rq] idle refl] f
      by (cases run) (simp_all add: e' Rtag_report rtag_job_funcs feed_job_def ok)
  qed
  then show ?thesis using started_after [OF pk a n le s] by blast
qed

lemma batch_tag:
  assumes q: "requests_ok tm c q" and a: "arrived now c n q" and le: "tv_le tm now" and n: "0 < n" and ok: "env_ok e"
    and size: "psize q \<le> 2 ^ 31" and f: "tag_follows (env_hs e) tp q entry" and s: "started_before tm c (tag_std_of entry)"
    and fit: "tags_fit tp (publish n q) entry"
    and skip: "\<not> run \<Longrightarrow> \<forall>i \<in> set (free_cells q n). record_timers tp (pdata q ! i) = []"
    and entry': "entry' = (if run then tag_job e tp q (feed_job n q) (start_tag (pdata q ! pin q) entry) else entry)"
  shows "tag_follows (env_hs e) tp (publish n q) entry' \<and> started_before now (c + of_nat n) (tag_std_of entry') \<and>
     tags_fit tp (publish n q) entry'"
proof -
  have pk: "pool_ok q" and room: "pinba_pool_num_records q + n < psize q" using q a by (simp_all add: requests_ok_def arrived_def)
  note pub = publish_pool [OF pk room]
  have e': "entry' = (if run then tag_job e tp q (feed_job n q) entry else entry)"
    using pk start_tag_job unfolding entry' by (simp add: pool_ok_def)
  note rq = arrived_requests_ok [OF q a le]
  note laws = pk room n pub(2,3) arrived_dated [OF a] arrived_order [OF q a le]
  have later: "tv_sec (start (tag_std_of entry)) \<noteq> 0 \<Longrightarrow>
      \<forall>i \<in> set (free_cells q n). \<not> PINBA_REPORT_DELETE_CHECK (tag_std_of entry) (pdata q ! i)"
    using arrived_later [OF pk a le s] by blast
  have idle: "\<forall>i \<in> set (free_cells q n). snd (snd (timer_item tp i (pdata q ! i))) = []" if "\<not> run"
    using skip [OF that] by (simp add: timer_item_def)
  have size': "psize (publish n q) \<le> 2 ^ 31" using size pub(4) by simp
  have some: "cells (publish n q) \<noteq> []" using pub(2) n by (simp add: free_cells_def)
  have "tag_follows (env_hs e) tp (publish n q) entry' \<and>
      same_start (if run then report_start (pdata q ! pin q) (tag_std_of entry) else tag_std_of entry) (tag_std_of entry') \<and>
      (\<forall>r ts. tag_fits r ts entry' = tag_fits r ts entry)"
  proof (cases entry)
    case (Tag_info shape R)
    have fits: "\<forall>i \<in> set (cells (publish n q)). ids_ok shape (tg_tag_id R) \<and>
        list_all (tag_timer_ok shape Info (tg_tag_id R) (pdata (publish n q) ! i)) (record_timers tp (pdata (publish n q) ! i))"
      using fit by (simp add: Tag_info tags_fit_def)
    then have "ids_ok shape (tg_tag_id R)" using some by (cases "cells (publish n q)") auto
    then have g: "tag_good (shape_keyf shape Info True) (shape_keyf shape Info False) (tag_spec shape Info) R
        (taken (timer_item tp) (tg_std R) (publish n q) (cells (publish n q)))"
      using fits by (intro tag_good_pool [OF rq size']) auto
    show ?thesis
      using tag_flat_feed.batch_report [where R = R and ids = "tg_tag_id R" and hs = "env_hs e" and run = run and ?ru0.0 = "env_ru0 e" and ?ru1.0 = "env_ru1 e",
          OF laws later [unfolded Tag_info tag_std_of.simps] _ _ g idle refl] f
      by (cases run) (simp_all add: e' Tag_info tag_job_funcs feed_job_def ok)
  next
    case (Tag_report shape two R)
    have fits: "\<forall>i \<in> set (cells (publish n q)). ids_ok shape (tg_tag_id R) \<and>
        list_all (tag_timer_ok shape (report_level two) (tg_tag_id R) (pdata (publish n q) ! i)) (record_timers tp (pdata (publish n q) ! i))"
      using fit by (simp add: Tag_report tags_fit_def)
    then have "ids_ok shape (tg_tag_id R)" using some by (cases "cells (publish n q)") auto
    then have g: "tag_good (shape_keyf shape (report_level two) True) (shape_keyf shape (report_level two) False)
        (tag_spec shape (report_level two)) R (taken (timer_item tp) (tg_std R) (publish n q) (cells (publish n q)))"
      using fits by (intro tag_good_pool [OF rq size']) auto
    show ?thesis
      using tag_script_feed.batch_report [where R = R and ids = "tg_tag_id R" and hs = "env_hs e" and run = run and ?ru0.0 = "env_ru0 e" and ?ru1.0 = "env_ru1 e",
          OF laws later [unfolded Tag_report tag_std_of.simps] _ _ g idle refl] f
      by (cases run) (simp_all add: e' Tag_report tag_job_funcs feed_job_def ok)
  qed
  then show ?thesis using started_after [OF pk a n le s] fit unfolding tags_fit_def by blast
qed

section \<open>What the reports do not see\<close>

text \<open>Pools whose requests differ in the place of their timers only.\<close>

definition retimed ::
  "pinba_stats_record pinba_pool \<Rightarrow> pinba_stats_record pinba_pool \<Rightarrow> bool" where
  "retimed p q \<longleftrightarrow> cells q = cells p \<and>
     (\<forall>i \<in> set (cells p). \<exists>a b. pdata q ! i = (pdata p ! i)\<lparr>timers_start := a, timers_cnt := b\<rparr>)"

lemma retimed_follows:
  assumes r: "retimed p q"
  shows "base_follows hs q b = base_follows hs p b" and "rtag_follows hs q rt = rtag_follows hs p rt"
    and "\<forall>i \<in> set (cells p). record_timers tq (pdata q ! i) = record_timers tp (pdata p ! i) \<Longrightarrow>
      tag_follows hs tq q t = tag_follows hs tp p t \<and> tags_fit tq q t = tags_fit tp p t"
proof -
  have c: "cells q = cells p" using r by (simp add: retimed_def)
  have v: "request_view (pdata q ! i) = request_view (pdata p ! i)" if "i \<in> set (cells p)" for i
    using r that by (auto simp: retimed_def)
  have checks: "CHECK_REPORT_CONDITIONS s (pdata q ! i) = CHECK_REPORT_CONDITIONS s (pdata p ! i)"
    "PINBA_REPORT_DELETE_CHECK s (pdata q ! i) = PINBA_REPORT_DELETE_CHECK s (pdata p ! i)" if "i \<in> set (cells p)" for i s
    using v [OF that] checks_view by metis+
  have w: "report_window (\<lambda>i. request_view) s q = report_window (\<lambda>i. request_view) s p" for s
    by (rule report_window_cong) (use c v checks in auto)
  show "base_follows hs q b = base_follows hs p b" by (cases b) (simp add: Let_def w)
  show "rtag_follows hs q rt = rtag_follows hs p rt" by (cases rt) (simp_all add: w)
  assume t: "\<forall>i \<in> set (cells p). record_timers tq (pdata q ! i) = record_timers tp (pdata p ! i)"
  have "report_window (timer_item tq) s q = report_window (timer_item tp) s p" for s
    by (rule report_window_cong) (use c v t checks in \<open>auto simp: timer_item_def\<close>)
  moreover have "tag_timer_ok shape level ids (pdata q ! i) = tag_timer_ok shape level ids (pdata p ! i)"
    if "i \<in> set (cells p)" for shape level ids i
    unfolding fun_eq_iff using r that by (auto simp: retimed_def tag_timer_ok_def report2_room_def host_server_prefix_def split: option.splits)
  ultimately show "tag_follows hs tq q t = tag_follows hs tp p t \<and> tags_fit tq q t = tags_fit tp p t"
    using c t by (cases t) (simp_all add: tags_fit_def)
qed

end
