(* ===== verification/Batch_Timers.thy ===== *)
theory Batch_Timers
  imports Batch_Copy Batch_Stage Batch_Reports
begin

text \<open>
  The timers of a round: room is reserved for all of them, every worker fills its part, and
  afterwards the old requests still have their timers, the new ones have theirs, and the timer
  pool holds nothing else.
\<close>

section \<open>Reserving\<close>

text \<open>\<open>mem\<close> fits when the memory it offers has the size the pool grows by.\<close>

definition timer_mem_fits :: "pinba_timer_record list option \<Rightarrow> nat \<Rightarrow> pinba_timer_record pinba_pool \<Rightarrow> bool" where
  "timer_mem_fits mem cnt tp \<longleftrightarrow>
     (\<forall>junk. mem = Some junk \<longrightarrow> length junk = pinba_pool_new_size tp (timer_growth cnt) - psize tp)"

lemma timers_reserved:
  assumes ok: "timers_ok tp rp" and cnt: "cnt < 2 ^ 31" and mem: "timer_mem_fits mem cnt tp"
    and res: "timer_pool_add mem cnt tp rp = (i, tq, rq)"
  shows "(i < 0 \<longrightarrow> tq = tp \<and> rq = rp) \<and>
     (0 \<le> i \<longrightarrow> i = int (pin tp) \<and>
       (\<exists>t0. tq = t0\<lparr>pin := advance t0 (pin t0) cnt\<rparr> \<and> pin t0 = pin tp \<and> pool_ok t0 \<and> limit_size t0 = 0 \<and>
          psize t0 \<le> psize tp + timer_growth cnt \<and> pinba_pool_num_records t0 = pinba_pool_num_records tp \<and>
          pinba_pool_num_records tp + cnt < psize t0 \<and> ring t0 = ring tp \<and>
          timers_kept tp rp t0 rq \<and> laid t0 (pdata rq) 0 (cells rp)))"
proof -
  have tp: "pool_ok tp" "limit_size tp = 0" "psize tp < 2 ^ 62" and laid: "laid tp (pdata rp) 0 (cells rp)"
    using ok by (auto simp: timers_ok_def)
  note size = timer_growth_size [OF tp(3) cnt tp(2)]
  show ?thesis
  proof (cases "psize tp \<le> pinba_pool_num_records tp + cnt")
    case False
    then have "i = int (pin tp)" "tq = tp\<lparr>pin := advance tp (pin tp) cnt\<rparr>" "rq = rp" using res by (simp_all add: timer_pool_add_eq)
    then show ?thesis using False tp laid timers_kept_refl by (auto intro!: exI [of _ tp])
  next
    case True
    obtain p0 t0 where g: "pinba_pool_grow mem zero_timer tp (timer_growth cnt) = (p0, t0)" by fastforce
    show ?thesis
    proof (cases p0)
      case P_FAILURE
      then show ?thesis using res True g by (auto simp: timer_pool_add_eq)
    next
      case P_SUCCESS
      then obtain junk where junk: "mem = Some junk" using pool_grow_result(1) [of mem zero_timer tp "timer_growth cnt"] g by auto
      then have len: "length junk = pinba_pool_new_size tp (timer_growth cnt) - psize tp" using mem by (simp add: timer_mem_fits_def)
      note g' = g [unfolded P_SUCCESS junk]
      note grown = timers_grown [OF ok cnt g' len]
      have "ring t0 = ring tp" by (rule grow_ring(2) [OF g' tp(1) len])
      moreover have "pinba_pool_num_records tp + cnt < psize t0" using grown(5) num_records_less [OF tp(1)] size(3) by simp
      ultimately show ?thesis
        using res True g P_SUCCESS grown by (auto simp: timer_pool_add_eq intro!: exI [of _ t0])
    qed
  qed
qed

section \<open>The workers together\<close>

lemma merge_record_None: "ex_request_id ex = None \<Longrightarrow> merge_record env tprefix ex s = s"
  by (simp add: merge_record_def)

lemma merge_created: "merge_timers_func env tprefix (created exs) s = merge_timers_func env tprefix exs s"
proof -
  have "fold (merge_record env tprefix) (filter (\<lambda>ex. ex_request_id ex \<noteq> None) exs) t = fold (merge_record env tprefix) exs t" for t
    by (induction exs arbitrary: t) (auto simp: merge_record_None)
  then show ?thesis by (simp add: merge_timers_func_def created_def)
qed

lemma created_twice [simp]: "created (created exs) = created exs" "created (xs @ ys) = created xs @ created ys" "created [] = []"
  by (simp_all add: created_def)

lemma created_iff: "created exs = exs \<longleftrightarrow> (\<forall>ex \<in> set exs. ex_request_id ex \<noteq> None)"
  by (simp add: created_def filter_id_conv)

lemma merge_jobs_created: "merge_jobs env tprefix (map created copied) s n = merge_jobs env tprefix copied s n"
  by (induction copied arbitrary: tprefix s n) (simp_all add: Let_def merge_created job_timers_cnt_def)

lemma created_concat: "created (concat xss) = concat (map created xss)"
  by (induction xss) simp_all

text \<open>The timers of the workers one after the other, through the registries they leave.\<close>

lemma batch_timers_append:
  "batch_timers env d (xs @ ys) g =
     (case batch_timers env d xs g of (tss, g) \<Rightarrow> (case batch_timers env d ys g of (uss, g) \<Rightarrow> (tss @ uss, g)))"
  by (induction xs arbitrary: g) (simp_all split: prod.split)

lemma batch_timers_fst: "map fst (fst (batch_timers env d exs g)) = exs"
proof (induction exs arbitrary: g)
  case (Cons ex exs)
  then show ?case by (simp split: prod.split) (metis fst_conv)
qed simp

lemma batch_timers_words:
  "(\<And>i. dictionary_words (d ! i) = dictionary_words (d' ! i)) \<Longrightarrow> batch_timers env d exs g = batch_timers env d' exs g"
proof (induction exs arbitrary: g)
  case (Cons ex exs)
  have "ex_timers env d ex g = ex_timers env d' ex g" by (simp add: ex_timers_def Cons.prems split: option.split)
  then show ?case using Cons by (simp split: prod.split)
qed simp

lemma batch_timers_length:
  assumes "batch_timers env d exs g = (map (\<lambda>ex. (ex, tsf ex)) exs, h)" and "ex \<in> set exs" and "ex_request_id ex \<noteq> None"
  shows "length (tsf ex) = pinba_stored_timer_count (ex_request ex)"
  using assms
proof (induction exs arbitrary: g)
  case (Cons x exs)
  obtain ts g1 where x: "ex_timers env d x g = (ts, g1)" by fastforce
  obtain tss where r: "batch_timers env d exs g1 = (tss, h)" and t: "(x, ts) # tss = map (\<lambda>ex. (ex, tsf ex)) (x # exs)"
    using Cons.prems(1) x by (auto split: prod.splits)
  then have rest: "batch_timers env d exs g1 = (map (\<lambda>ex. (ex, tsf ex)) exs, h)" and ts: "ts = tsf x" by auto
  show ?case
  proof (cases "ex = x")
    case True
    then obtain i where "ex_request_id x = Some i" using Cons.prems(3) by auto
    then show ?thesis
      using x ts True request_timers_length [of env "ex_request x" "dictionary_words (d ! i)" i g] by (simp add: ex_timers_def)
  qed (use Cons.IH [OF rest] Cons.prems(2,3) in auto)
qed simp

lemma place_timers_append:
  "place_timers n pos (xs @ ys) d = place_timers n (pos + length (concat (map snd xs))) ys (place_timers n pos xs d)"
  by (induction n pos xs d rule: place_timers.induct) (simp_all add: add.assoc)

lemma ex_timers_words:
  "dictionary_words (d ! cell_of ex) = dictionary_words (d' ! cell_of ex) \<Longrightarrow> ex_timers env d ex g = ex_timers env d' ex g"
  by (auto simp: ex_timers_def cell_of_def split: option.splits)

lemma place_timers_words: "dictionary_words (place_timers n pos xs d ! i) = dictionary_words (d ! i)"
  using place_timers_facts(3) [of n pos xs d i] by auto

text \<open>
  \<open>tsf\<close> gives the timers of each request.
\<close>

lemma merge_jobs_result:
  assumes "registry_ok (tag_gc_enabled (ie_tags (me_ingest env))) (ms_registry s)" and arr: "\<forall>k. me_arrays env k"
    and "list_all (copied_ok (pdata (ms_requests s))) (concat copied)" and "created (concat copied) = concat copied"
    and "length (pdata (ms_timers s)) = psize (ms_timers s)"
    and "batch_timers (me_ingest env) (pdata (ms_requests s)) (concat copied) (ms_registry s) = (map (\<lambda>ex. (ex, tsf ex)) (concat copied), h)"
    and "tprefix + length (concat (map tsf (concat copied))) < 2 * psize (ms_timers s)"
    and "length (concat (map tsf (concat copied))) \<le> psize (ms_timers s)"
    and "stored_tags (concat (map tsf (concat copied))) < 2 ^ 32"
  shows "\<exists>k l. merge_jobs env tprefix copied s n =
      (s\<lparr>ms_requests := (ms_requests s)\<lparr>pdata := place_timers (psize (ms_timers s)) tprefix (map (\<lambda>ex. (ex, tsf ex)) (concat copied)) (pdata (ms_requests s))\<rparr>,
        ms_timers := (ms_timers s)\<lparr>pdata := put_timers (psize (ms_timers s)) tprefix (concat (map tsf (concat copied))) (pdata (ms_timers s))\<rparr>,
        ms_timers_cnt := k, ms_timertag_cnt := l, ms_registry := h\<rparr>, n + stored_tags (concat (map tsf (concat copied))))"
  using assms
proof (induction copied arbitrary: s tprefix n)
  case Nil
  then have "h = ms_registry s" by simp
  then show ?case by (intro exI [of _ "ms_timers_cnt s"] exI [of _ "ms_timertag_cnt s"]) (simp add: stored_tags_def)
next
  case (Cons exs copied)
  let ?rp = "ms_requests s" and ?tp = "ms_timers s" and ?n = "psize (ms_timers s)" and ?g = "ms_registry s"
  let ?pairs = "map (\<lambda>ex. (ex, tsf ex)) exs"
  let ?one = "concat (map tsf exs)" and ?rest = "concat (map tsf (concat copied))"
  have sp: "concat (map tsf (concat (exs # copied))) = ?one @ ?rest" by simp
  have tags: "stored_tags ?one < 2 ^ 32" "stored_tags ?rest < 2 ^ 32" "stored_tags (?one @ ?rest) = stored_tags ?one + stored_tags ?rest"
    using Cons.prems(9) unfolding sp by (simp_all add: stored_tags_def)
  have cr: "created exs = exs" "created (concat copied) = concat copied"
    using Cons.prems(4) unfolding created_iff by auto
  obtain tss g1 where first: "batch_timers (me_ingest env) (pdata ?rp) exs ?g = (tss, g1)" by fastforce
  obtain uss where second: "batch_timers (me_ingest env) (pdata ?rp) (concat copied) g1 = (uss, h)"
      and both: "tss @ uss = ?pairs @ map (\<lambda>ex. (ex, tsf ex)) (concat copied)"
    using Cons.prems(6) first by (auto simp: batch_timers_append split: prod.splits)
  have "length tss = length ?pairs" using arg_cong [OF batch_timers_fst [of "me_ingest env" "pdata ?rp" exs ?g], of length] first by simp
  then have bt: "batch_timers (me_ingest env) (pdata ?rp) exs ?g = (?pairs, g1)"
    and rest: "batch_timers (me_ingest env) (pdata ?rp) (concat copied) g1 = (map (\<lambda>ex. (ex, tsf ex)) (concat copied), h)"
    using first second both by (simp_all add: append_eq_append_conv)
  have snd: "map snd ?pairs = map tsf exs" by simp
  let ?s0 = "s\<lparr>ms_timertag_cnt := 0, ms_timers_cnt := 0\<rparr>"
  have merged: "merge_timers_func env tprefix exs (s\<lparr>ms_timertag_cnt := 0\<rparr>) =
      ?s0\<lparr>ms_requests := ?rp\<lparr>pdata := place_timers ?n tprefix ?pairs (pdata ?rp)\<rparr>,
        ms_timers := ?tp\<lparr>pdata := put_timers ?n tprefix ?one (pdata ?tp)\<rparr>,
        ms_timers_cnt := length ?one, ms_timertag_cnt := stored_tags ?one, ms_registry := g1\<rparr> \<and>
      registry_ok (tag_gc_enabled (ie_tags (me_ingest env))) g1"
    using merge_records_result [of env ?s0 exs ?pairs g1 tprefix tprefix] Cons.prems(1,3,5,7,8) arr bt snd
    by (simp add: merge_timers_func_def comp_def)
  define s1 where "s1 = ?s0\<lparr>ms_requests := ?rp\<lparr>pdata := place_timers ?n tprefix ?pairs (pdata ?rp)\<rparr>,
        ms_timers := ?tp\<lparr>pdata := put_timers ?n tprefix ?one (pdata ?tp)\<rparr>,
        ms_timers_cnt := length ?one, ms_timertag_cnt := stored_tags ?one, ms_registry := g1\<rparr>"
  have one: "merge_timers_func env tprefix exs (s\<lparr>ms_timertag_cnt := 0\<rparr>) = s1" using merged by (simp add: s1_def)
  have cnt: "job_timers_cnt exs = length ?one"
  proof -
    have "length (tsf ex) = pinba_stored_timer_count (ex_request ex)" if ex: "ex \<in> set exs" for ex
      using batch_timers_length [OF bt ex] cr(1) ex unfolding created_iff by blast
    then show ?thesis unfolding job_timers_cnt_def cr(1) by (simp add: length_concat comp_def cong: map_cong)
  qed
  have "batch_timers (me_ingest env) (pdata (ms_requests s1)) (concat copied) g1 = batch_timers (me_ingest env) (pdata ?rp) (concat copied) g1"
    by (rule batch_timers_words) (simp add: s1_def place_timers_words)
  note w = this [unfolded rest]
  have ck: "copied_ok (pdata (ms_requests s1)) = copied_ok (pdata ?rp)"
    by (simp add: fun_eq_iff copied_ok_def s1_def place_timers_words place_timers_facts(1) split: option.splits)
  from Cons.IH [of s1 "tprefix + length ?one" "n + stored_tags ?one"] obtain k l where
    "merge_jobs env (tprefix + length ?one) copied s1 (n + stored_tags ?one) =
      (s1\<lparr>ms_requests := (ms_requests s1)\<lparr>pdata := place_timers ?n (tprefix + length ?one) (map (\<lambda>ex. (ex, tsf ex)) (concat copied)) (pdata (ms_requests s1))\<rparr>,
        ms_timers := (ms_timers s1)\<lparr>pdata := put_timers ?n (tprefix + length ?one) ?rest (pdata (ms_timers s1))\<rparr>,
        ms_timers_cnt := k, ms_timertag_cnt := l, ms_registry := h\<rparr>, n + stored_tags ?one + stored_tags ?rest)"
    using Cons.prems cr(2) arr ck w tags merged by (auto simp: s1_def)
  then show ?case
    unfolding merge_jobs.simps Let_def one cnt sp
    using tags by (auto simp: s1_def place_timers_append put_timers_append comp_def)
qed

section \<open>The layout\<close>

text \<open>A ring with other contents.\<close>

lemma refilled_pool:
  "psize (p\<lparr>pdata := d\<rparr>) = psize p" "pin (p\<lparr>pdata := d\<rparr>) = pin p" "cells (p\<lparr>pdata := d\<rparr>) = cells p"
  "advance (p\<lparr>pdata := d\<rparr>) = advance p" "pinba_pool_num_records (p\<lparr>pdata := d\<rparr>) = pinba_pool_num_records p"
  "free_cells (p\<lparr>pdata := d\<rparr>) = free_cells p" "pool_ok p \<Longrightarrow> length d = length (pdata p) \<Longrightarrow> pool_ok (p\<lparr>pdata := d\<rparr>)"
proof -
  show a: "advance (p\<lparr>pdata := d\<rparr>) = advance p" by (simp add: fun_eq_iff advance_def)
  show "free_cells (p\<lparr>pdata := d\<rparr>) = free_cells p" by (simp add: fun_eq_iff free_cells_def a)
qed (simp_all add: pinba_pool_num_records_def pool_ok_def)

text \<open>More timers after the ones that are there.\<close>

lemma laid_extend:
  assumes ok: "pool_ok t0" and T: "psize T = psize t0" "pout T = pout t0"
    and same: "\<forall>k < pinba_pool_num_records t0. pdata T ! ((pout t0 + k) mod psize t0) = pdata t0 ! ((pout t0 + k) mod psize t0)"
  shows "laid t0 records off is \<Longrightarrow> laid T records (pinba_pool_num_records t0) js \<Longrightarrow>
     laid T records off (is @ js) \<and> (\<forall>i \<in> set is. record_timers T (records ! i) = record_timers t0 (records ! i))"
proof (induction "is" arbitrary: off)
  case (Cons i "is")
  let ?r = "records ! i" and ?c = "unat (timers_cnt (records ! i))"
  have p: "0 < psize t0" "pinba_pool_num_records t0 < psize t0" using ok num_records_less [OF ok] by (auto simp: pool_ok_def)
  have rest: "laid t0 records (off + ?c) is" using Cons.prems(1) by simp
  have b: "off + ?c \<le> pinba_pool_num_records t0" using laid_bound [OF rest] by simp
  have st: "timers_cnt ?r \<noteq> 0 \<longrightarrow> timers_start ?r = (pout t0 + off) mod psize t0" using Cons.prems(1) by simp
  have eq: "record_timers T ?r = record_timers t0 ?r"
  proof (cases "timers_cnt ?r = 0")
    case False
    have "record_get_timer T ?r j = record_get_timer t0 ?r j" if "j < ?c" for j
    proof -
      have "record_get_timer T ?r j = pdata T ! ((pout T + off + j) mod psize T)"
        using st False p b that T by (intro get_timer_mod) auto
      also have "\<dots> = pdata t0 ! ((pout t0 + off + j) mod psize t0)"
        using same b that by (simp add: T add.assoc)
      also have "\<dots> = record_get_timer t0 ?r j"
        using get_timer_mod [of ?r t0 off j] st False p b that by simp
      finally show ?thesis .
    qed
    then show ?thesis by (simp add: record_timers_def)
  qed (simp add: record_timers_def)
  then show ?case using Cons.IH [OF rest Cons.prems(2)] Cons.prems(1) st T by simp
qed simp

text \<open>Requests without timers.\<close>

lemma laid_idle: "\<forall>i \<in> set js. timers_cnt (records ! i) = 0 \<Longrightarrow> laid tp records off (is @ js) = laid tp records off is"
proof (induction "is" arbitrary: off)
  case Nil
  then show ?case by (induction js) (auto simp: record_timers_def)
qed simp

text \<open>
  What the timers part of a round leaves: \<open>m\<close> new requests are about to be published, \<open>ts\<close> are
  the timers that were added.
\<close>

definition timers_added ::
  "pinba_timer_record pinba_pool \<Rightarrow> pinba_stats_record pinba_pool \<Rightarrow>
   pinba_timer_record pinba_pool \<Rightarrow> pinba_stats_record pinba_pool \<Rightarrow> nat \<Rightarrow> pinba_timer_record list \<Rightarrow> bool" where
  "timers_added tp q tq rq m ts \<longleftrightarrow>
     rq = q\<lparr>pdata := pdata rq\<rparr> \<and> length (pdata rq) = length (pdata q) \<and>
     (\<forall>i. \<exists>a b. pdata rq ! i = (pdata q ! i)\<lparr>timers_start := a, timers_cnt := b\<rparr>) \<and>
     (\<forall>i \<in> set (cells q). record_timers tq (pdata rq ! i) = record_timers tp (pdata q ! i)) \<and>
     timers_ok tq (publish m rq) \<and> ring tq = ring tp @ ts"

lemma timers_added_none:
  assumes "timers_ok tp q" and "pinba_pool_num_records q + m < psize q"
    and "\<forall>i \<in> set (free_cells q m). timers_cnt (pdata q ! i) = 0"
  shows "timers_added tp q tp q m [] \<and> (\<forall>i \<in> set (free_cells q m). record_timers tp (pdata q ! i) = [])"
proof -
  have "pool_ok q" using assms(1) by (simp add: timers_ok_def)
  note pub = publish_pool [OF this assms(2)]
  have "timers_ok tp (publish m q)"
    using assms(1) pub laid_idle [OF assms(3)] by (simp add: timers_ok_def)
  moreover have "\<exists>a b. pdata q ! i = (pdata q ! i)\<lparr>timers_start := a, timers_cnt := b\<rparr>" for i by (rule retimed_refl)
  ultimately show ?thesis using assms(3) by (simp add: timers_added_def record_timers_def)
qed

text \<open>
  A new request before its timers are filled in: it has a cell with its words and no timers yet,
  its names are known, and \<open>tsf\<close> are the timers it will get.
\<close>

definition awaits_timers ::
  "ingest_env \<Rightarrow> pinba_stats_record list \<Rightarrow> tag_registry \<Rightarrow> (pinba_stats_record_ex \<Rightarrow> pinba_timer_record list) \<Rightarrow>
   pinba_stats_record_ex \<Rightarrow> bool" where
  "awaits_timers env d g tsf ex \<longleftrightarrow>
     ex_request_id ex \<noteq> None \<and> copied_ok d ex \<and> timers_cnt (d ! cell_of ex) = 0 \<and>
     ex_timers env d ex g = (tsf ex, g) \<and> (\<forall>t \<in> set (tsf ex). timer_tags t \<noteq> [])"

lemma awaits_timers_of_ex: "awaits_timers env d g tsf ex \<Longrightarrow> timers_of_ex (ex, tsf ex)"
proof -
  assume a: "awaits_timers env d g tsf ex"
  then obtain i where i: "ex_request_id ex = Some i" by (auto simp: awaits_timers_def)
  let ?q = "ex_request ex"
  have r: "request_timers env ?q (dictionary_words (d ! i)) i g = (tsf ex, g)" "request_valid ?q"
    using a i by (simp_all add: awaits_timers_def ex_timers_def copied_ok_def)
  have "length (tsf ex) = pinba_stored_timer_count ?q"
    using request_timers_length [of env ?q "dictionary_words (d ! i)" i g] r by simp
  moreover have "pinba_stored_timer_count ?q \<le> length (q_timer_hit_count ?q)"
    by (simp add: pinba_stored_timer_count_def stored_count_le)
  moreover have "\<forall>t \<in> set (tsf ex). timer_request_id t = of_nat i"
    using merged_timers_ids [of env ?q "dictionary_words (d ! i)" i 0 0 "q_timer_hit_count ?q" "q_timer_tag_count ?q" g] r(1)
    by (simp add: request_timers_def)
  ultimately show ?thesis
    using a i r(2) by (auto simp: timers_of_ex_def awaits_timers_def cell_of_def request_valid_def)
qed

lemma timers_filled:
  assumes tq: "timers_ok tp q" and room: "pinba_pool_num_records q + m < psize q"
    and news: "map cell_of news = free_cells q m" and aw: "list_all (awaits_timers env (pdata q) g tsf) news"
    and ts: "ts = concat (map tsf news)" and small: "psize tp + timer_growth (length ts) < 2 ^ 62"
    and t0: "pin t0 = pin tp" "pool_ok t0" "limit_size t0 = 0" "psize t0 \<le> psize tp + timer_growth (length ts)"
      "pinba_pool_num_records t0 = pinba_pool_num_records tp" "pinba_pool_num_records tp + length ts < psize t0" "ring t0 = ring tp"
    and kept: "timers_kept tp q t0 q0" "laid t0 (pdata q0) 0 (cells q)"
    and T: "T = t0\<lparr>pin := advance t0 (pin t0) (length ts), pdata := put_timers (psize t0) (pin t0) ts (pdata t0)\<rparr>"
    and rq: "rq = q0\<lparr>pdata := place_timers (psize t0) (pin t0) (map (\<lambda>ex. (ex, tsf ex)) news) (pdata q0)\<rparr>"
  shows "timers_added tp q T rq m ts \<and> (\<forall>ex \<in> set news. record_timers T (pdata rq ! cell_of ex) = tsf ex)"
proof -
  let ?n = "psize t0" and ?off = "pinba_pool_num_records t0" and ?xs = "map (\<lambda>ex. (ex, tsf ex)) news"
  have pk: "pool_ok q" using tq by (simp add: timers_ok_def)
  note fresh = free_cells_fresh [OF pk room]
  have n0: "0 < ?n" and len0: "length (pdata t0) = ?n" using t0(2) by (auto simp: pool_ok_def)
  have pin0: "pin t0 = (pout t0 + ?off) mod ?n" using t0(2) by (auto simp: pinba_pool_num_records_def pool_ok_def mod_if)
  have push: "pool_ok (t0\<lparr>pin := advance t0 (pin t0) (length ts)\<rparr>)"
      "pinba_pool_num_records (t0\<lparr>pin := advance t0 (pin t0) (length ts)\<rparr>) = ?off + length ts"
      "ring (t0\<lparr>pin := advance t0 (pin t0) (length ts)\<rparr>) = ring t0 @ map ((!) (pdata t0)) (free_cells t0 (length ts))"
    using push_cells(1,3) [OF t0(2)] num_records_push [OF t0(2)] t0(5,6) by simp_all
  have q0: "pdata q0 ! i = pdata q ! i" if "i \<notin> set (cells q)" for i using kept(1) that by (simp add: timers_kept_def)
  obtain d0 where d0: "q0 = q\<lparr>pdata := d0\<rparr>" "length d0 = length (pdata q)" using kept(1) by (auto simp: timers_kept_def)
  have cells: "cell_of ` set news = set (free_cells q m)" using news by (metis list.set_map)
  have cell: "cell_of ex \<notin> set (cells q)" "cell_of ex < psize q" if "ex \<in> set news" for ex
    using fresh cells that by (metis IntI empty_iff imageI, metis imageI)
  have "pinba_pool_num_records T = pinba_pool_num_records (t0\<lparr>pin := advance t0 (pin t0) (length ts)\<rparr>)"
    by (simp add: T pinba_pool_num_records_def)
  then have Tn: "psize T = ?n" "pout T = pout t0" "pinba_pool_num_records T = ?off + length ts" "length (pdata T) = ?n"
    using push(2) len0 by (simp_all add: T)
  have put: "put_timers ?n (pin t0) ts (pdata t0) = put_timers ?n (pout t0 + ?off) ts (pdata t0)"
    by (rule put_timers_mod) (simp add: pin0)
  have fit: "length ts \<le> ?n" using t0(5,6) by simp
  note nth = put_timers_nth(1) [OF len0 fit, where pos = "pout t0 + ?off"] put_timers_nth(2) [OF len0 fit, where pos = "pout t0 + ?off"]
  have old: "pdata T ! ((pout t0 + k) mod ?n) = pdata t0 ! ((pout t0 + k) mod ?n)" if "k < ?off" for k
  proof -
    have "(pout t0 + k) mod ?n \<notin> (\<lambda>j. (pout t0 + ?off + j) mod ?n) ` {..<length ts}"
    proof
      assume "(pout t0 + k) mod ?n \<in> (\<lambda>j. (pout t0 + ?off + j) mod ?n) ` {..<length ts}"
      then obtain j where j: "j < length ts" "(pout t0 + k) mod ?n = (pout t0 + ?off + j) mod ?n" by auto
      have "(pout t0 + k + (?off + j - k)) mod ?n \<noteq> (pout t0 + k) mod ?n"
        by (rule mod_apart) (use that j(1) t0(5,6) in auto)
      moreover have "pout t0 + k + (?off + j - k) = pout t0 + ?off + j" using that by simp
      ultimately show False using j(2) by metis
    qed
    then show ?thesis using nth(2) by (simp add: T put)
  qed
  have new: "\<forall>k < length (concat (map snd ?xs)). pdata T ! ((pout T + ?off + k) mod psize T) = concat (map snd ?xs) ! k"
    using nth(1) put by (simp add: T comp_def flip: ts)
  have xs: "list_all timers_of_ex ?xs" using aw awaits_timers_of_ex by (auto simp: list_all_iff)
  have dist: "distinct (map (\<lambda>x. cell_of (fst x)) ?xs)" using news fresh(2) by (simp add: comp_def)
  have zero: "\<forall>x \<in> set ?xs. cell_of (fst x) < length (pdata q0) \<and> timers_cnt (pdata q0 ! cell_of (fst x)) = 0"
    using aw cell q0 d0 pk by (auto simp: list_all_iff awaits_timers_def pool_ok_def)
  have laid_news: "laid T (pdata rq) ?off (free_cells q m)" "\<forall>x \<in> set ?xs. record_timers T (pdata rq ! cell_of (fst x)) = snd x"
  proof -
    have "place_timers ?n (pin t0) ?xs (pdata q0) = place_timers (psize T) (pout T + ?off) ?xs (pdata q0)"
      unfolding Tn by (rule place_timers_mod) (simp add: pin0)
    then show "laid T (pdata rq) ?off (free_cells q m)" "\<forall>x \<in> set ?xs. record_timers T (pdata rq ! cell_of (fst x)) = snd x"
      using laid_new [of T ?xs ?off "pdata q0"] new xs dist zero n0 Tn t0(5,6) news
      by (simp_all add: rq comp_def ts)
  qed
  have keepc: "pdata rq ! i = pdata q0 ! i" if "i \<in> set (cells q)" for i
    using place_timers_facts(2) [of i ?xs ?n "pin t0" "pdata q0"] cell that by (force simp: rq)
  then have "laid t0 (pdata rq) 0 (cells q)" using laid_cong [OF kept(2)] by simp
  from laid_extend [OF t0(2) Tn(1,2) _ this laid_news(1)] old
  have laid: "laid T (pdata rq) 0 (cells q @ free_cells q m)"
      and rt: "\<forall>i \<in> set (cells q). record_timers T (pdata rq ! i) = record_timers t0 (pdata rq ! i)" by auto
  have rqs: "rq = q\<lparr>pdata := pdata rq\<rparr>" "length (pdata rq) = length (pdata q)"
    using d0 by (simp_all add: rq place_timers_facts(1))
  have "length (pdata q) = psize q" using pk by (simp add: pool_ok_def)
  then have pkr: "pool_ok rq" "pinba_pool_num_records rq + m < psize rq" "cells rq = cells q" "free_cells rq m = free_cells q m" "psize rq = psize q"
    using pk room d0(2) refilled_pool [where p = q] by (simp_all add: rq d0(1) place_timers_facts(1))
  note pub = publish_pool [OF pkr(1,2)]
  have "pool_ok T" using push(1) len0 by (simp add: T pool_ok_def)
  then have "timers_ok T (publish m rq)"
    using tq pub laid pkr t0(3,4) small by (simp add: timers_ok_def Tn) (simp add: T)
  moreover have "\<exists>a b. pdata rq ! i = (pdata q ! i)\<lparr>timers_start := a, timers_cnt := b\<rparr>" for i
  proof -
    obtain k where k: "pdata q0 ! i = (pdata q ! i)\<lparr>timers_start := k\<rparr>"
    proof (cases "i \<in> set (cells q)")
      case True
      then have "\<exists>k. pdata q0 ! i = (pdata q ! i)\<lparr>timers_start := k\<rparr>" using kept(1) by (simp add: timers_kept_def)
      then show ?thesis using that by blast
    next
      case False
      then have "pdata q0 ! i = (pdata q ! i)\<lparr>timers_start := timers_start (pdata q ! i)\<rparr>" using q0 by simp
      then show ?thesis by (rule that)
    qed
    obtain a b where "pdata rq ! i = (pdata q0 ! i)\<lparr>timers_start := a, timers_cnt := b\<rparr>"
      using place_timers_facts(3) by (force simp: rq)
    then have "pdata rq ! i = (pdata q ! i)\<lparr>timers_start := a, timers_cnt := b\<rparr>" by (simp add: k)
    then show ?thesis by blast
  qed
  moreover have "\<forall>i \<in> set (cells q). record_timers T (pdata rq ! i) = record_timers tp (pdata q ! i)"
    using rt keepc kept(1) by (simp add: timers_kept_def)
  moreover have "ring T = ring tp @ ts"
  proof (rule nth_equalityI)
    have lenT: "length (ring T) = ?off + length ts" using length_ring [OF \<open>pool_ok T\<close>] Tn(3) by simp
    have off: "length (ring tp) = ?off" using length_ring [OF t0(2)] t0(7) by simp
    then show "length (ring T) = length (ring tp @ ts)" using lenT by simp
    fix k assume k: "k < length (ring T)"
    then have rk: "ring T ! k = pdata T ! ((pout t0 + k) mod ?n)"
      using lenT Tn by (simp add: ring_def cells_mod [OF \<open>pool_ok T\<close>])
    show "ring T ! k = (ring tp @ ts) ! k"
    proof (cases "k < ?off")
      case True
      then have "ring t0 ! k = pdata t0 ! ((pout t0 + k) mod ?n)" using t0(2) by (simp add: ring_def cells_mod)
      then show ?thesis using rk old [OF True] True off t0(7) by (simp add: nth_append)
    next
      case False
      then obtain j where "k = ?off + j" "j < length ts" using k lenT by (metis add_diff_inverse_nat nat_add_left_cancel_less)
      then show ?thesis using rk nth(1) off by (simp add: T put add.assoc nth_append)
    qed
  qed
  ultimately show ?thesis using rqs laid_news(2) by (simp add: timers_added_def)
qed

end
