(* ===== verification/Batch_Tags.thy ===== *)
theory Batch_Tags
  imports Batch_Stage
begin

text \<open>
  The timers of a new request are such that the timer-tag reports can form their keys: the times
  are normalised, the tags of a timer are distinct when its names are, the values are words of
  the dictionary.
\<close>

section \<open>Tags\<close>

lemma resolved_tags:
  assumes "registry_ok (tag_gc_enabled (ie_tags env)) g"
    and "\<forall>nv \<in> set nvs. length (word_str (words ! unat (fst nv))) < PINBA_TAG_NAME_SIZE"
    and "resolve_tags env words nvs g = (tgl, h)"
  shows "registry_ok (tag_gc_enabled (ie_tags env)) h \<and> registry_le g h \<and>
     (\<forall>iw \<in> set tgl. \<exists>nv \<in> set nvs. snd iw = words ! unat (snd nv) \<and>
        (\<exists>t. pinba_map_get (name_index h) (word_str (words ! unat (fst nv))) = Some t \<and> fst iw = int (unat (tag_id t)))) \<and>
     (distinct (map (\<lambda>nv. word_str (words ! unat (fst nv))) nvs) \<longrightarrow> distinct (map fst tgl))"
  using assms
proof (induction nvs arbitrary: g tgl)
  case (Cons nv nvs)
  obtain n v where nv: "nv = (n, v)" by (cases nv)
  obtain res g1 where r: "tag_of_word env (words ! unat n) g = (res, g1)" by fastforce
  have short: "length (word_str (words ! unat n)) < PINBA_TAG_NAME_SIZE" using Cons.prems(2) nv by simp
  note one = tag_of_word_again(1,2) [OF Cons.prems(1) short r] and name = tag_of_word_mono(3) [OF Cons.prems(1) short r]
  show ?case
  proof (cases res)
    case None
    then have "resolve_tags env words nvs g1 = (tgl, h)" using Cons.prems(3) nv r by simp
    then show ?thesis using Cons.IH [OF one(1)] Cons.prems(2) registry_le_trans [OF one(2)] by auto
  next
    case (Some t)
    obtain tgl1 where rest: "resolve_tags env words nvs g1 = (tgl1, h)" and tgl: "tgl = (int (unat (tag_id t)), words ! unat v) # tgl1"
      using Cons.prems(3) nv r Some by (auto split: prod.splits)
    have ih: "registry_ok (tag_gc_enabled (ie_tags env)) h" "registry_le g1 h"
        "\<forall>iw \<in> set tgl1. \<exists>nv \<in> set nvs. snd iw = words ! unat (snd nv) \<and>
          (\<exists>t. pinba_map_get (name_index h) (word_str (words ! unat (fst nv))) = Some t \<and> fst iw = int (unat (tag_id t)))"
        "distinct (map (\<lambda>nv. word_str (words ! unat (fst nv))) nvs) \<longrightarrow> distinct (map fst tgl1)"
      using Cons.IH [OF one(1) _ rest] Cons.prems(2) by auto
    have t: "pinba_map_get (name_index h) (word_str (words ! unat n)) = Some t"
      using name [OF Some] ih(2) by (simp add: registry_le_def)
    have fresh: "int (unat (tag_id t)) \<notin> fst ` set tgl1"
      if d: "word_str (words ! unat n) \<notin> (\<lambda>nv. word_str (words ! unat (fst nv))) ` set nvs"
    proof
      assume "int (unat (tag_id t)) \<in> fst ` set tgl1"
      then obtain iw where "iw \<in> set tgl1" "fst iw = int (unat (tag_id t))" by auto
      then obtain nv' t' where t': "nv' \<in> set nvs" "pinba_map_get (name_index h) (word_str (words ! unat (fst nv'))) = Some t'"
          "tag_id t = tag_id t'" using ih(3) by (metis of_nat_eq_iff word_unat_eq_iff)
      have "\<forall>s u. pinba_map_get (name_index h) s = Some u \<longrightarrow> tag_name u = s \<and> pinba_lmap_get (tag_table h) (tag_id u) = Some u"
        using ih(1) unfolding registry_ok_def by blast
      then have "t = t'" "tag_name t = word_str (words ! unat n)" "tag_name t' = word_str (words ! unat (fst nv'))"
        using t t'(2,3) by (metis option.inject, blast, blast)
      then show False using d imageI [OF t'(1), of "\<lambda>nv. word_str (words ! unat (fst nv))"] by simp
    qed
    show ?thesis using ih t fresh registry_le_trans [OF one(2) ih(2)] unfolding tgl nv by auto
  qed
qed simp

lemma resolve_tags_length: "length (fst (resolve_tags env words nvs g)) \<le> length nvs"
  by (induction env words nvs g rule: resolve_tags.induct) (auto simp: le_SucI split: prod.splits option.splits)

section \<open>Timers\<close>

lemma merged_tag_count: "stored_tags (fst (merged_timers env q words rid i tt hs ts g)) \<le> (\<Sum>c \<leftarrow> ts. unat c)"
proof (induction env q words rid i tt hs ts g rule: merged_timers.induct)
  case (1 env q words rid i tt hits hs tgs ts g)
  let ?nvs = "take (unat tgs) (drop tt (zip (q_timer_tag_name q) (q_timer_tag_value q)))"
  have "length (fst (resolve_tags env words ?nvs g)) \<le> unat tgs"
    using resolve_tags_length [of env words ?nvs g] by simp
  then show ?case using 1 by (auto simp: stored_tags_def split: prod.splits)
qed (simp_all add: stored_tags_def)

lemma fill_timer_ok:
  assumes "request_floats q" and "i < length (q_timer_value q)"
  shows "timer_ok (fill_timer q rid i)"
proof -
  have f: "\<forall>f \<in> set (q_timer_value q @ q_timer_ru_utime q @ q_timer_ru_stime q). is_f32 f"
    using assms(1) by (simp add: request_floats_def list_all_iff)
  have cpu: "timeval_ok (timer_cpu fs i)" if "\<forall>f \<in> set fs. is_f32 f" for fs
    using that sanitized_timeval by (auto simp: timer_cpu_def timeval_ok_def null_timeval_def)
  have "timeval_ok (float_to_timeval (FNum x))" if "is_f32 (FNum x)" "0 \<le> x" for x
    using float_to_timeval_exact [OF that] that(2) by simp
  moreover have "is_f32 (FNum 0)" by (auto simp: is_f32_def on_grid_def intro: exI [of _ 0])
  moreover have "is_f32 (q_timer_value q ! i)" using f assms(2) by simp
  ultimately have "timeval_ok (timer_value (fill_timer q rid i))"
    by (auto simp: fill_timer_def Let_def valid_time_iff)
  then show ?thesis using cpu f by (simp add: timer_ok_def fill_timer_def Let_def)
qed

text \<open>The names of each timer are distinct words.\<close>

fun names_distinct :: "pinba_request \<Rightarrow> nat \<Rightarrow> u32 list \<Rightarrow> bool" where
  "names_distinct q offset [] = True"
| "names_distinct q offset (tgs # ts) =
     (distinct (map (\<lambda>i. dictionary_key (dictionary_entry q (unat i))) (take (unat tgs) (drop offset (q_timer_tag_name q)))) \<and>
      names_distinct q (offset + unat tgs) ts)"

text \<open>\<open>ws\<close> are the words of the request's dictionary.\<close>

definition words_named :: "pinba_request \<Rightarrow> pinba_word list \<Rightarrow> bool" where
  "words_named q ws \<longleftrightarrow> map word_str ws = map (\<lambda>i. dictionary_key (dictionary_entry q i)) [0..<n_dictionary q]"

lemma words_named_nth: "words_named q ws \<Longrightarrow> i < n_dictionary q \<Longrightarrow> word_str (ws ! i) = dictionary_key (dictionary_entry q i)"
  unfolding words_named_def by (metis (no_types, lifting) add_0 diff_zero length_map length_upt nth_map nth_upt)

lemma dictionary_key_ok: "fits PINBA_TAG_VALUE_SIZE (dictionary_key (dictionary_entry q i))"
  by (simp add: fits_def dictionary_key_def dictionary_entry_def)

lemma merged_tags:
  assumes "registry_ok (tag_gc_enabled (ie_tags env)) g" and q: "request_valid q" "request_floats q" and ws: "words_named q ws"
    and "names_distinct q tt ts" and "i + length hs \<le> length (q_timer_value q)"
    and "merged_timers env q ws rid i tt hs ts g = (ms, h)"
  shows "(\<forall>t \<in> set ms. timer_ok t \<and> distinct (map fst (timer_tags t)) \<and>
       (\<forall>iw \<in> set (timer_tags t). \<exists>j < n_dictionary q. word_str (snd iw) = dictionary_key (dictionary_entry q j)))"
  using assms(1,5-)
proof (induction hs arbitrary: i tt ts g ms)
  case (Cons hits hs)
  note reg = Cons.prems(1)
  show ?case
  proof (cases ts)
    case Nil
    then show ?thesis using Cons.prems(4) by simp
  next
    case ts: (Cons tgs ts')
    let ?nvs = "take (unat tgs) (drop tt (zip (q_timer_tag_name q) (q_timer_tag_value q)))"
    have dist: "names_distinct q (tt + unat tgs) ts'" using Cons.prems(2) ts by simp
    show ?thesis
    proof (cases "hits = 0 \<or> tgs = 0")
      case True
      then have "merged_timers env q ws rid (Suc i) (tt + unat tgs) hs ts' g = (ms, h)" using Cons.prems(4) ts by auto
      from Cons.IH [OF reg dist _ this] Cons.prems(3) show ?thesis by (auto simp: ts)
    next
      case False
      obtain tgl g1 where rs: "resolve_tags env ws ?nvs g = (tgl, g1)" by fastforce
      obtain ms' where rest: "merged_timers env q ws rid (Suc i) (tt + unat tgs) hs ts' g1 = (ms', h)"
          and ms: "ms = (fill_timer q rid i)\<lparr>timer_tags := tgl\<rparr> # ms'"
        using Cons.prems(4) ts False rs by (auto split: prod.splits)
      have idx: "unat (fst nv) < n_dictionary q" "unat (snd nv) < n_dictionary q" if "nv \<in> set ?nvs" for nv
      proof -
        have "nv \<in> set (zip (q_timer_tag_name q) (q_timer_tag_value q))" using that by (meson in_set_takeD in_set_dropD)
        then have "fst nv \<in> set (q_timer_tag_name q)" "snd nv \<in> set (q_timer_tag_value q)"
          by (metis in_set_zipE prod.collapse)+
        moreover have "\<forall>i \<in> set (q_timer_tag_name q @ q_timer_tag_value q). unat i < n_dictionary q"
          using q(1) unfolding request_valid_def list_all_iff set_append by blast
        ultimately show "unat (fst nv) < n_dictionary q" "unat (snd nv) < n_dictionary q" by simp_all
      qed
      have short: "\<forall>nv \<in> set ?nvs. length (word_str (ws ! unat (fst nv))) < PINBA_TAG_NAME_SIZE"
        using words_named_nth [OF ws] idx dictionary_key_short by simp
      have len: "length (q_timer_tag_value q) = length (q_timer_tag_name q)" using q(1) by (simp add: request_valid_def)
      have "map (\<lambda>nv. word_str (ws ! unat (fst nv))) ?nvs = map (\<lambda>nv. dictionary_key (dictionary_entry q (unat (fst nv)))) ?nvs"
        using words_named_nth [OF ws] idx by (intro map_cong) auto
      also have "\<dots> = map (\<lambda>i. dictionary_key (dictionary_entry q (unat i))) (map fst ?nvs)" by simp
      also have "map fst ?nvs = take (unat tgs) (drop tt (q_timer_tag_name q))"
        using len by (simp add: take_map [symmetric] drop_map [symmetric])
      finally have dn: "distinct (map (\<lambda>nv. word_str (ws ! unat (fst nv))) ?nvs)" using Cons.prems(2) ts by simp
      have r: "registry_ok (tag_gc_enabled (ie_tags env)) g1" "distinct (map fst tgl)"
          "\<forall>iw \<in> set tgl. \<exists>nv \<in> set ?nvs. snd iw = ws ! unat (snd nv)"
        using resolved_tags [OF reg short rs] dn by auto
      have v: "\<exists>j < n_dictionary q. word_str (snd iw) = dictionary_key (dictionary_entry q j)" if "iw \<in> set tgl" for iw
        using r(3) that idx(2) words_named_nth [OF ws] by metis
      have "timer_ok (fill_timer q rid i)" using Cons.prems(3) by (intro fill_timer_ok [OF q(2)]) simp
      then have "timer_ok ((fill_timer q rid i)\<lparr>timer_tags := tgl\<rparr>)" by (simp add: timer_ok_def)
      then show ?thesis using Cons.IH [OF r(1) dist _ rest] r(2) v Cons.prems(3) by (auto simp: ms)
    qed
  qed
qed simp

section \<open>Requests that fit a report\<close>

text \<open>
  What a timer-tag report needs of a request. The buffer of the report over any number of tags by
  host and server has no room for the host and the server name, so short values have to make up
  for it.
\<close>

definition keys_room :: "pinba_request \<Rightarrow> nat \<Rightarrow> bool" where
  "keys_room q n \<longleftrightarrow> 0 < n \<and>
     (\<forall>i < n_dictionary q. PINBA_HOSTNAME_SIZE + PINBA_SERVER_NAME_SIZE + n * Suc (length (dictionary_key (dictionary_entry q i))) < tagN_index_size n)"

fun request_fits :: "pinba_request \<Rightarrow> tag_entry \<Rightarrow> bool" where
  "request_fits q (Tag_info shape R) \<longleftrightarrow> ids_ok shape (tg_tag_id R) \<and> names_distinct q 0 (q_timer_tag_count q)"
| "request_fits q (Tag_report shape two R) \<longleftrightarrow>
     ids_ok shape (tg_tag_id R) \<and> names_distinct q 0 (q_timer_tag_count q) \<and>
     (shape = NTags \<and> two \<longrightarrow> keys_room q (length (tg_tag_id R)))"

lemma joined_length:
  assumes "\<forall>w \<in> set ws. length (word_str w) \<le> k"
  shows "length (joined ws) \<le> length ws * Suc k"
  using assms by (induction ws) (auto simp: joined_def)

lemma keys_room_report2:
  assumes room: "keys_room q (length ids)" and r: "record_ok r" and ws: "tag_words ids tgs = Some ws"
    and v: "\<forall>iw \<in> set tgs. \<exists>j < n_dictionary q. word_str (snd iw) = dictionary_key (dictionary_entry q j)"
  shows "ids = [] \<or> report2_room r ws"
proof (cases "ids = []")
  case False
  note len = tag_words_length [OF ws]
  let ?L = "\<lambda>w. length (word_str w)"
  have key: "\<exists>j < n_dictionary q. word_str w = dictionary_key (dictionary_entry q j)" if w: "w \<in> set ws" for w
  proof -
    obtain k where "k < length ws" "w = ws ! k" using w by (metis in_set_conv_nth)
    then have "map_of tgs (ids ! k) = Some w" using ws len unfolding tag_words_Some by (metis nth_map)
    then have "(ids ! k, w) \<in> set tgs" by (rule map_of_SomeD)
    then show ?thesis using bspec [OF v] by fastforce
  qed
  have fin: "finite (?L ` set ws)" "?L ` set ws \<noteq> {}" using False len by auto
  obtain w where w: "w \<in> set ws" "?L w = Max (?L ` set ws)" using Max_in [OF fin] by auto
  obtain j where j: "j < n_dictionary q" "word_str w = dictionary_key (dictionary_entry q j)" using key [OF w(1)] by blast
  have "length (joined ws) \<le> length ids * Suc (length (dictionary_key (dictionary_entry q j)))"
    using joined_length [of ws "?L w"] w(2) Max_ge [OF fin(1)] len j(2) by simp
  moreover have "length (host_server_prefix r) \<le> PINBA_HOSTNAME_SIZE + PINBA_SERVER_NAME_SIZE"
    using r by (simp add: host_server_prefix_def record_ok_def fits_def)
  moreover have "PINBA_HOSTNAME_SIZE + PINBA_SERVER_NAME_SIZE + length ids * Suc (length (dictionary_key (dictionary_entry q j))) < tagN_index_size (length ids)"
    using room j(1) unfolding keys_room_def by blast
  ultimately show ?thesis using len by (simp add: report2_room_def)
qed simp

lemma request_fits_timers:
  assumes g: "registry_ok (tag_gc_enabled (ie_tags env)) g" and q: "request_valid q" "request_floats q" and ws: "words_named q ws"
    and r: "record_ok r" and fits: "request_fits q e"
  shows "tag_fits r (fst (request_timers env q ws rid g)) e"
proof -
  obtain ms h where ms: "request_timers env q ws rid g = (ms, h)" by fastforce
  have d: "names_distinct q 0 (q_timer_tag_count q)" using fits by (cases e) simp_all
  have len: "0 + length (q_timer_hit_count q) \<le> length (q_timer_value q)" using q(1) by (simp add: request_valid_def)
  note m = merged_tags [OF g q ws d len ms [unfolded request_timers_def]]
  have t: "timer_ok t" "distinct (map fst (timer_tags t))" "list_all (\<lambda>(i, w). tag_word_ok w) (timer_tags t)"
      "\<forall>iw \<in> set (timer_tags t). \<exists>j < n_dictionary q. word_str (snd iw) = dictionary_key (dictionary_entry q j)"
    if "t \<in> set ms" for t
  proof -
    show "timer_ok t" "distinct (map fst (timer_tags t))" and v: "\<forall>iw \<in> set (timer_tags t). \<exists>j < n_dictionary q. word_str (snd iw) = dictionary_key (dictionary_entry q j)"
      using m that by blast+
    have "tag_word_ok w" if iw: "(i, w) \<in> set (timer_tags t)" for i w
      using bspec [OF v iw] dictionary_key_ok [of q] unfolding tag_word_ok_def by (metis snd_conv)
    then show "list_all (\<lambda>(i, w). tag_word_ok w) (timer_tags t)" by (auto simp: list_all_iff)
  qed
  show "tag_fits r (fst (request_timers env q ws rid g)) e"
  proof (cases e)
    case (Tag_info shape R)
    then show ?thesis using t fits ms by (auto simp: list_all_iff tag_timer_ok_def)
  next
    case (Tag_report shape two R)
    have "report2_room r ws'" if "shape = NTags" "two" "t \<in> set ms" "tag_words (tg_tag_id R) (timer_tags t) = Some ws'" for t ws'
      using keys_room_report2 [OF _ r that(4) t(4) [OF that(3)]] fits that Tag_report by (auto simp: keys_room_def)
    then show ?thesis using t fits ms Tag_report by (cases two) (auto simp: list_all_iff tag_timer_ok_def report_level_def split: option.splits)
  qed
qed

end
