(* ===== verification/Batch_Correct.thy ===== *)
theory Batch_Correct
  imports Daemon_Expire Batch_Timers Batch_Tags
begin

text \<open>
  A round of the data thread keeps the invariant of the daemon: what the workers staged and the
  pool has room for becomes its newest requests, and the reports, the timers, the timer tags and
  the words follow.
\<close>

section \<open>The new requests\<close>

lemma retimed_requests:
  assumes r: "retimed p q" and pk: "pool_ok q" "psize q = psize p" and p: "requests_ok tm c p"
  shows "requests_ok tm c q"
proof -
  have cells: "cells q = cells p" using r by (simp add: retimed_def)
  have same: "record_ok (pdata q ! i) = record_ok (pdata p ! i) \<and> rec_time (pdata q ! i) = rec_time (pdata p ! i) \<and>
      counter (pdata q ! i) = counter (pdata p ! i)" if "i \<in> set (cells p)" for i
    using r that by (auto simp: retimed_def record_ok_def)
  have "sorted_wrt (\<lambda>i j. older (pdata p ! i) (pdata p ! j)) (cells p)"
    using p by (simp add: requests_ok_def arrival_ordered_def ring_def sorted_wrt_map)
  then have "sorted_wrt (\<lambda>i j. older (pdata q ! i) (pdata q ! j)) (cells p)"
    by (rule sorted_wrt_mono_rel [rotated]) (use same in \<open>auto simp: older_def\<close>)
  then have "arrival_ordered (ring q)" by (simp add: arrival_ordered_def ring_def sorted_wrt_map cells)
  then show ?thesis using p pk same cells by (auto simp: requests_ok_def ring_def)
qed

text \<open>Copying leaves the stored requests alone and puts the new ones after them.\<close>

lemma copied_cells:
  assumes "batch_copied p q c ys copied"
  shows "length (pdata q) = psize p"
    and "created copied = map (\<lambda>j. moved_ex (ys ! j) (advance p (pin p) j)) [0..<length ys]"
    and "j < length ys \<Longrightarrow> pdata q ! advance p (pin p) j = stored (ys ! j) (c + of_nat j)"
    and "i \<in> set (cells p) \<Longrightarrow> pdata q ! i = pdata p ! i"
    and "i < psize p \<Longrightarrow> i \<notin> set (cells p) \<Longrightarrow> i \<notin> set (free_cells p (length ys)) \<Longrightarrow> dictionary_words (pdata q ! i) = []"
  using assms unfolding batch_copied_def by blast+

lemma copied_pool:
  assumes p: "pool_ok p" and b: "batch_copied p q c ys copied"
  shows "pool_ok q" and "psize q = psize p" and "pin q = pin p" and "cells q = cells p" and "advance q = advance p"
    and "pinba_pool_num_records q = pinba_pool_num_records p" and "free_cells q = free_cells p" and "retimed p q"
proof -
  obtain d where q: "q = p\<lparr>pdata := d\<rparr>" "length d = psize p" and same: "\<forall>i \<in> set (cells p). pdata q ! i = pdata p ! i"
    using b unfolding batch_copied_def by blast
  show "pool_ok q" "psize q = psize p" "pin q = pin p" "cells q = cells p" "advance q = advance p"
    "pinba_pool_num_records q = pinba_pool_num_records p" "free_cells q = free_cells p"
    using p q(2) refilled_pool [where p = p and d = d] by (simp_all add: q(1) pool_ok_def)
  show "retimed p q" using same retimed_refl by (auto simp: retimed_def q)
qed

lemma copied_arrived:
  assumes p: "pool_ok p" and b: "batch_copied p q c ys copied" and st: "list_all (staged_ok now) ys"
    and room: "pinba_pool_num_records p + length ys < psize p" and now: "tv_sec now \<noteq> 0" and c: "unat c + length ys < 2 ^ 64"
  shows "arrived now c (length ys) q"
proof -
  note q = copied_pool [OF p b]
  have new: "let r = pdata q ! advance q (pin q) k in record_ok r \<and> rec_time r = now \<and> counter r = c + of_nat k" if k: "k < length ys" for k
  proof -
    have "pdata q ! advance q (pin q) k = stored (ys ! k) (c + of_nat k)" using copied_cells(3) [OF b k] q(3,5) by simp
    moreover have "staged_ok now (ys ! k)" using st k by (simp add: list_all_length)
    ultimately show ?thesis by (simp add: staged_ok_def stored_def record_ok_def Let_def)
  qed
  have "pinba_pool_num_records q + length ys < psize q" using room q(2,6) by simp
  then show ?thesis unfolding arrived_def using now c new by blast
qed

text \<open>The timers the new requests will get.\<close>

definition timers_due :: "ingest_env \<Rightarrow> pinba_stats_record list \<Rightarrow> tag_registry \<Rightarrow> pinba_stats_record_ex \<Rightarrow> pinba_timer_record list" where
  "timers_due env d g ex = fst (ex_timers env d ex g)"

text \<open>All tag names of a stored request have descriptors in \<open>g\<close>, and in every registry that keeps them.\<close>

definition settled :: "ingest_env \<Rightarrow> pinba_stats_record list \<Rightarrow> tag_registry \<Rightarrow> pinba_stats_record_ex \<Rightarrow> bool" where
  "settled env d g ex \<longleftrightarrow>
     (\<forall>h. registry_le g h \<longrightarrow>
        admit_timers env (dictionary_words (d ! cell_of ex)) (q_timer_tag_name (ex_request ex)) 0
          (q_timer_hit_count (ex_request ex)) (q_timer_tag_count (ex_request ex)) h = (True, h))"

lemma settled_mono: "settled env d g ex \<Longrightarrow> registry_le g h \<Longrightarrow> settled env d h ex"
  using registry_le_trans by (auto simp: settled_def)

text \<open>Either the names were admitted when the request was staged, or they are created now.\<close>

definition tags_assured :: "ingest_env \<Rightarrow> tag_registry \<Rightarrow> nat \<Rightarrow> bool" where
  "tags_assured env g n \<longleftrightarrow> admission env \<or> tags_creatable env g n"

lemma settle_one:
  assumes g: "registry_ok (tag_gc_enabled (ie_tags env)) g" and ck: "copied_ok d ex" "ex_request_id ex \<noteq> None"
    and a: "settled env d g ex \<or> tags_creatable env g (length (q_timer_tag_name (ex_request ex)) + n)"
  shows "\<exists>g'. registry_ok (tag_gc_enabled (ie_tags env)) g' \<and> registry_le g g' \<and> settled env d g' ex \<and>
     (\<forall>h. registry_le g' h \<longrightarrow> ex_timers env d ex g = (timers_due env d h ex, g')) \<and>
     (settled env d g ex \<and> g' = g \<or> tags_creatable env g' n)"
proof -
  let ?q = "ex_request ex" and ?w = "dictionary_words (d ! cell_of ex)"
  let ?admit = "admit_timers env ?w (q_timer_tag_name ?q) 0 (q_timer_hit_count ?q) (q_timer_tag_count ?q)"
  have q: "request_valid ?q" "names_short (n_dictionary ?q) ?w" using ck by (auto simp: copied_ok_def cell_of_def)
  have short: "\<forall>i \<in> set (q_timer_tag_name ?q). length (word_str (?w ! unat i)) < PINBA_TAG_NAME_SIZE"
    using q by (auto simp: request_valid_def list_all_iff names_short_def)
  have len: "length (q_timer_tag_value ?q) = length (q_timer_tag_name ?q)" "(\<Sum>c \<leftarrow> q_timer_tag_count ?q. unat c) \<le> length (q_timer_tag_name ?q)"
    using q(1) by (auto simp: request_valid_def)
  obtain g' where g': "?admit g = (True, g')" "settled env d g ex \<and> g' = g \<or> tags_creatable env g' n"
  proof (rule disjE [OF a])
    assume "settled env d g ex"
    then show thesis using that by (simp add: settled_def)
  next
    assume c: "tags_creatable env g (length (q_timer_tag_name ?q) + n)"
    have "tags_creatable env g ((\<Sum>c \<leftarrow> q_timer_tag_count ?q. unat c) + n)"
      by (rule tags_creatable_less [OF c]) (use len(2) in simp)
    from admit_timers_creates [OF g short this, of 0 "q_timer_hit_count ?q"] show thesis using that by blast
  qed
  have again: "registry_ok (tag_gc_enabled (ie_tags env)) g'" "registry_le g g'" "\<And>h. registry_le g' h \<Longrightarrow> ?admit h = (True, h)"
    using admit_timers_again [OF g short g'(1)] by auto
  have id: "ex_timers env d ex h = request_timers env ?q ?w (cell_of ex) h" for h
    using ck(2) by (auto simp: ex_timers_def cell_of_def)
  have "ex_timers env d ex g = (timers_due env d h ex, g')" if "registry_le g' h" for h
    using merged_again [OF g short g'(1) that len(1), of "cell_of ex" 0] merged_admitted [OF g'(1) len(1), of "cell_of ex" 0] len(2)
    by (simp add: timers_due_def id request_timers_def prod_eq_iff)
  then show ?thesis using again g'(2) by (auto simp: settled_def)
qed

lemma settle_all:
  assumes "registry_ok (tag_gc_enabled (ie_tags env)) g" and "list_all (\<lambda>ex. copied_ok d ex \<and> ex_request_id ex \<noteq> None) exs"
    and "(\<forall>ex \<in> set exs. settled env d g ex) \<or> tags_creatable env g (\<Sum>ex \<leftarrow> exs. length (q_timer_tag_name (ex_request ex)))"
  shows "\<exists>h. registry_ok (tag_gc_enabled (ie_tags env)) h \<and> registry_le g h \<and> (\<forall>ex \<in> set exs. settled env d h ex) \<and>
     batch_timers env d exs g = (map (\<lambda>ex. (ex, timers_due env d h ex)) exs, h)"
  using assms
proof (induction exs arbitrary: g)
  case (Cons ex exs)
  let ?n = "\<Sum>ex \<leftarrow> exs. length (q_timer_tag_name (ex_request ex))"
  have "settled env d g ex \<or> tags_creatable env g (length (q_timer_tag_name (ex_request ex)) + ?n)" using Cons.prems(3) by auto
  with Cons.prems(1,2) obtain g' where
    g': "registry_ok (tag_gc_enabled (ie_tags env)) g'" "registry_le g g'" "settled env d g' ex"
      "\<forall>h. registry_le g' h \<longrightarrow> ex_timers env d ex g = (timers_due env d h ex, g')"
      "settled env d g ex \<and> g' = g \<or> tags_creatable env g' ?n"
    using settle_one [of env g d ex ?n] by auto
  have "(\<forall>ex \<in> set exs. settled env d g' ex) \<or> tags_creatable env g' ?n"
  proof (rule disjE [OF Cons.prems(3)])
    assume "tags_creatable env g (\<Sum>ex \<leftarrow> ex # exs. length (q_timer_tag_name (ex_request ex)))"
    then have "tags_creatable env g ?n" by (rule tags_creatable_less) simp
    then show ?thesis using g'(5) by blast
  qed (use g'(5) in auto)
  then obtain h where
    h: "registry_ok (tag_gc_enabled (ie_tags env)) h" "registry_le g' h" "\<forall>ex \<in> set exs. settled env d h ex"
      "batch_timers env d exs g' = (map (\<lambda>ex. (ex, timers_due env d h ex)) exs, h)"
    using Cons.IH [OF g'(1)] Cons.prems(2) by auto
  have "ex_timers env d ex g = (timers_due env d h ex, g')" using g'(4) h(2) by blast
  then show ?case
    using h g'(2,3) settled_mono [OF _ h(2)] registry_le_trans by (intro exI [of _ h]) auto
qed auto

lemma staged_copied:
  assumes st: "staged_ok now ex" and i: "i < length d" and d: "d ! i = stored ex c"
  shows "copied_ok d (moved_ex ex i)" and "timers_cnt (d ! i) = 0"
    and "timers_due env d g (moved_ex ex i) = fst (request_timers env (ex_request ex) (ex_words ex) i g)"
proof -
  let ?q = "ex_request ex"
  have q: "request_valid ?q" and w: "map word_str (ex_words ex) = map (\<lambda>i. dictionary_key (dictionary_entry ?q i)) [0..<n_dictionary ?q]"
    and z: "timers_cnt (ex_record ex) = 0"
    using st by (simp_all add: staged_ok_def Let_def)
  show "timers_cnt (d ! i) = 0" using z by (simp add: d stored_def)
  show "timers_due env d g (moved_ex ex i) = fst (request_timers env ?q (ex_words ex) i g)"
    by (simp add: timers_due_def ex_timers_def moved_ex_def d stored_def)
  have "word_str (ex_words ex ! j) = dictionary_key (dictionary_entry ?q j)" if "j < n_dictionary ?q" for j
    using w that by (metis (no_types, lifting) add_0 diff_zero length_map length_upt nth_map nth_upt)
  then have "names_short (n_dictionary ?q) (ex_words ex)" using dictionary_key_short by (simp add: names_short_def)
  then show "copied_ok d (moved_ex ex i)" using q i by (simp add: copied_ok_def moved_ex_def d stored_def)
qed

lemma settled_awaits:
  assumes ck: "copied_ok d ex" "ex_request_id ex \<noteq> None" "timers_cnt (d ! cell_of ex) = 0" and s: "settled env d g ex"
  shows "awaits_timers env d g (timers_due env d g) ex"
proof -
  let ?q = "ex_request ex"
  have "admit_timers env (dictionary_words (d ! cell_of ex)) (q_timer_tag_name ?q) 0 (q_timer_hit_count ?q) (q_timer_tag_count ?q) g = (True, g)"
    using s by (simp add: settled_def)
  moreover have "request_valid ?q" using ck by (auto simp: copied_ok_def)
  moreover have "ex_timers env d ex g = request_timers env ?q (dictionary_words (d ! cell_of ex)) (cell_of ex) g"
    using ck(2) by (auto simp: ex_timers_def cell_of_def)
  ultimately have "snd (ex_timers env d ex g) = g \<and> (\<forall>t \<in> set (timers_due env d g ex). timer_tags t \<noteq> [])"
    using merged_admitted [of env "dictionary_words (d ! cell_of ex)" ?q 0 "q_timer_hit_count ?q" "q_timer_tag_count ?q" g g "cell_of ex" 0]
    by (simp add: timers_due_def request_timers_def request_valid_def)
  then show ?thesis using ck by (auto simp: awaits_timers_def timers_due_def prod_eq_iff)
qed

lemma copied_awaits:
  assumes p: "pool_ok p" and b: "batch_copied p q c ys copied" and st: "list_all (staged_ok now) ys"
    and room: "pinba_pool_num_records p + length ys < psize p" and k: "\<forall>ex \<in> set ys. names_staged env g ex"
    and g: "registry_ok (tag_gc_enabled (ie_tags env)) g" and t: "tags_assured env g (\<Sum>ex \<leftarrow> ys. length (q_timer_tag_name (ex_request ex)))"
  shows "\<exists>h. registry_ok (tag_gc_enabled (ie_tags env)) h \<and>
      batch_timers env (pdata q) (created copied) g = (map (\<lambda>ex. (ex, timers_due env (pdata q) h ex)) (created copied), h) \<and>
      list_all (awaits_timers env (pdata q) h (timers_due env (pdata q) h)) (created copied)"
    and "map cell_of (created copied) = free_cells q (length ys)"
proof -
  note q = copied_pool [OF p b]
  note cr = copied_cells(2) [OF b]
  show "map cell_of (created copied) = free_cells q (length ys)"
    unfolding cr q(7) by (simp add: free_cells_def comp_def cell_of_def moved_ex_def)
  let ?m = "\<lambda>j. moved_ex (ys ! j) (advance p (pin p) j)"
  have one: "copied_ok (pdata q) (?m j)" "timers_cnt (pdata q ! cell_of (?m j)) = 0" "dictionary_words (pdata q ! cell_of (?m j)) = ex_words (ys ! j)"
    if j: "j < length ys" for j
  proof -
    have cell: "advance p (pin p) j < length (pdata q)"
      using free_cells_fresh(3) [OF p room] copied_cells(1) [OF b] j by (auto simp: free_cells_def)
    note at = copied_cells(3) [OF b j]
    have "staged_ok now (ys ! j)" using st j by (simp add: list_all_length)
    note sc = staged_copied(1,2) [OF this cell at]
    show "copied_ok (pdata q) (?m j)" by (rule sc(1))
    show "timers_cnt (pdata q ! cell_of (?m j)) = 0" using sc(2) by (simp add: cell_of_def moved_ex_def)
    show "dictionary_words (pdata q ! cell_of (?m j)) = ex_words (ys ! j)" by (simp add: cell_of_def moved_ex_def at stored_def)
  qed
  have all: "list_all (\<lambda>ex. copied_ok (pdata q) ex \<and> ex_request_id ex \<noteq> None) (created copied)"
    unfolding cr using one(1) by (auto simp: list_all_iff moved_ex_def)
  have "settled env (pdata q) g ex" if "admission env" "ex \<in> set (created copied)" for ex
    using that k one(3) unfolding cr by (auto simp: settled_def names_staged_def names_known_def moved_ex_def)
  moreover have "(\<Sum>ex \<leftarrow> created copied. length (q_timer_tag_name (ex_request ex))) = (\<Sum>ex \<leftarrow> ys. length (q_timer_tag_name (ex_request ex)))"
  proof -
    have "map (\<lambda>ex. length (q_timer_tag_name (ex_request ex))) (created copied) = map (\<lambda>ex. length (q_timer_tag_name (ex_request ex))) ys"
      unfolding cr by (intro nth_equalityI) (simp_all add: moved_ex_def)
    then show ?thesis by simp
  qed
  ultimately have "(\<forall>ex \<in> set (created copied). settled env (pdata q) g ex) \<or>
      tags_creatable env g (\<Sum>ex \<leftarrow> created copied. length (q_timer_tag_name (ex_request ex)))"
    using t by (auto simp: tags_assured_def)
  from settle_all [OF g all this] obtain h where
    h: "registry_ok (tag_gc_enabled (ie_tags env)) h" "\<forall>ex \<in> set (created copied). settled env (pdata q) h ex"
      "batch_timers env (pdata q) (created copied) g = (map (\<lambda>ex. (ex, timers_due env (pdata q) h ex)) (created copied), h)" by blast
  have "timers_cnt (pdata q ! cell_of ex) = 0" if "ex \<in> set (created copied)" for ex using that one(2) unfolding cr by auto
  then have "list_all (awaits_timers env (pdata q) h (timers_due env (pdata q) h)) (created copied)"
    using all h(2) settled_awaits by (auto simp: list_all_iff)
  then show "\<exists>h. registry_ok (tag_gc_enabled (ie_tags env)) h \<and>
      batch_timers env (pdata q) (created copied) g = (map (\<lambda>ex. (ex, timers_due env (pdata q) h ex)) (created copied), h) \<and>
      list_all (awaits_timers env (pdata q) h (timers_due env (pdata q) h)) (created copied)"
    using h by blast
qed

text \<open>The words go from the slots to the pool.\<close>

lemma copied_words:
  assumes p: "pool_ok p" and b: "batch_copied p q c ys copied" and room: "pinba_pool_num_records p + length ys < psize p"
    and rq: "rq = q\<lparr>pdata := pdata rq\<rparr>" "length (pdata rq) = length (pdata q)"
      "\<forall>i. \<exists>a b. pdata rq ! i = (pdata q ! i)\<lparr>timers_start := a, timers_cnt := b\<rparr>"
  shows "stored_words (ring (publish (length ys) rq)) = stored_words (ring p) + staged_words ys"
    and "unused_wordless (publish (length ys) rq)"
proof -
  let ?m = "length ys"
  note q = copied_pool [OF p b]
  obtain d where d: "rq = q\<lparr>pdata := d\<rparr>" using rq(1) by blast
  have pkr: "pool_ok rq" "pinba_pool_num_records rq + ?m < psize rq" "cells rq = cells p" "free_cells rq ?m = free_cells p ?m" "psize rq = psize p"
    using q room rq(2) refilled_pool [where p = q and d = d] by (simp_all add: d)
  note pub = publish_pool [OF pkr(1,2)]
  have w: "dictionary_words (pdata rq ! i) = dictionary_words (pdata q ! i)" for i
  proof -
    obtain a b where "pdata rq ! i = (pdata q ! i)\<lparr>timers_start := a, timers_cnt := b\<rparr>" using rq(3) by blast
    then show ?thesis by simp
  qed
  have old: "map (\<lambda>i. map word_addr (dictionary_words (pdata rq ! i))) (cells p) = map (\<lambda>i. map word_addr (dictionary_words (pdata p ! i))) (cells p)"
    by (simp add: w copied_cells(4) [OF b])
  have new: "map (\<lambda>i. map word_addr (dictionary_words (pdata rq ! i))) (free_cells p ?m) = map (\<lambda>ex. map word_addr (ex_words ex)) ys"
  proof (rule nth_equalityI)
    fix j assume "j < length (map (\<lambda>i. map word_addr (dictionary_words (pdata rq ! i))) (free_cells p ?m))"
    then show "map (\<lambda>i. map word_addr (dictionary_words (pdata rq ! i))) (free_cells p ?m) ! j = map (\<lambda>ex. map word_addr (ex_words ex)) ys ! j"
      by (simp add: w free_cells_def copied_cells(3) [OF b] stored_def)
  qed (simp add: free_cells_def)
  have "stored_words (ring (publish ?m rq)) = mset (concat (map (\<lambda>i. map word_addr (dictionary_words (pdata rq ! i))) (cells p @ free_cells p ?m)))"
    using pub(5) pkr by (simp add: stored_words_def ring_def comp_def)
  also have "\<dots> = stored_words (ring p) + staged_words ys"
    unfolding map_append old new by (simp add: stored_words_def staged_words_def ring_def comp_def)
  finally show "stored_words (ring (publish ?m rq)) = stored_words (ring p) + staged_words ys" .
  show "unused_wordless (publish ?m rq)"
    using copied_cells(1,5) [OF b] pub(2,3) pkr(3,4) rq(2) by (simp add: unused_wordless_def w)
qed

section \<open>The timers of the round\<close>

text \<open>What a round needs of the memory and the sizes, for \<open>ts\<close> new timers.\<close>

definition timers_bounded :: "batch_env \<Rightarrow> pinba_timer_record pinba_pool \<Rightarrow> pinba_timer_record list \<Rightarrow> bool" where
  "timers_bounded env tp ts \<longleftrightarrow>
     length ts < 2 ^ 31 \<and> psize tp + timer_growth (length ts) < 2 ^ 62 \<and> stored_tags ts < 2 ^ 32 \<and>
     timer_mem_fits (be_timer_mem env (length ts)) (length ts) tp \<and> (\<forall>k. me_arrays (be_merge env) k)"

lemma due_count:
  assumes "list_all (awaits_timers env d g tsf) (created (concat copied))"
  shows "(\<Sum>exs \<leftarrow> copied. job_timers_cnt exs) = length (concat (map tsf (created (concat copied))))"
proof -
  have one: "length (tsf ex) = pinba_stored_timer_count (ex_request ex)" if a: "awaits_timers env d g tsf ex" for ex
  proof -
    obtain i where i: "ex_request_id ex = Some i" and t: "ex_timers env d ex g = (tsf ex, g)" using a by (auto simp: awaits_timers_def)
    then have "request_timers env (ex_request ex) (dictionary_words (d ! i)) i g = (tsf ex, g)" by (simp add: ex_timers_def)
    then show ?thesis using request_timers_length [of env "ex_request ex" "dictionary_words (d ! i)" i g] by simp
  qed
  have "job_timers_cnt exs = length (concat (map tsf (created exs)))" if "list_all (awaits_timers env d g tsf) (created exs)" for exs
    using that one by (simp add: job_timers_cnt_def length_concat list_all_iff comp_def cong: map_cong)
  moreover have "\<forall>exs \<in> set copied. list_all (awaits_timers env d g tsf) (created exs)"
    using assms by (auto simp: created_concat list_all_iff)
  ultimately have "(\<Sum>exs \<leftarrow> copied. job_timers_cnt exs) = (\<Sum>exs \<leftarrow> copied. length (concat (map tsf (created exs))))"
    by (intro arg_cong [where f = sum_list] map_cong) auto
  also have "\<dots> = length (concat (map tsf (created (concat copied))))"
    by (induction copied) simp_all
  finally show ?thesis .
qed

text \<open>
  Either the timers of the new requests are stored and the timer-tag reports are fed, or nothing
  changes: there are no timers or no room for them.
\<close>

lemma batch_timers_step_result:
  fixes env :: batch_env and D :: pinba_daemon
  defines "q \<equiv> request_pool D" and "tp \<equiv> timer_pool D" and "g \<equiv> registry D" and "ie \<equiv> me_ingest (be_merge env)"
  assumes tq: "timers_ok tp q" and g: "registry_ok (tag_gc_enabled (ie_tags ie)) g"
    and room: "pinba_pool_num_records q + m < psize q" and news: "map cell_of (created (concat copied)) = free_cells q m"
    and bt: "batch_timers ie (pdata q) (created (concat copied)) g = (map (\<lambda>ex. (ex, tsf ex)) (created (concat copied)), h)"
    and aw: "list_all (awaits_timers ie (pdata q) h tsf) (created (concat copied))"
    and ts: "ts = concat (map tsf (created (concat copied)))" and b: "timers_bounded env tp ts"
  shows "\<exists>run tr rq. batch_timers_step env m copied D =
       D\<lparr>request_pool := rq, timer_pool := tr, registry := (if run then h else g),
         timertags_cnt := timertags_cnt D + of_nat (stored_tags (if run then ts else [])),
         tag_reports := (if run then map (tag_job (be_job env) tr rq (feed_job m rq)) (map (start_tag (pdata rq ! pin rq)) (tag_reports D))
           else tag_reports D)\<rparr> \<and>
     timers_added tp q tr rq m (if run then ts else []) \<and>
     (\<forall>ex \<in> set (created (concat copied)). record_timers tr (pdata rq ! cell_of ex) = (if run then tsf ex else []))"
proof -
  let ?news = "created (concat copied)" and ?n = "length ts"
  have cnt: "(\<Sum>exs \<leftarrow> copied. job_timers_cnt exs) = ?n" unfolding ts by (rule due_count [OF aw])
  have cells: "cell_of ` set ?news = set (free_cells q m)" using news by (metis list.set_map)
  have "\<forall>i \<in> set (free_cells q m). timers_cnt (pdata q ! i) = 0"
    using aw unfolding cells [symmetric] by (auto simp: list_all_iff awaits_timers_def)
  note none = timers_added_none [OF tq room this]
  have same: "D\<lparr>request_pool := q, timer_pool := tp, registry := g, timertags_cnt := timertags_cnt D + of_nat (stored_tags []), tag_reports := tag_reports D\<rparr> = D"
    unfolding q_def tp_def g_def by (cases D) (simp add: stored_tags_def)
  have idle: ?thesis if "batch_timers_step env m copied D = D"
    unfolding that
  proof (intro exI [of _ False] exI [of _ tp] exI [of _ q], unfold if_False, intro conjI)
    show "D = D\<lparr>request_pool := q, timer_pool := tp, registry := g, timertags_cnt := timertags_cnt D + of_nat (stored_tags []), tag_reports := tag_reports D\<rparr>"
      by (rule same [symmetric])
    show "timers_added tp q tp q m []" by (rule conjunct1 [OF none])
    show "\<forall>ex \<in> set ?news. record_timers tp (pdata q ! cell_of ex) = []"
      using conjunct2 [OF none] unfolding cells [symmetric] by blast
  qed
  obtain i tr rq0 where add: "timer_pool_add (be_timer_mem env ?n) ?n tp q = (i, tr, rq0)"
    using prod_cases3 by blast
  have bd: "?n < 2 ^ 31" "psize tp + timer_growth ?n < 2 ^ 62" "stored_tags ts < 2 ^ 32"
      "timer_mem_fits (be_timer_mem env ?n) ?n tp" "\<forall>k. me_arrays (be_merge env) k"
    using b by (simp_all add: timers_bounded_def)
  show ?thesis
  proof (cases "?n = 0 \<or> i < 0")
    case True
    then have "batch_timers_step env m copied D = D"
      unfolding batch_timers_step_def cnt using add by (auto simp: q_def tp_def Let_def)
    then show ?thesis by (rule idle)
  next
    case False
    then have "0 \<le> i" by simp
    with timers_reserved [OF tq bd(1,4) add] obtain t0 where i: "i = int (pin tp)" and t0: "tr = t0\<lparr>pin := advance t0 (pin t0) ?n\<rparr>" "pin t0 = pin tp" "pool_ok t0" "limit_size t0 = 0"
        "psize t0 \<le> psize tp + timer_growth ?n" "pinba_pool_num_records t0 = pinba_pool_num_records tp"
        "pinba_pool_num_records tp + ?n < psize t0" "ring t0 = ring tp" "timers_kept tp q t0 rq0" "laid t0 (pdata rq0) 0 (cells q)"
      by blast
    define T where "T = t0\<lparr>pin := advance t0 (pin t0) ?n, pdata := put_timers (psize t0) (pin t0) ts (pdata t0)\<rparr>"
    define rq where "rq = rq0\<lparr>pdata := place_timers (psize t0) (pin t0) (map (\<lambda>ex. (ex, tsf ex)) ?news) (pdata rq0)\<rparr>"
    have filled: "timers_added tp q T rq m ts \<and> (\<forall>ex \<in> set ?news. record_timers T (pdata rq ! cell_of ex) = tsf ex)"
      using timers_filled [OF tq room news aw ts bd(2) t0(2-10) T_def rq_def] .
    let ?s = "\<lparr>ms_requests = rq0, ms_timers = tr, ms_timers_cnt = 0, ms_timertag_cnt = 0, ms_registry = g\<rparr>"
    have merged: "\<exists>k l. merge_jobs (be_merge env) (pin tp) copied ?s 0 =
        (?s\<lparr>ms_requests := rq, ms_timers := T, ms_timers_cnt := k, ms_timertag_cnt := l, ms_registry := h\<rparr>, stored_tags ts)"
    proof -
      have mc: "merge_jobs (be_merge env) (pin tp) copied ?s 0 = merge_jobs (be_merge env) (pin tp) (map created copied) ?s 0"
        by (rule merge_jobs_created [symmetric])
      have w: "dictionary_words (pdata rq0 ! i) = dictionary_words (pdata q ! i)" for i
        using t0(9) by (cases "i \<in> set (cells q)") (auto simp: timers_kept_def)
      have len: "length (pdata rq0) = length (pdata q)" using t0(9) by (auto simp: timers_kept_def)
      have ck: "list_all (copied_ok (pdata rq0)) ?news"
        using aw by (auto simp: list_all_iff awaits_timers_def copied_ok_def w len split: option.splits)
      have known: "batch_timers ie (pdata rq0) ?news g = (map (\<lambda>ex. (ex, tsf ex)) ?news, h)"
        using bt batch_timers_words [of "pdata rq0" "pdata q"] w by simp
      have size: "length (pdata t0) = psize t0" "pin t0 < psize t0" "?n \<le> psize t0" using t0(3,7) by (simp_all add: pool_ok_def)
      show ?thesis
        using merge_jobs_result [of "be_merge env" ?s "map created copied" tsf h "pin tp" 0] g bd ck known size t0(1,2)
        unfolding mc created_concat [symmetric] by (simp add: ie_def T_def rq_def flip: ts)
    qed
    then obtain k l where m: "merge_jobs (be_merge env) (pin tp) copied ?s 0 =
        (?s\<lparr>ms_requests := rq, ms_timers := T, ms_timers_cnt := k, ms_timertag_cnt := l, ms_registry := h\<rparr>, stored_tags ts)" by blast
    have "batch_timers_step env m copied D =
       D\<lparr>request_pool := rq, timer_pool := T, registry := h, timertags_cnt := timertags_cnt D + of_nat (stored_tags ts),
         tag_reports := map (tag_job (be_job env) T rq (feed_job m rq)) (map (start_tag (pdata rq ! pin rq)) (tag_reports D))\<rparr>"
      unfolding batch_timers_step_def cnt Let_def using False add i m by (simp add: q_def tp_def g_def feed_job_def)
    then show ?thesis
      using filled by (intro exI [of _ True] exI [of _ T] exI [of _ rq], unfold if_True) (rule conjI)
  qed
qed

section \<open>Publishing\<close>

text \<open>The invariant without the words.\<close>

definition reports_ok :: "u64 \<Rightarrow> bool \<Rightarrow> pinba_timeval \<Rightarrow> pinba_daemon \<Rightarrow> bool" where
  "reports_ok hs gc tm D \<longleftrightarrow>
     registry_ok gc (registry D) \<and> requests_ok tm (request_pool_counter D) (request_pool D) \<and>
     timers_ok (timer_pool D) (request_pool D) \<and>
     (\<forall>e \<in> set (base_reports D). base_follows hs (request_pool D) e \<and> started_before tm (request_pool_counter D) (base_std e)) \<and>
     (\<forall>e \<in> set (rtag_reports D). rtag_follows hs (request_pool D) e \<and> started_before tm (request_pool_counter D) (rtag_std_of e)) \<and>
     (\<forall>e \<in> set (tag_reports D). tag_follows hs (timer_pool D) (request_pool D) e \<and>
        started_before tm (request_pool_counter D) (tag_std_of e) \<and> tags_fit (timer_pool D) (request_pool D) e) \<and>
     timertags_cnt D = of_nat (stored_tags (ring (timer_pool D)))"

lemma daemon_ok_iff:
  "daemon_ok hs word_size gc others tm D \<longleftrightarrow> reports_ok hs gc tm D \<and> unused_wordless (request_pool D) \<and>
     dictionary_ok word_size (others + stored_words (ring (request_pool D))) (dictionary D)"
  unfolding daemon_ok_def reports_ok_def by blast

lemma reports_ok_later:
  assumes le: "tv_le tm now" and ok: "reports_ok hs gc tm D"
  shows "reports_ok hs gc now D"
proof -
  have "started_before now c s" if "started_before tm c s" for c s
    using that tv_le_trans [OF _ le] by (auto simp: started_before_def)
  moreover have "requests_ok now c p" if "requests_ok tm c p" for c p
    using that tv_le_trans [OF _ le] by (auto simp: requests_ok_def)
  ultimately show ?thesis using ok unfolding reports_ok_def by blast
qed

lemma publish_retimed:
  assumes q: "pool_ok q" "pinba_pool_num_records q + m < psize q"
    and rq: "rq = q\<lparr>pdata := pdata rq\<rparr>" "length (pdata rq) = length (pdata q)"
      "\<forall>i. \<exists>a b. pdata rq ! i = (pdata q ! i)\<lparr>timers_start := a, timers_cnt := b\<rparr>"
  shows "pool_ok rq" and "pinba_pool_num_records rq + m < psize rq" and "retimed q rq" and "retimed (publish m q) (publish m rq)"
    and "advance rq = advance q" and "pin rq = pin q" and "free_cells rq m = free_cells q m" and "psize rq = psize q"
proof -
  obtain d where d: "rq = q\<lparr>pdata := d\<rparr>" using rq(1) by blast
  show r: "pool_ok rq" "pinba_pool_num_records rq + m < psize rq" "advance rq = advance q" "pin rq = pin q" "psize rq = psize q"
      "free_cells rq m = free_cells q m"
    using q rq(2) refilled_pool [where p = q and d = d] by (simp_all add: d)
  have c: "cells rq = cells q" by (simp add: d refilled_pool)
  then show "retimed q rq" using rq(3) by (simp add: retimed_def)
  show "retimed (publish m q) (publish m rq)"
    using publish_pool(2,3) [OF q] publish_pool(2,3) [OF r(1,2)] rq(3) r(6) c by (simp add: retimed_def)
qed

lemma arrived_retimed:
  assumes q: "pool_ok q" and a: "arrived now c m q"
    and rq: "rq = q\<lparr>pdata := pdata rq\<rparr>" "length (pdata rq) = length (pdata q)"
      "\<forall>i. \<exists>a b. pdata rq ! i = (pdata q ! i)\<lparr>timers_start := a, timers_cnt := b\<rparr>"
  shows "arrived now c m rq"
proof -
  have room: "pinba_pool_num_records q + m < psize q" using a by (simp add: arrived_def)
  note r = publish_retimed [OF q room rq]
  have same: "record_ok (pdata rq ! i) = record_ok (pdata q ! i)" "rec_time (pdata rq ! i) = rec_time (pdata q ! i)"
      "counter (pdata rq ! i) = counter (pdata q ! i)" for i
  proof -
    obtain a b where "pdata rq ! i = (pdata q ! i)\<lparr>timers_start := a, timers_cnt := b\<rparr>" using rq(3) by blast
    then show "record_ok (pdata rq ! i) = record_ok (pdata q ! i)" "rec_time (pdata rq ! i) = rec_time (pdata q ! i)"
      "counter (pdata rq ! i) = counter (pdata q ! i)" by (simp_all add: record_ok_def)
  qed
  show ?thesis using a r(2) unfolding arrived_def same r(5,6) Let_def by blast
qed

text \<open>No request tags were counted: the new requests have none.\<close>

lemma rtags_counted:
  assumes "(\<Sum>exs \<leftarrow> copied. job_rtags_cnt q exs) = 0" and "map cell_of (created (concat copied)) = free_cells q m"
  shows "\<forall>i \<in> set (free_cells q m). tags (pdata q ! i) = []"
proof -
  have "(\<Sum>exs \<leftarrow> copied. job_rtags_cnt q exs) = (\<Sum>ex \<leftarrow> created (concat copied). length (tags (pdata q ! cell_of ex)))"
    by (induction copied) (simp_all add: job_rtags_cnt_def cell_of_def)
  then have "\<forall>ex \<in> set (created (concat copied)). tags (pdata q ! cell_of ex) = []" using assms(1) by simp
  moreover have "set (free_cells q m) = cell_of ` set (created (concat copied))" using assms(2) by (metis list.set_map)
  ultimately show ?thesis by simp
qed

lemma tag_fits_retimed:
  "tag_fits r ts e \<Longrightarrow> tag_fits (r\<lparr>timers_start := a, timers_cnt := b\<rparr>) ts e" "tag_fits r ts e \<Longrightarrow> tag_fits r [] e"
proof -
  have "tag_timer_ok shape level ids (r\<lparr>timers_start := a, timers_cnt := b\<rparr>) = tag_timer_ok shape level ids r" for shape level ids
    by (auto simp: fun_eq_iff tag_timer_ok_def report2_room_def host_server_prefix_def split: option.splits)
  then show "tag_fits r ts e \<Longrightarrow> tag_fits (r\<lparr>timers_start := a, timers_cnt := b\<rparr>) ts e" by (cases e) simp_all
  show "tag_fits r ts e \<Longrightarrow> tag_fits r [] e" by (cases e) simp_all
qed

text \<open>A timer-tag report through the round.\<close>

lemma published_tag:
  assumes q: "requests_ok tm c q" and a: "arrived now c m q" and le: "tv_le tm now" and m: "0 < m" and ok: "env_ok e"
    and size: "psize q \<le> 2 ^ 31" and ta: "timers_added tp q tr rq m ts"
    and new: "\<forall>i \<in> set (free_cells q m). \<exists>us. tag_fits (pdata q ! i) us entry \<and> record_timers tr (pdata rq ! i) = (if run then us else [])"
    and f: "tag_follows (env_hs e) tp q entry" and s: "started_before tm c (tag_std_of entry)" and fit: "tags_fit tp q entry"
    and entry': "entry' = (if run then tag_job e tr rq (feed_job m rq) (start_tag (pdata rq ! pin rq) entry) else entry)"
  shows "tag_follows (env_hs e) tr (publish m rq) entry' \<and> started_before now (c + of_nat m) (tag_std_of entry') \<and>
     tags_fit tr (publish m rq) entry'"
proof -
  have pk: "pool_ok q" and room: "pinba_pool_num_records q + m < psize q" using q a by (simp_all add: requests_ok_def arrived_def)
  have rq: "rq = q\<lparr>pdata := pdata rq\<rparr>" "length (pdata rq) = length (pdata q)"
      "\<forall>i. \<exists>a b. pdata rq ! i = (pdata q ! i)\<lparr>timers_start := a, timers_cnt := b\<rparr>"
    and old: "\<forall>i \<in> set (cells q). record_timers tr (pdata rq ! i) = record_timers tp (pdata q ! i)"
    using ta unfolding timers_added_def by blast+
  note r = publish_retimed [OF pk room rq]
  note kept = retimed_follows(3) [OF r(3) old, of "env_hs e" entry]
  note pub = publish_pool [OF r(1,2)]
  have fits: "tags_fit tr (publish m rq) entry"
    unfolding tags_fit_def pub(2,3)
  proof
    fix i assume i: "i \<in> set (cells rq @ free_cells rq m)"
    show "tag_fits (pdata rq ! i) (record_timers tr (pdata rq ! i)) entry"
    proof (cases "i \<in> set (cells rq)")
      case True
      then show ?thesis using kept fit by (simp add: tags_fit_def)
    next
      case False
      then obtain us where us: "tag_fits (pdata q ! i) us entry" "record_timers tr (pdata rq ! i) = (if run then us else [])"
        using new i r(7) by auto
      obtain a b where "pdata rq ! i = (pdata q ! i)\<lparr>timers_start := a, timers_cnt := b\<rparr>" using rq(3) by blast
      then show ?thesis using us tag_fits_retimed by (cases run) simp_all
    qed
  qed
  have "requests_ok tm c rq" by (rule retimed_requests [OF r(3,1,8) q])
  moreover have "arrived now c m rq" by (rule arrived_retimed [OF pk a rq])
  moreover have "\<forall>i \<in> set (free_cells rq m). record_timers tr (pdata rq ! i) = []" if "\<not> run" using new that r(7) by auto
  ultimately show ?thesis
    using batch_tag [where run = run, OF _ _ le m ok _ _ s fits _ entry'] kept f size r(8) by simp
qed

lemma batch_publish_result:
  fixes env :: batch_env and D :: pinba_daemon
  defines "q \<equiv> request_pool D" and "tp \<equiv> timer_pool D" and "g \<equiv> registry D" and "ie \<equiv> me_ingest (be_merge env)"
    and "c \<equiv> request_pool_counter D" and "e \<equiv> be_job env"
  assumes D: "reports_ok (env_hs e) (tag_gc_enabled (ie_tags ie)) tm D"
    and a: "arrived now c m q" and le: "tv_le tm now" and ok: "env_ok e" and m: "0 < m"
    and news: "map cell_of (created (concat copied)) = free_cells q m"
    and h: "registry_ok (tag_gc_enabled (ie_tags ie)) h"
    and bt: "batch_timers ie (pdata q) (created (concat copied)) g = (map (\<lambda>ex. (ex, tsf ex)) (created (concat copied)), h)"
    and aw: "list_all (awaits_timers ie (pdata q) h tsf) (created (concat copied))"
    and b: "timers_bounded env tp (concat (map tsf (created (concat copied))))"
    and fits: "\<forall>r \<in> set (tag_reports D). \<forall>ex \<in> set (created (concat copied)). tag_fits (pdata q ! cell_of ex) (tsf ex) r"
  shows "\<exists>rq. reports_ok (env_hs e) (tag_gc_enabled (ie_tags ie)) now (batch_publish env copied D) \<and>
     request_pool (batch_publish env copied D) = publish m rq \<and> dictionary (batch_publish env copied D) = dictionary D \<and>
     request_pool_counter (batch_publish env copied D) = c + of_nat m \<and> rq = q\<lparr>pdata := pdata rq\<rparr> \<and> length (pdata rq) = length (pdata q) \<and>
     (\<forall>i. \<exists>a b. pdata rq ! i = (pdata q ! i)\<lparr>timers_start := a, timers_cnt := b\<rparr>)"
proof -
  let ?hs = "env_hs e" and ?gc = "tag_gc_enabled (ie_tags ie)" and ?news = "created (concat copied)" and ?rec = "pdata q ! pin q"
  define ts where "ts = concat (map tsf ?news)"
  have parts: "registry_ok ?gc g" "requests_ok tm c q" "timers_ok tp q"
      "\<forall>r \<in> set (base_reports D). base_follows ?hs q r \<and> started_before tm c (base_std r)"
      "\<forall>r \<in> set (rtag_reports D). rtag_follows ?hs q r \<and> started_before tm c (rtag_std_of r)"
      "\<forall>r \<in> set (tag_reports D). tag_follows ?hs tp q r \<and> started_before tm c (tag_std_of r) \<and> tags_fit tp q r"
      "timertags_cnt D = of_nat (stored_tags (ring tp))"
    using D unfolding reports_ok_def q_def tp_def g_def c_def by blast+
  have pk: "pool_ok q" and room: "pinba_pool_num_records q + m < psize q" using parts(2) a by (simp_all add: requests_ok_def arrived_def)
  have size: "psize q \<le> 2 ^ 31" using parts(3) by (simp add: timers_ok_def)
  have cnt: "length ?news = m" using arg_cong [OF news, of length] by (simp add: free_cells_def)
  have cells: "set (free_cells q m) = cell_of ` set ?news" using news by (metis list.set_map)
  define rtags where "rtags \<longleftrightarrow> (\<Sum>exs \<leftarrow> copied. job_rtags_cnt q exs) \<noteq> 0"
  define bases where "bases = map (base_job e q (feed_job m q)) (map (start_base ?rec) (base_reports D))"
  define rtgs where "rtgs = (if rtags then map (rtag_job e q (feed_job m q)) (map (start_rtag ?rec) (rtag_reports D)) else rtag_reports D)"
  define D1 where "D1 = D\<lparr>request_pool_counter := c + of_nat m, base_reports := bases, rtag_reports := rtgs\<rparr>"
  have D1: "request_pool D1 = q" "timer_pool D1 = tp" "registry D1 = g" "tag_reports D1 = tag_reports D" "timertags_cnt D1 = timertags_cnt D"
    by (simp_all add: D1_def q_def tp_def g_def)
  from batch_timers_step_result [of D1 env m copied tsf h ts, unfolded D1 ie_def [symmetric], OF parts(3,1) room news bt aw ts_def] b
  obtain run tr rq where step: "batch_timers_step env m copied D1 =
       D1\<lparr>request_pool := rq, timer_pool := tr, registry := (if run then h else g), timertags_cnt := timertags_cnt D + of_nat (stored_tags (if run then ts else [])),
         tag_reports := (if run then map (tag_job e tr rq (feed_job m rq)) (map (start_tag (pdata rq ! pin rq)) (tag_reports D))
           else tag_reports D)\<rparr>"
    and ta: "timers_added tp q tr rq m (if run then ts else [])"
    and rt: "\<forall>ex \<in> set ?news. record_timers tr (pdata rq ! cell_of ex) = (if run then tsf ex else [])"
    unfolding ts_def e_def by blast
  define D2 where "D2 = batch_timers_step env m copied D1"
  have res: "batch_publish env copied D = D2\<lparr>request_pool := publish m (request_pool D2)\<rparr>"
    unfolding batch_publish_def Let_def cnt D2_def D1_def bases_def rtgs_def rtags_def e_def
    by (simp add: publish_def advance_def feed_job_def q_def c_def)
  have rq: "rq = q\<lparr>pdata := pdata rq\<rparr>" "length (pdata rq) = length (pdata q)"
      "\<forall>i. \<exists>a b. pdata rq ! i = (pdata q ! i)\<lparr>timers_start := a, timers_cnt := b\<rparr>"
      "timers_ok tr (publish m rq)" "ring tr = ring tp @ (if run then ts else [])"
    using ta unfolding timers_added_def by blast+
  note r = publish_retimed [OF pk room rq(1,2,3)]
  have pool: "request_pool D2 = rq" "timer_pool D2 = tr" by (simp_all add: D2_def step)
  have "requests_ok now (c + of_nat m) (publish m rq)"
    by (rule arrived_requests_ok [OF retimed_requests [OF r(3,1,8) parts(2)] arrived_retimed [OF pk a rq(1,2,3)] le])
  moreover have "\<forall>r \<in> set bases. base_follows ?hs (publish m rq) r \<and> started_before now (c + of_nat m) (base_std r)"
    unfolding retimed_follows(1) [OF r(4)] bases_def using batch_base [OF parts(2) a le m _ _ refl] parts(4) by simp
  moreover have "\<forall>r \<in> set rtgs. rtag_follows ?hs (publish m rq) r \<and> started_before now (c + of_nat m) (rtag_std_of r)"
  proof -
    have "rtgs = map (\<lambda>r. if rtags then rtag_job e q (feed_job m q) (start_rtag ?rec r) else r) (rtag_reports D)" by (simp add: rtgs_def)
    moreover have "\<not> rtags \<Longrightarrow> \<forall>i \<in> set (free_cells q m). tags (pdata q ! i) = []"
      unfolding rtags_def by (rule rtags_counted [OF _ news]) blast
    note rtag = batch_rtag [where run = rtags, OF parts(2) a le m ok _ _ this refl]
    ultimately show ?thesis unfolding retimed_follows(2) [OF r(4)] using rtag parts(5) by (cases rtags) simp_all
  qed
  moreover have "\<forall>r \<in> set (tag_reports D2). tag_follows ?hs tr (publish m rq) r \<and> started_before now (c + of_nat m) (tag_std_of r) \<and>
      tags_fit tr (publish m rq) r"
  proof -
    have "\<forall>i \<in> set (free_cells q m). \<exists>us. tag_fits (pdata q ! i) us t \<and> record_timers tr (pdata rq ! i) = (if run then us else [])"
      if "t \<in> set (tag_reports D)" for t
      unfolding cells using fits rt that by blast
    note tag = published_tag [OF parts(2) a le m ok size ta this _ _ _ refl]
    have all: "tag_reports D2 = map (\<lambda>t. if run then tag_job e tr rq (feed_job m rq) (start_tag (pdata rq ! pin rq) t) else t) (tag_reports D)"
      by (simp add: D2_def step D1)
    show ?thesis unfolding all using tag parts(6) by (cases run) simp_all
  qed
  moreover have "timertags_cnt D2 = of_nat (stored_tags (ring tr))"
    unfolding rq(5) using parts(7) by (simp add: D2_def step stored_tags_def)
  moreover have "base_reports D2 = bases" "rtag_reports D2 = rtgs" "registry D2 = (if run then h else g)" "request_pool_counter D2 = c + of_nat m" "dictionary D2 = dictionary D"
    unfolding D2_def step by (simp_all add: D1_def g_def)
  ultimately have "reports_ok ?hs ?gc now (D2\<lparr>request_pool := publish m rq\<rparr>)" "dictionary D2 = dictionary D"
      "request_pool_counter D2 = c + of_nat m"
    using parts(1) h rq(4) pool by (simp_all add: reports_ok_def)
  then show ?thesis using rq(1,2,3) unfolding res pool by (intro exI [of _ rq]) simp
qed

text \<open>Nothing could be stored: the reports that are fed do not change what they hold.\<close>

lemma batch_publish_idle:
  assumes D: "reports_ok (env_hs (be_job env)) gc tm D" and none: "created (concat copied) = []"
    and s: "\<forall>r \<in> set (base_reports D). tv_sec (start (base_std r)) \<noteq> 0"
  shows "reports_ok (env_hs (be_job env)) gc tm (batch_publish env copied D) \<and>
     request_pool (batch_publish env copied D) = request_pool D \<and> dictionary (batch_publish env copied D) = dictionary D \<and>
     request_pool_counter (batch_publish env copied D) = request_pool_counter D"
proof -
  let ?e = "be_job env" and ?q = "request_pool D" and ?c = "request_pool_counter D"
  have none': "\<forall>exs \<in> set copied. created exs = []" using none by (simp add: created_concat)
  then have z: "(\<Sum>exs \<leftarrow> copied. job_rtags_cnt ?q exs) = 0" "(\<Sum>exs \<leftarrow> copied. job_timers_cnt exs) = 0"
    by (simp_all add: job_rtags_cnt_def job_timers_cnt_def)
  have pk: "pool_ok ?q" using D by (simp add: reports_ok_def requests_ok_def)
  define bases where "bases = map (base_job ?e ?q (feed_job 0 ?q)) (map (start_base (pdata ?q ! pin ?q)) (base_reports D))"
  have res: "batch_publish env copied D = D\<lparr>base_reports := bases\<rparr>"
    using pk unfolding batch_publish_def Let_def none z batch_timers_step_def bases_def
    by (simp add: feed_job_def pool_ok_def)
  have "base_follows (env_hs ?e) ?q r' \<and> started_before tm ?c (base_std r')"
    if r: "r \<in> set (base_reports D)" "r' = base_job ?e ?q (feed_job 0 ?q) (start_base (pdata ?q ! pin ?q) r)" for r r'
  proof -
    have f: "base_follows (env_hs ?e) ?q r" "started_before tm ?c (base_std r)" using D r(1) by (simp_all add: reports_ok_def)
    from empty_base [OF f(1) _ pk r(2)] s r(1) have "base_follows (env_hs ?e) ?q r'" "same_start (base_std r) (base_std r')" by auto
    then show ?thesis using f(2) by (simp add: started_before_def same_start_def)
  qed
  then have "\<forall>r \<in> set bases. base_follows (env_hs ?e) ?q r \<and> started_before tm ?c (base_std r)" by (auto simp: bases_def)
  then show ?thesis using D unfolding res by (simp add: reports_ok_def)
qed

section \<open>The round\<close>

lemma release_slots_ok:
  "dictionary_ok word_size (owners + staged_words exs) d \<Longrightarrow> dictionary_ok word_size owners (release_slots exs d)"
proof (induction exs arbitrary: d)
  case (Cons ex exs)
  have "dictionary_ok word_size (owners + staged_words exs) (pinba_words_release (ex_words ex) d)"
    using Cons.prems by (intro releases_ok) (simp add: staged_words_def ac_simps)
  then show ?case using Cons.IH by (simp add: release_slots_def pinba_tmp_release_words_def)
qed (simp add: release_slots_def staged_words_def)

lemma slots_words:
  "staged_words (concat (map (\<lambda>(copied, rest). copied @ rest) jobs)) = staged_words (concat (map fst jobs)) + staged_words (concat (map snd jobs))"
  by (induction jobs) (auto simp: staged_words_def ac_simps)

lemma subseq_in: "subseq xs ys \<Longrightarrow> x \<in> set xs \<Longrightarrow> x \<in> set ys"
  unfolding subseq_singleton_left [symmetric] by (rule subseq_order.trans)

lemma subseq_sum_le:
  fixes f :: "'a \<Rightarrow> nat"
  shows "subseq xs ys \<Longrightarrow> sum_list (map f xs) \<le> sum_list (map f ys)"
  by (induction rule: list_emb.induct) auto

text \<open>The sizes a round may reach: \<open>qs\<close> are the requests of its packets.\<close>

definition round_bounded :: "nat multiset \<Rightarrow> pinba_daemon \<Rightarrow> pinba_request list \<Rightarrow> bool" where
  "round_bounded others D qs \<longleftrightarrow>
     size (others + stored_words (ring (request_pool D))) + (\<Sum>q \<leftarrow> qs. n_dictionary q) < 2 ^ 64 \<and>
     unat (request_pool_counter D) + length qs < 2 ^ 64 \<and>
     (\<Sum>q \<leftarrow> qs. length (q_timer_hit_count q)) < 2 ^ 31 \<and>
     psize (timer_pool D) + timer_growth (\<Sum>q \<leftarrow> qs. length (q_timer_hit_count q)) < 2 ^ 62 \<and>
     (\<Sum>q \<leftarrow> qs. length (q_timer_tag_name q)) < 2 ^ 32"

text \<open>
  What a round relies on: new words have new addresses, the reports get the memory for their rows
  and the timers the memory for their tags, and a timer pool that grows has its old content.
\<close>

definition round_env :: "batch_env \<Rightarrow> pinba_timer_record pinba_pool \<Rightarrow> bool" where
  "round_env env tp \<longleftrightarrow>
     fresh_words (me_ingest (be_merge env)) \<and> env_ok (be_job env) \<and>
     (\<forall>k. me_arrays (be_merge env) k) \<and> (\<forall>cnt. timer_mem_fits (be_timer_mem env cnt) cnt tp)"

lemma timer_growth_mono: "a \<le> b \<Longrightarrow> timer_growth a \<le> timer_growth b"
  by (simp add: timer_growth_def)

lemma due_bounded:
  assumes env: "round_env env tp" and st: "list_all (staged_ok now) ys" and sub: "subseq (map ex_request ys) qs"
    and hits: "(\<Sum>q \<leftarrow> qs. length (q_timer_hit_count q)) < 2 ^ 31"
      "psize tp + timer_growth (\<Sum>q \<leftarrow> qs. length (q_timer_hit_count q)) < 2 ^ 62" "(\<Sum>q \<leftarrow> qs. length (q_timer_tag_name q)) < 2 ^ 32"
    and ts: "tss = map (\<lambda>j. fst (request_timers (me_ingest (be_merge env)) (ex_request (ys ! j)) (ex_words (ys ! j)) (cell j) g)) [0..<length ys]"
  shows "timers_bounded env tp (concat tss)"
proof -
  have valid: "request_valid (ex_request ex)" if "ex \<in> set ys" for ex using st that by (simp add: list_all_iff staged_ok_def Let_def)
  have len: "length (concat tss) \<le> (\<Sum>ex \<leftarrow> ys. length (q_timer_hit_count (ex_request ex)))"
  proof -
    have "length (concat tss) = (\<Sum>j \<leftarrow> [0..<length ys]. pinba_stored_timer_count (ex_request (ys ! j)))"
      unfolding ts by (simp add: length_concat comp_def request_timers_length)
    also have "\<dots> = (\<Sum>ex \<leftarrow> map ((!) ys) [0..<length ys]. pinba_stored_timer_count (ex_request ex))" by (simp add: comp_def)
    also have "\<dots> \<le> (\<Sum>ex \<leftarrow> ys. length (q_timer_hit_count (ex_request ex)))"
      unfolding map_nth by (intro sum_list_mono) (simp add: pinba_stored_timer_count_def stored_count_le)
    finally show ?thesis .
  qed
  also have "\<dots> \<le> (\<Sum>q \<leftarrow> qs. length (q_timer_hit_count q))"
    using subseq_sum_le [OF sub, of "\<lambda>q. length (q_timer_hit_count q)"] by (simp add: comp_def)
  finally have n: "length (concat tss) \<le> (\<Sum>q \<leftarrow> qs. length (q_timer_hit_count q))" .
  have "stored_tags (concat tss) = (\<Sum>ts \<leftarrow> tss. stored_tags ts)" by (induction tss) (simp_all add: stored_tags_def)
  also have "\<dots> \<le> (\<Sum>j \<leftarrow> [0..<length ys]. length (q_timer_tag_name (ex_request (ys ! j))))"
    unfolding ts map_map comp_def
  proof (rule sum_list_mono)
    fix j assume "j \<in> set [0..<length ys]"
    then have "request_valid (ex_request (ys ! j))" using valid by simp
    then show "stored_tags (fst (request_timers (me_ingest (be_merge env)) (ex_request (ys ! j)) (ex_words (ys ! j)) (cell j) g)) \<le>
        length (q_timer_tag_name (ex_request (ys ! j)))"
      using merged_tag_count [of "me_ingest (be_merge env)" "ex_request (ys ! j)" "ex_words (ys ! j)" "cell j" 0 0
          "q_timer_hit_count (ex_request (ys ! j))" "q_timer_tag_count (ex_request (ys ! j))" g]
      by (simp add: request_timers_def request_valid_def)
  qed
  also have "\<dots> = (\<Sum>ex \<leftarrow> map ((!) ys) [0..<length ys]. length (q_timer_tag_name (ex_request ex)))" by (simp add: comp_def)
  also have "\<dots> \<le> (\<Sum>q \<leftarrow> qs. length (q_timer_tag_name q))"
    unfolding map_nth using subseq_sum_le [OF sub, of "\<lambda>q. length (q_timer_tag_name q)"] by (simp add: comp_def)
  finally have t: "stored_tags (concat tss) < 2 ^ 32" using hits(3) by simp
  show ?thesis
    using env n t hits(1,2) timer_growth_mono [OF n] by (simp add: timers_bounded_def round_env_def)
qed

text \<open>The copied pool in place of the old one.\<close>

lemma copied_reports:
  assumes D: "reports_ok hs gc tm D" and b: "batch_copied (request_pool D) q c ys copied"
  shows "reports_ok hs gc tm (D\<lparr>request_pool := q, dictionary := words\<rparr>)"
proof -
  let ?p = "request_pool D" and ?tp = "timer_pool D"
  have p: "pool_ok ?p" and t: "timers_ok ?tp ?p" using D by (simp_all add: reports_ok_def requests_ok_def)
  note q = copied_pool [OF p b]
  have same: "\<forall>i \<in> set (cells ?p). record_timers ?tp (pdata q ! i) = record_timers ?tp (pdata ?p ! i)"
    using copied_cells(4) [OF b] by simp
  have "laid ?tp (pdata q) 0 (cells ?p)"
    by (rule laid_cong [where records = "pdata ?p"]) (use t copied_cells(4) [OF b] in \<open>simp_all add: timers_ok_def\<close>)
  then have "timers_ok ?tp q" using t q(1,2,4) by (simp add: timers_ok_def)
  moreover have "requests_ok tm (request_pool_counter D) q"
    using retimed_requests [OF q(8,1,2)] D by (simp add: reports_ok_def)
  ultimately show ?thesis
    using D retimed_follows(1,2) [OF q(8)] retimed_follows(3) [OF q(8) same] unfolding reports_ok_def by simp
qed

lemma batch_stored:
  fixes env :: batch_env and D :: pinba_daemon
  defines "p \<equiv> request_pool D" and "ie \<equiv> me_ingest (be_merge env)" and "c \<equiv> request_pool_counter D"
  assumes D: "reports_ok (env_hs (be_job env)) (tag_gc_enabled (ie_tags ie)) tm D" and env: "round_env env (timer_pool D)"
    and b: "batch_copied p q c ys (concat copied)" and room: "pinba_pool_num_records p + length ys < psize p"
    and st: "round_staged ie now qs (registry D) ys" and fl: "\<forall>x \<in> set qs. request_floats x"
    and tg: "tags_assured ie (registry D) (\<Sum>q \<leftarrow> qs. length (q_timer_tag_name q))"
    and le: "tv_le tm now" "tv_sec now \<noteq> 0" and size: "round_bounded others D qs"
    and fits: "\<forall>e \<in> set (tag_reports D). \<forall>x \<in> set qs. request_fits x e"
    and live: "ys \<noteq> [] \<or> (\<forall>r \<in> set (base_reports D). tv_sec (start (base_std r)) \<noteq> 0)"
    and D': "D' = batch_publish env copied (D\<lparr>request_pool := q, dictionary := words\<rparr>)"
  shows "reports_ok (env_hs (be_job env)) (tag_gc_enabled (ie_tags ie)) now D' \<and> unused_wordless (request_pool D') \<and>
     stored_words (ring (request_pool D')) = stored_words (ring p) + staged_words ys \<and> dictionary D' = words \<and>
     request_pool_counter D' = c + of_nat (length ys) \<and>
     map request_view (ring (request_pool D')) = map request_view (ring p) @ map (\<lambda>j. request_view (stored (ys ! j) (c + of_nat j))) [0..<length ys]"
proof -
  let ?m = "length ys" and ?D = "D\<lparr>request_pool := q, dictionary := words\<rparr>" and ?g = "registry D"
  have p: "pool_ok p" and g: "registry_ok (tag_gc_enabled (ie_tags ie)) ?g" using D by (simp_all add: reports_ok_def requests_ok_def p_def)
  note q = copied_pool [OF p b]
  have staged: "list_all (staged_ok now) ys" "\<forall>ex \<in> set ys. names_staged ie ?g ex" "subseq (map ex_request ys) qs"
    using st by (simp_all add: round_staged_def)
  note Dq = copied_reports [OF D b [unfolded p_def], of words]
  have "tags_assured ie ?g (\<Sum>ex \<leftarrow> ys. length (q_timer_tag_name (ex_request ex)))"
    using tg subseq_sum_le [OF staged(3), of "\<lambda>q. length (q_timer_tag_name q)"] tags_creatable_less
    by (auto simp: tags_assured_def comp_def)
  note ca = copied_awaits [OF p b staged(1) room staged(2) g this]
  obtain h where h: "registry_ok (tag_gc_enabled (ie_tags ie)) h"
      "batch_timers ie (pdata q) (created (concat copied)) ?g = (map (\<lambda>ex. (ex, timers_due ie (pdata q) h ex)) (created (concat copied)), h)"
      "list_all (awaits_timers ie (pdata q) h (timers_due ie (pdata q) h)) (created (concat copied))"
    using ca(1) by blast
  let ?tsf = "timers_due ie (pdata q) h"
  have j: "?tsf (moved_ex (ys ! j) (advance p (pin p) j)) =
      fst (request_timers ie (ex_request (ys ! j)) (ex_words (ys ! j)) (advance p (pin p) j) h)" if "j < ?m" for j
    by (simp add: timers_due_def ex_timers_def moved_ex_def copied_cells(3) [OF b that] stored_def)
  have "\<exists>rq. reports_ok (env_hs (be_job env)) (tag_gc_enabled (ie_tags ie)) now D' \<and> request_pool D' = publish ?m rq \<and>
      dictionary D' = words \<and> request_pool_counter D' = c + of_nat ?m \<and> rq = q\<lparr>pdata := pdata rq\<rparr> \<and>
      length (pdata rq) = length (pdata q) \<and> (\<forall>i. \<exists>a b. pdata rq ! i = (pdata q ! i)\<lparr>timers_start := a, timers_cnt := b\<rparr>)"
  proof (cases "ys = []")
    case True
    then have "created (concat copied) = []" using copied_cells(2) [OF b] by simp
    from batch_publish_idle [OF Dq this] live True
    have "reports_ok (env_hs (be_job env)) (tag_gc_enabled (ie_tags ie)) tm D'" "request_pool D' = q" "dictionary D' = words" "request_pool_counter D' = c"
      by (simp_all add: D' c_def)
    moreover have "publish ?m q = q" using q(1) True by (simp add: publish_def advance_def pool_ok_def)
    ultimately show ?thesis using reports_ok_later [OF le(1)] retimed_refl True by (intro exI [of _ q]) simp
  next
    case False
    then have m: "0 < ?m" by simp
    have "unat c + ?m < 2 ^ 64" using size list_emb_length [OF staged(3)] by (simp add: round_bounded_def c_def)
    note a = copied_arrived [OF p b staged(1) room le(2) this]
    have due: "concat (map ?tsf (created (concat copied))) =
        concat (map (\<lambda>j. fst (request_timers ie (ex_request (ys ! j)) (ex_words (ys ! j)) (advance p (pin p) j) h)) [0..<?m])"
      unfolding copied_cells(2) [OF b] map_map comp_def using j by (intro arg_cong [where f = concat] map_cong) auto
    have bd: "timers_bounded env (timer_pool D) (concat (map ?tsf (created (concat copied))))"
      unfolding due using due_bounded [OF env staged(1,3)] size by (simp add: round_bounded_def ie_def)
    have fit: "tag_fits (pdata q ! cell_of ex) (?tsf ex) e"
      if e: "e \<in> set (tag_reports D)" and ex: "ex \<in> set (created (concat copied))" for e ex
    proof -
      obtain k where k: "k < ?m" "ex = moved_ex (ys ! k) (advance p (pin p) k)" using ex copied_cells(2) [OF b] by auto
      have s: "staged_ok now (ys ! k)" using staged(1) k(1) by (simp add: list_all_length)
      have "ex_request (ys ! k) \<in> set (map ex_request ys)" using k(1) by simp
      then have "ex_request (ys ! k) \<in> set qs" by (rule subseq_in [OF staged(3)])
      then have "request_fits (ex_request (ys ! k)) e" "request_floats (ex_request (ys ! k))" using fits fl e by blast+
      moreover have "request_valid (ex_request (ys ! k))" "words_named (ex_request (ys ! k)) (ex_words (ys ! k))" "record_ok (stored (ys ! k) (c + of_nat k))"
        using s by (simp_all add: staged_ok_def Let_def words_named_def stored_def record_ok_def)
      ultimately show ?thesis
        using request_fits_timers [OF h(1)] copied_cells(3) [OF b k(1)] j [OF k(1)] k(2) by (simp add: cell_of_def moved_ex_def)
    qed
    have sel: "request_pool ?D = q" "timer_pool ?D = timer_pool D" "registry ?D = ?g" "request_pool_counter ?D = c" "tag_reports ?D = tag_reports D"
      "dictionary ?D = words" by (simp_all add: c_def)
    have ok: "env_ok (be_job env)" using env by (simp add: round_env_def)
    from batch_publish_result [where D = ?D and env = env and copied = copied and tsf = ?tsf and m = ?m,
        unfolded sel ie_def [symmetric], OF Dq a le(1) ok m ca(2) h bd] fit
    show ?thesis unfolding D' by blast
  qed
  then obtain rq where rq: "rq = q\<lparr>pdata := pdata rq\<rparr>" "length (pdata rq) = length (pdata q)"
      "\<forall>i. \<exists>a b. pdata rq ! i = (pdata q ! i)\<lparr>timers_start := a, timers_cnt := b\<rparr>"
    and res: "reports_ok (env_hs (be_job env)) (tag_gc_enabled (ie_tags ie)) now D'" "request_pool D' = publish ?m rq"
      "dictionary D' = words" "request_pool_counter D' = c + of_nat ?m" by blast
  note words = copied_words [OF p b room rq]
  have room': "pinba_pool_num_records q + ?m < psize q" using room q(2,6) by simp
  note r = publish_retimed [OF q(1) room' rq]
  have v: "request_view (pdata rq ! i) = request_view (pdata q ! i)" for i
  proof -
    obtain a b where "pdata rq ! i = (pdata q ! i)\<lparr>timers_start := a, timers_cnt := b\<rparr>" using rq(3) by blast
    then show ?thesis by simp
  qed
  have "cells rq = cells p" using r(3) q(4) by (simp add: retimed_def)
  then have "map request_view (ring (publish ?m rq)) =
      map (\<lambda>i. request_view (pdata q ! i)) (cells p) @ map (\<lambda>i. request_view (pdata q ! i)) (free_cells p ?m)"
    unfolding publish_pool(5) [OF r(1,2)] r(7) q(7) by (simp add: ring_def comp_def v)
  also have "\<dots> = map request_view (ring p) @ map (\<lambda>j. request_view (stored (ys ! j) (c + of_nat j))) [0..<?m]"
    using copied_cells(3,4) [OF b] by (simp add: ring_def comp_def free_cells_def)
  finally show ?thesis using words res by simp
qed

text \<open>The records the workers stage in a round.\<close>

definition round_records :: "batch_env \<Rightarrow> pinba_timeval \<Rightarrow> request_tree option list list \<Rightarrow> pinba_daemon \<Rightarrow> pinba_stats_record_ex list" where
  "round_records env now pools D = concat (fst (stage_jobs (me_ingest (be_merge env)) now pools (dictionary D) (registry D)))"

text \<open>What a round leaves when \<open>ys\<close> of the staged records were stored.\<close>

definition round_stores :: "pinba_stats_record_ex list \<Rightarrow> pinba_daemon \<Rightarrow> pinba_daemon \<Rightarrow> bool" where
  "round_stores ys D D' \<longleftrightarrow>
     request_pool_counter D' = request_pool_counter D + of_nat (length ys) \<and>
     map request_view (ring (request_pool D')) = map request_view (ring (request_pool D)) @
       map (\<lambda>j. request_view (stored (ys ! j) (request_pool_counter D + of_nat j))) [0..<length ys]"

definition free_slots :: "pinba_stats_record pinba_pool \<Rightarrow> nat" where
  "free_slots p = psize p - pinba_pool_num_records p - 1"

lemma stored_round:
  fixes env :: batch_env and D :: pinba_daemon
  defines "p \<equiv> request_pool D" and "ie \<equiv> me_ingest (be_merge env)" and "c \<equiv> request_pool_counter D"
  assumes D: "reports_ok (env_hs (be_job env)) (tag_gc_enabled (ie_tags ie)) tm D" and u: "unused_wordless p"
    and d: "dictionary_ok word_size (others + stored_words (ring p) + staged_words (concat exss)) (dictionary D)"
    and st: "round_staged ie now qs (registry D) (concat exss)" and some: "concat exss \<noteq> []"
    and env: "round_env env (timer_pool D)" and fl: "\<forall>q \<in> set qs. request_floats q" and le: "tv_le tm now" "tv_sec now \<noteq> 0"
    and size: "round_bounded others D qs" and fits: "\<forall>e \<in> set (tag_reports D). \<forall>q \<in> set qs. request_fits q e"
    and tg: "tags_assured ie (registry D) (\<Sum>q \<leftarrow> qs. length (q_timer_tag_name q))"
    and live: "(\<forall>r \<in> set (base_reports D). tv_sec (start (base_std r)) \<noteq> 0) \<or> 0 < free_slots p \<and> (\<forall>t i. be_copy env t i)"
    and job: "copy_jobs (be_copy env) c 0 0 (min (free_slots p) (length (concat exss))) exss p (dictionary D) = (jobs, p1, d1)"
    and comp: "(jobs', q) = (if length (created (concat (map fst jobs))) < length (concat (map fst jobs))
       then compact_jobs c 0 (pin p1) jobs p1 else (jobs, p1))"
    and D1: "D1 = batch_publish env (map fst jobs') (D\<lparr>request_pool := q, dictionary := d1\<rparr>)"
    and D': "D' = D1\<lparr>dictionary := release_slots (concat (map (\<lambda>(copied, rest). copied @ rest) jobs')) (dictionary D1), lost_tmp_records := k\<rparr>"
  shows "daemon_ok (env_hs (be_job env)) word_size (tag_gc_enabled (ie_tags ie)) others now D' \<and>
     (\<exists>ys. subseq ys (concat exss) \<and> round_stores ys D D' \<and>
        ((\<forall>t i. be_copy env t i) \<longrightarrow> length ys = min (free_slots p) (length (concat exss))))"
proof -
  have p: "pool_ok p" using D by (simp add: reports_ok_def requests_ok_def p_def)
  from batch_copy_result [OF p u _ job comp] obtain ys where
      ys: "d1 = dictionary D" "batch_copied p q c ys (concat (map fst jobs'))" "length ys \<le> min (free_slots p) (length (concat exss))"
        "subseq ys (concat exss)"
        "staged_words (concat exss) = staged_words ys + staged_words (concat (map fst jobs')) + staged_words (concat (map snd jobs'))"
        "(\<forall>t i. be_copy env t i) \<longrightarrow> length ys = min (free_slots p) (length (concat exss))"
    unfolding free_slots_def by blast
  have "length ys \<le> free_slots p" using ys(3) by simp
  then have room: "pinba_pool_num_records p + length ys < psize p"
    using num_records_less [OF p] unfolding free_slots_def by linarith
  have "list_all (staged_ok now) ys \<and> (\<forall>ex \<in> set ys. names_staged ie (registry D) ex)"
    using st subseq_in [OF ys(4)] unfolding round_staged_def list_all_iff by blast
  moreover have "subseq (map ex_request ys) qs"
    using subseq_map [OF ys(4), of ex_request] st by (auto simp: round_staged_def intro: subseq_order.trans)
  moreover have "size (staged_words ys) \<le> (\<Sum>q \<leftarrow> qs. n_dictionary q)" using st ys(5) by (simp add: round_staged_def)
  ultimately have st': "round_staged ie now qs (registry D) ys" by (simp add: round_staged_def)
  have live': "ys \<noteq> [] \<or> (\<forall>r \<in> set (base_reports D). tv_sec (start (base_std r)) \<noteq> 0)"
  proof (rule disjE [OF live])
    assume "0 < free_slots p \<and> (\<forall>t i. be_copy env t i)"
    then have "0 < length ys" using ys(6) some by (simp only: simp_thms min_less_iff_conj length_greater_0_conv)
    then show ?thesis by blast
  qed blast
  have D1': "D1 = batch_publish env (map fst jobs') (D\<lparr>request_pool := q, dictionary := dictionary D\<rparr>)" using D1 ys(1) by simp
  from batch_stored [OF D [unfolded ie_def] env ys(2) [unfolded p_def c_def] room [unfolded p_def] st' [unfolded ie_def] fl tg [unfolded ie_def] le size fits live' D1',
      folded p_def c_def ie_def]
  have r: "reports_ok (env_hs (be_job env)) (tag_gc_enabled (ie_tags ie)) now D1" "unused_wordless (request_pool D1)"
      "stored_words (ring (request_pool D1)) = stored_words (ring p) + staged_words ys" "dictionary D1 = dictionary D"
      "request_pool_counter D1 = c + of_nat (length ys)"
      "map request_view (ring (request_pool D1)) = map request_view (ring p) @ map (\<lambda>j. request_view (stored (ys ! j) (c + of_nat j))) [0..<length ys]"
    by blast+
  have "dictionary_ok word_size (others + stored_words (ring (request_pool D1))) (release_slots (concat (map (\<lambda>(copied, rest). copied @ rest) jobs')) (dictionary D))"
    by (rule release_slots_ok) (use d in \<open>simp add: r(3) slots_words ys(5) ac_simps\<close>)
  moreover have "reports_ok (env_hs (be_job env)) (tag_gc_enabled (ie_tags ie)) now D'" using r(1) by (simp add: D' reports_ok_def)
  ultimately have "daemon_ok (env_hs (be_job env)) word_size (tag_gc_enabled (ie_tags ie)) others now D'"
    using r(2,4) by (simp add: daemon_ok_iff) (simp add: D')
  moreover have "round_stores ys D D'" using r(5,6) by (simp add: round_stores_def D' p_def c_def)
  ultimately show ?thesis using ys(4,6) by blast
qed

lemma data_batch_result:
  fixes env :: batch_env and D :: pinba_daemon and pools :: "request_tree option list list"
  defines "ie \<equiv> me_ingest (be_merge env)" and "p \<equiv> request_pool D" and "qs \<equiv> concat (map packet_requests pools)"
  assumes D: "daemon_ok (env_hs (be_job env)) (ie_word_size ie) (tag_gc_enabled (ie_tags ie)) others tm D"
    and le: "tv_le tm now" "tv_sec now \<noteq> 0" and env: "round_env env (timer_pool D)" and size: "round_bounded others D qs"
    and fl: "\<forall>q \<in> set qs. request_floats q" and fits: "\<forall>e \<in> set (tag_reports D). \<forall>q \<in> set qs. request_fits q e"
    and tg: "tags_assured ie (registry D) (\<Sum>q \<leftarrow> qs. length (q_timer_tag_name q))"
    and live: "(\<forall>r \<in> set (base_reports D). tv_sec (start (base_std r)) \<noteq> 0) \<or> 0 < free_slots p \<and> (\<forall>t i. be_copy env t i)"
    and D': "D' = pinba_data_batch env now pools D"
  shows "daemon_ok (env_hs (be_job env)) (ie_word_size ie) (tag_gc_enabled (ie_tags ie)) others now D' \<and>
     (\<exists>ys. subseq ys (round_records env now pools D) \<and> round_stores ys D D' \<and>
        (be_jobs env \<and> (\<forall>t i. be_copy env t i) \<longrightarrow> length ys = min (free_slots p) (length (round_records env now pools D))))"
proof -
  let ?hs = "env_hs (be_job env)" and ?gc = "tag_gc_enabled (ie_tags ie)" and ?ws = "ie_word_size ie" and ?own = "others + stored_words (ring p)"
  have ok: "reports_ok ?hs ?gc tm D" "unused_wordless p" "dictionary_ok ?ws ?own (dictionary D)" "registry_ok ?gc (registry D)" "pool_ok p"
    using D by (simp_all add: daemon_ok_iff p_def reports_ok_def requests_ok_def)
  obtain exss invalid words g where sj: "stage_jobs ie now pools (dictionary D) (registry D) = (exss, invalid, words, g)"
    using prod_cases4 by blast
  let ?exs = "concat exss"
  have recs: "round_records env now pools D = ?exs" using sj by (simp add: round_records_def ie_def)
  have fw: "fresh_words ie" using env by (simp add: round_env_def ie_def)
  have sz: "size ?own + (\<Sum>q \<leftarrow> qs. n_dictionary q) < 2 ^ 64" using size by (simp add: round_bounded_def p_def)
  have staged: "dictionary_ok ?ws (?own + staged_words ?exs) words" "registry_ok ?gc g" "round_staged ie now qs g ?exs" "\<not> admission ie \<longrightarrow> g = registry D"
    using stage_jobs_ok [OF ok(3,4) fw fl [unfolded qs_def] sz [unfolded qs_def] sj] by (simp_all add: qs_def)
  define D0 where "D0 = D\<lparr>dictionary := words, registry := g, invalid_request_data := invalid_request_data D + of_nat invalid\<rparr>"
  have D0: "reports_ok ?hs ?gc tm D0" using ok(1) staged(2) by (simp add: D0_def reports_ok_def)
  have idle: ?thesis
    if "D' = D0\<lparr>dictionary := w\<rparr>" "dictionary_ok ?ws ?own w" "\<not> be_jobs env \<or> ?exs = []" for w
  proof (intro conjI exI [of _ "[]"])
    have "reports_ok ?hs ?gc tm (D0\<lparr>dictionary := w\<rparr>)" using D0 by (simp add: reports_ok_def)
    then show "daemon_ok ?hs ?ws ?gc others now D'"
      using that(1,2) ok(2) reports_ok_later [OF le(1)] by (simp add: daemon_ok_iff p_def) (simp add: D0_def)
    show "round_stores [] D D'" using that(1) by (simp add: round_stores_def D0_def)
    show "be_jobs env \<and> (\<forall>t i. be_copy env t i) \<longrightarrow> length [] = min (free_slots p) (length (round_records env now pools D))"
      unfolding recs by (rule disjE [OF that(3)]) (simp, simp only: list.size min_0R, simp)
  qed simp
  show ?thesis
  proof (cases "(\<Sum>packets \<leftarrow> pools. length packets) = 0")
    case True
    then have "\<forall>packets \<in> set pools. packets = []" by simp
    then have "qs = []" unfolding qs_def by (induction pools) (simp_all add: packet_requests_def)
    then have none: "?exs = []" using staged(3) unfolding round_staged_def by (metis list_emb_Nil2 map_is_Nil_conv)
    have "D' = D" using True by (simp add: D' pinba_data_batch_def)
    moreover have "daemon_ok ?hs ?ws ?gc others now D" using D reports_ok_later [OF le(1)] by (simp add: daemon_ok_iff)
    moreover have "round_stores [] D D" by (simp add: round_stores_def)
    ultimately show ?thesis unfolding recs none by (intro conjI exI [of _ "[]"]) simp_all
  next
    case False
    note batch = D' [unfolded pinba_data_batch_def if_not_P [OF False] ie_def [symmetric] sj prod.case Let_def, folded D0_def]
    consider "length ?exs = 0" | "length ?exs \<noteq> 0" "\<not> be_jobs env" | "length ?exs \<noteq> 0" "be_jobs env" by blast
    then show ?thesis
    proof cases
      case 1
      then have "D' = D0\<lparr>dictionary := words\<rparr>" using batch by (simp add: D0_def)
      moreover have none: "?exs = []" using 1 by (simp only: length_0_conv)
      have "dictionary_ok ?ws ?own words" using staged(1) unfolding none by (simp add: staged_words_def)
      ultimately show ?thesis using idle none by blast
    next
      case 2
      then have "D' = D0\<lparr>dictionary := release_slots ?exs words\<rparr>"
        using batch by (simp only: if_False if_True not_False_eq_True simp_thms)
      then show ?thesis by (rule idle) (use release_slots_ok [OF staged(1)] 2 in simp_all)
    next
      case 3
      have sel: "request_pool D0 = p" "request_pool_counter D0 = request_pool_counter D" "dictionary D0 = words" "registry D0 = g"
        "timer_pool D0 = timer_pool D" "tag_reports D0 = tag_reports D" "base_reports D0 = base_reports D" by (simp_all add: D0_def p_def)
      let ?lost = "if free_slots p < length ?exs then length ?exs - free_slots p else 0"
      have rtc: "(if free_slots p < length ?exs then free_slots p else length ?exs) = min (free_slots p) (length ?exs)" by simp
      obtain jobs p1 d1 where job: "copy_jobs (be_copy env) (request_pool_counter D) 0 0 (min (free_slots p) (length ?exs)) exss p words = (jobs, p1, d1)"
        using prod_cases3 by blast
      obtain jobs' q where comp: "(jobs', q) = (if length (created (concat (map fst jobs))) < length (concat (map fst jobs))
          then compact_jobs (request_pool_counter D) 0 (pin p1) jobs p1 else (jobs, p1))" by (metis surj_pair)
      define D1 where "D1 = batch_publish env (map fst jobs') (D0\<lparr>request_pool := q, dictionary := d1\<rparr>)"
      have res: "D' = D1\<lparr>dictionary := release_slots (concat (map (\<lambda>(copied, rest). copied @ rest) jobs')) (dictionary D1),
          lost_tmp_records := lost_tmp_records D1 + of_nat ?lost\<rparr>"
        using 3 batch unfolding sel free_slots_def [symmetric] rtc job prod.case comp [symmetric] D1_def
        by (simp only: if_False simp_thms)
      have size': "round_bounded others D0 qs" using size by (simp add: round_bounded_def D0_def)
      have tg': "tags_assured ie g (\<Sum>q \<leftarrow> qs. length (q_timer_tag_name q))" using tg staged(4) by (auto simp: tags_assured_def)
      have "?exs \<noteq> []" using 3(1) by blast
      from stored_round [where D = D0 and env = env and exss = exss, unfolded sel ie_def [symmetric],
          OF D0 ok(2) staged(1,3) this env fl le size' fits tg' live job comp D1_def res]
      show ?thesis unfolding recs round_stores_def sel p_def by blast
    qed
  qed
qed

text \<open>
  C2: A round of the data thread keeps the invariant of the daemon. When the daemon was in order
  and the round stays within the sizes of \<open>round_bounded\<close>, then afterwards the pools are rings in
  the order of arrival, every registered report holds the aggregates of exactly the requests the
  pool holds since its start, every timer belongs to its request, the timer tags are counted and
  every reference of the dictionary is owned by a stored request; also when packets are invalid,
  words are refused, records cannot be copied or do not fit, and no room for the timers is found. Tag
  names are either admitted while staging, where they may be refused, or, with the default settings,
  created while merging, which must then succeed. The rows of tag reports and the tag arrays of
  timers must be allocated (\<open>round_env\<close>); while there are timer-tag reports no timer names a tag
  twice and the keys of \<^verbatim>\<open>tagN_report2\<close> fit their buffer (\<open>request_fits\<close>); and while a base report was
  not started the pool has room and copying succeeds. The stored requests are the old ones followed
  by a subsequence of the staged records with consecutive numbers, and all that fit when nothing fails.
\<close>

theorem data_batch_keeps_invariant:
  assumes "daemon_ok (env_hs (be_job env)) (ie_word_size (me_ingest (be_merge env))) (tag_gc_enabled (ie_tags (me_ingest (be_merge env)))) others tm D"
    and "tv_le tm now" and "tv_sec now \<noteq> 0" and "round_env env (timer_pool D)"
    and "round_bounded others D (concat (map packet_requests pools))"
    and "\<forall>q \<in> set (concat (map packet_requests pools)). request_floats q"
    and "\<forall>e \<in> set (tag_reports D). \<forall>q \<in> set (concat (map packet_requests pools)). request_fits q e"
    and "tags_assured (me_ingest (be_merge env)) (registry D) (\<Sum>q \<leftarrow> concat (map packet_requests pools). length (q_timer_tag_name q))"
    and "(\<forall>r \<in> set (base_reports D). tv_sec (start (base_std r)) \<noteq> 0) \<or> 0 < free_slots (request_pool D) \<and> (\<forall>t i. be_copy env t i)"
    and "D' = pinba_data_batch env now pools D"
  shows "daemon_ok (env_hs (be_job env)) (ie_word_size (me_ingest (be_merge env))) (tag_gc_enabled (ie_tags (me_ingest (be_merge env)))) others now D' \<and>
     (\<exists>ys. subseq ys (round_records env now pools D) \<and> round_stores ys D D' \<and>
        (be_jobs env \<and> (\<forall>t i. be_copy env t i) \<longrightarrow>
         length ys = min (free_slots (request_pool D)) (length (round_records env now pools D))))"
  by (rule data_batch_result [OF assms])

definition sample_batch_env :: batch_env where
  "sample_batch_env =
     \<lparr>be_merge = \<lparr>me_ingest = sample_ingest_env, me_cache = True, me_arrays = (\<lambda>_. True)\<rparr>, be_job = sample_env,
      be_copy = (\<lambda>_ _. True), be_jobs = True, be_timer_mem = (\<lambda>_. None)\<rparr>"

text \<open>The same with the settings of a new installation: no collector and no limit for tag names.\<close>

definition default_batch_env :: batch_env where
  "default_batch_env = sample_batch_env\<lparr>be_merge := (be_merge sample_batch_env)\<lparr>me_ingest :=
     sample_ingest_env\<lparr>ie_tags := \<lparr>tag_names_limit = 0, tag_gc_enabled = False\<rparr>\<rparr>\<rparr>\<rparr>"

lemma sample_batch_env_facts:
  "env_hs (be_job sample_batch_env) = 512" "ie_word_size (me_ingest (be_merge sample_batch_env)) = 24"
  "tag_gc_enabled (ie_tags (me_ingest (be_merge sample_batch_env))) = True" "be_copy sample_batch_env t i"
  "0 < free_slots (request_pool sample_daemon)" "tag_reports sample_daemon = []"
  by (simp_all add: sample_batch_env_def sample_env_def sample_ingest_env_def free_slots_def pinba_pool_num_records_def
      sample_daemon_def sample_request_pool_def)

lemma default_batch_env_facts:
  "env_hs (be_job default_batch_env) = 512" "ie_word_size (me_ingest (be_merge default_batch_env)) = 24"
  "tag_gc_enabled (ie_tags (me_ingest (be_merge default_batch_env))) = False" "be_copy default_batch_env t i"
  using sample_batch_env_facts by (simp_all add: default_batch_env_def sample_ingest_env_def)

lemma sample_round_env:
  "round_env sample_batch_env (timer_pool sample_daemon)" "round_env default_batch_env (timer_pool sample_daemon)"
proof -
  show env: "round_env sample_batch_env (timer_pool sample_daemon)"
    using sample_fresh_words
    by (simp add: round_env_def sample_batch_env_def timer_mem_fits_def) (simp add: sample_env_def)
  have "fresh_words (sample_ingest_env\<lparr>ie_tags := x\<rparr>)" for x using sample_fresh_words by (simp add: fresh_words_def)
  then show "round_env default_batch_env (timer_pool sample_daemon)" using env by (simp add: round_env_def default_batch_env_def)
qed

lemma sample_round_size: "round_bounded {#} sample_daemon (packet_requests [None, Some (convert_request sample_packet)])"
  unfolding round_bounded_def
  by (simp add: packet_requests_def sample_packet_def sample_proto_def convert_fields_def Let_def sample_daemon_def sample_timer_pool_def
      sample_request_pool_def timer_growth_def ring_def cells_def stored_words_def sample_timed_def upt_rec)

lemma sample_tags_assured:
  "tags_assured (me_ingest (be_merge sample_batch_env)) g n"
  "tags_assured (me_ingest (be_merge default_batch_env)) (registry sample_daemon)
     (\<Sum>q \<leftarrow> packet_requests [None, Some (convert_request sample_packet)]. length (q_timer_tag_name q))"
proof -
  show "tags_assured (me_ingest (be_merge sample_batch_env)) g n"
    by (simp add: tags_assured_def admission_def sample_batch_env_def sample_ingest_env_def)
  have "(\<Sum>q \<leftarrow> packet_requests [None, Some (convert_request sample_packet)]. length (q_timer_tag_name q)) \<le> 100"
    by (simp add: packet_requests_def sample_packet_def sample_proto_def convert_fields_def Let_def)
  then show "tags_assured (me_ingest (be_merge default_batch_env)) (registry sample_daemon)
     (\<Sum>q \<leftarrow> packet_requests [None, Some (convert_request sample_packet)]. length (q_timer_tag_name q))"
    by (simp add: tags_assured_def tags_creatable_def default_batch_env_def sample_ingest_env_def sample_daemon_def sample_registry_def)
qed

lemma sample_daemon_default: "daemon_ok 512 24 False {#} \<lparr>tv_sec = 9, tv_usec = 0\<rparr> sample_daemon"
proof -
  have "pinba_lmap_get (tag_table sample_registry) i \<noteq> None" if "i < next_id sample_registry" for i
  proof -
    have "unat i < 2" using that by (simp add: sample_registry_def word_less_nat_alt)
    then have "unat i = unat (0 :: u64) \<or> unat i = unat (1 :: u64)" by auto
    then have "i = 0 \<or> i = 1" by (metis word_unat_eq_iff)
    then show ?thesis by (auto simp: sample_registry_def pinba_lmap_get_def)
  qed
  then have "registry_ok False sample_registry" using sample_registry_ok by (simp add: registry_ok_def)
  then have "registry_ok False (registry sample_daemon)" by (simp add: sample_daemon_def)
  then show ?thesis using sample_daemon_ok by (simp add: daemon_ok_iff reports_ok_def)
qed

lemma packet_requests_two: "concat (map packet_requests [ps, []]) = packet_requests ps"
  by (simp add: packet_requests_def)

theorem data_batch_keeps_invariant_witness:
  "daemon_ok 512 24 True {#} \<lparr>tv_sec = 10, tv_usec = 0\<rparr>
     (pinba_data_batch sample_batch_env \<lparr>tv_sec = 10, tv_usec = 0\<rparr> [[None, Some (convert_request sample_packet)], []] sample_daemon) \<and>
   daemon_ok 512 24 False {#} \<lparr>tv_sec = 10, tv_usec = 0\<rparr>
     (pinba_data_batch default_batch_env \<lparr>tv_sec = 10, tv_usec = 0\<rparr> [[None, Some (convert_request sample_packet)], []] sample_daemon)"
proof
  have le: "tv_le \<lparr>tv_sec = 9, tv_usec = 0\<rparr> \<lparr>tv_sec = 10, tv_usec = 0\<rparr>" by (simp add: tv_le_def pinba_timercmp_def)
  note facts = sample_round_size sample_floats sample_batch_env_facts default_batch_env_facts sample_tags_assured
  show "daemon_ok 512 24 True {#} \<lparr>tv_sec = 10, tv_usec = 0\<rparr>
     (pinba_data_batch sample_batch_env \<lparr>tv_sec = 10, tv_usec = 0\<rparr> [[None, Some (convert_request sample_packet)], []] sample_daemon)"
    using data_batch_keeps_invariant [of sample_batch_env, unfolded sample_batch_env_facts, OF sample_daemon_ok le _ sample_round_env(1) _ _ _ _ _ refl,
        of "[[None, Some (convert_request sample_packet)], []]", unfolded packet_requests_two] facts by simp
  show "daemon_ok 512 24 False {#} \<lparr>tv_sec = 10, tv_usec = 0\<rparr>
     (pinba_data_batch default_batch_env \<lparr>tv_sec = 10, tv_usec = 0\<rparr> [[None, Some (convert_request sample_packet)], []] sample_daemon)"
    using data_batch_keeps_invariant [of default_batch_env, unfolded default_batch_env_facts, OF sample_daemon_default le _ sample_round_env(2) _ _ _ _ _ refl,
        of "[[None, Some (convert_request sample_packet)], []]", unfolded packet_requests_two] facts by simp
qed

end
