(* ===== verification/Daemon_Run.thy ===== *)
theory Daemon_Run
  imports Batch_Correct
begin

text \<open>
  Runs of the daemon: rounds of the data thread, rounds of the statistics thread, sweeps of the
  collectors and new reports, in any order. Each holds the collector lock, so a run is a sequence
  of them.
\<close>

section \<open>The sweep\<close>

fun tag_entry_ids :: "tag_entry \<Rightarrow> int list" where
  "tag_entry_ids (Tag_info shape R) = tg_tag_id R"
| "tag_entry_ids (Tag_report shape two R) = tg_tag_id R"

text \<open>
  What the statistics thread does once a second, whether requests arrive or not; \<open>room\<close> says whether
  the selectors of the reports can be collected.
\<close>

definition pinba_stats_sweep :: "u64 \<Rightarrow> tag_settings \<Rightarrow> bool \<Rightarrow> pinba_daemon \<Rightarrow> pinba_daemon" where
  "pinba_stats_sweep word_size settings room D =
     (let d = snd (pinba_dictionary_collect word_size (dictionary D));
          selectors = (if room then Some (concat (map tag_entry_ids (tag_reports D))) else None)
      in D\<lparr>dictionary := d, registry := pinba_collect_unused_tags settings d selectors (registry D)\<rparr>)"

lemma collect_registry:
  assumes "registry_ok (tag_gc_enabled settings) g"
  shows "registry_ok (tag_gc_enabled settings) (pinba_collect_unused_tags settings d sel g)"
proof (cases "tag_gc_enabled settings")
  case True
  then have live: "map_of (live_ids g) = pinba_lmap_get (tag_table g)" "distinct (map fst (live_ids g))"
    using assms by (simp_all add: registry_ok_def)
  have "\<forall>(i, t) \<in> set (live_ids g). pinba_lmap_get (tag_table g) i = Some t"
    using map_of_is_SomeI [OF live(2)] live(1) by auto
  then show ?thesis
    using collect_loop_ok [OF _ live(2)] assms True by (auto simp: pinba_collect_unused_tags_def split: option.split)
qed (use assms in \<open>simp add: pinba_collect_unused_tags_def\<close>)

lemma sweep_ok:
  assumes "daemon_ok hs word_size (tag_gc_enabled settings) others tm D"
  shows "daemon_ok hs word_size (tag_gc_enabled settings) others tm (pinba_stats_sweep word_size settings room D)"
proof -
  have "dictionary_ok word_size (others + stored_words (ring (request_pool D))) (dictionary D)" "reports_ok hs (tag_gc_enabled settings) tm D"
    using assms by (simp_all add: daemon_ok_iff)
  then have "dictionary_ok word_size (others + stored_words (ring (request_pool D))) (snd (pinba_dictionary_collect word_size (dictionary D)))"
    using collect_result by (auto simp: split_beta)
  then show ?thesis
    using assms collect_registry by (simp add: daemon_ok_iff reports_ok_def pinba_stats_sweep_def Let_def)
qed

section \<open>New reports\<close>

definition new_base_report :: "pinba_report_type \<Rightarrow> pinba_report \<Rightarrow> bool" where
  "new_base_report t R \<longleftrightarrow> (t = PINBA_TABLE_REPORT_INFO \<or> base_type t) \<and> fresh_report R \<and> tv_sec (start (std R)) = 0"

lemma register_ok:
  assumes "daemon_ok hs word_size gc others tm D" and new: "new_base_report t R"
  shows "daemon_ok hs word_size gc others tm (D\<lparr>base_reports := base_reports D @ [(t, R)]\<rparr>)"
proof -
  have "report_window (\<lambda>i. request_view) (std R) p = []" for p
    using new by (simp add: new_base_report_def report_window_def report_cells_def taken_def)
  then have "base_follows hs (request_pool D) (t, R)"
    using new fresh_models [of R] by (auto simp: new_base_report_def Let_def)
  then show ?thesis using assms by (auto simp: daemon_ok_def started_before_def new_base_report_def)
qed

text \<open>
  The same for the other two families: a request-tag report names at least one tag, and a timer-tag
  report must fit the timers that are stored.
\<close>

fun new_rtag_report :: "rtag_entry \<Rightarrow> bool" where
  "new_rtag_report (Rtag_info t R) \<longleftrightarrow> rt_tags R \<noteq> [] \<and> fresh_rtag R \<and> tv_sec (start (rt_std R)) = 0"
| "new_rtag_report (Rtag_report t R) \<longleftrightarrow> rt_tags R \<noteq> [] \<and> fresh_rtag R \<and> tv_sec (start (rt_std R)) = 0"

fun new_tag_report :: "tag_entry \<Rightarrow> bool" where
  "new_tag_report (Tag_info shape R) \<longleftrightarrow> fresh_tag_report shape R \<and> tv_sec (start (tg_std R)) = 0"
| "new_tag_report (Tag_report shape two R) \<longleftrightarrow> fresh_tag_report shape R \<and> tv_sec (start (tg_std R)) = 0"

lemma register_rtag_ok:
  assumes "daemon_ok hs word_size gc others tm D" and new: "new_rtag_report e"
  shows "daemon_ok hs word_size gc others tm (D\<lparr>rtag_reports := rtag_reports D @ [e]\<rparr>)"
proof -
  have "report_window (\<lambda>i. request_view) s p = []" if "tv_sec (start s) = 0" for s p
    using that by (simp add: report_window_def report_cells_def taken_def)
  then have "rtag_follows hs (request_pool D) e"
    using new fresh_rtag_models by (cases e) (auto simp: Let_def)
  moreover have "started_before tm (request_pool_counter D) (rtag_std_of e)"
    using new by (cases e) (auto simp: started_before_def)
  ultimately show ?thesis using assms by (auto simp: daemon_ok_def)
qed

lemma register_tag_ok:
  assumes "daemon_ok hs word_size gc others tm D" and new: "new_tag_report e" and fits: "tags_fit (timer_pool D) (request_pool D) e"
  shows "daemon_ok hs word_size gc others tm (D\<lparr>tag_reports := tag_reports D @ [e]\<rparr>)"
proof -
  have "report_window (timer_item (timer_pool D)) s p = []" if "tv_sec (start s) = 0" for s p
    using that by (simp add: report_window_def report_cells_def taken_def)
  then have "tag_follows hs (timer_pool D) (request_pool D) e"
    using new fresh_tag_models by (cases e) (auto simp: Let_def fresh_tag_report_def)
  moreover have "started_before tm (request_pool_counter D) (tag_std_of e)"
    using new by (cases e) (auto simp: started_before_def)
  ultimately show ?thesis using assms fits by (auto simp: daemon_ok_def)
qed

section \<open>Runs\<close>

text \<open>
  The conditions of a round of the data thread; \<open>others\<close> own words besides the stored requests. Tag names are
  admitted or can all be created, rows of tag reports and tag arrays of timers are allocated, no timer
  names a tag twice as long as there are timer-tag reports, and the round stays within bounds.
\<close>

definition round_allowed ::
  "u64 \<Rightarrow> u64 \<Rightarrow> bool \<Rightarrow> nat multiset \<Rightarrow> pinba_timeval \<Rightarrow> pinba_timeval \<Rightarrow> batch_env \<Rightarrow> request_tree option list list \<Rightarrow> pinba_daemon \<Rightarrow> bool" where
  "round_allowed hs word_size gc others tm now env pools D \<longleftrightarrow>
     env_hs (be_job env) = hs \<and> ie_word_size (me_ingest (be_merge env)) = word_size \<and> tag_gc_enabled (ie_tags (me_ingest (be_merge env))) = gc \<and>
     tv_le tm now \<and> tv_sec now \<noteq> 0 \<and> round_env env (timer_pool D) \<and> round_bounded others D (concat (map packet_requests pools)) \<and>
     (\<forall>q \<in> set (concat (map packet_requests pools)). request_floats q) \<and>
     (\<forall>e \<in> set (tag_reports D). \<forall>q \<in> set (concat (map packet_requests pools)). request_fits q e) \<and>
     tags_assured (me_ingest (be_merge env)) (registry D) (\<Sum>q \<leftarrow> concat (map packet_requests pools). length (q_timer_tag_name q)) \<and>
     ((\<forall>r \<in> set (base_reports D). tv_sec (start (base_std r)) \<noteq> 0) \<or> 0 < free_slots (request_pool D) \<and> (\<forall>t i. be_copy env t i))"

inductive daemon_run ::
  "u64 \<Rightarrow> u64 \<Rightarrow> bool \<Rightarrow> nat multiset \<Rightarrow> pinba_timeval \<Rightarrow> pinba_daemon \<Rightarrow> pinba_timeval \<Rightarrow> pinba_daemon \<Rightarrow> bool"
  for hs :: u64 and word_size :: u64 and gc :: bool and others :: "nat multiset" and tm0 :: pinba_timeval and D0 :: pinba_daemon where
  start: "daemon_run hs word_size gc others tm0 D0 tm0 D0"
| batch: "daemon_run hs word_size gc others tm0 D0 tm D \<Longrightarrow> round_allowed hs word_size gc others tm now env pools D \<Longrightarrow>
    daemon_run hs word_size gc others tm0 D0 now (pinba_data_batch env now pools D)"
| expire: "daemon_run hs word_size gc others tm0 D0 tm D \<Longrightarrow> env_hs e = hs \<Longrightarrow> 0 < threads \<Longrightarrow>
    stored_tags (ring (timer_pool D)) < 2 ^ 32 \<Longrightarrow> pinba_stats_expire e threads since D = Some D' \<Longrightarrow>
    daemon_run hs word_size gc others tm0 D0 tm D'"
| sweep: "daemon_run hs word_size gc others tm0 D0 tm D \<Longrightarrow> tag_gc_enabled settings = gc \<Longrightarrow>
    daemon_run hs word_size gc others tm0 D0 tm (pinba_stats_sweep word_size settings room D)"
| register: "daemon_run hs word_size gc others tm0 D0 tm D \<Longrightarrow> new_base_report t R \<Longrightarrow>
    daemon_run hs word_size gc others tm0 D0 tm (D\<lparr>base_reports := base_reports D @ [(t, R)]\<rparr>)"
| register_rtag: "daemon_run hs word_size gc others tm0 D0 tm D \<Longrightarrow> new_rtag_report r \<Longrightarrow>
    daemon_run hs word_size gc others tm0 D0 tm (D\<lparr>rtag_reports := rtag_reports D @ [r]\<rparr>)"
| register_tag: "daemon_run hs word_size gc others tm0 D0 tm D \<Longrightarrow> new_tag_report r \<Longrightarrow> tags_fit (timer_pool D) (request_pool D) r \<Longrightarrow>
    daemon_run hs word_size gc others tm0 D0 tm (D\<lparr>tag_reports := tag_reports D @ [r]\<rparr>)"

inductive_cases daemon_runE: "daemon_run hs word_size gc others tm0 D0 tm D"

lemma run_ok:
  assumes "daemon_run hs word_size gc others tm0 D0 tm D" and "daemon_ok hs word_size gc others tm0 D0"
  shows "daemon_ok hs word_size gc others tm D"
  using assms
proof (induction rule: daemon_run.induct)
  case (batch tm D now env pools)
  then have "daemon_ok hs word_size gc others tm D" by blast
  then show ?case
    using batch.hyps(2) data_batch_result [of env others tm D now pools, OF _ _ _ _ _ _ _ _ _ refl]
    unfolding round_allowed_def by blast
next
  case (expire tm D e threads since D')
  then show ?case using stats_expire_result [of e word_size gc others tm D threads since] by auto
next
  case (sweep tm D settings room)
  then show ?case using sweep_ok by blast
next
  case (register tm D t R)
  then show ?case using register_ok by blast
next
  case (register_rtag tm D r)
  then show ?case using register_rtag_ok by blast
next
  case (register_tag tm D r)
  then show ?case using register_tag_ok by blast
qed


text \<open>A run over all kinds of steps, from the sample daemon.\<close>

definition sample_round :: "pinba_daemon \<Rightarrow> pinba_daemon" where
  "sample_round D =
     pinba_data_batch sample_batch_env \<lparr>tv_sec = 10, tv_usec = 0\<rparr> [[None, Some (convert_request sample_packet)], []] D"

lemma sample_run:
  "daemon_run 512 24 True {#} \<lparr>tv_sec = 9, tv_usec = 0\<rparr> sample_daemon \<lparr>tv_sec = 10, tv_usec = 0\<rparr>
     (pinba_stats_sweep 24 \<lparr>tag_names_limit = 9, tag_gc_enabled = True\<rparr> True (sample_round sample_daemon))"
proof -
  have "round_allowed 512 24 True {#} \<lparr>tv_sec = 9, tv_usec = 0\<rparr> \<lparr>tv_sec = 10, tv_usec = 0\<rparr> sample_batch_env
      [[None, Some (convert_request sample_packet)], []] sample_daemon"
    unfolding round_allowed_def packet_requests_two sample_batch_env_facts
    using sample_round_env(1) sample_round_size sample_floats sample_batch_env_facts(4,5) sample_tags_assured(1) by (auto simp: tv_le_def pinba_timercmp_def)
  then have "daemon_run 512 24 True {#} \<lparr>tv_sec = 9, tv_usec = 0\<rparr> sample_daemon \<lparr>tv_sec = 10, tv_usec = 0\<rparr> (sample_round sample_daemon)"
    unfolding sample_round_def by (rule daemon_run.batch [OF daemon_run.start])
  then show ?thesis by (rule daemon_run.sweep) simp
qed


lemma no_totals: "totals_agg t [] \<Longrightarrow> t = zero_totals"
  by (cases t) (simp add: totals_agg_def zero_totals_def)

text \<open>
  C3: Nothing leaks. In every run (as above) in which only stored requests own words, a round of the
  statistics thread with a limit that all stored requests have passed completes, for any number
  of threads, and leaves no request, no timer and no timer tag; every base report is back to
  zero; and the sweep after it frees every word of the dictionary.
\<close>

theorem daemon_run_drains:
  assumes "daemon_run (env_hs e) word_size gc {#} tm0 D0 tm D" and "daemon_ok (env_hs e) word_size gc {#} tm0 D0"
    and "0 < threads" and "stored_tags (ring (timer_pool D)) < 2 ^ 32" and "\<forall>r \<in> set (ring (request_pool D)). expired since r"
  shows "\<exists>D'. pinba_stats_expire e threads since D = Some D' \<and> ring (request_pool D') = [] \<and> ring (timer_pool D') = [] \<and>
     timertags_cnt D' = 0 \<and> (\<forall>(t, R) \<in> set (base_reports D'). totals R = zero_totals) \<and>
     words_of (dictionary (pinba_stats_sweep word_size settings room D')) = []"
proof -
  have ok: "daemon_ok (env_hs e) word_size gc {#} tm D" by (rule run_ok [OF assms(1,2)])
  obtain D' where D': "pinba_stats_expire e threads since D = Some D'" and ok': "daemon_ok (env_hs e) word_size gc {#} tm D'"
    and "ring (request_pool D') = dropWhile (expired since) (ring (request_pool D))"
    using stats_expire_result [OF ok assms(3,4), of since] by blast
  then have none: "ring (request_pool D') = []" using assms(5) by (simp add: dropWhile_eq_Nil_conv)
  then have cells: "cells (request_pool D') = []" by (simp add: ring_def)
  have tk: "timers_ok (timer_pool D') (request_pool D')" "pool_ok (timer_pool D')" using ok' by (simp_all add: daemon_ok_def timers_ok_def)
  then have "pinba_pool_num_records (timer_pool D') = 0" unfolding timers_ok_def cells by simp
  then have timers: "ring (timer_pool D') = []" using length_ring [OF tk(2)] by simp
  have "timertags_cnt D' = 0" using ok' timers by (simp add: daemon_ok_def stored_tags_def)
  moreover have "report_window item s (request_pool D') = []" for item :: "nat \<Rightarrow> pinba_stats_record \<Rightarrow> pinba_stats_record" and s
    using cells by (simp add: report_window_def report_cells_def taken_def)
  then have "\<forall>(t, R) \<in> set (base_reports D'). totals R = zero_totals"
    using ok' no_totals by (auto simp: daemon_ok_def Let_def base_models_def info_models_def split: if_splits)
  moreover have "dictionary_ok word_size {#} (dictionary D')" using ok' none by (simp add: daemon_ok_def stored_words_def)
  from collect_result [OF this] have "words_of (dictionary (pinba_stats_sweep word_size settings room D')) = []"
    by (simp add: pinba_stats_sweep_def Let_def split_beta)
  ultimately show ?thesis using D' none timers by blast
qed

theorem daemon_run_drains_witness:
  "\<exists>D'. pinba_stats_expire sample_env 3 \<lparr>tv_sec = 20, tv_usec = 0\<rparr> sample_daemon = Some D' \<and> ring (request_pool D') = [] \<and>
     words_of (dictionary (pinba_stats_sweep 24 \<lparr>tag_names_limit = 9, tag_gc_enabled = True\<rparr> True D')) = []"
proof -
  have hs: "env_hs sample_env = 512" by (simp add: sample_env_def)
  have small: "stored_tags (ring (timer_pool sample_daemon)) < 2 ^ 32"
    by (simp add: stored_tags_def ring_def cells_def sample_timer_pool_def sample_mark_def upt_rec sample_daemon_def)
  have "\<forall>r \<in> set (ring (request_pool sample_daemon)). expired \<lparr>tv_sec = 20, tv_usec = 0\<rparr> r"
    by (simp add: ring_def sample_daemon_def sample_request_pool_def cells_def upt_rec expired_def pinba_timercmp_def sample_timed_def)
  from daemon_run_drains [OF daemon_run.start sample_daemon_ok [folded hs] _ small this, of 3 "\<lparr>tag_names_limit = 9, tag_gc_enabled = True\<rparr>" True] show ?thesis by auto
qed

end
