(* ===== verification/Table_Comments.thy ===== *)
theory Table_Comments
  imports Percentile Report_Keys
begin

text \<open>
  Table comments (\<^verbatim>\<open>src/ha_pinba.cc\<close>): the type of a table is the name before the first colon of
  its comment, then follow parameters, conditions and percentiles, each separated by commas. A
  comment is a C string, so it has no NUL; pointers into it are the rest of the string they point
  to.
\<close>

section \<open>The type of a table\<close>

text \<open>The names of the \<^verbatim>\<open>switch\<close>, by their length and in the order of the code.\<close>

definition table_names :: "nat \<Rightarrow> (string \<times> pinba_report_type \<times> pinba_report_kind) list" where
  "table_names len =
     (if len = 12 then
        [(''rtag2_report'', PINBA_TABLE_RTAG2_REPORT, PINBA_RTAG_REPORT_KIND),
         (''rtagN_report'', PINBA_TABLE_RTAGN_REPORT, PINBA_RTAG_REPORT_KIND),
         (''tag2_report2'', PINBA_TABLE_TAG2_REPORT2, PINBA_TAG_REPORT_KIND),
         (''tagN_report2'', PINBA_TABLE_TAGN_REPORT2, PINBA_TAG_REPORT_KIND)]
      else if len = 11 then
        [(''rtag_report'', PINBA_TABLE_RTAG_REPORT, PINBA_RTAG_REPORT_KIND),
         (''tag2_report'', PINBA_TABLE_TAG2_REPORT, PINBA_TAG_REPORT_KIND),
         (''tag_report2'', PINBA_TABLE_TAG_REPORT2, PINBA_TAG_REPORT_KIND),
         (''tagN_report'', PINBA_TABLE_TAGN_REPORT, PINBA_TAG_REPORT_KIND)]
      else if len = 10 then
        [(''rtag2_info'', PINBA_TABLE_RTAG2_INFO, PINBA_RTAG_REPORT_KIND),
         (''rtagN_info'', PINBA_TABLE_RTAGN_INFO, PINBA_RTAG_REPORT_KIND),
         (''tag_report'', PINBA_TABLE_TAG_REPORT, PINBA_TAG_REPORT_KIND)]
      else if len = 9 then
        [(''rtag_info'', PINBA_TABLE_RTAG_INFO, PINBA_RTAG_REPORT_KIND),
         (''tag2_info'', PINBA_TABLE_TAG2_INFO, PINBA_TAG_REPORT_KIND),
         (''tagN_info'', PINBA_TABLE_TAGN_INFO, PINBA_TAG_REPORT_KIND)]
      else if len = 8 then
        [(''timertag'', PINBA_TABLE_TIMERTAG, PINBA_TAG_REPORT_KIND),
         (''tag_info'', PINBA_TABLE_TAG_INFO, PINBA_TAG_REPORT_KIND),
         (''report10'', PINBA_TABLE_REPORT10, PINBA_BASE_REPORT_KIND),
         (''report11'', PINBA_TABLE_REPORT11, PINBA_BASE_REPORT_KIND),
         (''report12'', PINBA_TABLE_REPORT12, PINBA_BASE_REPORT_KIND),
         (''report13'', PINBA_TABLE_REPORT13, PINBA_BASE_REPORT_KIND),
         (''report14'', PINBA_TABLE_REPORT14, PINBA_BASE_REPORT_KIND),
         (''report15'', PINBA_TABLE_REPORT15, PINBA_BASE_REPORT_KIND),
         (''report16'', PINBA_TABLE_REPORT16, PINBA_BASE_REPORT_KIND),
         (''report17'', PINBA_TABLE_REPORT17, PINBA_BASE_REPORT_KIND),
         (''report18'', PINBA_TABLE_REPORT18, PINBA_BASE_REPORT_KIND)]
      else if len = 7 then
        [(''request'', PINBA_TABLE_REQUEST, PINBA_BASE_REPORT_KIND),
         (''report1'', PINBA_TABLE_REPORT1, PINBA_BASE_REPORT_KIND),
         (''report2'', PINBA_TABLE_REPORT2, PINBA_BASE_REPORT_KIND),
         (''report3'', PINBA_TABLE_REPORT3, PINBA_BASE_REPORT_KIND),
         (''report4'', PINBA_TABLE_REPORT4, PINBA_BASE_REPORT_KIND),
         (''report5'', PINBA_TABLE_REPORT5, PINBA_BASE_REPORT_KIND),
         (''report6'', PINBA_TABLE_REPORT6, PINBA_BASE_REPORT_KIND),
         (''report7'', PINBA_TABLE_REPORT7, PINBA_BASE_REPORT_KIND),
         (''report8'', PINBA_TABLE_REPORT8, PINBA_BASE_REPORT_KIND),
         (''report9'', PINBA_TABLE_REPORT9, PINBA_BASE_REPORT_KIND)]
      else if len = 14 then [(''active_reports'', PINBA_TABLE_ACTIVE_REPORTS, PINBA_BASE_REPORT_KIND)]
      else if len = 6 then [(''status'', PINBA_TABLE_STATUS, PINBA_BASE_REPORT_KIND)]
      else if len = 5 then [(''timer'', PINBA_TABLE_TIMER, PINBA_BASE_REPORT_KIND)]
      else if len = 4 then [(''info'', PINBA_TABLE_REPORT_INFO, PINBA_BASE_REPORT_KIND)]
      else if len = 3 then [(''tag'', PINBA_TABLE_TAG, PINBA_BASE_REPORT_KIND)]
      else [])"

text \<open>The comparisons of one case: each that matches sets type and kind.\<close>

definition match_names ::
  "string \<Rightarrow> (string \<times> pinba_report_type \<times> pinba_report_kind) list \<Rightarrow>
   pinba_report_type \<times> pinba_report_kind \<Rightarrow> pinba_report_type \<times> pinba_report_kind" where
  "match_names str names init = fold (\<lambda>(name, t, k) res. if str = name then (t, k) else res) names init"

definition table_type_of_name :: "string \<Rightarrow> pinba_report_type \<times> pinba_report_kind" where
  "table_type_of_name name =
     (let histogram = (length name > 3 \<and> take 3 name = ''hv.'');
          name = (if histogram then drop 3 name else name)
      in case match_names name (table_names (length name)) (PINBA_TABLE_UNKNOWN, PINBA_BASE_REPORT_KIND) of
           (t, k) \<Rightarrow> (if histogram then PINBA_TABLE_HISTOGRAM_VIEW else t, k))"

definition pinba_get_table_type :: "string \<Rightarrow> pinba_report_type \<times> pinba_report_kind" where
  "pinba_get_table_type str =
     (if str = [] then (PINBA_TABLE_UNKNOWN, PINBA_BASE_REPORT_KIND)
      else table_type_of_name (takeWhile (\<lambda>c. c \<noteq> CHR '':'') str))"

section \<open>Parameters\<close>

text \<open>
  \<^verbatim>\<open>PINBA_SHARE\<close>: what is known of an open table. The arrays \<^verbatim>\<open>cond_names\<close> and \<^verbatim>\<open>cond_values\<close> grow
  together and are one list of pairs; the counts are fields of their own, because a comment that
  is refused leaves arrays behind whose counts were not set.
\<close>

record pinba_share =
  table_name :: string
  use_count :: u32
  table_type :: pinba_report_type
  hv_table_type :: pinba_report_type
  params :: "string list"
  params_num :: nat
  conds :: "(string \<times> string) list"
  cond_num :: nat
  percentiles :: "pinba_percentile list"
  percentiles_num :: nat
  share_index :: string
  share_kind :: pinba_report_kind

definition zero_share :: pinba_share where
  "zero_share =
     \<lparr>table_name = [], use_count = 0, table_type = PINBA_TABLE_UNKNOWN, hv_table_type = PINBA_TABLE_UNKNOWN,
      params = [], params_num = 0, conds = [], cond_num = 0, percentiles = [], percentiles_num = 0,
      share_index = [], share_kind = PINBA_BASE_REPORT_KIND\<rparr>"

text \<open>\<^verbatim>\<open>strchr\<close>: the string before the first \<open>c\<close> and the string after it, if there is one.\<close>

definition c_split :: "char \<Rightarrow> string \<Rightarrow> string \<times> string option" where
  "c_split c s =
     (if c \<in> set s then (takeWhile (\<lambda>x. x \<noteq> c) s, Some (tl (dropWhile (\<lambda>x. x \<noteq> c) s))) else (s, None))"

lemma c_split_length: "(x, Some t) = c_split c s \<Longrightarrow> length t < length s"
proof -
  assume "(x, Some t) = c_split c s"
  then have "c \<in> set s" "t = tl (dropWhile (\<lambda>x. x \<noteq> c) s)" by (auto simp: c_split_def split: if_splits)
  then show ?thesis
    using length_dropWhile_le [of "\<lambda>x. x \<noteq> c" s] by (cases s) (auto simp: less_Suc_eq_le intro: le_trans diff_le_self)
qed

lemma c_split_append: "c \<notin> set x \<Longrightarrow> c_split c (x @ c # t) = (x, Some t)"
  by (induction x) (auto simp: c_split_def)

lemma c_split_none: "c \<notin> set x \<Longrightarrow> c_split c x = (x, None)"
  by (simp add: c_split_def)

text \<open>The loop over the parameters; it is entered when there is a comma.\<close>

function param_loop :: "string \<Rightarrow> string list \<Rightarrow> bool \<times> string list \<times> string" where
  "param_loop p acc =
     (case c_split CHR '','' p of
        (x, None) \<Rightarrow> (True, acc, p)
      | (x, Some rest) \<Rightarrow>
          if x = [] then (False, acc, p)
          else if rest \<noteq> [] \<and> CHR '','' \<in> set rest then param_loop rest (acc @ [x])
          else (True, acc @ [x], rest))"
  by auto
termination by (relation "measure (\<lambda>(p, acc). length p)") (auto dest: c_split_length)

text \<open>
  All parameters. Without a share the last one is not counted.
\<close>

definition parse_params :: "bool \<Rightarrow> string \<Rightarrow> bool \<times> string list" where
  "parse_params parse_only ps =
     (if CHR '','' \<notin> set ps then (True, if ps \<noteq> [] then [ps] else [])
      else case param_loop ps [] of
             (ok, acc, rest) \<Rightarrow> (ok, if ok \<and> \<not> parse_only \<and> rest \<noteq> [] then acc @ [rest] else acc))"

function cond_loop :: "string \<Rightarrow> (string \<times> string) list \<Rightarrow> bool \<times> (string \<times> string) list" where
  "cond_loop p acc =
     (if p = [] then (True, acc)
      else case c_split CHR '','' p of
             (item, rest) \<Rightarrow>
               (case c_split CHR ''='' item of
                  (name, None) \<Rightarrow> (False, acc)
                | (name, Some value) \<Rightarrow>
                    if name = ''histogram_max_time'' \<and> pinba_parse_histogram_max value = None then (False, acc)
                    else cond_loop (case rest of None \<Rightarrow> [] | Some p \<Rightarrow> p) (acc @ [(name, value)])))"
  by auto
termination by (relation "measure (\<lambda>(p, acc). length p)") (auto dest: c_split_length split: option.splits)

text \<open>\<^verbatim>\<open>strtol\<close> in base 10.\<close>

definition LONG_MAX :: int where [simp]: "LONG_MAX = 2 ^ 63 - 1"

definition strtol10 :: "string \<Rightarrow> int" where
  "strtol10 s =
     (let t = dropWhile is_space s;
          neg = (t \<noteq> [] \<and> hd t = CHR ''-'');
          u = (if t \<noteq> [] \<and> (hd t = CHR ''-'' \<or> hd t = CHR ''+'') then tl t else t);
          v = int (digits_val (takeWhile is_digit u))
      in if neg then max (- LONG_MAX - 1) (- v) else min LONG_MAX v)"

definition one_percentile :: "bool \<Rightarrow> string \<Rightarrow> string option \<Rightarrow> pinba_percentile option" where
  "one_percentile fractional item rest =
     (if fractional then (if rest = Some [] then None else pinba_parse_fractional_percentile item)
      else let value = strtol10 item
           in if value \<le> 0 \<or> value > 100 then None
              else Some \<lparr>pvalue = FNum (of_int value), numerator = 0, denominator = 0\<rparr>)"

text \<open>\<open>mem n\<close> says whether the array can grow to hold percentile \<open>n\<close>; nothing is stored without a share.\<close>

function percentile_loop ::
  "(nat \<Rightarrow> bool) \<Rightarrow> bool \<Rightarrow> bool \<Rightarrow> string \<Rightarrow> pinba_percentile list \<Rightarrow> bool \<times> pinba_percentile list" where
  "percentile_loop mem parse_only fractional p acc =
     (if p = [] then (True, acc)
      else case c_split CHR '','' p of
             (item, rest) \<Rightarrow>
               (case one_percentile fractional item rest of
                  None \<Rightarrow> (False, acc)
                | Some percentile \<Rightarrow>
                    if \<not> parse_only \<and> \<not> mem (length acc) then (False, acc)
                    else percentile_loop mem parse_only fractional (case rest of None \<Rightarrow> [] | Some p \<Rightarrow> p)
                           (if parse_only then acc else acc @ [percentile])))"
  by auto
termination by (relation "measure (\<lambda>(mem, po, f, p, acc). length p)") (auto dest: c_split_length split: option.splits)

definition parse_percentiles ::
  "(nat \<Rightarrow> bool) \<Rightarrow> bool \<Rightarrow> string \<Rightarrow> pinba_percentile list \<Rightarrow> bool \<times> pinba_percentile list" where
  "parse_percentiles mem parse_only p acc =
     (let fractional = (take 2 p = ''p=''); p = (if fractional then drop 2 p else p)
      in if fractional \<and> p = [] then (False, acc) else percentile_loop mem parse_only fractional p acc)"

text \<open>
  The comment after the type. Without a share it is only checked (\<^verbatim>\<open>parse_only\<close>). The result is the
  number of parameters, negative when the comment is refused.
\<close>

definition parse_sections ::
  "(nat \<Rightarrow> bool) \<Rightarrow> bool \<Rightarrow> string \<Rightarrow> pinba_share \<Rightarrow> int \<times> pinba_share" where
  "parse_sections mem parse_only str share =
     (case c_split CHR '':'' str of
        (_, None) \<Rightarrow> (0, share)
      | (_, Some rest) \<Rightarrow>
          if rest = [] then (- 1, share)
          else
            case c_split CHR '':'' rest of
              (ps, rest1) \<Rightarrow>
                (case parse_params parse_only ps of
                   (False, acc) \<Rightarrow> (- 1, share\<lparr>params := acc\<rparr>)
                 | (True, acc) \<Rightarrow>
                     let num = int (length acc); share = share\<lparr>params := acc, params_num := length acc\<rparr>
                     in case rest1 of
                          None \<Rightarrow> (num, share)
                        | Some rest1 \<Rightarrow>
                            (case c_split CHR '':'' rest1 of
                               (cs, rest2) \<Rightarrow>
                                 (case cond_loop cs [] of
                                    (False, acc) \<Rightarrow> (- 1, share\<lparr>conds := acc\<rparr>)
                                  | (True, acc) \<Rightarrow>
                                      let share = share\<lparr>conds := acc, cond_num := length acc\<rparr>
                                      in case rest2 of
                                           None \<Rightarrow> (num, share)
                                         | Some rest2 \<Rightarrow>
                                             (case parse_percentiles mem parse_only rest2 (percentiles share) of
                                                (ok, acc) \<Rightarrow>
                                                  (if ok then num else - 1,
                                                   share\<lparr>percentiles := acc, percentiles_num := length acc\<rparr>))))))"

definition pinba_parse_params ::
  "(nat \<Rightarrow> bool) \<Rightarrow> string \<Rightarrow> pinba_report_type \<Rightarrow> pinba_share option \<Rightarrow> int \<times> pinba_share option" where
  "pinba_parse_params mem comment type share =
     (let hv = (type = PINBA_TABLE_HISTOGRAM_VIEW);
          str = (if hv then drop 3 comment else comment)
      in case pinba_get_table_type str of
           (t, kind) \<Rightarrow>
             if hv \<and> t = PINBA_TABLE_UNKNOWN then (- 1, share)
             else case share of
                    None \<Rightarrow> (fst (parse_sections mem True str zero_share), None)
                  | Some s \<Rightarrow>
                      (case parse_sections mem False str ((if hv then s\<lparr>hv_table_type := t\<rparr> else s)\<lparr>share_kind := kind\<rparr>) of
                         (num, s) \<Rightarrow> (num, Some s)))"

section \<open>Printing a comment and parsing it\<close>

lemmas comment_loops [simp del] = param_loop.simps cond_loop.simps percentile_loop.simps

text \<open>Items separated by commas, and the comment they make.\<close>

fun comma_list :: "string list \<Rightarrow> string" where
  "comma_list [] = []"
| "comma_list [x] = x"
| "comma_list (x # xs) = x @ CHR '','' # comma_list xs"

definition cond_item :: "string \<times> string \<Rightarrow> string" where
  "cond_item c = fst c @ CHR ''='' # snd c"

definition table_comment :: "string \<Rightarrow> string list \<Rightarrow> (string \<times> string) list \<Rightarrow> nat list \<Rightarrow> string" where
  "table_comment name ps cs ks =
     name @ CHR '':'' # comma_list ps @ CHR '':'' # comma_list (map cond_item cs) @ CHR '':'' #
     comma_list (map dec_string ks)"

definition item_ok :: "string \<Rightarrow> bool" where
  "item_ok x \<longleftrightarrow> CHR '','' \<notin> set x \<and> CHR '':'' \<notin> set x"

definition cond_ok :: "string \<times> string \<Rightarrow> bool" where
  "cond_ok c \<longleftrightarrow> item_ok (fst c) \<and> item_ok (snd c) \<and> CHR ''='' \<notin> set (fst c) \<and>
     (fst c = ''histogram_max_time'' \<longrightarrow> pinba_parse_histogram_max (snd c) \<noteq> None)"

lemma comma_list_Cons: "comma_list (x # xs) = (if xs = [] then x else x @ CHR '','' # comma_list xs)"
  by (cases xs) simp_all

lemma comma_list_chars: "c \<noteq> CHR '','' \<Longrightarrow> c \<in> set (comma_list xs) \<longleftrightarrow> (\<exists>x \<in> set xs. c \<in> set x)"
  by (induction xs) (auto simp: comma_list_Cons)

lemma comma_list_comma:
  "list_all item_ok xs \<Longrightarrow> CHR '','' \<in> set (comma_list xs) \<longleftrightarrow> length xs > 1"
  by (induction xs) (auto simp: comma_list_Cons item_ok_def)

lemma comma_list_colon: "list_all item_ok xs \<Longrightarrow> CHR '':'' \<notin> set (comma_list xs)"
  by (auto simp: comma_list_chars item_ok_def list_all_iff)

lemma comma_list_Nil: "list_all (\<lambda>x. x \<noteq> []) xs \<Longrightarrow> comma_list xs = [] \<longleftrightarrow> xs = []"
  by (cases xs) (auto simp: comma_list_Cons)

lemma comma_list_split:
  "item_ok x \<Longrightarrow> c_split CHR '','' (comma_list (x # xs)) = (x, if xs = [] then None else Some (comma_list xs))"
  by (simp add: comma_list_Cons c_split_append c_split_none item_ok_def)

lemma param_loop_list:
  assumes "list_all item_ok xs" and "list_all (\<lambda>x. x \<noteq> []) xs" and "length xs > 1"
  shows "param_loop (comma_list xs) acc = (True, acc @ butlast xs, last xs)"
  using assms
proof (induction xs arbitrary: acc)
  case (Cons x xs)
  have ne: "xs \<noteq> []" using Cons.prems by auto
  have sp: "c_split CHR '','' (comma_list (x # xs)) = (x, Some (comma_list xs))"
    using Cons.prems ne by (simp add: comma_list_split)
  show ?case
  proof (cases "length xs > 1")
    case True
    then show ?thesis
      using Cons ne by (subst param_loop.simps) (simp add: sp comma_list_comma comma_list_Nil)
  next
    case False
    then obtain y where "xs = [y]" using ne by (cases xs) auto
    then show ?thesis
      using Cons.prems sp by (subst param_loop.simps) (simp add: item_ok_def)
  qed
qed simp

lemma parse_params_list:
  assumes "list_all item_ok xs" and "list_all (\<lambda>x. x \<noteq> []) xs"
  shows "parse_params parse_only (comma_list xs) = (True, if parse_only \<and> length xs > 1 then butlast xs else xs)"
proof (cases "length xs > 1")
  case True
  moreover from True have "last xs \<in> set xs" "xs \<noteq> []" by (auto intro: last_in_set)
  ultimately show ?thesis
    using assms by (auto simp: parse_params_def comma_list_comma param_loop_list list_all_iff)
next
  case False
  then have "xs = [] \<or> (\<exists>x. xs = [x])" by (cases xs) auto
  then show ?thesis using assms by (auto simp: parse_params_def item_ok_def)
qed

lemma cond_loop_list:
  "list_all cond_ok cs \<Longrightarrow> cond_loop (comma_list (map cond_item cs)) acc = (True, acc @ cs)"
proof (induction cs arbitrary: acc)
  case Nil
  then show ?case by (simp add: cond_loop.simps)
next
  case (Cons c cs)
  obtain n v where c: "c = (n, v)" by (cases c)
  have ok: "item_ok (cond_item c)" "c_split CHR ''='' (cond_item c) = (n, Some v)"
    "n = ''histogram_max_time'' \<longrightarrow> pinba_parse_histogram_max v \<noteq> None"
    using Cons.prems by (auto simp: c cond_ok_def item_ok_def cond_item_def c_split_append)
  have "comma_list (map cond_item (c # cs)) \<noteq> []" by (simp add: comma_list_Cons cond_item_def)
  moreover have "comma_list (map cond_item cs) = [] \<longleftrightarrow> cs = []"
    by (subst comma_list_Nil) (auto simp: list_all_iff cond_item_def)
  ultimately show ?case
    using Cons ok comma_list_split [OF ok(1), of "map cond_item cs"]
    by (subst cond_loop.simps) (auto simp: c cond_loop.simps [of "[]"])
qed

lemma dec_string_ne [simp]: "dec_string n \<noteq> []"
  by (simp add: dec_string.simps)

lemma dec_string_char: "c \<in> set (dec_string n) \<Longrightarrow> is_digit c"
  using dec_string_digits [of n] by (simp add: list_all_iff)

lemma dec_string_item: "item_ok (dec_string n)"
  by (auto simp: item_ok_def is_digit_def dest: dec_string_char)

lemma strtol10_dec: "int n \<le> LONG_MAX \<Longrightarrow> strtol10 (dec_string n) = int n"
proof -
  assume n: "int n \<le> LONG_MAX"
  obtain d ds where ds: "dec_string n = d # ds" by (cases "dec_string n") simp_all
  then have "is_digit d" using dec_string_char [of d n] by simp
  then have d: "\<not> is_space d" "d \<noteq> CHR ''-''" "d \<noteq> CHR ''+''" by (auto simp: is_digit_def is_space_def)
  have "takeWhile is_digit (dec_string n) = dec_string n" by (simp add: takeWhile_eq_all_conv dec_string_char)
  then show ?thesis using d n dec_string_val [of n] by (simp add: strtol10_def ds del: LONG_MAX_def)
qed

definition int_percentile :: "nat \<Rightarrow> pinba_percentile" where
  "int_percentile k = \<lparr>pvalue = FNum (of_nat k), numerator = 0, denominator = 0\<rparr>"

lemma one_percentile_dec:
  "0 < k \<Longrightarrow> k \<le> 100 \<Longrightarrow> one_percentile False (dec_string k) rest = Some (int_percentile k)"
  by (simp add: one_percentile_def strtol10_dec int_percentile_def)

lemma percentile_loop_list:
  "list_all (\<lambda>k. 0 < k \<and> k \<le> 100) ks \<Longrightarrow>
   percentile_loop (\<lambda>_. True) False False (comma_list (map dec_string ks)) acc = (True, acc @ map int_percentile ks)"
proof (induction ks arbitrary: acc)
  case Nil
  then show ?case by (simp add: percentile_loop.simps)
next
  case (Cons k ks)
  have "comma_list (map dec_string (k # ks)) \<noteq> []" by (simp add: comma_list_Cons)
  then show ?case
    using Cons comma_list_split [OF dec_string_item, of k "map dec_string ks"]
    by (subst percentile_loop.simps) (auto simp: one_percentile_dec percentile_loop.simps [of _ _ _ "[]"])
qed

lemma parse_percentiles_list:
  assumes "list_all (\<lambda>k. 0 < k \<and> k \<le> 100) ks"
  shows "parse_percentiles (\<lambda>_. True) False (comma_list (map dec_string ks)) acc = (True, acc @ map int_percentile ks)"
proof -
  have "take 2 (comma_list (map dec_string ks)) \<noteq> ''p=''"
  proof
    assume p: "take 2 (comma_list (map dec_string ks)) = ''p=''"
    have "set (take 2 (comma_list (map dec_string ks))) \<subseteq> set (comma_list (map dec_string ks))" by (rule set_take_subset)
    then have "CHR ''p'' \<in> set (comma_list (map dec_string ks))" unfolding p by simp
    then show False by (auto simp: comma_list_chars is_digit_def dest: dec_string_char)
  qed
  then show ?thesis using percentile_loop_list [OF assms] by (simp add: parse_percentiles_def)
qed

lemma parse_sections_list:
  assumes "CHR '':'' \<notin> set name" and "list_all item_ok ps" and "list_all (\<lambda>x. x \<noteq> []) ps"
    and "list_all cond_ok cs" and "list_all (\<lambda>k. 0 < k \<and> k \<le> 100) ks"
  shows "parse_sections (\<lambda>_. True) False (table_comment name ps cs ks) share =
     (int (length ps),
      share\<lparr>params := ps, params_num := length ps, conds := cs, cond_num := length cs,
        percentiles := percentiles share @ map int_percentile ks,
        percentiles_num := length (percentiles share) + length ks\<rparr>)"
proof -
  have cs: "list_all item_ok (map cond_item cs)"
    using assms(4) by (auto simp: list_all_iff cond_ok_def item_ok_def cond_item_def)
  have "CHR '':'' \<notin> set (comma_list ps)" "CHR '':'' \<notin> set (comma_list (map cond_item cs))"
    using comma_list_colon assms(2) cs by blast+
  then show ?thesis
    using assms cs parse_params_list [OF assms(2,3), of False] cond_loop_list [OF assms(4), of "[]"]
      parse_percentiles_list [OF assms(5)]
    by (simp add: parse_sections_def table_comment_def c_split_append)
qed

lemma table_type_comment:
  assumes "CHR '':'' \<notin> set name" and "name \<noteq> []"
  shows "pinba_get_table_type (table_comment name ps cs ks) = pinba_get_table_type name"
proof -
  have "takeWhile (\<lambda>c. c \<noteq> CHR '':'') (table_comment name ps cs ks) = name"
    using assms(1) by (induction name) (auto simp: table_comment_def)
  moreover have "takeWhile (\<lambda>c. c \<noteq> CHR '':'') name = name"
    using assms(1) by (auto simp: takeWhile_eq_all_conv)
  ultimately show ?thesis
    using assms(2) by (simp only: pinba_get_table_type_def) (simp add: table_comment_def)
qed

text \<open>The kind of report behind each type of table.\<close>

definition report_kind_of :: "pinba_report_type \<Rightarrow> pinba_report_kind" where
  "report_kind_of t =
     (if t \<in> {PINBA_TABLE_RTAG_INFO, PINBA_TABLE_RTAG2_INFO, PINBA_TABLE_RTAGN_INFO, PINBA_TABLE_RTAG_REPORT,
              PINBA_TABLE_RTAG2_REPORT, PINBA_TABLE_RTAGN_REPORT} then PINBA_RTAG_REPORT_KIND
      else if t \<in> {PINBA_TABLE_TIMERTAG, PINBA_TABLE_TAG_INFO, PINBA_TABLE_TAG2_INFO, PINBA_TABLE_TAGN_INFO,
              PINBA_TABLE_TAG_REPORT, PINBA_TABLE_TAG2_REPORT, PINBA_TABLE_TAGN_REPORT,
              PINBA_TABLE_TAG_REPORT2, PINBA_TABLE_TAG2_REPORT2, PINBA_TABLE_TAGN_REPORT2} then PINBA_TAG_REPORT_KIND
      else PINBA_BASE_REPORT_KIND)"

lemma table_names_kind:
  assumes "(name, t, k) \<in> set (table_names n)"
  shows "t \<noteq> PINBA_TABLE_HISTOGRAM_VIEW" and "t \<noteq> PINBA_TABLE_UNKNOWN" and "length name = n" and "k = report_kind_of t"
  using assms by (auto simp: table_names_def report_kind_of_def split: if_splits)

lemma match_names_member:
  "match_names str names init = init \<or> (str, match_names str names init) \<in> set names"
  unfolding match_names_def
proof (induction names arbitrary: init)
  case (Cons x names)
  then show ?case by (cases x) (auto split: if_splits)
qed simp

lemma table_type_kind:
  assumes "pinba_get_table_type str = (t, k)" and "t \<noteq> PINBA_TABLE_HISTOGRAM_VIEW"
  shows "k = report_kind_of t"
proof (cases "str = []")
  case False
  let ?n = "takeWhile (\<lambda>c. c \<noteq> CHR '':'') str"
  have "table_type_of_name ?n = (t, k)" using assms(1) False by (simp add: pinba_get_table_type_def)
  then have "match_names ?n (table_names (length ?n)) (PINBA_TABLE_UNKNOWN, PINBA_BASE_REPORT_KIND) = (t, k)"
    using assms(2) by (auto simp: table_type_of_name_def Let_def split: prod.splits if_splits)
  then show ?thesis
    using match_names_member [of ?n "table_names (length ?n)" "(PINBA_TABLE_UNKNOWN, PINBA_BASE_REPORT_KIND)"]
      table_names_kind(4) [of ?n t k "length ?n"] by (auto simp: report_kind_of_def)
qed (use assms in \<open>simp add: pinba_get_table_type_def report_kind_of_def\<close>)

lemma table_type_hv:
  assumes "CHR '':'' \<notin> set name" and "name \<noteq> []" and "take 3 name \<noteq> ''hv.''"
  shows "pinba_get_table_type (''hv.'' @ name) = (PINBA_TABLE_HISTOGRAM_VIEW, snd (pinba_get_table_type name))"
    and "fst (pinba_get_table_type name) \<noteq> PINBA_TABLE_HISTOGRAM_VIEW"
proof -
  have tw: "takeWhile (\<lambda>c. c \<noteq> CHR '':'') name = name"
    using assms(1) by (auto simp: takeWhile_eq_all_conv)
  show "pinba_get_table_type (''hv.'' @ name) = (PINBA_TABLE_HISTOGRAM_VIEW, snd (pinba_get_table_type name))"
    using assms by (simp add: pinba_get_table_type_def table_type_of_name_def Let_def tw split: prod.split)
  have "fst (match_names name (table_names (length name)) (PINBA_TABLE_UNKNOWN, PINBA_BASE_REPORT_KIND))
      \<noteq> PINBA_TABLE_HISTOGRAM_VIEW"
    using match_names_member [of name "table_names (length name)" "(PINBA_TABLE_UNKNOWN, PINBA_BASE_REPORT_KIND)"]
      table_names_kind(1) by (metis prod.collapse pinba_report_type.distinct(13) fst_conv)
  then show "fst (pinba_get_table_type name) \<noteq> PINBA_TABLE_HISTOGRAM_VIEW"
    using assms by (auto simp: pinba_get_table_type_def table_type_of_name_def Let_def tw split: prod.split)
qed

section \<open>Checking a comment and storing it\<close>

lemma percentile_loop_ok:
  "fst (percentile_loop mem True f p acc) = fst (percentile_loop (\<lambda>_. True) False f p acc')"
proof (induction "length p" arbitrary: p acc acc' rule: less_induct)
  case less
  obtain item rest where sp: "c_split CHR '','' p = (item, rest)" by (cases "c_split CHR '','' p")
  show ?case
  proof (cases "p = []")
    case False
    have "length (case rest of None \<Rightarrow> [] | Some p \<Rightarrow> p) < length p"
      using c_split_length [of item _ "CHR '',''" p] sp False by (cases rest) auto
    then show ?thesis
      using False less [of "case rest of None \<Rightarrow> [] | Some p \<Rightarrow> p"]
      by (subst (1 2) percentile_loop.simps) (simp add: sp split: option.split)
  qed (simp add: percentile_loop.simps)
qed

lemma parse_percentiles_ok:
  "fst (parse_percentiles mem True p acc) = fst (parse_percentiles (\<lambda>_. True) False p acc')"
  using percentile_loop_ok [of mem] by (simp add: parse_percentiles_def Let_def)

lemma parse_params_ok: "fst (parse_params True ps) = fst (parse_params False ps)"
  by (simp add: parse_params_def split: prod.split)

lemma parse_sections_accepts:
  "0 \<le> fst (parse_sections mem parse_only str share) \<longleftrightarrow>
     (case c_split CHR '':'' str of
        (_, None) \<Rightarrow> True
      | (_, Some rest) \<Rightarrow> rest \<noteq> [] \<and>
          (case c_split CHR '':'' rest of (ps, rest1) \<Rightarrow> fst (parse_params parse_only ps) \<and>
             (case rest1 of None \<Rightarrow> True | Some rest1 \<Rightarrow>
                (case c_split CHR '':'' rest1 of (cs, rest2) \<Rightarrow> fst (cond_loop cs []) \<and>
                   (case rest2 of None \<Rightarrow> True
                    | Some rest2 \<Rightarrow> fst (parse_percentiles mem parse_only rest2 (percentiles share)))))))"
  by (auto simp: parse_sections_def Let_def split: prod.splits option.splits bool.splits)

lemma parse_sections_ok:
  "0 \<le> fst (parse_sections mem True str share) \<longleftrightarrow> 0 \<le> fst (parse_sections (\<lambda>_. True) False str share')"
  unfolding parse_sections_accepts parse_params_ok
    parse_percentiles_ok [of mem _ "percentiles share" "percentiles share'"] by (rule refl)

text \<open>
  C37: Round trip of a table comment. A table of type \<open>name\<close>, plain or as a histogram view, with
  any parameters (non-empty, without commas and colons), any conditions (names without an equals
  sign as well, and a valid histogram maximum) and any integer percentiles from 1 to 100 is
  written as a comment from which the type of the table, its kind and exactly these parameters,
  conditions and percentiles in their order are read back into a zeroed share.
\<close>

theorem table_comment_roundtrip:
  assumes "CHR '':'' \<notin> set name" and "take 3 name \<noteq> ''hv.''" and "pinba_get_table_type name = (t, k)"
    and "t \<noteq> PINBA_TABLE_UNKNOWN"
    and "list_all item_ok ps" and "list_all (\<lambda>x. x \<noteq> []) ps"
    and "list_all cond_ok cs" and "list_all (\<lambda>k. 0 < k \<and> k \<le> 100) ks"
    and "comment = table_comment (if hv then ''hv.'' @ name else name) ps cs ks"
    and "type = (if hv then PINBA_TABLE_HISTOGRAM_VIEW else t)"
  shows "pinba_get_table_type comment = (type, k) \<and>
     pinba_parse_params (\<lambda>_. True) comment type (Some zero_share) =
       (int (length ps),
        Some (zero_share\<lparr>hv_table_type := if hv then t else PINBA_TABLE_UNKNOWN, share_kind := k,
          params := ps, params_num := length ps, conds := cs, cond_num := length cs,
          percentiles := map int_percentile ks, percentiles_num := length ks\<rparr>))"
proof -
  have ne: "name \<noteq> []" using assms(3,4) by (auto simp: pinba_get_table_type_def)
  have t: "t \<noteq> PINBA_TABLE_HISTOGRAM_VIEW" using table_type_hv(2) [OF assms(1) ne assms(2)] assms(3) by simp
  have colon: "CHR '':'' \<notin> set (''hv.'' @ name)" using assms(1) by simp
  note parts = parse_sections_list [OF assms(1,5,6,7,8)] table_type_comment [OF assms(1) ne]
  show ?thesis
  proof (cases hv)
    case True
    have "pinba_get_table_type comment = (type, k)"
      using True assms(3,9,10) table_type_comment [OF colon, of ps cs ks] table_type_hv(1) [OF assms(1) ne assms(2)] by simp
    moreover have "drop 3 comment = table_comment name ps cs ks"
      using True assms(9) by (simp add: table_comment_def)
    ultimately show ?thesis
      using True parts assms(3,4,10) by (simp add: pinba_parse_params_def zero_share_def)
  next
    case False
    then show ?thesis
      using parts assms(3,9,10) t by (simp add: pinba_parse_params_def zero_share_def)
  qed
qed

theorem table_comment_roundtrip_witness:
  "pinba_get_table_type ''hv.tag_report:group:min_time=0.5,tag.a=b:50,95'' =
     (PINBA_TABLE_HISTOGRAM_VIEW, PINBA_TAG_REPORT_KIND) \<and>
   pinba_parse_params (\<lambda>_. True) ''hv.tag_report:group:min_time=0.5,tag.a=b:50,95'' PINBA_TABLE_HISTOGRAM_VIEW
       (Some zero_share) =
     (1, Some (zero_share\<lparr>hv_table_type := PINBA_TABLE_TAG_REPORT, share_kind := PINBA_TAG_REPORT_KIND,
        params := [''group''], params_num := 1, conds := [(''min_time'', ''0.5''), (''tag.a'', ''b'')], cond_num := 2,
        percentiles := [int_percentile 50, int_percentile 95], percentiles_num := 2\<rparr>))"
proof -
  have c: "table_comment (''hv.'' @ ''tag_report'') [''group''] [(''min_time'', ''0.5''), (''tag.a'', ''b'')] [50, 95] =
      ''hv.tag_report:group:min_time=0.5,tag.a=b:50,95''" by code_simp
  have t: "pinba_get_table_type ''tag_report'' = (PINBA_TABLE_TAG_REPORT, PINBA_TAG_REPORT_KIND)" by code_simp
  show ?thesis
    using table_comment_roundtrip [of "''tag_report''" PINBA_TABLE_TAG_REPORT PINBA_TAG_REPORT_KIND "[''group'']"
        "[(''min_time'', ''0.5''), (''tag.a'', ''b'')]" "[50, 95]" "''hv.tag_report:group:min_time=0.5,tag.a=b:50,95''" True
        PINBA_TABLE_HISTOGRAM_VIEW] c t
    by (simp add: item_ok_def cond_ok_def numeral_2_eq_2)
qed

text \<open>
  C38: The check of a comment when a table is created and its parsing when the table is opened
  agree: without a share \<^verbatim>\<open>pinba_parse_params\<close> accepts a comment exactly if it accepts it with a
  share, as long as memory for the percentiles is found. So no table can be created that can
  never be opened because of its comment, and none that could be opened is refused.
\<close>

theorem parse_only_accepts_the_same:
  "0 \<le> fst (pinba_parse_params mem comment type None) \<longleftrightarrow>
   0 \<le> fst (pinba_parse_params (\<lambda>_. True) comment type (Some share))"
proof -
  have "fst (case parse_sections m False str s of (num, s) \<Rightarrow> (num, Some s)) = fst (parse_sections m False str s)"
    for m str s by (simp add: case_prod_beta)
  then show ?thesis
    using parse_sections_ok [of mem] by (simp add: pinba_parse_params_def Let_def case_prod_beta)
qed

text \<open>
  The type and the kind found in a comment always agree: whatever the comment, unless it
  names a histogram view the kind is the one of the type's reports, and a comment without a known
  type has the base kind. So a share is looked up in the registry its type belongs to.
\<close>

theorem table_type_determines_kind:
  "fst (pinba_get_table_type str) = PINBA_TABLE_HISTOGRAM_VIEW \<or>
   snd (pinba_get_table_type str) = report_kind_of (fst (pinba_get_table_type str))"
  using table_type_kind [of str] by (metis prod.collapse)

end
