(* ===== verification/Report_Conditions.thy ===== *)
theory Report_Conditions
  imports Staging Table_Comments
begin

text \<open>
  The conditions of a report (\<^verbatim>\<open>pinba_parse_conditions\<close>, \<^verbatim>\<open>src/ha_pinba.cc\<close>): bounds on the request
  time, the histogram maximum and request tags. The words of a tag condition are interned and owned
  by the report.
\<close>

unbundle bit_operations_syntax

section \<open>Numbers\<close>

definition is_hex_digit :: "char \<Rightarrow> bool" where
  "is_hex_digit c \<longleftrightarrow> is_digit c \<or> lower_ascii c \<in> set ''abcdef''"

definition hex_digit_val :: "char \<Rightarrow> nat" where
  "hex_digit_val c = (if is_digit c then digit_val c else of_char (lower_ascii c) - 87)"

definition hex_val :: "string \<Rightarrow> nat" where
  "hex_val ds = foldl (\<lambda>n c. 16 * n + hex_digit_val c) 0 ds"

text \<open>The exponent after the letter \<open>e\<close> (\<open>p\<close> in a hexadecimal number), zero when there is none.\<close>

definition scan_exponent :: "char \<Rightarrow> string \<Rightarrow> int" where
  "scan_exponent e s =
     (case s of
        c # t \<Rightarrow>
          if lower_ascii c = e then
            (case t of
               d # u \<Rightarrow>
                 if d = CHR ''-'' then - int (digits_val (takeWhile is_digit u))
                 else if d = CHR ''+'' then int (digits_val (takeWhile is_digit u))
                 else int (digits_val (takeWhile is_digit t))
             | [] \<Rightarrow> 0)
          else 0
      | [] \<Rightarrow> 0)"

text \<open>Digits, a point and more digits: the digits before and after the point and the rest.\<close>

definition scan_digits :: "(char \<Rightarrow> bool) \<Rightarrow> string \<Rightarrow> string \<times> string \<times> string" where
  "scan_digits digit s =
     (let ip = takeWhile digit s; r = dropWhile digit s
      in if r \<noteq> [] \<and> hd r = CHR ''.'' then (ip, takeWhile digit (tl r), dropWhile digit (tl r)) else (ip, [], r))"

text \<open>
  \<^verbatim>\<open>strtod\<close> in the C locale: blanks, a sign, then the longest decimal or hexadecimal number or one
  of the words \<^verbatim>\<open>inf\<close> and \<^verbatim>\<open>nan\<close>; zero when there is no number, an infinity above the range.
\<close>

definition strtod :: "string \<Rightarrow> fp" where
  "strtod s =
     (let t = dropWhile is_space s;
          neg = (t \<noteq> [] \<and> hd t = CHR ''-'');
          u = (if t \<noteq> [] \<and> (hd t = CHR ''-'' \<or> hd t = CHR ''+'') then tl t else t);
          word = map lower_ascii (take 3 u)
      in if word = ''inf'' then FInf neg
         else if word = ''nan'' then FNaN
         else
           let hex = (map lower_ascii (take 2 u) = ''0x'' \<and>
                      (case scan_digits is_hex_digit (drop 2 u) of (ip, fs, r) \<Rightarrow> ip \<noteq> [] \<or> fs \<noteq> []));
               m = (if hex
                    then (case scan_digits is_hex_digit (drop 2 u) of (ip, fs, r) \<Rightarrow>
                            rat_of_nat (hex_val (ip @ fs)) * 2 powi (scan_exponent (CHR ''p'') r - 4 * int (length fs)))
                    else (case scan_digits is_digit u of (ip, fs, r) \<Rightarrow>
                            if ip = [] \<and> fs = [] then 0
                            else rat_of_nat (digits_val (ip @ fs)) * 10 powi (scan_exponent (CHR ''e'') r - int (length fs))))
           in round64 (if neg then - m else m))"

section \<open>Words of conditions\<close>

text \<open>
  Conditions intern their words without a budget. A word that cannot be allocated is a null
  pointer in the arrays of the report; no word lives at the address 0.
\<close>

definition pinba_dictionary_word_get_or_insert_rdlock ::
  "ingest_env \<Rightarrow> string \<Rightarrow> pinba_dictionary \<Rightarrow> pinba_word option \<times> pinba_dictionary" where
  "pinba_dictionary_word_get_or_insert_rdlock env str d =
     intern_word (env\<lparr>ie_budget := \<lparr>max_words = 0, max_bytes = 0\<rparr>\<rparr>) str d"

definition null_word :: pinba_word where
  "null_word = \<lparr>word_addr = 0, word_str = []\<rparr>"

definition word_ptr :: "pinba_word option \<Rightarrow> pinba_word" where
  "word_ptr w = (case w of None \<Rightarrow> null_word | Some w \<Rightarrow> w)"

definition live_words :: "pinba_word list \<Rightarrow> pinba_word list" where
  "live_words ws = filter (\<lambda>w. word_addr w \<noteq> 0) ws"

section \<open>Parsing\<close>

text \<open>
  \<^verbatim>\<open>histogram_max_time_var\<close> and \<^verbatim>\<open>histogram_size_var\<close> are the variables of the server,
  \<open>settings_histogram_size\<close> is the size the daemon was started with.
\<close>

record condition_env =
  ce_ingest :: ingest_env
  histogram_max_time_var :: int
  histogram_size_var :: int
  settings_histogram_size :: int

definition parse_condition ::
  "condition_env \<Rightarrow> string \<times> string \<Rightarrow> pinba_std_report \<times> pinba_dictionary \<Rightarrow> pinba_std_report \<times> pinba_dictionary" where
  "parse_condition env c s =
     (case (c, s) of
        ((name, value), (report, d)) \<Rightarrow>
          if name = ''min_time'' then
            (report\<lparr>flags := flags report OR PINBA_REPORT_CONDITIONAL, cond := (cond report)\<lparr>min_time := strtod value\<rparr>\<rparr>, d)
          else if name = ''max_time'' then
            (report\<lparr>flags := flags report OR PINBA_REPORT_CONDITIONAL, cond := (cond report)\<lparr>max_time := strtod value\<rparr>\<rparr>, d)
          else if name = ''histogram_max_time'' then
            let m = (case pinba_parse_histogram_max value of None \<Rightarrow> histogram_max_time report | Some m \<Rightarrow> m)
            in (report\<lparr>histogram_max_time := m,
                       histogram_segment := fdiv round32 (f32_of_int m) (f32_of_int (settings_histogram_size env))\<rparr>, d)
          else if length name > 4 \<and> take 4 name = ''tag.'' then
            (case pinba_dictionary_word_get_or_insert_rdlock (ce_ingest env) (drop 4 name) d of
               (n, d) \<Rightarrow>
                 (case pinba_dictionary_word_get_or_insert_rdlock (ce_ingest env) value d of
                    (v, d) \<Rightarrow>
                      (report\<lparr>flags := flags report OR PINBA_REPORT_TAGGED,
                              cond := (cond report)\<lparr>cond_tags := cond_tags (cond report) @ [(word_ptr n, word_ptr v)]\<rparr>\<rparr>, d)))
          else (report, d))"

definition pinba_parse_conditions ::
  "condition_env \<Rightarrow> pinba_share \<Rightarrow> pinba_std_report \<Rightarrow> pinba_dictionary \<Rightarrow> pinba_std_report \<times> pinba_dictionary" where
  "pinba_parse_conditions env share report d =
     fold (parse_condition env) (take (cond_num share) (conds share))
       (report\<lparr>std_histogram := pinba_lmap_create, histogram_max_time := histogram_max_time_var env,
               histogram_segment := fdiv round32 (f32_of_int (histogram_max_time_var env)) (f32_of_int (histogram_size_var env)),
               start := null_timeval\<rparr>, d)"

section \<open>What the parsed conditions are\<close>

definition is_tag_cond :: "string \<times> string \<Rightarrow> bool" where
  "is_tag_cond c \<longleftrightarrow> length (fst c) > 4 \<and> take 4 (fst c) = ''tag.''"

text \<open>The last value given for a name.\<close>

definition last_value :: "string \<Rightarrow> (string \<times> string) list \<Rightarrow> string option" where
  "last_value name cs = map_of (rev cs) name"

definition time_value :: "string option \<Rightarrow> fp" where
  "time_value v = (case v of None \<Rightarrow> FNum 0 | Some v \<Rightarrow> strtod v)"

definition condition_flags :: "(string \<times> string) list \<Rightarrow> u32" where
  "condition_flags cs =
     (if \<exists>c \<in> set cs. fst c = ''min_time'' \<or> fst c = ''max_time'' then PINBA_REPORT_CONDITIONAL else 0) OR
     (if \<exists>c \<in> set cs. is_tag_cond c then PINBA_REPORT_TAGGED else 0)"

text \<open>The words a report owns for its conditions.\<close>

definition cond_words :: "pinba_std_report \<Rightarrow> pinba_word list" where
  "cond_words report = live_words (concat (map (\<lambda>(n, v). [n, v]) (cond_tags (cond report))))"

definition words_available :: "ingest_env \<Rightarrow> bool" where
  "words_available env \<longleftrightarrow> fresh_words env \<and> (\<forall>d. ie_fresh env d \<noteq> Some 0)"

definition no_null_word :: "pinba_dictionary \<Rightarrow> bool" where
  "no_null_word d \<longleftrightarrow> 0 \<notin> word_addr ` set (words_of d)"

text \<open>A word interned for a condition: its owner is the report, a null pointer owns nothing.\<close>

lemma condition_word:
  assumes "dictionary_ok (ie_word_size env) owners d" and "Suc (size owners) < 2 ^ 64" and "words_available env"
    and "no_null_word d" and "pinba_dictionary_word_get_or_insert_rdlock env str d = (w, d')"
  shows "dictionary_ok (ie_word_size env) (owners + mset (map word_addr (live_words [word_ptr w]))) d'"
    and "no_null_word d'" and "w \<noteq> None \<Longrightarrow> word_str (word_ptr w) = dictionary_key str"
    and "(\<forall>d. ie_fresh env d \<noteq> None) \<Longrightarrow> ie_room env \<Longrightarrow> w \<noteq> None"
proof -
  let ?env = "env\<lparr>ie_budget := \<lparr>max_words = 0, max_bytes = 0\<rparr>\<rparr>"
  have f: "fresh_words ?env" using assms(3) by (simp add: words_available_def fresh_words_def)
  have i: "intern_word ?env str d = (w, d')" using assms(5) by (simp add: pinba_dictionary_word_get_or_insert_rdlock_def)
  note r = intern_result [where word_size = "ie_word_size env" and owners = owners and d = d and owners' = owners
      and meanwhile = "\<lambda>d. d" and fresh = "ie_fresh env d" and room = "ie_room env"
      and budget = "\<lparr>max_words = 0, max_bytes = 0\<rparr>" and str = str, OF assms(1) assms(1) assms(2) assms(2)]
  have ws: "set (words_of d') \<subseteq> insert (word_ptr w) (set (words_of d)) \<and> (w = None \<longrightarrow> words_of d' = words_of d)"
    using r i assms(3) by (auto simp: intern_word_def words_available_def fresh_words_def word_ptr_def split: option.splits if_splits)
  have fz: "0 < a" if "ie_fresh env d = Some a" for a
    using assms(3) that unfolding words_available_def by (metis gr0I)
  have nz: "word_addr (word_ptr w) \<noteq> 0" if "w \<noteq> None"
    using that i fz assms(4) unfolding intern_word_def pinba_dictionary_intern_rdlock_def
    by (auto simp: Let_def word_ptr_def words_available_def no_null_word_def image_iff
        split: option.splits if_splits prod.splits bool.splits dest: get_words_of)
  show "dictionary_ok (ie_word_size env) (owners + mset (map word_addr (live_words [word_ptr w]))) d'"
    using intern_word_ok [of ?env owners d str] assms(1,2) f i nz by (cases w) (auto simp: live_words_def word_ptr_def null_word_def)
  show "no_null_word d'" using ws nz assms(4) by (cases w) (auto simp: no_null_word_def image_iff)
  show "w \<noteq> None \<Longrightarrow> word_str (word_ptr w) = dictionary_key str"
    using intern_word_ok [of ?env owners d str] assms(1,2) f i by (auto simp: word_ptr_def)
  show "w \<noteq> None" if mem: "\<forall>d. ie_fresh env d \<noteq> None" "ie_room env"
  proof -
    obtain a where "ie_fresh env d = Some a" using mem(1) by (metis not_None_eq)
    then show ?thesis
      using i mem(2) unfolding intern_word_def pinba_dictionary_intern_rdlock_def
      by (cases "pinba_map_get (dict d) (take (min (length str) (PINBA_TAG_VALUE_SIZE - 1)) str)")
        (auto simp: Let_def over_budget_def try_add_new dest!: sym [of "Some _"])
  qed
qed

lemma flags_add:
  "condition_flags (cs @ [c]) =
     condition_flags cs OR
       (if fst c = ''min_time'' \<or> fst c = ''max_time'' then PINBA_REPORT_CONDITIONAL
        else if is_tag_cond c then PINBA_REPORT_TAGGED else 0)"
  by (auto simp: condition_flags_def is_tag_cond_def)

text \<open>
  \<open>condition_state\<close> relates a report in the middle of the loop to the conditions \<open>cs\<close> already done.
\<close>

definition condition_state ::
  "condition_env \<Rightarrow> nat multiset \<Rightarrow> (string \<times> string) list \<Rightarrow> pinba_std_report \<Rightarrow> pinba_dictionary \<Rightarrow> bool" where
  "condition_state env owners cs report d \<longleftrightarrow>
     dictionary_ok (ie_word_size (ce_ingest env)) (owners + mset (map word_addr (cond_words report))) d \<and>
     no_null_word d \<and> length (cond_words report) \<le> 2 * length cs \<and> flags report = condition_flags cs \<and>
     min_time (cond report) = time_value (last_value ''min_time'' cs) \<and>
     max_time (cond report) = time_value (last_value ''max_time'' cs) \<and>
     (ie_room (ce_ingest env) \<and> (\<forall>d. ie_fresh (ce_ingest env) d \<noteq> None) \<longrightarrow>
        map (\<lambda>(n, v). (word_str n, word_str v)) (cond_tags (cond report)) =
        map (\<lambda>(n, v). (dictionary_key (drop 4 n), dictionary_key v)) (filter is_tag_cond cs))"

lemma parse_condition_state:
  assumes st: "condition_state env owners cs report d" and words: "words_available (ce_ingest env)"
    and size: "size owners + 2 * Suc (length cs) < 2 ^ 64"
    and "parse_condition env c (report, d) = (report', d')"
  shows "condition_state env owners (cs @ [c]) report' d'"
proof -
  obtain name vl where c: "c = (name, vl)" by (cases c)
  consider (bound) "name = ''min_time'' \<or> name = ''max_time''" | (hist) "name = ''histogram_max_time''"
    | (tag) "is_tag_cond c" "name \<noteq> ''min_time''" "name \<noteq> ''max_time''" "name \<noteq> ''histogram_max_time''"
    | (none) "\<not> is_tag_cond c" "name \<noteq> ''min_time''" "name \<noteq> ''max_time''" "name \<noteq> ''histogram_max_time''" by blast
  then show ?thesis
  proof cases
    case tag
    let ?env = "ce_ingest env"
    let ?owners = "owners + mset (map word_addr (cond_words report))"
    obtain n d1 v where n: "pinba_dictionary_word_get_or_insert_rdlock ?env (drop 4 name) d = (n, d1)"
      and v: "pinba_dictionary_word_get_or_insert_rdlock ?env vl d1 = (v, d')"
      and r: "report' = report\<lparr>flags := flags report OR PINBA_REPORT_TAGGED,
         cond := (cond report)\<lparr>cond_tags := cond_tags (cond report) @ [(word_ptr n, word_ptr v)]\<rparr>\<rparr>"
      using assms(4) tag by (auto simp: parse_condition_def c is_tag_cond_def split: prod.splits)
    have d: "dictionary_ok (ie_word_size ?env) ?owners d" "no_null_word d" "length (cond_words report) \<le> 2 * length cs"
      using st by (simp_all add: condition_state_def)
    have s: "Suc (size ?owners) < 2 ^ 64" "Suc (size (?owners + mset (map word_addr (live_words [word_ptr n])))) < 2 ^ 64"
      using size d(3) by (simp_all add: live_words_def)
    note w1 = condition_word [OF d(1) s(1) words d(2) n]
    note w2 = condition_word [OF w1(1) s(2) words w1(2) v]
    have cw: "cond_words report' = cond_words report @ live_words [word_ptr n] @ live_words [word_ptr v]"
      by (simp add: cond_words_def r live_words_def)
    have "length (live_words [word_ptr n]) \<le> 1" "length (live_words [word_ptr v]) \<le> 1" by (simp_all add: live_words_def)
    then have "length (cond_words report') \<le> 2 * length (cs @ [c])"
      using d(3) unfolding cw by simp
    then show ?thesis
      using st tag w1 w2 cw by (auto simp: condition_state_def r c flags_add last_value_def add.assoc)
  next
    case bound
    then show ?thesis
    proof
      assume "name = ''min_time''"
      moreover from this have "report' = report\<lparr>flags := flags report OR PINBA_REPORT_CONDITIONAL,
          cond := (cond report)\<lparr>min_time := strtod vl\<rparr>\<rparr>" "d' = d"
        using assms(4) by (simp_all add: parse_condition_def c)
      ultimately show ?thesis
        using st by (simp add: condition_state_def c is_tag_cond_def flags_add last_value_def time_value_def cond_words_def)
    next
      assume "name = ''max_time''"
      moreover from this have "report' = report\<lparr>flags := flags report OR PINBA_REPORT_CONDITIONAL,
          cond := (cond report)\<lparr>max_time := strtod vl\<rparr>\<rparr>" "d' = d"
        using assms(4) by (simp_all add: parse_condition_def c)
      ultimately show ?thesis
        using st by (simp add: condition_state_def c is_tag_cond_def flags_add last_value_def time_value_def cond_words_def)
    qed
  next
    case hist
    then obtain m g where "report' = report\<lparr>histogram_max_time := m, histogram_segment := g\<rparr>" "d' = d"
      using assms(4) by (auto simp: parse_condition_def c Let_def)
    then show ?thesis
      using st hist by (simp add: condition_state_def c is_tag_cond_def flags_add last_value_def cond_words_def)
  next
    case none
    then have "report' = report" "d' = d" using assms(4) by (auto simp: parse_condition_def c is_tag_cond_def)
    then show ?thesis
      using st none by (simp add: condition_state_def c flags_add last_value_def)
  qed
qed

lemma parse_conditions_state:
  assumes "condition_state env owners [] report d" and "words_available (ce_ingest env)"
    and "size owners + 2 * length cs < 2 ^ 64" and "fold (parse_condition env) cs (report, d) = (report', d')"
  shows "condition_state env owners cs report' d'"
  using assms(3,4)
proof (induction cs arbitrary: report' d' rule: rev_induct)
  case Nil
  then show ?case using assms(1) by simp
next
  case (snoc c cs)
  obtain r1 d1 where f: "fold (parse_condition env) cs (report, d) = (r1, d1)" by fastforce
  then have "parse_condition env c (r1, d1) = (report', d')" using snoc.prems(2) by simp
  moreover have "condition_state env owners cs r1 d1" using snoc.IH [OF _ f] snoc.prems(1) by simp
  ultimately show ?case using parse_condition_state [OF _ assms(2)] snoc.prems(1) by simp
qed

text \<open>The header of a report as \<^verbatim>\<open>calloc\<close> leaves it.\<close>

definition zero_std :: pinba_std_report where
  "zero_std =
     \<lparr>cond = \<lparr>min_time = FNum 0, max_time = FNum 0, cond_tags = []\<rparr>, flags = 0, rtype = PINBA_TABLE_UNKNOWN,
      histogram_max_time = 0, histogram_segment = FNum 0, std_histogram = None,
      report_kind = PINBA_BASE_REPORT_KIND, std_index = None, results_cnt = 0, time_interval = 0,
      use_cnt = 0, start = null_timeval, request_pool_start_id = 0, std_ru_utime = null_timeval,
      std_ru_stime = null_timeval, packets_cnt = 0\<rparr>"

lemma parse_conditions_result:
  assumes "dictionary_ok (ie_word_size (ce_ingest env)) owners d" and "no_null_word d"
    and "words_available (ce_ingest env)" and "size owners + 2 * length (conds share) < 2 ^ 64"
    and "cond_num share = length (conds share)"
    and "pinba_parse_conditions env share zero_std d = (report, d')"
  shows "condition_state env owners (conds share) report d'"
proof (rule parse_conditions_state [OF _ assms(3,4)])
  show "fold (parse_condition env) (conds share)
      (zero_std\<lparr>std_histogram := pinba_lmap_create, histogram_max_time := histogram_max_time_var env,
         histogram_segment := fdiv round32 (f32_of_int (histogram_max_time_var env)) (f32_of_int (histogram_size_var env)),
         start := null_timeval\<rparr>, d) = (report, d')"
    using assms(5,6) by (simp add: pinba_parse_conditions_def)
qed (use assms(1,2) in \<open>simp add: condition_state_def cond_words_def live_words_def zero_std_def condition_flags_def
      last_value_def time_value_def\<close>)

text \<open>
  C36: The conditions of a new report are those of its comment: the report is conditional exactly if
  a bound on the request time is given and tagged exactly if a request tag is, the bounds are the
  numbers given last, and, unless memory for words runs out, the tags are all given tags in their
  order. Whatever fails, the report owns one reference to each of its words and no other
  reference changes.
\<close>

theorem report_conditions_of_comment:
  assumes "dictionary_ok (ie_word_size (ce_ingest env)) owners d" and "no_null_word d"
    and "words_available (ce_ingest env)" and "size owners + 2 * length (conds share) < 2 ^ 64"
    and "cond_num share = length (conds share)"
    and "pinba_parse_conditions env share zero_std d = (report, d')"
  shows "dictionary_ok (ie_word_size (ce_ingest env)) (owners + mset (map word_addr (cond_words report))) d' \<and>
     flags report = condition_flags (conds share) \<and>
     min_time (cond report) = time_value (last_value ''min_time'' (conds share)) \<and>
     max_time (cond report) = time_value (last_value ''max_time'' (conds share)) \<and>
     (ie_room (ce_ingest env) \<and> (\<forall>d. ie_fresh (ce_ingest env) d \<noteq> None) \<longrightarrow>
        map (\<lambda>(n, v). (word_str n, word_str v)) (cond_tags (cond report)) =
        map (\<lambda>(n, v). (dictionary_key (drop 4 n), dictionary_key v)) (filter is_tag_cond (conds share)))"
  using parse_conditions_result [OF assms] unfolding condition_state_def by blast

definition sample_condition_env :: condition_env where
  "sample_condition_env =
     \<lparr>ce_ingest = sample_ingest_env, histogram_max_time_var = 10, histogram_size_var = 512, settings_histogram_size = 512\<rparr>"

definition sample_share :: pinba_share where
  "sample_share =
     zero_share\<lparr>conds := [(''min_time'', ''0.5''), (''tag.app'', ''web''), (''min_time'', ''2'')], cond_num := 3\<rparr>"

lemma sample_available: "words_available sample_ingest_env" "no_null_word sample_dictionary"
proof -
  show "words_available sample_ingest_env" using sample_fresh_words by (simp add: words_available_def) (simp add: sample_ingest_env_def)
  show "no_null_word sample_dictionary" by (simp add: no_null_word_def sample_dictionary_def words_of_def)
qed

theorem report_conditions_of_comment_witness:
  "case pinba_parse_conditions sample_condition_env sample_share zero_std sample_dictionary of
     (report, d') \<Rightarrow> dictionary_ok 24 ({#5#} + mset (map word_addr (cond_words report))) d' \<and> flags report = 6 \<and>
       min_time (cond report) = FNum 2 \<and>
       map (\<lambda>(n, v). (word_str n, word_str v)) (cond_tags (cond report)) = [(''app'', ''web'')]"
proof -
  obtain report d' where p: "pinba_parse_conditions sample_condition_env sample_share zero_std sample_dictionary = (report, d')"
    by fastforce
  have s: "conds sample_share = [(''min_time'', ''0.5''), (''tag.app'', ''web''), (''min_time'', ''2'')]"
    "cond_num sample_share = 3" by (simp_all add: sample_share_def)
  then have l: "length (conds sample_share) = 3" by simp
  have e: "ce_ingest sample_condition_env = sample_ingest_env" "ie_word_size sample_ingest_env = 24" "ie_room sample_ingest_env"
    "\<forall>d. ie_fresh sample_ingest_env d \<noteq> None"
    by (simp_all add: sample_condition_env_def sample_ingest_env_def)
  have c: "condition_flags (conds sample_share) = 6" "time_value (last_value ''min_time'' (conds sample_share)) = FNum 2"
    "map (\<lambda>(n, v). (dictionary_key (drop 4 n), dictionary_key v)) (filter is_tag_cond (conds sample_share)) = [(''app'', ''web'')]"
    by (simp_all add: s condition_flags_def is_tag_cond_def last_value_def dictionary_key_def) code_simp
  show ?thesis
    using report_conditions_of_comment [of sample_condition_env "{#5#}" sample_dictionary sample_share report d']
      sample_dictionary_ok sample_available p by (simp add: e s(2) l c)
qed

end
