(* ===== verification/Report_Catalog.thy ===== *)
theory Report_Catalog
  imports Daemon Report_Conditions
begin

text \<open>
  The catalog of reports (\<^verbatim>\<open>src/ha_pinba.cc\<close>, \<^verbatim>\<open>src/pinba_regenerate_report.h\<close>, \<^verbatim>\<open>src/data.cc\<close>): which
  reports exist, under which index, and which tables use them. A report is created by the first
  query of a table with its index and destroyed when the last table with that index is dropped.
  Reports are pointed to from several places, so they live in a heap by their address; \<open>None\<close> as
  the result of an operation is undefined behaviour (a freed report, a null key or a missing
  parameter is used).
\<close>

section \<open>State\<close>

datatype report_object = Base_object base_entry | Tag_object tag_entry | Rtag_object rtag_entry

fun object_std :: "report_object \<Rightarrow> pinba_std_report" where
  "object_std (Base_object (t, R)) = std R"
| "object_std (Tag_object (Tag_info shape R)) = tg_std R"
| "object_std (Tag_object (Tag_report shape two R)) = tg_std R"
| "object_std (Rtag_object (Rtag_info t R)) = rt_std R"
| "object_std (Rtag_object (Rtag_report t R)) = rt_std R"

fun upd_object_std :: "(pinba_std_report \<Rightarrow> pinba_std_report) \<Rightarrow> report_object \<Rightarrow> report_object" where
  "upd_object_std f (Base_object (t, R)) = Base_object (t, upd_report_std f R)"
| "upd_object_std f (Tag_object (Tag_info shape R)) = Tag_object (Tag_info shape (upd_tag_std f R))"
| "upd_object_std f (Tag_object (Tag_report shape two R)) = Tag_object (Tag_report shape two (upd_tag_std f R))"
| "upd_object_std f (Rtag_object (Rtag_info t R)) = Rtag_object (Rtag_info t (upd_rtag_std f R))"
| "upd_object_std f (Rtag_object (Rtag_report t R)) = Rtag_object (Rtag_report t (upd_rtag_std f R))"

text \<open>The words a request-tag report owns besides those of its conditions.\<close>

fun object_tags :: "report_object \<Rightarrow> pinba_word list" where
  "object_tags (Rtag_object (Rtag_info t R)) = rt_tags R"
| "object_tags (Rtag_object (Rtag_report t R)) = rt_tags R"
| "object_tags ob = []"

text \<open>
  The tables of a report, each with its type as a pointer (\<^verbatim>\<open>pinba_table_type_to_ptr\<close>), 0 for a null
  pointer.
\<close>

record pinba_report_tables =
  tables_std :: "nat option"
  tables_names :: "nat pinba_map"

text \<open>
  \<open>reports_of\<close> and \<open>reports_arr\<close> are the registries of the three kinds: \<^verbatim>\<open>base_reports\<close>, \<^verbatim>\<open>tag_reports\<close>
  and \<^verbatim>\<open>rtag_reports\<close> of the daemon and their arrays. \<open>open_tables\<close> is \<^verbatim>\<open>pinba_open_tables\<close>; a share is
  known by the name of its table.
\<close>

record report_catalog =
  cat_heap :: "nat \<Rightarrow> report_object option"
  cat_next :: nat
  reports_of :: "pinba_report_kind \<Rightarrow> nat pinba_map"
  reports_arr :: "pinba_report_kind \<Rightarrow> nat pinba_array"
  reports_to_tables :: "pinba_report_tables pinba_map"
  tables_to_reports :: "string pinba_map"
  open_tables :: "pinba_share pinba_map"
  cat_dictionary :: pinba_dictionary

definition map_del :: "'v pinba_map \<Rightarrow> string \<Rightarrow> 'v pinba_map" where
  "map_del m k = fst (pinba_map_delete m k)"

text \<open>The loop of \<^verbatim>\<open>pinba_array_delete\<close> reads a null pointer after a growth that failed.\<close>

definition array_remove :: "nat pinba_array \<Rightarrow> nat \<Rightarrow> nat pinba_array option" where
  "array_remove arr report =
     (if arr_data arr = None \<and> arr_size arr \<noteq> 0 then None else Some (snd (pinba_array_delete arr report)))"

section \<open>Destroying a report\<close>

definition pinba_std_report_dtor :: "pinba_std_report \<Rightarrow> pinba_dictionary \<Rightarrow> pinba_dictionary" where
  "pinba_std_report_dtor s d =
     pinba_words_release (live_words (map snd (cond_tags (cond s))))
       (pinba_words_release (live_words (map fst (cond_tags (cond s)))) d)"

text \<open>
  The destructors of the three kinds, called by holders of the locks (\<^verbatim>\<open>lock\<close> is 0): the rows are freed,
  the words released and the object is gone.
\<close>

definition pinba_report_dtor :: "nat \<Rightarrow> report_catalog \<Rightarrow> report_catalog option" where
  "pinba_report_dtor report c =
     (case cat_heap c report of
        None \<Rightarrow> None
      | Some ob \<Rightarrow> Some (c\<lparr>cat_dictionary := pinba_std_report_dtor (object_std ob) (cat_dictionary c),
                           cat_heap := (cat_heap c)(report := None)\<rparr>))"

definition pinba_tag_report_dtor :: "nat \<Rightarrow> report_catalog \<Rightarrow> report_catalog option" where
  "pinba_tag_report_dtor report c =
     (case cat_heap c report of
        None \<Rightarrow> None
      | Some ob \<Rightarrow> Some (c\<lparr>cat_dictionary := pinba_std_report_dtor (object_std ob) (cat_dictionary c),
                           cat_heap := (cat_heap c)(report := None)\<rparr>))"

definition pinba_rtag_report_dtor :: "nat \<Rightarrow> report_catalog \<Rightarrow> report_catalog option" where
  "pinba_rtag_report_dtor report c =
     (case cat_heap c report of
        None \<Rightarrow> None
      | Some ob \<Rightarrow>
          Some (c\<lparr>cat_dictionary := pinba_words_release (object_tags ob) (pinba_std_report_dtor (object_std ob) (cat_dictionary c)),
                  cat_heap := (cat_heap c)(report := None)\<rparr>))"

section \<open>The index of a share\<close>

definition type_code :: "pinba_report_type \<Rightarrow> nat" where
  "type_code t =
     (case t of PINBA_TABLE_UNKNOWN \<Rightarrow> 0 | PINBA_TABLE_STATUS \<Rightarrow> 1 | PINBA_TABLE_ACTIVE_REPORTS \<Rightarrow> 2
      | PINBA_TABLE_REQUEST \<Rightarrow> 3 | PINBA_TABLE_TIMER \<Rightarrow> 4 | PINBA_TABLE_TIMERTAG \<Rightarrow> 5 | PINBA_TABLE_TAG \<Rightarrow> 6
      | PINBA_TABLE_HISTOGRAM_VIEW \<Rightarrow> 7 | PINBA_TABLE_REPORT_INFO \<Rightarrow> 8
      | PINBA_TABLE_REPORT1 \<Rightarrow> 9 | PINBA_TABLE_REPORT2 \<Rightarrow> 10 | PINBA_TABLE_REPORT3 \<Rightarrow> 11 | PINBA_TABLE_REPORT4 \<Rightarrow> 12
      | PINBA_TABLE_REPORT5 \<Rightarrow> 13 | PINBA_TABLE_REPORT6 \<Rightarrow> 14 | PINBA_TABLE_REPORT7 \<Rightarrow> 15 | PINBA_TABLE_REPORT8 \<Rightarrow> 16
      | PINBA_TABLE_REPORT9 \<Rightarrow> 17 | PINBA_TABLE_REPORT10 \<Rightarrow> 18 | PINBA_TABLE_REPORT11 \<Rightarrow> 19 | PINBA_TABLE_REPORT12 \<Rightarrow> 20
      | PINBA_TABLE_REPORT13 \<Rightarrow> 21 | PINBA_TABLE_REPORT14 \<Rightarrow> 22 | PINBA_TABLE_REPORT15 \<Rightarrow> 23 | PINBA_TABLE_REPORT16 \<Rightarrow> 24
      | PINBA_TABLE_REPORT17 \<Rightarrow> 25 | PINBA_TABLE_REPORT18 \<Rightarrow> 26
      | PINBA_TABLE_TAG_INFO \<Rightarrow> 27 | PINBA_TABLE_TAG2_INFO \<Rightarrow> 28 | PINBA_TABLE_TAGN_INFO \<Rightarrow> 29
      | PINBA_TABLE_TAG_REPORT \<Rightarrow> 30 | PINBA_TABLE_TAG2_REPORT \<Rightarrow> 31 | PINBA_TABLE_TAGN_REPORT \<Rightarrow> 32
      | PINBA_TABLE_TAG_REPORT2 \<Rightarrow> 33 | PINBA_TABLE_TAG2_REPORT2 \<Rightarrow> 34 | PINBA_TABLE_TAGN_REPORT2 \<Rightarrow> 35
      | PINBA_TABLE_RTAG_INFO \<Rightarrow> 36 | PINBA_TABLE_RTAG2_INFO \<Rightarrow> 37 | PINBA_TABLE_RTAGN_INFO \<Rightarrow> 38
      | PINBA_TABLE_RTAG_REPORT \<Rightarrow> 39 | PINBA_TABLE_RTAG2_REPORT \<Rightarrow> 40 | PINBA_TABLE_RTAGN_REPORT \<Rightarrow> 41)"

definition PINBA_MAX_LINE_LEN :: nat where [simp]: "PINBA_MAX_LINE_LEN = 8192"

text \<open>The type whose report a share shows: a histogram view shows the report of another type.\<close>

definition report_type_of :: "pinba_share \<Rightarrow> pinba_report_type" where
  "report_type_of share =
     (if table_type share = PINBA_TABLE_HISTOGRAM_VIEW then hv_table_type share else table_type share)"

text \<open>One step of the loops with \<^verbatim>\<open>snprintf\<close> at the end of the index: nothing more once it is full.\<close>

definition id_append :: "string \<Rightarrow> string \<Rightarrow> string" where
  "id_append s index =
     (if length index < PINBA_MAX_LINE_LEN - 1 then take (PINBA_MAX_LINE_LEN - 1) (index @ s) else index)"

definition id_param :: "string \<Rightarrow> string" where
  "id_param p = CHR ''|'' # p"

definition id_cond :: "string \<times> string \<Rightarrow> string" where
  "id_cond c = CHR ''|'' # fst c @ CHR ''='' # snd c"

definition pinba_get_tag_report_id :: "pinba_share \<Rightarrow> pinba_share" where
  "pinba_get_tag_report_id share =
     (let index = take (PINBA_MAX_LINE_LEN - 1) (dec_string (type_code (report_type_of share)));
          index = fold (\<lambda>p. id_append (id_param p)) (take (params_num share) (params share)) index;
          index = fold (\<lambda>c. id_append (id_cond c)) (take (cond_num share) (conds share)) index
      in share\<lparr>share_index := index\<rparr>)"

definition pinba_get_report_id :: "pinba_share \<Rightarrow> pinba_share" where
  "pinba_get_report_id share =
     (let index = take (PINBA_MAX_LINE_LEN - 1) (dec_string (type_code (report_type_of share)));
          index = fold (\<lambda>c. id_append (id_cond c)) (take (cond_num share) (conds share)) index
      in share\<lparr>share_index := index\<rparr>)"

definition pinba_get_report :: "pinba_report_kind \<Rightarrow> pinba_share \<Rightarrow> report_catalog \<Rightarrow> nat option" where
  "pinba_get_report kind share c = pinba_map_get (reports_of c kind) (share_index share)"

section \<open>Tables of a report\<close>

definition pinba_update_report_tables :: "nat \<Rightarrow> string \<Rightarrow> report_catalog \<Rightarrow> bool \<times> report_catalog" where
  "pinba_update_report_tables report index c =
     (case pinba_map_get (reports_to_tables c) index of
        None \<Rightarrow> (False, c)
      | Some rt \<Rightarrow>
          (True,
           if tables_std rt = None
           then c\<lparr>cat_heap := (cat_heap c)(report :=
                    map_option (upd_object_std (\<lambda>s. s\<lparr>use_cnt := of_nat (pinba_map_count (tables_names rt))\<rparr>)) (cat_heap c report)),
                  reports_to_tables := pinba_map_add (reports_to_tables c) index (rt\<lparr>tables_std := Some report\<rparr>)\<rparr>
           else c))"

text \<open>
  The part of the destruction that depends on the kind of the report. The key of the registry is
  \<^verbatim>\<open>std->index\<close>; it may be a null pointer, which the hash of the map dereferences.
\<close>

definition unregister_report :: "nat \<Rightarrow> report_object \<Rightarrow> report_catalog \<Rightarrow> report_catalog option" where
  "unregister_report report ob c =
     (let kind = report_kind (object_std ob)
      in case std_index (object_std ob) of
           None \<Rightarrow> None
         | Some key \<Rightarrow>
             (case array_remove (reports_arr c kind) report of
                None \<Rightarrow> None
              | Some arr \<Rightarrow>
                  let c = c\<lparr>reports_of := (reports_of c)(kind := map_del (reports_of c kind) key),
                            reports_arr := (reports_arr c)(kind := arr)\<rparr>
                  in (case kind of
                        PINBA_BASE_REPORT_KIND \<Rightarrow> pinba_report_dtor report c
                      | PINBA_TAG_REPORT_KIND \<Rightarrow> pinba_tag_report_dtor report c
                      | PINBA_RTAG_REPORT_KIND \<Rightarrow> pinba_rtag_report_dtor report c)))"

definition pinba_table_to_report_dtor :: "string \<Rightarrow> report_catalog \<Rightarrow> report_catalog option" where
  "pinba_table_to_report_dtor name c =
     (case pinba_map_get (tables_to_reports c) name of
        None \<Rightarrow> Some c
      | Some index \<Rightarrow>
          let c = c\<lparr>tables_to_reports := map_del (tables_to_reports c) name\<rparr>
          in case pinba_map_get (reports_to_tables c) index of
               None \<Rightarrow> Some c
             | Some rt \<Rightarrow>
                 let rt = rt\<lparr>tables_names := map_del (tables_names rt) name\<rparr>;
                     c = c\<lparr>reports_to_tables := pinba_map_add (reports_to_tables c) index rt\<rparr>
                 in case tables_std rt of
                      None \<Rightarrow>
                        Some (if pinba_map_count (tables_names rt) = 0
                              then c\<lparr>reports_to_tables := map_del (reports_to_tables c) index\<rparr> else c)
                    | Some report \<Rightarrow>
                        (case cat_heap c report of
                           None \<Rightarrow> None
                         | Some ob \<Rightarrow>
                             let ob = upd_object_std (\<lambda>s. s\<lparr>use_cnt := use_cnt s - 1\<rparr>) ob;
                                 c = c\<lparr>cat_heap := (cat_heap c)(report := Some ob)\<rparr>
                             in if use_cnt (object_std ob) = 0
                                then unregister_report report ob (c\<lparr>reports_to_tables := map_del (reports_to_tables c) index\<rparr>)
                                else Some c))"

section \<open>Opening, renaming and dropping tables\<close>

datatype ha_result = HA_OK | HA_ERR_INTERNAL_ERROR | HA_WRONG_CREATE_OPTION

definition pinba_table_type_to_ptr :: "pinba_report_type \<Rightarrow> nat" where
  "pinba_table_type_to_ptr t = type_code t + 1"

text \<open>\<^verbatim>\<open>pinba_map_get\<close> of a pointer: null for a missing key.\<close>

definition map_ptr :: "nat pinba_map \<Rightarrow> string \<Rightarrow> nat" where
  "map_ptr m k = (case pinba_map_get m k of None \<Rightarrow> 0 | Some p \<Rightarrow> p)"

definition ha_create :: "string option \<Rightarrow> ha_result" where
  "ha_create comment =
     (case comment of
        None \<Rightarrow> HA_WRONG_CREATE_OPTION
      | Some str \<Rightarrow>
          let type = fst (pinba_get_table_type str)
          in if type = PINBA_TABLE_UNKNOWN then HA_WRONG_CREATE_OPTION
             else if fst (pinba_parse_params (\<lambda>_. True) str type None) < 0 then HA_WRONG_CREATE_OPTION
             else HA_OK)"

text \<open>
  \<^verbatim>\<open>get_share\<close>: the share of an open table, or a new one made from the comment. \<open>room\<close> says whether the
  share can be allocated and \<open>mem\<close> whether its percentiles can; a missing comment is a table
  without \<^verbatim>\<open>TABLE_SHARE\<close>.
\<close>

definition get_share ::
  "bool \<Rightarrow> (nat \<Rightarrow> bool) \<Rightarrow> string \<Rightarrow> string option \<Rightarrow> report_catalog \<Rightarrow> pinba_share option \<times> report_catalog" where
  "get_share room mem name comment c =
     (let keep = (\<lambda>share. let share = share\<lparr>use_count := use_count share + 1\<rparr>
                          in (Some share, c\<lparr>open_tables := pinba_map_add (open_tables c) name share\<rparr>))
      in case pinba_map_get (open_tables c) name of
           Some share \<Rightarrow> keep share
         | None \<Rightarrow>
             (case comment of
                None \<Rightarrow> (None, c)
              | Some str \<Rightarrow>
                  (case pinba_get_table_type str of
                     (type, kind) \<Rightarrow>
                       if type = PINBA_TABLE_UNKNOWN \<or> \<not> room then (None, c)
                       else case pinba_parse_params mem str type (Some zero_share) of
                              (num, None) \<Rightarrow> (None, c)
                            | (num, Some share) \<Rightarrow>
                                if num < 0 then (None, c)
                                else
                                  let share = share\<lparr>table_type := type, use_count := 0, table_name := name, share_index := []\<rparr>
                                  in keep (if kind = PINBA_BASE_REPORT_KIND then pinba_get_report_id share
                                           else pinba_get_tag_report_id share))))"

definition free_share :: "string \<Rightarrow> report_catalog \<Rightarrow> report_catalog option" where
  "free_share name c =
     (case pinba_map_get (open_tables c) name of
        None \<Rightarrow> None
      | Some share \<Rightarrow>
          let share = share\<lparr>use_count := use_count share - 1\<rparr>
          in Some (c\<lparr>open_tables := if use_count share = 0 then map_del (open_tables c) name
                                    else pinba_map_add (open_tables c) name share\<rparr>))"

text \<open>The body of \<^verbatim>\<open>ha_pinba::open\<close>: the table is entered under the index of its report.\<close>

definition attach_table :: "string \<Rightarrow> pinba_share \<Rightarrow> report_catalog \<Rightarrow> report_catalog option" where
  "attach_table name share c =
     (let index = share_index share; ptr = pinba_table_type_to_ptr (table_type share);
          c1 = (case pinba_map_get (reports_to_tables c) index of
                  None \<Rightarrow>
                    Some (c\<lparr>reports_to_tables := pinba_map_add (reports_to_tables c) index
                             \<lparr>tables_std = None, tables_names = pinba_map_add pinba_map_create name ptr\<rparr>\<rparr>)
                | Some rt \<Rightarrow>
                    if map_ptr (tables_names rt) name \<noteq> 0 then Some c
                    else
                      let c' = c\<lparr>reports_to_tables := pinba_map_add (reports_to_tables c) index
                                  (rt\<lparr>tables_names := pinba_map_add (tables_names rt) name ptr\<rparr>)\<rparr>
                      in case tables_std rt of
                           None \<Rightarrow> Some c'
                         | Some report \<Rightarrow>
                             (case cat_heap c report of
                                None \<Rightarrow> None
                              | Some ob \<Rightarrow>
                                  Some (c'\<lparr>cat_heap := (cat_heap c)(report \<mapsto>
                                     upd_object_std (\<lambda>s. s\<lparr>use_cnt := use_cnt s + 1\<rparr>) ob)\<rparr>)))
      in case c1 of
           None \<Rightarrow> None
         | Some c1 \<Rightarrow>
             (case pinba_map_get (tables_to_reports c1) name of
                Some _ \<Rightarrow> Some c1
              | None \<Rightarrow> Some (c1\<lparr>tables_to_reports := pinba_map_add (tables_to_reports c1) name index\<rparr>)))"

definition ha_open ::
  "bool \<Rightarrow> (nat \<Rightarrow> bool) \<Rightarrow> string \<Rightarrow> string option \<Rightarrow> report_catalog \<Rightarrow> (ha_result \<times> report_catalog) option" where
  "ha_open room mem name comment c =
     (case get_share room mem name comment c of
        (None, c) \<Rightarrow> Some (HA_ERR_INTERNAL_ERROR, c)
      | (Some share, c) \<Rightarrow> map_option (\<lambda>c. (HA_OK, c)) (attach_table name share c))"

definition ha_close :: "string \<Rightarrow> report_catalog \<Rightarrow> report_catalog option" where
  "ha_close name c = free_share name c"

definition ha_rename_table :: "string \<Rightarrow> string \<Rightarrow> report_catalog \<Rightarrow> ha_result \<times> report_catalog" where
  "ha_rename_table from to c =
     (case pinba_map_get (tables_to_reports c) from of
        None \<Rightarrow> (HA_OK, c)
      | Some index \<Rightarrow>
          if pinba_map_get (tables_to_reports c) to \<noteq> None then (HA_ERR_INTERNAL_ERROR, c)
          else
            let c = (case pinba_map_get (reports_to_tables c) index of
                       None \<Rightarrow> c
                     | Some rt \<Rightarrow>
                         c\<lparr>reports_to_tables := pinba_map_add (reports_to_tables c) index
                            (rt\<lparr>tables_names := pinba_map_add (map_del (tables_names rt) from) to
                                 (map_ptr (tables_names rt) from)\<rparr>)\<rparr>)
            in (HA_OK, c\<lparr>tables_to_reports := pinba_map_add (map_del (tables_to_reports c) from) to index\<rparr>))"

definition ha_delete_table :: "string \<Rightarrow> report_catalog \<Rightarrow> report_catalog option" where
  "ha_delete_table name c = pinba_table_to_report_dtor name c"

section \<open>Creating a report\<close>

text \<open>
  Which allocations of a constructor succeed: of the report, of the array of its tags, of the buffer
  for its keys, of its word array, and of the new cell of the registry.
\<close>

record create_env =
  cre_conditions :: condition_env
  cre_report :: bool
  cre_tags :: bool
  cre_index :: bool
  cre_words :: bool
  cre_array :: bool

text \<open>A new object is entered in the registry of its kind.\<close>

definition enter_report :: "pinba_report_kind \<Rightarrow> string \<Rightarrow> report_object \<Rightarrow> report_catalog \<Rightarrow> report_catalog" where
  "enter_report kind index ob c =
     c\<lparr>cat_heap := (cat_heap c)(cat_next c \<mapsto> ob), cat_next := cat_next c + 1,
       reports_of := (reports_of c)(kind := pinba_map_add (reports_of c kind) index (cat_next c))\<rparr>"

definition free_object :: "nat \<Rightarrow> report_catalog \<Rightarrow> report_catalog" where
  "free_object report c = c\<lparr>cat_heap := (cat_heap c)(report := None)\<rparr>"

definition set_array :: "pinba_report_kind \<Rightarrow> nat pinba_array \<Rightarrow> report_catalog \<Rightarrow> report_catalog" where
  "set_array kind arr c = c\<lparr>reports_arr := (reports_arr c)(kind := arr)\<rparr>"

definition drop_key :: "pinba_report_kind \<Rightarrow> string \<Rightarrow> report_catalog \<Rightarrow> report_catalog" where
  "drop_key kind index c = c\<lparr>reports_of := (reports_of c)(kind := map_del (reports_of c kind) index)\<rparr>"

text \<open>
  The constructors of base reports are the same function but for the type. When they fail they take
  the report out of the registry, but what its header holds is not released.
\<close>

definition regenerate_base ::
  "pinba_report_type \<Rightarrow> create_env \<Rightarrow> pinba_share \<Rightarrow> report_catalog \<Rightarrow> (nat option \<times> report_catalog) option" where
  "regenerate_base t env share c =
     (let kind = PINBA_BASE_REPORT_KIND; index = share_index share
      in case pinba_map_get (reports_of c kind) index of
           Some report \<Rightarrow> Some (Some report, c)
         | None \<Rightarrow>
             if \<not> cre_report env then Some (None, c)
             else
               (case pinba_parse_conditions (cre_conditions env) share zero_std (cat_dictionary c) of
                  (s, d) \<Rightarrow>
                    let s = s\<lparr>std_index := Some index, rtype := t, time_interval := 1\<rparr>;
                        report = cat_next c;
                        c = enter_report kind index (Base_object (t, \<lparr>std = s, results = None, totals = zero_totals\<rparr>))
                              (c\<lparr>cat_dictionary := d\<rparr>)
                    in (case pinba_array_add (cre_array env) (reports_arr c kind) report of
                          (rc, arr) \<Rightarrow>
                            if rc < 0 then Some (None, free_object report (drop_key kind index (set_array kind arr c)))
                            else
                              (case pinba_update_report_tables report index (set_array kind arr c) of
                                 (True, c) \<Rightarrow> Some (Some report, c)
                               | (False, c) \<Rightarrow>
                                   map_option (\<lambda>arr. (None, free_object report (drop_key kind index (set_array kind arr c))))
                                     (array_remove (reports_arr c kind) report)))))"

text \<open>
  The end of the constructors of tag and request-tag reports: when the registration fails only the
  destructor runs.
\<close>

definition publish_report ::
  "create_env \<Rightarrow> pinba_report_kind \<Rightarrow> string \<Rightarrow> report_object \<Rightarrow> report_catalog \<Rightarrow> (nat option \<times> report_catalog) option" where
  "publish_report env kind index ob c =
     (let report = cat_next c; c = enter_report kind index ob c;
          dtor = (if kind = PINBA_RTAG_REPORT_KIND then pinba_rtag_report_dtor else pinba_tag_report_dtor)
      in case pinba_array_add (cre_array env) (reports_arr c kind) report of
           (rc, arr) \<Rightarrow>
             if rc < 0 then map_option (Pair None) (dtor report (set_array kind arr c))
             else
               (case pinba_update_report_tables report index (set_array kind arr c) of
                  (True, c) \<Rightarrow> Some (Some report, c)
                | (False, c) \<Rightarrow> map_option (Pair None) (dtor report c)))"

end
