(* ===== verification/Report_Constructors.thy ===== *)
theory Report_Constructors
  imports Report_Catalog
begin

text \<open>
  The constructors of reports: \<^verbatim>\<open>pinba_regenerate_report*\<close> (\<^verbatim>\<open>src/pinba_regenerate_report.h\<close>) for base
  reports, \<^verbatim>\<open>pinba_regenerate_tag*\<close> and \<^verbatim>\<open>pinba_regenerate_rtag*\<close> (\<^verbatim>\<open>src/ha_pinba.cc\<close>), and
  \<^verbatim>\<open>ha_pinba::info\<close>, which creates the report of a table that has none yet.
\<close>

unbundle bit_operations_syntax

section \<open>Base reports\<close>

definition pinba_regenerate_report_info :: "create_env \<Rightarrow> pinba_share \<Rightarrow> report_catalog \<Rightarrow> (nat option \<times> report_catalog) option" where
  "pinba_regenerate_report_info = regenerate_base PINBA_TABLE_REPORT_INFO"

definition pinba_regenerate_report1 :: "create_env \<Rightarrow> pinba_share \<Rightarrow> report_catalog \<Rightarrow> (nat option \<times> report_catalog) option" where
  "pinba_regenerate_report1 = regenerate_base PINBA_TABLE_REPORT1"

definition pinba_regenerate_report2 :: "create_env \<Rightarrow> pinba_share \<Rightarrow> report_catalog \<Rightarrow> (nat option \<times> report_catalog) option" where
  "pinba_regenerate_report2 = regenerate_base PINBA_TABLE_REPORT2"

definition pinba_regenerate_report3 :: "create_env \<Rightarrow> pinba_share \<Rightarrow> report_catalog \<Rightarrow> (nat option \<times> report_catalog) option" where
  "pinba_regenerate_report3 = regenerate_base PINBA_TABLE_REPORT3"

definition pinba_regenerate_report4 :: "create_env \<Rightarrow> pinba_share \<Rightarrow> report_catalog \<Rightarrow> (nat option \<times> report_catalog) option" where
  "pinba_regenerate_report4 = regenerate_base PINBA_TABLE_REPORT4"

definition pinba_regenerate_report5 :: "create_env \<Rightarrow> pinba_share \<Rightarrow> report_catalog \<Rightarrow> (nat option \<times> report_catalog) option" where
  "pinba_regenerate_report5 = regenerate_base PINBA_TABLE_REPORT5"

definition pinba_regenerate_report6 :: "create_env \<Rightarrow> pinba_share \<Rightarrow> report_catalog \<Rightarrow> (nat option \<times> report_catalog) option" where
  "pinba_regenerate_report6 = regenerate_base PINBA_TABLE_REPORT6"

definition pinba_regenerate_report7 :: "create_env \<Rightarrow> pinba_share \<Rightarrow> report_catalog \<Rightarrow> (nat option \<times> report_catalog) option" where
  "pinba_regenerate_report7 = regenerate_base PINBA_TABLE_REPORT7"

definition pinba_regenerate_report8 :: "create_env \<Rightarrow> pinba_share \<Rightarrow> report_catalog \<Rightarrow> (nat option \<times> report_catalog) option" where
  "pinba_regenerate_report8 = regenerate_base PINBA_TABLE_REPORT8"

definition pinba_regenerate_report9 :: "create_env \<Rightarrow> pinba_share \<Rightarrow> report_catalog \<Rightarrow> (nat option \<times> report_catalog) option" where
  "pinba_regenerate_report9 = regenerate_base PINBA_TABLE_REPORT9"

definition pinba_regenerate_report10 :: "create_env \<Rightarrow> pinba_share \<Rightarrow> report_catalog \<Rightarrow> (nat option \<times> report_catalog) option" where
  "pinba_regenerate_report10 = regenerate_base PINBA_TABLE_REPORT10"

definition pinba_regenerate_report11 :: "create_env \<Rightarrow> pinba_share \<Rightarrow> report_catalog \<Rightarrow> (nat option \<times> report_catalog) option" where
  "pinba_regenerate_report11 = regenerate_base PINBA_TABLE_REPORT11"

definition pinba_regenerate_report12 :: "create_env \<Rightarrow> pinba_share \<Rightarrow> report_catalog \<Rightarrow> (nat option \<times> report_catalog) option" where
  "pinba_regenerate_report12 = regenerate_base PINBA_TABLE_REPORT12"

definition pinba_regenerate_report13 :: "create_env \<Rightarrow> pinba_share \<Rightarrow> report_catalog \<Rightarrow> (nat option \<times> report_catalog) option" where
  "pinba_regenerate_report13 = regenerate_base PINBA_TABLE_REPORT13"

definition pinba_regenerate_report14 :: "create_env \<Rightarrow> pinba_share \<Rightarrow> report_catalog \<Rightarrow> (nat option \<times> report_catalog) option" where
  "pinba_regenerate_report14 = regenerate_base PINBA_TABLE_REPORT14"

definition pinba_regenerate_report15 :: "create_env \<Rightarrow> pinba_share \<Rightarrow> report_catalog \<Rightarrow> (nat option \<times> report_catalog) option" where
  "pinba_regenerate_report15 = regenerate_base PINBA_TABLE_REPORT15"

definition pinba_regenerate_report16 :: "create_env \<Rightarrow> pinba_share \<Rightarrow> report_catalog \<Rightarrow> (nat option \<times> report_catalog) option" where
  "pinba_regenerate_report16 = regenerate_base PINBA_TABLE_REPORT16"

definition pinba_regenerate_report17 :: "create_env \<Rightarrow> pinba_share \<Rightarrow> report_catalog \<Rightarrow> (nat option \<times> report_catalog) option" where
  "pinba_regenerate_report17 = regenerate_base PINBA_TABLE_REPORT17"

definition pinba_regenerate_report18 :: "create_env \<Rightarrow> pinba_share \<Rightarrow> report_catalog \<Rightarrow> (nat option \<times> report_catalog) option" where
  "pinba_regenerate_report18 = regenerate_base PINBA_TABLE_REPORT18"

section \<open>Timer-tag reports\<close>

text \<open>
  The ids of the tags of a report, in the order of the parameters that name them. \<open>None\<close> is the access
  to a parameter the comment does not have, \<open>Some None\<close> a tag that does not exist.
\<close>

fun find_tags :: "nat list \<Rightarrow> pinba_share \<Rightarrow> tag_registry \<Rightarrow> int list option option" where
  "find_tags [] share g = Some (Some [])"
| "find_tags (i # is) share g =
     (if i \<ge> length (params share) then None
      else case pinba_tag_get_by_name (Some (params share ! i)) g of
             None \<Rightarrow> Some None
           | Some tag \<Rightarrow>
               map_option (map_option (\<lambda>ids. int (unat (tag_id tag)) # ids)) (find_tags is share g))"

text \<open>
  The object of a type. The array \<^verbatim>\<open>words\<close> is not initialised; reports of one and two tags have none and
  never read it.
\<close>

definition new_tag_object :: "pinba_report_type \<Rightarrow> pinba_std_report \<Rightarrow> int list \<Rightarrow> report_object" where
  "new_tag_object t s ids =
     (let words = replicate (length ids) null_word;
          info = \<lparr>tg_std = s, tg_tag_id = ids, tg_words = words, tg_results = None\<rparr>;
          report = \<lparr>tg_std = s, tg_tag_id = ids, tg_words = words, tg_results = None\<rparr>
      in Tag_object
           (case t of PINBA_TABLE_TAG_INFO \<Rightarrow> Tag_info OneTag info
            | PINBA_TABLE_TAG2_INFO \<Rightarrow> Tag_info TwoTags info
            | PINBA_TABLE_TAGN_INFO \<Rightarrow> Tag_info NTags info
            | PINBA_TABLE_TAG_REPORT \<Rightarrow> Tag_report OneTag False report
            | PINBA_TABLE_TAG2_REPORT \<Rightarrow> Tag_report TwoTags False report
            | PINBA_TABLE_TAGN_REPORT \<Rightarrow> Tag_report NTags False report
            | PINBA_TABLE_TAG_REPORT2 \<Rightarrow> Tag_report OneTag True report
            | PINBA_TABLE_TAG2_REPORT2 \<Rightarrow> Tag_report TwoTags True report
            | _ \<Rightarrow> Tag_report NTags True report))"

text \<open>The assignments to the header after the conditions.\<close>

definition fill_header ::
  "bool \<Rightarrow> pinba_report_kind \<Rightarrow> pinba_report_type \<Rightarrow> string option \<Rightarrow> pinba_std_report \<Rightarrow> pinba_std_report" where
  "fill_header indexed kind t index s =
     s\<lparr>flags := (if indexed then flags s OR PINBA_REPORT_INDEXED else flags s), report_kind := kind, rtype := t,
       std_index := index, time_interval := 1, results_cnt := 0\<rparr>"

text \<open>Reports of one and of two tags: the parameters are read without a look at their number.\<close>

definition regenerate_tags ::
  "nat \<Rightarrow> bool \<Rightarrow> pinba_report_type \<Rightarrow> create_env \<Rightarrow> pinba_share \<Rightarrow> tag_registry \<Rightarrow> report_catalog \<Rightarrow>
   (nat option \<times> report_catalog) option" where
  "regenerate_tags n indexed t env share g c =
     (let kind = PINBA_TAG_REPORT_KIND; index = share_index share
      in case pinba_map_get (reports_of c kind) index of
           Some report \<Rightarrow> Some (Some report, c)
         | None \<Rightarrow>
             (case find_tags [0..<n] share g of
                None \<Rightarrow> None
              | Some None \<Rightarrow> Some (None, c)
              | Some (Some ids) \<Rightarrow>
                  if \<not> cre_report env \<or> \<not> cre_tags env then Some (None, c)
                  else
                    (case pinba_parse_conditions (cre_conditions env) share zero_std (cat_dictionary c) of
                       (s, d) \<Rightarrow>
                         publish_report env kind index
                           (new_tag_object t (fill_header indexed kind t (Some index) s) ids) (c\<lparr>cat_dictionary := d\<rparr>))))"

text \<open>
  Reports of any number of tags; \<open>named\<close> says whether the header gets a copy of the index. Without
  memory for the key buffer or the words the words of the conditions stay retained.
\<close>

definition regenerate_tagsN ::
  "bool \<Rightarrow> bool \<Rightarrow> pinba_report_type \<Rightarrow> create_env \<Rightarrow> pinba_share \<Rightarrow> tag_registry \<Rightarrow> report_catalog \<Rightarrow>
   (nat option \<times> report_catalog) option" where
  "regenerate_tagsN named indexed t env share g c =
     (let kind = PINBA_TAG_REPORT_KIND; index = share_index share
      in case pinba_map_get (reports_of c kind) index of
           Some report \<Rightarrow> Some (Some report, c)
         | None \<Rightarrow>
             if \<not> cre_tags env then Some (None, c)
             else
               (case find_tags [0..<params_num share] share g of
                  None \<Rightarrow> None
                | Some None \<Rightarrow> Some (None, c)
                | Some (Some ids) \<Rightarrow>
                    if \<not> cre_report env then Some (None, c)
                    else
                      (case pinba_parse_conditions (cre_conditions env) share zero_std (cat_dictionary c) of
                         (s, d) \<Rightarrow>
                           if \<not> cre_index env \<or> \<not> cre_words env then Some (None, c\<lparr>cat_dictionary := d\<rparr>)
                           else
                             publish_report env kind index
                               (new_tag_object t (fill_header indexed kind t (if named then Some index else None) s) ids)
                               (c\<lparr>cat_dictionary := d\<rparr>))))"

definition pinba_regenerate_tag_info ::
  "create_env \<Rightarrow> pinba_share \<Rightarrow> tag_registry \<Rightarrow> report_catalog \<Rightarrow> (nat option \<times> report_catalog) option" where
  "pinba_regenerate_tag_info = regenerate_tags 1 False PINBA_TABLE_TAG_INFO"

definition pinba_regenerate_tag2_info ::
  "create_env \<Rightarrow> pinba_share \<Rightarrow> tag_registry \<Rightarrow> report_catalog \<Rightarrow> (nat option \<times> report_catalog) option" where
  "pinba_regenerate_tag2_info = regenerate_tags 2 False PINBA_TABLE_TAG2_INFO"

definition pinba_regenerate_tag_report ::
  "create_env \<Rightarrow> pinba_share \<Rightarrow> tag_registry \<Rightarrow> report_catalog \<Rightarrow> (nat option \<times> report_catalog) option" where
  "pinba_regenerate_tag_report = regenerate_tags 1 True PINBA_TABLE_TAG_REPORT"

definition pinba_regenerate_tag2_report ::
  "create_env \<Rightarrow> pinba_share \<Rightarrow> tag_registry \<Rightarrow> report_catalog \<Rightarrow> (nat option \<times> report_catalog) option" where
  "pinba_regenerate_tag2_report = regenerate_tags 2 True PINBA_TABLE_TAG2_REPORT"

definition pinba_regenerate_tag_report2 ::
  "create_env \<Rightarrow> pinba_share \<Rightarrow> tag_registry \<Rightarrow> report_catalog \<Rightarrow> (nat option \<times> report_catalog) option" where
  "pinba_regenerate_tag_report2 = regenerate_tags 1 True PINBA_TABLE_TAG_REPORT2"

definition pinba_regenerate_tag2_report2 ::
  "create_env \<Rightarrow> pinba_share \<Rightarrow> tag_registry \<Rightarrow> report_catalog \<Rightarrow> (nat option \<times> report_catalog) option" where
  "pinba_regenerate_tag2_report2 = regenerate_tags 2 True PINBA_TABLE_TAG2_REPORT2"

definition pinba_regenerate_tagN_info ::
  "create_env \<Rightarrow> pinba_share \<Rightarrow> tag_registry \<Rightarrow> report_catalog \<Rightarrow> (nat option \<times> report_catalog) option" where
  "pinba_regenerate_tagN_info = regenerate_tagsN True False PINBA_TABLE_TAGN_INFO"

definition pinba_regenerate_tagN_report ::
  "create_env \<Rightarrow> pinba_share \<Rightarrow> tag_registry \<Rightarrow> report_catalog \<Rightarrow> (nat option \<times> report_catalog) option" where
  "pinba_regenerate_tagN_report = regenerate_tagsN True True PINBA_TABLE_TAGN_REPORT"

definition pinba_regenerate_tagN_report2 ::
  "create_env \<Rightarrow> pinba_share \<Rightarrow> tag_registry \<Rightarrow> report_catalog \<Rightarrow> (nat option \<times> report_catalog) option" where
  "pinba_regenerate_tagN_report2 = regenerate_tagsN False True PINBA_TABLE_TAGN_REPORT2"

section \<open>Request-tag reports\<close>

text \<open>
  The words of the tags, each with a reference. When one is missing the owners of the others release
  theirs.
\<close>

fun find_words ::
  "nat list \<Rightarrow> pinba_share \<Rightarrow> pinba_word list \<Rightarrow> pinba_dictionary \<Rightarrow> (pinba_word list option \<times> pinba_dictionary) option" where
  "find_words [] share ws d = Some (Some ws, d)"
| "find_words (i # is) share ws d =
     (if i \<ge> length (params share) then None
      else case pinba_dictionary_lookup (params share ! i) d of
             (None, d) \<Rightarrow> Some (None, pinba_words_release ws d)
           | (Some w, d) \<Rightarrow> find_words is share (ws @ [w]) d)"

definition new_rtag_object :: "pinba_report_type \<Rightarrow> pinba_std_report \<Rightarrow> pinba_word list \<Rightarrow> report_object" where
  "new_rtag_object t s ws =
     Rtag_object
       (if t = PINBA_TABLE_RTAG_INFO \<or> t = PINBA_TABLE_RTAG2_INFO \<or> t = PINBA_TABLE_RTAGN_INFO
        then Rtag_info t \<lparr>rt_std = s, rt_results = None, rt_tags = ws, rt_totals = zero_totals\<rparr>
        else Rtag_report t \<lparr>rt_std = s, rt_results = None, rt_tags = ws, rt_totals = zero_totals\<rparr>)"

text \<open>One and two tags; only \<^verbatim>\<open>rtag2_report\<close> looks at the number of parameters first (\<open>checked\<close>).\<close>

definition regenerate_rtags ::
  "nat \<Rightarrow> bool \<Rightarrow> bool \<Rightarrow> pinba_report_type \<Rightarrow> create_env \<Rightarrow> pinba_share \<Rightarrow> report_catalog \<Rightarrow>
   (nat option \<times> report_catalog) option" where
  "regenerate_rtags n checked indexed t env share c =
     (let kind = PINBA_RTAG_REPORT_KIND; index = share_index share
      in case pinba_map_get (reports_of c kind) index of
           Some report \<Rightarrow> Some (Some report, c)
         | None \<Rightarrow>
             if checked \<and> params_num share < n then Some (None, c)
             else
               (case find_words [0..<n] share [] (cat_dictionary c) of
                  None \<Rightarrow> None
                | Some (None, d) \<Rightarrow> Some (None, c\<lparr>cat_dictionary := d\<rparr>)
                | Some (Some ws, d) \<Rightarrow>
                    if \<not> cre_report env \<or> \<not> cre_tags env then Some (None, c\<lparr>cat_dictionary := pinba_words_release ws d\<rparr>)
                    else
                      (case pinba_parse_conditions (cre_conditions env) share zero_std d of
                         (s, d) \<Rightarrow>
                           publish_report env kind index
                             (new_rtag_object t (fill_header indexed kind t (Some index) s) ws) (c\<lparr>cat_dictionary := d\<rparr>))))"

text \<open>Any number of tags; here \<open>cre_words\<close> is the array \<^verbatim>\<open>values\<close>.\<close>

definition regenerate_rtagsN ::
  "bool \<Rightarrow> pinba_report_type \<Rightarrow> create_env \<Rightarrow> pinba_share \<Rightarrow> report_catalog \<Rightarrow> (nat option \<times> report_catalog) option" where
  "regenerate_rtagsN indexed t env share c =
     (let kind = PINBA_RTAG_REPORT_KIND; index = share_index share
      in case pinba_map_get (reports_of c kind) index of
           Some report \<Rightarrow> Some (Some report, c)
         | None \<Rightarrow>
             if \<not> cre_tags env then Some (None, c)
             else
               (case find_words [0..<params_num share] share [] (cat_dictionary c) of
                  None \<Rightarrow> None
                | Some (None, d) \<Rightarrow> Some (None, c\<lparr>cat_dictionary := d\<rparr>)
                | Some (Some ws, d) \<Rightarrow>
                    if \<not> cre_report env \<or> \<not> cre_words env then Some (None, c\<lparr>cat_dictionary := pinba_words_release ws d\<rparr>)
                    else
                      (case pinba_parse_conditions (cre_conditions env) share zero_std d of
                         (s, d) \<Rightarrow>
                           let s = fill_header indexed kind t (Some index) s
                           in if \<not> cre_index env
                              then Some (None, c\<lparr>cat_dictionary := pinba_words_release ws (pinba_std_report_dtor s d)\<rparr>)
                              else publish_report env kind index (new_rtag_object t s ws) (c\<lparr>cat_dictionary := d\<rparr>))))"

definition pinba_regenerate_rtag_info :: "create_env \<Rightarrow> pinba_share \<Rightarrow> report_catalog \<Rightarrow> (nat option \<times> report_catalog) option" where
  "pinba_regenerate_rtag_info = regenerate_rtags 1 False False PINBA_TABLE_RTAG_INFO"

definition pinba_regenerate_rtag2_info :: "create_env \<Rightarrow> pinba_share \<Rightarrow> report_catalog \<Rightarrow> (nat option \<times> report_catalog) option" where
  "pinba_regenerate_rtag2_info = regenerate_rtags 2 False False PINBA_TABLE_RTAG2_INFO"

definition pinba_regenerate_rtag_report :: "create_env \<Rightarrow> pinba_share \<Rightarrow> report_catalog \<Rightarrow> (nat option \<times> report_catalog) option" where
  "pinba_regenerate_rtag_report = regenerate_rtags 1 False True PINBA_TABLE_RTAG_REPORT"

definition pinba_regenerate_rtag2_report :: "create_env \<Rightarrow> pinba_share \<Rightarrow> report_catalog \<Rightarrow> (nat option \<times> report_catalog) option" where
  "pinba_regenerate_rtag2_report = regenerate_rtags 2 True True PINBA_TABLE_RTAG2_REPORT"

definition pinba_regenerate_rtagN_info :: "create_env \<Rightarrow> pinba_share \<Rightarrow> report_catalog \<Rightarrow> (nat option \<times> report_catalog) option" where
  "pinba_regenerate_rtagN_info = regenerate_rtagsN False PINBA_TABLE_RTAGN_INFO"

definition pinba_regenerate_rtagN_report :: "create_env \<Rightarrow> pinba_share \<Rightarrow> report_catalog \<Rightarrow> (nat option \<times> report_catalog) option" where
  "pinba_regenerate_rtagN_report = regenerate_rtagsN True PINBA_TABLE_RTAGN_REPORT"

section \<open>The report of a table\<close>

text \<open>The constructor of each type, as the cases of \<^verbatim>\<open>ha_pinba::info\<close> name them.\<close>

definition pinba_regenerate ::
  "pinba_report_type \<Rightarrow> create_env \<Rightarrow> pinba_share \<Rightarrow> tag_registry \<Rightarrow> report_catalog \<Rightarrow> (nat option \<times> report_catalog) option" where
  "pinba_regenerate t env share g c =
     (case t of
        PINBA_TABLE_REPORT_INFO \<Rightarrow> pinba_regenerate_report_info env share c
      | PINBA_TABLE_REPORT1 \<Rightarrow> pinba_regenerate_report1 env share c
      | PINBA_TABLE_REPORT2 \<Rightarrow> pinba_regenerate_report2 env share c
      | PINBA_TABLE_REPORT3 \<Rightarrow> pinba_regenerate_report3 env share c
      | PINBA_TABLE_REPORT4 \<Rightarrow> pinba_regenerate_report4 env share c
      | PINBA_TABLE_REPORT5 \<Rightarrow> pinba_regenerate_report5 env share c
      | PINBA_TABLE_REPORT6 \<Rightarrow> pinba_regenerate_report6 env share c
      | PINBA_TABLE_REPORT7 \<Rightarrow> pinba_regenerate_report7 env share c
      | PINBA_TABLE_REPORT8 \<Rightarrow> pinba_regenerate_report8 env share c
      | PINBA_TABLE_REPORT9 \<Rightarrow> pinba_regenerate_report9 env share c
      | PINBA_TABLE_REPORT10 \<Rightarrow> pinba_regenerate_report10 env share c
      | PINBA_TABLE_REPORT11 \<Rightarrow> pinba_regenerate_report11 env share c
      | PINBA_TABLE_REPORT12 \<Rightarrow> pinba_regenerate_report12 env share c
      | PINBA_TABLE_REPORT13 \<Rightarrow> pinba_regenerate_report13 env share c
      | PINBA_TABLE_REPORT14 \<Rightarrow> pinba_regenerate_report14 env share c
      | PINBA_TABLE_REPORT15 \<Rightarrow> pinba_regenerate_report15 env share c
      | PINBA_TABLE_REPORT16 \<Rightarrow> pinba_regenerate_report16 env share c
      | PINBA_TABLE_REPORT17 \<Rightarrow> pinba_regenerate_report17 env share c
      | PINBA_TABLE_REPORT18 \<Rightarrow> pinba_regenerate_report18 env share c
      | PINBA_TABLE_RTAG_INFO \<Rightarrow> pinba_regenerate_rtag_info env share c
      | PINBA_TABLE_RTAG2_INFO \<Rightarrow> pinba_regenerate_rtag2_info env share c
      | PINBA_TABLE_RTAGN_INFO \<Rightarrow> pinba_regenerate_rtagN_info env share c
      | PINBA_TABLE_RTAG_REPORT \<Rightarrow> pinba_regenerate_rtag_report env share c
      | PINBA_TABLE_RTAG2_REPORT \<Rightarrow> pinba_regenerate_rtag2_report env share c
      | PINBA_TABLE_RTAGN_REPORT \<Rightarrow> pinba_regenerate_rtagN_report env share c
      | PINBA_TABLE_TAG_INFO \<Rightarrow> pinba_regenerate_tag_info env share g c
      | PINBA_TABLE_TAG2_INFO \<Rightarrow> pinba_regenerate_tag2_info env share g c
      | PINBA_TABLE_TAGN_INFO \<Rightarrow> pinba_regenerate_tagN_info env share g c
      | PINBA_TABLE_TAG_REPORT \<Rightarrow> pinba_regenerate_tag_report env share g c
      | PINBA_TABLE_TAG2_REPORT \<Rightarrow> pinba_regenerate_tag2_report env share g c
      | PINBA_TABLE_TAGN_REPORT \<Rightarrow> pinba_regenerate_tagN_report env share g c
      | PINBA_TABLE_TAG_REPORT2 \<Rightarrow> pinba_regenerate_tag_report2 env share g c
      | PINBA_TABLE_TAG2_REPORT2 \<Rightarrow> pinba_regenerate_tag2_report2 env share g c
      | PINBA_TABLE_TAGN_REPORT2 \<Rightarrow> pinba_regenerate_tagN_report2 env share g c
      | _ \<Rightarrow> Some (None, c))"

definition is_report_type :: "pinba_report_type \<Rightarrow> bool" where
  "is_report_type t \<longleftrightarrow> type_code t \<ge> type_code PINBA_TABLE_REPORT_INFO"

text \<open>
  \<^verbatim>\<open>HANDLE_REPORT\<close>, \<^verbatim>\<open>HANDLE_TAG_REPORT\<close> and \<^verbatim>\<open>HANDLE_RTAG_REPORT\<close>: the report of the share, created if there
  is none, and the number of its rows.
\<close>

definition handle_report ::
  "pinba_report_type \<Rightarrow> create_env \<Rightarrow> pinba_share \<Rightarrow> tag_registry \<Rightarrow> report_catalog \<Rightarrow> (u64 \<times> report_catalog) option" where
  "handle_report t env share g c =
     (case (case pinba_get_report (report_kind_of t) share c of
              Some report \<Rightarrow> Some (Some report, c)
            | None \<Rightarrow> pinba_regenerate t env share g c) of
        None \<Rightarrow> None
      | Some (None, c) \<Rightarrow> Some (0, c)
      | Some (Some report, c) \<Rightarrow>
          if t = PINBA_TABLE_REPORT_INFO then Some (1, c)
          else (case cat_heap c report of
                  None \<Rightarrow> None
                | Some ob \<Rightarrow> Some (results_cnt (object_std ob), c)))"

text \<open>\<^verbatim>\<open>ha_pinba::info\<close>: the number of records a table has, \<open>hs\<close> being the histogram size of the daemon.\<close>

definition ha_info ::
  "u64 \<Rightarrow> create_env \<Rightarrow> pinba_share \<Rightarrow> pinba_daemon \<Rightarrow> report_catalog \<Rightarrow> (u64 \<times> report_catalog) option" where
  "ha_info hs env share D c =
     (let t = report_type_of share;
          res = (case t of
                   PINBA_TABLE_REQUEST \<Rightarrow> Some (of_nat (pinba_pool_num_records (request_pool D)), c)
                 | PINBA_TABLE_TIMER \<Rightarrow> Some (of_nat (pinba_pool_num_records (timer_pool D)), c)
                 | PINBA_TABLE_TAG \<Rightarrow> Some (of_nat (pinba_lmap_count (tag_table (registry D))), c)
                 | PINBA_TABLE_TIMERTAG \<Rightarrow> Some (timertags_cnt D, c)
                 | PINBA_TABLE_HISTOGRAM_VIEW \<Rightarrow> Some (hs, c)
                 | _ \<Rightarrow> if is_report_type t then handle_report t env share (registry D) c else Some (2, c))
      in map_option (\<lambda>(n, c). (if table_type share = PINBA_TABLE_HISTOGRAM_VIEW then hs else n, c)) res)"

end
