(* ===== verification/Catalog_Invariant.thy ===== *)
theory Catalog_Invariant
  imports Report_Constructors
begin

text \<open>
  The invariant of the catalog: tables and reports refer to each other consistently, a report counts
  the tables that use it, the registries hold exactly the live reports, and no pointer dangles.
  Attaching, renaming and dropping a table and registering a report keep it.
\<close>

section \<open>Maps\<close>

lemma get_map_del: "map_wf m \<Longrightarrow> pinba_map_get (map_del m k) = (pinba_map_get m)(k := None)"
  by (simp add: map_del_def smap.get_del)

lemma wf_map_del: "map_wf m \<Longrightarrow> map_wf (map_del m k)"
  by (simp add: map_del_def smap.inv_del)

lemma count_map_del: "map_wf m \<Longrightarrow> pinba_map_get m k = Some v \<Longrightarrow> pinba_map_count m = Suc (pinba_map_count (map_del m k))"
  by (simp add: map_del_def smap.count_del_old)

lemma wf_create: "map_wf pinba_map_create" "pinba_map_get pinba_map_create = Map.empty"
  by (simp_all add: map_wf_def pinba_map_create_def pinba_map_get_def fun_eq_iff)

lemmas map_facts = smap.get_add smap.inv_add get_map_del wf_map_del wf_create

lemma object_std_upd [simp]: "object_std (upd_object_std f ob) = f (object_std ob)"
  by (cases "(f, ob)" rule: upd_object_std.cases) (simp_all add: upd_report_std_def upd_tag_std_def upd_rtag_std_def)

section \<open>The invariant\<close>

text \<open>The kind of the reports under an index: the index begins with the code of their type.\<close>

definition index_kind :: "string \<Rightarrow> pinba_report_kind" where
  "index_kind ix =
     (let n = digits_val (takeWhile is_digit ix)
      in if n \<ge> type_code PINBA_TABLE_RTAG_INFO then PINBA_RTAG_REPORT_KIND
         else if n \<ge> type_code PINBA_TABLE_TAG_INFO then PINBA_TAG_REPORT_KIND else PINBA_BASE_REPORT_KIND)"

definition maps_ok :: "report_catalog \<Rightarrow> bool" where
  "maps_ok c \<longleftrightarrow> map_wf (reports_to_tables c) \<and> map_wf (tables_to_reports c) \<and>
     (\<forall>k. map_wf (reports_of c k) \<and> array_ok (reports_arr c k)) \<and>
     (\<forall>ix rt. pinba_map_get (reports_to_tables c) ix = Some rt \<longrightarrow> map_wf (tables_names rt))"

text \<open>A table belongs to exactly the report it is entered under, and every entry has a table.\<close>

definition tables_ok :: "report_catalog \<Rightarrow> bool" where
  "tables_ok c \<longleftrightarrow>
     (\<forall>n ix. pinba_map_get (tables_to_reports c) n = Some ix \<longleftrightarrow>
        (\<exists>rt p. pinba_map_get (reports_to_tables c) ix = Some rt \<and> pinba_map_get (tables_names rt) n = Some p)) \<and>
     (\<forall>ix rt. pinba_map_get (reports_to_tables c) ix = Some rt \<longrightarrow>
        0 < pinba_map_count (tables_names rt) \<and> pinba_map_count (tables_names rt) < 2 ^ 32 \<and> (\<forall>n. pinba_map_get (tables_names rt) n \<noteq> Some 0))"

text \<open>
  An active report is alive, knows its index or has none (the constructor of \<^verbatim>\<open>tagN_report2\<close> does not
  set it), counts its tables and is registered under its kind.
\<close>

definition active_ok :: "report_catalog \<Rightarrow> bool" where
  "active_ok c \<longleftrightarrow>
     (\<forall>ix rt a. pinba_map_get (reports_to_tables c) ix = Some rt \<longrightarrow> tables_std rt = Some a \<longrightarrow>
        (\<exists>ob. cat_heap c a = Some ob \<and> std_index (object_std ob) \<in> {Some ix, None} \<and>
           use_cnt (object_std ob) = of_nat (pinba_map_count (tables_names rt)) \<and> report_kind (object_std ob) = index_kind ix \<and>
           pinba_map_get (reports_of c (index_kind ix)) ix = Some a))"

text \<open>
  A registered report is active and registered under one index only, and the array of a kind lists its
  registered reports once.
\<close>

definition registries_ok :: "report_catalog \<Rightarrow> bool" where
  "registries_ok c \<longleftrightarrow>
     (\<forall>k ix a. pinba_map_get (reports_of c k) ix = Some a \<longrightarrow> k = index_kind ix \<and>
        (\<exists>rt. pinba_map_get (reports_to_tables c) ix = Some rt \<and> tables_std rt = Some a)) \<and>
     (\<forall>k ix l j a. pinba_map_get (reports_of c k) ix = Some a \<longrightarrow> pinba_map_get (reports_of c l) j = Some a \<longrightarrow> j = ix) \<and>
     (\<forall>k. distinct (array_list (reports_arr c k)) \<and> set (array_list (reports_arr c k)) = ran (pinba_map_get (reports_of c k)))"

definition heap_ok :: "report_catalog \<Rightarrow> bool" where
  "heap_ok c \<longleftrightarrow> (\<forall>a. cat_heap c a \<noteq> None \<longrightarrow> a < cat_next c \<and> (\<exists>k ix. pinba_map_get (reports_of c k) ix = Some a))"

definition catalog_ok :: "report_catalog \<Rightarrow> bool" where
  "catalog_ok c \<longleftrightarrow> maps_ok c \<and> tables_ok c \<and> active_ok c \<and> registries_ok c \<and> heap_ok c"

lemmas catalog_defs = catalog_ok_def maps_ok_def tables_ok_def active_ok_def registries_ok_def heap_ok_def

lemma catalog_ok_frame [simp]:
  "catalog_ok (c\<lparr>cat_dictionary := d\<rparr>) = catalog_ok c" "catalog_ok (c\<lparr>open_tables := m\<rparr>) = catalog_ok c"
  by (simp_all add: catalog_defs)

text \<open>A report is active under one index only.\<close>

lemma active_unique:
  assumes "catalog_ok c" and "pinba_map_get (reports_to_tables c) ix = Some rt" and "tables_std rt = Some a"
    and "pinba_map_get (reports_to_tables c) ix' = Some rt'" and "tables_std rt' = Some a"
  shows "ix' = ix"
proof -
  have "pinba_map_get (reports_of c (index_kind ix)) ix = Some a" "pinba_map_get (reports_of c (index_kind ix')) ix' = Some a"
    using assms unfolding catalog_ok_def active_ok_def by blast+
  then show ?thesis using assms(1) unfolding catalog_ok_def registries_ok_def by blast
qed

section \<open>Changing the tables of one report\<close>

text \<open>
  \<open>retable\<close> replaces the tables entered under an index, with the use count of the active report, and the
  map from tables to reports accordingly.
\<close>

definition retable ::
  "string \<Rightarrow> pinba_report_tables \<Rightarrow> string pinba_map \<Rightarrow> report_catalog \<Rightarrow> report_catalog" where
  "retable ix rt t2r c =
     c\<lparr>reports_to_tables := pinba_map_add (reports_to_tables c) ix rt, tables_to_reports := t2r,
       cat_heap := (case tables_std rt of None \<Rightarrow> cat_heap c
                    | Some a \<Rightarrow> (cat_heap c)(a := map_option (upd_object_std (\<lambda>s. s\<lparr>use_cnt := of_nat (pinba_map_count (tables_names rt))\<rparr>))
                        (cat_heap c a)))\<rparr>"

lemma retable_ok:
  assumes c: "catalog_ok c" and wf: "map_wf t2r" "map_wf (tables_names rt)"
    and names: "0 < pinba_map_count (tables_names rt)" "pinba_map_count (tables_names rt) < 2 ^ 32" "\<forall>n. pinba_map_get (tables_names rt) n \<noteq> Some 0"
    and std: "case pinba_map_get (reports_to_tables c) ix of None \<Rightarrow> tables_std rt = None | Some rt0 \<Rightarrow> tables_std rt = tables_std rt0"
    and t2r: "\<forall>n j. pinba_map_get t2r n = Some j \<longleftrightarrow>
       (if j = ix then pinba_map_get (tables_names rt) n \<noteq> None else pinba_map_get (tables_to_reports c) n = Some j)"
  shows "catalog_ok (retable ix rt t2r c)"
proof -
  let ?c = "retable ix rt t2r c"
  have m: "maps_ok c" "tables_ok c" "active_ok c" "registries_ok c" "heap_ok c" using c by (simp_all add: catalog_ok_def)
  have get: "pinba_map_get (reports_to_tables ?c) = (pinba_map_get (reports_to_tables c))(ix \<mapsto> rt)"
    and wfr: "map_wf (reports_to_tables ?c)"
    using m(1) by (simp_all add: retable_def maps_ok_def map_facts)
  have same: "reports_of ?c = reports_of c" "reports_arr ?c = reports_arr c" "tables_to_reports ?c = t2r" "cat_next ?c = cat_next c"
    by (simp_all add: retable_def)
  have maps: "maps_ok ?c"
    using m(1) wf wfr unfolding maps_ok_def same get by (auto split: if_splits)
  have tables: "tables_ok ?c"
    using m(2) names t2r unfolding tables_ok_def same get by (auto split: if_splits)
  have regs: "registries_ok ?c"
    using m(4) std unfolding registries_ok_def same get by (fastforce split: option.splits)
  have dom: "cat_heap ?c a = None \<longleftrightarrow> cat_heap c a = None" for a
    by (auto simp: retable_def split: option.split)
  have heap: "heap_ok ?c"
    using m(5) unfolding heap_ok_def same dom by blast
  have "active_ok ?c"
    unfolding active_ok_def get same
  proof (intro allI impI)
    fix j r a assume g: "((pinba_map_get (reports_to_tables c))(ix \<mapsto> rt)) j = Some r" "tables_std r = Some a"
    show "\<exists>ob. cat_heap ?c a = Some ob \<and> std_index (object_std ob) \<in> {Some j, None} \<and>
        use_cnt (object_std ob) = of_nat (pinba_map_count (tables_names r)) \<and> report_kind (object_std ob) = index_kind j \<and>
        pinba_map_get (reports_of c (index_kind j)) j = Some a"
    proof (cases "j = ix")
      case True
      then have r: "r = rt" using g by simp
      then obtain rt0 where "pinba_map_get (reports_to_tables c) ix = Some rt0" "tables_std rt0 = Some a"
        using g(2) std by (cases "pinba_map_get (reports_to_tables c) ix") auto
      then obtain ob where "cat_heap c a = Some ob" "std_index (object_std ob) \<in> {Some ix, None}" "report_kind (object_std ob) = index_kind ix"
        "pinba_map_get (reports_of c (index_kind ix)) ix = Some a"
        using m(3) unfolding active_ok_def by blast
      then show ?thesis using True r g(2) by (simp add: retable_def)
    next
      case False
      then have old: "pinba_map_get (reports_to_tables c) j = Some r" using g by simp
      have "cat_heap ?c a = cat_heap c a"
      proof (cases "tables_std rt = Some a")
        case True
        then obtain rt0 where "pinba_map_get (reports_to_tables c) ix = Some rt0" "tables_std rt0 = Some a"
          using std by (cases "pinba_map_get (reports_to_tables c) ix") auto
        then show ?thesis using active_unique [OF c _ _ old g(2)] False by blast
      qed (auto simp: retable_def split: option.split)
      then show ?thesis using m(3) old g(2) unfolding active_ok_def by metis
    qed
  qed
  then show ?thesis using maps tables regs heap by (simp add: catalog_ok_def)
qed

lemma upd_object_cong: "f (object_std ob) = g (object_std ob) \<Longrightarrow> upd_object_std f ob = upd_object_std g ob"
  by (cases "(f, ob)" rule: upd_object_std.cases) (simp_all add: upd_report_std_def upd_tag_std_def upd_rtag_std_def)

lemma upd_object_same: "f (object_std ob) = object_std ob \<Longrightarrow> upd_object_std f ob = ob"
  by (cases "(f, ob)" rule: upd_object_std.cases) (simp_all add: upd_report_std_def upd_tag_std_def upd_rtag_std_def)

lemma active_count:
  assumes "catalog_ok c" and "pinba_map_get (reports_to_tables c) ix = Some rt" and "tables_std rt = Some a"
  obtains ob where "cat_heap c a = Some ob" and "use_cnt (object_std ob) = of_nat (pinba_map_count (tables_names rt))"
  using assms unfolding catalog_ok_def active_ok_def by blast

lemma tables_counts:
  assumes "catalog_ok c" and "pinba_map_get (reports_to_tables c) ix = Some rt"
  shows "pinba_map_count (tables_names rt) \<le> pinba_map_count (tables_to_reports c)"
proof -
  have wf: "map_wf (tables_names rt)" "map_wf (tables_to_reports c)"
    using assms by (auto simp: catalog_ok_def maps_ok_def)
  have "pinba_map_get (tables_to_reports c) n = Some ix" if "pinba_map_get (tables_names rt) n = Some p" for n p
    using assms that unfolding catalog_ok_def tables_ok_def by blast
  then have "dom (pinba_map_get (tables_names rt)) \<subseteq> dom (pinba_map_get (tables_to_reports c))" by blast
  then show ?thesis
    using wf by (simp add: smap.count_card smap.finite_dom card_mono)
qed

section \<open>Opening and renaming\<close>

lemma attach_ok:
  assumes c: "catalog_ok c" and room: "pinba_map_count (tables_to_reports c) < 2 ^ 32 - 1"
    and known: "\<forall>ix. pinba_map_get (tables_to_reports c) name = Some ix \<longrightarrow> ix = share_index share"
  shows "\<exists>c'. attach_table name share c = Some c' \<and> catalog_ok c' \<and>
     pinba_map_get (tables_to_reports c') name = Some (share_index share)"
proof -
  let ?ix = "share_index share" and ?p = "pinba_table_type_to_ptr (table_type share)"
  let ?t2r = "pinba_map_add (tables_to_reports c) name ?ix"
  have wf: "map_wf (tables_to_reports c)" "map_wf ?t2r" using c by (simp_all add: catalog_ok_def maps_ok_def smap.inv_add)
  have tb: "tables_ok c" using c by (simp add: catalog_ok_def)
  have p: "?p \<noteq> 0" by (simp add: pinba_table_type_to_ptr_def)
  have g: "pinba_map_get ?t2r = (pinba_map_get (tables_to_reports c))(name \<mapsto> ?ix)" using wf by (simp add: smap.get_add)
  show ?thesis
  proof (cases "pinba_map_get (reports_to_tables c) ?ix")
    case None
    then have none: "pinba_map_get (tables_to_reports c) n \<noteq> Some ?ix" for n using tb unfolding tables_ok_def by simp
    then have t: "pinba_map_get (tables_to_reports c) name = None" using known by (cases "pinba_map_get (tables_to_reports c) name") auto
    let ?rt = "\<lparr>tables_std = None, tables_names = pinba_map_add pinba_map_create name ?p\<rparr>"
    have "attach_table name share c = Some (retable ?ix ?rt ?t2r c)"
      using None t by (simp add: attach_table_def retable_def Let_def)
    moreover have "catalog_ok (retable ?ix ?rt ?t2r c)"
      using None none wf p g t by (intro retable_ok [OF c]) (auto simp: map_facts smap.count_add_new smap.count_card)
    ultimately show ?thesis using g by (simp add: retable_def)
  next
    case (Some rt)
    note rt = Some
    have nz: "pinba_map_get (tables_names rt) n \<noteq> Some 0" for n using tb rt unfolding tables_ok_def by blast
    have wfn: "map_wf (tables_names rt)" using c rt by (auto simp: catalog_ok_def maps_ok_def)
    have mem: "pinba_map_get (tables_to_reports c) n = Some ?ix \<longleftrightarrow> pinba_map_get (tables_names rt) n \<noteq> None" for n
      using tb rt unfolding tables_ok_def by auto
    show ?thesis
    proof (cases "pinba_map_get (tables_names rt) name")
      case (Some q)
      then have "attach_table name share c = Some c" using rt nz [of name] mem [of name] by (simp add: attach_table_def map_ptr_def Let_def)
      then show ?thesis using c mem [of name] Some by simp
    next
      case None
      then have t: "pinba_map_get (tables_to_reports c) name = None"
        using known mem [of name] by (cases "pinba_map_get (tables_to_reports c) name") auto
      let ?rt = "rt\<lparr>tables_names := pinba_map_add (tables_names rt) name ?p\<rparr>"
      have cnt: "pinba_map_count (tables_names ?rt) = Suc (pinba_map_count (tables_names rt))"
        using None wfn by (simp add: smap.count_add_new)
      have "attach_table name share c = Some (retable ?ix ?rt ?t2r c)"
      proof (cases "tables_std rt")
        case (Some a)
        obtain ob where ob: "cat_heap c a = Some ob" "use_cnt (object_std ob) = of_nat (pinba_map_count (tables_names rt))"
          using active_count [OF c rt Some] by blast
        have "upd_object_std (\<lambda>s. s\<lparr>use_cnt := use_cnt s + 1\<rparr>) ob =
            upd_object_std (\<lambda>s. s\<lparr>use_cnt := of_nat (pinba_map_count (tables_names ?rt))\<rparr>) ob"
          using ob(2) by (intro upd_object_cong) (simp add: cnt [simplified] add.commute)
        then show ?thesis
          using rt None t Some ob by (simp add: attach_table_def retable_def map_ptr_def Let_def)
      qed (use rt None t in \<open>simp add: attach_table_def retable_def map_ptr_def Let_def\<close>)
      moreover have "catalog_ok (retable ?ix ?rt ?t2r c)"
        using rt wf wfn p g t nz mem cnt room tables_counts [OF c rt]
        by (intro retable_ok [OF c]) (auto simp: map_facts)
      ultimately show ?thesis using g by (simp add: retable_def)
    qed
  qed
qed

lemma rename_ok:
  assumes c: "catalog_ok c"
  shows "catalog_ok (snd (ha_rename_table from to c))"
proof (cases "pinba_map_get (tables_to_reports c) from")
  case (Some ix)
  note fr = Some
  have tb: "tables_ok c" and wf: "map_wf (tables_to_reports c)" using c by (simp_all add: catalog_ok_def maps_ok_def)
  obtain rt p where rt: "pinba_map_get (reports_to_tables c) ix = Some rt" "pinba_map_get (tables_names rt) from = Some p"
    using tb fr unfolding tables_ok_def by blast
  show ?thesis
  proof (cases "pinba_map_get (tables_to_reports c) to")
    case None
    have ne: "from \<noteq> to" using None fr by auto
    have wfn: "map_wf (tables_names rt)" using c rt by (auto simp: catalog_ok_def maps_ok_def)
    have nz: "pinba_map_get (tables_names rt) n \<noteq> Some 0" for n using tb rt(1) unfolding tables_ok_def by blast
    have p: "p \<noteq> 0" using nz rt(2) by metis
    have mem: "pinba_map_get (tables_to_reports c) n = Some ix \<longleftrightarrow> pinba_map_get (tables_names rt) n \<noteq> None" for n
      using tb rt unfolding tables_ok_def by auto
    let ?rt = "rt\<lparr>tables_names := pinba_map_add (map_del (tables_names rt) from) to p\<rparr>"
    let ?t2r = "pinba_map_add (map_del (tables_to_reports c) from) to ix"
    have "pinba_map_get (map_del (tables_names rt) from) to = None"
      using mem [of to] None wfn by (simp add: get_map_del)
    then have cnt: "pinba_map_count (tables_names ?rt) = pinba_map_count (tables_names rt)"
      using count_map_del [OF wfn rt(2)] wfn by (simp add: smap.count_add_new wf_map_del)
    have heap: "cat_heap (retable ix ?rt ?t2r c) = cat_heap c"
    proof (cases "tables_std rt")
      case (Some a)
      then obtain ob where ob: "cat_heap c a = Some ob" "use_cnt (object_std ob) = of_nat (pinba_map_count (tables_names rt))"
        using active_count [OF c rt(1)] by blast
      have "upd_object_std (\<lambda>s. s\<lparr>use_cnt := of_nat (pinba_map_count (tables_names ?rt))\<rparr>) ob = ob"
        using ob(2) by (intro upd_object_same) (simp add: cnt [simplified])
      then show ?thesis using Some ob by (simp add: retable_def fun_eq_iff)
    qed (simp add: retable_def)
    have "snd (ha_rename_table from to c) = (retable ix ?rt ?t2r c)\<lparr>cat_heap := cat_heap c\<rparr>"
      using fr None rt by (simp add: ha_rename_table_def retable_def map_ptr_def Let_def)
    also have "\<dots> = retable ix ?rt ?t2r c" using heap by simp
    finally have eq: "snd (ha_rename_table from to c) = retable ix ?rt ?t2r c" .
    have "0 < pinba_map_count (tables_names rt)" "pinba_map_count (tables_names rt) < 2 ^ 32"
      using tb rt(1) unfolding tables_ok_def by blast+
    then show ?thesis
      unfolding eq using rt wf wfn p nz mem cnt ne None
      by (intro retable_ok [OF c]) (auto simp: map_facts fr)
  qed (use fr c in \<open>simp add: ha_rename_table_def\<close>)
qed (use c in \<open>simp add: ha_rename_table_def\<close>)

section \<open>Dropping\<close>

text \<open>The index of a report without tables goes, and with it the report if it is active.\<close>

definition unlist :: "string \<Rightarrow> nat option \<Rightarrow> string pinba_map \<Rightarrow> report_catalog \<Rightarrow> report_catalog" where
  "unlist ix act t2r c =
     (let c = c\<lparr>reports_to_tables := map_del (reports_to_tables c) ix, tables_to_reports := t2r\<rparr>; k = index_kind ix
      in case act of
           None \<Rightarrow> c
         | Some a \<Rightarrow> c\<lparr>cat_heap := (cat_heap c)(a := None), reports_of := (reports_of c)(k := map_del (reports_of c k) ix),
                       reports_arr := (reports_arr c)(k := snd (pinba_array_delete (reports_arr c k) a))\<rparr>)"

lemma array_delete_facts:
  "array_ok arr \<Longrightarrow> array_ok (snd (pinba_array_delete arr a)) \<and> array_list (snd (pinba_array_delete arr a)) = remove1 a (array_list arr)"
  using report_array_result [of arr a] by (simp add: split_beta)

lemma ran_forget:
  assumes "\<And>j a. m ix = Some a \<Longrightarrow> m j = Some a \<Longrightarrow> j = ix"
  shows "ran (m(ix := None)) = ran m - set_option (m ix)"
proof (intro equalityI subsetI)
  fix x assume "x \<in> ran m - set_option (m ix)"
  then obtain j where "m j = Some x" "m ix \<noteq> Some x" by (auto simp: ran_def)
  then show "x \<in> ran (m(ix := None))" by (intro ranI [of _ j]) auto
qed (use assms in \<open>auto simp: ran_def split: if_splits\<close>)

lemma unlist_ok:
  assumes c: "catalog_ok c" and rt: "pinba_map_get (reports_to_tables c) ix = Some rt" "tables_std rt = act"
    and wf: "map_wf t2r"
    and t2r: "\<forall>n j. pinba_map_get t2r n = Some j \<longleftrightarrow> j \<noteq> ix \<and> pinba_map_get (tables_to_reports c) n = Some j"
  shows "catalog_ok (unlist ix act t2r c)"
proof -
  let ?c = "unlist ix act t2r c" and ?k = "index_kind ix"
  have m: "maps_ok c" "tables_ok c" "active_ok c" "registries_ok c" "heap_ok c" using c by (simp_all add: catalog_ok_def)
  have r2t: "pinba_map_get (reports_to_tables ?c) = (pinba_map_get (reports_to_tables c))(ix := None)"
    "map_wf (reports_to_tables ?c)"
    using m(1) by (auto simp: unlist_def Let_def maps_ok_def map_facts split: option.split)
  have regs: "pinba_map_get (reports_of ?c k) j = (if j = ix then None else pinba_map_get (reports_of c k) j)"
    "map_wf (reports_of ?c k)" for k j
  proof -
    have "pinba_map_get (reports_of c k) ix = None" if "act = None \<or> k \<noteq> ?k"
      using m(4) rt that unfolding registries_ok_def by (cases "pinba_map_get (reports_of c k) ix") fastforce+
    then show "pinba_map_get (reports_of ?c k) j = (if j = ix then None else pinba_map_get (reports_of c k) j)"
      "map_wf (reports_of ?c k)"
      using m(1) by (auto simp: unlist_def Let_def maps_ok_def map_facts split: option.split)
  qed
  have arr: "array_ok (reports_arr ?c k)" "array_list (reports_arr ?c k) =
      (case act of None \<Rightarrow> array_list (reports_arr c k) | Some a \<Rightarrow>
         if k = ?k then remove1 a (array_list (reports_arr c k)) else array_list (reports_arr c k))" for k
    using m(1) by (auto simp: unlist_def Let_def maps_ok_def array_delete_facts split: option.split)
  have heap: "cat_heap ?c a = (if act = Some a then None else cat_heap c a)" "cat_next ?c = cat_next c" "tables_to_reports ?c = t2r" for a
    by (auto simp: unlist_def Let_def split: option.split)
  have own: "j = ix" if reg: "pinba_map_get (reports_of c k) j = Some a" and act: "act = Some a" for j k a
  proof -
    obtain rt' where "pinba_map_get (reports_to_tables c) j = Some rt'" "tables_std rt' = Some a"
      using m(4) reg unfolding registries_ok_def by blast
    then show ?thesis using active_unique [OF c rt(1)] rt(2) act by blast
  qed
  have maps: "maps_ok ?c"
    using m(1) wf r2t regs(2) arr(1) unfolding maps_ok_def heap by (auto split: if_splits)
  have tables: "tables_ok ?c"
    using m(2) t2r unfolding tables_ok_def r2t heap by (auto split: if_splits)
  have active: "active_ok ?c"
    unfolding active_ok_def r2t regs heap
  proof (intro allI impI)
    fix j r a assume g: "((pinba_map_get (reports_to_tables c))(ix := None)) j = Some r" "tables_std r = Some a"
    then have j: "j \<noteq> ix" "pinba_map_get (reports_to_tables c) j = Some r" by (auto split: if_splits)
    then have "act \<noteq> Some a" using active_unique [OF c rt(1) _ j(2) g(2)] rt(2) by blast
    then show "\<exists>ob. (if act = Some a then None else cat_heap c a) = Some ob \<and> std_index (object_std ob) \<in> {Some j, None} \<and>
        use_cnt (object_std ob) = of_nat (pinba_map_count (tables_names r)) \<and> report_kind (object_std ob) = index_kind j \<and>
        (if j = ix then None else pinba_map_get (reports_of c (index_kind j)) j) = Some a"
      using m(3) j g(2) unfolding active_ok_def by simp
  qed
  have ran: "ran (pinba_map_get (reports_of ?c k)) =
      (case act of None \<Rightarrow> ran (pinba_map_get (reports_of c k)) | Some a \<Rightarrow>
         if k = ?k then ran (pinba_map_get (reports_of c k)) - {a} else ran (pinba_map_get (reports_of c k)))" for k
  proof -
    have here: "pinba_map_get (reports_of c k) ix = (if k = ?k then act else None)"
    proof (cases "pinba_map_get (reports_of c k) ix")
      case None
      have "pinba_map_get (reports_of c ?k) ix = Some a" if "act = Some a" for a
        using m(3) rt that unfolding active_ok_def by blast
      then show ?thesis using None by (cases act) auto
    next
      case (Some b)
      then show ?thesis using m(4) rt unfolding registries_ok_def by fastforce
    qed
    have e: "pinba_map_get (reports_of ?c k) = (pinba_map_get (reports_of c k))(ix := None)" by (simp add: fun_eq_iff regs)
    have "ran ((pinba_map_get (reports_of c k))(ix := None)) =
        ran (pinba_map_get (reports_of c k)) - set_option (pinba_map_get (reports_of c k) ix)"
    proof (rule ran_forget)
      fix j a assume a: "pinba_map_get (reports_of c k) ix = Some a" "pinba_map_get (reports_of c k) j = Some a"
      then have "act = Some a" using here by (simp split: if_splits)
      then show "j = ix" by (rule own [OF a(2)])
    qed
    then show ?thesis unfolding e here by (simp split: option.split)
  qed
  have registries: "registries_ok ?c"
    using m(4) unfolding registries_ok_def r2t regs ran arr(2)
    by (auto simp: set_remove1_eq distinct_remove1 split: option.split if_splits)
  have "heap_ok ?c"
    unfolding heap_ok_def heap regs
  proof (intro allI impI)
    fix a assume "(if act = Some a then None else cat_heap c a) \<noteq> None"
    then have a: "act \<noteq> Some a" "cat_heap c a \<noteq> None" by (auto split: if_splits)
    then obtain k j where kj: "a < cat_next c" "pinba_map_get (reports_of c k) j = Some a" using m(5) unfolding heap_ok_def by blast
    then have "j \<noteq> ix" using m(4) rt a(1) unfolding registries_ok_def by fastforce
    then show "a < cat_next c \<and> (\<exists>k j. (if j = ix then None else pinba_map_get (reports_of c k) j) = Some a)" using kj by auto
  qed
  then show ?thesis using maps tables active registries by (simp add: catalog_ok_def)
qed

lemma alist_del_put: "alist_del k (alist_put k v ps) = alist_del k ps"
  by (induction ps) auto

lemma map_del_add: "pinba_map_get m k = Some w \<Longrightarrow> map_del (pinba_map_add m k v) k = map_del m k"
  by (cases m) (simp_all add: map_del_def pinba_map_get_def pinba_map_add_def pinba_map_delete_def alist_del_put)

text \<open>What dropping an attached table does.\<close>

definition release_object :: "report_object \<Rightarrow> pinba_dictionary \<Rightarrow> pinba_dictionary" where
  "release_object ob d =
     (if report_kind (object_std ob) = PINBA_RTAG_REPORT_KIND
      then pinba_words_release (object_tags ob) (pinba_std_report_dtor (object_std ob) d)
      else pinba_std_report_dtor (object_std ob) d)"

lemma object_tags_upd [simp]: "object_tags (upd_object_std f ob) = object_tags ob"
  by (cases "(f, ob)" rule: upd_object_std.cases) (simp_all add: upd_rtag_std_def)

lemma release_upd:
  "release_object (upd_object_std (\<lambda>s. s\<lparr>use_cnt := g s\<rparr>) ob) d = release_object ob d"
  by (simp add: release_object_def pinba_std_report_dtor_def)

text \<open>The table is the last one of an active report that does not know its index.\<close>

definition drop_unnamed :: "report_catalog \<Rightarrow> string \<Rightarrow> bool" where
  "drop_unnamed c name =
     (case pinba_map_get (tables_to_reports c) name of
        None \<Rightarrow> False
      | Some ix \<Rightarrow>
          (case pinba_map_get (reports_to_tables c) ix of
             None \<Rightarrow> False
           | Some rt \<Rightarrow>
               pinba_map_count (tables_names rt) = 1 \<and>
               (case tables_std rt of
                  None \<Rightarrow> False
                | Some a \<Rightarrow> (case cat_heap c a of None \<Rightarrow> False | Some ob \<Rightarrow> std_index (object_std ob) = None))))"

lemma drop_result:
  assumes c: "catalog_ok c" and named: "\<not> drop_unnamed c name" and t: "pinba_map_get (tables_to_reports c) name = Some ix"
    and rt: "pinba_map_get (reports_to_tables c) ix = Some rt"
    and rt': "rt' = rt\<lparr>tables_names := map_del (tables_names rt) name\<rparr>" and t2r: "t2r = map_del (tables_to_reports c) name"
  shows "pinba_table_to_report_dtor name c =
     Some (if pinba_map_count (tables_names rt) > 1 then retable ix rt' t2r c
           else (unlist ix (tables_std rt) t2r c)\<lparr>cat_dictionary :=
             (case tables_std rt of None \<Rightarrow> cat_dictionary c
              | Some a \<Rightarrow> release_object (the (cat_heap c a)) (cat_dictionary c))\<rparr>)"
proof -
  have m: "maps_ok c" "tables_ok c" "active_ok c" using c by (simp_all add: catalog_ok_def)
  have wfn: "map_wf (tables_names rt)" using m(1) rt by (auto simp: maps_ok_def)
  obtain p where p: "pinba_map_get (tables_names rt) name = Some p" using m(2) t rt unfolding tables_ok_def by fastforce
  have cnt: "pinba_map_count (tables_names rt) = Suc (pinba_map_count (tables_names rt'))"
    using count_map_del [OF wfn p] by (simp add: rt')
  have small: "pinba_map_count (tables_names rt) < 2 ^ 32" using m(2) rt unfolding tables_ok_def by blast
  show ?thesis
  proof (cases "tables_std rt")
    case None
    then show ?thesis
      using t rt cnt by (auto simp: pinba_table_to_report_dtor_def retable_def unlist_def rt' t2r Let_def map_del_add)
  next
    case (Some a)
    then obtain ob where ob: "cat_heap c a = Some ob" "std_index (object_std ob) \<in> {Some ix, None}"
      "use_cnt (object_std ob) = of_nat (pinba_map_count (tables_names rt))" "report_kind (object_std ob) = index_kind ix"
      using m(3) rt unfolding active_ok_def by blast
    let ?ob = "upd_object_std (\<lambda>s. s\<lparr>use_cnt := use_cnt s - 1\<rparr>) ob"
    have same: "?ob = upd_object_std (\<lambda>s. s\<lparr>use_cnt := of_nat (pinba_map_count (tables_names rt'))\<rparr>) ob"
      by (intro upd_object_cong) (simp add: ob(3) cnt)
    have zero: "use_cnt (object_std ?ob) = 0 \<longleftrightarrow> pinba_map_count (tables_names rt') = 0"
      using small cnt unfolding same by (auto simp: word_of_nat_eq_0_iff dest: dvd_imp_le)
    show ?thesis
    proof (cases "pinba_map_count (tables_names rt') = 0")
      case False
      then show ?thesis
        using t rt Some ob zero cnt unfolding pinba_table_to_report_dtor_def
        by (simp add: retable_def rt' t2r Let_def same [unfolded rt'])
    next
      case True
      have "array_ok (reports_arr c (index_kind ix))" using m(1) by (simp add: maps_ok_def)
      then have arr: "array_remove (reports_arr c (index_kind ix)) a = Some (snd (pinba_array_delete (reports_arr c (index_kind ix)) a))"
        by (auto simp: array_remove_def array_ok_def split: option.splits)
      have rel: "release_object ?ob d = release_object ob d" for d by (rule release_upd)
      have "std_index (object_std ob) \<noteq> None" using named t rt Some ob(1) True cnt by (simp add: drop_unnamed_def)
      then have k: "report_kind (object_std ?ob) = index_kind ix" "std_index (object_std ?ob) = Some ix" using ob by auto
      have un: "unregister_report a ?ob e = Some (e\<lparr>reports_of := (reports_of e)(index_kind ix := map_del (reports_of e (index_kind ix)) ix),
            reports_arr := (reports_arr e)(index_kind ix := snd (pinba_array_delete (reports_arr e (index_kind ix)) a)),
            cat_dictionary := release_object ob (cat_dictionary e), cat_heap := (cat_heap e)(a := None)\<rparr>)"
        if "reports_arr e = reports_arr c" "cat_heap e a = Some ?ob" for e
        using that arr rel k unfolding unregister_report_def Let_def
        by (cases "index_kind ix") (simp_all add: pinba_report_dtor_def pinba_tag_report_dtor_def pinba_rtag_report_dtor_def release_object_def)
      show ?thesis
        using True t rt Some ob zero cnt unfolding pinba_table_to_report_dtor_def
        by (simp add: un unlist_def rt' t2r Let_def map_del_add)
    qed
  qed
qed

lemma drop_ok:
  assumes c: "catalog_ok c" and named: "\<not> drop_unnamed c name"
  shows "\<exists>c'. pinba_table_to_report_dtor name c = Some c' \<and> catalog_ok c' \<and> pinba_map_get (tables_to_reports c') name = None \<and>
     (\<forall>n. n \<noteq> name \<longrightarrow> pinba_map_get (tables_to_reports c') n = pinba_map_get (tables_to_reports c) n)"
proof (cases "pinba_map_get (tables_to_reports c) name")
  case None
  then show ?thesis using c by (simp add: pinba_table_to_report_dtor_def)
next
  case (Some ix)
  have m: "maps_ok c" "tables_ok c" using c by (simp_all add: catalog_ok_def)
  obtain rt p where rt: "pinba_map_get (reports_to_tables c) ix = Some rt" "pinba_map_get (tables_names rt) name = Some p"
    using m(2) Some unfolding tables_ok_def by blast
  let ?rt = "rt\<lparr>tables_names := map_del (tables_names rt) name\<rparr>" and ?t2r = "map_del (tables_to_reports c) name"
  have wf: "map_wf (tables_to_reports c)" "map_wf (tables_names rt)" using m(1) rt by (auto simp: maps_ok_def)
  have g: "pinba_map_get ?t2r = (pinba_map_get (tables_to_reports c))(name := None)" using wf by (simp add: get_map_del)
  have mem: "pinba_map_get (tables_to_reports c) n = Some ix \<longleftrightarrow> pinba_map_get (tables_names rt) n \<noteq> None" for n
    using m(2) rt(1) unfolding tables_ok_def by auto
  have nz: "pinba_map_get (tables_names rt) n \<noteq> Some 0" for n using m(2) rt(1) unfolding tables_ok_def by blast
  have small: "pinba_map_count (tables_names rt) < 2 ^ 32" using m(2) rt(1) unfolding tables_ok_def by blast
  note d = drop_result [OF c named Some rt(1) refl refl]
  show ?thesis
  proof (cases "pinba_map_count (tables_names rt) > 1")
    case True
    have "catalog_ok (retable ix ?rt ?t2r c)"
      using True count_map_del [OF wf(2) rt(2)] small wf nz mem g rt(1)
      by (intro retable_ok [OF c]) (auto simp: map_facts Some)
    then show ?thesis using d True g by (simp add: retable_def)
  next
    case False
    then have "pinba_map_count (map_del (tables_names rt) name) = 0" using count_map_del [OF wf(2) rt(2)] by simp
    then have e: "pinba_map_get (map_del (tables_names rt) name) = Map.empty"
      using smap.count_0_iff [OF wf_map_del [OF wf(2)]] by simp
    have only: "n = name" if ix: "pinba_map_get (tables_to_reports c) n = Some ix" for n
    proof (rule ccontr)
      assume "n \<noteq> name"
      then have "pinba_map_get (tables_names rt) n = None" using fun_cong [OF e, of n] wf(2) by (simp add: get_map_del)
      then show False using mem [of n] ix by simp
    qed
    have "catalog_ok (unlist ix (tables_std rt) ?t2r c)"
    proof (rule unlist_ok [OF c rt(1) refl wf_map_del [OF wf(1)]])
      show "\<forall>n j. pinba_map_get ?t2r n = Some j \<longleftrightarrow> j \<noteq> ix \<and> pinba_map_get (tables_to_reports c) n = Some j"
        unfolding g
      proof (intro allI)
        fix n j
        show "((pinba_map_get (tables_to_reports c))(name := None)) n = Some j \<longleftrightarrow> j \<noteq> ix \<and> pinba_map_get (tables_to_reports c) n = Some j"
          using only [of n] by (cases "n = name") (auto simp: Some)
      qed
    qed
    moreover have "tables_to_reports (unlist ix (tables_std rt) ?t2r c) = ?t2r"
      by (simp add: unlist_def Let_def split: option.split)
    ultimately show ?thesis using d False g by simp
  qed
qed

section \<open>Creating reports\<close>

lemma registered_live:
  assumes "catalog_ok c" and "pinba_map_get (reports_of c k) ix = Some a"
  shows "a < cat_next c" and "cat_heap c a \<noteq> None"
proof -
  obtain rt where "pinba_map_get (reports_to_tables c) ix = Some rt" "tables_std rt = Some a"
    using assms unfolding catalog_ok_def registries_ok_def by blast
  then show h: "cat_heap c a \<noteq> None" using assms(1) unfolding catalog_ok_def active_ok_def by blast
  then show "a < cat_next c" using assms(1) unfolding catalog_ok_def heap_ok_def by blast
qed

lemma enter_report_ok:
  assumes c: "catalog_ok c" and rt: "pinba_map_get (reports_to_tables c) ix = Some rt" and k: "k = index_kind ix"
    and new: "pinba_map_get (reports_of c k) ix = None"
    and ob: "report_kind (object_std ob) = k" "std_index (object_std ob) \<in> {Some ix, None}"
    and arr: "arr = snd (pinba_array_add True (reports_arr c k) (cat_next c))"
  shows "\<exists>c'. pinba_update_report_tables (cat_next c) ix (set_array k arr (enter_report k ix ob c)) = (True, c') \<and> catalog_ok c' \<and>
     pinba_map_get (reports_of c' k) ix = Some (cat_next c) \<and> tables_to_reports c' = tables_to_reports c \<and> open_tables c' = open_tables c"
proof -
  have m: "maps_ok c" "tables_ok c" "active_ok c" "registries_ok c" "heap_ok c" using c by (simp_all add: catalog_ok_def)
  have "pinba_map_get (reports_of c k) ix = Some b" if "tables_std rt = Some b" for b
    using m(3) rt k that unfolding active_ok_def by blast
  then have idle: "tables_std rt = None" using new by (cases "tables_std rt") auto
  let ?a = "cat_next c"
  let ?ob = "upd_object_std (\<lambda>s. s\<lparr>use_cnt := of_nat (pinba_map_count (tables_names rt))\<rparr>) ob"
  define c' where "c' = c\<lparr>cat_heap := (cat_heap c)(?a \<mapsto> ?ob), cat_next := ?a + 1,
    reports_of := (reports_of c)(k := pinba_map_add (reports_of c k) ix ?a), reports_arr := (reports_arr c)(k := arr),
    reports_to_tables := pinba_map_add (reports_to_tables c) ix (rt\<lparr>tables_std := Some ?a\<rparr>)\<rparr>"
  have res: "pinba_update_report_tables ?a ix (set_array k arr (enter_report k ix ob c)) = (True, c')"
    using rt idle by (simp add: pinba_update_report_tables_def set_array_def enter_report_def c'_def)
  have r2t: "pinba_map_get (reports_to_tables c') = (pinba_map_get (reports_to_tables c))(ix \<mapsto> rt\<lparr>tables_std := Some ?a\<rparr>)"
    "map_wf (reports_to_tables c')"
    using m(1) by (simp_all add: c'_def maps_ok_def map_facts)
  have regs: "pinba_map_get (reports_of c' l) j = (if l = k \<and> j = ix then Some ?a else pinba_map_get (reports_of c l) j)"
    "map_wf (reports_of c' l)" for l j
    using m(1) by (simp_all add: c'_def maps_ok_def map_facts)
  have al: "array_ok arr" "array_list arr = array_list (reports_arr c k) @ [?a]"
    using report_array_result [of "reports_arr c k" ?a] m(1) by (auto simp: arr maps_ok_def split_beta)
  have arrs: "reports_arr c' l = (if l = k then arr else reports_arr c l)" for l by (simp add: c'_def)
  have same: "tables_to_reports c' = tables_to_reports c" "open_tables c' = open_tables c" "cat_next c' = Suc ?a"
    "cat_heap c' = (cat_heap c)(?a \<mapsto> ?ob)" by (simp_all add: c'_def)
  have fresh: "cat_heap c ?a = None" using m(5) unfolding heap_ok_def by blast
  have away: "pinba_map_get (reports_of c l) j \<noteq> Some ?a" for l j using registered_live(1) [OF c, of l j ?a] by blast
  have "maps_ok c'"
    using m(1) r2t(2) regs(2) al(1) rt unfolding maps_ok_def r2t(1) arrs same by (auto split: if_splits)
  moreover have "tables_ok c'"
    using m(2) rt unfolding tables_ok_def r2t(1) same by (auto split: if_splits)
  moreover have "active_ok c'"
    unfolding active_ok_def r2t(1) regs(1) same
  proof (intro allI impI)
    fix j r b assume g: "((pinba_map_get (reports_to_tables c))(ix \<mapsto> rt\<lparr>tables_std := Some ?a\<rparr>)) j = Some r" "tables_std r = Some b"
    show "\<exists>ob. ((cat_heap c)(?a \<mapsto> ?ob)) b = Some ob \<and> std_index (object_std ob) \<in> {Some j, None} \<and>
        use_cnt (object_std ob) = of_nat (pinba_map_count (tables_names r)) \<and> report_kind (object_std ob) = index_kind j \<and>
        (if index_kind j = k \<and> j = ix then Some ?a else pinba_map_get (reports_of c (index_kind j)) j) = Some b"
    proof (cases "j = ix")
      case False
      then obtain ob' where "cat_heap c b = Some ob'" "std_index (object_std ob') \<in> {Some j, None}"
        "use_cnt (object_std ob') = of_nat (pinba_map_count (tables_names r))" "report_kind (object_std ob') = index_kind j"
        "pinba_map_get (reports_of c (index_kind j)) j = Some b"
        using m(3) g unfolding active_ok_def by (simp split: if_splits) blast
      then show ?thesis using False fresh by auto
    qed (use g ob k in auto)
  qed
  moreover have "registries_ok c'"
  proof -
    have "ran (pinba_map_get (reports_of c' l)) = (if l = k then insert ?a (ran (pinba_map_get (reports_of c l))) else ran (pinba_map_get (reports_of c l)))" for l
    proof -
      have "pinba_map_get (reports_of c' l) = (if l = k then (pinba_map_get (reports_of c l))(ix \<mapsto> ?a) else pinba_map_get (reports_of c l))"
        by (auto simp: fun_eq_iff regs)
      then show ?thesis using new by simp
    qed
    moreover have "?a \<notin> ran (pinba_map_get (reports_of c l))" for l using away by (auto simp: ran_def)
    moreover have "\<exists>r. ((pinba_map_get (reports_to_tables c))(ix \<mapsto> rt\<lparr>tables_std := Some ?a\<rparr>)) j = Some r \<and> tables_std r = Some b"
      if reg: "pinba_map_get (reports_of c l) j = Some b" for l j b
    proof -
      obtain r where "pinba_map_get (reports_to_tables c) j = Some r" "tables_std r = Some b"
        using m(4) reg unfolding registries_ok_def by blast
      then show ?thesis using rt idle by (cases "j = ix") auto
    qed
    ultimately show ?thesis
      using m(4) al(2) k unfolding registries_ok_def r2t(1) regs(1) arrs by (auto simp: away split: if_splits)
  qed
  moreover have "heap_ok c'"
    unfolding heap_ok_def same regs(1)
  proof (intro allI impI)
    fix b assume b: "((cat_heap c)(?a \<mapsto> ?ob)) b \<noteq> None"
    show "b < Suc ?a \<and> (\<exists>l j. (if l = k \<and> j = ix then Some ?a else pinba_map_get (reports_of c l) j) = Some b)"
    proof (cases "b = ?a")
      case False
      then obtain l j where "b < ?a" "pinba_map_get (reports_of c l) j = Some b" using b m(5) unfolding heap_ok_def by fastforce
      then show ?thesis using new by (intro conjI exI [of _ l] exI [of _ j]) auto
    qed auto
  qed
  ultimately show ?thesis using res regs(1) [of k ix] same by (simp add: catalog_ok_def)
qed

end
