(* ===== verification/Catalog_Keep.thy ===== *)
theory Catalog_Keep
  imports Catalog_Invariant
begin

text \<open>
  The constructors keep the catalog consistent: a constructor is defined, answers a live report that is
  registered under the index of the share, or nothing. The index of a share begins with the code of
  its type, which decides the registry.
\<close>

section \<open>The constructors\<close>

lemma parse_conditions_frame:
  assumes "pinba_parse_conditions env share zero_std d = (s, d')"
  shows "report_kind s = PINBA_BASE_REPORT_KIND \<and> std_index s = None \<and> results_cnt s = 0 \<and> start s = null_timeval \<and>
     std_histogram s = pinba_lmap_create"
proof -
  have step: "report_kind (fst (parse_condition env c x)) = report_kind (fst x) \<and> std_index (fst (parse_condition env c x)) = std_index (fst x) \<and>
      results_cnt (fst (parse_condition env c x)) = results_cnt (fst x) \<and> start (fst (parse_condition env c x)) = start (fst x) \<and>
      std_histogram (fst (parse_condition env c x)) = std_histogram (fst x)" for c x
    by (cases c; cases x) (simp add: parse_condition_def Let_def split: prod.split)
  have "report_kind (fst (fold (parse_condition env) cs x)) = report_kind (fst x) \<and> std_index (fst (fold (parse_condition env) cs x)) = std_index (fst x) \<and>
      results_cnt (fst (fold (parse_condition env) cs x)) = results_cnt (fst x) \<and> start (fst (fold (parse_condition env) cs x)) = start (fst x) \<and>
      std_histogram (fst (fold (parse_condition env) cs x)) = std_histogram (fst x)" for cs x
    by (induction cs arbitrary: x) (simp_all add: step)
  note this [of "take (cond_num share) (conds share)"]
  from this [of "(zero_std\<lparr>std_histogram := pinba_lmap_create, histogram_max_time := histogram_max_time_var env,
      histogram_segment := fdiv round32 (f32_of_int (histogram_max_time_var env)) (f32_of_int (histogram_size_var env)),
      start := null_timeval\<rparr>, d)"]
  show ?thesis using assms by (simp add: pinba_parse_conditions_def zero_std_def)
qed

text \<open>
  \<open>answers\<close>: a constructor for the index \<open>ix\<close> is defined, keeps the catalog consistent, and the report it
  answers is registered and alive.
\<close>

definition answers :: "string \<Rightarrow> report_catalog \<Rightarrow> (nat option \<times> report_catalog) option \<Rightarrow> bool" where
  "answers ix c res \<longleftrightarrow>
     (\<exists>r c'. res = Some (r, c') \<and> catalog_ok c' \<and> tables_to_reports c' = tables_to_reports c \<and> open_tables c' = open_tables c \<and>
        (\<forall>a. r = Some a \<longrightarrow> pinba_map_get (reports_of c' (index_kind ix)) ix = Some a \<and> cat_heap c' a \<noteq> None))"

lemma answers_none: "catalog_ok c \<Longrightarrow> answers ix c (Some (None, c))" "catalog_ok c \<Longrightarrow> answers ix c (Some (None, c\<lparr>cat_dictionary := d\<rparr>))"
  by (simp_all add: answers_def)

lemma answers_known:
  "catalog_ok c \<Longrightarrow> pinba_map_get (reports_of c (index_kind ix)) ix = Some a \<Longrightarrow> answers ix c (Some (Some a, c))"
  using registered_live(2) by (simp add: answers_def)

lemma answers_dictionary: "answers ix (c\<lparr>cat_dictionary := d\<rparr>) res = answers ix c res"
  by (simp add: answers_def)

lemma array_add_rc [simp]: "fst (pinba_array_add True arr a) = 0"
  by (simp add: pinba_array_add_def)

lemma publish_ok:
  assumes "catalog_ok c" and "cre_array env" and "pinba_map_get (reports_to_tables c) ix \<noteq> None" and "k = index_kind ix"
    and "pinba_map_get (reports_of c k) ix = None" and "report_kind (object_std ob) = k" and "std_index (object_std ob) \<in> {Some ix, None}"
  shows "answers ix c (publish_report env k ix ob c)"
proof -
  obtain rt where "pinba_map_get (reports_to_tables c) ix = Some rt" using assms(3) by blast
  from enter_report_ok [OF assms(1) this assms(4-7) refl] obtain c' where
    u: "pinba_update_report_tables (cat_next c) ix (set_array k (snd (pinba_array_add True (reports_arr c k) (cat_next c))) (enter_report k ix ob c)) = (True, c')"
    and c': "catalog_ok c'" "pinba_map_get (reports_of c' k) ix = Some (cat_next c)" "tables_to_reports c' = tables_to_reports c"
      "open_tables c' = open_tables c" by blast
  have "reports_arr (enter_report k ix ob c) = reports_arr c" by (simp add: enter_report_def)
  then have "publish_report env k ix ob c = Some (Some (cat_next c), c')"
    unfolding publish_report_def Let_def using u assms(2) by (simp add: split_beta)
  then show ?thesis using c' registered_live(2) [OF c'(1,2)] assms(4) by (simp add: answers_def)
qed

lemma base_ok:
  assumes "catalog_ok c" and "cre_array env" and "pinba_map_get (reports_to_tables c) (share_index share) \<noteq> None"
    and "index_kind (share_index share) = PINBA_BASE_REPORT_KIND"
  shows "answers (share_index share) c (regenerate_base t env share c)"
proof (cases "pinba_map_get (reports_of c PINBA_BASE_REPORT_KIND) (share_index share)")
  case (Some a)
  then show ?thesis using answers_known [of c "share_index share" a] assms by (simp add: regenerate_base_def)
next
  case None
  let ?ix = "share_index share"
  obtain s d where p: "pinba_parse_conditions (cre_conditions env) share zero_std (cat_dictionary c) = (s, d)" by fastforce
  define ob where "ob = Base_object (t, \<lparr>std = s\<lparr>std_index := Some ?ix, rtype := t, time_interval := 1\<rparr>, results = None, totals = zero_totals\<rparr>)"
  let ?c = "c\<lparr>cat_dictionary := d\<rparr>"
  have ob: "report_kind (object_std ob) = PINBA_BASE_REPORT_KIND" "std_index (object_std ob) = Some ?ix"
    using parse_conditions_frame [OF p] by (simp_all add: ob_def)
  have "answers ?ix ?c (publish_report env PINBA_BASE_REPORT_KIND ?ix ob ?c)"
    using assms None ob by (intro publish_ok) simp_all
  moreover have "publish_report env PINBA_BASE_REPORT_KIND ?ix ob ?c = regenerate_base t env share c" if "cre_report env"
  proof -
    obtain rt where "pinba_map_get (reports_to_tables c) ?ix = Some rt" using assms(3) by blast
    then have "\<exists>c1. pinba_update_report_tables (cat_next c) ?ix (set_array PINBA_BASE_REPORT_KIND
        (snd (pinba_array_add True (reports_arr c PINBA_BASE_REPORT_KIND) (cat_next c))) (enter_report PINBA_BASE_REPORT_KIND ?ix ob ?c)) = (True, c1)"
      by (simp add: pinba_update_report_tables_def set_array_def enter_report_def)
    moreover have "reports_arr (enter_report PINBA_BASE_REPORT_KIND ?ix ob ?c) = reports_arr c" by (simp add: enter_report_def)
    ultimately show ?thesis
      using that None p assms(2) unfolding publish_report_def regenerate_base_def Let_def
      by (auto simp: split_beta ob_def [symmetric])
  qed
  ultimately show ?thesis
    using None assms(1) answers_none(1) [of c ?ix] by (cases "cre_report env") (simp_all add: answers_dictionary regenerate_base_def)
qed

lemma header_facts [simp]:
  "report_kind (fill_header i k t x s) = k" "std_index (fill_header i k t x s) = x"
  "object_std (new_tag_object t s ids) = s" "object_std (new_rtag_object t s ws) = s"
  by (simp_all add: fill_header_def new_tag_object_def new_rtag_object_def Let_def split: pinba_report_type.split)

lemma find_tags_defined: "\<forall>i \<in> set is. i < length (params share) \<Longrightarrow> find_tags is share g \<noteq> None"
  by (induction "is") (auto split: option.split)

lemma find_words_defined: "\<forall>i \<in> set is. i < length (params share) \<Longrightarrow> find_words is share ws d \<noteq> None"
  by (induction "is" arbitrary: ws d) (auto split: option.split prod.split)

lemma tags_ok:
  assumes "catalog_ok c" and "cre_array env" and "pinba_map_get (reports_to_tables c) (share_index share) \<noteq> None"
    and "index_kind (share_index share) = PINBA_TAG_REPORT_KIND" and "n \<le> length (params share)" and "params_num share = length (params share)"
  shows "answers (share_index share) c (regenerate_tags n indexed t env share g c)"
    and "answers (share_index share) c (regenerate_tagsN named indexed t env share g c)"
proof -
  let ?ix = "share_index share"
  obtain s d where p: "pinba_parse_conditions (cre_conditions env) share zero_std (cat_dictionary c) = (s, d)" by fastforce
  have pub: "answers ?ix c (publish_report env PINBA_TAG_REPORT_KIND ?ix
      (new_tag_object t (fill_header indexed PINBA_TAG_REPORT_KIND t (if b then Some ?ix else None) s) ids) (c\<lparr>cat_dictionary := d\<rparr>))"
    if "pinba_map_get (reports_of c PINBA_TAG_REPORT_KIND) ?ix = None" for ids b
    by (subst answers_dictionary [symmetric, where d = d], rule publish_ok) (use assms that in simp_all)
  have def: "find_tags [0..<n] share g \<noteq> None" "find_tags [0..<params_num share] share g \<noteq> None"
    using assms(5,6) find_tags_defined [of "[0..<n]" share g] find_tags_defined [of "[0..<params_num share]" share g] by simp_all
  note known = answers_known [OF assms(1), of ?ix, unfolded assms(4)]
  show "answers ?ix c (regenerate_tags n indexed t env share g c)"
    using def(1) pub [where b = True] known answers_none [OF assms(1)]
    by (auto simp: regenerate_tags_def Let_def p split: option.split)
  show "answers ?ix c (regenerate_tagsN named indexed t env share g c)"
    using def(2) pub [where b = named] known answers_none [OF assms(1)]
    by (auto simp: regenerate_tagsN_def Let_def p split: option.split)
qed

lemma rtags_ok:
  assumes "catalog_ok c" and "cre_array env" and "pinba_map_get (reports_to_tables c) (share_index share) \<noteq> None"
    and "index_kind (share_index share) = PINBA_RTAG_REPORT_KIND" and "checked \<or> n \<le> length (params share)"
    and "params_num share = length (params share)"
  shows "answers (share_index share) c (regenerate_rtags n checked indexed t env share c)"
    and "answers (share_index share) c (regenerate_rtagsN indexed t env share c)"
proof -
  let ?ix = "share_index share"
  have pub: "answers ?ix c (publish_report env PINBA_RTAG_REPORT_KIND ?ix
      (new_rtag_object t (fill_header indexed PINBA_RTAG_REPORT_KIND t (Some ?ix) s) ws) (c\<lparr>cat_dictionary := d\<rparr>))"
    if "pinba_map_get (reports_of c PINBA_RTAG_REPORT_KIND) ?ix = None" for ws s d
    by (subst answers_dictionary [symmetric, where d = d], rule publish_ok) (use assms that in simp_all)
  have def: "n \<le> length (params share) \<Longrightarrow> find_words [0..<n] share [] d \<noteq> None"
    "find_words [0..<params_num share] share [] d \<noteq> None" for d
    using assms(6) find_words_defined [of "[0..<n]" share "[]" d] find_words_defined [of "[0..<params_num share]" share "[]" d] by simp_all
  note known = answers_known [OF assms(1), of ?ix, unfolded assms(4)]
  show "answers ?ix c (regenerate_rtags n checked indexed t env share c)"
    using def(1) [of "cat_dictionary c"] pub known answers_none [OF assms(1)] assms(5,6)
    by (auto simp: regenerate_rtags_def Let_def split: option.split prod.split)
  show "answers ?ix c (regenerate_rtagsN indexed t env share c)"
    using def(2) [of "cat_dictionary c"] pub known answers_none [OF assms(1)]
    by (auto simp: regenerate_rtagsN_def Let_def split: option.split prod.split)
qed

text \<open>The parameters a constructor reads without a look at their number.\<close>

definition required_params :: "pinba_report_type \<Rightarrow> nat" where
  "required_params t =
     (if t \<in> {PINBA_TABLE_TAG2_INFO, PINBA_TABLE_TAG2_REPORT, PINBA_TABLE_TAG2_REPORT2, PINBA_TABLE_RTAG2_INFO} then 2
      else if t \<in> {PINBA_TABLE_TAG_INFO, PINBA_TABLE_TAG_REPORT, PINBA_TABLE_TAG_REPORT2, PINBA_TABLE_RTAG_INFO,
                   PINBA_TABLE_RTAG_REPORT} then 1 else 0)"

lemma regenerate_ok:
  assumes "catalog_ok c" and "cre_array env" and "pinba_map_get (reports_to_tables c) (share_index share) \<noteq> None"
    and "index_kind (share_index share) = report_kind_of t" and "required_params t \<le> length (params share)"
    and "params_num share = length (params share)" and "is_report_type t"
  shows "answers (share_index share) c (pinba_regenerate t env share g c)"
  using assms base_ok [OF assms(1-3)] tags_ok(1) [OF assms(1-3)] rtags_ok(1) [OF assms(1-3)]
    tags_ok(2) [OF assms(1-3), where n = 0] rtags_ok(2) [OF assms(1-3), where n = 0 and checked = True]
  by (cases t) (simp_all add: pinba_regenerate_def is_report_type_def type_code_def report_kind_of_def required_params_def
      pinba_regenerate_report_info_def pinba_regenerate_report1_def pinba_regenerate_report2_def pinba_regenerate_report3_def
      pinba_regenerate_report4_def pinba_regenerate_report5_def pinba_regenerate_report6_def pinba_regenerate_report7_def
      pinba_regenerate_report8_def pinba_regenerate_report9_def pinba_regenerate_report10_def pinba_regenerate_report11_def
      pinba_regenerate_report12_def pinba_regenerate_report13_def pinba_regenerate_report14_def pinba_regenerate_report15_def
      pinba_regenerate_report16_def pinba_regenerate_report17_def pinba_regenerate_report18_def
      pinba_regenerate_tag_info_def pinba_regenerate_tag2_info_def pinba_regenerate_tagN_info_def pinba_regenerate_tag_report_def
      pinba_regenerate_tag2_report_def pinba_regenerate_tagN_report_def pinba_regenerate_tag_report2_def
      pinba_regenerate_tag2_report2_def pinba_regenerate_tagN_report2_def pinba_regenerate_rtag_info_def pinba_regenerate_rtag2_info_def
      pinba_regenerate_rtagN_info_def pinba_regenerate_rtag_report_def pinba_regenerate_rtag2_report_def
      pinba_regenerate_rtagN_report_def)

section \<open>Shares\<close>

definition share_ok :: "pinba_share \<Rightarrow> bool" where
  "share_ok share \<longleftrightarrow> params_num share = length (params share) \<and> cond_num share = length (conds share) \<and>
     (is_report_type (report_type_of share) \<longrightarrow> index_kind (share_index share) = report_kind_of (report_type_of share))"

definition shares_ok :: "report_catalog \<Rightarrow> bool" where
  "shares_ok c \<longleftrightarrow> map_wf (open_tables c) \<and>
     (\<forall>n share. pinba_map_get (open_tables c) n = Some share \<longrightarrow>
        share_ok share \<and> pinba_map_get (tables_to_reports c) n = Some (share_index share))"

lemma parse_sections_counts:
  assumes "parse_sections mem parse_only str s = (num, s')" and "0 \<le> num"
    and "params_num s = length (params s)" and "cond_num s = length (conds s)"
  shows "params_num s' = length (params s') \<and> cond_num s' = length (conds s')"
  using assms by (auto simp: parse_sections_def Let_def split: prod.splits option.splits bool.splits if_splits)

lemma parse_params_counts:
  assumes "pinba_parse_params mem str t (Some zero_share) = (num, Some s)" and "0 \<le> num"
  shows "params_num s = length (params s) \<and> cond_num s = length (conds s)"
  using assms
  by (auto simp: pinba_parse_params_def Let_def zero_share_def split: prod.splits if_splits dest!: parse_sections_counts)

text \<open>An index is the code of the type, then nothing or a separator.\<close>

definition id_of_type :: "nat \<Rightarrow> string \<Rightarrow> bool" where
  "id_of_type n ix \<longleftrightarrow> (\<exists>r. ix = dec_string n @ r \<and> (r = [] \<or> hd r = CHR ''|''))"

lemma id_append_type: "id_of_type n ix \<Longrightarrow> id_of_type n (id_append (CHR ''|'' # s) ix)"
proof -
  assume "id_of_type n ix"
  then obtain r where r: "ix = dec_string n @ r" "r = [] \<or> hd r = CHR ''|''" by (auto simp: id_of_type_def)
  show ?thesis
  proof (cases "length ix < PINBA_MAX_LINE_LEN - 1")
    case True
    then have "take (PINBA_MAX_LINE_LEN - 1) (ix @ CHR ''|'' # s) = ix @ CHR ''|'' # take (PINBA_MAX_LINE_LEN - 2 - length ix) s"
      by (simp add: take_Cons' not_less)
    then show ?thesis using True r by (auto simp: id_of_type_def id_append_def hd_append)
  qed (use r in \<open>auto simp: id_of_type_def id_append_def\<close>)
qed

lemma id_fold_type:
  "id_of_type n ix \<Longrightarrow> id_of_type n (fold (\<lambda>p. id_append (id_param p)) ps ix)"
  "id_of_type n ix \<Longrightarrow> id_of_type n (fold (\<lambda>c. id_append (id_cond c)) cs ix)"
  by (induction ps arbitrary: ix, simp_all add: id_append_type id_param_def)
    (induction cs arbitrary: ix, simp_all add: id_append_type id_cond_def)

lemma id_start_type: "n < 100 \<Longrightarrow> id_of_type n (take (PINBA_MAX_LINE_LEN - 1) (dec_string n))"
  using length_dec_string [of n 1] by (simp add: id_of_type_def)

lemma type_code_less: "type_code t < 100"
  by (cases t) (simp_all add: type_code_def)

lemma id_type:
  "id_of_type (type_code (report_type_of share)) (share_index (pinba_get_report_id share))"
  "id_of_type (type_code (report_type_of share)) (share_index (pinba_get_tag_report_id share))"
  by (simp_all add: pinba_get_report_id_def pinba_get_tag_report_id_def Let_def id_fold_type id_start_type [unfolded One_nat_def] type_code_less
      del: PINBA_MAX_LINE_LEN_def)

lemma id_kind:
  assumes "id_of_type (type_code t) ix" and "is_report_type t"
  shows "index_kind ix = report_kind_of t"
proof -
  obtain r where r: "ix = dec_string (type_code t) @ r" "r = [] \<or> hd r = CHR ''|''" using assms(1) by (auto simp: id_of_type_def)
  have "takeWhile is_digit ix = dec_string (type_code t)"
    using r(2) dec_string_char unfolding r(1) by (cases r) (auto simp: takeWhile_append is_digit_def)
  then have "index_kind ix = (if type_code t \<ge> 36 then PINBA_RTAG_REPORT_KIND else if type_code t \<ge> 27 then PINBA_TAG_REPORT_KIND
      else PINBA_BASE_REPORT_KIND)"
    by (simp add: index_kind_def dec_string_val type_code_def [of PINBA_TABLE_RTAG_INFO] type_code_def [of PINBA_TABLE_TAG_INFO])
  then show ?thesis using assms(2) by (cases t) (simp_all add: type_code_def is_report_type_def report_kind_of_def)
qed

end
