(* ===== verification/Catalog_Run.thy ===== *)
theory Catalog_Run
  imports Catalog_Keep
begin

text \<open>
  Runs of the storage engine: tables are created, opened, closed, renamed, dropped and queried in any
  order the server allows, while the daemon works on the reports.
\<close>

section \<open>The share of a comment\<close>

text \<open>The index a comment leads to does not depend on the allocations that happened to succeed.\<close>

definition comment_index :: "string \<Rightarrow> string" where
  "comment_index str =
     (case pinba_get_table_type str of
        (type, kind) \<Rightarrow>
          (case pinba_parse_params (\<lambda>_. True) str type (Some zero_share) of
             (_, None) \<Rightarrow> []
           | (_, Some share) \<Rightarrow>
               let share = share\<lparr>table_type := type\<rparr>
               in share_index (if kind = PINBA_BASE_REPORT_KIND then pinba_get_report_id share else pinba_get_tag_report_id share)))"

lemma percentile_loop_mem:
  "percentile_loop mem False f p acc = (True, r) \<Longrightarrow> percentile_loop (\<lambda>_. True) False f p acc = (True, r)"
proof (induction "length p" arbitrary: p acc rule: less_induct)
  case less
  obtain item rest where sp: "c_split CHR '','' p = (item, rest)" by (cases "c_split CHR '','' p")
  show ?case
  proof (cases "p = []")
    case True
    then show ?thesis using less.prems by (simp add: percentile_loop.simps)
  next
    case False
    have shorter: "length (case rest of None \<Rightarrow> [] | Some p \<Rightarrow> p) < length p"
      using c_split_length [of item _ "CHR '',''" p] sp False by (cases rest) auto
    obtain x where x: "one_percentile f item rest = Some x"
      "percentile_loop mem False f (case rest of None \<Rightarrow> [] | Some p \<Rightarrow> p) (acc @ [x]) = (True, r)"
      using less.prems False sp by (subst (asm) percentile_loop.simps) (auto split: option.splits if_splits)
    show ?thesis
      using less.hyps [OF shorter x(2)] x(1) False sp by (subst percentile_loop.simps) simp
  qed
qed

lemma parse_params_mem:
  assumes "pinba_parse_params mem str t (Some s) = (num, Some s')" and "0 \<le> num"
  shows "pinba_parse_params (\<lambda>_. True) str t (Some s) = (num, Some s')"
proof -
  have pct: "parse_percentiles (\<lambda>_. True) False p acc = (True, r)" if "parse_percentiles mem False p acc = (True, r)" for p acc r
    using that percentile_loop_mem by (auto simp: parse_percentiles_def Let_def split: if_splits)
  have sec: "parse_sections (\<lambda>_. True) False str s = (n, s')" if "parse_sections mem False str s = (n, s')" "0 \<le> n" for str s n s'
    using that pct by (auto simp: parse_sections_def Let_def split: prod.splits option.splits bool.splits if_splits)
  show ?thesis
    using assms by (auto simp: pinba_parse_params_def Let_def split: prod.splits if_splits dest!: sec)
qed

lemma report_id_same [simp]:
  "pinba_get_report_id (s\<lparr>use_count := u, table_name := n, share_index := i\<rparr>) = (pinba_get_report_id s)\<lparr>use_count := u, table_name := n\<rparr>"
  "pinba_get_tag_report_id (s\<lparr>use_count := u, table_name := n, share_index := i\<rparr>) = (pinba_get_tag_report_id s)\<lparr>use_count := u, table_name := n\<rparr>"
  by (simp_all add: pinba_get_report_id_def pinba_get_tag_report_id_def report_type_of_def Let_def)

lemma share_id_ok:
  assumes "params_num s = length (params s)" and "cond_num s = length (conds s)"
  shows "share_ok ((pinba_get_report_id s)\<lparr>use_count := u, table_name := n\<rparr>)"
    and "share_ok ((pinba_get_tag_report_id s)\<lparr>use_count := u, table_name := n\<rparr>)"
proof -
  have t: "report_type_of ((pinba_get_report_id s)\<lparr>use_count := u, table_name := n\<rparr>) = report_type_of s"
    "report_type_of ((pinba_get_tag_report_id s)\<lparr>use_count := u, table_name := n\<rparr>) = report_type_of s"
    by (simp_all add: report_type_of_def pinba_get_report_id_def pinba_get_tag_report_id_def Let_def)
  show "share_ok ((pinba_get_report_id s)\<lparr>use_count := u, table_name := n\<rparr>)"
    and "share_ok ((pinba_get_tag_report_id s)\<lparr>use_count := u, table_name := n\<rparr>)"
    unfolding share_ok_def t using assms id_kind [OF id_type(1) [of s]] id_kind [OF id_type(2) [of s]]
    by (simp_all add: pinba_get_report_id_def pinba_get_tag_report_id_def Let_def)
qed

lemma get_share_new:
  assumes "get_share room mem name (Some str) c = (Some share, c')" and "pinba_map_get (open_tables c) name = None"
  shows "share_index share = comment_index str \<and> share_ok share \<and> use_count share = 1 \<and>
     c' = c\<lparr>open_tables := pinba_map_add (open_tables c) name share\<rparr>"
proof -
  obtain t kind where tk: "pinba_get_table_type str = (t, kind)" by fastforce
  obtain num s where ps: "pinba_parse_params mem str t (Some zero_share) = (num, Some s)" and num: "0 \<le> num"
    using assms tk by (auto simp: get_share_def Let_def split: prod.splits option.splits if_splits)
  let ?s = "s\<lparr>table_type := t\<rparr>"
  let ?id = "(if kind = PINBA_BASE_REPORT_KIND then pinba_get_report_id ?s else pinba_get_tag_report_id ?s)"
  have share: "share = ?id\<lparr>use_count := 1, table_name := name\<rparr>" "c' = c\<lparr>open_tables := pinba_map_add (open_tables c) name share\<rparr>"
    using assms tk ps num by (auto simp: get_share_def Let_def split: if_splits)
  have "params_num ?s = length (params ?s)" "cond_num ?s = length (conds ?s)"
    using parse_params_counts [OF ps num] by simp_all
  from share_id_ok [OF this, where u = 1 and n = name] have "share_ok share" by (simp add: share(1))
  moreover have "comment_index str = share_index share"
    using parse_params_mem [OF ps num] tk by (simp add: comment_index_def share(1) Let_def)
  ultimately show ?thesis using share by simp
qed

section \<open>The engine\<close>

text \<open>
  The server keeps the comment of every table (\<open>definitions\<close>) and its open handlers (\<open>handlers\<close>), and calls the
  handler methods. \<open>Work\<close> is the daemon: it replaces the contents of a report and the dictionary.
\<close>

record engine =
  definitions :: "(string \<times> string) list"
  handlers :: "(string \<times> nat) list"
  catalog :: report_catalog

datatype engine_event =
    Create string string
  | Open bool "nat \<Rightarrow> bool" string
  | Close string
  | Rename string string
  | Drop string
  | Query u64 create_env string pinba_daemon
  | Work nat report_object pinba_dictionary

definition handler_count :: "engine \<Rightarrow> string \<Rightarrow> nat" where
  "handler_count e n = (case map_of (handlers e) n of None \<Rightarrow> 0 | Some k \<Rightarrow> k)"

fun engine_exec :: "engine_event \<Rightarrow> engine \<Rightarrow> engine option" where
  "engine_exec (Create n str) e =
     Some (if ha_create (Some str) = HA_OK then e\<lparr>definitions := (n, str) # definitions e\<rparr> else e)"
| "engine_exec (Open room mem n) e =
     map_option (\<lambda>(rc, c). e\<lparr>handlers := if rc = HA_OK then (n, handler_count e n + 1) # handlers e else handlers e, catalog := c\<rparr>)
       (ha_open room mem n (map_of (definitions e) n) (catalog e))"
| "engine_exec (Close n) e =
     map_option (\<lambda>c. e\<lparr>handlers := (n, handler_count e n - 1) # handlers e, catalog := c\<rparr>) (ha_close n (catalog e))"
| "engine_exec (Rename a b) e =
     (case map_of (definitions e) a of
        None \<Rightarrow> Some e
      | Some str \<Rightarrow>
          (case ha_rename_table a b (catalog e) of
             (rc, c) \<Rightarrow>
               Some (e\<lparr>definitions := if rc = HA_OK then (b, str) # filter (\<lambda>x. fst x \<noteq> a) (definitions e) else definitions e,
                       catalog := c\<rparr>)))"
| "engine_exec (Drop n) e =
     map_option (\<lambda>c. e\<lparr>definitions := filter (\<lambda>x. fst x \<noteq> n) (definitions e), catalog := c\<rparr>) (ha_delete_table n (catalog e))"
| "engine_exec (Query hs env n D) e =
     (case pinba_map_get (open_tables (catalog e)) n of
        None \<Rightarrow> None
      | Some share \<Rightarrow> map_option (\<lambda>(_, c). e\<lparr>catalog := c\<rparr>) (ha_info hs env share D (catalog e)))"
| "engine_exec (Work a ob d) e =
     Some (e\<lparr>catalog := (catalog e)\<lparr>cat_heap := (cat_heap (catalog e))(a \<mapsto> ob), cat_dictionary := d\<rparr>\<rparr>)"

text \<open>
  What the server guarantees: a table is created once, opened, renamed and dropped while it is
  defined, renamed or dropped only when no handler has it open, and queried while it is open; the
  number of handlers and tables stays in the range of the counters. The daemon leaves the index, the
  kind and the use count of a report alone.
\<close>

fun server_allows :: "engine \<Rightarrow> engine_event \<Rightarrow> bool" where
  "server_allows e (Create n str) \<longleftrightarrow> map_of (definitions e) n = None"
| "server_allows e (Open room mem n) \<longleftrightarrow> map_of (definitions e) n \<noteq> None \<and> int (handler_count e n) < 2 ^ 32 - 1 \<and>
     int (pinba_map_count (tables_to_reports (catalog e))) < 2 ^ 32 - 1"
| "server_allows e (Close n) \<longleftrightarrow> 0 < handler_count e n"
| "server_allows e (Rename a b) \<longleftrightarrow> map_of (definitions e) a \<noteq> None \<and> map_of (definitions e) b = None \<and> handler_count e a = 0"
| "server_allows e (Drop n) \<longleftrightarrow> map_of (definitions e) n \<noteq> None \<and> handler_count e n = 0"
| "server_allows e (Query hs env n D) \<longleftrightarrow> 0 < handler_count e n"
| "server_allows e (Work a ob d) \<longleftrightarrow>
     (case cat_heap (catalog e) a of
        None \<Rightarrow> False
      | Some old \<Rightarrow> std_index (object_std ob) = std_index (object_std old) \<and> report_kind (object_std ob) = report_kind (object_std old) \<and>
          use_cnt (object_std ob) = use_cnt (object_std old))"

text \<open>
  The steps that the code handles. Neither the server nor the engine prevents the others: a query for
  which the array of reports cannot grow, a query of a table of one or two tags whose comment does
  not name them, and the drop of the last table of a \<^verbatim>\<open>tagN_report2\<close> report.
\<close>

fun step_handled :: "engine \<Rightarrow> engine_event \<Rightarrow> bool" where
  "step_handled e (Query hs env n D) \<longleftrightarrow> cre_array env \<and>
     (case pinba_map_get (open_tables (catalog e)) n of
        None \<Rightarrow> True
      | Some share \<Rightarrow> required_params (report_type_of share) \<le> length (params share))"
| "step_handled e (Drop n) \<longleftrightarrow> \<not> drop_unnamed (catalog e) n"
| "step_handled e ev \<longleftrightarrow> True"

text \<open>No table is known and no report exists when the plugin starts.\<close>

definition engine_start :: "pinba_dictionary \<Rightarrow> engine" where
  "engine_start d =
     \<lparr>definitions = [], handlers = [],
      catalog = \<lparr>cat_heap = Map.empty, cat_next = 0, reports_of = (\<lambda>_. pinba_map_create),
        reports_arr = (\<lambda>_. \<lparr>arr_data = None, arr_size = 0\<rparr>), reports_to_tables = pinba_map_create,
        tables_to_reports = pinba_map_create, open_tables = pinba_map_create, cat_dictionary = d\<rparr>\<rparr>"

text \<open>States that runs of handled steps lead to.\<close>

inductive engine_reachable :: "engine \<Rightarrow> bool" where
  start: "engine_reachable (engine_start d)"
| step: "engine_reachable e \<Longrightarrow> server_allows e ev \<Longrightarrow> step_handled e ev \<Longrightarrow> engine_exec ev e = Some e' \<Longrightarrow> engine_reachable e'"

text \<open>
  The invariant of a run: the catalog is consistent, a share is open exactly while a handler uses it and
  counts them, and every attached table is attached to the report its definition describes.
\<close>

definition engine_ok :: "engine \<Rightarrow> bool" where
  "engine_ok e \<longleftrightarrow>
     (let c = catalog e
      in catalog_ok c \<and> map_wf (open_tables c) \<and>
         (\<forall>n. case pinba_map_get (open_tables c) n of
                None \<Rightarrow> handler_count e n = 0
              | Some share \<Rightarrow> share_ok share \<and> pinba_map_get (tables_to_reports c) n = Some (share_index share) \<and>
                  use_count share = of_nat (handler_count e n) \<and> 0 < handler_count e n \<and> handler_count e n < 2 ^ 32) \<and>
         (\<forall>n ix. pinba_map_get (tables_to_reports c) n = Some ix \<longrightarrow>
            map_option comment_index (map_of (definitions e) n) = Some ix))"

lemma engine_okI:
  assumes "catalog_ok (catalog e)" and "map_wf (open_tables (catalog e))"
    and "\<And>n. pinba_map_get (open_tables (catalog e)) n = None \<Longrightarrow> handler_count e n = 0"
    and "\<And>n share. pinba_map_get (open_tables (catalog e)) n = Some share \<Longrightarrow>
       share_ok share \<and> pinba_map_get (tables_to_reports (catalog e)) n = Some (share_index share) \<and>
       use_count share = of_nat (handler_count e n) \<and> 0 < handler_count e n \<and> handler_count e n < 2 ^ 32"
    and "\<And>n ix. pinba_map_get (tables_to_reports (catalog e)) n = Some ix \<Longrightarrow> map_option comment_index (map_of (definitions e) n) = Some ix"
  shows "engine_ok e"
  using assms unfolding engine_ok_def Let_def by (auto split: option.split)

lemma engine_okD:
  assumes "engine_ok e"
  shows "catalog_ok (catalog e)" and "map_wf (open_tables (catalog e))"
    and "pinba_map_get (open_tables (catalog e)) n = None \<Longrightarrow> handler_count e n = 0"
    and "pinba_map_get (open_tables (catalog e)) n = Some share \<Longrightarrow>
       share_ok share \<and> pinba_map_get (tables_to_reports (catalog e)) n = Some (share_index share) \<and>
       use_count share = of_nat (handler_count e n) \<and> 0 < handler_count e n \<and> handler_count e n < 2 ^ 32"
    and "pinba_map_get (tables_to_reports (catalog e)) n = Some ix \<Longrightarrow> map_option comment_index (map_of (definitions e) n) = Some ix"
  using assms unfolding engine_ok_def Let_def by (auto split: option.splits dest!: spec [of _ n])

lemma start_ok: "engine_ok (engine_start d)"
  by (rule engine_okI)
    (simp_all add: engine_start_def catalog_defs wf_create handler_count_def array_ok_def array_list_def)

lemma handler_count_upd [simp]:
  "handler_count (e\<lparr>handlers := (n, k) # handlers e, catalog := c\<rparr>) m = (if m = n then k else handler_count e m)"
  "handler_count (e\<lparr>handlers := (n, k) # handlers e\<rparr>) m = (if m = n then k else handler_count e m)"
  "handler_count (e\<lparr>catalog := c\<rparr>) m = handler_count e m"
  "handler_count (e\<lparr>definitions := ds\<rparr>) m = handler_count e m"
  "handler_count (e\<lparr>definitions := ds, catalog := c\<rparr>) m = handler_count e m"
  by (simp_all add: handler_count_def)

lemma attach_frame: "attach_table n share c = Some c' \<Longrightarrow> open_tables c' = open_tables c"
  by (auto simp: attach_table_def Let_def split: option.splits if_splits)

lemma attach_tables:
  assumes "attach_table n share c = Some c'" and "m \<noteq> n" and "map_wf (tables_to_reports c)"
  shows "pinba_map_get (tables_to_reports c') m = pinba_map_get (tables_to_reports c) m"
  using assms by (auto simp: attach_table_def Let_def smap.get_add split: option.splits if_splits)

lemma attach_dictionary_frame:
  "attach_table n share (c\<lparr>open_tables := m\<rparr>) = map_option (\<lambda>c. c\<lparr>open_tables := m\<rparr>) (attach_table n share c)"
  by (auto simp: attach_table_def Let_def split: option.splits)

lemma get_share_facts:
  assumes e: "engine_ok e" and d: "map_of (definitions e) n = Some str"
    and g: "get_share room mem n (Some str) (catalog e) = (Some share, c')"
  shows "share_ok share" and "share_index share = comment_index str"
    and "use_count share = of_nat (Suc (handler_count e n))"
    and "c' = (catalog e)\<lparr>open_tables := pinba_map_add (open_tables (catalog e)) n share\<rparr>"
proof -
  have "share_ok share \<and> share_index share = comment_index str \<and> use_count share = of_nat (Suc (handler_count e n)) \<and>
    c' = (catalog e)\<lparr>open_tables := pinba_map_add (open_tables (catalog e)) n share\<rparr>"
  proof (cases "pinba_map_get (open_tables (catalog e)) n")
    case None
    then show ?thesis using get_share_new [OF g None] engine_okD(3) [OF e None] by simp
  next
    case (Some s)
    have s: "share = s\<lparr>use_count := use_count s + 1\<rparr>" "c' = (catalog e)\<lparr>open_tables := pinba_map_add (open_tables (catalog e)) n share\<rparr>"
      using g Some by (auto simp: get_share_def Let_def)
    have "share_ok share = share_ok s" by (simp add: s(1) share_ok_def report_type_of_def)
    then show ?thesis
      using engine_okD(4) [OF e Some] engine_okD(5) [OF e, of n "share_index s"] d s by (simp add: add.commute)
  qed
  then show "share_ok share" and "share_index share = comment_index str"
    and "use_count share = of_nat (Suc (handler_count e n))"
    and "c' = (catalog e)\<lparr>open_tables := pinba_map_add (open_tables (catalog e)) n share\<rparr>" by blast+
qed

lemma open_step:
  assumes e: "engine_ok e" and a: "server_allows e (Open room mem n)"
  shows "\<exists>e'. engine_exec (Open room mem n) e = Some e' \<and> engine_ok e'"
proof -
  obtain str where d: "map_of (definitions e) n = Some str" using a by auto
  obtain r c1 where g: "get_share room mem n (Some str) (catalog e) = (r, c1)" by fastforce
  show ?thesis
  proof (cases r)
    case None
    then have "c1 = catalog e" using g by (auto simp: get_share_def Let_def split: option.splits prod.splits if_splits)
    then show ?thesis using g d None e by (simp add: ha_open_def)
  next
    case (Some share)
    note sf = get_share_facts [OF e d g [unfolded Some]]
    have c1: "catalog_ok c1" using engine_okD(1) [OF e] sf(4) by simp
    have known: "\<forall>ix. pinba_map_get (tables_to_reports c1) n = Some ix \<longrightarrow> ix = share_index share"
      using engine_okD(5) [OF e, of n] d sf(2,4) by auto
    have room: "pinba_map_count (tables_to_reports c1) < 2 ^ 32 - 1" using a sf(4) by simp
    obtain c2 where c2: "attach_table n share c1 = Some c2" "catalog_ok c2" "pinba_map_get (tables_to_reports c2) n = Some (share_index share)"
      using attach_ok [OF c1 room known] by blast
    let ?e = "e\<lparr>handlers := (n, handler_count e n + 1) # handlers e, catalog := c2\<rparr>"
    have ot: "pinba_map_get (open_tables c2) = (pinba_map_get (open_tables (catalog e)))(n \<mapsto> share)" "map_wf (open_tables c2)"
      using attach_frame [OF c2(1)] sf(4) engine_okD(2) [OF e] by (simp_all add: map_facts)
    have wf: "map_wf (tables_to_reports c1)" using c1 by (simp add: catalog_ok_def maps_ok_def)
    have tt: "pinba_map_get (tables_to_reports c2) m = pinba_map_get (tables_to_reports (catalog e)) m" if "m \<noteq> n" for m
      using attach_tables [OF c2(1) that wf] sf(4) by simp
    have "engine_ok ?e"
    proof (rule engine_okI)
      fix m s assume m: "pinba_map_get (open_tables (catalog ?e)) m = Some s"
      show "share_ok s \<and> pinba_map_get (tables_to_reports (catalog ?e)) m = Some (share_index s) \<and>
         use_count s = of_nat (handler_count ?e m) \<and> 0 < handler_count ?e m \<and> handler_count ?e m < 2 ^ 32"
      proof (cases "m = n")
        case True
        then show ?thesis using m ot sf(1,3) c2(3) a by simp
      next
        case False
        then show ?thesis using m ot tt engine_okD(4) [OF e, of m s] by simp
      qed
    next
      fix m ix assume m: "pinba_map_get (tables_to_reports (catalog ?e)) m = Some ix"
      show "map_option comment_index (map_of (definitions ?e) m) = Some ix"
      proof (cases "m = n")
        case True
        then show ?thesis using m c2(3) sf(2) d by simp
      next
        case False
        then show ?thesis using m tt engine_okD(5) [OF e, of m ix] by simp
      qed
    qed (use c2(2) ot engine_okD(3) [OF e] in \<open>auto split: if_splits\<close>)
    then show ?thesis using d g Some c2(1) by (simp add: ha_open_def)
  qed
qed

lemma count_zero: "k < 2 ^ 32 \<Longrightarrow> (of_nat k :: u32) = 0 \<longleftrightarrow> k = 0"
  by (auto simp: word_of_nat_eq_0_iff dest: dvd_imp_le)

lemma close_step:
  assumes e: "engine_ok e" and a: "server_allows e (Close n)"
  shows "\<exists>e'. engine_exec (Close n) e = Some e' \<and> engine_ok e'"
proof -
  let ?k = "handler_count e n"
  obtain share where s: "pinba_map_get (open_tables (catalog e)) n = Some share"
    using a engine_okD(3) [OF e, of n] by (cases "pinba_map_get (open_tables (catalog e)) n") auto
  note so = engine_okD(4) [OF e s] and wf = engine_okD(2) [OF e]
  let ?s = "share\<lparr>use_count := use_count share - 1\<rparr>"
  have u: "use_count ?s = of_nat (?k - 1)" using so by (simp add: of_nat_diff)
  have z: "use_count ?s = 0 \<longleftrightarrow> ?k = 1"
    unfolding u using so count_zero [of "?k - 1"] by (metis One_nat_def Suc_pred diff_is_0_eq' diff_le_self le_less_trans le_numeral_extra(4))
  define m where "m = (if use_count ?s = 0 then map_del (open_tables (catalog e)) n else pinba_map_add (open_tables (catalog e)) n ?s)"
  have m: "pinba_map_get m = (pinba_map_get (open_tables (catalog e)))(n := if ?k = 1 then None else Some ?s)" "map_wf m"
    using wf z by (simp_all add: m_def map_facts)
  let ?e = "e\<lparr>handlers := (n, ?k - 1) # handlers e, catalog := (catalog e)\<lparr>open_tables := m\<rparr>\<rparr>"
  have same: "share_ok ?s = share_ok share" "share_index ?s = share_index share" by (simp_all add: share_ok_def report_type_of_def)
  have "engine_ok ?e"
  proof (rule engine_okI)
    fix j s' assume j: "pinba_map_get (open_tables (catalog ?e)) j = Some s'"
    show "share_ok s' \<and> pinba_map_get (tables_to_reports (catalog ?e)) j = Some (share_index s') \<and>
       use_count s' = of_nat (handler_count ?e j) \<and> 0 < handler_count ?e j \<and> handler_count ?e j < 2 ^ 32"
    proof (cases "j = n")
      case True
      then have "s' = ?s" "?k \<noteq> 1" using j m by (auto split: if_splits)
      then show ?thesis using True so same u by (simp add: less_imp_diff_less)
    next
      case False
      then show ?thesis using j m engine_okD(4) [OF e, of j s'] by simp
    qed
  next
    fix j assume "pinba_map_get (open_tables (catalog ?e)) j = None"
    then show "handler_count ?e j = 0" using m engine_okD(3) [OF e, of j] by (cases "j = n") (auto split: if_splits)
  next
    fix j ix assume "pinba_map_get (tables_to_reports (catalog ?e)) j = Some ix"
    then show "map_option comment_index (map_of (definitions ?e) j) = Some ix" using engine_okD(5) [OF e, of j ix] by simp
  qed (use engine_okD(1) [OF e] m(2) in simp_all)
  then show ?thesis using s by (simp add: ha_close_def free_share_def Let_def m_def)
qed

lemma map_of_forget: "map_of (filter (\<lambda>x. fst x \<noteq> n) xs) m = (if m = n then None else map_of xs m)"
  by (induction xs) auto

lemma not_attached:
  assumes "engine_ok e" and "map_of (definitions e) n = None"
  shows "pinba_map_get (tables_to_reports (catalog e)) n = None" and "pinba_map_get (open_tables (catalog e)) n = None"
proof -
  show t: "pinba_map_get (tables_to_reports (catalog e)) n = None"
    using engine_okD(5) [OF assms(1), of n] assms(2) by (cases "pinba_map_get (tables_to_reports (catalog e)) n") auto
  show "pinba_map_get (open_tables (catalog e)) n = None"
    using engine_okD(4) [OF assms(1), of n] t by (cases "pinba_map_get (open_tables (catalog e)) n") auto
qed

lemma not_open:
  assumes "engine_ok e" and "handler_count e n = 0"
  shows "pinba_map_get (open_tables (catalog e)) n = None"
  using engine_okD(4) [OF assms(1), of n] assms(2) by (cases "pinba_map_get (open_tables (catalog e)) n") auto

text \<open>Steps that change neither the open tables nor the handlers.\<close>

lemma frame_ok:
  assumes e: "engine_ok e" and c: "catalog_ok c" "open_tables c = open_tables (catalog e)"
    and t: "\<And>n. pinba_map_get (open_tables c) n \<noteq> None \<Longrightarrow>
       pinba_map_get (tables_to_reports c) n = pinba_map_get (tables_to_reports (catalog e)) n"
    and d: "\<And>n ix. pinba_map_get (tables_to_reports c) n = Some ix \<Longrightarrow> map_option comment_index (map_of ds n) = Some ix"
  shows "engine_ok (e\<lparr>definitions := ds, catalog := c\<rparr>)"
  using c(1) t d engine_okD(2) [OF e] engine_okD(3) [OF e] engine_okD(4) [OF e] by (intro engine_okI) (auto simp: c(2))

lemma rename_step:
  assumes e: "engine_ok e" and a: "server_allows e (Rename n m)"
  shows "\<exists>e'. engine_exec (Rename n m) e = Some e' \<and> engine_ok e'"
proof -
  let ?c = "catalog e"
  obtain str where d: "map_of (definitions e) n = Some str" "map_of (definitions e) m = None" "handler_count e n = 0" using a by auto
  have ne: "n \<noteq> m" using d by auto
  note free = not_attached [OF e d(2)] not_open [OF e d(3)]
  have wf: "map_wf (tables_to_reports ?c)" using engine_okD(1) [OF e] by (simp add: catalog_ok_def maps_ok_def)
  obtain rc c' where r: "ha_rename_table n m ?c = (rc, c')" by fastforce
  have c': "catalog_ok c'" using rename_ok [OF engine_okD(1) [OF e], of n m] r by simp
  have rc: "rc = HA_OK" "open_tables c' = open_tables ?c"
    using r free by (auto simp: ha_rename_table_def Let_def split: option.splits)
  have t: "pinba_map_get (tables_to_reports c') j =
      (if j = m then pinba_map_get (tables_to_reports ?c) n else if j = n then None else pinba_map_get (tables_to_reports ?c) j)" for j
    using r free ne wf by (auto simp: ha_rename_table_def Let_def map_facts split: option.splits)
  have "engine_ok (e\<lparr>definitions := (m, str) # filter (\<lambda>x. fst x \<noteq> n) (definitions e), catalog := c'\<rparr>)"
  proof (rule frame_ok [OF e c' rc(2)])
    fix j assume "pinba_map_get (open_tables c') j \<noteq> None"
    then show "pinba_map_get (tables_to_reports c') j = pinba_map_get (tables_to_reports ?c) j"
      using free rc(2) by (auto simp: t)
  next
    fix j ix assume "pinba_map_get (tables_to_reports c') j = Some ix"
    then show "map_option comment_index (map_of ((m, str) # filter (\<lambda>x. fst x \<noteq> n) (definitions e)) j) = Some ix"
      using engine_okD(5) [OF e, of j ix] engine_okD(5) [OF e, of n ix] d(1) by (auto simp: t map_of_forget split: if_splits)
  qed
  then show ?thesis using d(1) r rc(1) by simp
qed

lemma drop_frame: "pinba_table_to_report_dtor n c = Some c' \<Longrightarrow> open_tables c' = open_tables c"
  by (auto simp: pinba_table_to_report_dtor_def unregister_report_def pinba_report_dtor_def pinba_tag_report_dtor_def
      pinba_rtag_report_dtor_def Let_def split: option.splits if_splits pinba_report_kind.splits)

lemma drop_step:
  assumes e: "engine_ok e" and a: "server_allows e (Drop n)" and h: "step_handled e (Drop n)"
  shows "\<exists>e'. engine_exec (Drop n) e = Some e' \<and> engine_ok e'"
proof -
  obtain c' where c': "pinba_table_to_report_dtor n (catalog e) = Some c'" "catalog_ok c'" "pinba_map_get (tables_to_reports c') n = None"
    "\<forall>m. m \<noteq> n \<longrightarrow> pinba_map_get (tables_to_reports c') m = pinba_map_get (tables_to_reports (catalog e)) m"
    using drop_ok [OF engine_okD(1) [OF e], of n] h by auto
  note o = drop_frame [OF c'(1)]
  have "engine_ok (e\<lparr>definitions := filter (\<lambda>x. fst x \<noteq> n) (definitions e), catalog := c'\<rparr>)"
  proof (rule frame_ok [OF e c'(2) o])
    fix m assume "pinba_map_get (open_tables c') m \<noteq> None"
    then have "m \<noteq> n" using not_open [OF e, of n] a o by auto
    then show "pinba_map_get (tables_to_reports c') m = pinba_map_get (tables_to_reports (catalog e)) m" using c'(4) by simp
  next
    fix m ix assume m: "pinba_map_get (tables_to_reports c') m = Some ix"
    then have "m \<noteq> n" using c'(3) by auto
    then show "map_option comment_index (map_of (filter (\<lambda>x. fst x \<noteq> n) (definitions e)) m) = Some ix"
      using m c'(4) engine_okD(5) [OF e, of m ix] by (simp add: map_of_forget)
  qed
  then show ?thesis using c'(1) by (simp add: ha_delete_table_def)
qed

lemma work_ok:
  assumes "catalog_ok c" and "cat_heap c a = Some old" and "std_index (object_std ob) = std_index (object_std old)"
    and "report_kind (object_std ob) = report_kind (object_std old)" and "use_cnt (object_std ob) = use_cnt (object_std old)"
  shows "catalog_ok (c\<lparr>cat_heap := (cat_heap c)(a \<mapsto> ob), cat_dictionary := d\<rparr>)"
proof -
  have "active_ok (c\<lparr>cat_heap := (cat_heap c)(a \<mapsto> ob), cat_dictionary := d\<rparr>)"
    using assms unfolding catalog_ok_def active_ok_def by fastforce
  then show ?thesis
    using assms(1,2) unfolding catalog_ok_def by (simp add: maps_ok_def tables_ok_def registries_ok_def heap_ok_def)
qed

lemma handle_ok:
  assumes "catalog_ok c" and "cre_array env" and "pinba_map_get (reports_to_tables c) (share_index share) \<noteq> None"
    and "index_kind (share_index share) = report_kind_of t" and "required_params t \<le> length (params share)"
    and "params_num share = length (params share)" and "is_report_type t"
  shows "\<exists>r c'. handle_report t env share g c = Some (r, c') \<and> catalog_ok c' \<and> tables_to_reports c' = tables_to_reports c \<and>
     open_tables c' = open_tables c"
proof (cases "pinba_get_report (report_kind_of t) share c")
  case (Some a)
  then have "cat_heap c a \<noteq> None" using registered_live(2) [OF assms(1)] by (simp add: pinba_get_report_def)
  then show ?thesis using Some assms(1) by (auto simp: handle_report_def)
next
  case None
  obtain r c' where r: "pinba_regenerate t env share g c = Some (r, c')" "catalog_ok c'" "tables_to_reports c' = tables_to_reports c"
    "open_tables c' = open_tables c" "\<forall>a. r = Some a \<longrightarrow> cat_heap c' a \<noteq> None"
    using regenerate_ok [OF assms] unfolding answers_def by blast
  then show ?thesis using None by (cases r) (auto simp: handle_report_def)
qed

lemma info_cases:
  "ha_info hs env share D c =
     (if is_report_type (report_type_of share)
      then map_option (\<lambda>(n, c). (if table_type share = PINBA_TABLE_HISTOGRAM_VIEW then hs else n, c))
             (handle_report (report_type_of share) env share (registry D) c)
      else Some (fst (the (ha_info hs env share D c)), c))"
  by (cases "report_type_of share") (simp_all add: ha_info_def Let_def is_report_type_def type_code_def)

lemma query_step:
  assumes e: "engine_ok e" and a: "server_allows e (Query hs env n D)" and h: "step_handled e (Query hs env n D)"
  shows "\<exists>e'. engine_exec (Query hs env n D) e = Some e' \<and> engine_ok e'"
proof -
  let ?c = "catalog e"
  obtain share where s: "pinba_map_get (open_tables ?c) n = Some share"
    using a engine_okD(3) [OF e, of n] by (cases "pinba_map_get (open_tables ?c) n") auto
  note so = engine_okD(4) [OF e s] and c = engine_okD(1) [OF e]
  have "pinba_map_get (reports_to_tables ?c) (share_index share) \<noteq> None"
    using so c unfolding catalog_ok_def tables_ok_def by blast
  then have "\<exists>r c'. handle_report (report_type_of share) env share (registry D) ?c = Some (r, c') \<and> catalog_ok c' \<and>
      tables_to_reports c' = tables_to_reports ?c \<and> open_tables c' = open_tables ?c" if "is_report_type (report_type_of share)"
    using that h s so by (intro handle_ok [OF c]) (simp_all add: share_ok_def)
  then have "\<exists>r c'. ha_info hs env share D ?c = Some (r, c') \<and> catalog_ok c' \<and>
      tables_to_reports c' = tables_to_reports ?c \<and> open_tables c' = open_tables ?c"
    using c by (subst info_cases) (auto simp del: split_paired_Ex)
  then obtain r c' where r: "ha_info hs env share D ?c = Some (r, c')" "catalog_ok c'"
    "tables_to_reports c' = tables_to_reports ?c" "open_tables c' = open_tables ?c" by blast
  have "engine_ok (e\<lparr>definitions := definitions e, catalog := c'\<rparr>)"
    using engine_okD(5) [OF e] by (intro frame_ok [OF e r(2,4)]) (simp_all add: r(3))
  then show ?thesis using s r(1) by simp
qed

lemma engine_step_ok:
  assumes e: "engine_ok e" and a: "server_allows e ev" and h: "step_handled e ev"
  shows "\<exists>e'. engine_exec ev e = Some e' \<and> engine_ok e'"
proof (cases ev)
  case (Create n str)
  have "engine_ok (e\<lparr>definitions := (n, str) # definitions e, catalog := catalog e\<rparr>)"
    using engine_okD(5) [OF e] not_attached [OF e, of n] a Create
    by (intro frame_ok [OF e engine_okD(1) [OF e] refl]) (auto simp: )
  then show ?thesis using Create e by simp
next
  case (Work x ob d)
  then obtain old where old: "cat_heap (catalog e) x = Some old" "std_index (object_std ob) = std_index (object_std old)"
    "report_kind (object_std ob) = report_kind (object_std old)" "use_cnt (object_std ob) = use_cnt (object_std old)"
    using a by (auto split: option.splits)
  let ?c = "(catalog e)\<lparr>cat_heap := (cat_heap (catalog e))(x \<mapsto> ob), cat_dictionary := d\<rparr>"
  have "engine_ok (e\<lparr>definitions := definitions e, catalog := ?c\<rparr>)"
    using engine_okD(5) [OF e] by (intro frame_ok [OF e work_ok [OF engine_okD(1) [OF e] old]]) simp_all
  then show ?thesis using Work by simp
qed (use e a h open_step close_step rename_step drop_step query_step in blast)+

lemma reachable_ok: "engine_reachable e \<Longrightarrow> engine_ok e"
  by (induction rule: engine_reachable.induct) (use start_ok engine_step_ok in fastforce)+

end
