(* ===== verification/Catalog_Life.thy ===== *)
theory Catalog_Life
  imports Catalog_Run Daemon_Expire
begin

text \<open>
  What the invariant of a run says of reports: which steps are undefined, that a report lives exactly as
  long as a table has its index, and the two cases the engine does not handle.
\<close>

section \<open>Running a list of steps\<close>

fun engine_run :: "engine_event list \<Rightarrow> engine \<Rightarrow> engine option" where
  "engine_run [] e = Some e"
| "engine_run (ev # evs) e =
     (if server_allows e ev \<and> step_handled e ev then (case engine_exec ev e of None \<Rightarrow> None | Some e' \<Rightarrow> engine_run evs e') else None)"

lemma run_reachable: "engine_run evs e = Some e' \<Longrightarrow> engine_reachable e \<Longrightarrow> engine_reachable e'"
  by (induction evs e arbitrary: e' rule: engine_run.induct)
    (auto split: if_splits option.splits intro: engine_reachable.step)

lemma start_run: "engine_run evs (engine_start d) = Some e \<Longrightarrow> engine_reachable e"
  using run_reachable engine_reachable.start by blast

definition sample_create_env :: create_env where
  "sample_create_env =
     \<lparr>cre_conditions = sample_condition_env, cre_report = True, cre_tags = True, cre_index = True, cre_words = True, cre_array = True\<rparr>"

text \<open>Two tables of one report and a histogram view of it; the report is created by the first query.\<close>

definition sample_events :: "engine_event list" where
  "sample_events =
     [Create ''a'' ''report1'', Open True (\<lambda>_. True) ''a'', Create ''b'' ''hv.report1'', Open True (\<lambda>_. True) ''b'',
      Query 512 sample_create_env ''a'' sample_daemon, Close ''a'', Rename ''a'' ''c'', Close ''b'']"

definition engine_after :: "engine_event list \<Rightarrow> engine" where
  "engine_after evs = (case engine_run evs (engine_start sample_dictionary) of None \<Rightarrow> engine_start sample_dictionary | Some e \<Rightarrow> e)"

lemma after_reachable: "engine_reachable (engine_after evs)"
  using start_run engine_reachable.start by (auto simp: engine_after_def split: option.split)

text \<open>
  C5: In every run of the storage engine in which all steps are handled (\<open>step_handled\<close>: the arrays of
  reports can grow, queried tables of one or two tags name their tags, and the last table of a
  \<^verbatim>\<open>tagN_report2\<close> report is not dropped) the catalog is consistent. Whatever tables are created, opened (with
  allocations that may fail), closed, renamed, dropped and queried, in any order the server allows,
  while the daemon works on the reports: every attached table is entered under the index its comment
  describes and under no other, a report is registered under its index in the registry of its kind
  and in its array exactly once, it is alive and counts exactly the tables with its index, no report
  is alive that is not registered, and a share is open exactly as long as a handler uses it.
\<close>

theorem engine_run_invariant:
  assumes "engine_reachable e"
  shows "engine_ok e"
  using assms by (rule reachable_ok)

theorem engine_run_invariant_witness:
  "engine_ok (engine_after sample_events) \<and> map fst (handlers (engine_after sample_events)) = [''b'', ''a'', ''b'', ''a''] \<and>
   pinba_map_get (reports_of (catalog (engine_after sample_events)) PINBA_BASE_REPORT_KIND) ''9'' = Some 0"
proof (intro conjI)
  show "engine_ok (engine_after sample_events)" by (rule engine_run_invariant [OF after_reachable])
qed code_simp+

lemma drop_unnamed_undefined:
  assumes c: "catalog_ok c" and d: "drop_unnamed c n"
  shows "pinba_table_to_report_dtor n c = None"
proof -
  obtain ix rt a ob where t: "pinba_map_get (tables_to_reports c) n = Some ix" "pinba_map_get (reports_to_tables c) ix = Some rt"
      "pinba_map_count (tables_names rt) = 1" "tables_std rt = Some a" "cat_heap c a = Some ob" "std_index (object_std ob) = None"
    using d by (auto simp: drop_unnamed_def split: option.splits)
  have "use_cnt (object_std ob) = 1" using active_count [OF c t(2,4)] t(3,5) by auto
  then show ?thesis using t by (simp add: pinba_table_to_report_dtor_def unregister_report_def Let_def)
qed

text \<open>
  C6: Which steps of a run are undefined. In every state that a run of handled steps reaches, every
  operation the server may call completes if it is handled: it never follows the pointer to a freed
  report or share and never looks up a null key. Not handled are queries whose array of reports
  cannot grow or whose table of one or two tags does not name its tags, and drops of the last table
  of a \<^verbatim>\<open>tagN_report2\<close> report; among the drops exactly these are undefined.
\<close>

theorem engine_steps_defined:
  assumes "engine_reachable e" and "server_allows e ev"
  shows "(step_handled e ev \<longrightarrow> engine_exec ev e \<noteq> None) \<and>
     (\<forall>n. ev = Drop n \<longrightarrow> (engine_exec ev e = None \<longleftrightarrow> drop_unnamed (catalog e) n))"
proof -
  have ok: "engine_ok e" using reachable_ok [OF assms(1)] .
  have defined: "engine_exec ev e \<noteq> None" if "step_handled e ev" using engine_step_ok [OF ok assms(2) that] by auto
  moreover have "engine_exec ev e = None" if "ev = Drop n" "drop_unnamed (catalog e) n" for n
    using drop_unnamed_undefined [OF engine_okD(1) [OF ok] that(2)] that(1) by (simp add: ha_delete_table_def)
  ultimately show ?thesis by fastforce
qed

theorem engine_steps_defined_witness:
  "server_allows (engine_after sample_events) (Drop ''c'') \<and> engine_exec (Drop ''c'') (engine_after sample_events) \<noteq> None"
proof -
  have "server_allows (engine_after sample_events) (Drop ''c'')" "step_handled (engine_after sample_events) (Drop ''c'')" by code_simp+
  then show ?thesis using engine_steps_defined [OF after_reachable] by blast
qed

section \<open>The life of a report\<close>

lemma more_tables:
  assumes "catalog_ok c" and "pinba_map_get (reports_to_tables c) ix = Some rt" and "pinba_map_get (tables_to_reports c) n = Some ix"
  shows "pinba_map_count (tables_names rt) > 1 \<longleftrightarrow> (\<exists>m. m \<noteq> n \<and> pinba_map_get (tables_to_reports c) m = Some ix)"
proof -
  have tb: "tables_ok c" and wf: "map_wf (tables_names rt)" using assms(1,2) by (auto simp: catalog_ok_def maps_ok_def)
  have mem: "pinba_map_get (tables_to_reports c) m = Some ix \<longleftrightarrow> pinba_map_get (tables_names rt) m \<noteq> None" for m
    using tb assms(2) unfolding tables_ok_def by auto
  obtain p where p: "pinba_map_get (tables_names rt) n = Some p" using mem [of n] assms(3) by auto
  have "pinba_map_count (tables_names rt) > 1 \<longleftrightarrow> pinba_map_count (map_del (tables_names rt) n) \<noteq> 0"
    using count_map_del [OF wf p] by simp
  also have "\<dots> \<longleftrightarrow> pinba_map_get (map_del (tables_names rt) n) \<noteq> Map.empty"
    using smap.count_0_iff [OF wf_map_del [OF wf]] by simp
  also have "\<dots> \<longleftrightarrow> (\<exists>m. m \<noteq> n \<and> pinba_map_get (tables_names rt) m \<noteq> None)"
    using wf by (auto simp: get_map_del fun_eq_iff)
  finally show ?thesis by (simp add: mem)
qed

lemma unregistered_gone:
  assumes "catalog_ok c" and "cat_heap c a = None"
  shows "pinba_map_get (reports_of c k) j \<noteq> Some a" and "a \<notin> set (array_list (reports_arr c k))"
proof -
  show r: "pinba_map_get (reports_of c k) j \<noteq> Some a" for k j using registered_live(2) [OF assms(1)] assms(2) by blast
  have "set (array_list (reports_arr c k)) = ran (pinba_map_get (reports_of c k))"
    using assms(1) unfolding catalog_ok_def registries_ok_def by blast
  then show "a \<notin> set (array_list (reports_arr c k))" using r by (auto simp: ran_def)
qed

text \<open>
  C7: A report lives exactly as long as a table has its index. In every state that a run of handled
  steps reaches, dropping a table of a report completes, unless it is the last table of a report without
  index (\<^verbatim>\<open>tagN_report2\<close>). When another table has the same index the report stays where it is, with its rows,
  and only its use count goes down by one; when it was the last one the report is freed, is gone from
  every registry and every array, and the words of its conditions and tags are released.
\<close>

theorem report_lives_with_its_tables:
  assumes e: "engine_reachable e" and a: "server_allows e (Drop n)" and h: "\<not> drop_unnamed (catalog e) n"
    and t: "pinba_map_get (tables_to_reports (catalog e)) n = Some ix"
    and r: "pinba_map_get (reports_of (catalog e) (index_kind ix)) ix = Some a" and ob: "cat_heap (catalog e) a = Some ob"
  shows "\<exists>e'. engine_exec (Drop n) e = Some e' \<and>
     (if \<exists>m. m \<noteq> n \<and> pinba_map_get (tables_to_reports (catalog e)) m = Some ix
      then pinba_map_get (reports_of (catalog e') (index_kind ix)) ix = Some a \<and>
           cat_heap (catalog e') a = Some (upd_object_std (\<lambda>s. s\<lparr>use_cnt := use_cnt s - 1\<rparr>) ob) \<and>
           cat_dictionary (catalog e') = cat_dictionary (catalog e)
      else cat_heap (catalog e') a = None \<and>
           (\<forall>k j. pinba_map_get (reports_of (catalog e') k) j \<noteq> Some a \<and> a \<notin> set (array_list (reports_arr (catalog e') k))) \<and>
           cat_dictionary (catalog e') = release_object ob (cat_dictionary (catalog e)))"
proof -
  let ?c = "catalog e"
  have eo: "engine_ok e" using reachable_ok [OF e] .
  note c = engine_okD(1) [OF eo]
  obtain rt where rt: "pinba_map_get (reports_to_tables ?c) ix = Some rt" "tables_std rt = Some a"
    using c r unfolding catalog_ok_def registries_ok_def by blast
  obtain e' where e': "engine_exec (Drop n) e = Some e'" "engine_ok e'" using engine_step_ok [OF eo a] h by auto
  then have d: "pinba_table_to_report_dtor n ?c = Some (catalog e')" by (auto simp: ha_delete_table_def)
  note dr = drop_result [OF c h t rt(1) refl refl] and more = more_tables [OF c rt(1) t]
  have wf: "map_wf (tables_names rt)" using c rt by (auto simp: catalog_ok_def maps_ok_def)
  obtain p where p: "pinba_map_get (tables_names rt) n = Some p" using c t rt unfolding catalog_ok_def tables_ok_def by fastforce
  show ?thesis
  proof (cases "pinba_map_count (tables_names rt) > 1")
    case True
    have "use_cnt (object_std ob) = of_nat (pinba_map_count (tables_names rt))" using active_count [OF c rt] ob by auto
    then have "upd_object_std (\<lambda>s. s\<lparr>use_cnt := of_nat (pinba_map_count (map_del (tables_names rt) n))\<rparr>) ob =
        upd_object_std (\<lambda>s. s\<lparr>use_cnt := use_cnt s - 1\<rparr>) ob"
      using count_map_del [OF wf p] by (intro upd_object_cong) simp
    then show ?thesis using True more dr d e'(1) rt(2) r ob by (auto simp: retable_def)
  next
    case False
    have gone: "cat_heap (catalog e') a = None" using False dr d rt(2) by (auto simp: unlist_def Let_def)
    have "cat_dictionary (catalog e') = release_object ob (cat_dictionary ?c)" using False dr d rt(2) ob by auto
    then show ?thesis
      using False more e'(1) gone unregistered_gone [OF engine_okD(1) [OF e'(2)] gone] by auto
  qed
qed

theorem report_lives_with_its_tables_witness:
  "\<exists>e'. engine_exec (Drop ''c'') (engine_after sample_events) = Some e' \<and> cat_heap (catalog e') 0 \<noteq> None \<and>
     pinba_map_get (reports_of (catalog e') PINBA_BASE_REPORT_KIND) ''9'' = Some 0"
proof -
  let ?e = "engine_after sample_events"
  have a: "server_allows ?e (Drop ''c'')" by code_simp
  have h: "\<not> drop_unnamed (catalog ?e) ''c''" by code_simp
  have t: "pinba_map_get (tables_to_reports (catalog ?e)) ''c'' = Some ''9''" by code_simp
  have b: "pinba_map_get (tables_to_reports (catalog ?e)) ''b'' = Some ''9''" by code_simp
  have k: "index_kind ''9'' = PINBA_BASE_REPORT_KIND" by code_simp
  have r: "pinba_map_get (reports_of (catalog ?e) PINBA_BASE_REPORT_KIND) ''9'' = Some 0" by code_simp
  obtain ob where ob: "cat_heap (catalog ?e) 0 = Some ob"
    using registered_live(2) [OF engine_okD(1) [OF reachable_ok [OF after_reachable]] r] by blast
  have "\<exists>m. m \<noteq> ''c'' \<and> pinba_map_get (tables_to_reports (catalog ?e)) m = Some ''9''" using b by (intro exI [of _ "''b''"]) simp
  then show ?thesis
    using report_lives_with_its_tables [OF after_reachable a h t r [folded k] ob] by (auto simp: k)
qed

section \<open>What runs have to exclude\<close>

text \<open>
  C39: The constructor of \<^verbatim>\<open>tagN_report2\<close> does not store the index in the report. A table of this type
  can be opened and its report created, but when the last table of the report is dropped the null
  index is looked up in the registry, which is undefined, whatever tables are open by then.
\<close>

theorem tagN_report2_drop_undefined:
  assumes e: "engine_reachable e" and s: "pinba_map_get (open_tables (catalog e)) n = Some share"
    and ty: "report_type_of share = PINBA_TABLE_TAGN_REPORT2"
    and only: "\<forall>m. pinba_map_get (tables_to_reports (catalog e)) m = Some (share_index share) \<longrightarrow> m = n"
    and new: "pinba_map_get (reports_of (catalog e) PINBA_TAG_REPORT_KIND) (share_index share) = None"
    and q: "pinba_regenerate_tagN_report2 env share g (catalog e) = Some (Some a, c)"
  shows "ha_delete_table n (c\<lparr>open_tables := m\<rparr>) = None"
proof -
  let ?c = "catalog e" and ?ix = "share_index share"
  note c = engine_okD(1) [OF reachable_ok [OF e]] and so = engine_okD(4) [OF reachable_ok [OF e] s]
  then have t: "pinba_map_get (tables_to_reports ?c) n = Some ?ix" by blast
  have k: "index_kind ?ix = PINBA_TAG_REPORT_KIND"
    using so ty by (simp add: share_ok_def is_report_type_def type_code_def report_kind_of_def)
  obtain rt where rt: "pinba_map_get (reports_to_tables ?c) ?ix = Some rt" using c t unfolding catalog_ok_def tables_ok_def by blast
  have wf: "map_wf (reports_to_tables ?c)" using c by (simp add: catalog_ok_def maps_ok_def)
  have one: "pinba_map_count (tables_names rt) = 1"
    using more_tables [OF c rt t] only c rt unfolding catalog_ok_def tables_ok_def by (metis One_nat_def Suc_lessI)
  have idle: "tables_std rt = None"
    using c rt new [folded k] unfolding catalog_ok_def active_ok_def by (cases "tables_std rt") fastforce+
  obtain ids s d where pub: "publish_report env PINBA_TAG_REPORT_KIND ?ix
      (new_tag_object PINBA_TABLE_TAGN_REPORT2 (fill_header True PINBA_TAG_REPORT_KIND PINBA_TABLE_TAGN_REPORT2 None s) ids)
      (?c\<lparr>cat_dictionary := d\<rparr>) = Some (Some a, c)"
    using q new by (auto simp: pinba_regenerate_tagN_report2_def regenerate_tagsN_def Let_def split: option.splits if_splits prod.splits)
  define ob where "ob = new_tag_object PINBA_TABLE_TAGN_REPORT2
    (fill_header True PINBA_TAG_REPORT_KIND PINBA_TABLE_TAGN_REPORT2 None s) ids"
  have "pinba_map_get (reports_to_tables c) ?ix = Some (rt\<lparr>tables_std := Some a\<rparr>) \<and>
      cat_heap c a = Some (upd_object_std (\<lambda>s. s\<lparr>use_cnt := 1\<rparr>) ob) \<and> tables_to_reports c = tables_to_reports ?c \<and> map_wf (reports_to_tables c)"
    using pub rt idle one wf
    by (auto simp: publish_report_def pinba_update_report_tables_def enter_report_def set_array_def Let_def ob_def [symmetric] smap.get_add
        smap.inv_add split: prod.splits if_splits option.splits bool.splits)
  moreover have "std_index (object_std ob) = None" by (simp add: ob_def)
  ultimately show ?thesis
    using t by (simp add: ha_delete_table_def pinba_table_to_report_dtor_def unregister_report_def Let_def)
qed

definition sample_tagN_events :: "engine_event list" where
  "sample_tagN_events = [Create ''t'' ''tagN_report2:app'', Open True (\<lambda>_. True) ''t'']"

definition sample_tagN_share :: pinba_share where
  "sample_tagN_share =
     zero_share\<lparr>table_name := ''t'', use_count := 1, table_type := PINBA_TABLE_TAGN_REPORT2, params := [''app''], params_num := 1,
       share_index := ''35|app'', share_kind := PINBA_TAG_REPORT_KIND\<rparr>"

theorem tagN_report2_drop_undefined_witness:
  "\<exists>c. pinba_regenerate_tagN_report2 sample_create_env sample_tagN_share sample_registry (catalog (engine_after sample_tagN_events)) =
       Some (Some 0, c) \<and> ha_delete_table ''t'' (c\<lparr>open_tables := None\<rparr>) = None"
proof -
  let ?e = "engine_after sample_tagN_events"
  have s: "pinba_map_get (open_tables (catalog ?e)) ''t'' = Some sample_tagN_share" by code_simp
  have "tables_to_reports (catalog ?e) = Some [(''t'', ''35|app'')]" by code_simp
  then have only: "\<forall>m. pinba_map_get (tables_to_reports (catalog ?e)) m = Some (share_index sample_tagN_share) \<longrightarrow> m = ''t''"
    by (simp add: pinba_map_get_def)
  have new: "pinba_map_get (reports_of (catalog ?e) PINBA_TAG_REPORT_KIND) (share_index sample_tagN_share) = None" by code_simp
  have "map_option fst (pinba_regenerate_tagN_report2 sample_create_env sample_tagN_share sample_registry (catalog ?e)) = Some (Some 0)"
    by code_simp
  then obtain c where q: "pinba_regenerate_tagN_report2 sample_create_env sample_tagN_share sample_registry (catalog ?e) = Some (Some 0, c)"
    by auto
  show ?thesis
    using tagN_report2_drop_undefined [OF after_reachable s _ only new q] q by (simp add: sample_tagN_share_def report_type_of_def)
qed

text \<open>
  C40: A table of one or two tags whose comment names no tag is created and opened without complaint,
  but the first query reads a parameter that is not there: as long as no report has its index,
  asking for the number of its records is undefined. Only \<^verbatim>\<open>rtag2_report\<close> looks first.
\<close>

theorem missing_parameter_undefined:
  assumes "params share = []" and "0 < required_params (report_type_of share)"
    and "pinba_get_report (report_kind_of (report_type_of share)) share c = None"
  shows "ha_info hs env share D c = None"
proof -
  have find: "find_tags [0..<1] share g = None" "find_tags [0..<2] share g = None"
    "find_words [0..<1] share [] d = None" "find_words [0..<2] share [] d = None" for g d
    using assms(1) by (simp_all add: upt_rec [of 0])
  have "is_report_type (report_type_of share)"
    using assms(2) by (auto simp: required_params_def is_report_type_def type_code_def split: if_splits)
  moreover have "pinba_regenerate (report_type_of share) env share (registry D) c = None"
    using assms(2,3) find
    by (auto simp: required_params_def pinba_regenerate_def pinba_get_report_def report_kind_of_def regenerate_tags_def regenerate_rtags_def
        pinba_regenerate_tag_info_def pinba_regenerate_tag2_info_def pinba_regenerate_tag_report_def pinba_regenerate_tag2_report_def
        pinba_regenerate_tag_report2_def pinba_regenerate_tag2_report2_def pinba_regenerate_rtag_info_def
        pinba_regenerate_rtag2_info_def pinba_regenerate_rtag_report_def Let_def split: if_splits)
  ultimately show ?thesis using assms(3) by (subst info_cases) (simp add: handle_report_def)
qed

definition sample_tagless_events :: "engine_event list" where
  "sample_tagless_events = [Create ''t'' ''tag_report'', Open True (\<lambda>_. True) ''t'']"

definition sample_tagless_share :: pinba_share where
  "sample_tagless_share =
     zero_share\<lparr>table_name := ''t'', use_count := 1, table_type := PINBA_TABLE_TAG_REPORT, share_index := ''30'',
       share_kind := PINBA_TAG_REPORT_KIND\<rparr>"

theorem missing_parameter_undefined_witness:
  "ha_create (Some ''tag_report'') = HA_OK \<and> handlers (engine_after sample_tagless_events) = [(''t'', 1)] \<and>
   pinba_map_get (open_tables (catalog (engine_after sample_tagless_events))) ''t'' = Some sample_tagless_share \<and>
   ha_info 512 sample_create_env sample_tagless_share sample_daemon (catalog (engine_after sample_tagless_events)) = None"
proof (intro conjI)
  show "ha_info 512 sample_create_env sample_tagless_share sample_daemon (catalog (engine_after sample_tagless_events)) = None"
  proof (rule missing_parameter_undefined)
    show "params sample_tagless_share = []" by code_simp
    show "0 < required_params (report_type_of sample_tagless_share)" by code_simp
    show "pinba_get_report (report_kind_of (report_type_of sample_tagless_share)) sample_tagless_share
        (catalog (engine_after sample_tagless_events)) = None" by code_simp
  qed
qed code_simp+

end
