(* ===== verification/Spec2Isabelle.thy ===== *)
theory Spec2Isabelle
  imports Base_Reports Rtag_Reports Tag_Correct Daemon_Run Catalog_Life
begin

text \<open>
  \<^bold>\<open>Pinba engine\<close>

  Pinba is a statistics server inside a MySQL storage engine. A collector receives packets that
  describe requests (script, host, times, sizes, tags, timers). The data thread
  (\<^verbatim>\<open>src/main.cc\<close>) stores them in a ring of requests and a ring of timers and feeds them to the
  registered reports. The statistics thread (\<^verbatim>\<open>src/pool.cc\<close>) removes requests older than the
  history and subtracts them from the reports. The storage engine (\<^verbatim>\<open>src/ha_pinba.cc\<close>) creates
  reports from table comments and reads them as tables. Every report is a map from group keys to
  running sums, so it is correct exactly when adding and subtracting keep it equal to the
  aggregation of the requests in its window. That is the theme of the development.

  \<^bold>\<open>Layers and theories\<close>

  \<^item> \<open>Pinba_Prelude\<close>: machine types, collections of rules and lemmas on lists, words and options.
  \<^item> \<open>Timeval\<close>, \<open>Ieee_Float\<close>, \<open>Time_Conversion\<close>: the timeval macros of \<^verbatim>\<open>pinba.h\<close>, binary32 and
    binary64 arithmetic with rounding, and the conversions between them.
  \<^item> \<open>C_Buffers\<close>: bounded copies into fixed-size character arrays.
  \<^item> \<open>Pinba_Maps\<close>, \<open>Nested_Maps\<close>: the hash tables of \<^verbatim>\<open>pinba_map.cc\<close> and \<^verbatim>\<open>pinba_lmap.cc\<close>, and
    tables of tables.
  \<^item> \<open>Histogram\<close>, \<open>Percentile\<close>: histogram slots and the percentile code (\<^verbatim>\<open>pinba_percentile.h\<close>).
  \<^item> \<open>Records\<close>: requests, timers and report headers (\<^verbatim>\<open>pinba_types.h\<close>).
  \<^item> \<open>Report_Keys\<close>, \<open>Report_Rows\<close>, \<open>Window\<close>: the group keys of all reports, the row arithmetic,
    and the locale \<open>window_report\<close>: a report that adds and deletes correctly holds the
    aggregates of its window after any sequence of arrivals and departures.
  \<^item> \<open>Base_Reports\<close> (\<^verbatim>\<open>pinba_update_report.h\<close>), \<open>Rtag_Reports\<close>, \<open>Tag_Reports\<close>, \<open>Tag_Windows\<close>,
    \<open>Tag_Correct\<close> (\<^verbatim>\<open>data.cc\<close>): the three families of reports as instances of that locale.
  \<^item> \<open>Pool\<close>, \<open>Timer_Pool\<close>: ring buffers that grow, and the timers of each request.
  \<^item> \<open>Report_Jobs\<close>: report conditions, the array of registered reports and the job that feeds a
    report a range of the pool, with the locales \<open>fed_report\<close>, \<open>dated_report\<close> and
    \<open>idle_report\<close>, which add in turn the header of a report, its start time, and jobs that are
    skipped; \<open>Report_Feeds\<close> and \<open>Tag_Feeds\<close> interpret them on the report families.
  \<^item> \<open>Dictionary\<close>, \<open>Tag_Registry\<close>: interned words with reference counts, and tag descriptors.
  \<^item> \<open>Expiration\<close>, \<open>Daemon\<close>: the operations of the statistics thread on the state of the daemon.
  \<^item> \<open>Daemon_Invariant\<close>, \<open>Daemon_Expire\<close>: the invariant \<open>daemon_ok\<close> of the daemon and its
    preservation by a round of the statistics thread.
  \<^item> \<open>Packets\<close>: conversion of decoded messages (\<^verbatim>\<open>pinba.pb-c.cc\<close>) and their validation
    (\<^verbatim>\<open>pinba_request_validation.h\<close>).
  \<^item> \<open>Staging\<close>, \<open>Timer_Merge\<close>, \<open>Batch\<close>: a round of the data thread (\<^verbatim>\<open>pinba_data_main\<close>): the
    workers turn packets into staged records, copy them to free cells of the request pool, close
    the gaps of failed copies, feed the reports, merge the timers and publish the new requests.
  \<^item> \<open>Batch_Copy\<close>, \<open>Batch_Stage\<close>, \<open>Batch_Tags\<close>, \<open>Batch_Reports\<close>, \<open>Batch_Timers\<close>,
    \<open>Batch_Correct\<close>: what each of these steps does, and that a round keeps \<open>daemon_ok\<close>, both when tag
    names are admitted while staging and, with the default settings, when tags are created while
    merging. Rows and tag arrays must be allocated there: a timer stored without its tags is outside
    the invariant.
  \<^item> \<open>Daemon_Run\<close>: runs of the daemon as sequences of rounds, sweeps and new reports of all
    families, the invariant along every run, and that an expired daemon holds nothing any more.
  \<^item> \<open>Table_Comments\<close>: the type, parameters, conditions and percentiles of a table comment
    (\<^verbatim>\<open>pinba_get_table_type\<close> and \<^verbatim>\<open>pinba_parse_params\<close> of \<^verbatim>\<open>ha_pinba.cc\<close>) and their round trip.
  \<^item> \<open>Report_Conditions\<close>: the conditions of a new report (\<^verbatim>\<open>pinba_parse_conditions\<close>).
  \<^item> \<open>Report_Catalog\<close>, \<open>Report_Constructors\<close>: shares and tables, the index under which tables share a
    report, the registries of reports, and the constructors and destructors of all reports
    (\<^verbatim>\<open>ha_pinba.cc\<close>, \<^verbatim>\<open>pinba_regenerate_report.h\<close>, \<^verbatim>\<open>data.cc\<close>).
  \<^item> \<open>Catalog_Invariant\<close>, \<open>Catalog_Keep\<close>: the invariant \<open>catalog_ok\<close> of tables, reports, registries and the
    heap, and that every handler operation and every constructor keeps it.
  \<^item> \<open>Catalog_Run\<close>, \<open>Catalog_Life\<close>: runs of the storage engine as sequences of steps the server allows
    (\<open>server_allows\<close>), interleaved with the daemon. Three kinds of step that the server allows are
    not handled by the code (\<open>step_handled\<close>): a query whose array of reports cannot grow, a query of a
    table that does not name its tags, and the drop of the last table of a \<^verbatim>\<open>tagN_report2\<close> report.
    Along every run of the other steps the invariant holds and every step completes; the last two of
    the three are shown to be undefined. \<open>Catalog_Life\<close> also has the life of a report.
  \<^item> \<open>Samples\<close>: concrete data for the witnesses.

  \<^bold>\<open>Conventions\<close>

  Counters of the source are words of their width and wrap around; indices into pools are
  natural numbers, with the wrap of the ring written out. Allocation failures are arguments
  (\<open>ok\<close>, \<open>mem\<close>, \<open>room\<close>, and the fields of \<open>ingest_env\<close>, \<open>merge_env\<close>, \<open>batch_env\<close> and
  \<open>create_env\<close>); a flag of \<open>ingest_env\<close> decides all allocations of its kind in a round. Three
  allocations that the code does not check are taken to succeed: the entry of a table in
  \<^verbatim>\<open>ha_pinba::open\<close>, the arrays of tag conditions in \<^verbatim>\<open>pinba_parse_conditions\<close>, and the copy of a key
  in \<^verbatim>\<open>pinba_map_add\<close>. The number of requests in a window is bounded by \<open>WINDOW_MAX\<close>,
  which keeps the counters and the sums of sizes exact; the pools are far smaller. Loops over a
  ring take the size of the ring as fuel, and the theorems show that this is enough. The
  iteration order of the hash tables and the numbering of allocated addresses are parameters.
  The jobs of a thread pool touch disjoint data or hold a lock on what they share, so they run one
  after the other here, for any number of threads; words and tags are created in that order.

  \<^bold>\<open>Not modelled\<close>

  Sockets, thread loops and logging, the protobuf library, the hash function, and the row-fetching
  code that copies report fields into the fields of the server.
\<close>

end
